(* ===== verification/Go_Prelude.thy ===== *)
theory Go_Prelude
  imports Main "HOL-Library.Multiset" "HOL-Library.AList" "HOL-Library.Sublist"
begin

text \<open>
  What the components share: the Go string operations the code calls (package \<open>strings\<close>),
  the sort of package \<open>sort\<close> with the contract its callers rely on, Go maps, and the
  collections of rewrite rules the component theories extend.

  A Go string is its bytes, a HOL \<^typ>\<open>string\<close>. A Go map that is only read and written by key
  is a HOL map; a Go map that is ranged over is an association list with distinct keys, in
  the order of that iteration, so a theorem about every list is a theorem about every order
  the runtime may choose.
\<close>

named_theorems go_str \<open>rules for the string operations\<close>
named_theorems go_map \<open>rules for the maps of the model\<close>

section \<open>Strings\<close>

definition has_prefix :: "string \<Rightarrow> string \<Rightarrow> bool" where
  "has_prefix s p \<longleftrightarrow> take (length p) s = p"

definition trim_prefix :: "string \<Rightarrow> string \<Rightarrow> string" where
  "trim_prefix s p = (if has_prefix s p then drop (length p) s else s)"

text \<open>\<open>strings.Split\<close> with a separator of one byte: never the empty list.\<close>

fun split_on :: "char \<Rightarrow> string \<Rightarrow> string list" where
  "split_on c [] = [[]]"
| "split_on c (x # xs) =
     (if x = c then [] # split_on c xs
      else (x # hd (split_on c xs)) # tl (split_on c xs))"

text \<open>\<open>strings.Join\<close>\<close>

fun join_with :: "string \<Rightarrow> string list \<Rightarrow> string" where
  "join_with sep [] = []"
| "join_with sep [x] = x"
| "join_with sep (x # y # ys) = x @ sep @ join_with sep (y # ys)"

text \<open>\<open>strings.Index\<close>: the first position where the substring starts, -1 as \<^const>\<open>None\<close>.\<close>

fun index_of :: "string \<Rightarrow> string \<Rightarrow> nat option" where
  "index_of [] p = (if p = [] then Some 0 else None)"
| "index_of (c # cs) p =
     (if has_prefix (c # cs) p then Some 0 else map_option Suc (index_of cs p))"

text \<open>\<open>strings.TrimSpace\<close> on ASCII input.\<close>

definition is_space :: "char \<Rightarrow> bool" where
  "is_space c \<longleftrightarrow> c \<in> {CHR '' '', CHR 0x09, CHR 0x0A, CHR 0x0B, CHR 0x0C, CHR 0x0D}"

definition trim_space :: "string \<Rightarrow> string" where
  "trim_space s = rev (dropWhile is_space (rev (dropWhile is_space s)))"

definition trim_left :: "char \<Rightarrow> string \<Rightarrow> string" where
  "trim_left c s = dropWhile (\<lambda>x. x = c) s"

definition trim_right :: "char \<Rightarrow> string \<Rightarrow> string" where
  "trim_right c s = rev (dropWhile (\<lambda>x. x = c) (rev s))"

lemma has_prefix_append [simp, go_str]: "has_prefix (p @ s) p"
  by (simp add: has_prefix_def)

lemma has_prefix_Nil [simp, go_str]: "has_prefix s []"
  by (simp add: has_prefix_def)

lemma has_prefix_iff: "has_prefix s p \<longleftrightarrow> (\<exists>r. s = p @ r)"
  by (metis append_take_drop_id has_prefix_append has_prefix_def)

lemma has_prefix_prefix: "has_prefix s p \<longleftrightarrow> prefix p s"
  by (simp add: has_prefix_iff prefix_def)

lemma trim_prefix_append [simp, go_str]: "trim_prefix (p @ s) p = s"
  by (simp add: trim_prefix_def)

lemma split_on_not_Nil [simp, go_str]: "split_on c s \<noteq> []"
  by (cases s) auto

lemma join_split [simp, go_str]: "join_with [c] (split_on c s) = s"
proof (induction s)
  case (Cons x xs)
  obtain w ws where w: "split_on c xs = w # ws"
    by (cases "split_on c xs") auto
  with Cons.IH show ?case by (cases ws) auto
qed simp

lemma split_on_no_sep: "w \<in> set (split_on c s) \<Longrightarrow> c \<notin> set w"
proof (induction s arbitrary: w)
  case (Cons x xs)
  obtain v vs where "split_on c xs = v # vs"
    by (cases "split_on c xs") auto
  with Cons show ?case by (auto split: if_splits)
qed simp

lemma split_on_single [go_str]: "c \<notin> set s \<Longrightarrow> split_on c s = [s]"
  by (induction s) auto

lemma split_on_append_sep: "c \<notin> set w \<Longrightarrow> split_on c (w @ c # s) = w # split_on c s"
  by (induction w) auto

lemma split_join:
  "ws \<noteq> [] \<Longrightarrow> (\<And>w. w \<in> set ws \<Longrightarrow> c \<notin> set w) \<Longrightarrow> split_on c (join_with [c] ws) = ws"
proof (induction ws rule: induct_list012)
  case (3 x y ys)
  then show ?case by (simp add: split_on_append_sep)
qed (auto simp: split_on_single)

lemma index_of_Some:
  "index_of s p = Some i \<Longrightarrow> i \<le> length s \<and> has_prefix (drop i s) p"
  by (induction s arbitrary: i) (auto simp: has_prefix_def split: if_splits)

lemma index_of_least: "index_of s p = Some i \<Longrightarrow> j < i \<Longrightarrow> \<not> has_prefix (drop j s) p"
proof (induction s arbitrary: i j)
  case (Cons c cs)
  then show ?case by (cases j) (auto split: if_splits)
qed (auto split: if_splits)

lemma index_of_None: "index_of s p = None \<Longrightarrow> \<not> has_prefix (drop j s) p"
proof (induction s arbitrary: j)
  case (Cons c cs)
  then show ?case by (cases j) (auto split: if_splits)
qed (auto simp: has_prefix_def split: if_splits)

section \<open>Decimal numbers\<close>

text \<open>\<open>fmt.Sprintf\<close> of an unsigned integer, and \<open>strconv.ParseUint\<close> as the value of the digits.\<close>

definition digit_char :: "nat \<Rightarrow> char" where
  "digit_char d = char_of (48 + d)"

fun show_nat :: "nat \<Rightarrow> string" where
  "show_nat n = (if n < 10 then [digit_char n] else show_nat (n div 10) @ [digit_char (n mod 10)])"

declare show_nat.simps [simp del]

definition digit_val :: "char \<Rightarrow> nat option" where
  "digit_val c = (let k = of_char c in if 48 \<le> k \<and> k \<le> 57 then Some (k - 48) else None)"

fun digits_val :: "nat \<Rightarrow> string \<Rightarrow> nat option" where
  "digits_val acc [] = Some acc"
| "digits_val acc (c # cs) = (case digit_val c of None \<Rightarrow> None | Some d \<Rightarrow> digits_val (10 * acc + d) cs)"

lemma digit_val_char: "d < 10 \<Longrightarrow> digit_val (digit_char d) = Some d"
  by (simp add: digit_val_def digit_char_def Let_def)

lemma digits_val_append:
  "digits_val acc (xs @ ys) = (case digits_val acc xs of None \<Rightarrow> None | Some v \<Rightarrow> digits_val v ys)"
  by (induction xs arbitrary: acc) (auto split: option.splits)

lemma digits_val_show: "digits_val 0 (show_nat n) = Some n"
proof (induction n rule: show_nat.induct)
  case (1 n)
  show ?case
  proof (cases "n < 10")
    case True
    then show ?thesis by (simp add: show_nat.simps [of n] digit_val_char)
  next
    case False
    then show ?thesis using 1
      by (subst show_nat.simps) (simp add: digits_val_append digit_val_char)
  qed
qed

lemma show_nat_inj: "show_nat m = show_nat n \<longleftrightarrow> m = n"
  by (metis digits_val_show option.inject)

lemma show_nat_digits: "c \<in> set (show_nat n) \<Longrightarrow> digit_val c \<noteq> None"
proof (induction n rule: show_nat.induct)
  case (1 n)
  show ?case
  proof (cases "n < 10")
    case True
    then show ?thesis using "1.prems" by (simp add: show_nat.simps [of n] digit_val_char)
  next
    case False
    then have "c \<in> set (show_nat (n div 10)) \<or> c = digit_char (n mod 10)"
      using "1.prems" by (auto simp: show_nat.simps [of n])
    then show ?thesis using "1.IH" False by (auto simp: digit_val_char)
  qed
qed

lemma show_nat_not_Nil: "show_nat n \<noteq> []"
  by (subst show_nat.simps) auto

section \<open>Sorting\<close>

text \<open>
  \<open>sort.Slice\<close> with a \<open>less\<close> of the caller. Go sorts up to twelve elements by insertion:
  the next element moves left past the elements it is \<open>less\<close> than. Longer slices go through
  pdqsort, which may place elements that neither precede the other differently; what the
  callers may rely on is the contract \<open>slice_sort\<close> below, and the lemmas they use are its.
\<close>

definition go_insert :: "('a \<Rightarrow> 'a \<Rightarrow> bool) \<Rightarrow> 'a \<Rightarrow> 'a list \<Rightarrow> 'a list" where
  "go_insert lt x ys =
     rev (dropWhile (lt x) (rev ys)) @ [x] @ rev (takeWhile (lt x) (rev ys))"

definition sort_slice :: "('a \<Rightarrow> 'a \<Rightarrow> bool) \<Rightarrow> 'a list \<Rightarrow> 'a list" where
  "sort_slice lt xs = foldl (\<lambda>acc x. go_insert lt x acc) [] xs"

definition strict_weak :: "('a \<Rightarrow> 'a \<Rightarrow> bool) \<Rightarrow> bool" where
  "strict_weak lt \<longleftrightarrow>
     (\<forall>x y. lt x y \<longrightarrow> \<not> lt y x) \<and>
     (\<forall>x y z. \<not> lt y x \<longrightarrow> \<not> lt z y \<longrightarrow> \<not> lt z x)"

locale slice_sort =
  fixes srt :: "('a \<Rightarrow> 'a \<Rightarrow> bool) \<Rightarrow> 'a list \<Rightarrow> 'a list"
  assumes srt_perm: "mset (srt lt xs) = mset xs"
    and srt_sorted: "strict_weak lt \<Longrightarrow> sorted_wrt (\<lambda>a b. \<not> lt b a) (srt lt xs)"
begin

lemma set_srt: "set (srt lt xs) = set xs"
  by (metis srt_perm set_mset_mset)

lemma length_srt: "length (srt lt xs) = length xs"
  by (metis srt_perm size_mset)

lemma distinct_srt: "distinct (srt lt xs) \<longleftrightarrow> distinct xs"
  by (metis srt_perm mset_eq_imp_distinct_iff)

lemma distinct_map_srt: "distinct (map f (srt lt xs)) \<longleftrightarrow> distinct (map f xs)"
  by (metis srt_perm mset_map mset_eq_imp_distinct_iff)

lemma srt_first_minimal:
  assumes "strict_weak lt" and "srt lt xs = y # ys" and "x \<in> set xs"
  shows "\<not> lt x y"
proof -
  have s: "sorted_wrt (\<lambda>a b. \<not> lt b a) (y # ys)"
    using srt_sorted [OF assms(1), of xs] assms(2) by simp
  have "x = y \<or> x \<in> set ys"
    using assms(2,3) set_srt [of lt xs] by auto
  moreover have "\<not> lt y y"
    using assms(1) unfolding strict_weak_def by blast
  ultimately show ?thesis using s by auto
qed

end

lemma mset_go_insert: "mset (go_insert lt x ys) = add_mset x (mset ys)"
proof -
  have "mset ys = mset (takeWhile (lt x) (rev ys)) + mset (dropWhile (lt x) (rev ys))"
    by (metis mset_append mset_rev takeWhile_dropWhile_id)
  then show ?thesis by (simp add: go_insert_def)
qed

lemma mset_sort_foldl:
  "mset (foldl (\<lambda>acc x. go_insert lt x acc) ys xs) = mset ys + mset xs"
  by (induction xs arbitrary: ys) (auto simp: mset_go_insert)

lemma mset_sort_slice: "mset (sort_slice lt xs) = mset xs"
  by (simp add: sort_slice_def mset_sort_foldl)

lemma sorted_go_insert:
  assumes "strict_weak lt" and "sorted_wrt (\<lambda>a b. \<not> lt b a) ys"
  shows "sorted_wrt (\<lambda>a b. \<not> lt b a) (go_insert lt x ys)"
proof -
  define hi where "hi = rev (takeWhile (lt x) (rev ys))"
  define lo where "lo = rev (dropWhile (lt x) (rev ys))"
  have ys: "ys = lo @ hi"
    unfolding lo_def hi_def by (metis rev_append rev_rev_ident takeWhile_dropWhile_id)
  have parts: "sorted_wrt (\<lambda>a b. \<not> lt b a) lo" "sorted_wrt (\<lambda>a b. \<not> lt b a) hi"
    and cross: "\<And>a b. a \<in> set lo \<Longrightarrow> b \<in> set hi \<Longrightarrow> \<not> lt b a"
    using assms(2) unfolding ys by (auto simp: sorted_wrt_append)
  have hi: "lt x a" if "a \<in> set hi" for a
    using that unfolding hi_def by (auto dest: set_takeWhileD)
  have asym: "\<not> lt a x" if "a \<in> set hi" for a
    using assms(1) hi [OF that] unfolding strict_weak_def by blast
  have lo: "\<not> lt x a" if a: "a \<in> set lo" for a
  proof (cases "dropWhile (lt x) (rev ys)")
    case (Cons b bs)
    have b: "\<not> lt x b"
      using hd_dropWhile [of "lt x" "rev ys"] Cons by simp
    have lo_eq: "lo = rev bs @ [b]" unfolding lo_def Cons by simp
    then have "a = b \<or> \<not> lt b a"
      using parts(1) a by (auto simp: sorted_wrt_append)
    with b show ?thesis using assms(1) unfolding strict_weak_def by blast
  next
    case Nil
    then have "lo = []" by (simp only: lo_def rev.simps)
    then show ?thesis using a by simp
  qed
  have "sorted_wrt (\<lambda>a b. \<not> lt b a) (lo @ [x] @ hi)"
    using parts cross lo asym by (simp add: sorted_wrt_append ball_Un)
  then show ?thesis by (simp add: go_insert_def lo_def hi_def)
qed

lemma sorted_sort_foldl:
  assumes "strict_weak lt" and "sorted_wrt (\<lambda>a b. \<not> lt b a) ys"
  shows "sorted_wrt (\<lambda>a b. \<not> lt b a) (foldl (\<lambda>acc x. go_insert lt x acc) ys xs)"
  using assms(2)
  by (induction xs arbitrary: ys) (auto intro: sorted_go_insert [OF assms(1)])

interpretation gs: slice_sort sort_slice
  by unfold_locales (simp add: mset_sort_slice, simp add: sort_slice_def sorted_sort_foldl)

text \<open>A \<open>less\<close> that compares a score is a strict weak order.\<close>

lemma strict_weak_score: "strict_weak (\<lambda>x y. (f x :: 'b :: linorder) < f y)"
  by (auto simp: strict_weak_def)

section \<open>Maps that are ranged over\<close>

type_synonym ('k, 'v) gomap = "('k \<times> 'v) list"

abbreviation wf_map :: "('k, 'v) gomap \<Rightarrow> bool" where
  "wf_map m \<equiv> distinct (map fst m)"

lemma wf_map_update [simp, go_map]: "wf_map m \<Longrightarrow> wf_map (AList.update k v m)"
  by (rule distinct_update)

lemma wf_map_delete [simp, go_map]: "wf_map m \<Longrightarrow> wf_map (AList.delete k m)"
  by (rule distinct_delete)

lemma map_of_update [simp, go_map]: "map_of (AList.update k v m) = (map_of m)(k \<mapsto> v)"
  by (rule update_conv')

lemma map_of_delete [simp, go_map]: "map_of (AList.delete k m) = (map_of m)(k := None)"
  by (rule delete_conv')

lemma update_mem: "(a, b) \<in> set (AList.update k v m) \<Longrightarrow> a = k \<and> b = v \<or> (a, b) \<in> set m"
  by (induction m) (auto split: if_splits)

lemma set_delete_subset: "set (AList.delete k m) \<subseteq> set m"
  by (induction m) auto

lemma map_of_mem: "wf_map m \<Longrightarrow> (k, v) \<in> set m \<longleftrightarrow> map_of m k = Some v"
  by simp

lemma map_of_filter_val:
  "wf_map m \<Longrightarrow> map_of (filter (\<lambda>(k, v). P k v) m) k
     = (case map_of m k of None \<Rightarrow> None | Some v \<Rightarrow> if P k v then Some v else None)"
proof (induction m)
  case (Cons a m)
  obtain k' v' where a: "a = (k', v')" by (cases a)
  with Cons.prems have "k' \<notin> fst ` set m" and wf: "wf_map m" by auto
  then have "map_of m k' = None" by (simp add: map_of_eq_None_iff)
  with a Cons.IH [OF wf] show ?case by auto
qed simp


text \<open>Reading a missing key of a map of strings gives the empty string.\<close>

definition get_str :: "('k, string) gomap \<Rightarrow> 'k \<Rightarrow> string" where
  "get_str m k = (case map_of m k of None \<Rightarrow> [] | Some v \<Rightarrow> v)"

text \<open>\<open>strconv.ParseBool\<close> and \<open>strings.Contains\<close>\<close>

definition parse_bool :: "string \<Rightarrow> bool option" where
  "parse_bool s =
     (if s \<in> {''1'', ''t'', ''T'', ''TRUE'', ''true'', ''True''} then Some True
      else if s \<in> {''0'', ''f'', ''F'', ''FALSE'', ''false'', ''False''} then Some False
      else None)"

definition contains_str :: "string \<Rightarrow> string \<Rightarrow> bool" where
  "contains_str s p \<longleftrightarrow> index_of s p \<noteq> None"

end
