(* ===== verification/Go_Util.thy ===== *)
theory Go_Util
  imports Go_Prelude "HOL-Library.Word"
begin

unbundle bit_operations_syntax

text \<open>
  The helpers of \<open>pkg/utils/util.go\<close> and \<open>pkg/utils/slice/string.go\<close> that the components use:
  ids out of request paths, password rules, the encryption of the OAuth state, slices of
  strings. \<open>int\<close> and \<open>uint\<close> have 64 bits.

  Of the standard library the model writes out \<open>strconv.Atoi\<close>, CBC mode and base64; the block
  cipher \<open>des.NewCipher\<close> is a parameter.
\<close>

section \<open>Numbers in text\<close>

definition strconv_Atoi :: "string \<Rightarrow> int option" where
  "strconv_Atoi s =
    (let (neg, ds) = (case s of [] \<Rightarrow> (False, [])
            | c # cs \<Rightarrow> if c = CHR ''-'' then (True, cs) else if c = CHR ''+'' then (False, cs) else (False, s))
     in if ds = [] then None
        else case digits_val 0 ds of
          None \<Rightarrow> None
        | Some n \<Rightarrow> let v = (if neg then - int n else int n) in
            if - (2 ^ 63) \<le> v \<and> v < 2 ^ 63 then Some v else None)"

definition ToUint :: "string \<Rightarrow> 64 word" where
  "ToUint i = (case strconv_Atoi i of None \<Rightarrow> 0 | Some n \<Rightarrow> word_of_int n)"

definition UintToStr :: "64 word option \<Rightarrow> string" where
  "UintToStr i = (case i of None \<Rightarrow> []
     | Some n \<Rightarrow> (let v = sint n in if v < 0 then CHR ''-'' # show_nat (nat (- v)) else show_nat (nat v)))"

definition StrOrDef :: "string \<Rightarrow> string \<Rightarrow> string" where
  "StrOrDef s def = (if s = [] then def else s)"

definition to_lower :: "char \<Rightarrow> char" where
  "to_lower c = (let k = of_char c :: nat in if 65 \<le> k \<and> k \<le> 90 then char_of (k + 32) else c)"

definition JoinFlagName :: "string \<Rightarrow> string \<Rightarrow> string" where
  "JoinFlagName pre key = (if pre = [] then map to_lower key else map to_lower (pre @ ''-'' @ key))"

definition BoolToString :: "bool \<Rightarrow> string" where
  "BoolToString a = (if a then ''1'' else ''0'')"

section \<open>Passwords\<close>

definition in_range :: "nat \<Rightarrow> nat \<Rightarrow> char \<Rightarrow> bool" where
  "in_range lo hi c \<longleftrightarrow> lo \<le> of_char c \<and> of_char c \<le> hi"

text \<open>\<open>ValidPassword\<close>; every failure is the same error, here \<^const>\<open>False\<close>. The length is in bytes.\<close>

definition ValidPassword :: "string \<Rightarrow> bool" where
  "ValidPassword s =
    (if length s < 8 then False
     else if \<not> list_ex (in_range 65 90) s then False
     else if \<not> list_ex (in_range 97 122) s then False
     else if \<not> list_ex (in_range 48 57) s then False
     else if \<not> list_ex (\<lambda>c. c \<in> set ''!.@#$%~'') s then False
     else True)"

section \<open>Slices of strings\<close>

fun ContainStr :: "string list \<Rightarrow> string \<Rightarrow> bool" where
  "ContainStr [] d = False"
| "ContainStr (s # ss) d = (if s = d then True else ContainStr ss d)"

fun RemoveStr :: "string list \<Rightarrow> string \<Rightarrow> string list" where
  "RemoveStr [] d = []"
| "RemoveStr (s # ss) d = (if s \<noteq> d then s # RemoveStr ss d else RemoveStr ss d)"

text \<open>
  \<open>RemoveStrInReplace\<close> compacts its argument in place: the loop from index \<open>i\<close> on, with the
  contents of the array and \<open>index\<close>. The result is the array afterwards and the slice returned.
\<close>

fun compact_loop :: "nat \<Rightarrow> nat \<Rightarrow> nat \<Rightarrow> string list \<Rightarrow> string \<Rightarrow> string list \<times> nat" where
  "compact_loop 0 i index src d = (src, index)"
| "compact_loop (Suc n) i index src d =
     (if src ! i \<noteq> d then compact_loop n (Suc i) (Suc index) (src[index := src ! i]) d
      else compact_loop n (Suc i) index src d)"

definition RemoveStrInReplace :: "string list \<Rightarrow> string \<Rightarrow> string list \<times> string list" where
  "RemoveStrInReplace src d =
     (let (src', index) = compact_loop (length src) 0 0 src d in (src', take index src'))"

text \<open>The fields of a struct as their kind and value; \<open>break\<close> leaves the \<open>switch\<close>, not the loop.\<close>

datatype struct_field = FString string | FInt int | FOther

definition field_empty :: "struct_field \<Rightarrow> bool" where
  "field_empty f = (case f of FString s \<Rightarrow> s = [] | FInt n \<Rightarrow> n = 0 | FOther \<Rightarrow> False)"

definition CheckStructFieldsEmpty :: "(string \<times> struct_field) list \<Rightarrow> string option" where
  "CheckStructFieldsEmpty fields =
    (let e = foldl (\<lambda>acc (n, f). if field_empty f then n else acc) [] fields
     in if e \<noteq> [] then Some (''field '' @ e @ '' is tmpty'') else None)"

section \<open>Encryption\<close>

type_synonym bytes = "8 word list"

definition Padding :: "bytes \<Rightarrow> nat \<Rightarrow> bytes" where
  "Padding cipherText blockSize =
    (let padding = blockSize - length cipherText mod blockSize
     in cipherText @ replicate padding (word_of_nat padding))"

text \<open>\<open>UnPadding\<close>; \<^const>\<open>None\<close> where the slice bound is negative, a panic.\<close>

definition UnPadding :: "bytes \<Rightarrow> bytes option" where
  "UnPadding data =
    (let n = length data in
     if n = 0 then Some []
     else let unpadding = unat (data ! (n - 1)) in
       if unpadding > n then None else Some (take (n - unpadding) data))"

subsection \<open>CBC mode\<close>

definition xor_block :: "bytes \<Rightarrow> bytes \<Rightarrow> bytes" where
  "xor_block a b = map2 (XOR) a b"

function cbc_encrypt :: "(bytes \<Rightarrow> bytes) \<Rightarrow> bytes \<Rightarrow> bytes \<Rightarrow> bytes" where
  "cbc_encrypt E iv data =
     (if length data < 8 then [] else
      let c = E (xor_block iv (take 8 data)) in c @ cbc_encrypt E c (drop 8 data))"
  by auto
termination by (relation "measure (\<lambda>(E, iv, data). length data)") auto

function cbc_decrypt :: "(bytes \<Rightarrow> bytes) \<Rightarrow> bytes \<Rightarrow> bytes \<Rightarrow> bytes" where
  "cbc_decrypt D iv data =
     (if length data < 8 then [] else
      let c = take 8 data in xor_block iv (D c) @ cbc_decrypt D c (drop 8 data))"
  by auto
termination by (relation "measure (\<lambda>(D, iv, data). length data)") auto

declare cbc_encrypt.simps [simp del] cbc_decrypt.simps [simp del]

subsection \<open>Base64\<close>

definition b64_char :: "nat \<Rightarrow> char" where
  "b64_char i = (if i < 26 then char_of (65 + i) else if i < 52 then char_of (71 + i)
     else if i < 62 then char_of (i - 4) else if i = 62 then CHR ''+'' else CHR ''/'')"

definition b64_val :: "char \<Rightarrow> nat option" where
  "b64_val c = (if in_range 65 90 c then Some (of_char c - 65)
     else if in_range 97 122 c then Some (of_char c - 71)
     else if in_range 48 57 c then Some (of_char c + 4)
     else if c = CHR ''+'' then Some 62 else if c = CHR ''/'' then Some 63 else None)"

fun b64_encode :: "bytes \<Rightarrow> string" where
  "b64_encode [] = []"
| "b64_encode [a] = [b64_char (unat a div 4), b64_char (unat a mod 4 * 16), CHR ''='', CHR ''='']"
| "b64_encode [a, b] = [b64_char (unat a div 4), b64_char (unat a mod 4 * 16 + unat b div 16),
     b64_char (unat b mod 16 * 4), CHR ''='']"
| "b64_encode (a # b # c # r) = b64_char (unat a div 4) # b64_char (unat a mod 4 * 16 + unat b div 16) #
     b64_char (unat b mod 16 * 4 + unat c div 64) # b64_char (unat c mod 64) # b64_encode r"

fun b64_quads :: "string \<Rightarrow> bytes option" where
  "b64_quads [] = Some []"
| "b64_quads (w # x # y # z # r) =
     (case (b64_val w, b64_val x) of
        (Some i, Some j) \<Rightarrow>
          if y = CHR ''='' then
            (if z = CHR ''='' \<and> r = [] then Some [word_of_nat (i * 4 + j div 16)] else None)
          else (case b64_val y of None \<Rightarrow> None | Some k \<Rightarrow>
            if z = CHR ''='' then
              (if r = [] then Some [word_of_nat (i * 4 + j div 16), word_of_nat (j mod 16 * 16 + k div 4)] else None)
            else (case b64_val z of None \<Rightarrow> None | Some l \<Rightarrow>
              map_option (\<lambda>bs. word_of_nat (i * 4 + j div 16) # word_of_nat (j mod 16 * 16 + k div 4)
                                # word_of_nat (k mod 4 * 64 + l) # bs) (b64_quads r)))
      | _ \<Rightarrow> None)"
| "b64_quads _ = None"

definition b64_decode :: "string \<Rightarrow> bytes option" where
  "b64_decode s = b64_quads (filter (\<lambda>c. c \<noteq> CHR 0x0A \<and> c \<noteq> CHR 0x0D) s)"

subsection \<open>The encryptor\<close>

text \<open>
  \<open>new_cipher\<close> is \<open>des.NewCipher\<close>: an error, or the two directions of the cipher on blocks of
  eight bytes. \<open>CryptBlocks\<close> panics unless it is given whole blocks.
\<close>

datatype 'a crypt = CryptOk 'a | CryptErr | CryptPanic

definition EncryptBase64 ::
  "(bytes \<Rightarrow> ((bytes \<Rightarrow> bytes) \<times> (bytes \<Rightarrow> bytes)) option) \<Rightarrow> bytes \<Rightarrow> bytes \<Rightarrow> string crypt" where
  "EncryptBase64 new_cipher key input =
    (case new_cipher key of
       None \<Rightarrow> CryptErr
     | Some (E, D) \<Rightarrow> CryptOk (b64_encode (cbc_encrypt E key (Padding input 8))))"

definition DecryptBase64 ::
  "(bytes \<Rightarrow> ((bytes \<Rightarrow> bytes) \<times> (bytes \<Rightarrow> bytes)) option) \<Rightarrow> bytes \<Rightarrow> string \<Rightarrow> bytes crypt" where
  "DecryptBase64 new_cipher key input =
    (case b64_decode input of
       None \<Rightarrow> CryptErr
     | Some data \<Rightarrow>
       (case new_cipher key of
          None \<Rightarrow> CryptErr
        | Some (E, D) \<Rightarrow>
           if length data mod 8 \<noteq> 0 then CryptPanic
           else (case UnPadding (cbc_decrypt D key data) of None \<Rightarrow> CryptPanic | Some out \<Rightarrow> CryptOk out)))"

section \<open>Lemmas\<close>

lemma ContainStr_iff [simp]: "ContainStr ss d \<longleftrightarrow> d \<in> set ss"
  by (induction ss) auto

lemma RemoveStr_filter: "RemoveStr ss d = filter (\<lambda>s. s \<noteq> d) ss"
  by (induction ss) auto

text \<open>The compacting loop, with what is done, what was skipped and what is still to come.\<close>

lemma compact_loop_inv:
  "compact_loop (length todo) (length don + length gap) (length don) (don @ gap @ todo) d =
     (don @ filter (\<lambda>s. s \<noteq> d) todo @ drop (length (filter (\<lambda>s. s \<noteq> d) todo)) (gap @ todo),
      length don + length (filter (\<lambda>s. s \<noteq> d) todo))"
proof (induction todo arbitrary: don gap)
  case (Cons s todo)
  show ?case
  proof (cases "s = d")
    case True
    then show ?thesis using Cons [of don "gap @ [s]"] by (simp add: nth_append)
  next
    case False
    show ?thesis
    proof (cases gap)
      case Nil
      then show ?thesis using False Cons [of "don @ [s]" "[]"] by (simp add: nth_append)
    next
      case (Cons g gs)
      have "compact_loop (length todo) (length (don @ [s]) + length (gs @ [s])) (length (don @ [s]))
          ((don @ [s]) @ (gs @ [s]) @ todo) d =
          ((don @ [s]) @ filter (\<lambda>s. s \<noteq> d) todo @ drop (length (filter (\<lambda>s. s \<noteq> d) todo)) ((gs @ [s]) @ todo),
           length (don @ [s]) + length (filter (\<lambda>s. s \<noteq> d) todo))"
        by (rule Cons.IH)
      then show ?thesis using False \<open>gap = g # gs\<close> by (simp add: nth_append list_update_append)
    qed
  qed
qed simp

lemma RemoveStrInReplace_spec:
  "snd (RemoveStrInReplace ss d) = RemoveStr ss d \<and> length (fst (RemoveStrInReplace ss d)) = length ss"
proof -
  have "length (filter (\<lambda>s. s \<noteq> d) ss) + length (drop (length (filter (\<lambda>s. s \<noteq> d) ss)) ss) = length ss"
    by (simp add: length_filter_le)
  then show ?thesis
    using compact_loop_inv [of ss "[]" "[]" d] by (simp add: RemoveStrInReplace_def RemoveStr_filter)
qed

lemma last_empty_field:
  "foldl (\<lambda>acc (n, f). if field_empty f then n else acc) a fields =
     (if list_ex (\<lambda>(n, f). field_empty f) fields
      then fst (last (filter (\<lambda>(n, f). field_empty f) fields)) else a)"
  by (induction fields arbitrary: a) (auto simp: list_ex_iff filter_empty_conv)


lemma xor_block_twice: "length a = length b \<Longrightarrow> xor_block a (xor_block a b) = b"
  by (induction a b rule: list_induct2) (simp_all add: xor_block_def xor.assoc [symmetric])

lemma length_xor_block [simp]: "length (xor_block a b) = min (length a) (length b)"
  by (simp add: xor_block_def)

text \<open>A block cipher: its second half undoes the first one on blocks, which stay blocks.\<close>

definition block_cipher :: "(bytes \<Rightarrow> bytes) \<Rightarrow> (bytes \<Rightarrow> bytes) \<Rightarrow> bool" where
  "block_cipher E D \<longleftrightarrow> (\<forall>b. length b = 8 \<longrightarrow> length (E b) = 8 \<and> D (E b) = b)"

lemma cbc_roundtrip:
  assumes "block_cipher E D" and "length iv = 8" and "length data = 8 * k"
  shows "cbc_decrypt D iv (cbc_encrypt E iv data) = data \<and> length (cbc_encrypt E iv data) = length data"
  using assms(2,3)
proof (induction k arbitrary: iv data)
  case 0
  then show ?case by (simp add: cbc_encrypt.simps cbc_decrypt.simps)
next
  case (Suc k)
  define c where "c = E (xor_block iv (take 8 data))"
  have c: "length c = 8" "D c = xor_block iv (take 8 data)"
    using assms(1) Suc.prems by (simp_all add: c_def block_cipher_def)
  have e: "cbc_encrypt E iv data = c @ cbc_encrypt E c (drop 8 data)"
    using Suc.prems by (subst cbc_encrypt.simps) (simp add: c_def Let_def)
  have d: "cbc_decrypt D iv (c @ r) = take 8 data @ cbc_decrypt D c r" for r
    using c Suc.prems by (subst cbc_decrypt.simps) (simp add: Let_def xor_block_twice)
  show ?case using Suc.IH [of c "drop 8 data"] Suc.prems c by (simp add: e d)
qed

lemma unat_byte: "unat (a :: 8 word) < 256"
  using unsigned_less [of a] by simp

lemma length_Padding: "0 < n \<Longrightarrow> length (Padding data n) = n * (length data div n + 1)"
proof -
  assume "0 < n"
  then have m: "length data mod n < n" by simp
  obtain q where q: "q = n * (length data div n)" "length data = q + length data mod n" by simp
  have "length (Padding data n) = q + n" using m q(2) by (simp add: Padding_def Let_def)
  then show ?thesis by (simp add: q(1))
qed

lemma UnPadding_Padding:
  assumes "0 < n" and "n < 256"
  shows "UnPadding (Padding data n) = Some data"
proof -
  define p where "p = n - length data mod n"
  have p: "0 < p" "p < 256" using assms by (simp_all add: p_def)
  have P: "Padding data n = data @ replicate p (word_of_nat p)" by (simp add: Padding_def p_def Let_def)
  have l: "(data @ replicate p (word_of_nat p)) ! (length data + p - Suc 0) = (word_of_nat p :: 8 word)"
  proof -
    have "\<not> length data + p - Suc 0 < length data" "length data + p - Suc 0 - length data < p" using p by arith+
    then show ?thesis by (simp only: nth_append if_False nth_replicate)
  qed
  have u: "unat (word_of_nat p :: 8 word) = p" using p by (simp add: unat_of_nat)
  show ?thesis using p by (simp add: UnPadding_def P l u Let_def)
qed

subsection \<open>Base64 decodes what it encodes\<close>

lemma b64_char_val [simp]: "i < 64 \<Longrightarrow> b64_val (b64_char i) = Some i"
  by (auto simp: b64_char_def b64_val_def in_range_def)

lemma b64_char_plain: "i < 64 \<Longrightarrow> b64_char i \<noteq> CHR ''='' \<and> b64_char i \<noteq> CHR 0x0A \<and> b64_char i \<noteq> CHR 0x0D"
  using b64_char_val [of i] by (auto simp: b64_val_def in_range_def)

lemma b64_indices:
  "unat (a :: 8 word) div 4 < 64" "unat a mod 4 * 16 < 64" "unat a mod 4 * 16 + unat (b :: 8 word) div 16 < 64"
  "unat b mod 16 * 4 < 64" "unat b mod 16 * 4 + unat a div 64 < 64" "unat a mod 64 < 64"
  by (insert unat_byte [of a] unat_byte [of b], linarith+)

lemma byte_split:
  "word_of_nat (unat a div 4 * 4 + (unat (a :: 8 word) mod 4 * 16 + unat (b :: 8 word) div 16) div 16) = a"
  "word_of_nat (unat a div 4 * 4 + (unat a mod 4 * 16) div 16) = a"
  "word_of_nat ((unat b mod 4 * 16 + unat a div 16) mod 16 * 16 + (unat a mod 16 * 4 + unat (c :: 8 word) div 64) div 4) = a"
  "word_of_nat ((unat b mod 4 * 16 + unat a div 16) mod 16 * 16 + (unat a mod 16 * 4) div 4) = a"
  "word_of_nat ((unat b mod 16 * 4 + unat a div 64) mod 4 * 64 + unat a mod 64) = a"
proof -
  have w: "word_of_nat n = a" if "n = unat a" for n using that by simp
  have s: "unat b div 16 < 16" "unat a div 16 < 16" "unat c div 64 < 4" "unat a div 64 < 4"
    using unat_byte [of a] unat_byte [of b] unat_byte [of c] by linarith+
  have q: "unat a div 4 * 4 + unat a mod 4 = unat a" "unat a div 16 * 16 + unat a mod 16 = unat a"
    "unat a div 64 * 64 + unat a mod 64 = unat a"
    by simp_all
  show "word_of_nat (unat a div 4 * 4 + (unat a mod 4 * 16 + unat b div 16) div 16) = a"
    by (rule w) (use s q in simp)
  show "word_of_nat (unat a div 4 * 4 + (unat a mod 4 * 16) div 16) = a"
    by (rule w) (use s q in simp)
  have m: "(unat b mod 4 * 16 + unat a div 16) mod 16 = unat a div 16" using s by simp
  show "word_of_nat ((unat b mod 4 * 16 + unat a div 16) mod 16 * 16 + (unat a mod 16 * 4 + unat (c :: 8 word) div 64) div 4) = a"
    unfolding m by (rule w) (use s q in simp)
  show "word_of_nat ((unat b mod 4 * 16 + unat a div 16) mod 16 * 16 + (unat a mod 16 * 4) div 4) = a"
    unfolding m by (rule w) (use s q in simp)
  have m4: "(unat b mod 16 * 4 + unat a div 64) mod 4 = unat a div 64" using s by simp
  show "word_of_nat ((unat b mod 16 * 4 + unat a div 64) mod 4 * 64 + unat a mod 64) = a"
    unfolding m4 by (rule w) (use q in simp)
qed

lemma quads_chars:
  assumes "i < 64" and "j < 64"
  shows "b64_quads [b64_char i, b64_char j, CHR ''='', CHR ''=''] = Some [word_of_nat (i * 4 + j div 16)]"
    and "k < 64 \<Longrightarrow> b64_quads [b64_char i, b64_char j, b64_char k, CHR ''=''] =
      Some [word_of_nat (i * 4 + j div 16), word_of_nat (j mod 16 * 16 + k div 4)]"
    and "k < 64 \<Longrightarrow> l < 64 \<Longrightarrow> b64_quads (b64_char i # b64_char j # b64_char k # b64_char l # r) =
      map_option (\<lambda>bs. word_of_nat (i * 4 + j div 16) # word_of_nat (j mod 16 * 16 + k div 4)
        # word_of_nat (k mod 4 * 64 + l) # bs) (b64_quads r)"
  using assms by (simp_all add: b64_char_plain)

lemma b64_encode_no_newline: "filter (\<lambda>c. c \<noteq> CHR 0x0A \<and> c \<noteq> CHR 0x0D) (b64_encode bs) = b64_encode bs"
  by (induction bs rule: b64_encode.induct) (simp_all add: b64_indices b64_char_plain)

lemma b64_roundtrip: "b64_decode (b64_encode bs) = Some bs"
proof -
  have "b64_quads (b64_encode bs) = Some bs"
    by (induction bs rule: b64_encode.induct)
      (simp_all only: b64_encode.simps quads_chars b64_indices byte_split b64_quads.simps(1) option.map)
  then show ?thesis by (simp add: b64_decode_def b64_encode_no_newline)
qed


lemma Atoi_show: "strconv_Atoi (show_nat n) = (if n < 2 ^ 63 then Some (int n) else None)"
proof -
  obtain c cs where c: "show_nat n = c # cs" using show_nat_not_Nil by (cases "show_nat n") auto
  have "digit_val c \<noteq> None" using show_nat_digits [of c n] c by simp
  then have "c \<noteq> CHR ''-''" "c \<noteq> CHR ''+''" by (auto simp: digit_val_def)
  then show ?thesis using digits_val_show [of n] by (simp add: strconv_Atoi_def c)
qed

lemma Atoi_show_neg: "strconv_Atoi (CHR ''-'' # show_nat n) = (if n \<le> 2 ^ 63 then Some (- int n) else None)"
  using digits_val_show [of n] show_nat_not_Nil [of n] by (simp add: strconv_Atoi_def)

section \<open>Properties\<close>

text \<open>Ids survive the passage through text. Every 64-bit id, printed by \<open>UintToStr\<close> and read back by
  \<open>ToUint\<close>, is itself (those of \<open>2^63\<close> and above travel as negative numbers); a decimal below
  \<open>2^63\<close> in a path names that id, larger ones, and the absent id, all name \<open>0\<close>, and a negative
  number names a large id instead of being refused.\<close>

lemma ToUint_UintToStr:
  "ToUint (UintToStr (Some w)) = w \<and> ToUint (UintToStr None) = 0 \<and>
   ToUint (show_nat n) = (if n < 2 ^ 63 then word_of_nat n else 0) \<and>
   ToUint (CHR ''-'' # show_nat n) = (if n \<le> 2 ^ 63 then - word_of_nat n else 0)"
proof -
  have b: "- (2 ^ 63) \<le> sint w" "sint w < 2 ^ 63"
    using sint_greater_eq [of w] sint_less [of w] by simp_all
  have w: "ToUint (UintToStr (Some w)) = w"
  proof (cases "sint w < 0")
    case True
    then have "nat (- sint w) \<le> 2 ^ 63" using b by simp
    then show ?thesis using True by (simp add: UintToStr_def ToUint_def Atoi_show_neg Let_def)
  next
    case False
    then have "nat (sint w) < 2 ^ 63" using b by simp
    then show ?thesis using False by (simp add: UintToStr_def ToUint_def Atoi_show Let_def)
  qed
  show ?thesis
    using w by (simp add: ToUint_def UintToStr_def Atoi_show Atoi_show_neg, simp add: strconv_Atoi_def)
qed

text \<open>What the encryptor encrypts it decrypts. For a key of eight bytes and a cipher whose second half
  undoes the first on blocks, encrypting any bytes succeeds and decrypting the text gives them
  back: the padding is never ambiguous, also for input that fills its last block. On text it did not
  make, \<open>DecryptBase64\<close> may panic: the padding of a decrypted message is trusted, and removing it
  fails exactly where its last byte exceeds its length.\<close>

theorem Encrypt_Decrypt:
  assumes "new_cipher key = Some (E, D)" and "block_cipher E D" and "length key = 8"
  shows "(\<exists>s. EncryptBase64 new_cipher key input = CryptOk s \<and> DecryptBase64 new_cipher key s = CryptOk input) \<and>
    (\<forall>data. UnPadding data = None \<longleftrightarrow> data \<noteq> [] \<and> length data < unat (last data))"
proof (intro conjI allI)
  have l: "length (Padding input 8) = 8 * (length input div 8 + 1)" by (simp add: length_Padding)
  note r = cbc_roundtrip [OF assms(2,3) l]
  have m: "length (cbc_encrypt E key (Padding input 8)) mod 8 = 0" using r l by (metis mod_mult_self1_is_0)
  show "\<exists>s. EncryptBase64 new_cipher key input = CryptOk s \<and> DecryptBase64 new_cipher key s = CryptOk input"
    using r m assms(1) UnPadding_Padding [of 8 input]
    by (simp add: EncryptBase64_def DecryptBase64_def b64_roundtrip)
next
  fix data
  show "UnPadding data = None \<longleftrightarrow> data \<noteq> [] \<and> length data < unat (last data)"
    by (auto simp: UnPadding_def Let_def last_conv_nth)
qed

theorem Encrypt_Decrypt_witness:
  "\<exists>s. EncryptBase64 (\<lambda>k. Some (rev, rev)) [1, 2, 3, 4, 5, 6, 7, 8] [9, 9] = CryptOk s \<and>
       DecryptBase64 (\<lambda>k. Some (rev, rev)) [1, 2, 3, 4, 5, 6, 7, 8] s = CryptOk [9, 9]"
proof -
  have "block_cipher rev rev" by (simp add: block_cipher_def)
  then show ?thesis
    using Encrypt_Decrypt [of "\<lambda>k. Some (rev, rev)" "[1, 2, 3, 4, 5, 6, 7, 8]" rev rev "[9, 9]"] by simp
qed

end
