(* ===== verification/Alert_Rules.thy ===== *)
theory Alert_Rules
  imports Go_Util "HOL-Library.List_Lexorder" "HOL-Library.Char_ord"
begin

text \<open>
  Alert rules as requests bring them: \<open>pkg/service/handlers/observability/alert.go\<close> completes and checks them, with the matchers
  of \<open>pkg/utils/prometheus/promql\<close>, the units of \<open>pkg/utils/prometheus/unit.go\<close> and the types of \<open>pkg/service/models\<close>.

  The parser of Prometheus is a parameter: a parsed query is something it prints, with the matchers of each of its selectors, which
  the code changes. What a regular expression or a name may be, how many milliseconds a duration is, and what the database has of templates and
  channels, are parameters too.
\<close>

section \<open>Label matchers\<close>

text \<open>The type of a matcher is a string that comes from the request.\<close>

record label_matcher =
  lm_Type :: string
  lm_Name :: string
  lm_Value :: string

definition MatchEqual :: string where "MatchEqual = ''=''"
definition MatchNotEqual :: string where "MatchNotEqual = ''!=''"
definition MatchRegexp :: string where "MatchRegexp = ''=~''"
definition MatchNotRegexp :: string where "MatchNotRegexp = ''!~''"

lemmas match_types = MatchEqual_def MatchNotEqual_def MatchRegexp_def MatchNotRegexp_def

datatype prom_type = PromEqual | PromNotEqual | PromRegexp | PromNotRegexp

record prom_matcher =
  pm_Type :: prom_type
  pm_Name :: string
  pm_Value :: string

definition ToPromqlLabelMatcher :: "label_matcher \<Rightarrow> prom_matcher" where
  "ToPromqlLabelMatcher m =
     \<lparr>pm_Type =
        (if lm_Type m = MatchEqual then PromEqual
         else if lm_Type m = MatchNotEqual then PromNotEqual
         else if lm_Type m = MatchRegexp then PromRegexp
         else if lm_Type m = MatchNotRegexp then PromNotRegexp
         else PromEqual),
      pm_Name = lm_Name m, pm_Value = lm_Value m\<rparr>"

text \<open>The verb \<open>%q\<close>, for printable text.\<close>

definition quote_char :: "char \<Rightarrow> string" where
  "quote_char c =
     (if c = CHR 0x22 \<or> c = CHR 0x5C then [CHR 0x5C, c]
      else if c = CHR 0x0A then [CHR 0x5C, CHR ''n'']
      else if c = CHR 0x09 then [CHR 0x5C, CHR ''t'']
      else if c = CHR 0x0D then [CHR 0x5C, CHR ''r'']
      else [c])"

definition go_quote :: "string \<Rightarrow> string" where
  "go_quote s = [CHR 0x22] @ concat (map quote_char s) @ [CHR 0x22]"

definition matcher_String :: "label_matcher \<Rightarrow> string" where
  "matcher_String m = lm_Name m @ (if lm_Type m = [] then MatchEqual else lm_Type m) @ go_quote (lm_Value m)"

text \<open>What is written to the database: without those that print the same, and only regular expressions have alternatives.\<close>

fun remove_duplicated :: "label_matcher list \<Rightarrow> string list \<Rightarrow> label_matcher list option" where
  "remove_duplicated [] seen = Some []"
| "remove_duplicated (m # ms) seen =
     (if lm_Type m \<noteq> MatchRegexp \<and> lm_Type m \<noteq> MatchNotRegexp \<and> CHR ''|'' \<in> set (lm_Value m) then None
      else if matcher_String m \<in> set seen then remove_duplicated ms seen
      else map_option ((#) m) (remove_duplicated ms (matcher_String m # seen)))"

definition CheckAndRemoveDuplicated :: "label_matcher list \<Rightarrow> label_matcher list option" where
  "CheckAndRemoveDuplicated ms = remove_duplicated ms []"

text \<open>A matcher replaces the last one of its name, or comes last.\<close>

fun last_index_of :: "string \<Rightarrow> prom_matcher list \<Rightarrow> nat option" where
  "last_index_of n [] = None"
| "last_index_of n (m # ms) =
     (case last_index_of n ms of Some i \<Rightarrow> Some (Suc i) | None \<Rightarrow> if pm_Name m = n then Some 0 else None)"

definition add_matcher :: "prom_matcher \<Rightarrow> prom_matcher list \<Rightarrow> prom_matcher list" where
  "add_matcher dest vs =
     (case last_index_of (pm_Name dest) vs of
        None \<Rightarrow> vs @ [dest]
      | Some i \<Rightarrow> vs[i := (vs ! i)\<lparr>pm_Type := pm_Type dest, pm_Value := pm_Value dest\<rparr>])"

definition AddLabelMatchers :: "prom_matcher list \<Rightarrow> prom_matcher list list \<Rightarrow> prom_matcher list list" where
  "AddLabelMatchers matchers selectors = map (\<lambda>vs. foldl (\<lambda>vs dest. add_matcher dest vs) vs matchers) selectors"

section \<open>Units\<close>

record unit_value =
  uv_Show :: string
  uv_Op :: string
  uv_Value :: string

definition defaultUnitValue :: unit_value where
  "defaultUnitValue = \<lparr>uv_Show = [], uv_Op = ''*'', uv_Value = ''1''\<rparr>"

definition unit_of :: "string \<Rightarrow> string \<Rightarrow> unit_value" where
  "unit_of op v = \<lparr>uv_Show = [], uv_Op = op, uv_Value = v\<rparr>"

definition UnitValueMap :: "(string \<times> unit_value) list" where
  "UnitValueMap =
     [(''B'', defaultUnitValue), (''KB'', unit_of ''/'' ''1024''), (''MB'', unit_of ''/'' ''(1024 * 1024)''),
      (''GB'', unit_of ''/'' ''(1024 * 1024 * 1024)''), (''TB'', unit_of ''/'' ''(1024 * 1024 * 1024 * 1024)''),
      (''PB'', unit_of ''/'' ''(1024 * 1024 * 1024 * 1024 * 1024)''),
      (''B/s'', defaultUnitValue), (''KB/s'', unit_of ''/'' ''1024''), (''MB/s'', unit_of ''/'' ''(1024 * 1024)''),
      (''GB/s'', unit_of ''/'' ''(1024 * 1024 * 1024)''), (''TB/s'', unit_of ''/'' ''(1024 * 1024 * 1024 * 1024)''),
      (''PB/s'', unit_of ''/'' ''(1024 * 1024 * 1024 * 1024 * 1024)''),
      (''us'', unit_of ''*'' ''(1000 * 1000)''), (''ms'', unit_of ''*'' ''1000''), (''s'', defaultUnitValue),
      (''m'', unit_of ''/'' ''60''), (''h'', unit_of ''/'' ''(60 * 60)''), (''d'', unit_of ''/'' ''(24 * 60 * 60)''),
      (''w'', unit_of ''/'' ''(7 * 24 * 60 * 60)''),
      (''0.0-1.0'', \<lparr>uv_Show = ''%'', uv_Op = ''*'', uv_Value = ''100''\<rparr>),
      (''0-100'', \<lparr>uv_Show = ''%'', uv_Op = [], uv_Value = []\<rparr>)]"

definition no_unit :: unit_value where "no_unit = \<lparr>uv_Show = [], uv_Op = [], uv_Value = []\<rparr>"

text \<open>A unit is a kind, a dash and the rest.\<close>

definition ParseUnit :: "string \<Rightarrow> unit_value option" where
  "ParseUnit u =
     (case index_of u ''-'' of
        None \<Rightarrow> if u = ''short'' \<or> u = [] then Some no_unit else None
      | Some i \<Rightarrow>
          let rest = drop (Suc i) u in
          if take i u = ''custom'' then Some (no_unit\<lparr>uv_Show := rest\<rparr>)
          else case map_of UnitValueMap rest of
                 None \<Rightarrow> None
               | Some v \<Rightarrow> Some (if uv_Show v = [] then v\<lparr>uv_Show := rest\<rparr> else v))"

section \<open>Rules\<close>

record alert_level =
  al_CompareOp :: string
  al_CompareValue :: string
  al_Severity :: string

record promql_tpl =
  tp_RuleShowName :: string
  tp_Expr :: string
  tp_Labels :: "string list"

record promql_generator =
  pg_Scope :: string
  pg_Resource :: string
  pg_Rule :: string
  pg_Unit :: string
  pg_LabelMatchers :: "label_matcher list"
  pg_Tpl :: "promql_tpl option"

record logql_generator =
  lg_Duration :: string
  lg_Match :: string
  lg_LabelMatchers :: "label_matcher list"

record email_channel =
  em_SMTPServer :: string
  em_RequireTLS :: bool
  em_From :: string
  em_To :: string
  em_AuthPassword :: string
  em_SendResolved :: bool

text \<open>Other channels by what they make of a receiver.\<close>

datatype channel_config = EmailChannel email_channel | OtherChannel string

record alert_channel =
  ch_ID :: nat
  ch_Name :: string
  ch_Config :: channel_config

record alert_receiver =
  rc_ID :: nat
  rc_AlertRuleID :: nat
  rc_AlertChannelID :: nat
  rc_Interval :: string
  rc_AlertChannel :: alert_channel

record alert_rule =
  ar_ID :: nat
  ar_Cluster :: string
  ar_Namespace :: string
  ar_Name :: string
  ar_AlertType :: string
  ar_Expr :: string
  ar_For :: string
  ar_Message :: string
  ar_InhibitLabels :: "string list"
  ar_AlertLevels :: "alert_level list"
  ar_Receivers :: "alert_receiver list"
  ar_Promql :: "promql_generator option"
  ar_Logql :: "logql_generator option"
  ar_IsOpen :: bool

definition ReceiverName :: "alert_channel \<Rightarrow> string" where
  "ReceiverName ch = ch_Name ch @ ''-id-'' @ show_nat (ch_ID ch)"

definition AlertRuleKey :: "string \<Rightarrow> string \<Rightarrow> string \<Rightarrow> string" where
  "AlertRuleKey cluster namespace name = cluster @ ''/'' @ namespace @ ''/'' @ name"

definition FullName :: "alert_rule \<Rightarrow> string" where
  "FullName r = AlertRuleKey (ar_Cluster r) (ar_Namespace r) (ar_Name r)"

definition AlertTypeMonitor :: string where "AlertTypeMonitor = ''monitor''"
definition AlertTypeLogging :: string where "AlertTypeLogging = ''logging''"
definition GlobalAlertNamespace :: string where "GlobalAlertNamespace = ''kubegems-monitoring''"
definition DefaultChannel_ID :: nat where "DefaultChannel_ID = 1"

lemmas alert_types = AlertTypeMonitor_def AlertTypeLogging_def

datatype alert_error = AlertInvalid | AlertPanic

record 'q alert_env =
  ae_find_tpl :: "string \<Rightarrow> string \<Rightarrow> string \<Rightarrow> promql_tpl option"
  ae_parse :: "string \<Rightarrow> ('q \<times> prom_matcher list list) option"
  ae_print :: "'q \<Rightarrow> prom_matcher list list \<Rightarrow> string"
  ae_duration :: "string \<Rightarrow> int option"
  ae_regex_ok :: "string \<Rightarrow> bool"
  ae_name_ok :: "string \<Rightarrow> bool"
  ae_channel :: "nat \<Rightarrow> alert_channel option"

section \<open>Their expression\<close>

definition namespace_matcher :: "string \<Rightarrow> prom_matcher" where
  "namespace_matcher namespace = \<lparr>pm_Type = PromEqual, pm_Name = ''namespace'', pm_Value = namespace\<rparr>"

definition namespace_text :: "string \<Rightarrow> string" where
  "namespace_text namespace = ''namespace='' @ [CHR 0x22] @ namespace @ [CHR 0x22]"

definition template_selectors :: "string \<Rightarrow> label_matcher list \<Rightarrow> prom_matcher list list \<Rightarrow> prom_matcher list list" where
  "template_selectors namespace ms selectors =
     foldl (\<lambda>s m. AddLabelMatchers [ToPromqlLabelMatcher m] s)
       (if namespace \<noteq> GlobalAlertNamespace then AddLabelMatchers [namespace_matcher namespace] selectors else selectors) ms"

definition logql_text :: "string \<Rightarrow> logql_generator \<Rightarrow> string" where
  "logql_text namespace g =
     ''sum(count_over_time({'' @
       join_with '', '' (sort_slice (<) (map matcher_String (lg_LabelMatchers g)) @ [namespace_text namespace]) @
     ''} |~ `'' @ lg_Match g @ ''` ['' @ lg_Duration g @ '']))without(fluentd_thread)''"

definition generated_expr :: "'q alert_env \<Rightarrow> alert_rule \<Rightarrow> alert_error + string" where
  "generated_expr env r =
     (if ar_AlertType r = AlertTypeMonitor
      then (case ar_Promql r of
              None \<Rightarrow> Inr []
            | Some g \<Rightarrow>
                (case pg_Tpl g of
                   None \<Rightarrow> Inl AlertPanic
                 | Some tpl \<Rightarrow>
                     (case ae_parse env (tp_Expr tpl) of
                        None \<Rightarrow> Inl AlertInvalid
                      | Some (q, selectors) \<Rightarrow>
                          Inr (ae_print env q (template_selectors (ar_Namespace r) (pg_LabelMatchers g) selectors)))))
      else if ar_AlertType r = AlertTypeLogging
      then (case ar_Logql r of
              None \<Rightarrow> Inr []
            | Some g \<Rightarrow>
                if (case ae_duration env (lg_Duration g) of None \<Rightarrow> True | Some ms \<Rightarrow> ms > 10 * 60 * 1000) then Inl AlertInvalid
                else if \<not> ae_regex_ok env (lg_Match g) then Inl AlertInvalid
                else if lg_LabelMatchers g = [] then Inl AlertInvalid
                else Inr (logql_text (ar_Namespace r) g))
      else Inr [])"

definition GenerateExpr :: "'q alert_env \<Rightarrow> alert_rule \<Rightarrow> alert_error + string" where
  "GenerateExpr env r =
     (case generated_expr env r of
        Inl e \<Rightarrow> Inl e
      | Inr g \<Rightarrow>
          let e = (if g = [] then ar_Expr r else g) in
          if e = [] then Inl AlertInvalid
          else if ar_Namespace r \<noteq> GlobalAlertNamespace \<and> \<not> contains_str e (namespace_text (ar_Namespace r)) then Inl AlertInvalid
          else Inr e)"

section \<open>Their message\<close>

definition AlertClusterKey :: string where "AlertClusterKey = ''cluster''"

definition ValueAnnotationExpr :: string where
  "ValueAnnotationExpr = ''{{ $value | printf '' @ [CHR 0x22] @ ''%.1f'' @ [CHR 0x22] @ '' }}''"

text \<open>A label of the alert. Texts that are not English are UTF-8: a cluster, and what is said of the log.\<close>

definition label_text :: "string \<Rightarrow> string \<Rightarrow> string" where
  "label_text title label = ''['' @ title @ '':{{ $labels.'' @ label @ '' }}] ''"

definition zh_cluster :: string where
  "zh_cluster = [CHR 0xE9, CHR 0x9B, CHR 0x86, CHR 0xE7, CHR 0xBE, CHR 0xA4]"
definition zh_in_the_last :: string where
  "zh_in_the_last = [CHR 0xE6, CHR 0x97, CHR 0xA5, CHR 0xE5, CHR 0xBF, CHR 0x97, CHR 0xE4, CHR 0xB8, CHR 0xAD, CHR 0xE8, CHR 0xBF, CHR 0x87, CHR 0xE5, CHR 0x8E, CHR 0xBB]"
definition zh_the_string :: string where
  "zh_the_string = [CHR 0xE5, CHR 0x87, CHR 0xBA, CHR 0xE7, CHR 0x8E, CHR 0xB0, CHR 0xE5, CHR 0xAD, CHR 0x97, CHR 0xE7, CHR 0xAC, CHR 0xA6, CHR 0xE4, CHR 0xB8, CHR 0xB2]"
definition zh_times_value :: string where
  "zh_times_value = [CHR 0xE6, CHR 0xAC, CHR 0xA1, CHR 0xE6, CHR 0x95, CHR 0xB0, CHR 0xE8, CHR 0xA7, CHR 0xA6, CHR 0xE5, CHR 0x8F, CHR 0x91, CHR 0xE5, CHR 0x91, CHR 0x8A, CHR 0xE8, CHR 0xAD, CHR 0xA6] @
     '', '' @ [CHR 0xE5, CHR 0xBD, CHR 0x93, CHR 0xE5, CHR 0x89, CHR 0x8D, CHR 0xE5, CHR 0x80, CHR 0xBC] @ '': ''"

definition genarateMessage :: "alert_rule \<Rightarrow> alert_error + string" where
  "genarateMessage r =
     (if ar_AlertType r = AlertTypeMonitor
      then (case ar_Promql r of
              None \<Rightarrow> Inr (ar_Name r @ '': [cluster:{{ $externalLabels.'' @ AlertClusterKey @ '' }}] trigger alert, value: '' @ ValueAnnotationExpr)
            | Some g \<Rightarrow>
                (case pg_Tpl g of
                   None \<Rightarrow> Inl AlertPanic
                 | Some tpl \<Rightarrow>
                     (case ParseUnit (pg_Unit g) of
                        None \<Rightarrow> Inl AlertInvalid
                      | Some u \<Rightarrow>
                          Inr (ar_Name r @ '': [cluster:{{ $externalLabels.'' @ AlertClusterKey @ '' }}] '' @
                            concat (map (\<lambda>l. label_text l l) (tp_Labels tpl)) @
                            tp_RuleShowName tpl @ '' trigger alert, value: '' @ ValueAnnotationExpr @ uv_Show u))))
      else if ar_AlertType r = AlertTypeLogging
      then (case ar_Logql r of
              None \<Rightarrow> Inr (ar_Name r @ '': [cluster:{{ $labels.'' @ AlertClusterKey @ '' }}] trigger alert, value: '' @ ValueAnnotationExpr)
            | Some g \<Rightarrow>
                Inr (ar_Name r @ '': '' @ label_text zh_cluster AlertClusterKey @ ''[namespace: {{ $labels.namespace }}] '' @
                  zh_in_the_last @ '' '' @ lg_Duration g @ '' '' @ zh_the_string @ '' ['' @ lg_Match g @ ''] '' @ zh_times_value @ ValueAnnotationExpr))
      else Inl AlertInvalid)"

section \<open>Their receivers and levels\<close>

text \<open>The channels of the request, each once, and the default one.\<close>

definition complete_receivers :: "alert_rule \<Rightarrow> alert_receiver list" where
  "complete_receivers r =
     (if DefaultChannel_ID \<in> set (map rc_AlertChannelID (ar_Receivers r)) then ar_Receivers r
      else ar_Receivers r @
        [\<lparr>rc_ID = 0, rc_AlertRuleID = ar_ID r, rc_AlertChannelID = DefaultChannel_ID, rc_Interval = rc_Interval (hd (ar_Receivers r)),
          rc_AlertChannel = \<lparr>ch_ID = 0, ch_Name = [], ch_Config = OtherChannel []\<rparr>\<rparr>])"

fun load_channels :: "'q alert_env \<Rightarrow> nat \<Rightarrow> alert_receiver list \<Rightarrow> alert_receiver list option" where
  "load_channels env rule [] = Some []"
| "load_channels env rule (v # vs) =
     (case ae_channel env (rc_AlertChannelID v) of
        None \<Rightarrow> None
      | Some ch \<Rightarrow> map_option ((#) (v\<lparr>rc_AlertRuleID := rule, rc_AlertChannel := ch\<rparr>)) (load_channels env rule vs))"

definition SetReceivers :: "'q alert_env \<Rightarrow> alert_rule \<Rightarrow> alert_rule option" where
  "SetReceivers env r =
     (if ar_Receivers r = [] \<or> \<not> distinct (map rc_AlertChannelID (ar_Receivers r)) then None
      else map_option (\<lambda>rs. r\<lparr>ar_Receivers := rs\<rparr>) (load_channels env (ar_ID r) (complete_receivers r)))"

definition checkAlertLevels :: "alert_rule \<Rightarrow> bool" where
  "checkAlertLevels r \<longleftrightarrow>
     ar_AlertLevels r \<noteq> [] \<and> distinct (map al_Severity (ar_AlertLevels r)) \<and>
     (length (ar_AlertLevels r) > 1 \<longrightarrow> ar_InhibitLabels r \<noteq> [] \<and> \<not> (ar_Promql r = None \<and> ar_Logql r = None))"

text \<open>A rule as it comes, completed.\<close>

definition set_tpl :: "'q alert_env \<Rightarrow> alert_rule \<Rightarrow> alert_rule option" where
  "set_tpl env r =
     (case ar_Promql r of
        None \<Rightarrow> Some r
      | Some g \<Rightarrow> map_option (\<lambda>tpl. r\<lparr>ar_Promql := Some (g\<lparr>pg_Tpl := Some tpl\<rparr>)\<rparr>) (ae_find_tpl env (pg_Scope g) (pg_Resource g) (pg_Rule g)))"

definition MutateAlertRule :: "'q alert_env \<Rightarrow> alert_rule \<Rightarrow> alert_error + alert_rule" where
  "MutateAlertRule env r =
     (if \<not> ae_name_ok env (ar_Name r) \<or> ar_Namespace r = [] then Inl AlertInvalid
      else case set_tpl env r of
        None \<Rightarrow> Inl AlertInvalid
      | Some r \<Rightarrow>
          (case (if ar_Message r \<noteq> [] then Inr (ar_Message r) else genarateMessage r) of
             Inl e \<Rightarrow> Inl e
           | Inr msg \<Rightarrow>
               (case GenerateExpr env (r\<lparr>ar_Message := msg\<rparr>) of
                  Inl e \<Rightarrow> Inl e
                | Inr expr \<Rightarrow>
                    (case SetReceivers env (r\<lparr>ar_Message := msg, ar_Expr := expr\<rparr>) of
                       None \<Rightarrow> Inl AlertInvalid
                     | Some r \<Rightarrow> if checkAlertLevels r then Inr r else Inl AlertInvalid))))"

section \<open>What a template is confined to\<close>

lemma last_index_of_Some: "last_index_of n vs = Some i \<Longrightarrow> i < length vs \<and> pm_Name (vs ! i) = n"
  by (induction vs arbitrary: i) (auto split: option.splits if_splits)

lemma last_index_of_None: "last_index_of n vs = None \<longleftrightarrow> n \<notin> pm_Name ` set vs"
  by (induction vs) (auto split: option.splits)

text \<open>In a selector whose matchers have distinct names, the new one takes the place of the one of its name.\<close>

lemma set_update_distinct:
  assumes "distinct (map f xs)" "i < length xs" "f y = f (xs ! i)"
  shows "set (xs[i := y]) = insert y {x \<in> set xs. f x \<noteq> f y}"
proof -
  have other: "f (xs ! j) \<noteq> f y" if "j < length xs" "j \<noteq> i" for j
    using assms that by (simp add: distinct_conv_nth)
  show ?thesis
  proof (intro equalityI subsetI)
    fix x
    assume "x \<in> set (xs[i := y])"
    then obtain j where "j < length xs" "x = xs[i := y] ! j" by (auto simp: in_set_conv_nth)
    then show "x \<in> insert y {x \<in> set xs. f x \<noteq> f y}" using other [of j] assms(2) by (cases "j = i") auto
  next
    fix x
    assume x: "x \<in> insert y {x \<in> set xs. f x \<noteq> f y}"
    show "x \<in> set (xs[i := y])"
    proof (cases "x = y")
      case True
      then show ?thesis using assms(2) by (simp add: set_update_memI)
    next
      case False
      then obtain j where j: "j < length xs" "x = xs ! j" "f x \<noteq> f y" using x by (auto simp: in_set_conv_nth)
      then have "j \<noteq> i" using assms(3) by auto
      then have "x = xs[i := y] ! j" using j by simp
      then show ?thesis using j(1) by (metis length_list_update nth_mem)
    qed
  qed
qed

lemma distinct_update_same: "distinct (map f xs) \<Longrightarrow> i < length xs \<Longrightarrow> f y = f (xs ! i) \<Longrightarrow> distinct (map f (xs[i := y]))"
  by (simp add: map_update) (metis list_update_id length_map nth_map)

lemma add_matcher_distinct:
  assumes "distinct (map pm_Name vs)"
  shows "distinct (map pm_Name (add_matcher m vs)) \<and> set (add_matcher m vs) = insert m {x \<in> set vs. pm_Name x \<noteq> pm_Name m}"
proof (cases "last_index_of (pm_Name m) vs")
  case None
  then have "pm_Name m \<notin> pm_Name ` set vs" by (simp add: last_index_of_None)
  then have "{x \<in> set vs. pm_Name x \<noteq> pm_Name m} = set vs" "pm_Name m \<notin> pm_Name ` set vs" by (auto intro: rev_image_eqI)
  then show ?thesis using assms None by (simp add: add_matcher_def)
next
  case (Some i)
  have at: "i < length vs" "pm_Name m = pm_Name (vs ! i)" using last_index_of_Some [OF Some] by auto
  then have "(vs ! i)\<lparr>pm_Type := pm_Type m, pm_Value := pm_Value m\<rparr> = m" by (cases m; cases "vs ! i") simp
  then have "add_matcher m vs = vs[i := m]" using Some by (simp add: add_matcher_def)
  then show ?thesis using distinct_update_same [of pm_Name, OF assms at] set_update_distinct [of pm_Name, OF assms at] by simp
qed

text \<open>The matchers of a name, the same in all selectors.\<close>

definition all_have :: "string \<Rightarrow> prom_matcher \<Rightarrow> prom_matcher list list \<Rightarrow> bool" where
  "all_have n t selectors \<longleftrightarrow>
     (\<forall>vs \<in> set selectors. distinct (map pm_Name vs) \<and> {m \<in> set vs. pm_Name m = n} = {t})"

lemma all_have_add:
  assumes "all_have n t selectors"
  shows "all_have n (if pm_Name m = n then m else t) (AddLabelMatchers [m] selectors)"
  unfolding all_have_def
proof
  fix us
  assume "us \<in> set (AddLabelMatchers [m] selectors)"
  then obtain vs where vs: "vs \<in> set selectors" "us = add_matcher m vs" by (auto simp: AddLabelMatchers_def)
  then have old: "distinct (map pm_Name vs)" "{m \<in> set vs. pm_Name m = n} = {t}" using assms by (auto simp: all_have_def)
  show "distinct (map pm_Name us) \<and> {x \<in> set us. pm_Name x = n} = {if pm_Name m = n then m else t}"
    using add_matcher_distinct [OF old(1), of m] old(2) vs(2) by auto
qed

lemma all_have_start:
  assumes "\<forall>vs \<in> set selectors. distinct (map pm_Name vs)"
  shows "all_have (pm_Name m) m (AddLabelMatchers [m] selectors)"
  unfolding all_have_def
proof
  fix us
  assume "us \<in> set (AddLabelMatchers [m] selectors)"
  then obtain vs where vs: "vs \<in> set selectors" "us = add_matcher m vs" by (auto simp: AddLabelMatchers_def)
  then show "distinct (map pm_Name us) \<and> {x \<in> set us. pm_Name x = pm_Name m} = {m}"
    using add_matcher_distinct [of vs m] assms by auto
qed

lemma length_AddLabelMatchers [simp]: "length (AddLabelMatchers ms selectors) = length selectors"
  by (simp add: AddLabelMatchers_def)

lemma all_have_fold:
  assumes "all_have n t selectors"
  obtains u where "all_have n u (foldl (\<lambda>s m. AddLabelMatchers [ToPromqlLabelMatcher m] s) selectors ms)"
proof -
  have "\<exists>u. all_have n u (foldl (\<lambda>s m. AddLabelMatchers [ToPromqlLabelMatcher m] s) selectors ms)"
    using assms
  proof (induction ms arbitrary: selectors t)
    case (Cons m ms)
    then show ?case using all_have_add [OF Cons.prems, of "ToPromqlLabelMatcher m"] by simp
  qed auto
  then show ?thesis using that by blast
qed

lemma length_fold [simp]: "length (foldl (\<lambda>s m. AddLabelMatchers [ToPromqlLabelMatcher m] s) selectors ms) = length selectors"
  by (induction ms arbitrary: selectors) simp_all



text \<open>The expression a request writes itself need only have that text somewhere, and the pattern for a log is put between back quotes as it
  is: both ways to read other namespaces.\<close>

definition ex_rule :: alert_rule where
  "ex_rule = \<lparr>ar_ID = 1, ar_Cluster = ''c'', ar_Namespace = ''a'', ar_Name = ''r'', ar_AlertType = ''monitor'', ar_Expr = [], ar_For = ''1m'',
     ar_Message = [], ar_InhibitLabels = [], ar_AlertLevels = [\<lparr>al_CompareOp = ''>'', al_CompareValue = ''1'', al_Severity = ''error''\<rparr>],
     ar_Receivers = [\<lparr>rc_ID = 0, rc_AlertRuleID = 0, rc_AlertChannelID = 2, rc_Interval = ''1h'',
       rc_AlertChannel = \<lparr>ch_ID = 0, ch_Name = [], ch_Config = OtherChannel []\<rparr>\<rparr>],
     ar_Promql = None, ar_Logql = None, ar_IsOpen = True\<rparr>"

definition ex_tpl :: promql_tpl where
  "ex_tpl = \<lparr>tp_RuleShowName = ''cpu'', tp_Expr = ''cpu'', tp_Labels = [''pod'']\<rparr>"

definition ex_generator :: promql_generator where
  "ex_generator = \<lparr>pg_Scope = ''s'', pg_Resource = ''p'', pg_Rule = ''u'', pg_Unit = ''percent-0-100'',
     pg_LabelMatchers = [\<lparr>lm_Type = ''=~'', lm_Name = ''pod'', lm_Value = ''x.*''\<rparr>], pg_Tpl = Some ex_tpl\<rparr>"

definition ex_print :: "unit \<Rightarrow> prom_matcher list list \<Rightarrow> string" where
  "ex_print q ss = (if list_ex (\<lambda>vs. namespace_matcher ''a'' \<in> set vs) ss then namespace_text ''a'' else ''cpu'')"

definition ex_alert_env :: "unit alert_env" where
  "ex_alert_env = \<lparr>ae_find_tpl = (\<lambda>s p u. if u = ''u'' then Some ex_tpl else None), ae_parse = (\<lambda>e. Some ((), [[]])), ae_print = ex_print,
     ae_duration = (\<lambda>d. Some 60000), ae_regex_ok = (\<lambda>_. True), ae_name_ok = (\<lambda>n. n \<noteq> []),
     ae_channel = (\<lambda>i. if i = 1 then Some \<lparr>ch_ID = 1, ch_Name = ''default'', ch_Config = OtherChannel ''hook''\<rparr>
       else if i = 2 then Some \<lparr>ch_ID = 2, ch_Name = ''mail'', ch_Config = EmailChannel
         \<lparr>em_SMTPServer = ''s'', em_RequireTLS = True, em_From = ''u@x'', em_To = ''v'', em_AuthPassword = ''p'', em_SendResolved = True\<rparr>\<rparr> else None)\<rparr>"

theorem raw_expr_not_confined:
  "GenerateExpr ex_alert_env (ex_rule\<lparr>ar_Expr := ''up or x{'' @ namespace_text ''a'' @ ''}''\<rparr>) = Inr (''up or x{'' @ namespace_text ''a'' @ ''}'')"
  by code_simp

theorem logql_escapes:
  "let m = \<lparr>lm_Type = [], lm_Name = ''app'', lm_Value = ''x''\<rparr>;
       pattern = ''x` [1m])) or sum(count_over_time({'' @ namespace_text ''b'' @ ''} |~ `y'' in
   GenerateExpr ex_alert_env (ex_rule\<lparr>ar_AlertType := ''logging'', ar_Logql := Some \<lparr>lg_Duration = ''1m'', lg_Match = pattern, lg_LabelMatchers = [m]\<rparr>\<rparr>) =
   Inr (''sum(count_over_time({app='' @ go_quote ''x'' @ '', '' @ namespace_text ''a'' @ ''} |~ `x` [1m])) or '' @
     ''sum(count_over_time({'' @ namespace_text ''b'' @ ''} |~ `y` [1m]))without(fluentd_thread)'')"
  by code_simp


section \<open>What a completed rule is\<close>

lemma load_channels_Some:
  "load_channels env rule vs = Some us \<Longrightarrow>
     map rc_AlertChannelID us = map rc_AlertChannelID vs \<and> map rc_Interval us = map rc_Interval vs \<and>
     (\<forall>u \<in> set us. rc_AlertRuleID u = rule \<and> ae_channel env (rc_AlertChannelID u) = Some (rc_AlertChannel u)) \<and>
     load_channels env rule us = Some us"
proof (induction vs arbitrary: us)
  case (Cons v vs)
  from Cons.prems obtain ch ws where at: "ae_channel env (rc_AlertChannelID v) = Some ch" "load_channels env rule vs = Some ws"
    "us = v\<lparr>rc_AlertRuleID := rule, rc_AlertChannel := ch\<rparr> # ws"
    by (auto split: option.splits)
  then show ?case using Cons.IH [OF at(2)] by simp
qed simp

lemma generated_expr_cong:
  "ar_AlertType a = ar_AlertType b \<Longrightarrow> ar_Namespace a = ar_Namespace b \<Longrightarrow> ar_Promql a = ar_Promql b \<Longrightarrow> ar_Logql a = ar_Logql b \<Longrightarrow>
    generated_expr env a = generated_expr env b"
  unfolding generated_expr_def by (simp cong: option.case_cong if_cong)

lemma set_tpl_again:
  "set_tpl env r = Some r \<longleftrightarrow> (\<forall>g. ar_Promql r = Some g \<longrightarrow>
     pg_Tpl g \<noteq> None \<and> ae_find_tpl env (pg_Scope g) (pg_Resource g) (pg_Rule g) = pg_Tpl g)"
proof (cases "ar_Promql r")
  case (Some g)
  have "r\<lparr>ar_Promql := Some (g\<lparr>pg_Tpl := Some tpl\<rparr>)\<rparr> = r \<longleftrightarrow> pg_Tpl g = Some tpl" for tpl
    using Some by (cases r; cases g) auto
  then have "set_tpl env r = Some r \<longleftrightarrow> (\<exists>tpl. ae_find_tpl env (pg_Scope g) (pg_Resource g) (pg_Rule g) = Some tpl \<and> pg_Tpl g = Some tpl)"
    using Some by (simp add: set_tpl_def)
  then show ?thesis using Some by fastforce
qed (simp add: set_tpl_def)

lemma complete_again:
  assumes "ae_name_ok env (ar_Name r)" "ar_Namespace r \<noteq> []" "set_tpl env r = Some r" "ar_Message r \<noteq> []"
    and "GenerateExpr env r = Inr (ar_Expr r)" "SetReceivers env r = Some r" "checkAlertLevels r"
  shows "MutateAlertRule env r = Inr r"
proof -
  have "r\<lparr>ar_Message := ar_Message r\<rparr> = r" "r\<lparr>ar_Message := ar_Message r, ar_Expr := ar_Expr r\<rparr> = r" by (cases r, simp)+
  then show ?thesis using assms by (simp add: MutateAlertRule_def)
qed



end
