(* ===== verification/Alert_Sync.thy ===== *)
theory Alert_Sync
  imports Alert_Rules
begin

text \<open>
  Alert rules in a cluster: \<open>pkg/service/handlers/observability/alert.go\<close> makes of a rule a group of rules for Prometheus or Loki, a
  configuration of the alert manager, the password of its mail channels and, when it is closed, a silence, and reads the groups and
  configurations back; \<open>pkg/worker/task/alertrule_sync.go\<close> compares them with the database.

  Which requests fail is a parameter. Objects are found as they were written; a map without entries is nil when it is
  read again, and the text of the groups of Loki decodes to the groups it was made of, or to nothing.
\<close>

section \<open>What is made of a rule\<close>

record prom_rule =
  ru_Alert :: string
  ru_Expr :: string
  ru_For :: string
  ru_Labels :: "(string, string) gomap"
  ru_Annotations :: "(string, string) gomap"

record rule_group =
  rg_Name :: string
  rg_Rules :: "prom_rule list"

datatype receiver_config = NullConfig | EmailConfig string bool string string string bool | OtherConfig string

record am_receiver =
  rv_Name :: string
  rv_Config :: receiver_config

record am_matcher =
  mt_Name :: string
  mt_Value :: string

record am_route =
  rt_Receiver :: string
  rt_RepeatInterval :: string
  rt_Continue :: bool
  rt_Matchers :: "am_matcher list"

record inhibit_rule =
  ir_SourceMatch :: "am_matcher list"
  ir_TargetMatch :: "am_matcher list"
  ir_Equal :: "string list"

record amcfg_spec =
  sp_Receiver :: string
  sp_GroupBy :: "string list"
  sp_GroupWait :: string
  sp_GroupInterval :: string
  sp_Matchers :: "am_matcher list"
  sp_Routes :: "am_route list"
  sp_Receivers :: "am_receiver list"
  sp_InhibitRules :: "inhibit_rule list"

definition AlertNamespaceLabel :: string where "AlertNamespaceLabel = ''gems_namespace''"
definition AlertNameLabel :: string where "AlertNameLabel = ''gems_alertname''"
definition SeverityLabel :: string where "SeverityLabel = ''severity''"
definition SeverityError :: string where "SeverityError = ''error''"
definition SeverityCritical :: string where "SeverityCritical = ''critical''"
definition MessageAnnotationsKey :: string where "MessageAnnotationsKey = ''message''"
definition ValueAnnotationKey :: string where "ValueAnnotationKey = ''value''"
definition NullReceiverName :: string where "NullReceiverName = ''null''"
definition EmailSecretName :: string where "EmailSecretName = ''gemscloud-email-password''"

definition level_expr :: "alert_rule \<Rightarrow> alert_level \<Rightarrow> string" where
  "level_expr r level =
     (if ar_Promql r = None \<and> ar_Logql r = None then ar_Expr r else ar_Expr r @ al_CompareOp level @ al_CompareValue level)"

definition GenerateRuleGroup :: "alert_rule \<Rightarrow> rule_group" where
  "GenerateRuleGroup r =
     \<lparr>rg_Name = ar_Name r,
      rg_Rules = map (\<lambda>level.
        \<lparr>ru_Alert = ar_Name r, ru_Expr = level_expr r level, ru_For = ar_For r,
         ru_Labels = [(AlertNamespaceLabel, ar_Namespace r), (AlertNameLabel, ar_Name r), (SeverityLabel, al_Severity level)],
         ru_Annotations = [(MessageAnnotationsKey, ar_Message r), (ValueAnnotationKey, ValueAnnotationExpr)]\<rparr>) (ar_AlertLevels r)\<rparr>"

definition EmailSecretKey :: "string \<Rightarrow> string \<Rightarrow> string" where
  "EmailSecretKey receiver sender = receiver @ ''-'' @ filter (\<lambda>c. c \<noteq> CHR ''@'') sender"

definition ToAlertmanagerReceiver :: "alert_channel \<Rightarrow> am_receiver" where
  "ToAlertmanagerReceiver ch =
     \<lparr>rv_Name = ReceiverName ch,
      rv_Config = (case ch_Config ch of
          EmailChannel e \<Rightarrow> EmailConfig (em_SMTPServer e) (em_RequireTLS e) (em_From e) (em_To e) (EmailSecretKey (ReceiverName ch) (em_From e)) (em_SendResolved e)
        | OtherChannel c \<Rightarrow> OtherConfig c)\<rparr>"

definition rule_matchers :: "alert_rule \<Rightarrow> am_matcher list" where
  "rule_matchers r = [\<lparr>mt_Name = AlertNamespaceLabel, mt_Value = ar_Namespace r\<rparr>, \<lparr>mt_Name = AlertNameLabel, mt_Value = ar_Name r\<rparr>]"

definition scope_matchers :: "alert_rule \<Rightarrow> am_matcher list" where
  "scope_matchers r = (if ar_Namespace r \<noteq> GlobalAlertNamespace then [\<lparr>mt_Name = ''namespace'', mt_Value = ar_Namespace r\<rparr>] else [])"

definition GenerateAmcfgSpec :: "alert_rule \<Rightarrow> amcfg_spec" where
  "GenerateAmcfgSpec r =
     \<lparr>sp_Receiver = NullReceiverName, sp_GroupBy = [AlertNamespaceLabel, AlertNameLabel], sp_GroupWait = ''30s'', sp_GroupInterval = ''30s'',
      sp_Matchers = scope_matchers r,
      sp_Routes = map (\<lambda>rec. \<lparr>rt_Receiver = ReceiverName (rc_AlertChannel rec), rt_RepeatInterval = rc_Interval rec, rt_Continue = True,
        rt_Matchers = rule_matchers r\<rparr>) (ar_Receivers r),
      sp_Receivers = \<lparr>rv_Name = NullReceiverName, rv_Config = NullConfig\<rparr> # map (\<lambda>rec. ToAlertmanagerReceiver (rc_AlertChannel rec)) (ar_Receivers r),
      sp_InhibitRules =
        (if ar_InhibitLabels r = [] then []
         else [\<lparr>ir_SourceMatch = rule_matchers r @ [\<lparr>mt_Name = SeverityLabel, mt_Value = SeverityCritical\<rparr>] @ scope_matchers r,
                ir_TargetMatch = rule_matchers r @ [\<lparr>mt_Name = SeverityLabel, mt_Value = SeverityError\<rparr>] @ scope_matchers r,
                ir_Equal = ar_InhibitLabels r @ [AlertNamespaceLabel, AlertNameLabel] @
                  (if ar_Namespace r \<noteq> GlobalAlertNamespace then [''namespace''] else [])\<rparr>])\<rparr>"

section \<open>The cluster\<close>

text \<open>Objects with their labels, by namespace and name. A silence has matchers for equality; whether it applies to a rule.\<close>

record 'a labelled =
  lb_Labels :: "(string, string) gomap"
  lb_Spec :: 'a

datatype loki_text = LokiGroups "rule_group list" | LokiText string

record silence =
  si_ID :: nat
  si_Comment :: string
  si_Active :: bool
  si_Matchers :: "(string \<times> string) list"

record alert_cluster =
  ac_secrets :: "(string, (string, string) gomap) gomap"
  ac_rules :: "(string \<times> string, rule_group list labelled) gomap"
  ac_amcfgs :: "(string \<times> string, amcfg_spec labelled) gomap"
  ac_loki :: "(string, loki_text) gomap option"
  ac_silences :: "silence list"
  ac_next :: nat

datatype alert_request = WriteSecret | WriteRule | WriteAmcfg | WriteLoki | ListSilences | CreateSilence | ExpireSilence
  | DeleteRule | DeleteAmcfg | ListRules | ListAmcfgs | GetLoki

text \<open>Each step gives the cluster and whether it succeeded.\<close>

type_synonym alert_step = "alert_cluster \<Rightarrow> alert_cluster \<times> bool"

definition and_also :: "alert_step \<Rightarrow> alert_step \<Rightarrow> alert_step" where
  "and_also f g c = (case f c of (c, True) \<Rightarrow> g c | (c, False) \<Rightarrow> (c, False))"

definition LabelAlertmanagerConfigType :: string where "LabelAlertmanagerConfigType = ''alertmanagerconfig.kubegems.io/type''"
definition LabelAlertmanagerConfigName :: string where "LabelAlertmanagerConfigName = ''alertmanagerconfig.kubegems.io/name''"
definition LabelPrometheusRuleType :: string where "LabelPrometheusRuleType = ''prometheusrule.kubegems.io/type''"
definition LabelPrometheusRuleName :: string where "LabelPrometheusRuleName = ''prometheusrule.kubegems.io/name''"
definition DefaultAlertCRDName :: string where "DefaultAlertCRDName = ''kubegems-default-monitor-alert-rule''"
definition LokiRecordingRulesKey :: string where "LokiRecordingRulesKey = ''kubegems-loki-recording-rules.yaml''"
definition SilenceCommentForAlertrulePrefix :: string where "SilenceCommentForAlertrulePrefix = ''silence for''"

text \<open>\<open>CreateOrUpdate\<close>: an object that is there is read into the new one, its labels over the new ones; what did not change is not written.\<close>

definition put_labelled :: "'k \<Rightarrow> (string, string) gomap \<Rightarrow> 'a \<Rightarrow> ('k, 'a labelled) gomap \<Rightarrow> ('k, 'a labelled) gomap" where
  "put_labelled key labels spec m =
     AList.update key (case map_of m key of
         None \<Rightarrow> \<lparr>lb_Labels = labels, lb_Spec = spec\<rparr>
       | Some old \<Rightarrow> if lb_Spec old = spec then old
                    else \<lparr>lb_Labels = foldl (\<lambda>m (k, v). AList.update k v m) labels (lb_Labels old), lb_Spec = spec\<rparr>) m"

definition rule_emails :: "alert_rule \<Rightarrow> (string, email_channel) gomap" where
  "rule_emails r = foldl (\<lambda>m rec. case ch_Config (rc_AlertChannel rec) of
       EmailChannel e \<Rightarrow> AList.update (ReceiverName (rc_AlertChannel rec)) e m | OtherChannel t \<Rightarrow> m) [] (ar_Receivers r)"

definition syncEmailSecret :: "(alert_request \<Rightarrow> bool) \<Rightarrow> alert_rule \<Rightarrow> alert_step" where
  "syncEmailSecret fails r c =
     (if fails WriteSecret then (c, False)
      else let old = (case map_of (ac_secrets c) (ar_Namespace r) of None \<Rightarrow> [] | Some d \<Rightarrow> d);
               new = foldl (\<lambda>d (name, e). AList.update (EmailSecretKey name (em_From e)) (em_AuthPassword e) d) old (rule_emails r)
           in (c\<lparr>ac_secrets := AList.update (ar_Namespace r) new (ac_secrets c)\<rparr>, True))"

definition syncPrometheusRule :: "(alert_request \<Rightarrow> bool) \<Rightarrow> alert_rule \<Rightarrow> alert_step" where
  "syncPrometheusRule fails r c =
     (if fails WriteRule then (c, False)
      else (c\<lparr>ac_rules := put_labelled (ar_Namespace r, ar_Name r)
          [(LabelPrometheusRuleType, AlertTypeMonitor), (LabelPrometheusRuleName, ar_Name r)] [GenerateRuleGroup r] (ac_rules c)\<rparr>, True))"

definition syncAlertmanagerConfig :: "(alert_request \<Rightarrow> bool) \<Rightarrow> alert_rule \<Rightarrow> alert_step" where
  "syncAlertmanagerConfig fails r c =
     (if fails WriteAmcfg then (c, False)
      else (c\<lparr>ac_amcfgs := put_labelled (ar_Namespace r, ar_Name r)
          [(LabelAlertmanagerConfigType, AlertTypeMonitor), (LabelAlertmanagerConfigName, ar_Name r)] (GenerateAmcfgSpec r) (ac_amcfgs c)\<rparr>, True))"

text \<open>The groups of a namespace in the map for Loki. Where the map is nil it is made, but not in the object.\<close>

definition mutateLokiRuleGroups ::
  "(rule_group list \<Rightarrow> rule_group list) \<Rightarrow> string \<Rightarrow> (string, loki_text) gomap \<Rightarrow> (string, loki_text) gomap option" where
  "mutateLokiRuleGroups mutate namespace data =
     (case map_of data namespace of
        Some (LokiText t) \<Rightarrow> None
      | Some (LokiGroups gs) \<Rightarrow> Some (AList.update namespace (LokiGroups (mutate gs)) data)
      | None \<Rightarrow> Some (if data = [] then [] else AList.update namespace (LokiGroups (mutate [])) data))"

definition write_loki :: "(alert_request \<Rightarrow> bool) \<Rightarrow> (rule_group list \<Rightarrow> rule_group list) \<Rightarrow> string \<Rightarrow> alert_step" where
  "write_loki fails mutate namespace c =
     (if fails WriteLoki then (c, False)
      else case mutateLokiRuleGroups mutate namespace (case ac_loki c of None \<Rightarrow> [] | Some d \<Rightarrow> d) of
             None \<Rightarrow> (c, False)
           | Some d \<Rightarrow> (c\<lparr>ac_loki := Some d\<rparr>, True))"

text \<open>The last group of that name is replaced.\<close>

fun put_group :: "rule_group \<Rightarrow> rule_group list \<Rightarrow> rule_group list option" where
  "put_group rg [] = None"
| "put_group rg (v # vs) =
     (case put_group rg vs of
        Some us \<Rightarrow> Some (v # us)
      | None \<Rightarrow> if rg_Name v = rg_Name rg then Some (rg # vs) else None)"

definition syncLokiRules :: "(alert_request \<Rightarrow> bool) \<Rightarrow> alert_rule \<Rightarrow> alert_step" where
  "syncLokiRules fails r =
     write_loki fails (\<lambda>gs. case put_group (GenerateRuleGroup r) gs of None \<Rightarrow> gs @ [GenerateRuleGroup r] | Some us \<Rightarrow> us) (ar_Namespace r)"

section \<open>Silences\<close>

text \<open>The alert manager lists those with a matcher for the namespace, or all; what is asked for are those in force, made for a rule, that apply.\<close>

definition listSilences :: "string \<Rightarrow> alert_cluster \<Rightarrow> silence list" where
  "listSilences namespace c =
     filter (\<lambda>s. si_Active s \<and> has_prefix (si_Comment s) SilenceCommentForAlertrulePrefix)
       (filter (\<lambda>s. namespace = [] \<or> (AlertNamespaceLabel, namespace) \<in> set (si_Matchers s)) (ac_silences c))"

definition silence_matches :: "string \<Rightarrow> string \<Rightarrow> silence \<Rightarrow> bool" where
  "silence_matches namespace name s \<longleftrightarrow>
     list_all (\<lambda>(n, v). v = get_str [(AlertNamespaceLabel, namespace), (AlertNameLabel, name)] n) (si_Matchers s)"

datatype silence_found = NoSilence | OneSilence silence | SilenceError

definition getSilence :: "(alert_request \<Rightarrow> bool) \<Rightarrow> string \<Rightarrow> string \<Rightarrow> alert_cluster \<Rightarrow> silence_found" where
  "getSilence fails namespace name c =
     (if fails ListSilences then SilenceError
      else case filter (\<lambda>s. si_Active s \<and> silence_matches namespace name s) (listSilences namespace c) of
             [] \<Rightarrow> NoSilence
           | [s] \<Rightarrow> OneSilence s
           | _ \<Rightarrow> SilenceError)"

definition createSilenceIfNotExist :: "(alert_request \<Rightarrow> bool) \<Rightarrow> string \<Rightarrow> string \<Rightarrow> alert_step" where
  "createSilenceIfNotExist fails namespace name c =
     (case getSilence fails namespace name c of
        SilenceError \<Rightarrow> (c, False)
      | OneSilence s \<Rightarrow> (c, True)
      | NoSilence \<Rightarrow>
          if fails CreateSilence then (c, False)
          else (c\<lparr>ac_silences := ac_silences c @ [\<lparr>si_ID = ac_next c, si_Comment = ''silence for '' @ name, si_Active = True,
              si_Matchers = [(AlertNamespaceLabel, namespace), (AlertNameLabel, name)]\<rparr>], ac_next := Suc (ac_next c)\<rparr>, True))"

definition deleteSilenceIfExist :: "(alert_request \<Rightarrow> bool) \<Rightarrow> string \<Rightarrow> string \<Rightarrow> alert_step" where
  "deleteSilenceIfExist fails namespace name c =
     (case getSilence fails namespace name c of
        SilenceError \<Rightarrow> (c, False)
      | NoSilence \<Rightarrow> (c, True)
      | OneSilence s \<Rightarrow>
          if fails ExpireSilence then (c, False)
          else (c\<lparr>ac_silences := map (\<lambda>t. if si_ID t = si_ID s then t\<lparr>si_Active := False\<rparr> else t) (ac_silences c)\<rparr>, True))"

section \<open>A rule in a cluster\<close>

definition syncMonitorAlertRule :: "(alert_request \<Rightarrow> bool) \<Rightarrow> alert_rule \<Rightarrow> alert_step" where
  "syncMonitorAlertRule fails r = and_also (syncEmailSecret fails r) (and_also (syncPrometheusRule fails r) (syncAlertmanagerConfig fails r))"

definition syncLoggingAlertRule :: "(alert_request \<Rightarrow> bool) \<Rightarrow> alert_rule \<Rightarrow> alert_step" where
  "syncLoggingAlertRule fails r = and_also (syncEmailSecret fails r) (and_also (syncLokiRules fails r) (syncAlertmanagerConfig fails r))"

definition SyncAlertRule :: "(alert_request \<Rightarrow> bool) \<Rightarrow> alert_rule \<Rightarrow> alert_step" where
  "SyncAlertRule fails r =
     and_also
       (if ar_AlertType r = AlertTypeMonitor then syncMonitorAlertRule fails r
        else if ar_AlertType r = AlertTypeLogging then syncLoggingAlertRule fails r
        else (\<lambda>c. (c, False)))
       (if ar_IsOpen r then deleteSilenceIfExist fails (ar_Namespace r) (ar_Name r) else createSilenceIfNotExist fails (ar_Namespace r) (ar_Name r))"

definition delete_rule :: "(alert_request \<Rightarrow> bool) \<Rightarrow> alert_rule \<Rightarrow> alert_step" where
  "delete_rule fails r c =
     (if fails DeleteRule then (c, False) else (c\<lparr>ac_rules := AList.delete (ar_Namespace r, ar_Name r) (ac_rules c)\<rparr>, True))"

definition delete_amcfg :: "(alert_request \<Rightarrow> bool) \<Rightarrow> alert_rule \<Rightarrow> alert_step" where
  "delete_amcfg fails r c =
     (if fails DeleteAmcfg then (c, False) else (c\<lparr>ac_amcfgs := AList.delete (ar_Namespace r, ar_Name r) (ac_amcfgs c)\<rparr>, True))"

definition deleteMonitorAlertRule :: "(alert_request \<Rightarrow> bool) \<Rightarrow> alert_rule \<Rightarrow> alert_step" where
  "deleteMonitorAlertRule fails r =
     and_also (delete_rule fails r) (and_also (delete_amcfg fails r) (deleteSilenceIfExist fails (ar_Namespace r) (ar_Name r)))"

definition deleteLoggingAlertRule :: "(alert_request \<Rightarrow> bool) \<Rightarrow> alert_rule \<Rightarrow> alert_step" where
  "deleteLoggingAlertRule fails r =
     and_also (write_loki fails (filter (\<lambda>g. rg_Name g \<noteq> ar_Name r)) (ar_Namespace r))
       (and_also (delete_amcfg fails r) (deleteSilenceIfExist fails (ar_Namespace r) (ar_Name r)))"

section \<open>Reading them back\<close>

definition has_labels :: "string list \<Rightarrow> 'a labelled \<Rightarrow> bool" where
  "has_labels keys obj \<longleftrightarrow> list_all (\<lambda>k. map_of (lb_Labels obj) k \<noteq> None) keys"

text \<open>The first group of a key counts.\<close>

fun add_groups :: "(string \<Rightarrow> string) \<Rightarrow> rule_group list \<Rightarrow> (string, rule_group) gomap \<Rightarrow> (string, rule_group) gomap" where
  "add_groups key [] m = m"
| "add_groups key (g # gs) m = add_groups key gs (case map_of m (key (rg_Name g)) of Some _ \<Rightarrow> m | None \<Rightarrow> AList.update (key (rg_Name g)) g m)"

fun loki_groups :: "string \<Rightarrow> (string, loki_text) gomap \<Rightarrow> (string, rule_group) gomap \<Rightarrow> (string, rule_group) gomap option" where
  "loki_groups cluster [] m = Some m"
| "loki_groups cluster ((k, v) # rest) m =
     (if k = LokiRecordingRulesKey then loki_groups cluster rest m
      else case v of
             LokiText t \<Rightarrow> None
           | LokiGroups gs \<Rightarrow> loki_groups cluster rest (add_groups (AlertRuleKey cluster k) gs m))"

definition GetK8sAlertCfg :: "(alert_request \<Rightarrow> bool) \<Rightarrow> string \<Rightarrow> alert_cluster \<Rightarrow> (string, rule_group \<times> amcfg_spec) gomap option" where
  "GetK8sAlertCfg fails cluster c =
     (if fails ListAmcfgs then None
      else let rules = (if fails ListRules then [] else
                 filter (\<lambda>((_, name), obj). has_labels [LabelPrometheusRuleType, LabelPrometheusRuleName] obj \<and> name \<noteq> DefaultAlertCRDName) (ac_rules c));
               groups = foldl (\<lambda>m ((namespace, _), obj). add_groups (AlertRuleKey cluster namespace) (lb_Spec obj) m) [] rules;
               amcfgs = filter (\<lambda>(_, obj). has_labels [LabelAlertmanagerConfigType, LabelAlertmanagerConfigName] obj) (ac_amcfgs c)
           in case loki_groups cluster (if fails GetLoki then [] else case ac_loki c of None \<Rightarrow> [] | Some d \<Rightarrow> d) groups of
                None \<Rightarrow> None
              | Some groups \<Rightarrow>
                  Some (foldl (\<lambda>m ((namespace, name), obj). case map_of groups (AlertRuleKey cluster namespace name) of
                      None \<Rightarrow> m
                    | Some g \<Rightarrow> AList.update (AlertRuleKey cluster namespace name) (g, lb_Spec obj) m) [] amcfgs))"

definition checkK8sAlertCfg :: "alert_rule \<Rightarrow> (string, rule_group \<times> amcfg_spec) gomap \<Rightarrow> bool" where
  "checkK8sAlertCfg r cfgs \<longleftrightarrow> map_of cfgs (FullName r) = Some (GenerateRuleGroup r, GenerateAmcfgSpec r)"

section \<open>What is read\<close>

abbreviation loki_data :: "alert_cluster \<Rightarrow> (string, loki_text) gomap" where
  "loki_data c \<equiv> (case ac_loki c of None \<Rightarrow> [] | Some d \<Rightarrow> d)"

abbreviation managed_rule :: "string \<Rightarrow> 'a labelled \<Rightarrow> bool" where
  "managed_rule name obj \<equiv> has_labels [LabelPrometheusRuleType, LabelPrometheusRuleName] obj \<and> name \<noteq> DefaultAlertCRDName"

abbreviation managed_amcfg :: "'a labelled \<Rightarrow> bool" where
  "managed_amcfg obj \<equiv> has_labels [LabelAlertmanagerConfigType, LabelAlertmanagerConfigName] obj"

text \<open>Clusters whose objects are as they are written here: the object of a rule has the one group of its name, the map for Loki has groups of
  distinct names, and no namespace has a slash.\<close>

definition wf_alerts :: "alert_cluster \<Rightarrow> bool" where
  "wf_alerts c \<longleftrightarrow> wf_map (ac_rules c) \<and> wf_map (ac_amcfgs c) \<and> wf_map (loki_data c) \<and>
     (\<forall>((ns, n), obj) \<in> set (ac_rules c). managed_rule n obj \<longrightarrow> CHR ''/'' \<notin> set ns \<and> map rg_Name (lb_Spec obj) = [n]) \<and>
     (\<forall>((ns, n), obj) \<in> set (ac_amcfgs c). CHR ''/'' \<notin> set ns) \<and>
     (\<forall>(ns, v) \<in> set (loki_data c). ns \<noteq> LokiRecordingRulesKey \<longrightarrow>
        CHR ''/'' \<notin> set ns \<and> (case v of LokiText t \<Rightarrow> False | LokiGroups gs \<Rightarrow> distinct (map rg_Name gs)))"

text \<open>The group of a rule, of Prometheus or else of Loki.\<close>

definition group_at :: "alert_cluster \<Rightarrow> string \<Rightarrow> string \<Rightarrow> rule_group option" where
  "group_at c ns n =
     (case map_of (ac_rules c) (ns, n) of
        Some obj \<Rightarrow> if managed_rule n obj then Some (hd (lb_Spec obj)) else None
      | None \<Rightarrow> None)"

definition loki_group_at :: "alert_cluster \<Rightarrow> string \<Rightarrow> string \<Rightarrow> rule_group option" where
  "loki_group_at c ns n =
     (case map_of (loki_data c) ns of
        Some (LokiGroups gs) \<Rightarrow> if ns = LokiRecordingRulesKey then None else find (\<lambda>g. rg_Name g = n) gs
      | _ \<Rightarrow> None)"

definition cfg_at :: "alert_cluster \<Rightarrow> string \<Rightarrow> string \<Rightarrow> (rule_group \<times> amcfg_spec) option" where
  "cfg_at c ns n =
     (case map_of (ac_amcfgs c) (ns, n) of
        Some obj \<Rightarrow>
          if managed_amcfg obj
          then map_option (\<lambda>g. (g, lb_Spec obj)) (case group_at c ns n of Some g \<Rightarrow> Some g | None \<Rightarrow> loki_group_at c ns n)
          else None
      | None \<Rightarrow> None)"

lemma AlertRuleKey_inject:
  assumes "CHR ''/'' \<notin> set a" "CHR ''/'' \<notin> set b"
  shows "AlertRuleKey cluster a n = AlertRuleKey cluster b m \<longleftrightarrow> a = b \<and> n = m"
proof
  assume "AlertRuleKey cluster a n = AlertRuleKey cluster b m"
  then have eq: "a @ CHR ''/'' # n = b @ CHR ''/'' # m" by (simp add: AlertRuleKey_def)
  from arg_cong [OF this, of "split_on (CHR ''/'')"] have "a = b" using assms by (simp add: split_on_append_sep)
  then show "a = b \<and> n = m" using eq by simp
qed simp

text \<open>The first one of a key counts.\<close>

definition add_first :: "('k, 'v) gomap \<Rightarrow> 'k \<times> 'v \<Rightarrow> ('k, 'v) gomap" where
  "add_first m kv = (case map_of m (fst kv) of Some _ \<Rightarrow> m | None \<Rightarrow> AList.update (fst kv) (snd kv) m)"

lemma map_of_add_first:
  "map_of (foldl add_first m kvs) k = (case map_of m k of Some v \<Rightarrow> Some v | None \<Rightarrow> map_of kvs k)"
proof (induction kvs arbitrary: m)
  case (Cons kv kvs)
  then show ?case by (cases kv) (auto simp: add_first_def split: option.splits)
qed (simp split: option.split)

lemma add_groups_first: "add_groups key gs m = foldl add_first m (map (\<lambda>g. (key (rg_Name g), g)) gs)"
  by (induction gs arbitrary: m) (simp_all add: add_first_def split: option.split)

definition rule_pairs :: "string \<Rightarrow> ((string \<times> string) \<times> rule_group list labelled) list \<Rightarrow> (string \<times> rule_group) list" where
  "rule_pairs cluster rules = concat (map (\<lambda>((ns, n), obj). map (\<lambda>g. (AlertRuleKey cluster ns (rg_Name g), g)) (lb_Spec obj)) rules)"

lemma fold_rules:
  "foldl (\<lambda>m ((ns, n), obj). add_groups (AlertRuleKey cluster ns) (lb_Spec obj) m) m rules = foldl add_first m (rule_pairs cluster rules)"
  by (induction rules arbitrary: m) (auto simp: rule_pairs_def add_groups_first)

definition loki_pairs :: "string \<Rightarrow> (string, loki_text) gomap \<Rightarrow> (string \<times> rule_group) list" where
  "loki_pairs cluster data = concat (map (\<lambda>(ns, v). if ns = LokiRecordingRulesKey then [] else
     case v of LokiText t \<Rightarrow> [] | LokiGroups gs \<Rightarrow> map (\<lambda>g. (AlertRuleKey cluster ns (rg_Name g), g)) gs) data)"

lemma fold_loki:
  assumes "\<forall>(ns, v) \<in> set data. ns \<noteq> LokiRecordingRulesKey \<longrightarrow> (case v of LokiText t \<Rightarrow> False | LokiGroups gs \<Rightarrow> True)"
  shows "loki_groups cluster data m = Some (foldl add_first m (loki_pairs cluster data))"
  using assms
proof (induction data arbitrary: m)
  case (Cons a data)
  then show ?case by (cases a; cases "snd a") (auto simp: loki_pairs_def add_groups_first)
qed (simp add: loki_pairs_def)

lemma rule_pairs_at:
  assumes "wf_map rules" "CHR ''/'' \<notin> set ns"
    and "\<And>a b obj. ((a, b), obj) \<in> set rules \<Longrightarrow> CHR ''/'' \<notin> set a \<and> map rg_Name (lb_Spec obj) = [b]"
  shows "map_of (rule_pairs cluster rules) (AlertRuleKey cluster ns n) = map_option (\<lambda>obj. hd (lb_Spec obj)) (map_of rules (ns, n))"
  using assms(1,3)
proof (induction rules)
  case (Cons x rules)
  obtain a b obj where x: "x = ((a, b), obj)" by (metis prod.collapse)
  have "CHR ''/'' \<notin> set a" "map rg_Name (lb_Spec obj) = [b]" using Cons.prems(2) [of a b obj] by (simp_all add: x)
  moreover then obtain g where "lb_Spec obj = [g]" "rg_Name g = b" by auto
  moreover have "map_of (rule_pairs cluster rules) (AlertRuleKey cluster ns n) = map_option (\<lambda>obj. hd (lb_Spec obj)) (map_of rules (ns, n))"
    by (rule Cons.IH) (use Cons.prems in \<open>auto simp: x\<close>)
  moreover have "rule_pairs cluster (x # rules) = map (\<lambda>g. (AlertRuleKey cluster a (rg_Name g), g)) (lb_Spec obj) @ rule_pairs cluster rules"
    by (simp add: rule_pairs_def x)
  ultimately show ?case using AlertRuleKey_inject [OF assms(2), of a cluster n b] by (auto simp: x)
qed (simp add: rule_pairs_def)

lemma map_of_keyed_find:
  "map_of (map (\<lambda>g. (AlertRuleKey cluster ns (rg_Name g), g)) gs) (AlertRuleKey cluster ns n) = find (\<lambda>g. rg_Name g = n) gs"
  by (induction gs) (auto simp: AlertRuleKey_def)

lemma loki_pairs_at:
  assumes "wf_map data" "CHR ''/'' \<notin> set ns"
    and "\<And>a v. (a, v) \<in> set data \<Longrightarrow> a \<noteq> LokiRecordingRulesKey \<Longrightarrow> CHR ''/'' \<notin> set a"
  shows "map_of (loki_pairs cluster data) (AlertRuleKey cluster ns n) =
    (case map_of data ns of
       Some (LokiGroups gs) \<Rightarrow> if ns = LokiRecordingRulesKey then None else find (\<lambda>g. rg_Name g = n) gs | _ \<Rightarrow> None)"
  using assms(1,3)
proof (induction data)
  case (Cons x data)
  obtain a v where x: "x = (a, v)" by (cases x)
  let ?here = "if a = LokiRecordingRulesKey then [] else case v of LokiText t \<Rightarrow> [] | LokiGroups gs \<Rightarrow> map (\<lambda>g. (AlertRuleKey cluster a (rg_Name g), g)) gs"
  have pairs: "loki_pairs cluster (x # data) = ?here @ loki_pairs cluster data" by (simp add: loki_pairs_def x)
  have IH: "map_of (loki_pairs cluster data) (AlertRuleKey cluster ns n) = (case map_of data ns of
       Some (LokiGroups gs) \<Rightarrow> if ns = LokiRecordingRulesKey then None else find (\<lambda>g. rg_Name g = n) gs | _ \<Rightarrow> None)"
    by (rule Cons.IH) (use Cons.prems in \<open>auto simp: x\<close>)
  show ?case
  proof (cases "a = ns")
    case True
    then have "map_of data ns = None" using Cons.prems(1) by (simp add: x map_of_eq_None_iff)
    then have "map_of (loki_pairs cluster data) (AlertRuleKey cluster ns n) = None" using IH by simp
    then show ?thesis
      unfolding pairs using True
      by (cases v; cases "ns = LokiRecordingRulesKey") (simp_all add: x map_add_def map_of_keyed_find split: option.split del: map_of_eq_None_iff)
  next
    case False
    have "map_of ?here (AlertRuleKey cluster ns n) = None"
    proof (cases "a = LokiRecordingRulesKey")
      case no: False
      then have "CHR ''/'' \<notin> set a" using Cons.prems(2) [of a v] by (simp add: x)
      then have other: "\<forall>m. AlertRuleKey cluster a m \<noteq> AlertRuleKey cluster ns n" using AlertRuleKey_inject [OF assms(2)] False by metis
      have "AlertRuleKey cluster ns n \<notin> fst ` set ?here"
        using other no by (cases v) (force simp only: image_iff set_map loki_text.case if_False fst_conv list.set empty_iff bex_empty)+
      then show ?thesis by (simp only: map_of_eq_None_iff not_False_eq_True)
    qed simp
    then show ?thesis unfolding pairs using False IH by (simp add: x map_add_def)
  qed
qed (simp add: loki_pairs_def)

lemma fold_amcfgs:
  assumes "wf_map xs" "CHR ''/'' \<notin> set ns" "\<And>a b obj. ((a, b), obj) \<in> set xs \<Longrightarrow> CHR ''/'' \<notin> set a"
  shows "map_of (foldl (\<lambda>m ((a, b), obj). case G (AlertRuleKey cluster a b) of None \<Rightarrow> m
      | Some g \<Rightarrow> AList.update (AlertRuleKey cluster a b) (g, lb_Spec obj) m) m xs) (AlertRuleKey cluster ns n) =
    (case map_of xs (ns, n) of
       None \<Rightarrow> map_of m (AlertRuleKey cluster ns n)
     | Some obj \<Rightarrow> (case G (AlertRuleKey cluster ns n) of None \<Rightarrow> map_of m (AlertRuleKey cluster ns n) | Some g \<Rightarrow> Some (g, lb_Spec obj)))"
  using assms(1,3)
proof (induction xs arbitrary: m)
  case (Cons x xs)
  obtain a b obj where x: "x = ((a, b), obj)" by (metis prod.collapse)
  have key: "AlertRuleKey cluster ns n = AlertRuleKey cluster a b \<longleftrightarrow> ns = a \<and> n = b"
    using AlertRuleKey_inject [OF assms(2)] Cons.prems(2) [of a b obj] by (simp add: x)
  have later: "map_of xs (a, b) = None" using Cons.prems(1) by (simp add: x map_of_eq_None_iff)
  have prems: "wf_map xs" "\<And>a b obj. ((a, b), obj) \<in> set xs \<Longrightarrow> CHR ''/'' \<notin> set a" using Cons.prems by (auto simp: x)
  show ?case
  proof (cases "(a, b) = (ns, n)")
    case True
    then show ?thesis using later by (simp add: x Cons.IH [OF prems] split: option.split)
  next
    case False
    then show ?thesis using key by (auto simp: x Cons.IH [OF prems] split: option.split)
  qed
qed simp

abbreviation no_failure :: "alert_request \<Rightarrow> bool" where
  "no_failure \<equiv> \<lambda>_. False"

lemma wf_map_filter: "wf_map m \<Longrightarrow> wf_map (filter P m)"
  by (simp add: distinct_map_filter)

lemma map_of_filter_pair:
  assumes "wf_map m"
  shows "map_of (filter (\<lambda>((a, b), obj). P b obj) m) (ns, n) =
    (case map_of m (ns, n) of None \<Rightarrow> None | Some obj \<Rightarrow> if P n obj then Some obj else None)"
proof -
  have "filter (\<lambda>((a, b), obj). P b obj) m = filter (\<lambda>(k, obj). P (snd k) obj) m" by (rule filter_cong) auto
  then show ?thesis using map_of_filter_val [OF assms, of "\<lambda>k obj. P (snd k) obj" "(ns, n)"] by (simp only: snd_conv)
qed

text \<open>In such a cluster everything is read, rule by rule.\<close>

lemma cfgs_read:
  assumes "wf_alerts c"
  shows "\<exists>m. GetK8sAlertCfg no_failure cluster c = Some m \<and>
    (\<forall>ns n. CHR ''/'' \<notin> set ns \<longrightarrow> map_of m (AlertRuleKey cluster ns n) = cfg_at c ns n)"
proof -
  let ?rules = "filter (\<lambda>((a, b), obj). managed_rule b obj) (ac_rules c)"
  let ?amcfgs = "filter (\<lambda>((a, b), obj). managed_amcfg obj) (ac_amcfgs c)"
  let ?groups = "foldl add_first [] (rule_pairs cluster ?rules @ loki_pairs cluster (loki_data c))"
  let ?step = "\<lambda>m ((a, b), obj). case map_of ?groups (AlertRuleKey cluster a b) of None \<Rightarrow> m
      | Some g \<Rightarrow> AList.update (AlertRuleKey cluster a b) (g, lb_Spec obj) m"
  have wf: "wf_map ?rules" "wf_map ?amcfgs" "wf_map (loki_data c)"
    using assms wf_map_filter by (auto simp: wf_alerts_def)
  have rulesat: "map_of ?rules (ns, n) = (case map_of (ac_rules c) (ns, n) of None \<Rightarrow> None | Some obj \<Rightarrow> if managed_rule n obj then Some obj else None)" for ns n
    using assms by (intro map_of_filter_pair) (simp add: wf_alerts_def)
  have amcfgsat: "map_of ?amcfgs (ns, n) = (case map_of (ac_amcfgs c) (ns, n) of None \<Rightarrow> None | Some obj \<Rightarrow> if managed_amcfg obj then Some obj else None)" for ns n
    using assms by (intro map_of_filter_pair) (simp add: wf_alerts_def)
  have rules: "CHR ''/'' \<notin> set a \<and> map rg_Name (lb_Spec obj) = [b]" if "((a, b), obj) \<in> set ?rules" for a b obj
    using assms that by (fastforce simp: wf_alerts_def)
  have amcfgs: "CHR ''/'' \<notin> set a" if "((a, b), obj) \<in> set ?amcfgs" for a b obj
    using assms that by (fastforce simp: wf_alerts_def)
  have data: "CHR ''/'' \<notin> set a" if "(a, v) \<in> set (loki_data c)" "a \<noteq> LokiRecordingRulesKey" for a v
    using assms that unfolding wf_alerts_def by fastforce
  have texts: "\<forall>(ns, v) \<in> set (loki_data c). ns \<noteq> LokiRecordingRulesKey \<longrightarrow> (case v of LokiText t \<Rightarrow> False | LokiGroups gs \<Rightarrow> True)"
    using assms unfolding wf_alerts_def by (fastforce split: loki_text.splits)
  have groups: "map_of ?groups (AlertRuleKey cluster ns n) =
      (case group_at c ns n of Some g \<Rightarrow> Some g | None \<Rightarrow> loki_group_at c ns n)" if "CHR ''/'' \<notin> set ns" for ns n
  proof -
    have "map_of (rule_pairs cluster ?rules) (AlertRuleKey cluster ns n) = group_at c ns n"
    proof (rule trans [OF rule_pairs_at])
      show "map_option (\<lambda>obj. hd (lb_Spec obj)) (map_of ?rules (ns, n)) = group_at c ns n"
        unfolding rulesat by (simp add: group_at_def split: option.split)
    qed (use wf(1) that rules in auto)
    moreover have "map_of (loki_pairs cluster (loki_data c)) (AlertRuleKey cluster ns n) = loki_group_at c ns n"
      unfolding loki_group_at_def by (rule loki_pairs_at [OF wf(3) that data])
    ultimately show ?thesis by (simp add: map_of_add_first map_add_def split: option.split)
  qed
  have "GetK8sAlertCfg no_failure cluster c = Some (foldl ?step [] ?amcfgs)"
  proof -
    have "filter (\<lambda>(_, obj). managed_amcfg obj) (ac_amcfgs c) = ?amcfgs" by (rule filter_cong) auto
    moreover have "(\<lambda>((_, name), obj). managed_rule name obj) = (\<lambda>((a, b), obj). managed_rule b obj)" by auto
    ultimately show ?thesis
      unfolding GetK8sAlertCfg_def Let_def fold_rules fold_loki [OF texts] if_False by (simp only: fold_rules fold_loki [OF texts] option.case foldl_append if_False)
  qed
  moreover have "map_of (foldl ?step [] ?amcfgs) (AlertRuleKey cluster ns n) = cfg_at c ns n" if "CHR ''/'' \<notin> set ns" for ns n
  proof (rule trans [OF fold_amcfgs])
    show "(case map_of ?amcfgs (ns, n) of None \<Rightarrow> map_of [] (AlertRuleKey cluster ns n)
        | Some obj \<Rightarrow> (case map_of ?groups (AlertRuleKey cluster ns n) of None \<Rightarrow> map_of [] (AlertRuleKey cluster ns n) | Some g \<Rightarrow> Some (g, lb_Spec obj)))
      = cfg_at c ns n"
      unfolding groups [OF that] amcfgsat by (simp add: cfg_at_def split: option.split)
  qed (use wf(2) that amcfgs in auto)
  ultimately show ?thesis by blast
qed

section \<open>What a rule becomes in a cluster\<close>

lemma and_also_True: "and_also f g c = (c', True) \<longleftrightarrow> (\<exists>d. f c = (d, True) \<and> g d = (c', True))"
  by (auto simp: and_also_def split: prod.splits bool.splits)

lemma map_of_over: "map_of m k \<noteq> None \<Longrightarrow> map_of (foldl (\<lambda>m (k, v). AList.update k v m) m kvs) k \<noteq> None"
  by (induction kvs arbitrary: m) auto

lemma put_labelled_obj:
  assumes "list_all (\<lambda>k. map_of labels k \<noteq> None) keys"
    and "case map_of m key of None \<Rightarrow> True | Some old \<Rightarrow> has_labels keys old"
  obtains obj where "put_labelled key labels spec m = AList.update key obj m" "lb_Spec obj = spec" "has_labels keys obj"
proof (cases "map_of m key")
  case None
  then show ?thesis using that [of "\<lparr>lb_Labels = labels, lb_Spec = spec\<rparr>"] assms(1) by (simp add: put_labelled_def has_labels_def)
next
  case (Some old)
  show ?thesis
  proof (cases "lb_Spec old = spec")
    case True
    then show ?thesis using that [of old] assms(2) Some by (simp add: put_labelled_def)
  next
    case False
    let ?new = "\<lparr>lb_Labels = foldl (\<lambda>m (k, v). AList.update k v m) labels (lb_Labels old), lb_Spec = spec\<rparr>"
    have "has_labels keys ?new"
      unfolding has_labels_def list_all_iff
    proof (intro ballI)
      fix k assume "k \<in> set keys"
      then have "map_of labels k \<noteq> None" using assms(1) by (simp add: list_all_iff)
      then show "map_of (lb_Labels ?new) k \<noteq> None" by (simp only: labelled.simps map_of_over not_False_eq_True)
    qed
    then show ?thesis using that [of ?new] False Some by (simp add: put_labelled_def)
  qed
qed

lemma syncEmailSecret_True: "syncEmailSecret fails r c = (c', True) \<Longrightarrow> \<exists>secrets. c' = c\<lparr>ac_secrets := secrets\<rparr>"
  by (auto simp: syncEmailSecret_def Let_def split: if_splits)

text \<open>The groups with that of the rule.\<close>

definition with_group :: "rule_group \<Rightarrow> rule_group list \<Rightarrow> rule_group list" where
  "with_group rg gs = (case put_group rg gs of None \<Rightarrow> gs @ [rg] | Some us \<Rightarrow> us)"

lemma put_group_None: "put_group rg gs = None \<longleftrightarrow> rg_Name rg \<notin> rg_Name ` set gs"
  by (induction gs) (auto split: option.splits)

lemma put_group_Some:
  assumes "put_group rg gs = Some us" "distinct (map rg_Name gs)"
  shows "map rg_Name us = map rg_Name gs \<and> find (\<lambda>g. rg_Name g = rg_Name rg) us = Some rg \<and>
    (\<forall>n. n \<noteq> rg_Name rg \<longrightarrow> find (\<lambda>g. rg_Name g = n) us = find (\<lambda>g. rg_Name g = n) gs)"
  using assms
proof (induction gs arbitrary: us)
  case (Cons v vs)
  show ?case
  proof (cases "put_group rg vs")
    case None
    then show ?thesis using Cons.prems by (auto split: if_splits)
  next
    case (Some ws)
    then have "rg_Name rg \<in> rg_Name ` set vs" using put_group_None [of rg vs] by auto
    then show ?thesis using Cons.IH [OF Some] Cons.prems Some by auto
  qed
qed simp

lemma find_append: "find P (xs @ ys) = (case find P xs of Some x \<Rightarrow> Some x | None \<Rightarrow> find P ys)"
  by (induction xs) auto

lemma find_name_None: "n \<notin> rg_Name ` set gs \<Longrightarrow> find (\<lambda>g. rg_Name g = n) gs = None"
  by (induction gs) auto

lemma with_group:
  assumes "distinct (map rg_Name gs)"
  shows "distinct (map rg_Name (with_group rg gs))"
    and "find (\<lambda>g. rg_Name g = rg_Name rg) (with_group rg gs) = Some rg"
    and "n \<noteq> rg_Name rg \<Longrightarrow> find (\<lambda>g. rg_Name g = n) (with_group rg gs) = find (\<lambda>g. rg_Name g = n) gs"
proof -
  have "distinct (map rg_Name (with_group rg gs)) \<and> find (\<lambda>g. rg_Name g = rg_Name rg) (with_group rg gs) = Some rg \<and>
    (n \<noteq> rg_Name rg \<longrightarrow> find (\<lambda>g. rg_Name g = n) (with_group rg gs) = find (\<lambda>g. rg_Name g = n) gs)"
  proof (cases "put_group rg gs")
    case None
    then have "rg_Name rg \<notin> rg_Name ` set gs" by (simp add: put_group_None)
    moreover from this have "find (\<lambda>g. rg_Name g = rg_Name rg) gs = None" by (rule find_name_None)
    ultimately show ?thesis using assms None by (auto simp: with_group_def find_append split: option.split)
  next
    case (Some us)
    then show ?thesis using put_group_Some [OF Some assms] assms by (simp add: with_group_def)
  qed
  then show "distinct (map rg_Name (with_group rg gs))"
    and "find (\<lambda>g. rg_Name g = rg_Name rg) (with_group rg gs) = Some rg"
    and "n \<noteq> rg_Name rg \<Longrightarrow> find (\<lambda>g. rg_Name g = n) (with_group rg gs) = find (\<lambda>g. rg_Name g = n) gs" by blast+
qed

text \<open>Where a rule can be written: the objects of its name are of the kind written for rules, and for Loki there is a map with something in it.\<close>

definition can_sync :: "alert_rule \<Rightarrow> alert_cluster \<Rightarrow> bool" where
  "can_sync r c \<longleftrightarrow> CHR ''/'' \<notin> set (ar_Namespace r) \<and>
     (case map_of (ac_amcfgs c) (ar_Namespace r, ar_Name r) of None \<Rightarrow> True | Some obj \<Rightarrow> managed_amcfg obj) \<and>
     (if ar_AlertType r = AlertTypeMonitor
      then ar_Name r \<noteq> DefaultAlertCRDName \<and>
        (case map_of (ac_rules c) (ar_Namespace r, ar_Name r) of None \<Rightarrow> True | Some obj \<Rightarrow> managed_rule (ar_Name r) obj)
      else loki_data c \<noteq> [] \<and> ar_Namespace r \<noteq> LokiRecordingRulesKey \<and> map_of (ac_rules c) (ar_Namespace r, ar_Name r) = None)"

definition synced :: "alert_rule \<Rightarrow> alert_cluster \<Rightarrow> alert_cluster \<Rightarrow> bool" where
  "synced r c d \<longleftrightarrow> wf_alerts d \<and> ac_silences d = ac_silences c \<and>
     cfg_at d (ar_Namespace r) (ar_Name r) = Some (GenerateRuleGroup r, GenerateAmcfgSpec r) \<and>
     (\<forall>ns n. (ns, n) \<noteq> (ar_Namespace r, ar_Name r) \<longrightarrow> cfg_at d ns n = cfg_at c ns n)"

lemma rg_Name_GenerateRuleGroup [simp]: "rg_Name (GenerateRuleGroup r) = ar_Name r"
  by (simp add: GenerateRuleGroup_def)

lemma syncAlertmanagerConfig_True:
  assumes "can_sync r c" "syncAlertmanagerConfig fails r c' = (d, True)" "ac_amcfgs c' = ac_amcfgs c"
  obtains obj where "d = c'\<lparr>ac_amcfgs := AList.update (ar_Namespace r, ar_Name r) obj (ac_amcfgs c)\<rparr>"
    "lb_Spec obj = GenerateAmcfgSpec r" "managed_amcfg obj"
proof (rule put_labelled_obj [where spec = "GenerateAmcfgSpec r"])
  show "list_all (\<lambda>k. map_of [(LabelAlertmanagerConfigType, AlertTypeMonitor), (LabelAlertmanagerConfigName, ar_Name r)] k \<noteq> None)
      [LabelAlertmanagerConfigType, LabelAlertmanagerConfigName]" by simp
  show "case map_of (ac_amcfgs c) (ar_Namespace r, ar_Name r) of None \<Rightarrow> True
      | Some old \<Rightarrow> has_labels [LabelAlertmanagerConfigType, LabelAlertmanagerConfigName] old" using assms(1) by (simp add: can_sync_def)
qed (use assms(2,3) that in \<open>auto simp: syncAlertmanagerConfig_def split: if_splits\<close>)

lemma syncPrometheusRule_True:
  assumes "can_sync r c" "ar_AlertType r = AlertTypeMonitor" "syncPrometheusRule fails r c' = (d, True)" "ac_rules c' = ac_rules c"
  obtains obj where "d = c'\<lparr>ac_rules := AList.update (ar_Namespace r, ar_Name r) obj (ac_rules c)\<rparr>"
    "lb_Spec obj = [GenerateRuleGroup r]" "managed_rule (ar_Name r) obj"
proof (rule put_labelled_obj [where spec = "[GenerateRuleGroup r]"])
  show "list_all (\<lambda>k. map_of [(LabelPrometheusRuleType, AlertTypeMonitor), (LabelPrometheusRuleName, ar_Name r)] k \<noteq> None)
      [LabelPrometheusRuleType, LabelPrometheusRuleName]" by simp
  show "case map_of (ac_rules c) (ar_Namespace r, ar_Name r) of None \<Rightarrow> True
      | Some old \<Rightarrow> has_labels [LabelPrometheusRuleType, LabelPrometheusRuleName] old"
    using assms(1,2) by (simp add: can_sync_def split: option.splits)
qed (use assms that in \<open>auto simp: syncPrometheusRule_def can_sync_def split: if_splits\<close>)

lemma cfg_at_cong:
  assumes "map_of (ac_amcfgs d) (ns, n) = map_of (ac_amcfgs c) (ns, n)" "map_of (ac_rules d) (ns, n) = map_of (ac_rules c) (ns, n)"
    and "loki_group_at d ns n = loki_group_at c ns n"
  shows "cfg_at d ns n = cfg_at c ns n"
  by (simp only: cfg_at_def group_at_def assms)

lemma syncMonitorAlertRule_synced:
  assumes "wf_alerts c" "can_sync r c" "ar_AlertType r = AlertTypeMonitor" "syncMonitorAlertRule fails r c = (d, True)"
  shows "synced r c d"
proof -
  let ?key = "(ar_Namespace r, ar_Name r)"
  obtain c1 c2 where steps: "syncEmailSecret fails r c = (c1, True)" "syncPrometheusRule fails r c1 = (c2, True)" "syncAlertmanagerConfig fails r c2 = (d, True)"
    using assms(4) by (auto simp: syncMonitorAlertRule_def and_also_True)
  obtain secrets where c1: "c1 = c\<lparr>ac_secrets := secrets\<rparr>" using syncEmailSecret_True [OF steps(1)] by blast
  have "ac_rules c1 = ac_rules c" by (simp add: c1)
  from syncPrometheusRule_True [OF assms(2,3) steps(2) this] obtain g where g: "c2 = c1\<lparr>ac_rules := AList.update ?key g (ac_rules c)\<rparr>" "lb_Spec g = [GenerateRuleGroup r]" "managed_rule (ar_Name r) g" .
  have "ac_amcfgs c2 = ac_amcfgs c" by (simp add: c1 g(1))
  from syncAlertmanagerConfig_True [OF assms(2) steps(3) this]
  obtain a where a: "d = c2\<lparr>ac_amcfgs := AList.update ?key a (ac_amcfgs c)\<rparr>" "lb_Spec a = GenerateAmcfgSpec r" "managed_amcfg a" .
  have d: "d = c\<lparr>ac_secrets := secrets, ac_rules := AList.update ?key g (ac_rules c), ac_amcfgs := AList.update ?key a (ac_amcfgs c)\<rparr>"
    by (simp add: a(1) g(1) c1)
  have slash: "CHR ''/'' \<notin> set (ar_Namespace r)" using assms(2) by (simp add: can_sync_def)
  have "wf_alerts d"
    using assms(1) slash g(2) unfolding wf_alerts_def d by (fastforce dest!: update_mem)
  moreover have "cfg_at d (ar_Namespace r) (ar_Name r) = Some (GenerateRuleGroup r, GenerateAmcfgSpec r)"
  proof -
    have "group_at d (ar_Namespace r) (ar_Name r) = Some (GenerateRuleGroup r)" using g(2,3) by (simp add: group_at_def d)
    moreover have "map_of (ac_amcfgs d) ?key = Some a" by (simp add: d)
    ultimately show ?thesis using a(2,3) by (simp add: cfg_at_def)
  qed
  moreover have "cfg_at d ns n = cfg_at c ns n" if "(ns, n) \<noteq> ?key" for ns n
  proof (rule cfg_at_cong)
    show "map_of (ac_amcfgs d) (ns, n) = map_of (ac_amcfgs c) (ns, n)" "map_of (ac_rules d) (ns, n) = map_of (ac_rules c) (ns, n)"
      using that by (auto simp: d)
    show "loki_group_at d ns n = loki_group_at c ns n" by (simp add: loki_group_at_def d)
  qed
  ultimately show ?thesis by (simp add: synced_def d)
qed

lemma syncLokiRules_True:
  assumes "wf_alerts c" "can_sync r c" "ar_AlertType r \<noteq> AlertTypeMonitor" "syncLokiRules fails r c' = (d, True)" "ac_loki c' = ac_loki c"
  obtains gs where "d = c'\<lparr>ac_loki := Some (AList.update (ar_Namespace r) (LokiGroups (with_group (GenerateRuleGroup r) gs)) (loki_data c))\<rparr>"
    "distinct (map rg_Name gs)" "map_of (loki_data c) (ar_Namespace r) = Some (LokiGroups gs) \<or> map_of (loki_data c) (ar_Namespace r) = None \<and> gs = []"
proof -
  let ?ns = "ar_Namespace r"
  have data: "loki_data c \<noteq> []" "?ns \<noteq> LokiRecordingRulesKey" using assms(2,3) by (simp_all add: can_sync_def)
  have sync: "syncLokiRules fails r = write_loki fails (with_group (GenerateRuleGroup r)) ?ns"
    by (simp add: syncLokiRules_def with_group_def [abs_def])
  have step: "mutateLokiRuleGroups (with_group (GenerateRuleGroup r)) ?ns (loki_data c) = Some e \<Longrightarrow> d = c'\<lparr>ac_loki := Some e\<rparr>" for e
    using assms(4) unfolding sync write_loki_def assms(5) by (auto split: if_splits)
  show ?thesis
  proof (cases "map_of (loki_data c) ?ns")
    case None
    then have "mutateLokiRuleGroups (with_group (GenerateRuleGroup r)) ?ns (loki_data c)
        = Some (AList.update ?ns (LokiGroups (with_group (GenerateRuleGroup r) [])) (loki_data c))"
      by (simp only: mutateLokiRuleGroups_def option.case data(1) if_False)
    from that [OF step [OF this]] None show ?thesis by simp
  next
    case (Some v)
    then have "(?ns, v) \<in> set (loki_data c)" by (rule map_of_SomeD)
    then have "case v of LokiText t \<Rightarrow> False | LokiGroups gs \<Rightarrow> distinct (map rg_Name gs)" using assms(1) data(2) unfolding wf_alerts_def by fast
    then obtain gs where v: "v = LokiGroups gs" "distinct (map rg_Name gs)" by (cases v) simp_all
    then have "mutateLokiRuleGroups (with_group (GenerateRuleGroup r)) ?ns (loki_data c)
        = Some (AList.update ?ns (LokiGroups (with_group (GenerateRuleGroup r) gs)) (loki_data c))"
      by (simp only: mutateLokiRuleGroups_def Some option.case loki_text.case)
    from that [OF step [OF this] v(2)] Some v(1) show ?thesis by simp
  qed
qed

lemma syncLoggingAlertRule_synced:
  assumes "wf_alerts c" "can_sync r c" "ar_AlertType r \<noteq> AlertTypeMonitor" "syncLoggingAlertRule fails r c = (d, True)"
  shows "synced r c d"
proof -
  let ?key = "(ar_Namespace r, ar_Name r)"
  let ?ns = "ar_Namespace r"
  obtain c1 c2 where steps: "syncEmailSecret fails r c = (c1, True)" "syncLokiRules fails r c1 = (c2, True)" "syncAlertmanagerConfig fails r c2 = (d, True)"
    using assms(4) by (auto simp: syncLoggingAlertRule_def and_also_True)
  obtain secrets where c1: "c1 = c\<lparr>ac_secrets := secrets\<rparr>" using syncEmailSecret_True [OF steps(1)] by blast
  have "ac_loki c1 = ac_loki c" by (simp add: c1)
  from syncLokiRules_True [OF assms(1-3) steps(2) this]
  obtain gs where g: "c2 = c1\<lparr>ac_loki := Some (AList.update ?ns (LokiGroups (with_group (GenerateRuleGroup r) gs)) (loki_data c))\<rparr>"
    "distinct (map rg_Name gs)" "map_of (loki_data c) ?ns = Some (LokiGroups gs) \<or> map_of (loki_data c) ?ns = None \<and> gs = []" .
  have "ac_amcfgs c2 = ac_amcfgs c" by (simp add: c1 g(1))
  from syncAlertmanagerConfig_True [OF assms(2) steps(3) this]
  obtain a where a: "d = c2\<lparr>ac_amcfgs := AList.update ?key a (ac_amcfgs c)\<rparr>" "lb_Spec a = GenerateAmcfgSpec r" "managed_amcfg a" .
  let ?groups = "with_group (GenerateRuleGroup r) gs"
  have d: "ac_rules d = ac_rules c" "ac_silences d = ac_silences c" "ac_amcfgs d = AList.update ?key a (ac_amcfgs c)"
    "loki_data d = AList.update ?ns (LokiGroups ?groups) (loki_data c)"
    by (simp_all add: a(1) g(1) c1)
  have ns: "CHR ''/'' \<notin> set ?ns" "?ns \<noteq> LokiRecordingRulesKey" "map_of (ac_rules c) ?key = None" using assms(2,3) by (simp_all add: can_sync_def)
  have groups: "distinct (map rg_Name ?groups)" "find (\<lambda>g. rg_Name g = ar_Name r) ?groups = Some (GenerateRuleGroup r)"
    "\<And>n. n \<noteq> ar_Name r \<Longrightarrow> find (\<lambda>g. rg_Name g = n) ?groups = find (\<lambda>g. rg_Name g = n) gs"
    using with_group [OF g(2), where rg = "GenerateRuleGroup r"] by simp_all
  have "wf_alerts d"
  proof -
    have "\<forall>(ns, v) \<in> set (loki_data d). ns \<noteq> LokiRecordingRulesKey \<longrightarrow>
        CHR ''/'' \<notin> set ns \<and> (case v of LokiText t \<Rightarrow> False | LokiGroups gs \<Rightarrow> distinct (map rg_Name gs))"
      using assms(1) ns(1) groups(1) unfolding wf_alerts_def d(4) by (fastforce dest!: update_mem)
    moreover have "\<forall>((ns, n), obj) \<in> set (ac_amcfgs d). CHR ''/'' \<notin> set ns"
      using assms(1) ns(1) unfolding wf_alerts_def d(3) by (fastforce dest!: update_mem)
    moreover have "wf_map (loki_data d)" "wf_map (ac_amcfgs d)" using assms(1) unfolding wf_alerts_def d(3,4) by simp_all
    moreover have "wf_map (ac_rules d)"
      "\<forall>((ns, n), obj) \<in> set (ac_rules d). managed_rule n obj \<longrightarrow> CHR ''/'' \<notin> set ns \<and> map rg_Name (lb_Spec obj) = [n]"
      using assms(1) unfolding wf_alerts_def d(1) by simp_all
    ultimately show ?thesis unfolding wf_alerts_def by (intro conjI)
  qed
  moreover have "cfg_at d ?ns (ar_Name r) = Some (GenerateRuleGroup r, GenerateAmcfgSpec r)"
  proof -
    have "group_at d ?ns (ar_Name r) = None" using ns(3) by (simp add: group_at_def d(1))
    moreover have "loki_group_at d ?ns (ar_Name r) = Some (GenerateRuleGroup r)" unfolding loki_group_at_def d(4) using ns(2) groups(2) by simp
    moreover have "map_of (ac_amcfgs d) ?key = Some a" by (simp add: d(3))
    ultimately show ?thesis using a(2,3) by (simp add: cfg_at_def)
  qed
  moreover have "cfg_at d ns n = cfg_at c ns n" if "(ns, n) \<noteq> ?key" for ns n
  proof (rule cfg_at_cong)
    show "map_of (ac_amcfgs d) (ns, n) = map_of (ac_amcfgs c) (ns, n)" "map_of (ac_rules d) (ns, n) = map_of (ac_rules c) (ns, n)"
      using that by (auto simp: d(1,3))
    show "loki_group_at d ns n = loki_group_at c ns n"
    proof (cases "ns = ?ns")
      case True
      then have "n \<noteq> ar_Name r" using that by simp
      then show ?thesis using g(3) ns(2) True unfolding loki_group_at_def d(4) by (auto simp: groups(3))
    next
      case False
      then show ?thesis unfolding loki_group_at_def d(4) by simp
    qed
  qed
  ultimately show ?thesis by (simp add: synced_def d(2))
qed

text \<open>The silences of a rule.\<close>

definition silences_of :: "string \<Rightarrow> string \<Rightarrow> alert_cluster \<Rightarrow> silence list" where
  "silences_of namespace name c = filter (\<lambda>s. si_Active s \<and> silence_matches namespace name s) (listSilences namespace c)"

lemma getSilence_of:
  "getSilence no_failure ns n c = (case silences_of ns n c of [] \<Rightarrow> NoSilence | [s] \<Rightarrow> OneSilence s | _ \<Rightarrow> SilenceError)"
  "getSilence fails ns n c = NoSilence \<longleftrightarrow> \<not> fails ListSilences \<and> silences_of ns n c = []"
  "getSilence fails ns n c = OneSilence s \<longleftrightarrow> \<not> fails ListSilences \<and> silences_of ns n c = [s]"
  by (auto simp: getSilence_def silences_of_def [symmetric] split: list.splits)

lemma silences_of_all: "silences_of ns n c = filter (\<lambda>s. si_Active s \<and> silence_matches ns n s \<and>
    has_prefix (si_Comment s) SilenceCommentForAlertrulePrefix \<and> (ns = [] \<or> (AlertNamespaceLabel, ns) \<in> set (si_Matchers s))) (ac_silences c)"
  unfolding silences_of_def listSilences_def filter_filter by (rule filter_cong) auto

lemma filter_one_off:
  assumes "filter P xs = [s]" "\<not> P (g s)" "\<And>x. x \<noteq> s \<Longrightarrow> P (f x) \<Longrightarrow> P x" "f s = g s"
  shows "filter P (map f xs) = []"
proof -
  have "\<not> P (f x)" if "x \<in> set xs" for x
  proof
    assume "P (f x)"
    then have "x \<noteq> s" using assms(2,4) by auto
    then have "x \<in> set (filter P xs)" using assms(3) \<open>P (f x)\<close> that by auto
    then show False using assms(1) \<open>x \<noteq> s\<close> by simp
  qed
  then show ?thesis by (simp add: filter_empty_conv)
qed

lemma deleteSilenceIfExist_True:
  assumes "deleteSilenceIfExist fails ns n d = (c, True)"
  shows "(\<exists>ss nx. c = d\<lparr>ac_silences := ss, ac_next := nx\<rparr>) \<and> getSilence no_failure ns n c = NoSilence"
proof (cases "getSilence fails ns n d")
  case NoSilence
  then have "silences_of ns n d = []" by (simp add: getSilence_of(2))
  moreover have "c = d" using assms NoSilence by (simp add: deleteSilenceIfExist_def)
  moreover have "d = d\<lparr>ac_silences := ac_silences d, ac_next := ac_next d\<rparr>" by simp
  ultimately show ?thesis by (simp only: getSilence_of(1) list.case) blast
next
  case (OneSilence s)
  let ?f = "\<lambda>t. if si_ID t = si_ID s then t\<lparr>si_Active := False\<rparr> else t"
  have c: "c = d\<lparr>ac_silences := map ?f (ac_silences d)\<rparr>"
    using assms OneSilence by (cases "fails ExpireSilence") (simp_all add: deleteSilenceIfExist_def)
  have one: "silences_of ns n d = [s]" using OneSilence by (simp add: getSilence_of(3))
  have "silences_of ns n c = []"
  proof -
    have ac: "ac_silences c = map ?f (ac_silences d)" by (simp add: c)
    show ?thesis
      unfolding silences_of_all ac
      by (rule filter_one_off [OF one [unfolded silences_of_all], where g = "\<lambda>t. t\<lparr>si_Active := False\<rparr>"]) (simp_all split: if_splits)
  qed
  moreover have "c = d\<lparr>ac_silences := map ?f (ac_silences d), ac_next := ac_next d\<rparr>" by (simp add: c)
  ultimately show ?thesis by (simp only: getSilence_of(1) list.case) blast
next
  case SilenceError
  then show ?thesis using assms by (simp add: deleteSilenceIfExist_def)
qed

lemma createSilenceIfNotExist_True:
  assumes "createSilenceIfNotExist fails ns n d = (c, True)"
  shows "(\<exists>ss nx. c = d\<lparr>ac_silences := ss, ac_next := nx\<rparr>) \<and> (\<exists>s. getSilence no_failure ns n c = OneSilence s)"
proof (cases "getSilence fails ns n d")
  case NoSilence
  let ?new = "\<lparr>si_ID = ac_next d, si_Comment = ''silence for '' @ n, si_Active = True, si_Matchers = [(AlertNamespaceLabel, ns), (AlertNameLabel, n)]\<rparr>"
  have c: "c = d\<lparr>ac_silences := ac_silences d @ [?new], ac_next := Suc (ac_next d)\<rparr>"
    using assms NoSilence by (cases "fails CreateSilence") (simp_all add: createSilenceIfNotExist_def)
  have none: "silences_of ns n d = []" using NoSilence by (simp add: getSilence_of(2))
  have "silence_matches ns n ?new" by (simp add: silence_matches_def get_str_def AlertNamespaceLabel_def AlertNameLabel_def)
  moreover have "has_prefix (si_Comment ?new) SilenceCommentForAlertrulePrefix" by (simp add: has_prefix_iff SilenceCommentForAlertrulePrefix_def)
  ultimately have "silences_of ns n c = [?new]"
    using none by (simp add: silences_of_all c)
  then have "getSilence no_failure ns n c = OneSilence ?new" by (simp only: getSilence_of(1) list.case)
  then show ?thesis using c by blast
next
  case (OneSilence s)
  then have "silences_of ns n d = [s]" by (simp add: getSilence_of(3))
  moreover have "c = d" using assms OneSilence by (simp add: createSilenceIfNotExist_def)
  moreover have "d = d\<lparr>ac_silences := ac_silences d, ac_next := ac_next d\<rparr>" by simp
  ultimately show ?thesis by (simp only: getSilence_of(1) list.case) blast
next
  case SilenceError
  then show ?thesis using assms by (simp add: createSilenceIfNotExist_def)
qed


definition ex_log_rule :: alert_rule where
  "ex_log_rule =
     \<lparr>ar_ID = 3, ar_Cluster = ''edge'', ar_Namespace = ''prod'', ar_Name = ''slow'', ar_AlertType = AlertTypeLogging, ar_Expr = ''q'', ar_For = ''1m'',
      ar_Message = ''m'', ar_InhibitLabels = [''pod''],
      ar_AlertLevels = [\<lparr>al_CompareOp = ''>'', al_CompareValue = ''5'', al_Severity = SeverityError\<rparr>],
      ar_Receivers = [\<lparr>rc_ID = 1, rc_AlertRuleID = 3, rc_AlertChannelID = 2, rc_Interval = ''1h'', rc_AlertChannel = \<lparr>ch_ID = 2, ch_Name = ''ops'',
        ch_Config = EmailChannel \<lparr>em_SMTPServer = ''smtp'', em_RequireTLS = True, em_From = ''a@b'', em_To = ''c@d'', em_AuthPassword = ''pw'',
          em_SendResolved = True\<rparr>\<rparr>\<rparr>],
      ar_Promql = None, ar_Logql = None, ar_IsOpen = False\<rparr>"

definition ex_alert_cluster :: alert_cluster where
  "ex_alert_cluster =
     \<lparr>ac_secrets = [], ac_rules = [], ac_amcfgs = [],
      ac_loki = Some [(''prod'', LokiGroups [\<lparr>rg_Name = ''old'', rg_Rules = []\<rparr>, \<lparr>rg_Name = ''slow'', rg_Rules = []\<rparr>])],
      ac_silences = [], ac_next = 0\<rparr>"


text \<open>In a cluster without a map for Loki, or with an empty one, the write succeeds and there is nothing there: the rule is lost.\<close>

theorem loki_rule_lost:
  assumes "loki_data c = []" "\<not> fails WriteLoki"
  shows "snd (syncLokiRules fails r c) \<and> loki_data (fst (syncLokiRules fails r c)) = []"
  using assms(2) by (simp add: syncLokiRules_def write_loki_def assms(1) mutateLokiRuleGroups_def)

theorem loki_rule_lost_example:
  "snd (SyncAlertRule no_failure ex_log_rule (ex_alert_cluster\<lparr>ac_loki := None\<rparr>)) \<and>
   GetK8sAlertCfg no_failure ''edge'' (fst (SyncAlertRule no_failure ex_log_rule (ex_alert_cluster\<lparr>ac_loki := None\<rparr>))) = Some []"
  by code_simp

end
