(* ===== verification/Git_Repo.thy ===== *)
theory Git_Repo
  imports Go_Util "HOL-Library.Sublist"
begin

text \<open>
  The git repositories that hold what an application deploys: \<open>pkg/utils/git\<close> (\<open>repository.go\<close>, \<open>provider.go\<close>, \<open>helper.go\<close>)
  and the requests on them in \<open>pkg/apps/application\<close> (\<open>processor_repository.go\<close>, \<open>processor_manifest.go\<close>, \<open>manifest_files.go\<close>,
  \<open>helper.go\<close>). All requests for an environment share one worktree.

  What git does is as git documents it: a commit is known by its hash, which covers all before it, so here a history is the list of
  its commits, latest first, and a hash is such a list; a push is taken if what is there is part of what is sent. Staging and
  committing are in memory and do not fail. Which requests to the server fail, what other clients have pushed
  meanwhile, and whether a hard reset of the worktree keeps untracked files are parameters, as is the text of files.
\<close>

section \<open>Histories and worktrees\<close>

type_synonym 'c tree = "(string, 'c) gomap"

record 'c commit =
  cm_Message :: string
  cm_Author :: string
  cm_Tree :: "'c tree"

type_synonym 'c history = "'c commit list"

definition tree_of :: "'c history \<Rightarrow> 'c tree" where
  "tree_of h = (case h of [] \<Rightarrow> [] | c # rest \<Rightarrow> cm_Tree c)"

record 'c git =
  gt_cached :: bool
  gt_wt :: "'c tree"
  gt_head :: "'c history"
  gt_tracking :: "'c history"
  gt_lastsync :: nat
  gt_remote :: "'c history"
  gt_clock :: nat

record 'c git_env =
  gv_fetch_fails :: "nat \<Rightarrow> bool"
  gv_push_fails :: "nat \<Rightarrow> bool"
  gv_others :: "nat \<Rightarrow> 'c history \<Rightarrow> 'c history"
  gv_keeps_untracked :: bool
  gv_time :: "nat \<Rightarrow> nat"

datatype fetch_result = FetchFailed | FetchUpToDate | Fetched

datatype push_result = Pushed | NonFastForward | PushFailed

datatype reset_mode = MixedReset | HardReset

datatype git_result = GitDone | GitFailed | GitPanicked

text \<open>A request reaches the server after whatever others have pushed to it.\<close>

definition reach_server :: "'c git_env \<Rightarrow> 'c git \<Rightarrow> 'c git" where
  "reach_server env g = g\<lparr>gt_remote := gv_others env (gt_clock g) (gt_remote g), gt_clock := Suc (gt_clock g)\<rparr>"

definition git_fetch :: "'c git_env \<Rightarrow> 'c git \<Rightarrow> 'c git \<times> fetch_result" where
  "git_fetch env g =
     (let s = reach_server env g in
      if gv_fetch_fails env (gt_clock g) then (s, FetchFailed)
      else if gt_tracking s = gt_remote s then (s, FetchUpToDate)
      else (s\<lparr>gt_tracking := gt_remote s\<rparr>, Fetched))"

definition git_push :: "'c git_env \<Rightarrow> 'c git \<Rightarrow> 'c git \<times> push_result" where
  "git_push env g =
     (let s = reach_server env g in
      if gv_push_fails env (gt_clock g) then (s, PushFailed)
      else if suffix (gt_remote s) (gt_head s) then (s\<lparr>gt_remote := gt_head s, gt_tracking := gt_head s\<rparr>, Pushed)
      else (s, NonFastForward))"

text \<open>The files of the worktree that differ from the commit, and what they make of it when those under a path are staged.\<close>

definition changed :: "'c tree \<Rightarrow> 'c tree \<Rightarrow> string list" where
  "changed wt tree = filter (\<lambda>f. map_of wt f \<noteq> map_of tree f) (remdups (map fst wt @ map fst tree))"

definition stage_file :: "'c tree \<Rightarrow> 'c tree \<Rightarrow> string \<Rightarrow> 'c tree" where
  "stage_file wt tree f = (case map_of wt f of None \<Rightarrow> AList.delete f tree | Some c \<Rightarrow> AList.update f c tree)"

definition stage :: "string \<Rightarrow> 'c tree \<Rightarrow> 'c tree \<Rightarrow> 'c tree" where
  "stage path wt tree = foldl (stage_file wt) tree (filter (\<lambda>f. has_prefix f path) (changed wt tree))"

definition hard_reset :: "'c git_env \<Rightarrow> 'c tree \<Rightarrow> 'c tree \<Rightarrow> 'c tree \<Rightarrow> 'c tree" where
  "hard_reset env wt old new =
     new @ (if gv_keeps_untracked env
       then filter (\<lambda>(f, c). f \<notin> set (map fst old) \<and> f \<notin> set (map fst new)) wt else [])"

section \<open>The repository\<close>

definition resetOriginLatest :: "'c git_env \<Rightarrow> reset_mode \<Rightarrow> 'c git \<Rightarrow> 'c git \<times> bool" where
  "resetOriginLatest env mode g =
     (case git_fetch env g of
        (g, FetchFailed) \<Rightarrow> (g, False)
      | (g, FetchUpToDate) \<Rightarrow> (g\<lparr>gt_lastsync := gv_time env (gt_clock g)\<rparr>, True)
      | (g, Fetched) \<Rightarrow>
          let wt = (if mode = HardReset then hard_reset env (gt_wt g) (tree_of (gt_head g)) (tree_of (gt_tracking g)) else gt_wt g)
          in (g\<lparr>gt_head := gt_tracking g, gt_wt := wt, gt_lastsync := gv_time env (gt_clock g)\<rparr>, True))"

definition Pull :: "'c git_env \<Rightarrow> 'c git \<Rightarrow> 'c git \<times> bool" where
  "Pull env g = resetOriginLatest env HardReset g"

definition CacheTimeout :: nat where "CacheTimeout = 120"

definition Expired :: "'c git_env \<Rightarrow> 'c git \<Rightarrow> bool" where
  "Expired env g \<longleftrightarrow> gt_lastsync g + CacheTimeout < gv_time env (gt_clock g)"

definition CommitPush :: "'c git_env \<Rightarrow> string \<Rightarrow> string \<Rightarrow> string \<Rightarrow> 'c git \<Rightarrow> 'c git \<times> push_result" where
  "CommitPush env path author message g =
     (if message = [] then (g, Pushed)
      else let tree = tree_of (gt_head g);
               g = (if changed (gt_wt g) tree = [] then g
                    else g\<lparr>gt_head := \<lparr>cm_Message = message, cm_Author = author, cm_Tree = stage path (gt_wt g) tree\<rparr> # gt_head g\<rparr>)
           in git_push env g)"

definition MaxCommitRetry :: nat where "MaxCommitRetry = 3"

fun push_attempts :: "'c git_env \<Rightarrow> string \<Rightarrow> string \<Rightarrow> string \<Rightarrow> nat \<Rightarrow> 'c git \<Rightarrow> 'c git \<times> bool" where
  "push_attempts env path author message 0 g = (g, False)"
| "push_attempts env path author message (Suc n) g =
     (case CommitPush env path author message g of
        (g, Pushed) \<Rightarrow> (g, True)
      | (g, PushFailed) \<Rightarrow> (g, False)
      | (g, NonFastForward) \<Rightarrow>
          (case resetOriginLatest env MixedReset g of
             (g, False) \<Rightarrow> (g, False)
           | (g, True) \<Rightarrow> push_attempts env path author message n g))"

definition CommitPushWithRetry :: "'c git_env \<Rightarrow> string \<Rightarrow> string \<Rightarrow> string \<Rightarrow> 'c git \<Rightarrow> 'c git \<times> bool" where
  "CommitPushWithRetry env path author message g = push_attempts env path author message (Suc MaxCommitRetry) g"

text \<open>The repository of a branch, cloned when it is first asked for and made when there is none; an old one is refreshed if that works.\<close>

definition DefaultBranch :: string where "DefaultBranch = ''_base''"

definition Get_repo :: "'c git_env \<Rightarrow> 'c \<Rightarrow> string \<Rightarrow> 'c git \<Rightarrow> 'c git \<times> bool" where
  "Get_repo env readme committer g =
     (if gt_cached g then ((if Expired env g then fst (Pull env g) else g), True)
      else let s = reach_server env g in
        if gv_fetch_fails env (gt_clock g) then (s, False)
        else if gt_remote s = []
        then let tree = [(''README.md'', readme)] in
             case git_push env (s\<lparr>gt_wt := tree, gt_tracking := [],
                 gt_head := [\<lparr>cm_Message = ''init'', cm_Author = committer, cm_Tree = tree\<rparr>]\<rparr>) of
               (s, Pushed) \<Rightarrow> (s\<lparr>gt_cached := True, gt_lastsync := gv_time env (gt_clock s)\<rparr>, True)
             | (s, _) \<Rightarrow> (s, False)
        else (s\<lparr>gt_wt := tree_of (gt_remote s), gt_head := gt_remote s, gt_tracking := gt_remote s, gt_cached := True,
                gt_lastsync := gv_time env (gt_clock s)\<rparr>, True))"

text \<open>What can be read of the past: the commits that touch a path, the files of a commit, and what a commit changed.\<close>

definition dir_of :: "string \<Rightarrow> string" where
  "dir_of path = (if path \<noteq> [] \<and> last path = CHR ''/'' then path else path @ ''/'')"

fun commits_touching :: "(string \<Rightarrow> bool) \<Rightarrow> 'c history \<Rightarrow> 'c history" where
  "commits_touching P [] = []"
| "commits_touching P (c # rest) =
     (if list_ex P (changed (cm_Tree c) (tree_of rest)) then c # commits_touching P rest else commits_touching P rest)"

definition HistoryFunc :: "string \<Rightarrow> 'c git \<Rightarrow> 'c commit list" where
  "HistoryFunc path g = commits_touching (\<lambda>f. has_prefix f (dir_of path)) (gt_head g)"

definition has_commit :: "'c git \<Rightarrow> 'c history \<Rightarrow> bool" where
  "has_commit g hash \<longleftrightarrow> hash \<noteq> [] \<and> (suffix hash (gt_head g) \<or> suffix hash (gt_tracking g))"

definition chroot :: "string \<Rightarrow> 'c tree \<Rightarrow> 'c tree" where
  "chroot path wt =
     (if path = [] then wt
      else map (\<lambda>(f, c). (trim_prefix f (path @ ''/''), c)) (filter (\<lambda>(f, c). has_prefix f (path @ ''/'')) wt))"

definition HistoryFiles :: "string \<Rightarrow> 'c history \<Rightarrow> 'c git \<Rightarrow> 'c tree option" where
  "HistoryFiles path hash g =
     (if \<not> has_commit g hash then None
      else let files = chroot path (tree_of hash) in if files = [] then None else Some files)"

definition Diff :: "string \<Rightarrow> 'c history \<Rightarrow> 'c git \<Rightarrow> (string \<times> 'c option \<times> 'c option) list option" where
  "Diff path hash g =
     (if \<not> has_commit g hash \<or> tl hash = [] then None
      else Some (map (\<lambda>f. (trim_prefix f (dir_of path), map_of (tree_of (tl hash)) f, map_of (tree_of hash) f))
        (filter (\<lambda>f. has_prefix f (dir_of path)) (changed (tree_of hash) (tree_of (tl hash))))))"

section \<open>Requests on the files of an application\<close>

text \<open>What is written below a path replaces what was there.\<close>

definition unroot :: "string \<Rightarrow> 'c tree \<Rightarrow> 'c tree \<Rightarrow> 'c tree" where
  "unroot path files wt =
     (if path = [] then files
      else filter (\<lambda>(f, c). \<not> has_prefix f (path @ ''/'')) wt @ map (\<lambda>(f, c). (path @ ''/'' @ f, c)) files)"

text \<open>Reading and writing of \<open>kustomization.yaml\<close>: the text may be null, which leaves no object at all. What follows reading is the library's.\<close>

record 'r kustomization =
  ku_Resources :: "string list"
  ku_CommonLabels :: "(string \<times> string) list"
  ku_CommonAnnotations :: "(string \<times> string) list"
  ku_rest :: 'r

datatype 'k decoded = DecodedNull | Decoded 'k

record ('c, 'r) kustom_codec =
  kc_read :: "'c \<Rightarrow> 'r kustomization decoded"
  kc_fix :: "'r kustomization \<Rightarrow> 'r kustomization"
  kc_write :: "'r kustomization \<Rightarrow> 'c"
  kc_blank :: "'r kustomization"

definition KustimizationFilename :: string where "KustimizationFilename = ''kustomization.yaml''"

definition is_yaml :: "string \<Rightarrow> bool" where
  "is_yaml f \<longleftrightarrow> suffix ''.yaml'' f"

definition InitOrUpdateKustomization :: "('c, 'r) kustom_codec \<Rightarrow> 'c tree \<Rightarrow> 'c tree \<times> git_result" where
  "InitOrUpdateKustomization k fs =
     (if fs = [] then (fs, GitDone)
      else case (case map_of fs KustimizationFilename of None \<Rightarrow> Decoded (kc_blank k) | Some c \<Rightarrow> kc_read k c) of
             DecodedNull \<Rightarrow> (fs, GitPanicked)
           | Decoded ku \<Rightarrow>
               let resourcefiles = filter (\<lambda>f. is_yaml f \<and> f \<noteq> KustimizationFilename) (map fst fs);
                   ku = (kc_fix k ku)\<lparr>ku_Resources := resourcefiles, ku_CommonAnnotations := [], ku_CommonLabels := []\<rparr>
               in (AList.update KustimizationFilename (kc_write k ku) fs, GitDone))"

type_synonym 'c repo_func = "string \<Rightarrow> 'c git \<Rightarrow> 'c git \<times> git_result"

definition of_ok :: "'c git \<times> bool \<Rightarrow> 'c git \<times> git_result" where
  "of_ok r = (fst r, if snd r then GitDone else GitFailed)"

definition PullFunc :: "'c git_env \<Rightarrow> 'c repo_func" where
  "PullFunc env path g = of_ok (Pull env g)"

text \<open>A function on the files of the application: what it leaves, also when it fails.\<close>

definition FsFunc :: "('c tree \<Rightarrow> 'c tree \<times> git_result) \<Rightarrow> 'c repo_func" where
  "FsFunc fun path g = (case fun (chroot path (gt_wt g)) of (files, r) \<Rightarrow> (g\<lparr>gt_wt := unroot path files (gt_wt g)\<rparr>, r))"

definition CommitFunc :: "'c git_env \<Rightarrow> string \<Rightarrow> string \<Rightarrow> 'c repo_func" where
  "CommitFunc env author message path g =
     (if message = [] then (g, GitDone) else of_ok (CommitPushWithRetry env path author message g))"

definition UpdateKustomizeCommit :: "'c git_env \<Rightarrow> ('c, 'r) kustom_codec \<Rightarrow> string \<Rightarrow> string \<Rightarrow> 'c repo_func" where
  "UpdateKustomizeCommit env k author message path g =
     (case FsFunc (InitOrUpdateKustomization k) path g of
        (g, GitDone) \<Rightarrow> CommitFunc env author message path g
      | (g, r) \<Rightarrow> (g, r))"

fun run_funcs :: "string \<Rightarrow> 'c repo_func list \<Rightarrow> 'c git \<Rightarrow> 'c git \<times> git_result" where
  "run_funcs path [] g = (g, GitDone)"
| "run_funcs path (f # fs) g = (case f path g of (g, GitDone) \<Rightarrow> run_funcs path fs g | (g, r) \<Rightarrow> (g, r))"

definition Func :: "'c git_env \<Rightarrow> 'c \<Rightarrow> string \<Rightarrow> 'c repo_func list \<Rightarrow> 'c git \<Rightarrow> 'c git \<times> git_result" where
  "Func env readme path funcs g =
     (case Get_repo env readme ''service'' g of
        (g, False) \<Rightarrow> (g, GitFailed)
      | (g, True) \<Rightarrow> run_funcs path funcs g)"

definition ContentFunc ::
  "'c git_env \<Rightarrow> 'c \<Rightarrow> string \<Rightarrow> ('c tree \<Rightarrow> 'c tree \<times> git_result) \<Rightarrow> 'c git \<Rightarrow> 'c git \<times> git_result" where
  "ContentFunc env readme path fun g = Func env readme path [FsFunc fun] g"

definition UpdateContentFunc ::
  "'c git_env \<Rightarrow> 'c \<Rightarrow> ('c, 'r) kustom_codec \<Rightarrow> string \<Rightarrow> string \<Rightarrow> string \<Rightarrow> ('c tree \<Rightarrow> 'c tree \<times> git_result)
    \<Rightarrow> 'c git \<Rightarrow> 'c git \<times> git_result" where
  "UpdateContentFunc env readme k author path commitmsg fun g =
     Func env readme path [PullFunc env, FsFunc fun, UpdateKustomizeCommit env k author commitmsg] g"

text \<open>What the requests do to the files. Creating writes a sample, the description and who made it; the names of the files are the
  code's, their texts are given.\<close>

definition ReadmeFilename :: string where "ReadmeFilename = ''readme.md''"
definition MetaFilename :: string where "MetaFilename = ''.meta''"

definition write_file :: "string \<Rightarrow> 'c \<Rightarrow> 'c tree \<Rightarrow> 'c tree" where
  "write_file = AList.update"

definition Create_manifest :: "string \<Rightarrow> 'c \<Rightarrow> 'c \<Rightarrow> 'c \<Rightarrow> 'c tree \<Rightarrow> 'c tree \<times> git_result" where
  "Create_manifest kind sample description meta fs =
     (write_file MetaFilename meta (write_file ReadmeFilename description (write_file (map to_lower kind @ ''.yaml'') sample fs)), GitDone)"

definition Update_manifest :: "'c \<Rightarrow> 'c tree \<Rightarrow> 'c tree \<times> git_result" where
  "Update_manifest description fs = (write_file ReadmeFilename description fs, GitDone)"

definition Remove_manifest :: "'c tree \<Rightarrow> 'c tree \<times> git_result" where
  "Remove_manifest fs = ([], GitDone)"

definition PutFile :: "('c \<Rightarrow> bool) \<Rightarrow> string \<Rightarrow> 'c \<Rightarrow> ('c tree \<Rightarrow> 'c tree \<times> git_result) option" where
  "PutFile is_resource filename content =
     (if filename = [] \<or> \<not> is_resource content then None else Some (\<lambda>fs. (write_file filename content fs, GitDone)))"

definition PutFiles :: "(string \<times> 'c) list \<Rightarrow> 'c tree \<Rightarrow> 'c tree \<times> git_result" where
  "PutFiles files fs = (foldl (\<lambda>fs (f, c). write_file f c fs) fs files, GitDone)"

definition RemoveFile :: "string \<Rightarrow> ('c tree \<Rightarrow> 'c tree \<times> git_result) option" where
  "RemoveFile filename =
     (if filename = [] then None
      else Some (\<lambda>fs. (filter (\<lambda>(f, c). f \<noteq> filename \<and> \<not> has_prefix f (filename @ ''/'')) fs, GitDone)))"

definition ListFiles :: "'c tree \<Rightarrow> 'c tree" where
  "ListFiles fs = filter (\<lambda>(f, c). f \<noteq> [] \<and> hd f \<noteq> CHR ''.'' \<and> map to_lower f \<noteq> ''readme.md'') fs"

definition Revert :: "'c history \<Rightarrow> 'c repo_func" where
  "Revert hash path g =
     (case HistoryFiles path hash g of
        None \<Rightarrow> (g, GitFailed)
      | Some files \<Rightarrow> FsFunc (\<lambda>fs. PutFiles files []) path g)"

definition GitRevert :: "'c git_env \<Rightarrow> 'c \<Rightarrow> ('c, 'r) kustom_codec \<Rightarrow> string \<Rightarrow> string \<Rightarrow> string \<Rightarrow> 'c history \<Rightarrow> 'c git \<Rightarrow> 'c git \<times> git_result" where
  "GitRevert env readme k author path message hash g =
     Func env readme path [Revert hash, UpdateKustomizeCommit env k author message] g"

text \<open>The applications of an environment: the directories with something in them.\<close>

definition ForManifestFsFunc :: "'c tree \<Rightarrow> (string \<times> 'c tree) list" where
  "ForManifestFsFunc fs =
     map (\<lambda>name. (name, chroot name fs))
       (remdups (map (\<lambda>f. hd (split_on (CHR ''/'') f)) (filter (\<lambda>f. CHR ''/'' \<in> set f) (map fst fs))))"

section \<open>What is staged and what is seen below a path\<close>

lemma changed_Nil: "changed wt tree = [] \<longleftrightarrow> map_of wt = map_of tree"
proof
  assume "changed wt tree = []"
  then have in_either: "map_of wt f = map_of tree f" if "f \<in> fst ` set wt \<union> fst ` set tree" for f
    using that unfolding changed_def by (auto simp: filter_empty_conv)
  show "map_of wt = map_of tree"
  proof
    fix f
    show "map_of wt f = map_of tree f"
    proof (cases "f \<in> fst ` set wt \<union> fst ` set tree")
      case False
      then have "map_of wt f = None" "map_of tree f = None" by (auto simp: map_of_eq_None_iff)
      then show ?thesis by simp
    qed (rule in_either)
  qed
qed (simp add: changed_def)

lemma set_changed: "f \<in> set (changed wt tree) \<longleftrightarrow> map_of wt f \<noteq> map_of tree f"
proof -
  have "f \<in> fst ` set wt \<union> fst ` set tree" if "map_of wt f \<noteq> map_of tree f"
    using that by (metis UnI1 UnI2 map_of_eq_None_iff)
  then show ?thesis by (auto simp: changed_def)
qed

lemma stage_file_at: "map_of (stage_file wt tree f) = (map_of tree)(f := map_of wt f)"
  by (simp add: stage_file_def split: option.split)

lemma stage_files_at:
  "map_of (foldl (stage_file wt) tree fs) g = (if g \<in> set fs then map_of wt g else map_of tree g)"
  by (induction fs arbitrary: tree) (auto simp: stage_file_at)

lemma stage_at: "map_of (stage path wt tree) f = (if has_prefix f path then map_of wt f else map_of tree f)"
  by (simp add: stage_def stage_files_at set_changed)

text \<open>Below a path.\<close>

lemma map_of_chroot_aux:
  "map_of (map (\<lambda>(f, c). (trim_prefix f d, c)) (filter (\<lambda>(f, c). has_prefix f d) wt)) x = map_of wt (d @ x)"
proof (induction wt)
  case (Cons a wt)
  obtain g c where a: "a = (g, c)" by (cases a)
  show ?case
  proof (cases "has_prefix g d")
    case True
    then show ?thesis using Cons a by (auto simp: has_prefix_iff)
  next
    case False
    then have "g \<noteq> d @ x" by auto
    then show ?thesis using Cons a False by simp
  qed
qed simp

lemma map_of_chroot: "path \<noteq> [] \<Longrightarrow> map_of (chroot path wt) f = map_of wt (path @ ''/'' @ f)"
  using map_of_chroot_aux [of "path @ ''/''" wt f] by (simp add: chroot_def)

lemma map_of_outside:
  "map_of (filter (\<lambda>(f, c). \<not> has_prefix f d) wt) x = (if has_prefix x d then None else map_of wt x)"
  by (induction wt) auto

lemma map_of_under:
  "map_of (map (\<lambda>(f, c). (d @ f, c)) files) x = (if has_prefix x d then map_of files (trim_prefix x d) else None)"
  by (induction files) (auto simp: has_prefix_iff)

lemma map_of_unroot:
  "path \<noteq> [] \<Longrightarrow> map_of (unroot path files wt) x =
    (if has_prefix x (path @ ''/'') then map_of files (trim_prefix x (path @ ''/'')) else map_of wt x)"
  using map_of_under [of "path @ ''/''" files x] map_of_outside [of "path @ ''/''" wt x]
  by (auto simp: unroot_def map_add_def split: option.split)

lemma chroot_unroot:
  assumes "path \<noteq> []"
  shows "chroot path (unroot path files wt) = files"
proof -
  have "filter (\<lambda>(f, c). has_prefix f d) (filter (\<lambda>(f, c). \<not> has_prefix f d) wt) = []" for d
    by (induction wt) auto
  moreover have "map (\<lambda>(f, c). (trim_prefix f d, c)) (filter (\<lambda>(f, c). has_prefix f d) (map (\<lambda>(f, c). (d @ f, c)) files)) = files" for d
    by (induction files) auto
  from this [of "path @ ''/''"]
  have "map (\<lambda>(f, c). (trim_prefix f (path @ ''/''), c))
      (filter (\<lambda>(f, c). has_prefix f (path @ ''/'')) (map (\<lambda>(f, c). (path @ ''/'' @ f, c)) files)) = files" by simp
  ultimately show ?thesis using assms by (simp add: chroot_def unroot_def)
qed

section \<open>Where a repository stands\<close>

text \<open>Other clients only add to what is there. Then what was last seen of the server is part of what is there and of what the repository has.\<close>

definition only_add :: "'c git_env \<Rightarrow> bool" where
  "only_add env \<longleftrightarrow> (\<forall>i h. suffix h (gv_others env i h))"

definition follows :: "'c git \<Rightarrow> bool" where
  "follows g \<longleftrightarrow> suffix (gt_tracking g) (gt_head g) \<and> suffix (gt_tracking g) (gt_remote g)"

lemma reach_fields [simp]:
  "gt_remote (reach_server env g) = gv_others env (gt_clock g) (gt_remote g)"
  "gt_clock (reach_server env g) = Suc (gt_clock g)"
  "gt_head (reach_server env g) = gt_head g" "gt_tracking (reach_server env g) = gt_tracking g"
  "gt_wt (reach_server env g) = gt_wt g" "gt_cached (reach_server env g) = gt_cached g"
  "gt_lastsync (reach_server env g) = gt_lastsync g"
  by (simp_all add: reach_server_def)

lemma others_suffix: "only_add env \<Longrightarrow> suffix h r \<Longrightarrow> suffix h (gv_others env i r)"
  by (meson only_add_def suffix_order.trans)

lemma follows_reach: "only_add env \<Longrightarrow> follows g \<Longrightarrow> follows (reach_server env g)"
  by (simp add: follows_def others_suffix)

text \<open>A reset leaves the repository at what it has fetched, or, where there was nothing to fetch, where it was.\<close>

lemma reset_cases:
  obtains (failed) "resetOriginLatest env mode g = (reach_server env g, False)"
  | (same) "resetOriginLatest env mode g = ((reach_server env g)\<lparr>gt_lastsync := gv_time env (Suc (gt_clock g))\<rparr>, True)"
      "gt_tracking g = gv_others env (gt_clock g) (gt_remote g)"
  | (new) s wt where "resetOriginLatest env mode g = (s, True)" "gt_tracking g \<noteq> gv_others env (gt_clock g) (gt_remote g)"
      "s = (reach_server env g)\<lparr>gt_tracking := gv_others env (gt_clock g) (gt_remote g),
         gt_head := gv_others env (gt_clock g) (gt_remote g), gt_wt := wt, gt_lastsync := gv_time env (Suc (gt_clock g))\<rparr>"
      "mode = MixedReset \<Longrightarrow> wt = gt_wt g"
proof -
  consider (a) "gv_fetch_fails env (gt_clock g)"
    | (b) "\<not> gv_fetch_fails env (gt_clock g)" "gt_tracking g = gv_others env (gt_clock g) (gt_remote g)"
    | (c) "\<not> gv_fetch_fails env (gt_clock g)" "gt_tracking g \<noteq> gv_others env (gt_clock g) (gt_remote g)" by blast
  then show thesis
  proof cases
    case a
    then show ?thesis by (intro failed) (simp add: resetOriginLatest_def git_fetch_def Let_def)
  next
    case b
    then show ?thesis by (intro same) (simp_all add: resetOriginLatest_def git_fetch_def Let_def)
  next
    case c
    then show ?thesis
      by (intro new [OF _ _ refl, of "if mode = HardReset
            then hard_reset env (gt_wt g) (tree_of (gt_head g)) (tree_of (gv_others env (gt_clock g) (gt_remote g))) else gt_wt g"])
        (simp_all add: resetOriginLatest_def git_fetch_def Let_def)
  qed
qed

lemma follows_reset: "only_add env \<Longrightarrow> follows g \<Longrightarrow> follows (fst (resetOriginLatest env mode g))"
  by (rule reset_cases [of env mode g]) (auto simp: follows_def others_suffix)

lemma follows_push: "only_add env \<Longrightarrow> follows g \<Longrightarrow> follows (fst (git_push env g))"
  by (auto simp: git_push_def Let_def follows_def others_suffix)

text \<open>What one attempt does: it commits what differs, and the commit is taken, refused or lost.\<close>

definition committed :: "string \<Rightarrow> string \<Rightarrow> string \<Rightarrow> 'c git \<Rightarrow> 'c history" where
  "committed path author message g =
     (if changed (gt_wt g) (tree_of (gt_head g)) = [] then gt_head g
      else \<lparr>cm_Message = message, cm_Author = author, cm_Tree = stage path (gt_wt g) (tree_of (gt_head g))\<rparr> # gt_head g)"

lemma committed_head: "suffix (gt_head g) (committed path author message g)"
  by (simp add: committed_def suffix_ConsI)

lemma committed_at:
  "map_of (tree_of (committed path author message g)) f =
    (if has_prefix f path then map_of (gt_wt g) f else map_of (tree_of (gt_head g)) f)"
  by (auto simp: committed_def stage_at changed_Nil tree_of_def)

lemma CommitPush_push:
  "message \<noteq> [] \<Longrightarrow> CommitPush env path author message g = git_push env (g\<lparr>gt_head := committed path author message g\<rparr>)"
  by (simp add: CommitPush_def committed_def Let_def)

lemma attempt_cases:
  assumes "message \<noteq> []"
  obtains (taken) "CommitPush env path author message g = ((reach_server env g)\<lparr>gt_head := committed path author message g,
        gt_remote := committed path author message g, gt_tracking := committed path author message g\<rparr>, Pushed)"
      "suffix (gv_others env (gt_clock g) (gt_remote g)) (committed path author message g)"
  | (refused) "CommitPush env path author message g = ((reach_server env g)\<lparr>gt_head := committed path author message g\<rparr>, NonFastForward)"
      "\<not> suffix (gv_others env (gt_clock g) (gt_remote g)) (committed path author message g)"
  | (lost) "CommitPush env path author message g = ((reach_server env g)\<lparr>gt_head := committed path author message g\<rparr>, PushFailed)"
      "gv_push_fails env (gt_clock g)"
proof -
  have reach: "reach_server env (g\<lparr>gt_head := h\<rparr>) = (reach_server env g)\<lparr>gt_head := h\<rparr>" for h by (simp add: reach_server_def)
  note simps = CommitPush_push [OF assms] git_push_def Let_def reach
  consider (a) "gv_push_fails env (gt_clock g)"
    | (b) "\<not> gv_push_fails env (gt_clock g)" "suffix (gv_others env (gt_clock g) (gt_remote g)) (committed path author message g)"
    | (c) "\<not> gv_push_fails env (gt_clock g)" "\<not> suffix (gv_others env (gt_clock g) (gt_remote g)) (committed path author message g)"
    by blast
  then show thesis
  proof cases
    case a
    then show ?thesis by (intro lost) (simp_all add: simps)
  next
    case b
    then show ?thesis by (intro taken) (simp_all add: simps)
  next
    case c
    then show ?thesis by (intro refused) (simp_all add: simps)
  qed
qed

lemma follows_CommitPush: "only_add env \<Longrightarrow> follows g \<Longrightarrow> follows (fst (CommitPush env path author message g))"
proof (cases "message = []")
  case False
  assume ok: "only_add env" "follows g"
  have "suffix (gt_tracking g) (committed path author message g)"
    using ok(2) committed_head by (metis follows_def suffix_order.trans)
  then show ?thesis
    by (cases rule: attempt_cases [OF False, of env path author g]) (use ok in \<open>auto simp: follows_def others_suffix\<close>)
qed (simp add: CommitPush_def)

lemma push_attempts_Suc:
  "push_attempts env path author message (Suc n) g =
     (let s = CommitPush env path author message g in
      if snd s = Pushed then (fst s, True)
      else if snd s = PushFailed then (fst s, False)
      else let t = resetOriginLatest env MixedReset (fst s) in
        if snd t then push_attempts env path author message n (fst t) else t)"
  by (cases "CommitPush env path author message g"; cases "snd (CommitPush env path author message g)")
    (auto simp: Let_def split: prod.split bool.split)

lemma follows_attempts: "only_add env \<Longrightarrow> follows g \<Longrightarrow> follows (fst (push_attempts env path author message n g))"
proof (induction n arbitrary: g)
  case (Suc n)
  let ?s = "CommitPush env path author message g" and ?t = "resetOriginLatest env MixedReset (fst (CommitPush env path author message g))"
  have "follows (fst ?s)" using Suc.prems by (rule follows_CommitPush)
  moreover from this have "follows (fst ?t)" using Suc.prems(1) by (intro follows_reset)
  ultimately show ?case using Suc.IH [of "fst ?t"] Suc.prems(1) by (simp add: push_attempts_Suc Let_def del: push_attempts.simps)
qed simp

text \<open>The reset that follows a refusal always finds something: what was refused for is there to be fetched.\<close>

lemma refused_fetches:
  assumes "only_add env" "follows g" "\<not> suffix (gv_others env (gt_clock g) (gt_remote g)) (committed path author message g)"
  shows "gt_tracking g \<noteq> gv_others env i (gv_others env (gt_clock g) (gt_remote g))"
proof
  assume eq: "gt_tracking g = gv_others env i (gv_others env (gt_clock g) (gt_remote g))"
  have "suffix (gv_others env (gt_clock g) (gt_remote g)) (gt_tracking g)" unfolding eq using assms(1) by (simp add: only_add_def)
  moreover have "suffix (gt_tracking g) (committed path author message g)"
    using assms(2) committed_head by (metis follows_def suffix_order.trans)
  ultimately show False using assms(3) suffix_order.trans by blast
qed

section \<open>Pushing\<close>

text \<open>What a push that was taken has left on the server: all that was there, and the worktree below the path.\<close>

definition published :: "string \<Rightarrow> 'c tree \<Rightarrow> 'c history \<Rightarrow> 'c history \<Rightarrow> bool" where
  "published path wt before after \<longleftrightarrow> suffix before after \<and> length after \<le> Suc (length before) \<and>
     (\<forall>f. map_of (tree_of after) f = (if has_prefix f path then map_of wt f else map_of (tree_of before) f))"

lemma attempts_publish:
  assumes "only_add env" "follows g" "gt_head g = gt_tracking g" "message \<noteq> []"
    and "push_attempts env path author message n g = (g', True)"
  shows "gt_wt g' = gt_wt g \<and> gt_head g' = gt_remote g' \<and> gt_tracking g' = gt_remote g' \<and> gt_cached g' = gt_cached g \<and>
    (\<exists>before. suffix (gt_remote g) before \<and> published path (gt_wt g) before (gt_remote g'))"
  using assms
proof (induction n arbitrary: g)
  case (Suc n)
  let ?r = "gv_others env (gt_clock g) (gt_remote g)" and ?c = "committed path author message g"
  have tracked: "suffix (gt_tracking g) ?r" using Suc.prems(1,2) by (simp add: follows_def others_suffix)
  have adds: "suffix (gt_remote g) ?r" using Suc.prems(1) by (simp add: only_add_def)
  show ?case
  proof (cases rule: attempt_cases [OF Suc.prems(4), of env path author g, case_names taken refused lost])
    case taken
    have "?r = gt_head g \<or> ?r = ?c"
      using taken(2) tracked Suc.prems(3) by (auto simp: committed_def suffix_Cons intro: suffix_order.antisym split: if_splits)
    then have "published path (gt_wt g) ?r ?c"
      using taken(2) by (auto simp: published_def committed_at) (simp_all add: committed_def)
    then show ?thesis using Suc.prems(5) taken(1) adds by (auto simp: push_attempts_Suc Let_def simp del: push_attempts.simps)
  next
    case refused
    let ?s = "(reach_server env g)\<lparr>gt_head := ?c\<rparr>"
    show ?thesis
    proof (cases rule: reset_cases [of env MixedReset ?s])
      case (new t wt)
      then have "follows t" using follows_reset [of env ?s MixedReset] Suc.prems(1,2) follows_CommitPush [OF Suc.prems(1,2)] refused(1)
        by (metis fst_conv)
      moreover have "push_attempts env path author message n t = (g', True)"
        using Suc.prems(5) refused(1) new(1) by (simp add: push_attempts_Suc Let_def del: push_attempts.simps)
      ultimately have "gt_wt g' = gt_wt t \<and> gt_head g' = gt_remote g' \<and> gt_tracking g' = gt_remote g' \<and> gt_cached g' = gt_cached t \<and>
          (\<exists>before. suffix (gt_remote t) before \<and> published path (gt_wt t) before (gt_remote g'))"
        using Suc.IH [of t] Suc.prems(1,4) new(3) by simp
      moreover have "suffix (gt_remote g) (gt_remote t)" using adds Suc.prems(1) new(3) by (simp add: others_suffix)
      ultimately show ?thesis using new(3,4) by (auto intro: suffix_order.trans)
    next
      case same
      then show ?thesis using refused_fetches [OF Suc.prems(1,2) refused(2)] by simp
    next
      case failed
      then show ?thesis using Suc.prems(5) refused(1) by (simp add: push_attempts_Suc Let_def del: push_attempts.simps)
    qed
  next
    case lost
    then show ?thesis using Suc.prems(5) by (simp add: push_attempts_Suc Let_def del: push_attempts.simps)
  qed
qed simp


text \<open>How many attempts it takes.\<close>

definition server_up :: "'c git_env \<Rightarrow> bool" where
  "server_up env \<longleftrightarrow> (\<forall>i. \<not> gv_fetch_fails env i \<and> \<not> gv_push_fails env i)"

definition undisturbed :: "'c git_env \<Rightarrow> nat \<Rightarrow> bool" where
  "undisturbed env i \<longleftrightarrow> (\<forall>h. gv_others env i h = h)"

lemma attempts_succeed:
  assumes "only_add env" "follows g" "server_up env" "message \<noteq> []" "k < n" "undisturbed env (gt_clock g + 2 * k)"
    and "k = 0 \<Longrightarrow> suffix (gt_remote g) (gt_head g)"
  shows "snd (push_attempts env path author message n g) \<and>
    gt_clock (fst (push_attempts env path author message n g)) \<le> Suc (gt_clock g + 2 * k)"
  using assms
proof (induction n arbitrary: g k)
  case (Suc n)
  let ?c = "committed path author message g"
  show ?case
  proof (cases rule: attempt_cases [OF Suc.prems(4), of env path author g, case_names taken refused lost])
    case taken
    then show ?thesis by (simp add: push_attempts_Suc Let_def del: push_attempts.simps)
  next
    case refused
    let ?s = "(reach_server env g)\<lparr>gt_head := ?c\<rparr>"
    have "k \<noteq> 0"
    proof
      assume "k = 0"
      then have "suffix (gt_remote g) ?c" using Suc.prems(7) committed_head suffix_order.trans by blast
      then show False using \<open>k = 0\<close> Suc.prems(6) refused(2) by (simp add: undisturbed_def)
    qed
    show ?thesis
    proof (cases rule: reset_cases [of env MixedReset ?s])
      case (new t wt)
      have "follows t" using follows_reset [of env ?s MixedReset] Suc.prems(1,2) follows_CommitPush [OF Suc.prems(1,2)] refused(1) new(1)
        by (metis fst_conv)
      moreover have clk: "gt_clock t + 2 * (k - 1) = gt_clock g + 2 * k" and "suffix (gt_remote t) (gt_head t)" "k - 1 < n"
        using \<open>k \<noteq> 0\<close> new(3) Suc.prems(5) by simp_all
      ultimately have "snd (push_attempts env path author message n t) \<and>
          gt_clock (fst (push_attempts env path author message n t)) \<le> Suc (gt_clock g + 2 * k)"
        using Suc.IH [of t "k - 1", unfolded clk] Suc.prems(1,3,4,6) by simp
      then show ?thesis using refused(1) new(1) by (simp add: push_attempts_Suc Let_def del: push_attempts.simps)
    next
      case same
      then show ?thesis using refused_fetches [OF Suc.prems(1,2) refused(2)] by simp
    next
      case failed
      then show ?thesis using Suc.prems(3) by (simp add: resetOriginLatest_def git_fetch_def Let_def server_up_def split: if_splits)
    qed
  next
    case lost
    then show ?thesis using Suc.prems(3) by (simp add: server_up_def)
  qed
qed simp

lemma retry_succeeds:
  assumes "only_add env" "follows g" "server_up env" "k \<le> MaxCommitRetry" "undisturbed env (gt_clock g + 2 * k)"
    and "k = 0 \<Longrightarrow> suffix (gt_remote g) (gt_head g)"
  shows "\<exists>g'. CommitPushWithRetry env path author message g = (g', True) \<and> gt_clock g' \<le> Suc (gt_clock g + 2 * k)"
proof (cases "message = []")
  case True
  then have "CommitPushWithRetry env path author message g = (g, True)"
    by (simp add: CommitPushWithRetry_def push_attempts_Suc CommitPush_def del: push_attempts.simps)
  then show ?thesis by simp
next
  case False
  then show ?thesis
    using attempts_succeed [OF assms(1-3), of message k "Suc MaxCommitRetry" path author] assms(4-6)
    by (intro exI [of _ "fst (CommitPushWithRetry env path author message g)"])
      (simp add: CommitPushWithRetry_def prod_eq_iff del: push_attempts.simps)
qed


text \<open>C31: A push that had to be repeated leaves the worktree as it was before others pushed. Refreshing does not help, as there is nothing
  to fetch, and the next push for another application publishes its old files: what others did to them is undone.\<close>

theorem stale_worktree_published:
  assumes "only_add env" "follows g" "gt_head g = gt_tracking g" "message \<noteq> []"
    and "CommitPushWithRetry env path author message g = (g1, True)"
    and "server_up env" "\<forall>i \<ge> gt_clock g1. undisturbed env i" "message2 \<noteq> []"
  shows "\<exists>g2 g3. Pull env g1 = (g2, True) \<and> gt_wt g2 = gt_wt g \<and>
    CommitPushWithRetry env path2 author2 message2 g2 = (g3, True) \<and>
    (\<forall>f. map_of (tree_of (gt_remote g3)) f =
       (if has_prefix f path2 then map_of (gt_wt g) f else map_of (tree_of (gt_remote g1)) f))"
proof -
  have at1: "gt_wt g1 = gt_wt g" "gt_head g1 = gt_remote g1" "gt_tracking g1 = gt_remote g1"
    using attempts_publish [OF assms(1-4) assms(5) [unfolded CommitPushWithRetry_def]] by simp_all
  define g2 where "g2 = (reach_server env g1)\<lparr>gt_lastsync := gv_time env (Suc (gt_clock g1))\<rparr>"
  have pulled: "Pull env g1 = (g2, True)"
    using assms(6,7) at1 by (simp add: Pull_def resetOriginLatest_def git_fetch_def Let_def server_up_def undisturbed_def g2_def)
  have at2: "gt_wt g2 = gt_wt g" "gt_head g2 = gt_remote g1" "gt_tracking g2 = gt_remote g1" "gt_remote g2 = gt_remote g1" "follows g2"
    using at1 assms(7) by (simp_all add: g2_def undisturbed_def follows_def)
  have "undisturbed env (gt_clock g2 + 2 * 0)" using assms(7) by (simp add: g2_def)
  then obtain g3 where g3: "CommitPushWithRetry env path2 author2 message2 g2 = (g3, True)"
    using retry_succeeds [OF assms(1) at2(5) assms(6), of 0 path2 author2 message2] at2 by auto
  have "committed path2 author2 message2 g2 = gt_remote g3"
  proof (cases rule: attempt_cases [OF assms(8), of env path2 author2 g2, case_names taken refused lost])
    case taken
    then show ?thesis using g3 by (auto simp: CommitPushWithRetry_def push_attempts_Suc Let_def simp del: push_attempts.simps)
  next
    case refused
    then show ?thesis using assms(7) at2 committed_head [of g2 path2 author2 message2] by (simp add: undisturbed_def g2_def)
  next
    case lost
    then show ?thesis using assms(6) by (simp add: server_up_def)
  qed
  then have "map_of (tree_of (gt_remote g3)) f =
      (if has_prefix f path2 then map_of (gt_wt g) f else map_of (tree_of (gt_remote g1)) f)" for f
    using committed_at [of path2 author2 message2 g2 f] at2 by simp
  then show ?thesis using pulled at2(1) g3 by blast
qed

section \<open>A request when no one else is there\<close>

definition calm :: "'c git_env \<Rightarrow> bool" where
  "calm env \<longleftrightarrow> server_up env \<and> (\<forall>i. undisturbed env i)"

text \<open>The repository is where the server is, and nothing is left in the worktree.\<close>

definition synced :: "'c git \<Rightarrow> bool" where
  "synced g \<longleftrightarrow> gt_cached g \<and> gt_head g = gt_remote g \<and> gt_tracking g = gt_remote g \<and>
     map_of (gt_wt g) = map_of (tree_of (gt_remote g))"

text \<open>What the server has of an application.\<close>

definition app_files :: "'c git \<Rightarrow> string \<Rightarrow> string \<Rightarrow> 'c option" where
  "app_files g app f = map_of (tree_of (gt_remote g)) (app @ ''/'' @ f)"

lemma calm_reach: "calm env \<Longrightarrow> reach_server env g = g\<lparr>gt_clock := Suc (gt_clock g)\<rparr>"
  by (simp add: reach_server_def calm_def undisturbed_def)

lemma calm_pull:
  assumes "calm env" "gt_tracking g = gt_remote g"
  shows "\<exists>c t. Pull env g = (g\<lparr>gt_clock := c, gt_lastsync := t\<rparr>, True)"
proof -
  have "Pull env g = (g\<lparr>gt_clock := Suc (gt_clock g), gt_lastsync := gv_time env (Suc (gt_clock g))\<rparr>, True)"
    using assms by (simp add: Pull_def resetOriginLatest_def git_fetch_def calm_reach Let_def calm_def server_up_def)
  then show ?thesis by blast
qed

lemma calm_get:
  assumes "calm env" "gt_cached g" "gt_tracking g = gt_remote g"
  shows "\<exists>c t. Get_repo env readme committer g = (g\<lparr>gt_clock := c, gt_lastsync := t\<rparr>, True)"
proof (cases "Expired env g")
  case True
  then have "Get_repo env readme committer g = (fst (Pull env g), True)" using assms(2) by (simp add: Get_repo_def)
  moreover obtain c t where "Pull env g = (g\<lparr>gt_clock := c, gt_lastsync := t\<rparr>, True)" using calm_pull [OF assms(1,3)] by blast
  ultimately have "Get_repo env readme committer g = (g\<lparr>gt_clock := c, gt_lastsync := t\<rparr>, True)" by simp
  then show ?thesis by blast
next
  case False
  then have "Get_repo env readme committer g = (g\<lparr>gt_clock := gt_clock g, gt_lastsync := gt_lastsync g\<rparr>, True)"
    using assms(2) by (simp add: Get_repo_def)
  then show ?thesis by blast
qed

lemma calm_commit:
  assumes "calm env" "gt_head g = gt_remote g" "message \<noteq> []"
  shows "CommitPushWithRetry env path author message g =
    (let c = committed path author message g in (g\<lparr>gt_head := c, gt_remote := c, gt_tracking := c, gt_clock := Suc (gt_clock g)\<rparr>, True))"
proof (cases rule: attempt_cases [OF assms(3), of env path author g, case_names taken refused lost])
  case taken
  then show ?thesis
    by (simp add: CommitPushWithRetry_def push_attempts_Suc calm_reach [OF assms(1)] Let_def del: push_attempts.simps)
next
  case refused
  then show ?thesis using assms(1,2) committed_head [of g path author message] by (simp add: calm_def undisturbed_def)
next
  case lost
  then show ?thesis using assms(1) by (simp add: calm_def server_up_def)
qed

lemma two_apps:
  assumes "CHR ''/'' \<notin> set p" "CHR ''/'' \<notin> set q"
  shows "has_prefix (p @ ''/'' @ f) (q @ ''/'') \<longleftrightarrow> p = q"
proof -
  have "p = q" if "p @ ''/'' @ f = q @ ''/'' @ r" for r
    using that assms by (metis append_Cons append_Nil split_on_append_sep list.inject)
  then show ?thesis by (auto simp: has_prefix_iff)
qed

lemma unroot_twice:
  "path \<noteq> [] \<Longrightarrow> map_of (unroot path b (unroot path a wt)) x = map_of (unroot path b wt) x"
  by (simp add: map_of_unroot)

lemma commit_synced:
  assumes "calm env" "synced g" "path \<noteq> []" "message \<noteq> []" "\<And>x. map_of wt x = map_of (unroot path files (gt_wt g)) x"
  shows "\<exists>g'. CommitPushWithRetry env path author message (g\<lparr>gt_clock := c, gt_lastsync := t, gt_wt := wt\<rparr>) = (g', True) \<and> synced g' \<and>
    gt_wt g' = wt \<and> suffix (gt_remote g) (gt_remote g') \<and>
    (\<forall>x. map_of (tree_of (gt_remote g')) x = map_of (unroot path files (gt_wt g)) x)"
proof -
  let ?g = "g\<lparr>gt_clock := c, gt_lastsync := t, gt_wt := wt\<rparr>"
  let ?c = "committed path author message ?g"
  have "has_prefix x path" if "has_prefix x (path @ ''/'')" for x using that by (auto simp: has_prefix_iff)
  then have "map_of (tree_of ?c) x = map_of (unroot path files (gt_wt g)) x" for x
    using assms(2,3,5) by (auto simp: committed_at synced_def map_of_unroot)
  then show ?thesis
    using calm_commit [OF assms(1), of ?g message path author] assms(2,4,5) committed_head [of ?g path author message]
    by (auto simp: synced_def Let_def)
qed

text \<open>C32: With no one else at work and nothing left over, an update replaces the files of its application on the server by what the
  function and then the kustomization make of them, leaves every other application as it is, and ends with nothing left over.
  When the function fails, or the kustomization panics as its text is null, nothing is pushed, but what was
  written stays in the worktree all requests share.\<close>

theorem UpdateContentFunc_refines:
  assumes "calm env" "synced g" "path \<noteq> []" "CHR ''/'' \<notin> set path" "commitmsg \<noteq> []"
  shows "\<exists>g' files r. (case act (chroot path (gt_wt g)) of
        (fs, GitDone) \<Rightarrow> InitOrUpdateKustomization k fs = (files, r)
      | (fs, e) \<Rightarrow> (files, r) = (fs, e)) \<and>
    UpdateContentFunc env readme k author path commitmsg act g = (g', r) \<and>
    (\<forall>f. map_of (gt_wt g') (path @ ''/'' @ f) = map_of files f) \<and>
    (if r = GitDone
     then synced g' \<and> suffix (gt_remote g) (gt_remote g') \<and>
       (\<forall>app. CHR ''/'' \<notin> set app \<longrightarrow> app_files g' app = (if app = path then map_of files else app_files g app))
     else gt_remote g' = gt_remote g)"
proof -
  obtain fs e where fs: "act (chroot path (gt_wt g)) = (fs, e)" by (cases "act (chroot path (gt_wt g))")
  obtain files r where files: "InitOrUpdateKustomization k fs = (files, r)" by (cases "InitOrUpdateKustomization k fs")
  obtain c1 t1 where get: "Get_repo env readme ''service'' g = (g\<lparr>gt_clock := c1, gt_lastsync := t1\<rparr>, True)"
    using calm_get [OF assms(1), of g readme "''service''"] assms(2) unfolding synced_def by blast
  obtain c2 t2 where pull: "Pull env (g\<lparr>gt_clock := c1, gt_lastsync := t1\<rparr>) = (g\<lparr>gt_clock := c2, gt_lastsync := t2\<rparr>, True)"
    using calm_pull [OF assms(1), of "g\<lparr>gt_clock := c1, gt_lastsync := t1\<rparr>"] assms(2) by (simp add: synced_def) blast
  define wt1 where "wt1 = unroot path fs (gt_wt g)"
  define wt2 where "wt2 = unroot path files wt1"
  let ?g = "\<lambda>wt. g\<lparr>gt_clock := c2, gt_lastsync := t2, gt_wt := wt\<rparr>"
  have run: "UpdateContentFunc env readme k author path commitmsg act g =
      (if e \<noteq> GitDone then (?g wt1, e) else if r \<noteq> GitDone then (?g wt2, r)
       else of_ok (CommitPushWithRetry env path author commitmsg (?g wt2)))"
    using assms(5) chroot_unroot [OF assms(3), of fs "gt_wt g"]
    by (cases e; cases r)
      (simp_all add: UpdateContentFunc_def Func_def get PullFunc_def pull of_ok_def FsFunc_def fs files
        UpdateKustomizeCommit_def CommitFunc_def wt1_def wt2_def)
  have at: "map_of wt1 (path @ ''/'' @ f) = map_of fs f" "map_of wt2 (path @ ''/'' @ f) = map_of files f" for f
    using two_apps [OF assms(4,4), of f] trim_prefix_append [of "path @ ''/''" f]
    by (simp_all add: wt1_def wt2_def map_of_unroot [OF assms(3)])
  show ?thesis
  proof (cases "e = GitDone \<and> r = GitDone")
    case False
    then show ?thesis using run at fs files by (cases e; cases r) auto
  next
    case True
    obtain g' where g': "CommitPushWithRetry env path author commitmsg (?g wt2) = (g', True)" "synced g'" "gt_wt g' = wt2"
      "suffix (gt_remote g) (gt_remote g')" "\<And>x. map_of (tree_of (gt_remote g')) x = map_of (unroot path files (gt_wt g)) x"
      using commit_synced [OF assms(1-3,5), of wt2 files author t2 c2] by (auto simp: wt2_def wt1_def unroot_twice [OF assms(3)])
    have "app_files g' app = (if app = path then map_of files else app_files g app)" if "CHR ''/'' \<notin> set app" for app
      using that assms(2) two_apps [OF that assms(4)] trim_prefix_append [of "path @ ''/''"]
      by (auto simp: app_files_def g'(5) map_of_unroot [OF assms(3)] synced_def)
    then show ?thesis using True run g' at fs files by (intro exI [of _ g'] exI [of _ files] exI [of _ r]) (simp add: of_ok_def)
  qed
qed

text \<open>The requests do not hold the repository between writing and committing. A pull of another request in between that finds something new
  resets the worktree, and the commit, which finds nothing to do, is a success.\<close>

theorem pull_discards_writes:
  assumes "Pull env g = (g1, True)" "gt_tracking g1 \<noteq> gt_tracking g" "\<not> gv_keeps_untracked env"
    and "server_up env" "undisturbed env (gt_clock g1)" "message \<noteq> []"
  shows "\<exists>g2. CommitPushWithRetry env path author message g1 = (g2, True) \<and> gt_remote g2 = gt_remote g1"
proof -
  have wt: "gt_wt g1 = tree_of (gt_head g1)" "gt_head g1 = gt_remote g1"
    using assms(1-3) by (auto simp: Pull_def resetOriginLatest_def git_fetch_def hard_reset_def Let_def split: if_splits)
  then have same: "committed path author message g1 = gt_remote g1" by (simp add: committed_def changed_Nil)
  show ?thesis
  proof (cases rule: attempt_cases [OF assms(6), of env path author g1, case_names taken refused lost])
    case taken
    then show ?thesis by (simp add: CommitPushWithRetry_def push_attempts_Suc same Let_def del: push_attempts.simps)
  next
    case refused
    then show ?thesis using assms(5) same by (simp add: undisturbed_def)
  next
    case lost
    then show ?thesis using assms(4) by (simp add: server_up_def)
  qed
qed

section \<open>Two applications, two servers\<close>

text \<open>The file of \<open>a\<close> is written here while another server pushes a change to that of \<open>b\<close>.\<close>

definition ex_commit :: "string \<Rightarrow> string commit" where
  "ex_commit b = \<lparr>cm_Message = ''m'', cm_Author = ''u'', cm_Tree = [(''a/x'', ''1''), (''b/x'', b)]\<rparr>"

definition ex_git :: "string git" where
  "ex_git = \<lparr>gt_cached = True, gt_wt = [(''a/x'', ''2''), (''b/x'', ''1'')], gt_head = [ex_commit ''1''], gt_tracking = [ex_commit ''1''],
     gt_lastsync = 0, gt_remote = [ex_commit ''1''], gt_clock = 0\<rparr>"

definition ex_git_env :: "string git_env" where
  "ex_git_env = \<lparr>gv_fetch_fails = (\<lambda>_. False), gv_push_fails = (\<lambda>_. False),
     gv_others = (\<lambda>i h. if i = 0 then ex_commit ''9'' # h else h), gv_keeps_untracked = False, gv_time = (\<lambda>i. i)\<rparr>"

definition ex_calm_env :: "string git_env" where
  "ex_calm_env = ex_git_env\<lparr>gv_others := \<lambda>i h. h\<rparr>"

lemma ex_git_facts: "only_add ex_git_env" "follows ex_git" "gt_head ex_git = gt_tracking ex_git" "server_up ex_git_env"
  "undisturbed ex_git_env (Suc i)" "gt_clock ex_git = 0"
  by (auto simp: only_add_def ex_git_env_def follows_def ex_git_def server_up_def undisturbed_def suffix_ConsI)



theorem stale_worktree_published_witness:
  "\<exists>g1 g2 g3. CommitPushWithRetry ex_git_env ''a'' ''u'' ''m'' ex_git = (g1, True) \<and> Pull ex_git_env g1 = (g2, True) \<and>
     CommitPushWithRetry ex_git_env ''b'' ''u'' ''n'' g2 = (g3, True) \<and>
     map_of (tree_of (gt_remote g1)) ''b/x'' = Some ''9'' \<and> map_of (tree_of (gt_remote g3)) ''b/x'' = Some ''1''"
proof -
  have run: "snd (CommitPushWithRetry ex_git_env ''a'' ''u'' ''m'' ex_git)"
    "map_of (tree_of (gt_remote (fst (CommitPushWithRetry ex_git_env ''a'' ''u'' ''m'' ex_git)))) ''b/x'' = Some ''9''"
    "gt_clock (fst (CommitPushWithRetry ex_git_env ''a'' ''u'' ''m'' ex_git)) = 3"
    by code_simp+
  then obtain g1 where g1: "CommitPushWithRetry ex_git_env ''a'' ''u'' ''m'' ex_git = (g1, True)" by (metis prod.collapse)
  then have "gt_clock g1 = 3" using run(3) by simp
  then have quiet: "\<forall>i \<ge> gt_clock g1. undisturbed ex_git_env i" by (auto simp: undisturbed_def ex_git_env_def)
  have old: "map_of (gt_wt ex_git) ''b/x'' = Some ''1''" by code_simp
  have "''m'' \<noteq> []" "''n'' \<noteq> []" by simp_all
  from stale_worktree_published [OF ex_git_facts(1-3) this(1) g1 ex_git_facts(4) quiet this(2), of "''b''" "''u''"]
  obtain g2 g3 where "Pull ex_git_env g1 = (g2, True)" "CommitPushWithRetry ex_git_env ''b'' ''u'' ''n'' g2 = (g3, True)"
    "map_of (tree_of (gt_remote g3)) ''b/x'' = (if has_prefix ''b/x'' ''b'' then map_of (gt_wt ex_git) ''b/x''
       else map_of (tree_of (gt_remote g1)) ''b/x'')" by blast
  moreover have "has_prefix ''b/x'' ''b''" by (simp add: has_prefix_def)
  ultimately show ?thesis using g1 run(2) old by auto
qed

definition ex_kustom :: "(string, unit) kustom_codec" where
  "ex_kustom = \<lparr>kc_read = (\<lambda>_. DecodedNull), kc_fix = (\<lambda>k. k), kc_write = (\<lambda>k. join_with '','' (ku_Resources k)),
     kc_blank = \<lparr>ku_Resources = [], ku_CommonLabels = [], ku_CommonAnnotations = [], ku_rest = ()\<rparr>\<rparr>"

theorem UpdateContentFunc_refines_witness:
  "\<exists>g'. UpdateContentFunc ex_calm_env [] ex_kustom ''u'' ''a'' ''m'' (PutFiles [(''y.yaml'', ''5'')])
       (ex_git\<lparr>gt_wt := tree_of (gt_remote ex_git)\<rparr>) = (g', GitDone) \<and> synced g' \<and>
     app_files g' ''a'' ''y.yaml'' = Some ''5'' \<and> app_files g' ''b'' ''x'' = Some ''1'' \<and>
     app_files g' ''a'' ''kustomization.yaml'' = Some ''y.yaml''"
proof -
  let ?g = "ex_git\<lparr>gt_wt := tree_of (gt_remote ex_git)\<rparr>"
  have pre: "calm ex_calm_env" "synced ?g" "''a'' \<noteq> []" "CHR ''/'' \<notin> set ''a''" "''m'' \<noteq> []"
    by (simp_all add: calm_def server_up_def undisturbed_def ex_calm_env_def ex_git_env_def synced_def ex_git_def)
  let ?files = "[(''x'', ''1''), (''y.yaml'', ''5''), (''kustomization.yaml'', ''y.yaml'')]"
  have run: "PutFiles [(''y.yaml'', ''5'')] (chroot ''a'' (gt_wt ?g)) = ([(''x'', ''1''), (''y.yaml'', ''5'')], GitDone)"
    "InitOrUpdateKustomization ex_kustom [(''x'', ''1''), (''y.yaml'', ''5'')] = (?files, GitDone)"
    by code_simp+
  have b: "app_files ?g ''b'' ''x'' = Some ''1''" by code_simp
  show ?thesis
    using UpdateContentFunc_refines [OF pre, where act = "PutFiles [(''y.yaml'', ''5'')]" and k = ex_kustom and readme = "[]" and author = "''u''"] run b
    by fastforce
qed

end
