(* ===== verification/App_Store.thy ===== *)
theory App_Store
  imports Git_Repo
begin

text \<open>
  The objects of an application as files: \<open>pkg/apps/application/manifest_contentstore.go\<close>, a store of Kubernetes objects over
  the files of one application, with what \<open>helper.go\<close>, \<open>processor_deploy.go\<close>, \<open>processor_deploy_functions.go\<close>,
  \<open>deploy_updatesuggustion.go\<close> and \<open>manifest_files.go\<close> do to its workloads.

  A file holds an object or some other text; writing an object as YAML without its status and reading it back is
  the identity. The store reads the files once, when it is opened, and looks objects up in what it has read.
  What a reader gets is a copy, or is written back at once; the files are in memory, so writing them does not fail.
\<close>

section \<open>Objects\<close>

record gvk =
  gk_Group :: string
  gk_Version :: string
  gk_Kind :: string

record obj_meta =
  om_Name :: string
  om_Labels :: "(string, string) gomap"
  om_Annotations :: "(string, string) gomap"
  om_Finalizers :: "string list"

record container_port =
  cp_Name :: string
  cp_Protocol :: string
  cp_ContainerPort :: int

record container =
  co_Name :: string
  co_Image :: string
  co_Ports :: "container_port list"
  co_Resources :: string

text \<open>The labels of a template may be missing, and writing to them then panics.\<close>

record pod_template =
  pt_Labels :: "(string, string) gomap option"
  pt_Containers :: "container list"

record workload =
  wl_Replicas :: "int option"
  wl_Selector :: "(string, string) gomap"
  wl_Template :: pod_template
  wl_StrategyType :: string
  wl_Rolling :: "string option"

record svc_port =
  vp_Name :: string
  vp_Protocol :: string
  vp_Port :: int
  vp_TargetPort :: int

record svc_spec =
  ss_Ports :: "svc_port list"
  ss_Selector :: "(string, string) gomap"
  ss_Type :: string
  ss_SessionAffinity :: string
  ss_ExternalTrafficPolicy :: string
  ss_rest :: string

text \<open>The argument of an analysis, a canary step, and what routes the traffic of a canary.\<close>

record analysis_arg =
  aa_Name :: string
  aa_Value :: string
  aa_ValueFrom :: "string option"

datatype canary_step = SetWeight int | Pause | OtherStep string

record istio_routing =
  ir_Name :: string
  ir_Routes :: "string list"
  ir_Headers :: "(string, string) gomap"
  ir_Uri :: "string option"
  ir_IgnoreUriCase :: bool

datatype traffic_routing = IstioRouting istio_routing | OtherRouting string

record canary_strategy =
  cs_CanaryService :: string
  cs_StableService :: string
  cs_Steps :: "canary_step list"
  cs_Analysis :: "analysis_arg list option"
  cs_Traffic :: "traffic_routing option"

record bluegreen_strategy =
  bg_ActiveService :: string
  bg_PreviewService :: string
  bg_PrePromotion :: "analysis_arg list option"

record rollout_spec =
  ro_Selector :: "(string, string) gomap"
  ro_WorkloadRef :: string
  ro_Canary :: "canary_strategy option"
  ro_BlueGreen :: "bluegreen_strategy option"
  ro_Replicas :: "int option"

record route_match =
  rm_Headers :: "(string, string) gomap"
  rm_Uri :: "string option"
  rm_IgnoreUriCase :: bool

record http_route =
  hr_Name :: string
  hr_Match :: "route_match option"
  hr_Destinations :: "(string \<times> int) list"

record hpa_spec =
  hs_MinReplicas :: "int option"
  hs_MaxReplicas :: int
  hs_Target :: "string \<times> string"
  hs_Metrics :: "(string \<times> int) list"

datatype obj_spec =
    Workload workload
  | ServiceObj svc_spec
  | RolloutObj rollout_spec
  | VirtualServiceObj "string list" "http_route list"
  | ScalerObj hpa_spec
  | OtherObj string

record app_object =
  ao_GVK :: gvk
  ao_meta :: obj_meta
  ao_spec :: obj_spec

definition apps_kind :: "string \<Rightarrow> gvk" where
  "apps_kind k = \<lparr>gk_Group = ''apps'', gk_Version = ''v1'', gk_Kind = k\<rparr>"

definition deployment_kind :: gvk where "deployment_kind = apps_kind ''Deployment''"
definition service_kind :: gvk where "service_kind = \<lparr>gk_Group = [], gk_Version = ''v1'', gk_Kind = ''Service''\<rparr>"
definition rollout_kind :: gvk where "rollout_kind = \<lparr>gk_Group = ''argoproj.io'', gk_Version = ''v1alpha1'', gk_Kind = ''Rollout''\<rparr>"
definition virtual_kind :: gvk where
  "virtual_kind = \<lparr>gk_Group = ''networking.istio.io'', gk_Version = ''v1alpha3'', gk_Kind = ''VirtualService''\<rparr>"
definition hpa_kind :: gvk where
  "hpa_kind = \<lparr>gk_Group = ''autoscaling'', gk_Version = ''v2beta2'', gk_Kind = ''HorizontalPodAutoscaler''\<rparr>"

abbreviation ao_Name :: "app_object \<Rightarrow> string" where "ao_Name obj \<equiv> om_Name (ao_meta obj)"

abbreviation obj_key :: "app_object \<Rightarrow> gvk \<times> string" where "obj_key obj \<equiv> (ao_GVK obj, ao_Name obj)"

section \<open>The store\<close>

datatype app_file = Doc app_object | Text string

fun DecodeResource :: "app_file \<Rightarrow> app_object option" where
  "DecodeResource (Doc obj) = Some obj"
| "DecodeResource (Text t) = None"

record fs_store =
  st_fs :: "app_file tree"
  st_resources :: "(string, app_object) gomap"

datatype store_error = BadRequest | AlreadyExists | StoreNotFound | StoreFailed string

fun index_files :: "app_file tree \<Rightarrow> (string, app_object) gomap" where
  "index_files [] = []"
| "index_files ((f, c) # fs) =
     (case DecodeResource c of None \<Rightarrow> index_files fs
      | Some obj \<Rightarrow> if is_yaml f then (f, obj) # index_files fs else index_files fs)"

definition NewGitFsStore :: "app_file tree \<Rightarrow> fs_store" where
  "NewGitFsStore fs = \<lparr>st_fs = fs, st_resources = index_files fs\<rparr>"

definition find_object :: "fs_store \<Rightarrow> gvk \<times> string \<Rightarrow> (string \<times> app_object) option" where
  "find_object c key = find (\<lambda>(f, obj). obj_key obj = key) (st_resources c)"

definition file_for :: "app_object \<Rightarrow> string" where
  "file_for obj = map to_lower (gk_Kind (ao_GVK obj)) @ ''-'' @ ao_Name obj @ ''.yaml''"

definition Create_object :: "fs_store \<Rightarrow> app_object \<Rightarrow> store_error + fs_store" where
  "Create_object c obj =
     (if ao_Name obj = [] then Inl BadRequest
      else if find_object c (obj_key obj) \<noteq> None then Inl AlreadyExists
      else Inr (c\<lparr>st_fs := write_file (file_for obj) (Doc obj) (st_fs c)\<rparr>))"

definition Delete_object :: "fs_store \<Rightarrow> gvk \<times> string \<Rightarrow> store_error + fs_store" where
  "Delete_object c key =
     (case find_object c key of
        Some (f, _) \<Rightarrow> Inr (c\<lparr>st_fs := AList.delete f (st_fs c)\<rparr>)
      | None \<Rightarrow> Inl StoreNotFound)"

definition ListAll :: "fs_store \<Rightarrow> app_object list" where
  "ListAll c = map snd (st_resources c)"

definition List_objects :: "fs_store \<Rightarrow> gvk \<Rightarrow> app_object list" where
  "List_objects c kind = filter (\<lambda>obj. ao_GVK obj = kind) (ListAll c)"

definition Get_object :: "fs_store \<Rightarrow> gvk \<times> string \<Rightarrow> store_error + app_object" where
  "Get_object c key = (case find_object c key of Some (_, obj) \<Rightarrow> Inr obj | None \<Rightarrow> Inl StoreNotFound)"

definition Update_object :: "fs_store \<Rightarrow> app_object \<Rightarrow> store_error + fs_store" where
  "Update_object c obj =
     (case find_object c (obj_key obj) of
        Some (f, _) \<Rightarrow> Inr (c\<lparr>st_fs := write_file f (Doc obj) (st_fs c)\<rparr>)
      | None \<Rightarrow> Inl StoreNotFound)"

text \<open>A patch of a type the store knows is a function of the text, which may not apply; a missing object is no error.\<close>

datatype 'p patch = KnownPatch 'p | OtherPatch string

definition Patch_object :: "('p \<Rightarrow> app_object \<Rightarrow> app_object option) \<Rightarrow> fs_store \<Rightarrow> gvk \<times> string \<Rightarrow> 'p patch \<Rightarrow> store_error + fs_store" where
  "Patch_object apply_patch c key p =
     (case find_object c key of
        None \<Rightarrow> Inr c
      | Some (f, obj) \<Rightarrow>
          (case p of
             OtherPatch t \<Rightarrow> Inl (StoreFailed t)
           | KnownPatch q \<Rightarrow>
               (case apply_patch q obj of
                  None \<Rightarrow> Inl (StoreFailed [])
                | Some patched \<Rightarrow> Inr (c\<lparr>st_fs := write_file f (Doc patched) (st_fs c)\<rparr>))))"

text \<open>A function on the store as one on the files; what it has written stays when it fails.\<close>

definition FSStoreFunc :: "(fs_store \<Rightarrow> fs_store \<times> git_result) \<Rightarrow> app_file tree \<Rightarrow> app_file tree \<times> git_result" where
  "FSStoreFunc f fs = (case f (NewGitFsStore fs) of (c, r) \<Rightarrow> (st_fs c, r))"

text \<open>The same, on the files of an application in its repository: looked at, or changed and published.\<close>

definition StoreFunc ::
  "app_file git_env \<Rightarrow> app_file \<Rightarrow> string \<Rightarrow> (fs_store \<Rightarrow> fs_store \<times> git_result) \<Rightarrow> app_file git \<Rightarrow> app_file git \<times> git_result" where
  "StoreFunc env readme path f g = ContentFunc env readme path (FSStoreFunc f) g"

definition StoreUpdateFunc ::
  "app_file git_env \<Rightarrow> app_file \<Rightarrow> (app_file, 'r) kustom_codec \<Rightarrow> string \<Rightarrow> string \<Rightarrow> string
    \<Rightarrow> (fs_store \<Rightarrow> fs_store \<times> git_result) \<Rightarrow> app_file git \<Rightarrow> app_file git \<times> git_result" where
  "StoreUpdateFunc env readme k author path commitmsg f g = UpdateContentFunc env readme k author path commitmsg (FSStoreFunc f) g"

section \<open>Workloads\<close>

definition kindPriorityMap :: "string \<Rightarrow> int option" where
  "kindPriorityMap k =
     map_of [(''Replicaset'', 0), (''Job'', 1), (''CronJob'', 2), (''Deployment'', 3), (''StatefulSet'', 4), (''DaemonSet'', 5)] k"

definition mainWorkloadByPriority :: "app_object list \<Rightarrow> app_object option" where
  "mainWorkloadByPriority objs =
     fst (foldl (\<lambda>(ret, priority) obj. case kindPriorityMap (gk_Kind (ao_GVK obj)) of
              None \<Rightarrow> (ret, priority)
            | Some p \<Rightarrow> if p > priority then (Some obj, p) else (ret, priority)) (None, -1) objs)"

definition ParseMainWorkload :: "fs_store \<Rightarrow> app_object option" where
  "ParseMainWorkload c = mainWorkloadByPriority (ListAll c)"

definition ParseMainDeployment :: "fs_store \<Rightarrow> (app_object \<times> workload) option" where
  "ParseMainDeployment c =
     (case List_objects c deployment_kind of
        [obj] \<Rightarrow> (case ao_spec obj of Workload w \<Rightarrow> Some (obj, w) | _ \<Rightarrow> None)
      | _ \<Rightarrow> None)"

text \<open>The kinds whose template is looked at.\<close>

definition template_kinds :: "gvk list" where
  "template_kinds = map apps_kind [''Deployment'', ''DaemonSet'', ''StatefulSet'', ''ReplicaSet''] @
     [\<lparr>gk_Group = ''batch'', gk_Version = ''v1'', gk_Kind = ''Job''\<rparr>, \<lparr>gk_Group = ''batch'', gk_Version = ''v1beta1'', gk_Kind = ''CronJob''\<rparr>]"

definition ObjectPodTemplateFunc :: "app_object \<Rightarrow> (pod_template \<Rightarrow> pod_template option) \<Rightarrow> app_object option \<times> bool" where
  "ObjectPodTemplateFunc obj f =
     (case ao_spec obj of
        Workload w \<Rightarrow>
          if ao_GVK obj \<in> set template_kinds
          then (map_option (\<lambda>t. obj\<lparr>ao_spec := Workload (w\<lparr>wl_Template := t\<rparr>)\<rparr>) (f (wl_Template w)), True)
          else (Some obj, False)
      | _ \<Rightarrow> (Some obj, False))"

definition LabelIstioVersion :: string where "LabelIstioVersion = ''version''"

text \<open>Whether an image stands for another is a function of Argo CD.\<close>

definition UpdateImage :: "(string \<Rightarrow> string \<Rightarrow> bool) \<Rightarrow> pod_template \<Rightarrow> string list \<Rightarrow> pod_template" where
  "UpdateImage img_matches t images =
     t\<lparr>pt_Containers := map (\<lambda>c. foldl (\<lambda>c' image. if img_matches (co_Image c) image then c'\<lparr>co_Image := image\<rparr> else c') c images)
         (pt_Containers t)\<rparr>"

definition update_template :: "(string \<Rightarrow> string \<Rightarrow> bool) \<Rightarrow> string list \<Rightarrow> string \<Rightarrow> pod_template \<Rightarrow> pod_template option" where
  "update_template img_matches images version t =
     (case pt_Labels t of
        None \<Rightarrow> None
      | Some ls \<Rightarrow> Some ((UpdateImage img_matches t images)\<lparr>pt_Labels := Some (AList.update LabelIstioVersion version ls)\<rparr>))"

fun update_all :: "(app_object \<Rightarrow> app_object option \<times> bool) \<Rightarrow> app_object list \<Rightarrow> fs_store \<Rightarrow> fs_store \<times> git_result" where
  "update_all f [] c = (c, GitDone)"
| "update_all f (obj # objs) c =
     (case f obj of
        (None, _) \<Rightarrow> (c, GitPanicked)
      | (Some obj', False) \<Rightarrow> update_all f objs c
      | (Some obj', True) \<Rightarrow> (case Update_object c obj' of Inl e \<Rightarrow> (c, GitFailed) | Inr c' \<Rightarrow> update_all f objs c'))"

definition UpdateContentImages :: "(string \<Rightarrow> string \<Rightarrow> bool) \<Rightarrow> string list \<Rightarrow> string \<Rightarrow> fs_store \<Rightarrow> fs_store \<times> git_result" where
  "UpdateContentImages img_matches images version c =
     update_all (\<lambda>obj. ObjectPodTemplateFunc obj (update_template img_matches images version)) (ListAll c) c"

definition ParseImagesFrom :: "app_object \<Rightarrow> string list" where
  "ParseImagesFrom obj =
     (case ao_spec obj of
        Workload w \<Rightarrow> if ao_GVK obj \<in> set template_kinds then map co_Image (pt_Containers (wl_Template w)) else []
      | _ \<Rightarrow> [])"

text \<open>Resources as suggested by name, and whether anything was.\<close>

definition UpdatedReourcesLimits :: "app_object \<Rightarrow> (string \<times> string) list \<Rightarrow> app_object \<times> bool" where
  "UpdatedReourcesLimits obj suggested =
     (case ao_spec obj of
        Workload w \<Rightarrow>
          if ao_GVK obj \<in> set template_kinds
          then let cs = pt_Containers (wl_Template w);
                   cs' = map (\<lambda>c. foldl (\<lambda>c' (n, r). if n = co_Name c then c'\<lparr>co_Resources := r\<rparr> else c') c suggested) cs
               in (obj\<lparr>ao_spec := Workload (w\<lparr>wl_Template := (wl_Template w)\<lparr>pt_Containers := cs'\<rparr>\<rparr>)\<rparr>,
                   list_ex (\<lambda>c. co_Name c \<in> set (map fst suggested)) cs)
          else (obj, False)
      | _ \<Rightarrow> (obj, False))"

definition scalable_kinds :: "gvk list" where
  "scalable_kinds = [deployment_kind, apps_kind ''StatefulSet'']"

definition GetReplicas :: "fs_store \<Rightarrow> int option" where
  "GetReplicas c =
     (case ParseMainWorkload c of
        Some obj \<Rightarrow> (case ao_spec obj of Workload w \<Rightarrow> if ao_GVK obj \<in> set scalable_kinds then wl_Replicas w else None | _ \<Rightarrow> None)
      | None \<Rightarrow> None)"

definition of_store :: "fs_store \<Rightarrow> store_error + fs_store \<Rightarrow> fs_store \<times> git_result" where
  "of_store c r = (case r of Inl e \<Rightarrow> (c, GitFailed) | Inr c' \<Rightarrow> (c', GitDone))"

text \<open>Without any workload the message of the error reads from nothing.\<close>

definition SetReplicas :: "int option \<Rightarrow> fs_store \<Rightarrow> fs_store \<times> git_result" where
  "SetReplicas replicas c =
     (case ParseMainWorkload c of
        None \<Rightarrow> (c, GitPanicked)
      | Some obj \<Rightarrow>
          (case ao_spec obj of
             Workload w \<Rightarrow>
               if ao_GVK obj \<in> set scalable_kinds
               then of_store c (Update_object c (obj\<lparr>ao_spec := Workload (w\<lparr>wl_Replicas := replicas\<rparr>)\<rparr>))
               else (c, GitFailed)
           | _ \<Rightarrow> (c, GitFailed)))"

definition FormatHPAName :: "string \<Rightarrow> string \<Rightarrow> string" where
  "FormatHPAName kind target =
     (let k = (if map to_lower kind = ''deployment'' then ''dep'' else if map to_lower kind = ''statefulset'' then ''sts'' else [])
      in ''hpa-'' @ k @ ''-'' @ target)"

definition hpa_metrics :: "int \<Rightarrow> int \<Rightarrow> (string \<times> int) list" where
  "hpa_metrics cpu memory = (if cpu > 0 then [(''cpu'', cpu)] else []) @ (if memory > 0 then [(''memory'', memory)] else [])"

definition SetHorizontalPodAutoscaler :: "int option \<Rightarrow> int \<Rightarrow> int \<Rightarrow> int \<Rightarrow> fs_store \<Rightarrow> fs_store \<times> git_result" where
  "SetHorizontalPodAutoscaler minimum maximum cpu memory c =
     (case ParseMainWorkload c of
        None \<Rightarrow> (c, GitPanicked)
      | Some obj \<Rightarrow>
          if ao_GVK obj \<notin> set (\<lparr>gk_Group = ''batch'', gk_Version = ''v1'', gk_Kind = ''Job''\<rparr> # scalable_kinds) then (c, GitFailed)
          else let kind = gk_Kind (ao_GVK obj);
                   name = FormatHPAName kind (ao_Name obj);
                   spec = ScalerObj \<lparr>hs_MinReplicas = minimum, hs_MaxReplicas = maximum, hs_Target = (kind, ao_Name obj),
                     hs_Metrics = hpa_metrics cpu memory\<rparr>
               in case Get_object c (hpa_kind, name) of
                    Inl e \<Rightarrow> of_store c (Create_object c \<lparr>ao_GVK = hpa_kind,
                      ao_meta = \<lparr>om_Name = name, om_Labels = [], om_Annotations = [], om_Finalizers = []\<rparr>, ao_spec = spec\<rparr>)
                  | Inr exist \<Rightarrow>
                      if ao_spec exist = spec then (c, GitDone) else of_store c (Update_object c (exist\<lparr>ao_spec := spec\<rparr>)))"

definition DeleteHorizontalPodAutoscaler :: "fs_store \<Rightarrow> fs_store \<times> git_result" where
  "DeleteHorizontalPodAutoscaler c =
     (foldl (\<lambda>c obj. fst (of_store c (Delete_object c (obj_key obj)))) c (List_objects c hpa_kind), GitDone)"

section \<open>What the next reader finds\<close>

text \<open>The objects of the files, by kind and name, and files in which no key occurs twice.\<close>

definition objects :: "app_file tree \<Rightarrow> gvk \<times> string \<Rightarrow> app_object option" where
  "objects fs key = map_option snd (find_object (NewGitFsStore fs) key)"

definition doc_keys :: "app_file tree \<Rightarrow> (gvk \<times> string) list" where
  "doc_keys fs = map (\<lambda>(f, obj). obj_key obj) (index_files fs)"

definition wf_files :: "app_file tree \<Rightarrow> bool" where
  "wf_files fs \<longleftrightarrow> wf_map fs \<and> distinct (doc_keys fs)"

lemma store_fields [simp]: "st_fs (NewGitFsStore fs) = fs" "st_resources (NewGitFsStore fs) = index_files fs"
  by (simp_all add: NewGitFsStore_def)

lemma index_append [simp]: "index_files (a @ b) = index_files a @ index_files b"
  by (induction a rule: index_files.induct) (auto split: option.split)

lemma index_mem: "(f, obj) \<in> set (index_files fs) \<longleftrightarrow> (f, Doc obj) \<in> set fs \<and> is_yaml f"
proof (induction fs rule: index_files.induct)
  case (2 g c fs)
  then show ?case by (cases c) auto
qed simp

lemma is_yaml_file_for [simp]: "is_yaml (file_for obj)"
  by (simp add: is_yaml_def file_for_def suffix_def)

lemma find_object_mem:
  "find_object c key = Some (f, obj) \<Longrightarrow> (f, obj) \<in> set (st_resources c) \<and> obj_key obj = key"
  by (auto simp: find_object_def find_Some_iff in_set_conv_nth)

lemma find_object_None: "find_object c key = None \<longleftrightarrow> key \<notin> (\<lambda>(f, obj). obj_key obj) ` set (st_resources c)"
  by (auto simp: find_object_def find_None_iff)

lemma find_object_distinct:
  assumes "distinct (map (\<lambda>(f, obj). obj_key obj) (st_resources c))" "(f, obj) \<in> set (st_resources c)"
  shows "find_object c (obj_key obj) = Some (f, obj)"
proof -
  obtain f' obj' where found: "find_object c (obj_key obj) = Some (f', obj')"
    using assms(2) find_object_None [of c "obj_key obj"] by (cases "find_object c (obj_key obj)") force+
  then have "(f', obj') \<in> set (st_resources c)" "obj_key obj' = obj_key obj" using find_object_mem by blast+
  then have "(f', obj') = (f, obj)"
    using assms inj_onD [of "\<lambda>(f, obj). obj_key obj" "set (st_resources c)" "(f', obj')" "(f, obj)"] unfolding distinct_map by simp
  then show ?thesis using found by simp
qed

lemma objects_iff:
  assumes "wf_files fs"
  shows "objects fs key = Some obj \<longleftrightarrow> (\<exists>f. (f, Doc obj) \<in> set fs \<and> is_yaml f \<and> obj_key obj = key)"
proof
  assume "objects fs key = Some obj"
  then obtain f where "find_object (NewGitFsStore fs) key = Some (f, obj)" by (auto simp: objects_def)
  then show "\<exists>f. (f, Doc obj) \<in> set fs \<and> is_yaml f \<and> obj_key obj = key"
    using find_object_mem [of "NewGitFsStore fs" key f obj] by (auto simp: index_mem)
next
  assume "\<exists>f. (f, Doc obj) \<in> set fs \<and> is_yaml f \<and> obj_key obj = key"
  then obtain f where "(f, obj) \<in> set (index_files fs)" "obj_key obj = key" by (auto simp: index_mem)
  then show "objects fs key = Some obj"
    using find_object_distinct [of "NewGitFsStore fs" f obj] assms by (simp add: objects_def wf_files_def doc_keys_def)
qed

lemma objects_None: "objects fs key = None \<longleftrightarrow> key \<notin> set (doc_keys fs)"
  using find_object_None [of "NewGitFsStore fs" key] by (simp add: objects_def doc_keys_def image_image)

text \<open>Writing an object to a file that is new or had an object of the same key, and removing the file of one.\<close>

lemma update_new: "k \<notin> fst ` set m \<Longrightarrow> AList.update k v m = m @ [(k, v)]"
  by (induction m) auto

lemma index_update:
  assumes "wf_map fs" "(f, Doc old) \<in> set fs" "is_yaml f" "obj_key obj = obj_key old"
  shows "doc_keys (AList.update f (Doc obj) fs) = doc_keys fs"
  using assms
proof (induction fs rule: index_files.induct)
  case (2 g c fs)
  then show ?case by (cases c) (auto simp: doc_keys_def rev_image_eqI split: option.split)
qed simp

lemma index_delete: "index_files (AList.delete f fs) = filter (\<lambda>x. fst x \<noteq> f) (index_files fs)"
proof (induction fs rule: index_files.induct)
  case (2 g c fs)
  then show ?case by (cases c) auto
qed simp

lemma objects_index:
  assumes "wf_files fs"
  shows "objects fs key = Some obj \<longleftrightarrow> (\<exists>f. (f, obj) \<in> set (index_files fs) \<and> obj_key obj = key)"
  using objects_iff [OF assms, of key obj] by (auto simp: index_mem)

lemma index_update_mem:
  assumes "wf_map fs" "is_yaml f"
  shows "(g, v) \<in> set (index_files (AList.update f (Doc obj) fs)) \<longleftrightarrow> (g = f \<and> v = obj) \<or> (g \<noteq> f \<and> (g, v) \<in> set (index_files fs))"
proof -
  have "(g, c) \<in> set (AList.update f (Doc obj) fs) \<longleftrightarrow> (if g = f then c = Doc obj else (g, c) \<in> set fs)" for c
    using assms(1) map_of_mem [of "AList.update f (Doc obj) fs" g c] map_of_mem [of fs g c]
    by (auto simp del: map_of_eq_Some_iff)
  then show ?thesis using assms(2) by (auto simp: index_mem)
qed

text \<open>In files without repeated keys the file of a key is the only one with it.\<close>

lemma key_file:
  assumes "wf_files fs" "find_object (NewGitFsStore fs) k = Some (f, old)" "(g, v) \<in> set (index_files fs)"
  shows "obj_key v = k \<longleftrightarrow> g = f"
proof
  assume "obj_key v = k"
  then show "g = f"
    using find_object_distinct [of "NewGitFsStore fs" g v] assms by (simp add: wf_files_def doc_keys_def)
next
  assume "g = f"
  moreover have "(f, old) \<in> set (index_files fs)" "obj_key old = k" using find_object_mem [OF assms(2)] by simp_all
  ultimately show "obj_key v = k"
    using assms(1,3) by (auto simp: index_mem wf_files_def dest: eq_key_imp_eq_value)
qed

lemma objects_eqI:
  assumes "\<And>k v. objects fs k = Some v \<longleftrightarrow> m k = Some v"
  shows "objects fs = m"
  using assms by (intro ext) (metis not_Some_eq)

text \<open>The store as a partial map: what its operations promise, once it is opened again.\<close>

locale git_store =
  fixes valid :: "'f \<Rightarrow> bool" and look :: "'f \<Rightarrow> 'k \<Rightarrow> 'o option"
    and insert_at update_at :: "'f \<Rightarrow> 'k \<Rightarrow> 'o \<Rightarrow> 'f option" and delete_at :: "'f \<Rightarrow> 'k \<Rightarrow> 'f option"
  assumes inserted: "valid fs \<Longrightarrow> insert_at fs k v = Some fs' \<Longrightarrow> valid fs' \<and> look fs k = None \<and> look fs' = (look fs)(k \<mapsto> v)"
    and updated: "valid fs \<Longrightarrow> update_at fs k v = Some fs' \<Longrightarrow> valid fs' \<and> look fs k \<noteq> None \<and> look fs' = (look fs)(k \<mapsto> v)"
    and deleted: "valid fs \<Longrightarrow> delete_at fs k = Some fs' \<Longrightarrow> valid fs' \<and> look fs k \<noteq> None \<and> look fs' = (look fs)(k := None)"
begin

lemma insert_delete: "valid fs \<Longrightarrow> insert_at fs k v = Some fs' \<Longrightarrow> delete_at fs' k = Some fs'' \<Longrightarrow> look fs'' = look fs"
  using inserted [of fs k v fs'] deleted [of fs' k fs''] by auto

lemma update_update: "valid fs \<Longrightarrow> update_at fs k v = Some fs' \<Longrightarrow> update_at fs' k u = Some fs'' \<Longrightarrow> look fs'' = (look fs)(k \<mapsto> u)"
  using updated [of fs k v fs'] updated [of fs' k u fs''] by auto

lemma others: "valid fs \<Longrightarrow> update_at fs k v = Some fs' \<Longrightarrow> k' \<noteq> k \<Longrightarrow> look fs' k' = look fs k'"
  using updated [of fs k v fs'] by auto

end

definition saved :: "store_error + fs_store \<Rightarrow> app_file tree option" where
  "saved r = (case r of Inl e \<Rightarrow> None | Inr c \<Rightarrow> Some (st_fs c))"

definition insert_object :: "app_file tree \<Rightarrow> gvk \<times> string \<Rightarrow> app_object \<Rightarrow> app_file tree option" where
  "insert_object fs k obj =
     (if obj_key obj = k \<and> map_of fs (file_for obj) = None then saved (Create_object (NewGitFsStore fs) obj) else None)"

definition replace_object :: "app_file tree \<Rightarrow> gvk \<times> string \<Rightarrow> app_object \<Rightarrow> app_file tree option" where
  "replace_object fs k obj = (if obj_key obj = k then saved (Update_object (NewGitFsStore fs) obj) else None)"

lemma doc_keys_append_new:
  "map_of fs f = None \<Longrightarrow> is_yaml f \<Longrightarrow> doc_keys (AList.update f (Doc obj) fs) = doc_keys fs @ [obj_key obj]"
  by (simp add: update_new map_of_eq_None_iff doc_keys_def)

lemma insert_object_facts:
  assumes "wf_files fs" "insert_object fs k obj = Some fs'"
  shows "wf_files fs' \<and> objects fs k = None \<and> objects fs' = (objects fs)(k \<mapsto> obj)"
proof -
  have key: "obj_key obj = k" "map_of fs (file_for obj) = None" "objects fs k = None"
    and fs': "fs' = AList.update (file_for obj) (Doc obj) fs"
    using assms(2) by (auto simp: insert_object_def saved_def Create_object_def write_file_def objects_def
        split: if_splits simp del: not_None_eq)
  then have wf': "wf_files fs'"
    using assms(1) doc_keys_append_new [OF key(2), of obj] objects_None [of fs k] by (simp add: wf_files_def)
  have idx: "(g, v) \<in> set (index_files fs') \<longleftrightarrow> (g = file_for obj \<and> v = obj) \<or> (g, v) \<in> set (index_files fs)" for g v
    using key(2) by (auto simp: fs' update_new map_of_eq_None_iff)
  have fresh: "obj_key v \<noteq> k" if "(g, v) \<in> set (index_files fs)" for g v
    using that key(3) objects_index [OF assms(1), of k v] by auto
  have "objects fs' = (objects fs)(k \<mapsto> obj)"
  proof (rule objects_eqI)
    fix k' v
    show "objects fs' k' = Some v \<longleftrightarrow> ((objects fs)(k \<mapsto> obj)) k' = Some v"
      using objects_index [OF wf', of k' v] objects_index [OF assms(1), of k' v] fresh key(1) unfolding idx
      by (cases "k' = k") auto
  qed
  then show ?thesis using wf' key(3) by blast
qed

lemma replace_object_facts:
  assumes "wf_files fs" "replace_object fs k obj = Some fs'"
  shows "wf_files fs' \<and> objects fs k \<noteq> None \<and> objects fs' = (objects fs)(k \<mapsto> obj)"
proof -
  obtain f old where key: "obj_key obj = k" "find_object (NewGitFsStore fs) k = Some (f, old)"
    and fs': "fs' = AList.update f (Doc obj) fs"
    using assms(2) by (auto simp: replace_object_def saved_def Update_object_def write_file_def split: if_splits option.splits)
  have old: "(f, Doc old) \<in> set fs" "is_yaml f" "obj_key old = k" using find_object_mem [OF key(2)] by (auto simp: index_mem)
  have wf': "wf_files fs'"
    using assms(1) index_update [of fs f old obj] old key(1) by (simp add: wf_files_def fs')
  have idx: "(g, v) \<in> set (index_files fs') \<longleftrightarrow> (g = f \<and> v = obj) \<or> (g \<noteq> f \<and> (g, v) \<in> set (index_files fs))" for g v
    using assms(1) old(2) by (simp add: fs' index_update_mem wf_files_def)
  have "objects fs' = (objects fs)(k \<mapsto> obj)"
  proof (rule objects_eqI)
    fix k' v
    show "objects fs' k' = Some v \<longleftrightarrow> ((objects fs)(k \<mapsto> obj)) k' = Some v"
      using objects_index [OF wf', of k' v] objects_index [OF assms(1), of k' v] key_file [OF assms(1) key(2)] key(1) unfolding idx
      by (cases "k' = k") auto
  qed
  then show ?thesis using wf' key(2) by (auto simp: objects_def)
qed

lemma delete_object_facts:
  assumes "wf_files fs" "saved (Delete_object (NewGitFsStore fs) k) = Some fs'"
  shows "wf_files fs' \<and> objects fs k \<noteq> None \<and> objects fs' = (objects fs)(k := None)"
proof -
  obtain f old where found: "find_object (NewGitFsStore fs) k = Some (f, old)" and fs': "fs' = AList.delete f fs"
    using assms(2) by (auto simp: saved_def Delete_object_def split: option.splits)
  have docs: "doc_keys fs' = map (\<lambda>(f, obj). obj_key obj) (filter (\<lambda>x. fst x \<noteq> f) (index_files fs))"
    by (simp add: doc_keys_def fs' index_delete)
  then have wf': "wf_files fs'" using assms(1) by (simp add: wf_files_def fs' distinct_map_filter doc_keys_def)
  have idx: "(g, v) \<in> set (index_files fs') \<longleftrightarrow> (g, v) \<in> set (index_files fs) \<and> g \<noteq> f" for g v by (auto simp: fs' index_delete)
  have "objects fs' = (objects fs)(k := None)"
  proof (rule objects_eqI)
    fix k' v
    show "objects fs' k' = Some v \<longleftrightarrow> ((objects fs)(k := None)) k' = Some v"
      using objects_index [OF wf', of k' v] objects_index [OF assms(1), of k' v] key_file [OF assms(1) found] unfolding idx
      by (cases "k' = k") auto
  qed
  then show ?thesis using wf' found by (auto simp: objects_def)
qed

interpretation files: git_store wf_files objects insert_object replace_object "\<lambda>fs k. saved (Delete_object (NewGitFsStore fs) k)"
  by unfold_locales (fact insert_object_facts replace_object_facts delete_object_facts)+


section \<open>New images\<close>

lemma update_present:
  "wf_map fs \<Longrightarrow> f \<in> fst ` set fs \<Longrightarrow> AList.update f v fs = map (\<lambda>(g, c). (g, if g = f then v else c)) fs"
proof (induction fs)
  case (Cons a fs)
  have "map (\<lambda>(g, c). (g, if g = f then v else c)) fs = fs" if "f \<notin> fst ` set fs"
    using that by (induction fs) auto
  then show ?case using Cons by (cases a) auto
qed simp

lemma update_all_files:
  assumes "\<And>obj. \<not> b obj \<Longrightarrow> g obj = obj" "\<And>obj. obj_key (g obj) = obj_key obj"
    and "distinct (map (\<lambda>(f, obj). obj_key obj) (st_resources c))" "set xs \<subseteq> set (st_resources c)" "distinct (map fst xs)"
    and "wf_map (st_fs c)" "\<And>h obj. (h, obj) \<in> set xs \<Longrightarrow> (h, Doc obj) \<in> set (st_fs c)"
    and "\<And>h obj. (h, obj) \<in> set xs \<Longrightarrow> f obj = (Some (g obj), b obj)"
  shows "update_all f (map snd xs) c =
    (c\<lparr>st_fs := map (\<lambda>(h, d). (h, case map_of xs h of Some obj \<Rightarrow> Doc (g obj) | None \<Rightarrow> d)) (st_fs c)\<rparr>, GitDone)"
  using assms(3-)
proof (induction xs arbitrary: c)
  case Nil
  then show ?case by simp
next
  case (Cons x xs)
  obtain h obj where x: "x = (h, obj)" by (cases x)
  let ?fs = "map (\<lambda>(h', d). (h', if h' = h then Doc (g obj) else d)) (st_fs c)"
  have found: "find_object c (obj_key obj) = Some (h, obj)"
    using find_object_distinct [of c h obj] Cons.prems(1,2) x by simp
  have there: "(h, Doc obj) \<in> set (st_fs c)" using Cons.prems(5) x by simp
  have step: "update_all f (map snd (x # xs)) c = update_all f (map snd xs) (c\<lparr>st_fs := ?fs\<rparr>)"
  proof (cases "b obj")
    case True
    have key: "find_object c (obj_key (g obj)) = Some (h, obj)" using found by (simp only: assms(2))
    have "write_file h (Doc (g obj)) (st_fs c) = ?fs"
      unfolding write_file_def using Cons.prems(4) there by (intro update_present) force+
    then show ?thesis using Cons.prems(6) [of h obj] True key by (simp add: x Update_object_def)
  next
    case False
    have "(h', if h' = h then Doc obj else d) = (h', d)" if "(h', d) \<in> set (st_fs c)" for h' d
      using that there Cons.prems(4) by (auto dest: eq_key_imp_eq_value)
    then have "?fs = st_fs c" unfolding assms(1) [OF False] by (intro map_idI) auto
    then have "c\<lparr>st_fs := ?fs\<rparr> = c" by (cases c) simp
    moreover have "update_all f (map snd (x # xs)) c = update_all f (map snd xs) c" using Cons.prems(6) [of h obj] False by (simp add: x)
    ultimately show ?thesis by metis
  qed
  let ?c = "c\<lparr>st_fs := ?fs\<rparr>"
  have fsts: "map fst ?fs = map fst (st_fs c)" by (simp add: case_prod_unfold comp_def)
  have sel: "st_fs ?c = ?fs" by simp
  have wf: "wf_map (st_fs ?c)" unfolding sel fsts by (rule Cons.prems(4))
  have docs: "(h', Doc obj') \<in> set (st_fs ?c)" if "(h', obj') \<in> set xs" for h' obj'
  proof -
    have "h' \<noteq> h" using that Cons.prems(3) x by force
    then show ?thesis using that Cons.prems(5) by force
  qed
  have run: "update_all f (map snd xs) ?c = (?c\<lparr>st_fs := map (\<lambda>(h, d). (h, case map_of xs h of Some obj \<Rightarrow> Doc (g obj) | None \<Rightarrow> d)) (st_fs ?c)\<rparr>, GitDone)"
    by (rule Cons.IH [OF _ _ _ wf docs]) (use Cons.prems in auto)
  have "map_of xs h = None" using Cons.prems(3) x by (simp add: map_of_eq_None_iff)
  then have eq: "map (\<lambda>(h, d). (h, case map_of xs h of Some obj \<Rightarrow> Doc (g obj) | None \<Rightarrow> d)) ?fs =
      map (\<lambda>(h, d). (h, case map_of (x # xs) h of Some obj \<Rightarrow> Doc (g obj) | None \<Rightarrow> d)) (st_fs c)"
    by (auto simp: x comp_def split: option.split)
  show ?case unfolding step run sel eq by simp
qed

text \<open>An object with its images: every container takes the last of the new ones that stands for its old one, and every template the version.\<close>

definition with_images :: "(string \<Rightarrow> string \<Rightarrow> bool) \<Rightarrow> string list \<Rightarrow> string \<Rightarrow> app_object \<Rightarrow> app_object" where
  "with_images img_matches images version obj =
     (case ao_spec obj of
        Workload w \<Rightarrow>
          if ao_GVK obj \<in> set template_kinds
          then obj\<lparr>ao_spec := Workload (w\<lparr>wl_Template :=
            \<lparr>pt_Labels = map_option (AList.update LabelIstioVersion version) (pt_Labels (wl_Template w)),
             pt_Containers = map (\<lambda>c. c\<lparr>co_Image := last (co_Image c # filter (img_matches (co_Image c)) images)\<rparr>)
               (pt_Containers (wl_Template w))\<rparr>\<rparr>)\<rparr>
          else obj
      | _ \<Rightarrow> obj)"

definition has_labels :: "app_object \<Rightarrow> bool" where
  "has_labels obj \<longleftrightarrow>
     (case ao_spec obj of Workload w \<Rightarrow> ao_GVK obj \<in> set template_kinds \<longrightarrow> pt_Labels (wl_Template w) \<noteq> None | _ \<Rightarrow> True)"

lemma last_matching:
  "foldl (\<lambda>c' image. if P image then c'\<lparr>co_Image := image\<rparr> else c') c images =
    c\<lparr>co_Image := last (co_Image c # filter P images)\<rparr>"
proof (induction images arbitrary: c)
  case Nil
  then show ?case by (cases c) simp
next
  case (Cons a images)
  then show ?case by (cases "filter P images") simp_all
qed

lemma template_with_images:
  assumes "has_labels obj"
  shows "ObjectPodTemplateFunc obj (update_template img_matches images version) =
    (Some (with_images img_matches images version obj),
     case ao_spec obj of Workload w \<Rightarrow> ao_GVK obj \<in> set template_kinds | _ \<Rightarrow> False)"
proof (cases "ao_spec obj")
  case (Workload w)
  then show ?thesis
    using assms by (cases "wl_Template w")
      (auto simp: ObjectPodTemplateFunc_def update_template_def UpdateImage_def with_images_def has_labels_def last_matching)
qed (simp_all add: ObjectPodTemplateFunc_def with_images_def)

text \<open>C34: Setting images on the files of an application whose templates have labels changes, of all files, just those that hold a workload:
  every container takes the last new image that stands for its old one, or keeps it, and every template the version, also an
  empty one. Read again, every workload has just these images.\<close>

theorem UpdateContentImages_sets:
  assumes "wf_files fs" "\<forall>(f, obj) \<in> set (index_files fs). has_labels obj"
  shows "FSStoreFunc (UpdateContentImages img_matches images version) fs =
    (map (\<lambda>(f, d). (f, case d of Doc obj \<Rightarrow> if is_yaml f then Doc (with_images img_matches images version obj) else d | _ \<Rightarrow> d)) fs, GitDone) \<and>
    (\<forall>f obj. (f, obj) \<in> set (index_files fs) \<longrightarrow>
       ParseImagesFrom (with_images img_matches images version obj) =
         map (\<lambda>image. last (image # filter (img_matches image) images)) (ParseImagesFrom obj))"
proof -
  let ?g = "with_images img_matches images version"
  have wf: "wf_map fs" and keys: "distinct (map (\<lambda>(f, obj). obj_key obj) (index_files fs))"
    using assms(1) by (simp_all add: wf_files_def doc_keys_def)
  have "distinct (map fst (index_files fs))"
    using wf
  proof (induction fs rule: index_files.induct)
    case (2 f c fs)
    then show ?case by (cases c) (force simp: index_mem)+
  qed simp
  moreover have "?g obj = obj" if "\<not> (case ao_spec obj of Workload w \<Rightarrow> ao_GVK obj \<in> set template_kinds | _ \<Rightarrow> False)" for obj
    using that by (auto simp: with_images_def split: obj_spec.splits)
  moreover have "obj_key (?g obj) = obj_key obj" for obj by (simp add: with_images_def split: obj_spec.split)
  ultimately have run: "update_all (\<lambda>obj. ObjectPodTemplateFunc obj (update_template img_matches images version)) (map snd (index_files fs)) (NewGitFsStore fs) =
      ((NewGitFsStore fs)\<lparr>st_fs := map (\<lambda>(h, d). (h, case map_of (index_files fs) h of Some obj \<Rightarrow> Doc (?g obj) | None \<Rightarrow> d)) fs\<rparr>, GitDone)"
    using update_all_files [of "\<lambda>obj. case ao_spec obj of Workload w \<Rightarrow> ao_GVK obj \<in> set template_kinds | _ \<Rightarrow> False" ?g
        "NewGitFsStore fs" "index_files fs" "\<lambda>obj. ObjectPodTemplateFunc obj (update_template img_matches images version)"]
      keys wf template_with_images assms(2) by (fastforce simp: index_mem)
  have "(case map_of (index_files fs) f of Some obj \<Rightarrow> Doc (?g obj) | None \<Rightarrow> d) =
      (case d of Doc obj \<Rightarrow> if is_yaml f then Doc (?g obj) else d | _ \<Rightarrow> d)" if "(f, d) \<in> set fs" for f d
  proof (cases "map_of (index_files fs) f")
    case None
    then have "(f, obj) \<notin> set (index_files fs)" for obj by (metis map_of_eq_None_iff image_eqI fst_conv)
    then show ?thesis using that None by (auto simp: index_mem split: app_file.split)
  next
    case (Some obj)
    then have doc: "(f, Doc obj) \<in> set fs" "is_yaml f" using map_of_SomeD [OF Some] by (simp_all add: index_mem)
    then have "d = Doc obj" using eq_key_imp_eq_value [OF wf that] by simp
    then show ?thesis using doc(2) Some by (simp del: map_of_eq_Some_iff)
  qed
  then have "map (\<lambda>(h, d). (h, case map_of (index_files fs) h of Some obj \<Rightarrow> Doc (?g obj) | None \<Rightarrow> d)) fs =
      map (\<lambda>(f, d). (f, case d of Doc obj \<Rightarrow> if is_yaml f then Doc (?g obj) else d | _ \<Rightarrow> d)) fs" by auto
  moreover have "ParseImagesFrom (?g obj) = map (\<lambda>image. last (image # filter (img_matches image) images)) (ParseImagesFrom obj)" for obj
    by (auto simp: ParseImagesFrom_def with_images_def split: obj_spec.split)
  ultimately show ?thesis using run by (simp add: FSStoreFunc_def UpdateContentImages_def ListAll_def)
qed

section \<open>An application\<close>

definition plain_meta :: "string \<Rightarrow> obj_meta" where
  "plain_meta n = \<lparr>om_Name = n, om_Labels = [], om_Annotations = [], om_Finalizers = []\<rparr>"

definition ex_workload :: workload where
  "ex_workload = \<lparr>wl_Replicas = Some 2, wl_Selector = [(''app'', ''web'')],
     wl_Template = \<lparr>pt_Labels = Some [(''app'', ''web'')],
       pt_Containers = [\<lparr>co_Name = ''c'', co_Image = ''web:v1'',
         co_Ports = [\<lparr>cp_Name = ''http'', cp_Protocol = ''TCP'', cp_ContainerPort = 80\<rparr>], co_Resources = []\<rparr>]\<rparr>,
     wl_StrategyType = ''RollingUpdate'', wl_Rolling = None\<rparr>"

definition ex_deployment :: app_object where
  "ex_deployment = \<lparr>ao_GVK = deployment_kind, ao_meta = plain_meta ''web'', ao_spec = Workload ex_workload\<rparr>"

definition ex_config :: app_object where
  "ex_config = \<lparr>ao_GVK = \<lparr>gk_Group = [], gk_Version = ''v1'', gk_Kind = ''ConfigMap''\<rparr>, ao_meta = plain_meta ''conf'', ao_spec = OtherObj ''x''\<rparr>"

definition ex_files :: "app_file tree" where
  "ex_files = [(''deployment.yaml'', Doc ex_deployment), (''readme.md'', Text ''r'')]"

lemma wf_ex_files: "wf_files ex_files"
  by (simp add: wf_files_def ex_files_def doc_keys_def)


theorem UpdateContentImages_sets_witness:
  "\<exists>fs. FSStoreFunc (UpdateContentImages (\<lambda>a b. take 3 a = take 3 b) [''web:v2'', ''db:v1'', ''web:v3''] []) ex_files = (fs, GitDone) \<and>
     map_option ParseImagesFrom (objects fs (deployment_kind, ''web'')) = Some [''web:v3'']"
proof -
  have "\<forall>(f, obj) \<in> set (index_files ex_files). has_labels obj"
    by (simp add: ex_files_def has_labels_def ex_deployment_def ex_workload_def)
  note run = UpdateContentImages_sets [OF wf_ex_files this, where img_matches = "\<lambda>a b. take 3 a = take 3 b"
      and images = "[''web:v2'', ''db:v1'', ''web:v3'']" and version = "[]"]
  have "map_option ParseImagesFrom (objects
      (map (\<lambda>(f, d). (f, case d of Doc obj \<Rightarrow> if is_yaml f
         then Doc (with_images (\<lambda>a b. take 3 a = take 3 b) [''web:v2'', ''db:v1'', ''web:v3''] [] obj) else d | _ \<Rightarrow> d)) ex_files)
      (deployment_kind, ''web'')) = Some [''web:v3'']"
    by code_simp
  then show ?thesis using run by blast
qed

end
