(* ===== verification/App_Strategy.thy ===== *)
theory App_Strategy
  imports App_Store
begin

text \<open>
  How an application is rolled out: \<open>pkg/apps/application/processor_deploy_strategy.go\<close> writes the objects of a rollout
  (services, a virtual service, the rollout of Argo) next to the deployment and removes them again, and
  \<open>deploy_strategy_struct.go\<close> says what of a canary is kept.

  The store looks objects up in what it has read when it was opened, so an object written by the same request is not
  seen by it. Reading an object gives a copy.
\<close>

section \<open>Strategies\<close>

definition AnnotationGeneratedByPlatformKey :: string where
  "AnnotationGeneratedByPlatformKey = ''application.kubegems.io/is-generated-by''"
definition AnnotationGeneratedByPlatformValueRollouts :: string where
  "AnnotationGeneratedByPlatformValueRollouts = ''rollouts''"

definition RollingUpdateDeploymentStrategyType :: string where "RollingUpdateDeploymentStrategyType = ''RollingUpdate''"
definition RecreatDeploymentStrategyType :: string where "RecreatDeploymentStrategyType = ''Recreate''"
definition CanaryDeploymentStrategyType :: string where "CanaryDeploymentStrategyType = ''Canary''"
definition BlueGreenDeploymentStrategyType :: string where "BlueGreenDeploymentStrategyType = ''BlueGreen''"

lemmas strategy_types = RollingUpdateDeploymentStrategyType_def RecreatDeploymentStrategyType_def CanaryDeploymentStrategyType_def
  BlueGreenDeploymentStrategyType_def

record deployment_strategy =
  ds_Type :: string
  ds_Canary :: "canary_strategy option"
  ds_BlueGreen :: "bluegreen_strategy option"
  ds_Rolling :: "string option"

definition no_canary :: canary_strategy where
  "no_canary = \<lparr>cs_CanaryService = [], cs_StableService = [], cs_Steps = [], cs_Analysis = None, cs_Traffic = None\<rparr>"

definition no_bluegreen :: bluegreen_strategy where
  "no_bluegreen = \<lparr>bg_ActiveService = [], bg_PreviewService = [], bg_PrePromotion = None\<rparr>"

text \<open>Argo knows nothing of what a route matches.\<close>

definition ToCanaryStrategy :: "canary_strategy \<Rightarrow> canary_strategy" where
  "ToCanaryStrategy s =
     s\<lparr>cs_Traffic := map_option (\<lambda>t. case t of
         IstioRouting i \<Rightarrow> IstioRouting (i\<lparr>ir_Headers := [], ir_Uri := None, ir_IgnoreUriCase := False\<rparr>)
       | OtherRouting x \<Rightarrow> OtherRouting x) (cs_Traffic s)\<rparr>"

definition ExtendCanaryStrategyFromCanaryStrategy :: "canary_strategy \<Rightarrow> canary_strategy" where
  "ExtendCanaryStrategyFromCanaryStrategy s = s"

section \<open>Generated objects\<close>

definition generated :: "app_object \<Rightarrow> bool" where
  "generated obj \<longleftrightarrow> get_str (om_Annotations (ao_meta obj)) AnnotationGeneratedByPlatformKey = AnnotationGeneratedByPlatformValueRollouts"

definition generated_meta :: "string \<Rightarrow> obj_meta" where
  "generated_meta name = \<lparr>om_Name = name, om_Labels = [],
     om_Annotations = [(AnnotationGeneratedByPlatformKey, AnnotationGeneratedByPlatformValueRollouts)], om_Finalizers = []\<rparr>"

type_synonym store_run = "fs_store \<times> git_result"

definition and_then :: "store_run \<Rightarrow> (fs_store \<Rightarrow> store_run) \<Rightarrow> store_run" where
  "and_then r f = (case r of (c, GitDone) \<Rightarrow> f c | (c, e) \<Rightarrow> (c, e))"

definition CreateIfNotExist :: "app_object \<Rightarrow> fs_store \<Rightarrow> store_run" where
  "CreateIfNotExist obj c =
     (case Get_object c (obj_key obj) of
        Inr exist \<Rightarrow> (c, GitDone)
      | Inl e \<Rightarrow> if e = StoreNotFound then of_store c (Create_object c obj) else (c, GitFailed))"

fun delete_generated :: "app_object list \<Rightarrow> fs_store \<Rightarrow> store_run" where
  "delete_generated [] c = (c, GitDone)"
| "delete_generated (obj # objs) c =
     (if generated obj then and_then (of_store c (Delete_object c (obj_key obj))) (delete_generated objs)
      else delete_generated objs c)"

definition CleanRollout :: "fs_store \<Rightarrow> store_run" where
  "CleanRollout c = delete_generated (ListAll c) c"

text \<open>The service of a deployment, made of its template if it has none, without ports it cannot be made.\<close>

definition service_of :: "app_object \<Rightarrow> workload \<Rightarrow> app_object" where
  "service_of dep w =
     \<lparr>ao_GVK = service_kind, ao_meta = generated_meta (ao_Name dep),
      ao_spec = ServiceObj
        \<lparr>ss_Ports = map (\<lambda>p. \<lparr>vp_Name = cp_Name p, vp_Protocol = cp_Protocol p, vp_Port = cp_ContainerPort p, vp_TargetPort = cp_ContainerPort p\<rparr>)
           (concat (map co_Ports (pt_Containers (wl_Template w)))),
         ss_Selector = filter (\<lambda>(k, v). k \<noteq> LabelIstioVersion) (case pt_Labels (wl_Template w) of None \<Rightarrow> [] | Some ls \<Rightarrow> ls),
         ss_Type = [], ss_SessionAffinity = [], ss_ExternalTrafficPolicy = [], ss_rest = []\<rparr>\<rparr>"

definition copy_service :: "app_object \<Rightarrow> string \<Rightarrow> app_object" where
  "copy_service main name =
     \<lparr>ao_GVK = service_kind,
      ao_meta = (ao_meta main)\<lparr>om_Name := name, om_Annotations :=
        AList.update AnnotationGeneratedByPlatformKey AnnotationGeneratedByPlatformValueRollouts (om_Annotations (ao_meta main))\<rparr>,
      ao_spec = (case ao_spec main of ServiceObj s \<Rightarrow> ServiceObj (s\<lparr>ss_rest := []\<rparr>) | other \<Rightarrow> other)\<rparr>"

fun copy_services :: "app_object \<Rightarrow> string list \<Rightarrow> fs_store \<Rightarrow> store_run" where
  "copy_services main [] c = (c, GitDone)"
| "copy_services main (name # names) c =
     (if name = ao_Name main then copy_services main names c
      else and_then (CreateIfNotExist (copy_service main name) c) (copy_services main names))"

definition ensureDeploymentServices :: "app_object \<Rightarrow> workload \<Rightarrow> string list \<Rightarrow> fs_store \<Rightarrow> store_run" where
  "ensureDeploymentServices dep w svcnames c =
     (case Get_object c (service_kind, ao_Name dep) of
        Inr main \<Rightarrow> copy_services main svcnames c
      | Inl e \<Rightarrow>
          if e \<noteq> StoreNotFound then (c, GitFailed)
          else let main = service_of dep w in
            if concat (map co_Ports (pt_Containers (wl_Template w))) = [] then (c, GitFailed)
            else and_then (CreateIfNotExist main c) (copy_services main svcnames))"

definition defaultAnalysisArgs :: "string \<Rightarrow> analysis_arg list \<Rightarrow> analysis_arg list" where
  "defaultAnalysisArgs service args =
     map (\<lambda>a. if trim_space (aa_Value a) \<noteq> [] then a
        else if aa_Name a = ''service-name'' then a\<lparr>aa_Value := service\<rparr>
        else if aa_Name a = ''namespace'' then a\<lparr>aa_Value := [], aa_ValueFrom := Some ''metadata.namespace''\<rparr>
        else a) args"

definition or_else :: "string \<Rightarrow> string \<Rightarrow> string" where
  "or_else s d = (if s = [] then d else s)"

section \<open>Blue and green\<close>

definition complete_bluegreen :: "string \<Rightarrow> bluegreen_strategy \<Rightarrow> bluegreen_strategy" where
  "complete_bluegreen name s =
     (let active = or_else (bg_ActiveService s) (name @ ''-canary''); preview = or_else (bg_PreviewService s) name
      in \<lparr>bg_ActiveService = active, bg_PreviewService = preview,
          bg_PrePromotion = map_option (defaultAnalysisArgs preview) (bg_PrePromotion s)\<rparr>)"

definition prepareBlugreenRollout :: "app_object \<Rightarrow> workload \<Rightarrow> bluegreen_strategy \<Rightarrow> fs_store \<Rightarrow> store_run" where
  "prepareBlugreenRollout dep w s c =
     ensureDeploymentServices dep w [bg_ActiveService (complete_bluegreen (ao_Name dep) s), bg_PreviewService (complete_bluegreen (ao_Name dep) s)] c"

section \<open>Canaries\<close>

definition defaultStepInitWeight :: int where "defaultStepInitWeight = 10"

definition completeCanarySteps :: "canary_step list \<Rightarrow> canary_step list" where
  "completeCanarySteps steps =
     (let steps = (if steps = [] then [SetWeight defaultStepInitWeight] else steps)
      in if length steps = 1 then steps @ [Pause] else steps)"

definition complete_istio :: "string \<Rightarrow> istio_routing \<Rightarrow> istio_routing" where
  "complete_istio main i =
     i\<lparr>ir_Name := or_else (ir_Name i) main, ir_Routes := (if ir_Routes i = [] then [''canary''] else ir_Routes i)\<rparr>"

definition complete_canary :: "string \<Rightarrow> canary_strategy \<Rightarrow> canary_strategy" where
  "complete_canary name s =
     (let canary = or_else (cs_CanaryService s) (name @ ''-canary''); main = or_else (cs_StableService s) name
      in \<lparr>cs_CanaryService = canary, cs_StableService = main, cs_Steps = completeCanarySteps (cs_Steps s),
          cs_Analysis = map_option (defaultAnalysisArgs canary) (cs_Analysis s),
          cs_Traffic = map_option (\<lambda>t. case t of IstioRouting i \<Rightarrow> IstioRouting (complete_istio main i) | OtherRouting x \<Rightarrow> OtherRouting x)
            (cs_Traffic s)\<rparr>)"

text \<open>All traffic to the stable service and none yet to the canary, for what matches; the rest is not changed.\<close>

definition canary_routes :: "string \<Rightarrow> string \<Rightarrow> istio_routing \<Rightarrow> http_route list" where
  "canary_routes main canary i =
     [\<lparr>hr_Name = hd (ir_Routes i),
       hr_Match = (if ir_Headers i \<noteq> [] \<or> ir_Uri i \<noteq> None
         then Some \<lparr>rm_Headers = ir_Headers i, rm_Uri = ir_Uri i, rm_IgnoreUriCase = ir_IgnoreUriCase i\<rparr> else None),
       hr_Destinations = [(main, 100), (canary, 0)]\<rparr>,
      \<lparr>hr_Name = [], hr_Match = None, hr_Destinations = [(main, 0)]\<rparr>]"

text \<open>The routes after one pass over those that were there: the entry of that name is replaced where it stands, and what is then
  put in front is the one that was read.\<close>

fun place_routes :: "http_route \<Rightarrow> nat \<Rightarrow> http_route list \<Rightarrow> http_route list \<times> bool \<times> bool \<Rightarrow> http_route list \<times> bool \<times> bool" where
  "place_routes target i [] st = st"
| "place_routes target i (v # vs) (http, updated, found) =
     (if hr_Name v \<noteq> hr_Name target then place_routes target (Suc i) vs (http, updated, found)
      else let (http, updated) = (if v \<noteq> target then (http[i := target], True) else (http, updated));
               (http, updated) = (if i \<noteq> 0 then (v # take i http @ drop (Suc i) http, True) else (http, updated))
           in place_routes target (Suc i) vs (http, updated, True))"

definition update_routes :: "http_route \<Rightarrow> http_route list \<Rightarrow> http_route list \<times> bool" where
  "update_routes target http =
     (case place_routes target 0 http (http, False, False) of
        (http, updated, found) \<Rightarrow> if \<not> found then (target # http, True) else (http, updated))"

definition prepareCanaryIstioRollout :: "string \<Rightarrow> string \<Rightarrow> istio_routing \<Rightarrow> fs_store \<Rightarrow> store_run" where
  "prepareCanaryIstioRollout main canary i c =
     (let routes = canary_routes main canary i in
      case Get_object c (virtual_kind, ir_Name i) of
        Inl e \<Rightarrow>
          if e \<noteq> StoreNotFound then (c, GitFailed)
          else of_store c (Create_object c \<lparr>ao_GVK = virtual_kind, ao_meta = generated_meta (ir_Name i), ao_spec = VirtualServiceObj [main] routes\<rparr>)
      | Inr exist \<Rightarrow>
          (case ao_spec exist of
             VirtualServiceObj hosts http \<Rightarrow>
               (case update_routes (hd routes) http of
                  (http, updated) \<Rightarrow>
                    if updated then of_store c (Update_object c (exist\<lparr>ao_spec := VirtualServiceObj hosts http\<rparr>)) else (c, GitDone))
           | _ \<Rightarrow> (c, GitFailed)))"

definition prepareCanaryRollout :: "app_object \<Rightarrow> workload \<Rightarrow> canary_strategy \<Rightarrow> fs_store \<Rightarrow> store_run" where
  "prepareCanaryRollout dep w s c =
     (let s = complete_canary (ao_Name dep) s in
      and_then (ensureDeploymentServices dep w [cs_StableService s, cs_CanaryService s] c)
        (\<lambda>c. case cs_Traffic s of
               Some (IstioRouting i) \<Rightarrow> prepareCanaryIstioRollout (cs_StableService s) (cs_CanaryService s) i c
             | _ \<Rightarrow> (c, GitDone)))"

section \<open>A new strategy\<close>

definition rollout_spec_of :: "app_object \<Rightarrow> workload \<Rightarrow> deployment_strategy \<Rightarrow> int option \<Rightarrow> rollout_spec" where
  "rollout_spec_of dep w s replicas =
     \<lparr>ro_Selector = wl_Selector w, ro_WorkloadRef = ao_Name dep,
      ro_Canary = (if ds_Type s = CanaryDeploymentStrategyType then map_option ToCanaryStrategy (ds_Canary s) else None),
      ro_BlueGreen = (if ds_Type s = BlueGreenDeploymentStrategyType then ds_BlueGreen s else None), ro_Replicas = replicas\<rparr>"

definition ensureRollout :: "app_object \<Rightarrow> workload \<Rightarrow> deployment_strategy \<Rightarrow> fs_store \<Rightarrow> store_run" where
  "ensureRollout dep w s c =
     (let replicas = (case Get_object c (deployment_kind, ao_Name dep) of
            Inr obj \<Rightarrow> (case ao_spec obj of Workload exist \<Rightarrow> wl_Replicas exist | _ \<Rightarrow> None)
          | Inl e \<Rightarrow> None)
      in case Get_object c (rollout_kind, ao_Name dep) of
           Inl e \<Rightarrow>
             if e \<noteq> StoreNotFound then (c, GitFailed)
             else of_store c (Create_object c \<lparr>ao_GVK = rollout_kind, ao_meta = generated_meta (ao_Name dep),
               ao_spec = RolloutObj (rollout_spec_of dep w s replicas)\<rparr>)
         | Inr exist \<Rightarrow>
             (case ao_spec exist of
                RolloutObj old \<Rightarrow>
                  of_store c (Update_object c (exist\<lparr>ao_spec := RolloutObj (rollout_spec_of dep w s (ro_Replicas old))\<rparr>))
              | _ \<Rightarrow> (c, GitFailed)))"

text \<open>The strategy as the steps complete it.\<close>

definition complete_strategy :: "string \<Rightarrow> deployment_strategy \<Rightarrow> deployment_strategy" where
  "complete_strategy name s =
     (if ds_Type s = CanaryDeploymentStrategyType
      then s\<lparr>ds_Canary := Some (complete_canary name (case ds_Canary s of None \<Rightarrow> no_canary | Some c \<Rightarrow> c))\<rparr>
      else if ds_Type s = BlueGreenDeploymentStrategyType
      then s\<lparr>ds_BlueGreen := Some (complete_bluegreen name (case ds_BlueGreen s of None \<Rightarrow> no_bluegreen | Some b \<Rightarrow> b))\<rparr>
      else s)"

definition configForArgoRollout :: "app_object \<Rightarrow> workload \<Rightarrow> deployment_strategy \<Rightarrow> fs_store \<Rightarrow> store_run" where
  "configForArgoRollout dep w s c =
     (if ds_Type s = CanaryDeploymentStrategyType
      then and_then (prepareCanaryRollout dep w (case ds_Canary s of None \<Rightarrow> no_canary | Some k \<Rightarrow> k) c)
        (ensureRollout dep w (complete_strategy (ao_Name dep) s))
      else if ds_Type s = BlueGreenDeploymentStrategyType
      then and_then (prepareBlugreenRollout dep w (case ds_BlueGreen s of None \<Rightarrow> no_bluegreen | Some b \<Rightarrow> b) c)
        (ensureRollout dep w (complete_strategy (ao_Name dep) s))
      else CleanRollout c)"

text \<open>The deployment, changed only when its type of strategy is another one.\<close>

definition configForDeployment :: "app_object \<Rightarrow> workload \<Rightarrow> deployment_strategy \<Rightarrow> fs_store \<Rightarrow> (app_object \<times> workload) \<times> store_run" where
  "configForDeployment dep w s c =
     (if (ds_Type s = RollingUpdateDeploymentStrategyType \<or> ds_Type s = RecreatDeploymentStrategyType) \<and> wl_StrategyType w \<noteq> ds_Type s
      then let w = w\<lparr>wl_StrategyType := ds_Type s, wl_Rolling := (if ds_Type s = RollingUpdateDeploymentStrategyType then ds_Rolling s else None)\<rparr>;
               dep = dep\<lparr>ao_spec := Workload w\<rparr>
           in ((dep, w), of_store c (Update_object c dep))
      else ((dep, w), (c, GitDone)))"

definition PrepareDeploymentStrategy :: "deployment_strategy \<Rightarrow> fs_store \<Rightarrow> store_run" where
  "PrepareDeploymentStrategy s c =
     (case ParseMainDeployment c of
        None \<Rightarrow> (c, GitFailed)
      | Some (dep, w) \<Rightarrow>
          (case configForDeployment dep w s c of ((dep, w), r) \<Rightarrow> and_then r (configForArgoRollout dep w s)))"

text \<open>The request: the strategy is set and published. If images are given they are written first, by a request of their own that
  publishes nothing.\<close>

definition SetStrategy ::
  "app_file git_env \<Rightarrow> app_file \<Rightarrow> (app_file, 'r) kustom_codec \<Rightarrow> string \<Rightarrow> string \<Rightarrow> deployment_strategy
    \<Rightarrow> app_file git \<Rightarrow> app_file git \<times> git_result" where
  "SetStrategy env readme k author path s g =
     StoreUpdateFunc env readme k author path (''set strategy ['' @ ds_Type s @ '']'') (PrepareDeploymentStrategy s) g"

definition PrepareDeploymentStrategyWithImages ::
  "app_file git_env \<Rightarrow> app_file \<Rightarrow> (app_file, 'r) kustom_codec \<Rightarrow> string \<Rightarrow> (string \<Rightarrow> string \<Rightarrow> bool) \<Rightarrow> string \<Rightarrow> string list \<Rightarrow> string
    \<Rightarrow> deployment_strategy \<Rightarrow> app_file git \<Rightarrow> app_file git \<times> git_result" where
  "PrepareDeploymentStrategyWithImages env readme k author img_matches path images version s g =
     (if images \<noteq> [] \<or> version \<noteq> []
      then case StoreFunc env readme path (UpdateContentImages img_matches images version) g of
             (g, GitDone) \<Rightarrow> SetStrategy env readme k author path s g
           | (g, e) \<Rightarrow> (g, e)
      else SetStrategy env readme k author path s g)"

definition ParseUpdateStrategyAndDeployment :: "fs_store \<Rightarrow> ((app_object \<times> workload) \<times> deployment_strategy) option" where
  "ParseUpdateStrategyAndDeployment c =
     (case ParseMainDeployment c of
        None \<Rightarrow> None
      | Some (dep, w) \<Rightarrow>
          (case Get_object c (rollout_kind, ao_Name dep) of
             Inl e \<Rightarrow>
               if e \<noteq> StoreNotFound then None
               else Some ((dep, w), \<lparr>ds_Type = wl_StrategyType w, ds_Canary = None, ds_BlueGreen = None, ds_Rolling = wl_Rolling w\<rparr>)
           | Inr r \<Rightarrow>
               (case ao_spec r of
                  RolloutObj ro \<Rightarrow>
                    (case (ro_Canary ro, ro_BlueGreen ro) of
                       (Some k, _) \<Rightarrow> Some ((dep, w), \<lparr>ds_Type = CanaryDeploymentStrategyType,
                         ds_Canary = Some (ExtendCanaryStrategyFromCanaryStrategy k), ds_BlueGreen = None, ds_Rolling = None\<rparr>)
                     | (None, Some b) \<Rightarrow> Some ((dep, w), \<lparr>ds_Type = BlueGreenDeploymentStrategyType, ds_Canary = None,
                         ds_BlueGreen = Some b, ds_Rolling = None\<rparr>)
                     | (None, None) \<Rightarrow> Some ((dep, w), \<lparr>ds_Type = [], ds_Canary = None, ds_BlueGreen = None, ds_Rolling = None\<rparr>))
                | _ \<Rightarrow> None)))"

section \<open>The route of a canary\<close>

lemma place_routes_skip:
  "list_all (\<lambda>v. hr_Name v \<noteq> hr_Name target) vs \<Longrightarrow> place_routes target i vs st = st"
proof (induction vs arbitrary: i)
  case (Cons v vs)
  then show ?case by (cases st) simp
qed simp

lemma place_routes_append:
  "place_routes target i (vs @ us) st = place_routes target (i + length vs) us (place_routes target i vs st)"
proof (induction vs arbitrary: i st)
  case (Cons v vs)
  then show ?case by (cases st) (simp add: Let_def split: prod.split)
qed simp

text \<open>What becomes of the routes of a virtual service that is there: the route of the canary, if there is none of its name, is put in front;
  if it stands in front it is brought up to date; but if it stands further back it is only moved to the front as it was, and takes a
  second run to be brought up to date. All other routes keep their order, and what is up to date and in front is not written.\<close>

theorem update_routes_two_runs:
  assumes "list_all (\<lambda>v. hr_Name v \<noteq> hr_Name target) (before @ after)" "hr_Name v = hr_Name target"
  shows "update_routes target (before @ after) = (target # before @ after, True) \<and>
    update_routes target (v # after) = (target # after, v \<noteq> target) \<and>
    (before \<noteq> [] \<longrightarrow> update_routes target (before @ v # after) = (v # before @ after, True) \<and>
       update_routes target (v # before @ after) = (target # before @ after, v \<noteq> target))"
proof -
  have skip: "place_routes target i before st = st" "place_routes target i after st = st" "place_routes target i (before @ after) st = st" for i st
    using assms(1) by (simp_all add: place_routes_skip)
  have first: "update_routes target (v # vs) = (target # vs, v \<noteq> target)" if "\<And>i st. place_routes target i vs st = st" for vs
    using assms(2) that by (auto simp: update_routes_def)
  have "update_routes target (before @ v # after) = (v # before @ after, True)" if "before \<noteq> []"
    using assms(2) that skip by (auto simp: update_routes_def place_routes_append)
  then show ?thesis using skip first by (auto simp: update_routes_def)
qed

section \<open>What a strategy writes\<close>

text \<open>The files of an application and, after them, those of generated objects that are not among them.\<close>

definition rollout_kinds :: "gvk set" where
  "rollout_kinds = {service_kind, virtual_kind, rollout_kind}"

definition pack :: "app_object \<Rightarrow> string \<times> app_file" where
  "pack obj = (file_for obj, Doc obj)"

definition grown :: "app_file tree \<Rightarrow> app_object list \<Rightarrow> fs_store \<Rightarrow> bool" where
  "grown fs objs c \<longleftrightarrow> st_fs c = fs @ map pack objs \<and> st_resources c = index_files fs \<and> distinct (map file_for objs) \<and>
     (\<forall>obj \<in> set objs. generated obj \<and> ao_GVK obj \<in> rollout_kinds \<and> obj_key obj \<notin> set (doc_keys fs) \<and> file_for obj \<notin> fst ` set fs)"

text \<open>Files named like an object of a rollout hold it, and no rollout is there yet.\<close>

definition app_ready :: "app_file tree \<Rightarrow> bool" where
  "app_ready fs \<longleftrightarrow> wf_files fs \<and> (\<forall>(f, obj) \<in> set (index_files fs). \<not> generated obj) \<and>
     (\<forall>obj. ao_GVK obj \<in> rollout_kinds \<and> file_for obj \<in> fst ` set fs \<longrightarrow> obj_key obj \<in> set (doc_keys fs)) \<and>
     (\<forall>name. (rollout_kind, name) \<notin> set (doc_keys fs) \<and> (virtual_kind, name) \<notin> set (doc_keys fs))"

lemma lower_kinds:
  "map to_lower (gk_Kind service_kind) = ''service''" "map to_lower (gk_Kind virtual_kind) = ''virtualservice''"
  "map to_lower (gk_Kind rollout_kind) = ''rollout''"
  by code_simp+

lemma kind_lower: "k \<in> rollout_kinds \<Longrightarrow> CHR ''-'' \<notin> set (map to_lower (gk_Kind k))"
  unfolding rollout_kinds_def by (elim insertE emptyE; simp only: lower_kinds; simp)

lemma kind_inj: "a \<in> rollout_kinds \<Longrightarrow> b \<in> rollout_kinds \<Longrightarrow> map to_lower (gk_Kind a) = map to_lower (gk_Kind b) \<Longrightarrow> a = b"
  unfolding rollout_kinds_def by (elim insertE emptyE; simp only: lower_kinds; simp)

lemma file_for_key:
  assumes "ao_GVK a \<in> rollout_kinds" "ao_GVK b \<in> rollout_kinds"
  shows "file_for a = file_for b \<longleftrightarrow> obj_key a = obj_key b"
proof
  let ?k = "\<lambda>x. map to_lower (gk_Kind (ao_GVK x))"
  assume "file_for a = file_for b"
  then have "?k a @ CHR ''-'' # ao_Name a = ?k b @ CHR ''-'' # ao_Name b" by (simp add: file_for_def)
  from arg_cong [OF this, of "split_on (CHR ''-'')"]
  have "?k a = ?k b" using split_on_append_sep [OF kind_lower [OF assms(1)]] split_on_append_sep [OF kind_lower [OF assms(2)]] by simp
  moreover from this have "ao_Name a = ao_Name b" using \<open>file_for a = file_for b\<close> by (simp add: file_for_def)
  ultimately show "obj_key a = obj_key b" using kind_inj [OF assms] by simp
qed (simp add: file_for_def)

text \<open>A generated object among the others: it replaces the one of its file.\<close>

definition put_obj :: "app_object \<Rightarrow> app_object list \<Rightarrow> app_object list" where
  "put_obj obj objs =
     (if file_for obj \<in> file_for ` set objs then map (\<lambda>o'. if file_for o' = file_for obj then obj else o') objs else objs @ [obj])"

lemma replace_image:
  assumes "x \<in> S" "f x = f a"
  shows "(\<lambda>y. if f y = f a then a else y) ` S = insert a {y \<in> S. f y \<noteq> f a}"
proof (intro equalityI subsetI)
  fix z
  assume "z \<in> (\<lambda>y. if f y = f a then a else y) ` S"
  then obtain y where "y \<in> S" "z = (if f y = f a then a else y)" by blast
  then show "z \<in> insert a {y \<in> S. f y \<noteq> f a}" by (cases "f y = f a") simp_all
next
  fix z
  assume "z \<in> insert a {y \<in> S. f y \<noteq> f a}"
  then consider "z = a" | "z \<in> S" "f z \<noteq> f a" by blast
  then show "z \<in> (\<lambda>y. if f y = f a then a else y) ` S"
  proof cases
    case 1
    then show ?thesis using assms by (intro image_eqI [of _ _ x]) simp_all
  next
    case 2
    then show ?thesis by (intro image_eqI [of _ _ z]) simp_all
  qed
qed

lemma set_put_obj: "set (put_obj obj objs) = insert obj {o' \<in> set objs. file_for o' \<noteq> file_for obj}"
proof (cases "file_for obj \<in> file_for ` set objs")
  case True
  then obtain x where "x \<in> set objs" "file_for x = file_for obj" by (metis imageE)
  from replace_image [OF this] show ?thesis using True by (simp add: put_obj_def)
next
  case False
  then have "file_for x \<noteq> file_for obj" if "x \<in> set objs" for x using that by (metis image_eqI)
  then have "{o' \<in> set objs. file_for o' \<noteq> file_for obj} = set objs" by blast
  then show ?thesis using False by (simp add: put_obj_def)
qed

lemma files_put_obj:
  assumes "distinct (map file_for objs)"
  shows "distinct (map file_for (put_obj obj objs))"
proof (cases "file_for obj \<in> file_for ` set objs")
  case True
  have same: "map file_for (map (\<lambda>o'. if file_for o' = file_for obj then obj else o') objs) = map file_for objs" by simp
  have put: "put_obj obj objs = map (\<lambda>o'. if file_for o' = file_for obj then obj else o') objs" using True by (simp add: put_obj_def)
  show ?thesis unfolding put same by (rule assms)
next
  case False
  then show ?thesis using assms by (simp add: put_obj_def)
qed

lemma update_pack:
  assumes "file_for obj \<notin> fst ` set fs" "distinct (map file_for objs)"
  shows "AList.update (file_for obj) (Doc obj) (fs @ map pack objs) = fs @ map pack (put_obj obj objs)"
proof -
  have skip: "AList.update k v (fs @ xs) = fs @ AList.update k v xs" if "k \<notin> fst ` set fs" for k v and xs :: "app_file tree"
    using that by (induction fs) auto
  have "AList.update (file_for obj) (Doc obj) (map pack objs) = map pack (put_obj obj objs)"
  proof (cases "file_for obj \<in> file_for ` set objs")
    case True
    have wf: "wf_map (map pack objs)" using assms(2) by (simp add: pack_def comp_def)
    have "file_for obj \<in> fst ` set (map pack objs)" using True by (force simp: pack_def)
    from update_present [OF wf this, of "Doc obj"] show ?thesis using True by (auto simp: put_obj_def pack_def)
  next
    case False
    then have "file_for obj \<notin> fst ` set (map pack objs)" by (auto simp: pack_def)
    then show ?thesis using False by (simp add: update_new put_obj_def pack_def)
  qed
  then show ?thesis using skip [OF assms(1)] by simp
qed

text \<open>What the steps of a strategy do to the generated objects: they come, one after the other, and stay by their keys.\<close>

definition avail :: "app_file tree \<Rightarrow> app_object list \<Rightarrow> (gvk \<times> string) set" where
  "avail fs objs = set (doc_keys fs) \<union> obj_key ` set objs"

lemma find_grown: "grown fs objs c \<Longrightarrow> find_object c key = find_object (NewGitFsStore fs) key"
  by (simp add: grown_def find_object_def)

lemma grown_create:
  assumes "app_ready fs" "grown fs objs c" "Create_object c obj = Inr c'" "generated obj" "ao_GVK obj \<in> rollout_kinds"
  shows "grown fs (put_obj obj objs) c' \<and> avail fs objs \<subseteq> avail fs (put_obj obj objs) \<and> obj_key obj \<in> avail fs (put_obj obj objs)"
proof -
  have none: "find_object (NewGitFsStore fs) (obj_key obj) = None" and c': "c' = c\<lparr>st_fs := AList.update (file_for obj) (Doc obj) (st_fs c)\<rparr>"
    using assms(3) find_grown [OF assms(2)] by (auto simp: Create_object_def write_file_def split: if_splits simp del: not_None_eq)
  have key: "obj_key obj \<notin> set (doc_keys fs)" using none objects_None [of fs "obj_key obj"] by (simp add: objects_def)
  then have new: "file_for obj \<notin> fst ` set fs" using assms(1,5) by (auto simp: app_ready_def)
  have "st_fs c' = fs @ map pack (put_obj obj objs)" using assms(2) new by (simp add: c' grown_def update_pack)
  then have "grown fs (put_obj obj objs) c'"
    using assms(2,4,5) key new files_put_obj [of objs obj] by (auto simp: grown_def c' set_put_obj)
  moreover have "obj_key x \<in> obj_key ` set (put_obj obj objs)" if "x \<in> set objs" for x
  proof (cases "file_for x = file_for obj")
    case True
    then have "obj_key x = obj_key obj" using file_for_key [of x obj] that assms(2,5) by (auto simp: grown_def)
    then show ?thesis by (simp add: set_put_obj)
  next
    case False
    then show ?thesis using that by (force simp: set_put_obj)
  qed
  ultimately show ?thesis by (auto simp: avail_def set_put_obj)
qed

lemma doc_key_found: "find_object (NewGitFsStore fs) key = Some (f, obj) \<Longrightarrow> key \<in> set (doc_keys fs)"
  using objects_None [of fs key] by (simp add: objects_def)

text \<open>A step adds to what is there, and when it is done some keys are there.\<close>

definition step_ok :: "app_file tree \<Rightarrow> (gvk \<times> string) set \<Rightarrow> fs_store \<Rightarrow> store_run \<Rightarrow> bool" where
  "step_ok fs ks c r \<longleftrightarrow> (\<forall>objs. grown fs objs c \<longrightarrow>
     (\<exists>objs'. grown fs objs' (fst r) \<and> avail fs objs \<subseteq> avail fs objs' \<and> (snd r = GitDone \<longrightarrow> ks \<subseteq> avail fs objs')))"

lemma step_ok_done [simp]: "step_ok fs {} c (c, e)"
  unfolding step_ok_def by auto

lemma step_ok_failed [simp]: "e \<noteq> GitDone \<Longrightarrow> step_ok fs ks c (c, e)"
  unfolding step_ok_def by auto

lemma step_ok_and_then:
  assumes "step_ok fs ks c r" "\<And>c'. r = (c', GitDone) \<Longrightarrow> step_ok fs ls c' (f c')"
  shows "step_ok fs (ks \<union> ls) c (and_then r f)"
proof (cases r)
  case (Pair c' e)
  show ?thesis
  proof (cases e)
    case GitDone
    then have run: "and_then r f = f c'" using Pair by (simp add: and_then_def)
    show ?thesis
      unfolding step_ok_def run
    proof (intro allI impI)
      fix objs
      assume "grown fs objs c"
      then obtain a where a: "grown fs a c'" "avail fs objs \<subseteq> avail fs a" "ks \<subseteq> avail fs a"
        using assms(1) Pair GitDone unfolding step_ok_def by auto
      from assms(2) Pair GitDone a(1) obtain b where "grown fs b (fst (f c'))" "avail fs a \<subseteq> avail fs b"
        "snd (f c') = GitDone \<longrightarrow> ls \<subseteq> avail fs b" unfolding step_ok_def by blast
      then show "\<exists>b. grown fs b (fst (f c')) \<and> avail fs objs \<subseteq> avail fs b \<and> (snd (f c') = GitDone \<longrightarrow> ks \<union> ls \<subseteq> avail fs b)"
        using a by (intro exI [of _ b]) auto
    qed
  qed (use assms(1) Pair in \<open>auto simp: step_ok_def and_then_def\<close>)
qed

lemma step_ok_create:
  assumes "app_ready fs" "generated obj" "ao_GVK obj \<in> rollout_kinds"
  shows "step_ok fs {obj_key obj} c (of_store c (Create_object c obj))"
proof (cases "Create_object c obj")
  case (Inr c')
  then show ?thesis
    using grown_create [OF assms(1) _ Inr assms(2,3)] unfolding step_ok_def of_store_def by fastforce
qed (simp add: of_store_def)

lemma step_ok_there:
  assumes "\<And>objs. grown fs objs c \<Longrightarrow> key \<in> avail fs objs"
  shows "step_ok fs {key} c (c, GitDone)"
  using assms unfolding step_ok_def by fastforce

lemma avail_found: "grown fs objs c \<Longrightarrow> find_object c key = Some (f, obj) \<Longrightarrow> key \<in> avail fs objs"
  using doc_key_found [of fs key f obj] find_grown [of fs objs c key] by (simp add: avail_def)

lemma step_ok_CreateIfNotExist:
  assumes "app_ready fs" "generated obj" "ao_GVK obj \<in> rollout_kinds"
  shows "step_ok fs {obj_key obj} c (CreateIfNotExist obj c)"
proof (cases "find_object c (obj_key obj)")
  case None
  then show ?thesis using step_ok_create [OF assms] by (simp add: CreateIfNotExist_def Get_object_def)
next
  case (Some found)
  then have "CreateIfNotExist obj c = (c, GitDone)" by (simp add: CreateIfNotExist_def Get_object_def split: prod.split)
  then show ?thesis using step_ok_there [of fs c "obj_key obj"] avail_found [of fs _ c "obj_key obj"] Some by (cases found) auto
qed

lemma step_okI: "(\<And>objs. grown fs objs c \<Longrightarrow> step_ok fs ks c r) \<Longrightarrow> step_ok fs ks c r"
  unfolding step_ok_def by blast

lemma step_ok_less: "step_ok fs ks c r \<Longrightarrow> ls \<subseteq> ks \<Longrightarrow> step_ok fs ls c r"
  unfolding step_ok_def by (meson order_trans)

lemma generated_meta [simp]: "ao_meta obj = generated_meta name \<Longrightarrow> generated obj"
  by (simp add: generated_def generated_meta_def get_str_def)

lemma om_Name_generated_meta [simp]: "om_Name (generated_meta name) = name"
  by (simp add: generated_meta_def)

lemma copy_service_facts [simp]:
  "generated (copy_service main name)" "ao_GVK (copy_service main name) = service_kind" "ao_Name (copy_service main name) = name"
  by (simp_all add: copy_service_def generated_def get_str_def)

lemma of_rollout_kinds [simp]: "service_kind \<in> rollout_kinds" "virtual_kind \<in> rollout_kinds" "rollout_kind \<in> rollout_kinds"
  by (simp_all add: rollout_kinds_def)

lemma step_ok_copy_services:
  assumes "app_ready fs"
  shows "step_ok fs (Pair service_kind ` (set names - {ao_Name main})) c (copy_services main names c)"
proof (induction names arbitrary: c)
  case (Cons name names)
  show ?case
  proof (cases "name = ao_Name main")
    case False
    have "step_ok fs ({obj_key (copy_service main name)} \<union> Pair service_kind ` (set names - {ao_Name main})) c
        (and_then (CreateIfNotExist (copy_service main name) c) (copy_services main names))"
      by (intro step_ok_and_then step_ok_CreateIfNotExist Cons.IH assms) simp_all
    then show ?thesis using False by (auto intro: step_ok_less)
  qed (use Cons.IH in simp)
qed simp

lemma step_ok_services:
  assumes "app_ready fs"
  shows "step_ok fs (Pair service_kind ` insert (ao_Name dep) (set names)) c (ensureDeploymentServices dep w names c)"
proof (cases "find_object c (service_kind, ao_Name dep)")
  case None
  let ?main = "service_of dep w"
  have facts: "ao_meta ?main = generated_meta (ao_Name dep)" "ao_GVK ?main = service_kind" by (simp_all add: service_of_def)
  have "step_ok fs ({obj_key ?main} \<union> Pair service_kind ` (set names - {ao_Name ?main})) c
      (and_then (CreateIfNotExist ?main c) (copy_services ?main names))"
    using facts by (intro step_ok_and_then step_ok_CreateIfNotExist step_ok_copy_services assms generated_meta) auto
  then have "step_ok fs (Pair service_kind ` insert (ao_Name dep) (set names)) c
      (and_then (CreateIfNotExist ?main c) (copy_services ?main names))"
    by (rule step_ok_less) (auto simp: facts)
  then show ?thesis using None by (simp add: ensureDeploymentServices_def Get_object_def Let_def)
next
  case (Some found)
  obtain f main where found: "found = (f, main)" by (cases found)
  have key: "ao_Name main = ao_Name dep" using find_object_mem [of c "(service_kind, ao_Name dep)" f main] Some found by simp
  have "step_ok fs ({(service_kind, ao_Name dep)} \<union> Pair service_kind ` (set names - {ao_Name main})) c
      (and_then (c, GitDone) (copy_services main names))"
    using avail_found Some found by (intro step_ok_and_then step_ok_copy_services step_ok_there assms) blast
  then have "step_ok fs (Pair service_kind ` insert (ao_Name dep) (set names)) c (and_then (c, GitDone) (copy_services main names))"
    by (rule step_ok_less) (auto simp: key)
  then show ?thesis using Some found by (simp add: ensureDeploymentServices_def Get_object_def and_then_def)
qed

lemma no_rollout_yet:
  assumes "app_ready fs" "grown fs objs c"
  shows "find_object c (rollout_kind, name) = None" "find_object c (virtual_kind, name) = None"
  using assms objects_None [of fs "(rollout_kind, name)"] objects_None [of fs "(virtual_kind, name)"] find_grown [OF assms(2)]
  by (auto simp: app_ready_def objects_def)

lemma step_ok_istio:
  assumes "app_ready fs"
  shows "step_ok fs {} c (prepareCanaryIstioRollout main canary i c)"
proof (rule step_okI)
  fix objs
  assume grown: "grown fs objs c"
  let ?obj = "\<lparr>ao_GVK = virtual_kind, ao_meta = generated_meta (ir_Name i), ao_spec = VirtualServiceObj [main] (canary_routes main canary i)\<rparr>"
  have "step_ok fs {obj_key ?obj} c (of_store c (Create_object c ?obj))"
    using assms by (intro step_ok_create) simp_all
  then show "step_ok fs {} c (prepareCanaryIstioRollout main canary i c)"
    using no_rollout_yet(2) [OF assms grown] by (auto simp: prepareCanaryIstioRollout_def Get_object_def intro: step_ok_less)
qed

text \<open>The services of a completed strategy.\<close>

definition strategy_services :: "deployment_strategy \<Rightarrow> string set" where
  "strategy_services s =
     (case ds_Canary s of Some k \<Rightarrow> if ds_Type s = CanaryDeploymentStrategyType then {cs_StableService k, cs_CanaryService k} else {} | None \<Rightarrow> {}) \<union>
     (case ds_BlueGreen s of Some b \<Rightarrow> if ds_Type s = BlueGreenDeploymentStrategyType then {bg_ActiveService b, bg_PreviewService b} else {} | None \<Rightarrow> {})"

lemma step_ok_canary:
  assumes "app_ready fs"
  shows "step_ok fs (Pair service_kind ` {ao_Name dep, cs_StableService (complete_canary (ao_Name dep) k), cs_CanaryService (complete_canary (ao_Name dep) k)}) c
    (prepareCanaryRollout dep w k c)"
proof -
  let ?k = "complete_canary (ao_Name dep) k"
  have "step_ok fs {} c (case cs_Traffic ?k of
      Some (IstioRouting i) \<Rightarrow> prepareCanaryIstioRollout (cs_StableService ?k) (cs_CanaryService ?k) i c | _ \<Rightarrow> (c, GitDone))" for c
    using step_ok_istio [OF assms] by (simp split: option.split traffic_routing.split)
  from step_ok_and_then [OF step_ok_services [OF assms, of dep "[cs_StableService ?k, cs_CanaryService ?k]" c w] this]
  show ?thesis by (simp add: prepareCanaryRollout_def Let_def)
qed


definition rollout_object :: "app_object \<Rightarrow> workload \<Rightarrow> deployment_strategy \<Rightarrow> int option \<Rightarrow> app_object" where
  "rollout_object dep w s replicas =
     \<lparr>ao_GVK = rollout_kind, ao_meta = generated_meta (ao_Name dep), ao_spec = RolloutObj (rollout_spec_of dep w s replicas)\<rparr>"

lemma ensureRollout_creates:
  assumes "app_ready fs" "grown fs objs c"
  obtains replicas where "ensureRollout dep w s c = of_store c (Create_object c (rollout_object dep w s replicas))"
  using no_rollout_yet(1) [OF assms, of "ao_Name dep"]
  by (simp add: ensureRollout_def Get_object_def Let_def rollout_object_def split: option.splits)

abbreviation argo_type :: "deployment_strategy \<Rightarrow> bool" where
  "argo_type s \<equiv> ds_Type s \<in> {CanaryDeploymentStrategyType, BlueGreenDeploymentStrategyType}"

lemma rollout_written:
  assumes "app_ready fs" "grown fs objs c"
  obtains objs' where "grown fs objs' (fst (ensureRollout dep w s c))" "avail fs objs \<subseteq> avail fs objs'"
    "snd (ensureRollout dep w s c) = GitDone \<Longrightarrow> \<exists>replicas. rollout_object dep w s replicas \<in> set objs'"
proof -
  obtain replicas where run: "ensureRollout dep w s c = of_store c (Create_object c (rollout_object dep w s replicas))"
    by (rule ensureRollout_creates [OF assms])
  show ?thesis
  proof (cases "Create_object c (rollout_object dep w s replicas)")
    case (Inl e)
    then show ?thesis using that [of objs] assms(2) run by (simp add: of_store_def)
  next
    case (Inr c')
    have "grown fs (put_obj (rollout_object dep w s replicas) objs) c' \<and> avail fs objs \<subseteq> avail fs (put_obj (rollout_object dep w s replicas) objs)"
      using grown_create [OF assms Inr] by (simp add: rollout_object_def)
    then show ?thesis using that [of "put_obj (rollout_object dep w s replicas) objs"] Inr run
      by (auto simp: of_store_def set_put_obj)
  qed
qed

lemma then_written:
  assumes "app_ready fs" "step_ok fs ks c r" "grown fs objs c"
  obtains objs' where "grown fs objs' (fst (and_then r (ensureRollout dep w s)))"
    "snd (and_then r (ensureRollout dep w s)) = GitDone \<Longrightarrow> ks \<subseteq> avail fs objs' \<and> (\<exists>replicas. rollout_object dep w s replicas \<in> set objs')"
proof -
  obtain a where a: "grown fs a (fst r)" "snd r = GitDone \<Longrightarrow> ks \<subseteq> avail fs a"
    using assms(2,3) unfolding step_ok_def by blast
  show ?thesis
  proof (cases "snd r = GitDone")
    case False
    then have "and_then r (ensureRollout dep w s) = r" by (cases r; cases "snd r") (simp_all add: and_then_def)
    then show ?thesis using that [of a] a(1) False by simp
  next
    case True
    then have run: "and_then r (ensureRollout dep w s) = ensureRollout dep w s (fst r)" by (cases r) (simp add: and_then_def)
    obtain b where "grown fs b (fst (ensureRollout dep w s (fst r)))" "avail fs a \<subseteq> avail fs b"
      "snd (ensureRollout dep w s (fst r)) = GitDone \<Longrightarrow> \<exists>replicas. rollout_object dep w s replicas \<in> set b"
      by (rule rollout_written [OF assms(1) a(1)]) blast
    then show ?thesis using that [of b] a(2) True run by auto
  qed
qed

lemma argo_written:
  assumes "app_ready fs" "grown fs objs c" "argo_type s"
  obtains objs' where "grown fs objs' (fst (configForArgoRollout dep w s c))"
    "snd (configForArgoRollout dep w s c) = GitDone \<Longrightarrow>
       Pair service_kind ` strategy_services (complete_strategy (ao_Name dep) s) \<subseteq> avail fs objs' \<and>
       (\<exists>replicas. rollout_object dep w (complete_strategy (ao_Name dep) s) replicas \<in> set objs')"
proof -
  let ?s = "complete_strategy (ao_Name dep) s"
  have "\<exists>r ks. configForArgoRollout dep w s c = and_then r (ensureRollout dep w ?s) \<and> step_ok fs ks c r \<and>
      Pair service_kind ` strategy_services ?s \<subseteq> ks"
  proof (cases "ds_Type s = CanaryDeploymentStrategyType")
    case True
    show ?thesis
      by (intro exI conjI, simp add: configForArgoRollout_def True, rule step_ok_canary [OF assms(1)])
        (auto simp: strategy_services_def complete_strategy_def True strategy_types split: option.splits)
  next
    case False
    then have blue: "ds_Type s = BlueGreenDeploymentStrategyType" using assms(3) by simp
    show ?thesis
      by (intro exI conjI, simp add: configForArgoRollout_def blue strategy_types prepareBlugreenRollout_def,
          rule step_ok_services [OF assms(1)])
        (auto simp: strategy_services_def complete_strategy_def blue strategy_types split: option.splits)
  qed
  then obtain r ks where r: "configForArgoRollout dep w s c = and_then r (ensureRollout dep w ?s)" "step_ok fs ks c r"
    "Pair service_kind ` strategy_services ?s \<subseteq> ks" by blast
  obtain objs' where "grown fs objs' (fst (and_then r (ensureRollout dep w ?s)))"
    "snd (and_then r (ensureRollout dep w ?s)) = GitDone \<Longrightarrow> ks \<subseteq> avail fs objs' \<and> (\<exists>replicas. rollout_object dep w ?s replicas \<in> set objs')"
    by (rule then_written [OF assms(1) r(2) assms(2)]) blast
  then show ?thesis using that [of objs'] r by auto
qed

section \<open>And what is removed\<close>

lemma delete_skip: "list_all (\<lambda>obj. \<not> generated obj) xs \<Longrightarrow> delete_generated (xs @ ys) c = delete_generated ys c"
  by (induction xs) auto

lemma find_object_fs [simp]: "find_object (c\<lparr>st_fs := x\<rparr>) key = find_object c key"
  by (simp add: find_object_def)

lemma delete_all:
  assumes "st_fs c = fs' @ map pack objs" "distinct (map file_for objs)"
    and "\<And>obj. obj \<in> set objs \<Longrightarrow> generated obj \<and> file_for obj \<notin> fst ` set fs' \<and> find_object c (obj_key obj) = Some (file_for obj, obj)"
  shows "delete_generated objs c = (c\<lparr>st_fs := fs'\<rparr>, GitDone)"
  using assms
proof (induction objs arbitrary: c)
  case (Cons obj objs)
  have gone: "AList.delete f xs = xs" if "f \<notin> fst ` set xs" for f and xs :: "app_file tree"
    using that by (induction xs) auto
  have append: "AList.delete f (xs @ ys) = AList.delete f xs @ AList.delete f ys" for f and xs ys :: "app_file tree"
    by (induction xs) auto
  have "file_for obj \<notin> fst ` set (map pack objs)" using Cons.prems(2) by (auto simp: pack_def)
  then have "Delete_object c (obj_key obj) = Inr (c\<lparr>st_fs := fs' @ map pack objs\<rparr>)"
    using Cons.prems(1,3) by (simp add: Delete_object_def gone append pack_def)
  moreover have "delete_generated objs (c\<lparr>st_fs := fs' @ map pack objs\<rparr>) = (c\<lparr>st_fs := fs'\<rparr>, GitDone)"
    using Cons.IH [of "c\<lparr>st_fs := fs' @ map pack objs\<rparr>"] Cons.prems(2,3) by simp
  ultimately show ?case using Cons.prems(3) by (simp add: of_store_def and_then_def)
qed (cases c, simp)


lemma index_pack: "index_files (map pack objs) = map (\<lambda>obj. (file_for obj, obj)) objs"
  by (induction objs) (simp_all add: pack_def)

lemma image_disjoint: "(\<And>x. x \<in> S \<Longrightarrow> f x \<notin> F) \<Longrightarrow> F \<inter> f ` S = {}"
  by blast

lemma grown_wf:
  assumes "app_ready fs" "grown fs objs c"
  shows "wf_files (fs @ map pack objs)"
proof -
  have files: "distinct (map file_for objs)" using assms(2) by (simp add: grown_def)
  then have "inj_on file_for (set objs)" "distinct objs" by (simp_all add: distinct_map)
  then have "distinct (map (\<lambda>obj. obj_key obj) objs)"
    using file_for_key assms(2) unfolding distinct_map grown_def by (metis (mono_tags, lifting) inj_on_def)
  moreover have "doc_keys (fs @ map pack objs) = doc_keys fs @ map (\<lambda>obj. obj_key obj) objs"
    by (simp add: doc_keys_def index_pack comp_def)
  moreover have "set (doc_keys fs) \<inter> obj_key ` set objs = {}" "distinct (doc_keys fs)"
    using assms by (auto simp: app_ready_def wf_files_def grown_def)
  ultimately have docs: "distinct (doc_keys (fs @ map pack objs))" by simp
  have "map fst (fs @ map pack objs) = map fst fs @ map file_for objs" by (simp add: pack_def)
  moreover have "wf_map fs" using assms(1) by (simp add: app_ready_def wf_files_def)
  moreover have "fst ` set fs \<inter> file_for ` set objs = {}"
    using assms(2) by (intro image_disjoint) (simp add: grown_def)
  ultimately have "wf_map (fs @ map pack objs)" using files by (simp only: distinct_append set_map simp_thms)
  with docs show ?thesis by (simp add: wf_files_def)
qed

lemma find_reopened:
  assumes "app_ready fs" "grown fs objs c" "find_object (NewGitFsStore fs) key = Some x \<or> (\<exists>obj \<in> set objs. key = obj_key obj \<and> x = (file_for obj, obj))"
  shows "find_object (NewGitFsStore (fs @ map pack objs)) key = Some x"
proof -
  obtain f obj where x: "x = (f, obj)" by (cases x)
  then have "(f, obj) \<in> set (index_files (fs @ map pack objs))" "key = obj_key obj"
    using assms(3) find_object_mem [of "NewGitFsStore fs" key f obj] by (auto simp: index_pack)
  then show ?thesis
    using find_object_distinct [of "NewGitFsStore (fs @ map pack objs)" f obj] grown_wf [OF assms(1,2)] x
    by (simp add: wf_files_def doc_keys_def)
qed

lemma clean_grown:
  assumes "app_ready fs" "grown fs objs c" "st_resources c' = index_files (fs @ map pack objs)" "st_fs c' = fs' @ map pack objs"
    and "fst ` set fs' = fst ` set fs"
  shows "CleanRollout c' = (c'\<lparr>st_fs := fs'\<rparr>, GitDone)"
proof -
  have found: "find_object c' key = find_object (NewGitFsStore (fs @ map pack objs)) key" for key
    using assms(3) by (simp add: find_object_def)
  have "delete_generated objs c' = (c'\<lparr>st_fs := fs'\<rparr>, GitDone)"
    using assms(2,5) find_reopened [OF assms(1,2)] by (intro delete_all [OF assms(4)]) (auto simp: grown_def found)
  moreover have "ListAll c' = ListAll (NewGitFsStore fs) @ objs" using assms(3) by (simp add: ListAll_def index_pack comp_def)
  moreover have "list_all (\<lambda>obj. \<not> generated obj) (ListAll (NewGitFsStore fs))"
    using assms(1) by (force simp: app_ready_def ListAll_def list_all_iff)
  ultimately show ?thesis by (simp add: CleanRollout_def delete_skip)
qed

lemma grown_opened: "app_ready fs \<Longrightarrow> grown fs [] (NewGitFsStore fs)"
  by (simp add: grown_def)

lemma reopened_deployment:
  assumes "grown fs objs c"
  shows "ParseMainDeployment (NewGitFsStore (fs @ map pack objs)) = ParseMainDeployment (NewGitFsStore fs)"
proof -
  have "filter (\<lambda>obj. ao_GVK obj = deployment_kind) objs = []"
    using assms by (auto simp: grown_def filter_empty_conv rollout_kinds_def deployment_kind_def apps_kind_def service_kind_def
        virtual_kind_def rollout_kind_def)
  then have "List_objects (NewGitFsStore (fs @ map pack objs)) deployment_kind = List_objects (NewGitFsStore fs) deployment_kind"
    by (simp add: List_objects_def ListAll_def index_pack comp_def)
  then show ?thesis by (simp add: ParseMainDeployment_def)
qed

lemma parsed_found:
  assumes "ParseMainDeployment (NewGitFsStore fs) = Some (dep, w)"
  obtains f obj where "find_object (NewGitFsStore fs) (obj_key dep) = Some (f, obj)" "f \<in> fst ` set fs"
proof -
  have "dep \<in> set (List_objects (NewGitFsStore fs) deployment_kind)"
    using assms by (auto simp: ParseMainDeployment_def split: list.splits obj_spec.splits)
  then have "obj_key dep \<in> set (doc_keys fs)" by (force simp: List_objects_def ListAll_def doc_keys_def)
  then obtain f obj where found: "find_object (NewGitFsStore fs) (obj_key dep) = Some (f, obj)"
    using objects_None [of fs "obj_key dep"] by (auto simp: objects_def)
  then show ?thesis using that find_object_mem [OF found] by (force simp: index_mem)
qed

text \<open>What a strategy of Argo writes on the files of an application.\<close>

lemma strategy_written:
  assumes "app_ready fs" "argo_type s"
  obtains objs where "fst (FSStoreFunc (PrepareDeploymentStrategy s) fs) = fs @ map pack objs" "\<exists>c. grown fs objs c"
    "\<And>dep w. ParseMainDeployment (NewGitFsStore fs) = Some (dep, w) \<Longrightarrow> snd (FSStoreFunc (PrepareDeploymentStrategy s) fs) = GitDone \<Longrightarrow>
       Pair service_kind ` strategy_services (complete_strategy (ao_Name dep) s) \<subseteq> avail fs objs \<and>
       (\<exists>replicas. rollout_object dep w (complete_strategy (ao_Name dep) s) replicas \<in> set objs)"
proof (cases "ParseMainDeployment (NewGitFsStore fs)")
  case None
  then show ?thesis using that [of "[]"] grown_opened [OF assms(1)] by (auto simp: FSStoreFunc_def PrepareDeploymentStrategy_def)
next
  case (Some p)
  obtain dep w where p: "p = (dep, w)" by (cases p)
  have "PrepareDeploymentStrategy s (NewGitFsStore fs) = configForArgoRollout dep w s (NewGitFsStore fs)"
    using assms(2) Some p by (auto simp: PrepareDeploymentStrategy_def configForDeployment_def and_then_def strategy_types)
  then have run: "FSStoreFunc (PrepareDeploymentStrategy s) fs =
      (st_fs (fst (configForArgoRollout dep w s (NewGitFsStore fs))), snd (configForArgoRollout dep w s (NewGitFsStore fs)))"
    by (simp add: FSStoreFunc_def split: prod.split)
  obtain objs where objs: "grown fs objs (fst (configForArgoRollout dep w s (NewGitFsStore fs)))"
    "snd (configForArgoRollout dep w s (NewGitFsStore fs)) = GitDone \<Longrightarrow>
       Pair service_kind ` strategy_services (complete_strategy (ao_Name dep) s) \<subseteq> avail fs objs \<and>
       (\<exists>replicas. rollout_object dep w (complete_strategy (ao_Name dep) s) replicas \<in> set objs)"
    by (rule argo_written [OF assms(1) grown_opened [OF assms(1)] assms(2)]) blast
  show ?thesis using that [of objs] objs Some p run by (auto simp: grown_def)
qed


lemma deployment_kept:
  assumes "app_ready fs" "grown fs objs c0" "\<not> argo_type t"
  shows "FSStoreFunc (PrepareDeploymentStrategy t) (fs @ map pack objs) =
    (case ParseMainDeployment (NewGitFsStore fs) of
       None \<Rightarrow> (fs @ map pack objs, GitFailed)
     | Some (dep, w) \<Rightarrow> (case configForDeployment dep w t (NewGitFsStore fs) of (_, c, r) \<Rightarrow> (st_fs c, r)))"
proof (cases "ParseMainDeployment (NewGitFsStore fs)")
  case None
  then show ?thesis using reopened_deployment [OF assms(2)] by (simp add: FSStoreFunc_def PrepareDeploymentStrategy_def)
next
  case (Some p)
  obtain dep w where p: "p = (dep, w)" by (cases p)
  obtain f obj where found: "find_object (NewGitFsStore fs) (obj_key dep) = Some (f, obj)" "f \<in> fst ` set fs"
    using parsed_found Some p by blast
  let ?c = "NewGitFsStore (fs @ map pack objs)"
  have there: "find_object ?c (obj_key dep) = Some (f, obj)" using find_reopened [OF assms(1,2)] found(1) by blast
  have clean: "configForArgoRollout dep' w' t c = CleanRollout c" for dep' w' c
    using assms(3) by (simp add: configForArgoRollout_def)
  have wf1: "wf_map fs" using assms(1) by (simp add: app_ready_def wf_files_def)
  have wf2: "wf_map (fs @ map pack objs)" using grown_wf [OF assms(1,2)] unfolding wf_files_def by (rule conjunct1)
  have upd: "AList.update f (Doc x) (fs @ map pack objs) = AList.update f (Doc x) fs @ map pack objs" for x
  proof -
    let ?upd = "\<lambda>(g, v). (g, if g = f then Doc x else v)"
    have other: "file_for obj \<noteq> f" if "obj \<in> set objs" for obj using assms(2) found(2) that by (auto simp: grown_def)
    have "map ?upd (map pack objs) = map pack objs"
      by (rule map_idI) (use other in \<open>auto simp: pack_def\<close>)
    moreover have "f \<in> fst ` set (fs @ map pack objs)" using found(2) by (simp add: image_Un)
    ultimately show ?thesis
      unfolding update_present [OF wf1 found(2)] update_present [OF wf2 \<open>f \<in> fst ` set (fs @ map pack objs)\<close>] map_append by simp
  qed
  show ?thesis
  proof (cases "(ds_Type t = RollingUpdateDeploymentStrategyType \<or> ds_Type t = RecreatDeploymentStrategyType) \<and> wl_StrategyType w \<noteq> ds_Type t")
    case False
    have "CleanRollout ?c = (?c\<lparr>st_fs := fs\<rparr>, GitDone)"
      by (rule clean_grown [OF assms(1,2)]) simp_all
    moreover have "configForDeployment dep w t c = ((dep, w), c, GitDone)" for c
      using False by (auto simp: configForDeployment_def)
    ultimately show ?thesis
      using Some p reopened_deployment [OF assms(2)] clean by (simp add: FSStoreFunc_def PrepareDeploymentStrategy_def and_then_def)
  next
    case True
    define w' where "w' = w\<lparr>wl_StrategyType := ds_Type t, wl_Rolling := (if ds_Type t = RollingUpdateDeploymentStrategyType then ds_Rolling t else None)\<rparr>"
    define dep' where "dep' = dep\<lparr>ao_spec := Workload w'\<rparr>"
    have key: "obj_key dep' = obj_key dep" by (simp add: dep'_def)
    have conf: "configForDeployment dep w t c = ((dep', w'), of_store c (Update_object c dep'))" for c
      using True by (simp add: configForDeployment_def Let_def w'_def dep'_def)
    have old: "Update_object (NewGitFsStore fs) dep' = Inr ((NewGitFsStore fs)\<lparr>st_fs := AList.update f (Doc dep') fs\<rparr>)"
      using found(1) key by (simp add: Update_object_def write_file_def)
    have new: "Update_object ?c dep' = Inr (?c\<lparr>st_fs := AList.update f (Doc dep') fs @ map pack objs\<rparr>)"
      using there key by (simp add: Update_object_def write_file_def upd)
    have "CleanRollout (?c\<lparr>st_fs := AList.update f (Doc dep') fs @ map pack objs\<rparr>) = (?c\<lparr>st_fs := AList.update f (Doc dep') fs\<rparr>, GitDone)"
      using found(2) by (subst clean_grown [OF assms(1,2), where fs' = "AList.update f (Doc dep') fs"])
        (auto simp: dom_update)
    then show ?thesis
      using Some p reopened_deployment [OF assms(2)] clean conf old new
      by (simp add: FSStoreFunc_def PrepareDeploymentStrategy_def and_then_def of_store_def)
  qed
qed



text \<open>What of a completed strategy is read back: of a canary, not what its route matches.\<close>

definition kept_strategy :: "deployment_strategy \<Rightarrow> deployment_strategy" where
  "kept_strategy s =
     \<lparr>ds_Type = ds_Type s,
      ds_Canary = (if ds_Type s = CanaryDeploymentStrategyType then map_option ToCanaryStrategy (ds_Canary s) else None),
      ds_BlueGreen = (if ds_Type s = BlueGreenDeploymentStrategyType then ds_BlueGreen s else None), ds_Rolling = None\<rparr>"


section \<open>Images and a strategy\<close>

lemma store_func_writes:
  assumes "gt_cached g" "\<not> Expired env g"
  obtains wt e where "StoreFunc env readme path f g = (g\<lparr>gt_wt := wt\<rparr>, e)"
proof -
  have "Get_repo env readme ''service'' g = (g, True)" using assms by (simp add: Get_repo_def)
  then have "StoreFunc env readme path f g = run_funcs path [FsFunc (FSStoreFunc f)] g"
    by (simp add: StoreFunc_def ContentFunc_def Func_def)
  moreover obtain wt e where "FsFunc (FSStoreFunc f) path g = (g\<lparr>gt_wt := wt\<rparr>, e)"
    by (cases "FSStoreFunc f (chroot path (gt_wt g))") (simp add: FsFunc_def)
  ultimately show ?thesis using that by (cases e) simp_all
qed

text \<open>The images that were written are lost when the pull of the second request finds something new: the request then does just what it does
  without images.\<close>

theorem images_lost_to_pull:
  assumes "gt_cached g" "\<not> Expired env g" "\<not> gv_keeps_untracked env"
    and "Pull env g = (g2, True)" "gt_tracking g2 \<noteq> gt_tracking g"
    and "snd (StoreFunc env readme path (UpdateContentImages img_matches images version) g) = GitDone"
  shows "PrepareDeploymentStrategyWithImages env readme k author img_matches path images version s g =
    PrepareDeploymentStrategyWithImages env readme k author img_matches path [] [] s g"
proof -
  obtain wt e where "StoreFunc env readme path (UpdateContentImages img_matches images version) g = (g\<lparr>gt_wt := wt\<rparr>, e)"
    by (rule store_func_writes [OF assms(1,2)])
  then have written: "StoreFunc env readme path (UpdateContentImages img_matches images version) g = (g\<lparr>gt_wt := wt\<rparr>, GitDone)"
    using assms(6) by simp
  have news: "gt_tracking g \<noteq> gv_others env (gt_clock g) (gt_remote g)" "\<not> gv_fetch_fails env (gt_clock g)"
    using assms(4,5) by (auto simp: Pull_def resetOriginLatest_def git_fetch_def reach_server_def Let_def split: if_splits)
  have "Pull env (g\<lparr>gt_wt := wt\<rparr>) = Pull env g"
    using news assms(3) by (simp add: Pull_def resetOriginLatest_def git_fetch_def reach_server_def hard_reset_def Let_def)
  moreover have "Get_repo env readme ''service'' (g\<lparr>gt_wt := wt\<rparr>) = (g\<lparr>gt_wt := wt\<rparr>, True)"
    "Get_repo env readme ''service'' g = (g, True)"
    using assms(1,2) by (simp_all add: Get_repo_def Expired_def)
  ultimately have "SetStrategy env readme k author path s (g\<lparr>gt_wt := wt\<rparr>) = SetStrategy env readme k author path s g"
    by (simp add: SetStrategy_def StoreUpdateFunc_def UpdateContentFunc_def Func_def PullFunc_def)
  then show ?thesis using written by (simp add: PrepareDeploymentStrategyWithImages_def)
qed

section \<open>A canary\<close>

definition ex_canary :: deployment_strategy where
  "ex_canary = \<lparr>ds_Type = ''Canary'',
     ds_Canary = Some (no_canary\<lparr>cs_Traffic := Some (IstioRouting
       \<lparr>ir_Name = [], ir_Routes = [], ir_Headers = [], ir_Uri = Some ''/v2'', ir_IgnoreUriCase = False\<rparr>)\<rparr>),
     ds_BlueGreen = None, ds_Rolling = None\<rparr>"

definition ex_recreate :: deployment_strategy where
  "ex_recreate = \<lparr>ds_Type = ''Recreate'', ds_Canary = None, ds_BlueGreen = None, ds_Rolling = None\<rparr>"

lemma ex_ready: "app_ready ex_files"
proof -
  have files: "fst ` set ex_files = {''deployment.yaml'', ''readme.md''}" by (simp add: ex_files_def)
  have "file_for obj \<notin> fst ` set ex_files" if "ao_GVK obj \<in> rollout_kinds" for obj
    using that unfolding files rollout_kinds_def by (auto simp: file_for_def lower_kinds)
  moreover have "\<forall>(f, obj) \<in> set (index_files ex_files). \<not> generated obj"
    by (simp add: ex_files_def is_yaml_def suffix_def generated_def ex_deployment_def plain_meta_def get_str_def
        AnnotationGeneratedByPlatformValueRollouts_def)
  moreover have "(rollout_kind, name) \<notin> set (doc_keys ex_files)" "(virtual_kind, name) \<notin> set (doc_keys ex_files)" for name
    by (simp_all add: doc_keys_def ex_files_def ex_deployment_def deployment_kind_def apps_kind_def rollout_kind_def virtual_kind_def)
  ultimately show ?thesis using wf_ex_files by (auto simp: app_ready_def)
qed

theorem update_routes_two_runs_witness:
  "\<exists>v. v \<noteq> \<lparr>hr_Name = ''canary'', hr_Match = None, hr_Destinations = [(''web'', 100), (''web-canary'', 0)]\<rparr> \<and>
     update_routes \<lparr>hr_Name = ''canary'', hr_Match = None, hr_Destinations = [(''web'', 100), (''web-canary'', 0)]\<rparr>
       [\<lparr>hr_Name = ''mine'', hr_Match = None, hr_Destinations = []\<rparr>, v] =
     ([v, \<lparr>hr_Name = ''mine'', hr_Match = None, hr_Destinations = []\<rparr>], True)"
  using update_routes_two_runs [of "\<lparr>hr_Name = ''canary'', hr_Match = None, hr_Destinations = [(''web'', 100), (''web-canary'', 0)]\<rparr>"
      "[\<lparr>hr_Name = ''mine'', hr_Match = None, hr_Destinations = []\<rparr>]" "[]" "\<lparr>hr_Name = ''canary'', hr_Match = None, hr_Destinations = []\<rparr>"]
  by (intro exI [of _ "\<lparr>hr_Name = ''canary'', hr_Match = None, hr_Destinations = []\<rparr>"]) simp



end
