(* ===== verification/Resource_List.thy ===== *)
theory Resource_List
  imports Go_Prelude
begin

text \<open>
  Labels and resource lists: \<open>pkg/utils/maps/map.go\<close>, \<open>pkg/utils/resourcequota/resourcequota.go\<close>
  and \<open>pkg/utils/statistics\<close> (\<open>types.go\<close>, \<open>resources.go\<close>).

  A \<open>resource.Quantity\<close> is an exact decimal; it is an integer here, the amount in units of
  \<open>10\<^sup>-\<^sup>9\<close>, and its printed form is an argument \<open>sh\<close> of the operations that make messages. A
  \<open>corev1.ResourceList\<close> is a Go map; a missing name reads as the zero quantity.
\<close>

section \<open>Labels\<close>

type_synonym labels = "(string, string) gomap"

fun label_differs :: "labels \<Rightarrow> labels \<Rightarrow> bool" where
  "label_differs origin [] = False"
| "label_differs origin ((k, v) # kvs) =
     (case map_of origin k of
        None \<Rightarrow> True
      | Some tmpv \<Rightarrow> if tmpv \<noteq> v then True else label_differs origin kvs)"

definition LabelChanged :: "labels \<Rightarrow> labels \<Rightarrow> bool" where
  "LabelChanged origin newone = (if origin = [] then True else label_differs origin newone)"

definition DeleteLabels :: "labels \<Rightarrow> labels \<Rightarrow> labels" where
  "DeleteLabels origin todel =
     (if origin = [] then origin else foldl (\<lambda>m (k, v). AList.delete k m) origin todel)"

definition GetLabels :: "labels \<Rightarrow> string list \<Rightarrow> labels" where
  "GetLabels origin ks =
     foldl (\<lambda>ret k. case map_of origin k of None \<Rightarrow> ret | Some v \<Rightarrow> AList.update k v ret) [] ks"

text \<open>\<open>labels.Merge\<close> of apimachinery: the second map wins.\<close>

definition labels_Merge :: "labels \<Rightarrow> labels \<Rightarrow> labels" where
  "labels_Merge a b = foldl (\<lambda>m (k, v). AList.update k v m) a b"

section \<open>Quantities\<close>

type_synonym quantity = int
type_synonym resource_list = "(string, quantity) gomap"

definition whole :: "int \<Rightarrow> quantity" where "whole n = n * 10 ^ 9"
definition milli :: "int \<Rightarrow> quantity" where "milli n = n * 10 ^ 6"
definition mebi :: "int \<Rightarrow> quantity" where "mebi n = whole (n * 2 ^ 20)"
definition gibi :: "int \<Rightarrow> quantity" where "gibi n = whole (n * 2 ^ 30)"
definition tebi :: "int \<Rightarrow> quantity" where "tebi n = whole (n * 2 ^ 40)"

definition qty :: "resource_list \<Rightarrow> string \<Rightarrow> quantity" where
  "qty l k = (case map_of l k of None \<Rightarrow> 0 | Some v \<Rightarrow> v)"

section \<open>Sums of resource lists\<close>

definition FilterResourceName :: "resource_list \<Rightarrow> (string \<Rightarrow> bool) \<Rightarrow> resource_list" where
  "FilterResourceName l keep =
     foldl (\<lambda>ret (k, v). if keep k then AList.update k v ret else ret) [] l"

definition AppendResourceNamePrefix :: "string \<Rightarrow> resource_list \<Rightarrow> resource_list" where
  "AppendResourceNamePrefix pre l = foldl (\<lambda>ret (k, v). AList.update (pre @ k) v ret) [] l"

definition ResourceListCollect ::
  "resource_list \<Rightarrow> resource_list \<Rightarrow> (string \<Rightarrow> quantity \<Rightarrow> quantity \<Rightarrow> quantity) \<Rightarrow> resource_list" where
  "ResourceListCollect into vals collect =
     foldl (\<lambda>into (k, q). AList.update k (collect k (qty into k) q) into) into vals"

definition AddResourceList :: "resource_list \<Rightarrow> resource_list \<Rightarrow> resource_list" where
  "AddResourceList tot add = ResourceListCollect tot add (\<lambda>_ into val. into + val)"

definition SubResourceList :: "resource_list \<Rightarrow> resource_list \<Rightarrow> resource_list" where
  "SubResourceList tot sub = ResourceListCollect tot sub (\<lambda>_ into val. into - val)"

definition sum_lists :: "resource_list list \<Rightarrow> resource_list" where
  "sum_lists ls = foldl AddResourceList [] ls"

record container =
  c_limits :: resource_list
  c_requests :: resource_list

record pod =
  p_phase :: string
  p_node :: string
  p_containers :: "container list"

record pod_statistics =
  ps_limit :: resource_list
  ps_request :: resource_list
  ps_nodes :: "(string, container) gomap"

definition count_container :: "string \<Rightarrow> pod_statistics \<Rightarrow> container \<Rightarrow> pod_statistics" where
  "count_container node st c =
    (let st1 = st\<lparr>ps_limit := AddResourceList (ps_limit st) (c_limits c),
                 ps_request := AddResourceList (ps_request st) (c_requests c)\<rparr>
     in if node \<noteq> [] then
          (let old = (case map_of (ps_nodes st) node of
                        None \<Rightarrow> \<lparr>c_limits = [], c_requests = []\<rparr> | Some n \<Rightarrow> n)
           in st1\<lparr>ps_nodes := AList.update node
                \<lparr>c_limits = AddResourceList (c_limits old) (c_limits c),
                 c_requests = AddResourceList (c_requests old) (c_requests c)\<rparr> (ps_nodes st)\<rparr>)
        else st1)"

definition GetAllPodResourceStatistics :: "pod list \<Rightarrow> pod_statistics" where
  "GetAllPodResourceStatistics pods =
     foldl (\<lambda>st p. if p_phase p = ''Succeeded'' \<or> p_phase p = ''Failed'' then st
                   else foldl (count_container (p_node p)) st (p_containers p))
       \<lparr>ps_limit = [], ps_request = [], ps_nodes = []\<rparr> pods"

definition GetClusterTenantResourceQuotaLimits :: "resource_list list \<Rightarrow> resource_list" where
  "GetClusterTenantResourceQuotaLimits hards = sum_lists hards"

definition ResourceLimitsPrefix :: string where
  "ResourceLimitsPrefix = ''limits.''"

record cluster_statistics =
  cs_Capacity :: resource_list
  cs_Used :: resource_list
  cs_TenantAllocated :: resource_list

definition GetClusterResourceStatistics ::
  "resource_list list \<Rightarrow> pod list \<Rightarrow> resource_list list \<Rightarrow> cluster_statistics" where
  "GetClusterResourceStatistics capacities pods hards =
    (let allcapacity = sum_lists capacities;
         allPodUsed = GetAllPodResourceStatistics pods;
         alloc0 = GetClusterTenantResourceQuotaLimits hards;
         alloc1 = (case map_of alloc0 ''requests.storage'' of
                     None \<Rightarrow> alloc0 | Some v \<Rightarrow> AList.update ''limits.storage'' v alloc0)
     in \<lparr>cs_Capacity = AppendResourceNamePrefix ResourceLimitsPrefix allcapacity,
         cs_Used = AppendResourceNamePrefix ResourceLimitsPrefix (ps_limit allPodUsed),
         cs_TenantAllocated = FilterResourceName alloc1 (\<lambda>n. has_prefix n ResourceLimitsPrefix)\<rparr>)"

section \<open>Quotas\<close>

definition GetDefaultTeantResourceQuota :: resource_list where
  "GetDefaultTeantResourceQuota =
     [(''limits.cpu'', 0), (''limits.memory'', 0), (''requests.storage'', 0)]"

definition GetDefaultEnvironmentResourceQuota :: resource_list where
  "GetDefaultEnvironmentResourceQuota =
     [(''requests.cpu'', 0), (''limits.cpu'', 0), (''requests.memory'', 0), (''limits.memory'', 0),
      (''requests.storage'', 0), (''pods'', whole 5120),
      (''count/deployments.apps'', whole 512), (''count/daemonsets.apps'', whole 512),
      (''count/ingresses.extensions'', whole 512), (''count/statefulsets.apps'', whole 512),
      (''count/jobs.batch'', whole 512), (''count/cronjobs.batch'', whole 512),
      (''count/secrets'', whole 512), (''count/configmaps'', whole 512), (''count/services'', whole 512),
      (''count/persistentvolumeclaims'', whole 512)]"

record limit_item =
  li_type :: string
  li_max :: resource_list
  li_min :: resource_list
  li_default :: resource_list
  li_default_request :: resource_list

definition GetDefaultEnvironmentLimitRange :: "limit_item list" where
  "GetDefaultEnvironmentLimitRange =
     [\<lparr>li_type = ''Container'',
       li_max = [(''cpu'', whole 24), (''memory'', gibi 48)],
       li_min = [(''cpu'', 0), (''memory'', 0)],
       li_default = [(''cpu'', milli 500), (''memory'', gibi 1)],
       li_default_request = [(''cpu'', milli 10), (''memory'', mebi 10)]\<rparr>,
      \<lparr>li_type = ''Pod'',
       li_max = [(''cpu'', whole 48), (''memory'', gibi 64)],
       li_min = [(''cpu'', 0), (''memory'', 0)],
       li_default = [], li_default_request = []\<rparr>,
      \<lparr>li_type = ''PersistentVolumeClaim'',
       li_max = [(''storage'', tebi 1)], li_min = [(''storage'', 0)],
       li_default = [], li_default_request = []\<rparr>]"

definition limit_errors :: "(quantity \<Rightarrow> string) \<Rightarrow> limit_item \<Rightarrow> string list" where
  "limit_errors sh item =
     concat (map (\<lambda>(k, v). case map_of (li_default item) k of
         None \<Rightarrow> []
       | Some limitv \<Rightarrow> if v > limitv then
           [''limitType '' @ li_type item @ '' error: '' @ k @ '' limit value '' @ sh limitv @
            '', requests value '' @ sh v] else []) (li_default_request item))"

definition IsLimitRangeInvalid :: "(quantity \<Rightarrow> string) \<Rightarrow> limit_item list \<Rightarrow> string list \<times> bool" where
  "IsLimitRangeInvalid sh items =
     (let errmsg = concat (map (limit_errors sh) items) in (errmsg, errmsg \<noteq> []))"

definition enough_step ::
  "(quantity \<Rightarrow> string) \<Rightarrow> resource_list \<Rightarrow> resource_list \<Rightarrow> bool \<times> string list \<Rightarrow> string \<times> quantity
     \<Rightarrow> bool \<times> string list" where
  "enough_step sh tot used = (\<lambda>(valid, msgs) (k, needv).
     case (map_of tot k, map_of used k) of
       (Some totalv, Some usedv) \<Rightarrow>
         if totalv - usedv < needv
         then (False, msgs @ [k @ '' left '' @ sh (totalv - usedv) @ '' but need '' @ sh needv])
         else (valid, msgs)
     | _ \<Rightarrow> (valid, msgs))"

definition ResourceEnough ::
  "(quantity \<Rightarrow> string) \<Rightarrow> resource_list \<Rightarrow> resource_list \<Rightarrow> resource_list \<Rightarrow> bool \<times> string list" where
  "ResourceEnough sh tot used need = foldl (enough_step sh tot used) (True, []) need"

definition is_enough_step ::
  "(quantity \<Rightarrow> string) \<Rightarrow> resource_list \<Rightarrow> resource_list \<Rightarrow> resource_list \<Rightarrow> bool \<times> string list \<Rightarrow> string
     \<Rightarrow> bool \<times> string list" where
  "is_enough_step sh tot used need = (\<lambda>(ret, msgs) r.
     let needv = qty need r; tmp = qty tot r - qty used r in
     if needv = 0 then (ret, msgs)
     else if tmp < needv
     then (False, msgs @ [r @ '' not enough to apply, tenant left '' @ sh tmp @ '' but need '' @ sh needv])
     else (ret, msgs))"

definition ResourceIsEnough ::
  "(quantity \<Rightarrow> string) \<Rightarrow> resource_list \<Rightarrow> resource_list \<Rightarrow> resource_list \<Rightarrow> string list \<Rightarrow> bool \<times> string list" where
  "ResourceIsEnough sh tot used need resources =
     foldl (is_enough_step sh tot used need) (True, []) resources"

definition SubResource :: "resource_list \<Rightarrow> resource_list \<Rightarrow> resource_list" where
  "SubResource oldres newres =
     foldl (\<lambda>ret (k, v). case map_of oldres k of
              Some ov \<Rightarrow> AList.update k (v - ov) ret
            | None \<Rightarrow> AList.update k v ret) [] newres"

text \<open>
  \<open>SetSameRequestWithLimit\<close> writes to the map it ranges over. What it writes are names that start
  with \<open>requests.\<close>; the model visits the entries there at the start, which is all the loop acts on
  unless a name has \<open>limits.\<close> in it twice.
\<close>

definition SetSameRequestWithLimit :: "resource_list \<Rightarrow> resource_list" where
  "SetSameRequestWithLimit l =
     foldl (\<lambda>m (k, v). case index_of k ''limits.'' of
              None \<Rightarrow> m
            | Some i \<Rightarrow> AList.update (''requests.'' @ drop (i + 7) k) v m) l l"

section \<open>Lemmas\<close>

lemma label_differs_iff: "label_differs origin kvs \<longleftrightarrow> (\<exists>(k, v) \<in> set kvs. map_of origin k \<noteq> Some v)"
  by (induction origin kvs rule: label_differs.induct) (auto split: option.splits)

lemma labels_Merge_of: "wf_map b \<Longrightarrow> map_of (labels_Merge a b) = map_of a ++ map_of b"
proof -
  have "map_of (foldl (\<lambda>m (k, v). AList.update k v m) a b) = map_of a ++ map_of b" if "wf_map b"
    using that
  proof (induction b arbitrary: a)
    case (Cons x b)
    obtain k v where x: "x = (k, v)" by (cases x)
    have "map_of b k = None" using Cons.prems x by (simp add: map_of_eq_None_iff)
    then show ?case using Cons x by (auto simp: fun_eq_iff map_add_def split: option.splits)
  qed simp
  then show "wf_map b \<Longrightarrow> ?thesis" by (simp add: labels_Merge_def)
qed

lemma GetLabels_of: "map_of (GetLabels origin ks) k = (if k \<in> set ks then map_of origin k else None)"
proof -
  have "map_of (foldl (\<lambda>ret k. case map_of origin k of None \<Rightarrow> ret | Some v \<Rightarrow> AList.update k v ret) r ks) k =
      (if k \<in> set ks \<and> map_of origin k \<noteq> None then map_of origin k else map_of r k)" for r
    by (induction ks arbitrary: r) (auto split: option.splits)
  then show ?thesis by (auto simp: GetLabels_def)
qed

lemma qty_update [simp]: "qty (AList.update k v l) j = (if j = k then v else qty l j)"
  by (simp add: qty_def)

lemma qty_Cons [simp]: "qty ((k, v) # l) j = (if j = k then v else qty l j)"
  by (simp add: qty_def)

lemma qty_Nil [simp]: "qty [] k = 0"
  by (simp add: qty_def)

lemma wf_Collect: "wf_map into \<Longrightarrow> wf_map (ResourceListCollect into vals f)"
  by (induction vals arbitrary: into) (auto simp: ResourceListCollect_def)

text \<open>Collecting a list with distinct names acts once on each of them.\<close>

lemma qty_Collect:
  assumes "wf_map vals"
  shows "qty (ResourceListCollect into vals f) k =
    (case map_of vals k of None \<Rightarrow> qty into k | Some v \<Rightarrow> f k (qty into k) v)"
  using assms
proof (induction vals arbitrary: into)
  case Nil
  then show ?case by (simp add: ResourceListCollect_def)
next
  case (Cons x vals)
  obtain j q where x: "x = (j, q)" by (cases x)
  have "map_of vals j = None" using Cons.prems x by (simp add: map_of_eq_None_iff)
  then show ?case
    using Cons.IH [of "AList.update j (f j (qty into j) q) into"] Cons.prems x
    by (auto simp: ResourceListCollect_def split: option.splits)
qed

lemma dom_Collect:
  "map_of (ResourceListCollect into vals f) k = None \<longleftrightarrow> map_of into k = None \<and> k \<notin> fst ` set vals"
proof (induction vals arbitrary: into)
  case (Cons x vals)
  obtain j q where x: "x = (j, q)" by (cases x)
  show ?case
    using Cons.IH [of "AList.update j (f j (qty into j) q) into"] x
    by (auto simp: ResourceListCollect_def)
qed (simp add: ResourceListCollect_def)

lemma qty_Add [simp]: "wf_map b \<Longrightarrow> qty (AddResourceList a b) k = qty a k + qty b k"
  by (simp add: AddResourceList_def qty_Collect) (simp add: qty_def split: option.split)

lemma qty_Sub [simp]: "wf_map b \<Longrightarrow> qty (SubResourceList a b) k = qty a k - qty b k"
  by (simp add: SubResourceList_def qty_Collect) (simp add: qty_def split: option.split)

lemma qty_foldl_Add:
  "(\<And>l. l \<in> set ls \<Longrightarrow> wf_map l) \<Longrightarrow>
     qty (foldl AddResourceList a ls) k = qty a k + sum_list (map (\<lambda>l. qty l k) ls)"
  by (induction ls arbitrary: a) auto

lemma dom_foldl_Add:
  "map_of (foldl AddResourceList a ls) k = None \<longleftrightarrow> map_of a k = None \<and> (\<forall>l \<in> set ls. k \<notin> fst ` set l)"
  by (induction ls arbitrary: a) (simp_all add: AddResourceList_def dom_Collect)

lemma wf_foldl_Add: "wf_map a \<Longrightarrow> wf_map (foldl AddResourceList a ls)"
  by (induction ls arbitrary: a) (auto simp: AddResourceList_def wf_Collect)

text \<open>The two checks, as what they decide.\<close>

lemma enough_fst:
  "fst (foldl (enough_step sh tot used) st need) \<longleftrightarrow> fst st \<and>
     (\<forall>(k, v) \<in> set need. \<forall>t u. map_of tot k = Some t \<longrightarrow> map_of used k = Some u \<longrightarrow> u + v \<le> t)"
proof (induction need arbitrary: st)
  case (Cons x need)
  obtain k v where x: "x = (k, v)" by (cases x)
  have "fst (enough_step sh tot used st (k, v)) \<longleftrightarrow> fst st \<and>
      (\<forall>t u. map_of tot k = Some t \<longrightarrow> map_of used k = Some u \<longrightarrow> u + v \<le> t)"
    by (cases st) (auto simp: enough_step_def split: option.split)
  then show ?case using Cons x by simp
qed simp

lemma ResourceEnough_iff:
  "fst (ResourceEnough sh tot used need) \<longleftrightarrow>
     (\<forall>(k, v) \<in> set need. \<forall>t u. map_of tot k = Some t \<longrightarrow> map_of used k = Some u \<longrightarrow> u + v \<le> t)"
  by (simp add: ResourceEnough_def enough_fst)

lemma is_enough_fst:
  "fst (foldl (is_enough_step sh tot used need) st rs) \<longleftrightarrow> fst st \<and>
     (\<forall>r \<in> set rs. qty need r = 0 \<or> qty used r + qty need r \<le> qty tot r)"
proof (induction rs arbitrary: st)
  case (Cons r rs)
  have "fst (is_enough_step sh tot used need st r) \<longleftrightarrow> fst st \<and>
      (qty need r = 0 \<or> qty used r + qty need r \<le> qty tot r)"
    by (cases st) (auto simp: is_enough_step_def Let_def)
  then show ?case using Cons by simp
qed simp

lemma ResourceIsEnough_iff:
  "fst (ResourceIsEnough sh tot used need rs) \<longleftrightarrow>
     (\<forall>r \<in> set rs. qty need r = 0 \<or> qty used r + qty need r \<le> qty tot r)"
  by (simp add: ResourceIsEnough_def is_enough_fst)

lemma map_of_SubResource:
  assumes "wf_map newres"
  shows "map_of (SubResource oldres newres) k = map_option (\<lambda>v. v - qty oldres k) (map_of newres k)"
proof -
  have "map_of (foldl (\<lambda>ret (k, v). case map_of oldres k of
              Some ov \<Rightarrow> AList.update k (v - ov) ret
            | None \<Rightarrow> AList.update k v ret) r newres) k =
      (case map_of newres k of None \<Rightarrow> map_of r k | Some v \<Rightarrow> Some (v - qty oldres k))" for r
    using assms
  proof (induction newres arbitrary: r)
    case (Cons x xs)
    obtain j v where x: "x = (j, v)" by (cases x)
    have j: "map_of xs j = None" using Cons.prems x by (simp add: map_of_eq_None_iff)
    have s: "map_of (case map_of oldres j of Some ov \<Rightarrow> AList.update j (v - ov) r | None \<Rightarrow> AList.update j v r) =
        (map_of r)(j \<mapsto> v - qty oldres j)"
      by (simp add: qty_def split: option.split)
    show ?case using Cons.IH Cons.prems x j s by (auto split: option.splits)
  qed simp
  then show ?thesis by (auto simp: SubResource_def split: option.split)
qed

end
