(* ===== verification/Tenant_Quota.thy ===== *)
theory Tenant_Quota
  imports Resource_List
begin

text \<open>
  Admission of tenants, environments and quotas (\<open>pkg/controller/webhooks/v_*.go\<close>, \<open>m_*.go\<close>)
  and the controller that keeps the status of a tenant's quota
  (\<open>pkg/controller/controllers/tenantresourcequota_controller.go\<close>).

  What a handler reads from the API server is a record of functions: \<open>Get\<close> finds an object, finds
  none, or fails; a \<open>List\<close> whose error the code ignores is the list of items it is left with. The
  object of a request is the result of decoding it.
\<close>

section \<open>Objects\<close>

record tenant =
  tn_name :: string
  tn_spec_name :: string

record tenant_quota =
  tq_name :: string
  tq_owner :: "(string \<times> string) option"
  tq_hard :: resource_list
  tq_used :: resource_list
  tq_allocated :: resource_list

record environment =
  env_name :: string
  env_tenant :: string
  env_project :: string
  env_namespace :: string
  env_quota :: resource_list
  env_quota_name :: string
  env_limits :: "limit_item list option"
  env_limits_name :: string

definition zero_environment :: environment where
  "zero_environment = \<lparr>env_name = [], env_tenant = [], env_project = [], env_namespace = [], env_quota = [],
     env_quota_name = [], env_limits = None, env_limits_name = []\<rparr>"

datatype 'a got = Found 'a | NotFound | Failed string

record api =
  get_tenant :: "string \<Rightarrow> tenant got"
  get_trq :: "string \<Rightarrow> tenant_quota got"
  get_env :: "string \<Rightarrow> environment got"
  get_owner :: "string \<Rightarrow> (string \<times> string) option got"
  list_envs :: "environment list"
  list_nodes :: "string + resource_list list"
  list_trqs :: "string + tenant_quota list"

datatype operation = Create | Update | Delete | Connect

datatype admission = Allowed | Denied string | Errored string

section \<open>Environments\<close>

definition notenant :: string where
  "notenant = ''notenant''"

definition tenantExist :: "api \<Rightarrow> string \<Rightarrow> bool" where
  "tenantExist a tenantName =
     (if tenantName = notenant then True
      else (case get_tenant a tenantName of Found _ \<Rightarrow> True | _ \<Rightarrow> False))"

definition ResourceKeys :: "resource_list \<Rightarrow> string list" where
  "ResourceKeys l = map fst l"

definition tenantResourceIsEnough ::
  "(quantity \<Rightarrow> string) \<Rightarrow> tenant_quota \<Rightarrow> environment \<Rightarrow> environment option \<Rightarrow> bool \<times> string list" where
  "tenantResourceIsEnough sh trq env old =
    (let allocated = (case old of
           Some o' \<Rightarrow> foldl (\<lambda>acc k. AList.update k
               (case map_of (env_quota o') k of
                  Some oldv \<Rightarrow> qty (tq_allocated trq) k - oldv
                | None \<Rightarrow> qty (tq_allocated trq) k) acc) [] (ResourceKeys GetDefaultTeantResourceQuota)
         | None \<Rightarrow> tq_allocated trq)
     in ResourceIsEnough sh (tq_hard trq) allocated (env_quota env) (ResourceKeys GetDefaultTeantResourceQuota))"

text \<open>\<open>equality.Semantic.DeepEqual\<close> on resource lists: the same names with equal amounts.\<close>

definition same_list :: "resource_list \<Rightarrow> resource_list \<Rightarrow> bool" where
  "same_list a b \<longleftrightarrow> list_all (\<lambda>(k, v). map_of b k = Some v) a \<and> list_all (\<lambda>(k, v). map_of a k = Some v) b"

definition limits_of :: "environment \<Rightarrow> limit_item list" where
  "limits_of e = (case env_limits e of None \<Rightarrow> [] | Some l \<Rightarrow> l)"

definition check_limits :: "(quantity \<Rightarrow> string) \<Rightarrow> environment \<Rightarrow> admission" where
  "check_limits sh env =
    (let (errmsg, invalid) = IsLimitRangeInvalid sh (limits_of env)
     in if invalid then Denied (''LimitRange format error: '' @ join_with '';'' errmsg) else Allowed)"

definition check_quota :: "(quantity \<Rightarrow> string) \<Rightarrow> api \<Rightarrow> environment \<Rightarrow> environment \<Rightarrow> admission" where
  "check_quota sh a env old =
    (case get_trq a (env_tenant env) of
       NotFound \<Rightarrow> Denied ''Environment related Tenant has no TenantResourceQuota, can not create or update!''
     | Failed _ \<Rightarrow> Denied ''system error, try again!''
     | Found trq \<Rightarrow>
        (let (enough, msgs) = tenantResourceIsEnough sh trq env (Some old)
         in if \<not> enough then Denied (join_with '';'' msgs) else check_limits sh env))"

definition ValidateEnvironment ::
  "(quantity \<Rightarrow> string) \<Rightarrow> api \<Rightarrow> operation \<Rightarrow> string + environment \<Rightarrow> string + environment \<Rightarrow> admission" where
  "ValidateEnvironment sh a op obj oldobj =
    (case obj of
       Inl e \<Rightarrow> Errored e
     | Inr env \<Rightarrow>
        (case op of
           Create \<Rightarrow>
             if \<not> tenantExist a (env_tenant env)
             then Denied (''Environment related Tenant '' @ env_tenant env @ '' not exist'')
             else check_quota sh a env zero_environment
         | Update \<Rightarrow>
            (case oldobj of
               Inl e \<Rightarrow> Errored e
             | Inr old \<Rightarrow>
                if env_tenant env \<noteq> env_tenant old then Denied ''field Tenant is immutable''
                else if \<not> same_list (env_quota env) (env_quota old) then check_quota sh a env old
                else check_limits sh env)
         | _ \<Rightarrow> Allowed))"

definition envDefault :: "environment \<Rightarrow> environment" where
  "envDefault env =
    (let e1 = (if env_limits env = None then env\<lparr>env_limits := Some GetDefaultEnvironmentLimitRange\<rparr> else env);
         e2 = (if env_limits_name e1 = [] then e1\<lparr>env_limits_name := ''default''\<rparr> else e1);
         e3 = e2\<lparr>env_quota := foldl (\<lambda>m (k, v). if map_of m k = None then AList.update k v m else m)
                   (env_quota e2) GetDefaultEnvironmentResourceQuota\<rparr>
     in if env_quota_name e3 = [] then e3\<lparr>env_quota_name := ''default''\<rparr> else e3)"

definition MutateEnvironment :: "operation \<Rightarrow> string + environment \<Rightarrow> admission + environment" where
  "MutateEnvironment op obj =
    (case obj of Inl e \<Rightarrow> Inl (Errored e)
     | Inr env \<Rightarrow> if op = Create \<or> op = Update then Inr (envDefault env) else Inl Allowed)"

definition MutateTenantResourceQuota :: "string + tenant_quota \<Rightarrow> admission + tenant_quota" where
  "MutateTenantResourceQuota obj =
    (case obj of Inl e \<Rightarrow> Inl (Errored e)
     | Inr trq \<Rightarrow> Inr (trq\<lparr>tq_hard := foldl (\<lambda>m (k, v). if map_of m k = None then AList.update k v m else m)
                     (tq_hard trq) GetDefaultTeantResourceQuota\<rparr>))"

section \<open>Tenants, their quotas and their namespaces\<close>

definition ValidateTenant :: "api \<Rightarrow> operation \<Rightarrow> string \<Rightarrow> string + tenant \<Rightarrow> string + tenant \<Rightarrow> admission" where
  "ValidateTenant a op name obj oldobj =
    (case op of
       Delete \<Rightarrow> if length (list_envs a) > 0
          then Denied (''current tenant have '' @ name @
            '' Environments in this cluster, please delete these Environments first!'')
          else Allowed
     | Update \<Rightarrow>
        (case (obj, oldobj) of
           (Inl e, _) \<Rightarrow> Errored e
         | (Inr _, Inl e) \<Rightarrow> Errored e
         | (Inr new, Inr old) \<Rightarrow>
             if tn_spec_name old \<noteq> tn_spec_name new then Denied ''Field \"tenantName\" is immutable'' else Allowed)
     | _ \<Rightarrow> Allowed)"

definition add_or_copy :: "resource_list \<Rightarrow> resource_list \<Rightarrow> resource_list" where
  "add_or_copy tot l = foldl (\<lambda>t (k, v). case map_of t k of
      Some w \<Rightarrow> AList.update k (w + v) t | None \<Rightarrow> AList.update k v t) tot l"

definition getClusterCapacity :: "api \<Rightarrow> string + resource_list" where
  "getClusterCapacity a = map_sum id (\<lambda>ns. foldl add_or_copy [] ns) (list_nodes a)"

definition getAllocatedResource :: "api \<Rightarrow> string + resource_list" where
  "getAllocatedResource a = map_sum id (\<lambda>ts. foldl add_or_copy [] (map tq_hard ts)) (list_trqs a)"

text \<open>The deletion of an object that a tenant (or, for a namespace, an environment) controls.\<close>

definition owned_delete :: "string \<Rightarrow> (string \<Rightarrow> 'o got) \<Rightarrow> string \<Rightarrow> (string \<times> string) option \<Rightarrow> admission" where
  "owned_delete what get name owner =
    (case owner of
       None \<Rightarrow> Allowed
     | Some (kind, oname) \<Rightarrow>
        (case get oname of
           NotFound \<Rightarrow> Allowed
         | _ \<Rightarrow> Denied (''can not delete '' @ what @ '' '' @ name @ '', it'' @ [CHR 0x27] @ ''s belong to '' @ kind @ ''/'' @ oname)))"

definition ValidateTenantResourceQuota ::
  "(quantity \<Rightarrow> string) \<Rightarrow> api \<Rightarrow> operation \<Rightarrow> string \<Rightarrow> string + tenant_quota \<Rightarrow> string + tenant_quota \<Rightarrow> admission" where
  "ValidateTenantResourceQuota sh a op name obj oldobj =
    (if op = Create \<or> op = Update then
       (case obj of
          Inl e \<Rightarrow> Errored e
        | Inr trq \<Rightarrow>
          (case getClusterCapacity a of
             Inl e \<Rightarrow> Errored e
           | Inr capacity \<Rightarrow>
             (case getAllocatedResource a of
                Inl e \<Rightarrow> Errored e
              | Inr allocated \<Rightarrow>
                (case (if op = Create then Inr (tq_hard trq)
                       else map_sum id (\<lambda>old. SubResource (tq_hard old) (tq_hard trq)) oldobj) of
                   Inl e \<Rightarrow> Errored e
                 | Inr need \<Rightarrow>
                   (let (enough, errmsg) = ResourceEnough sh capacity allocated need
                    in if enough then Allowed else Denied (join_with '';'' errmsg))))))
     else if op = Delete then
       (case get_trq a name of
          Found trq \<Rightarrow> owned_delete ''tenantresourcequota'' (get_tenant a) name (tq_owner trq)
        | NotFound \<Rightarrow> Errored ''not found''
        | Failed e \<Rightarrow> Errored e)
     else Allowed)"

definition ValidateTenantNetworkPolicy :: "api \<Rightarrow> operation \<Rightarrow> string \<Rightarrow> admission" where
  "ValidateTenantNetworkPolicy a op name =
    (if op = Delete then
       (case get_owner a name of
          Found owner \<Rightarrow> owned_delete ''tenantNetworkPolicy'' (get_tenant a) name owner
        | NotFound \<Rightarrow> Errored ''not found''
        | Failed e \<Rightarrow> Errored e)
     else Allowed)"

definition ValidateNamespace :: "api \<Rightarrow> operation \<Rightarrow> string \<Rightarrow> admission" where
  "ValidateNamespace a op name =
    (case get_owner a name of
       NotFound \<Rightarrow> Errored ''not found''
     | Failed e \<Rightarrow> Errored e
     | Found owner \<Rightarrow> if op = Delete then owned_delete ''namespace'' (get_env a) name owner else Allowed)"

section \<open>The status of a tenant's quota\<close>

definition LabelTenant :: string where "LabelTenant = ''gems.kubegems.io/tenant''"
definition LabelProject :: string where "LabelProject = ''gems.kubegems.io/project''"
definition LabelEnvironment :: string where "LabelEnvironment = ''gems.kubegems.io/environment''"

record resource_quota =
  rq_namespace :: string
  rq_name :: string
  rq_labels :: labels
  rq_spec :: resource_list
  rq_status_hard :: resource_list
  rq_status_used :: resource_list

definition fixInvalidResourceName :: "resource_list \<Rightarrow> resource_list" where
  "fixInvalidResourceName l =
    (case map_of l ''requests.storage'' of None \<Rightarrow> l | Some v \<Rightarrow> AList.update ''limits.storage'' v l)"

definition quota_status :: "resource_quota list \<Rightarrow> tenant_quota \<Rightarrow> resource_list \<times> resource_list" where
  "quota_status quotas rq =
    (let items = filter (\<lambda>q. map_of (rq_labels q) LabelTenant = Some (tq_name rq)) quotas;
         empty = map (\<lambda>(k, v). (k, 0)) (tq_hard rq)
     in (fixInvalidResourceName (foldl AddResourceList empty (map rq_status_used items)),
         fixInvalidResourceName (foldl AddResourceList empty (map rq_status_hard items))))"

definition Reconcile_quota :: "resource_quota list \<Rightarrow> tenant_quota \<Rightarrow> tenant_quota" where
  "Reconcile_quota quotas rq =
    (let (used, hard) = quota_status quotas rq in
     if \<not> same_list (tq_used rq) used \<or> \<not> same_list (tq_allocated rq) hard
     then rq\<lparr>tq_used := used, tq_allocated := hard\<rparr> else rq)"

datatype quota_event = QuotaCreated resource_quota | QuotaUpdated resource_quota resource_quota | QuotaDeleted resource_quota

definition requeueTenantResourceQuota :: "resource_quota \<Rightarrow> string list" where
  "requeueTenantResourceQuota q =
    (case map_of (rq_labels q) LabelTenant of None \<Rightarrow> [] | Some t \<Rightarrow> if t \<noteq> [] then [t] else [])"

text \<open>The tenant quotas that an event on a resource quota, the old and the new, queues.\<close>

fun NewResourceQuotaHandler :: "quota_event \<Rightarrow> string list" where
  "NewResourceQuotaHandler (QuotaCreated q) = requeueTenantResourceQuota q"
| "NewResourceQuotaHandler (QuotaUpdated old new) =
     (if \<not> (same_list (rq_status_hard new) (rq_status_hard old) \<and> same_list (rq_status_used new) (rq_status_used old))
      then requeueTenantResourceQuota new else [])"
| "NewResourceQuotaHandler (QuotaDeleted q) = requeueTenantResourceQuota q"

text \<open>\<open>handleResourceQuota\<close> of the environment controller: the quota object of an environment.\<close>

definition RemoveInvalidResourceName :: "resource_list \<Rightarrow> resource_list" where
  "RemoveInvalidResourceName l = AList.delete ''limits.storage'' l"

definition env_labels :: "environment \<Rightarrow> labels" where
  "env_labels e = [(LabelProject, env_project e), (LabelTenant, env_tenant e), (LabelEnvironment, env_name e)]"

definition handleResourceQuota :: "environment \<Rightarrow> resource_quota option \<Rightarrow> resource_quota" where
  "handleResourceQuota env found =
    (let rq = (case found of
           None \<Rightarrow> \<lparr>rq_namespace = env_namespace env, rq_name = env_quota_name env, rq_labels = [],
                    rq_spec = [], rq_status_hard = [], rq_status_used = []\<rparr>
         | Some q \<Rightarrow> q)
     in rq\<lparr>rq_labels := labels_Merge (rq_labels rq) (env_labels env),
           rq_spec := RemoveInvalidResourceName (env_quota env)\<rparr>)"

section \<open>Lemmas\<close>

abbreviation quota_keys :: "string list" where
  "quota_keys \<equiv> [''limits.cpu'', ''limits.memory'', ''requests.storage'']"

lemma keys_default [simp]: "ResourceKeys GetDefaultTeantResourceQuota = quota_keys"
  by (simp add: ResourceKeys_def GetDefaultTeantResourceQuota_def)

text \<open>A resource fits a tenant: nothing is asked, or the limit holds what is allocated, less the old share, and it.\<close>

definition fits :: "tenant_quota \<Rightarrow> resource_list \<Rightarrow> resource_list \<Rightarrow> string \<Rightarrow> bool" where
  "fits trq old new k \<longleftrightarrow> qty new k = 0 \<or> qty (tq_allocated trq) k - qty old k + qty new k \<le> qty (tq_hard trq) k"

lemma tenantResourceIsEnough_iff:
  "fst (tenantResourceIsEnough sh trq env (Some old)) \<longleftrightarrow>
     (\<forall>k \<in> set quota_keys. fits trq (env_quota old) (env_quota env) k)"
proof -
  have q: "(case map_of m k of Some oldv \<Rightarrow> qty al k - oldv | None \<Rightarrow> qty al k) = qty al k - qty m k" for m al k
    by (simp add: qty_def split: option.split)
  show ?thesis
    by (simp only: tenantResourceIsEnough_def Let_def option.case keys_default ResourceIsEnough_iff foldl.simps q)
      (simp add: fits_def)
qed

lemma check_limits_Allowed: "check_limits sh env = Allowed \<longleftrightarrow> fst (IsLimitRangeInvalid sh (limits_of env)) = []"
  by (simp add: check_limits_def IsLimitRangeInvalid_def Let_def)

lemma limits_ok:
  "fst (IsLimitRangeInvalid sh items) = [] \<longleftrightarrow>
     (\<forall>item \<in> set items. \<forall>(k, v) \<in> set (li_default_request item). \<forall>l. map_of (li_default item) k = Some l \<longrightarrow> v \<le> l)"
  by (fastforce simp: IsLimitRangeInvalid_def Let_def limit_errors_def split: option.splits if_splits)

lemma check_quota_Allowed:
  "check_quota sh a env old = Allowed \<longleftrightarrow>
     (\<exists>trq. get_trq a (env_tenant env) = Found trq \<and> (\<forall>k \<in> set quota_keys. fits trq (env_quota old) (env_quota env) k)) \<and>
     check_limits sh env = Allowed"
proof (cases "get_trq a (env_tenant env)")
  case (Found trq)
  then show ?thesis
    using tenantResourceIsEnough_iff [of sh trq env old]
    by (cases "tenantResourceIsEnough sh trq env (Some old)") (auto simp: check_quota_def)
qed (simp_all add: check_quota_def)


lemma add_or_copy_Add: "add_or_copy t l = AddResourceList t l"
proof -
  have "(\<lambda>t (k, v). case map_of t k of Some w \<Rightarrow> AList.update k (w + v) t | None \<Rightarrow> AList.update k v t) =
      (\<lambda>into (k, q). AList.update k (qty into k + q) into)"
    by (auto simp: fun_eq_iff qty_def split: option.split)
  then show ?thesis by (simp add: add_or_copy_def AddResourceList_def ResourceListCollect_def)
qed

text \<open>The sum of lists at a name: absent unless one of them has it.\<close>

lemma map_of_sum:
  assumes "\<And>l. l \<in> set ls \<Longrightarrow> wf_map l"
  shows "map_of (foldl AddResourceList [] ls) k =
    (if \<exists>l \<in> set ls. k \<in> fst ` set l then Some (sum_list (map (\<lambda>l. qty l k) ls)) else None)"
proof (cases "map_of (foldl AddResourceList [] ls) k")
  case None
  then show ?thesis using dom_foldl_Add [of "[]" ls k] by auto
next
  case (Some v)
  have "v = qty (foldl AddResourceList [] ls) k" using Some by (simp add: qty_def)
  also have "\<dots> = sum_list (map (\<lambda>l. qty l k) ls)" using qty_foldl_Add [of ls "[]" k] assms by simp
  finally show ?thesis using Some dom_foldl_Add [of "[]" ls k] by auto
qed

lemma same_list_qty: "same_list a b \<Longrightarrow> qty a k = qty b k"
proof -
  assume s: "same_list a b"
  have ab: "map_of a k = Some v \<Longrightarrow> map_of b k = Some v" for v
    using s by (auto simp: same_list_def list_all_iff dest!: map_of_SomeD)
  have ba: "map_of b k = Some v \<Longrightarrow> map_of a k = Some v" for v
    using s by (auto simp: same_list_def list_all_iff dest!: map_of_SomeD)
  show ?thesis
    using ab ba by (cases "map_of a k"; cases "map_of b k") (auto simp: qty_def)
qed

lemma fix_qty: "k \<noteq> ''limits.storage'' \<Longrightarrow> qty (fixInvalidResourceName l) k = qty l k"
  by (simp add: fixInvalidResourceName_def split: option.split)

lemma qty_zeros [simp]: "qty (map (\<lambda>(k, v). (k, 0)) l) j = 0"
  by (induction l) auto

text \<open>After a reconciliation the allocation is the sum over the quota objects that carry the tenant's label.\<close>

lemma Reconcile_allocated:
  assumes "\<And>q. q \<in> set quotas \<Longrightarrow> wf_map (rq_status_hard q)" and "k \<noteq> ''limits.storage''"
  shows "qty (tq_allocated (Reconcile_quota quotas rq)) k =
    sum_list (map (\<lambda>q. qty (rq_status_hard q) k)
      (filter (\<lambda>q. map_of (rq_labels q) LabelTenant = Some (tq_name rq)) quotas))"
proof -
  let ?items = "filter (\<lambda>q. map_of (rq_labels q) LabelTenant = Some (tq_name rq)) quotas"
  have "qty (tq_allocated (Reconcile_quota quotas rq)) k = qty (snd (quota_status quotas rq)) k"
    by (auto simp: Reconcile_quota_def split: prod.split intro: same_list_qty)
  also have "\<dots> = sum_list (map (\<lambda>q. qty (rq_status_hard q) k) ?items)"
    using assms qty_foldl_Add [of "map rq_status_hard ?items" "map (\<lambda>(k, v). (k, 0)) (tq_hard rq)" k]
    by (auto simp: quota_status_def Let_def fix_qty o_def)
  finally show ?thesis .
qed

lemma Reconcile_keeps [simp]:
  "tq_name (Reconcile_quota quotas rq) = tq_name rq" "tq_hard (Reconcile_quota quotas rq) = tq_hard rq"
  by (auto simp: Reconcile_quota_def split: prod.split)

text \<open>The quota object of an environment once Kubernetes enforces it: its hard status is its specification.\<close>

definition enforced :: "environment \<Rightarrow> resource_quota" where
  "enforced e = (handleResourceQuota e None)\<lparr>rq_status_hard := rq_spec (handleResourceQuota e None)\<rparr>"

definition quota_sum :: "environment list \<Rightarrow> string \<Rightarrow> quantity" where
  "quota_sum envs k = sum_list (map (\<lambda>e. qty (env_quota e) k) envs)"

lemma enforced_label: "map_of (rq_labels (enforced e)) LabelTenant = Some (env_tenant e)"
proof -
  have "wf_map (env_labels e)" by (simp add: env_labels_def LabelProject_def LabelTenant_def LabelEnvironment_def)
  then show ?thesis
    by (simp add: enforced_def handleResourceQuota_def Let_def labels_Merge_of)
      (simp add: env_labels_def LabelProject_def LabelTenant_def)
qed

lemma enforced_hard:
  "wf_map (env_quota e) \<Longrightarrow> wf_map (rq_status_hard (enforced e))"
  "k \<noteq> ''limits.storage'' \<Longrightarrow> qty (rq_status_hard (enforced e)) k = qty (env_quota e) k"
  by (simp_all add: enforced_def handleResourceQuota_def Let_def RemoveInvalidResourceName_def) (simp add: qty_def)

text \<open>The tenant's quota is up to date with its environments.\<close>

definition synced :: "tenant_quota \<Rightarrow> environment list \<Rightarrow> bool" where
  "synced trq envs \<longleftrightarrow> (\<forall>k \<in> set quota_keys. qty (tq_allocated trq) k = quota_sum envs k)"

lemma Reconcile_synced:
  assumes "\<And>e. e \<in> set envs \<Longrightarrow> env_tenant e = tq_name trq \<and> wf_map (env_quota e)"
    and "\<And>q. q \<in> set others \<Longrightarrow> map_of (rq_labels q) LabelTenant \<noteq> Some (tq_name trq) \<and> wf_map (rq_status_hard q)"
  shows "synced (Reconcile_quota (map enforced envs @ others) trq) envs"
proof -
  have f: "filter (\<lambda>q. map_of (rq_labels q) LabelTenant = Some (tq_name trq)) (map enforced envs @ others) = map enforced envs"
    using assms by (auto simp: enforced_label filter_empty_conv)
  have w: "wf_map (rq_status_hard q)" if "q \<in> set (map enforced envs @ others)" for q
    using that assms enforced_hard(1) by auto
  have "qty (tq_allocated (Reconcile_quota (map enforced envs @ others) trq)) k = quota_sum envs k"
    if "k \<noteq> ''limits.storage''" for k
  proof -
    have "qty (tq_allocated (Reconcile_quota (map enforced envs @ others) trq)) k =
        sum_list (map (\<lambda>q. qty (rq_status_hard q) k) (map enforced envs))"
      using Reconcile_allocated [of "map enforced envs @ others" k trq, OF w that] by (simp only: f)
    then show ?thesis using that by (simp add: quota_sum_def o_def enforced_hard(2))
  qed
  then show ?thesis by (simp add: synced_def)
qed


section \<open>Properties\<close>

text \<open>C11: When an environment is admitted. A creation is allowed exactly if its tenant exists, the tenant
  has a quota, each of the tenant's three resources (cpu and memory limits, requested storage) fits or is
  not asked for, and no default request of its limit range exceeds the default limit; an update
  exactly if the tenant stays the same, the limit range is valid, and either the quota is unchanged or it
  fits when the old share is given back. Everything else is denied; a deletion is always allowed.\<close>

theorem ValidateEnvironment_iff:
  "(ValidateEnvironment sh a Create (Inr env) oldobj = Allowed \<longleftrightarrow>
      tenantExist a (env_tenant env) \<and>
      (\<exists>trq. get_trq a (env_tenant env) = Found trq \<and> (\<forall>k \<in> set quota_keys. fits trq [] (env_quota env) k)) \<and>
      (\<forall>item \<in> set (limits_of env). \<forall>(k, v) \<in> set (li_default_request item).
         \<forall>l. map_of (li_default item) k = Some l \<longrightarrow> v \<le> l)) \<and>
   (ValidateEnvironment sh a Update (Inr env) (Inr old) = Allowed \<longleftrightarrow>
      env_tenant env = env_tenant old \<and>
      (same_list (env_quota env) (env_quota old) \<or>
       (\<exists>trq. get_trq a (env_tenant env) = Found trq \<and>
          (\<forall>k \<in> set quota_keys. fits trq (env_quota old) (env_quota env) k))) \<and>
      (\<forall>item \<in> set (limits_of env). \<forall>(k, v) \<in> set (li_default_request item).
         \<forall>l. map_of (li_default item) k = Some l \<longrightarrow> v \<le> l)) \<and>
   ValidateEnvironment sh a Delete (Inr env) oldobj = Allowed"
proof (intro conjI)
  have z: "env_quota zero_environment = []" by (simp add: zero_environment_def)
  show "ValidateEnvironment sh a Create (Inr env) oldobj = Allowed \<longleftrightarrow>
      tenantExist a (env_tenant env) \<and>
      (\<exists>trq. get_trq a (env_tenant env) = Found trq \<and> (\<forall>k \<in> set quota_keys. fits trq [] (env_quota env) k)) \<and>
      (\<forall>item \<in> set (limits_of env). \<forall>(k, v) \<in> set (li_default_request item).
         \<forall>l. map_of (li_default item) k = Some l \<longrightarrow> v \<le> l)"
    using check_quota_Allowed [of sh a env zero_environment]
    by (simp add: ValidateEnvironment_def check_limits_Allowed limits_ok z)
  show "ValidateEnvironment sh a Update (Inr env) (Inr old) = Allowed \<longleftrightarrow>
      env_tenant env = env_tenant old \<and>
      (same_list (env_quota env) (env_quota old) \<or>
       (\<exists>trq. get_trq a (env_tenant env) = Found trq \<and>
          (\<forall>k \<in> set quota_keys. fits trq (env_quota old) (env_quota env) k))) \<and>
      (\<forall>item \<in> set (limits_of env). \<forall>(k, v) \<in> set (li_default_request item).
         \<forall>l. map_of (li_default item) k = Some l \<longrightarrow> v \<le> l)"
    using check_quota_Allowed [of sh a env old]
    by (auto simp: ValidateEnvironment_def check_limits_Allowed limits_ok)
qed (simp add: ValidateEnvironment_def)

definition ex_trq :: tenant_quota where
  "ex_trq = \<lparr>tq_name = ''t'', tq_owner = None, tq_hard = [(''limits.cpu'', whole 4)], tq_used = [], tq_allocated = []\<rparr>"

definition ex_api :: api where
  "ex_api = \<lparr>get_tenant = (\<lambda>n. Found \<lparr>tn_name = n, tn_spec_name = n\<rparr>), get_trq = (\<lambda>_. Found ex_trq),
     get_env = (\<lambda>_. NotFound), get_owner = (\<lambda>_. NotFound), list_envs = [], list_nodes = Inr [], list_trqs = Inr []\<rparr>"

definition ex_env :: "string \<Rightarrow> environment" where
  "ex_env n = zero_environment\<lparr>env_name := n, env_tenant := ''t'', env_namespace := n, env_quota := [(''limits.cpu'', whole 3)]\<rparr>"

lemma ex_fits: "fits ex_trq [] (env_quota (ex_env n)) k"
  by (simp add: fits_def ex_trq_def ex_env_def whole_def)

lemma ex_api_trq: "get_trq ex_api t = Found ex_trq"
  by (simp add: ex_api_def)

lemma ex_env_simps [simp]:
  "env_tenant (ex_env n) = ''t''" "limits_of (ex_env n) = []" "env_quota (ex_env n) = [(''limits.cpu'', whole 3)]"
  by (simp_all add: ex_env_def zero_environment_def limits_of_def)

theorem ValidateEnvironment_iff_witness:
  "ValidateEnvironment (\<lambda>_. []) ex_api Create (Inr (ex_env ''e'')) (Inl []) = Allowed"
proof -
  have t: "tenantExist ex_api ''t''" by (simp add: tenantExist_def ex_api_def)
  show ?thesis
    using ValidateEnvironment_iff [of "\<lambda>_. []" ex_api "ex_env ''e''" "Inl []"] ex_fits [of "''e''"] ex_api_trq t
    by (simp del: admission.simps)
qed


lemma admitted_fits:
  assumes "ValidateEnvironment sh a Create (Inr env) oldobj = Allowed" and "get_trq a (env_tenant env) = Found trq"
    and "k \<in> set quota_keys"
  shows "qty (env_quota env) k = 0 \<or> qty (tq_allocated trq) k + qty (env_quota env) k \<le> qty (tq_hard trq) k"
proof -
  have "check_quota sh a env zero_environment = Allowed"
    using assms(1) by (simp add: ValidateEnvironment_def split: if_splits)
  then have "fits trq (env_quota zero_environment) (env_quota env) k"
    using check_quota_Allowed [of sh a env zero_environment] assms(2,3) by auto
  then show ?thesis by (simp add: fits_def zero_environment_def)
qed

lemma changed_fits:
  assumes "ValidateEnvironment sh a Update (Inr new) (Inr old) = Allowed" and "get_trq a (env_tenant new) = Found trq"
    and "k \<in> set quota_keys"
  shows "qty (env_quota new) k = 0 \<or> qty (env_quota new) k = qty (env_quota old) k \<or>
    qty (tq_allocated trq) k - qty (env_quota old) k + qty (env_quota new) k \<le> qty (tq_hard trq) k"
proof (cases "same_list (env_quota new) (env_quota old)")
  case True
  then show ?thesis using same_list_qty by simp
next
  case False
  then have "check_quota sh a new old = Allowed"
    using assms(1) by (simp add: ValidateEnvironment_def split: if_splits)
  then have "fits trq (env_quota old) (env_quota new) k"
    using check_quota_Allowed [of sh a new old] assms(2,3) by auto
  then show ?thesis by (auto simp: fits_def)
qed

lemma sum_list_replace: "i < length xs \<Longrightarrow> sum_list (xs[i := x]) = sum_list xs - xs ! i + (x :: int)"
  by (induction xs arbitrary: i) (auto split: nat.split)

text \<open>Against a status that is up to date the bound survives an admitted creation and an admitted change.\<close>

lemma create_keeps_quota:
  assumes "synced trq envs" and "quota_sum envs k \<le> qty (tq_hard trq) k" and "k \<in> set quota_keys"
    and "get_trq a (env_tenant env) = Found trq" and "ValidateEnvironment sh a Create (Inr env) oldobj = Allowed"
  shows "quota_sum (env # envs) k \<le> qty (tq_hard trq) k"
proof -
  have "qty (tq_allocated trq) k = quota_sum envs k" using assms(1,3) unfolding synced_def by blast
  then show ?thesis using admitted_fits [OF assms(5,4,3)] assms(2) by (auto simp: quota_sum_def)
qed

lemma update_keeps_quota:
  assumes "synced trq envs" and "quota_sum envs k \<le> qty (tq_hard trq) k" and "k \<in> set quota_keys"
    and "get_trq a (env_tenant env) = Found trq" and "i < length envs" and "0 \<le> qty (env_quota (envs ! i)) k"
    and "ValidateEnvironment sh a Update (Inr env) (Inr (envs ! i)) = Allowed"
  shows "quota_sum (envs[i := env]) k \<le> qty (tq_hard trq) k"
proof -
  have "qty (tq_allocated trq) k = quota_sum envs k" using assms(1,3) unfolding synced_def by blast
  moreover have "quota_sum (envs[i := env]) k =
      quota_sum envs k - qty (env_quota (envs ! i)) k + qty (env_quota env) k"
    using assms(5) by (simp add: quota_sum_def map_update sum_list_replace)
  ultimately show ?thesis using changed_fits [OF assms(7,4,3)] assms(2,6) by linarith
qed

lemma ex_overcommit:
  "ValidateEnvironment (\<lambda>_. []) ex_api Create (Inr (ex_env n)) (Inl []) = Allowed"
  "quota_sum [ex_env n, ex_env m] ''limits.cpu'' > qty (tq_hard ex_trq) ''limits.cpu''"
proof -
  have t: "tenantExist ex_api ''t''" by (simp add: tenantExist_def ex_api_def)
  show "ValidateEnvironment (\<lambda>_. []) ex_api Create (Inr (ex_env n)) (Inl []) = Allowed"
    using check_quota_Allowed [of "\<lambda>_. []" ex_api "ex_env n" zero_environment] ex_fits [of n] ex_api_trq t
    by (simp add: ValidateEnvironment_def check_limits_Allowed limits_ok fits_def zero_environment_def)
      (simp add: ex_trq_def whole_def)
  show "quota_sum [ex_env n, ex_env m] ''limits.cpu'' > qty (tq_hard ex_trq) ''limits.cpu''"
    by (simp add: quota_sum_def ex_trq_def whole_def)
qed

text \<open>C12: The three parts together keep a tenant within its quota, as long as its status is up to date. The
  environment controller writes a quota object per environment, the quota controller sums up
  those that carry the tenant's label, and against that sum the webhook decides: if the environments of the
  tenant fit, so they do with an environment that is admitted, and with one whose change is
  admitted (none asking for less than nothing). Against a status that is behind the bound is lost: two creations in a row
  can both be admitted although they do not fit together.\<close>

theorem admission_keeps_quota:
  assumes "\<And>e. e \<in> set envs \<Longrightarrow> env_tenant e = tq_name trq0 \<and> wf_map (env_quota e) \<and> (\<forall>k. 0 \<le> qty (env_quota e) k)"
    and "\<And>q. q \<in> set others \<Longrightarrow> map_of (rq_labels q) LabelTenant \<noteq> Some (tq_name trq0) \<and> wf_map (rq_status_hard q)"
    and "trq = Reconcile_quota (map enforced envs @ others) trq0" and "get_trq a (tq_name trq0) = Found trq"
    and "k \<in> set quota_keys" and "quota_sum envs k \<le> qty (tq_hard trq0) k"
  shows "(\<forall>env. env_tenant env = tq_name trq0 \<longrightarrow> ValidateEnvironment sh a Create (Inr env) oldobj = Allowed \<longrightarrow>
      quota_sum (env # envs) k \<le> qty (tq_hard trq0) k) \<and>
    (\<forall>i env. i < length envs \<longrightarrow> env_tenant env = tq_name trq0 \<longrightarrow>
      ValidateEnvironment sh a Update (Inr env) (Inr (envs ! i)) = Allowed \<longrightarrow>
      quota_sum (envs[i := env]) k \<le> qty (tq_hard trq0) k) \<and>
    (\<exists>(a :: api) trq e1 e2. get_trq a ''t'' = Found trq \<and> env_tenant e1 = ''t'' \<and> env_tenant e2 = ''t'' \<and>
      ValidateEnvironment (\<lambda>_. []) a Create (Inr e1) (Inl []) = Allowed \<and>
      ValidateEnvironment (\<lambda>_. []) a Create (Inr e2) (Inl []) = Allowed \<and>
      quota_sum [e1, e2] ''limits.cpu'' > qty (tq_hard trq) ''limits.cpu'')"
proof (intro conjI allI impI)
  have s: "synced trq envs" using Reconcile_synced [of envs trq0 others] assms(1-3) by simp
  have h: "tq_hard trq = tq_hard trq0" using assms(3) by simp
  have q: "quota_sum envs k \<le> qty (tq_hard trq) k" using assms(6) h by simp
  show "quota_sum (env # envs) k \<le> qty (tq_hard trq0) k"
    if "env_tenant env = tq_name trq0" "ValidateEnvironment sh a Create (Inr env) oldobj = Allowed" for env
    using create_keeps_quota [OF s q assms(5) _ that(2)] assms(4) that(1) h by simp
  show "quota_sum (envs[i := env]) k \<le> qty (tq_hard trq0) k"
    if "i < length envs" "env_tenant env = tq_name trq0"
      "ValidateEnvironment sh a Update (Inr env) (Inr (envs ! i)) = Allowed" for i env
    using update_keeps_quota [OF s q assms(5) _ that(1) _ that(3)] assms(1,4) that(1,2) h by simp
  show "\<exists>(a :: api) trq e1 e2. get_trq a ''t'' = Found trq \<and> env_tenant e1 = ''t'' \<and> env_tenant e2 = ''t'' \<and>
      ValidateEnvironment (\<lambda>_. []) a Create (Inr e1) (Inl []) = Allowed \<and>
      ValidateEnvironment (\<lambda>_. []) a Create (Inr e2) (Inl []) = Allowed \<and>
      quota_sum [e1, e2] ''limits.cpu'' > qty (tq_hard trq) ''limits.cpu''"
    using ex_overcommit(1) [of "''e''"] ex_overcommit(1) [of "''f''"] ex_overcommit(2) [of "''e''" "''f''"] ex_api_trq ex_env_simps(1) by blast
qed

theorem admission_keeps_quota_witness:
  "quota_sum [ex_env ''f'', ex_env ''e''] ''limits.memory'' \<le> 0 \<and>
   ValidateEnvironment (\<lambda>_. []) (ex_api\<lparr>get_trq := (\<lambda>_. Found (Reconcile_quota [enforced (ex_env ''e'')] ex_trq))\<rparr>) Create
     (Inr ((ex_env ''f'')\<lparr>env_quota := []\<rparr>)) (Inl []) = Allowed \<and>
   quota_sum [(ex_env ''f'')\<lparr>env_quota := []\<rparr>, ex_env ''e''] ''limits.cpu'' \<le> whole 4"
proof -
  let ?trq = "Reconcile_quota (map enforced [ex_env ''e''] @ []) ex_trq"
  let ?a = "ex_api\<lparr>get_trq := (\<lambda>_. Found ?trq)\<rparr>" and ?f = "(ex_env ''f'')\<lparr>env_quota := []\<rparr>"
  have n: "tq_name ex_trq = ''t''" and c: "qty (tq_hard ex_trq) ''limits.cpu'' = whole 4"
    by (simp_all add: ex_trq_def)
  have t: "tenantExist ?a ''t''" by (simp add: tenantExist_def ex_api_def)
  have l: "limits_of ?f = []" "env_tenant ?f = ''t''" by (simp_all add: limits_of_def ex_env_def zero_environment_def)
  have v: "ValidateEnvironment (\<lambda>_. []) ?a Create (Inr ?f) (Inl []) = Allowed"
    using check_quota_Allowed [of "\<lambda>_. []" ?a ?f zero_environment] t l
    by (simp add: ValidateEnvironment_def check_limits_Allowed limits_ok fits_def)
  have w: "0 \<le> whole 3" by (simp add: whole_def)
  have "quota_sum (?f # [ex_env ''e'']) ''limits.cpu'' \<le> qty (tq_hard ex_trq) ''limits.cpu''"
    using admission_keeps_quota [of "[ex_env ''e'']" ex_trq "[]" ?trq ?a "''limits.cpu''" "\<lambda>_. []" "Inl []"] v n w l
    by (simp add: quota_sum_def c) (simp add: whole_def)
  then show ?thesis using v by (simp add: c) (simp add: quota_sum_def)
qed


definition quota_name :: "string \<Rightarrow> bool" where
  "quota_name k \<longleftrightarrow> has_prefix k ''limits.'' \<or> has_prefix k ''requests.''"

text \<open>The check of a tenant's quota against the cluster compares names that never meet. A creation is
  allowed exactly if each amount asked for, added to what all tenants have been given of it,
  stays within the sum over the nodes, as far as both sums have the name; as nodes report their capacity
  under plain names (\<open>cpu\<close>, \<open>memory\<close>) and a tenant's quota names \<open>limits.cpu\<close>, \<open>limits.memory\<close> and
  \<open>requests.storage\<close>, every creation and every change of such a quota is allowed, however much it asks for.\<close>

theorem ValidateTenantResourceQuota_checks:
  assumes "list_nodes a = Inr ns" and "list_trqs a = Inr ts"
    and "\<And>n. n \<in> set ns \<Longrightarrow> wf_map n" and "\<And>t. t \<in> set ts \<Longrightarrow> wf_map (tq_hard t)"
  shows "(ValidateTenantResourceQuota sh a Create name (Inr trq) oldobj = Allowed \<longleftrightarrow>
      (\<forall>(k, v) \<in> set (tq_hard trq). (\<exists>n \<in> set ns. k \<in> fst ` set n) \<longrightarrow> (\<exists>t \<in> set ts. k \<in> fst ` set (tq_hard t)) \<longrightarrow>
         (\<Sum>t\<leftarrow>ts. qty (tq_hard t) k) + v \<le> (\<Sum>n\<leftarrow>ns. qty n k))) \<and>
    ((\<forall>n \<in> set ns. \<forall>k \<in> fst ` set n. \<not> quota_name k) \<longrightarrow> wf_map (tq_hard trq) \<longrightarrow>
      (\<forall>k \<in> fst ` set (tq_hard trq). quota_name k) \<longrightarrow>
      ValidateTenantResourceQuota sh a Create name (Inr trq) oldobj = Allowed \<and>
      ValidateTenantResourceQuota sh a Update name (Inr trq) (Inr old) = Allowed)"
proof -
  define C where "C = foldl AddResourceList [] ns"
  define U where "U = foldl AddResourceList [] (map tq_hard ts)"
  have c: "getClusterCapacity a = Inr C" "getAllocatedResource a = Inr U"
    using assms(1,2) by (simp_all add: getClusterCapacity_def getAllocatedResource_def C_def U_def add_or_copy_Add [abs_def])
  have C: "map_of C k = (if \<exists>n \<in> set ns. k \<in> fst ` set n then Some (\<Sum>n\<leftarrow>ns. qty n k) else None)" for k
    unfolding C_def using assms(3) by (rule map_of_sum)
  have U: "map_of U k = (if \<exists>t \<in> set ts. k \<in> fst ` set (tq_hard t) then Some (\<Sum>t\<leftarrow>ts. qty (tq_hard t) k) else None)" for k
  proof -
    have w: "wf_map l" if "l \<in> set (map tq_hard ts)" for l using that assms(4) by auto
    show ?thesis using map_of_sum [of "map tq_hard ts" k, OF w] by (simp add: U_def o_def)
  qed
  have new: "ValidateTenantResourceQuota sh a Create name (Inr trq) oldobj = Allowed \<longleftrightarrow>
      fst (ResourceEnough sh C U (tq_hard trq))"
    by (simp add: ValidateTenantResourceQuota_def c split: prod.split)
  have upd: "ValidateTenantResourceQuota sh a Update name (Inr trq) (Inr old) = Allowed \<longleftrightarrow>
      fst (ResourceEnough sh C U (SubResource (tq_hard old) (tq_hard trq)))"
    by (simp add: ValidateTenantResourceQuota_def c split: prod.split)
  have none: "map_of C k = None" if "\<forall>n \<in> set ns. \<forall>k \<in> fst ` set n. \<not> quota_name k" "quota_name k" for k
    using that by (auto simp: C)
  have dom: "k \<in> fst ` set (tq_hard trq)" if "wf_map (tq_hard trq)" "(k, v) \<in> set (SubResource (tq_hard old) (tq_hard trq))" for k v
  proof -
    have "map_of (SubResource (tq_hard old) (tq_hard trq)) k \<noteq> None"
      using weak_map_of_SomeI [OF that(2)] by auto
    then show ?thesis using map_of_SubResource [OF that(1), of "tq_hard old" k] by (auto simp: map_of_eq_None_iff)
  qed
  have iff: "fst (ResourceEnough sh C U (tq_hard trq)) \<longleftrightarrow>
      (\<forall>(k, v) \<in> set (tq_hard trq). (\<exists>n \<in> set ns. k \<in> fst ` set n) \<longrightarrow> (\<exists>t \<in> set ts. k \<in> fst ` set (tq_hard t)) \<longrightarrow>
         (\<Sum>t\<leftarrow>ts. qty (tq_hard t) k) + v \<le> (\<Sum>n\<leftarrow>ns. qty n k))"
  proof -
    have "(\<forall>t u. map_of C k = Some t \<longrightarrow> map_of U k = Some u \<longrightarrow> u + v \<le> t) \<longleftrightarrow>
        ((\<exists>n \<in> set ns. k \<in> fst ` set n) \<longrightarrow> (\<exists>t \<in> set ts. k \<in> fst ` set (tq_hard t)) \<longrightarrow>
          (\<Sum>t\<leftarrow>ts. qty (tq_hard t) k) + v \<le> (\<Sum>n\<leftarrow>ns. qty n k))" for k v
      unfolding C U by (cases "\<exists>n \<in> set ns. k \<in> fst ` set n"; cases "\<exists>t \<in> set ts. k \<in> fst ` set (tq_hard t)") simp_all
    then show ?thesis unfolding ResourceEnough_iff by (simp only:)
  qed
  have plain: "fst (ResourceEnough sh C U need)"
    if p: "\<forall>n \<in> set ns. \<forall>k \<in> fst ` set n. \<not> quota_name k" and q: "\<And>k v. (k, v) \<in> set need \<Longrightarrow> quota_name k" for need
    unfolding ResourceEnough_iff using none [OF p] q by fastforce
  show ?thesis
  proof (intro conjI impI)
    assume p: "\<forall>n \<in> set ns. \<forall>k \<in> fst ` set n. \<not> quota_name k" and w: "wf_map (tq_hard trq)"
      and q: "\<forall>k \<in> fst ` set (tq_hard trq). quota_name k"
    show "ValidateTenantResourceQuota sh a Create name (Inr trq) oldobj = Allowed"
      unfolding new by (rule plain [OF p]) (use q in force)
    show "ValidateTenantResourceQuota sh a Update name (Inr trq) (Inr old) = Allowed"
      unfolding upd by (rule plain [OF p]) (use q dom [OF w] in blast)
  qed (simp only: new iff)
qed

theorem ValidateTenantResourceQuota_checks_witness:
  "ValidateTenantResourceQuota (\<lambda>_. []) (ex_api\<lparr>list_nodes := Inr [[(''cpu'', whole 8)]], list_trqs := Inr [ex_trq]\<rparr>) Create ''u''
     (Inr (ex_trq\<lparr>tq_hard := [(''limits.cpu'', whole 1000)]\<rparr>)) (Inl []) = Allowed"
proof -
  let ?a = "ex_api\<lparr>list_nodes := Inr [[(''cpu'', whole 8)]], list_trqs := Inr [ex_trq]\<rparr>"
  have l: "list_nodes ?a = Inr [[(''cpu'', whole 8)]]" "list_trqs ?a = Inr [ex_trq]" by simp_all
  have w: "wf_map n" if "n \<in> set [[(''cpu'', whole 8)]]" for n using that by simp
  have t: "wf_map (tq_hard t)" if "t \<in> set [ex_trq]" for t using that by (simp add: ex_trq_def)
  show ?thesis
    using ValidateTenantResourceQuota_checks [OF l w t, of "\<lambda>_. []" "''u''" "ex_trq\<lparr>tq_hard := [(''limits.cpu'', whole 1000)]\<rparr>" "Inl []"]
    by (simp add: quota_name_def has_prefix_def)
qed

end
