(* ===== verification/Net_Policy.thy ===== *)
theory Net_Policy
  imports Tenant_Quota
begin

text \<open>
  Network isolation of tenants, projects and environments:
  \<open>pkg/controller/controllers/tenantnetworkpolicy_controller.go\<close> and the policies of
  \<open>controller_utils.go\<close>. The controller reads the namespaces and the policies that carry a label,
  decides for every namespace what its policy should be, and sends the requests that get there.

  What it reads from the API server is the record \<open>net_api\<close>: the answers to \<open>Get\<close> and \<open>List\<close> (a
  \<open>List\<close> whose error is ignored answers with no items). What it sends is a list of requests, whose
  errors it ignores. \<open>equality.Semantic.DeepDerivative\<close> is the parameter \<open>deriv\<close>.
\<close>

section \<open>Network policies\<close>

datatype selector_op = OpIn "string list" | OpExists

type_synonym requirement = "string \<times> selector_op"

datatype peer =
    IPBlock string "string list"
  | NamespaceSelector "requirement list"

record netpol =
  np_name :: string
  np_namespace :: string
  np_version :: string
  np_labels :: labels
  np_ingress :: "peer list list"

definition LabelPlugins :: string where "LabelPlugins = ''gems.kubegems.io/plugins''"

definition CommonLabels :: "string list" where
  "CommonLabels = [LabelTenant, LabelProject, LabelEnvironment]"

definition DefaultNetworkPolicy :: "string \<Rightarrow> string \<Rightarrow> string list \<Rightarrow> netpol" where
  "DefaultNetworkPolicy namespace name cidrs =
     \<lparr>np_name = name, np_namespace = namespace, np_version = [], np_labels = [],
      np_ingress =
        [[IPBlock ''0.0.0.0/0'' cidrs],
         [NamespaceSelector [(LabelPlugins, OpExists)]],
         [NamespaceSelector []]]\<rparr>"

definition validNetworkPolicy :: "netpol \<Rightarrow> bool" where
  "validNetworkPolicy np =
     (if length (np_ingress np) < 3 then False
      else if np_ingress np ! 2 = [] then False
      else True)"

text \<open>
  \<open>np.Spec.Ingress[2].From[0].NamespaceSelector.MatchExpressions\<close> of a valid policy: reading it
  through a peer without a selector panics, the value \<^const>\<open>None\<close>.
\<close>

definition MatchExpressions :: "netpol \<Rightarrow> requirement list option" where
  "MatchExpressions np =
     (case hd (np_ingress np ! 2) of
        NamespaceSelector es \<Rightarrow> Some es
      | IPBlock _ _ \<Rightarrow> None)"

definition set_MatchExpressions :: "requirement list \<Rightarrow> netpol \<Rightarrow> netpol" where
  "set_MatchExpressions es np =
     np\<lparr>np_ingress := (np_ingress np)[2 := NamespaceSelector es # tl (np_ingress np ! 2)]\<rparr>"

definition hasKindLabel :: "netpol \<Rightarrow> string \<Rightarrow> bool option" where
  "hasKindLabel np kind =
     (case MatchExpressions np of
        None \<Rightarrow> None
      | Some es \<Rightarrow> Some (list_ex (\<lambda>(k, _). k = kind) es))"

definition AddNamespaceSelector :: "netpol \<Rightarrow> string \<Rightarrow> string \<Rightarrow> netpol option" where
  "AddNamespaceSelector np kind value =
     (if \<not> validNetworkPolicy np then Some np
      else case hasKindLabel np kind of
        None \<Rightarrow> None
      | Some True \<Rightarrow> Some np
      | Some False \<Rightarrow>
          map_option (\<lambda>es. set_MatchExpressions (es @ [(kind, OpIn [value])]) np) (MatchExpressions np))"

fun last_index :: "string \<Rightarrow> nat \<Rightarrow> int \<Rightarrow> requirement list \<Rightarrow> int" where
  "last_index kind idx index [] = index"
| "last_index kind idx index ((k, _) # es) =
     last_index kind (idx + 1) (if k = kind then int idx else index) es"

definition DelNamespaceSelector :: "netpol \<Rightarrow> string \<Rightarrow> netpol option" where
  "DelNamespaceSelector np kind =
     (if \<not> validNetworkPolicy np then Some np
      else case MatchExpressions np of
        None \<Rightarrow> None
      | Some es \<Rightarrow>
          let index = last_index kind 0 (- 1) es in
          if index \<noteq> - 1
          then Some (set_MatchExpressions (take (nat index) es @ drop (nat index + 1) es) np)
          else Some np)"

section \<open>Owners\<close>

type_synonym owner_ref = "string \<times> string \<times> string"

definition ExistOwnerRef :: "owner_ref list \<Rightarrow> owner_ref \<Rightarrow> bool" where
  "ExistOwnerRef refs owner = list_ex (\<lambda>ref. ref = owner) refs"

section \<open>The controller\<close>

record net_spec =
  ns_tenant :: string
  ns_isolated :: bool
  ns_projects :: "string list"
  ns_environments :: "(string \<times> string) list"

record tenant_netpol =
  tp_name :: string
  tp_labels :: labels
  tp_deleting :: bool
  tp_owners :: "owner_ref list"
  tp_finalizers :: "string list"
  tp_spec :: net_spec

definition zero_tenant_netpol :: tenant_netpol where
  "zero_tenant_netpol =
     \<lparr>tp_name = [], tp_labels = [], tp_deleting = False, tp_owners = [], tp_finalizers = [],
      tp_spec = \<lparr>ns_tenant = [], ns_isolated = False, ns_projects = [], ns_environments = []\<rparr>\<rparr>"

type_synonym namespace = "string \<times> labels"

record net_api =
  get_tnp :: "string \<Rightarrow> tenant_netpol got"
  pod_cidrs :: "string + string list list"
  namespaces_with :: "string \<Rightarrow> string \<Rightarrow> namespace list"
  netpols_with :: "string \<Rightarrow> string \<Rightarrow> netpol list"

datatype iso_kind = isoKindTenant | isoKindProject | isoKindEnvironment

record net_action =
  TenantISO :: bool
  ProjectISO :: bool
  EnvironmentISO :: bool
  Tenant :: string
  Project :: string
  Environment :: string
  Origin :: "netpol option"
  Modify :: "netpol option"
  Labels :: labels
  act :: string

definition zero_action :: net_action where
  "zero_action = \<lparr>TenantISO = False, ProjectISO = False, EnvironmentISO = False,
     Tenant = [], Project = [], Environment = [], Origin = None, Modify = None, Labels = [], act = []\<rparr>"

type_synonym net_status = "(string, net_action) gomap"

text \<open>Reading a Go map at a missing key is the empty string.\<close>

definition label_of :: "labels \<Rightarrow> string \<Rightarrow> string" where
  "label_of ls k = (case map_of ls k of None \<Rightarrow> [] | Some v \<Rightarrow> v)"

definition set_iso :: "iso_kind \<Rightarrow> bool \<Rightarrow> net_action \<Rightarrow> net_action" where
  "set_iso kind isolated a =
     (case kind of
        isoKindTenant \<Rightarrow> a\<lparr>TenantISO := isolated\<rparr>
      | isoKindProject \<Rightarrow> a\<lparr>ProjectISO := isolated\<rparr>
      | isoKindEnvironment \<Rightarrow> a\<lparr>EnvironmentISO := isolated\<rparr>)"

definition touch ::
  "(string \<rightharpoonup> netpol) \<Rightarrow> iso_kind \<Rightarrow> bool \<Rightarrow> namespace \<Rightarrow> net_action option \<Rightarrow> net_action" where
  "touch npmap kind isolated ns found =
     (let tmpaction = (case found of
            Some action \<Rightarrow> action
          | None \<Rightarrow> zero_action\<lparr>Origin := npmap (fst ns)\<rparr>);
          tmpaction = tmpaction\<lparr>Tenant := label_of (snd ns) LabelTenant,
            Project := label_of (snd ns) LabelProject,
            Environment := label_of (snd ns) LabelEnvironment\<rparr>;
          tmpaction = set_iso kind isolated tmpaction
      in tmpaction\<lparr>Labels := GetLabels (snd ns) CommonLabels\<rparr>)"

definition related_step ::
  "(string \<rightharpoonup> netpol) \<Rightarrow> iso_kind \<Rightarrow> bool \<Rightarrow> net_status \<Rightarrow> namespace \<Rightarrow> net_status" where
  "related_step npmap kind isolated st ns =
     AList.update (fst ns) (touch npmap kind isolated ns (map_of st (fst ns))) st"

definition by_namespace :: "netpol list \<Rightarrow> string \<rightharpoonup> netpol" where
  "by_namespace nplist = foldl (\<lambda>m np. m(np_namespace np \<mapsto> np)) Map.empty nplist"

definition handleRelatedObjectList ::
  "net_api \<Rightarrow> string \<Rightarrow> string \<Rightarrow> iso_kind \<Rightarrow> bool \<Rightarrow> net_status \<Rightarrow> net_status" where
  "handleRelatedObjectList api k v kind isolated st =
     (let nslist = namespaces_with api k v;
          nplist = netpols_with api k v;
          npmap = by_namespace nplist
      in foldl (related_step npmap kind isolated) st nslist)"

definition GetCIDRs :: "net_api \<Rightarrow> string + string list" where
  "GetCIDRs api = (case pod_cidrs api of Inl e \<Rightarrow> Inl e | Inr cidrs \<Rightarrow> Inr (concat cidrs))"

definition selectors :: "net_action \<Rightarrow> netpol \<Rightarrow> netpol option" where
  "selectors action np =
     Option.bind (if TenantISO action then AddNamespaceSelector np LabelTenant (Tenant action) else Some np)
       (\<lambda>np. Option.bind (if ProjectISO action then AddNamespaceSelector np LabelProject (Project action) else Some np)
         (\<lambda>np. if EnvironmentISO action then AddNamespaceSelector np LabelEnvironment (Environment action) else Some np))"

definition isolated :: "net_action \<Rightarrow> bool" where
  "isolated action \<longleftrightarrow> EnvironmentISO action \<or> ProjectISO action \<or> TenantISO action"

definition finish_action ::
  "(netpol \<Rightarrow> netpol \<Rightarrow> bool) \<Rightarrow> string list \<Rightarrow> string \<Rightarrow> net_action \<Rightarrow> net_action option" where
  "finish_action deriv cidrs ns action =
     map_option (\<lambda>m.
       action\<lparr>Modify := Some m,
         act := (case Origin action of
            None \<Rightarrow> (if \<not> isolated action then [] else ''create'')
          | Some origin \<Rightarrow>
              (if \<not> isolated action then ''delete''
               else if \<not> deriv origin m then ''update''
               else []))\<rparr>)
     (selectors action (DefaultNetworkPolicy ns ''default'' cidrs))"

fun finish_all ::
  "(netpol \<Rightarrow> netpol \<Rightarrow> bool) \<Rightarrow> string list \<Rightarrow> net_status \<Rightarrow> net_status option" where
  "finish_all deriv cidrs [] = Some []"
| "finish_all deriv cidrs ((ns, action) # st) =
     (case finish_action deriv cidrs ns action of
        None \<Rightarrow> None
      | Some a \<Rightarrow> map_option (\<lambda>st'. (ns, a) # st') (finish_all deriv cidrs st))"

definition collect :: "net_api \<Rightarrow> net_spec \<Rightarrow> net_status" where
  "collect api spec =
     (let st = handleRelatedObjectList api LabelTenant (ns_tenant spec) isoKindTenant (ns_isolated spec) [];
          st = foldl (\<lambda>st proj. handleRelatedObjectList api LabelProject proj isoKindProject True st)
                 st (ns_projects spec)
      in foldl (\<lambda>st env. handleRelatedObjectList api LabelEnvironment (snd env) isoKindEnvironment True st)
                 st (ns_environments spec))"

text \<open>\<^const>\<open>None\<close> is a panic: the nodes cannot be listed.\<close>

definition handleStatusMap ::
  "(netpol \<Rightarrow> netpol \<Rightarrow> bool) \<Rightarrow> net_api \<Rightarrow> net_spec \<Rightarrow> net_status option" where
  "handleStatusMap deriv api spec =
     (case GetCIDRs api of
        Inl e \<Rightarrow> None
      | Inr cidrs \<Rightarrow> finish_all deriv cidrs (collect api spec))"

datatype net_request =
    CreatePolicy netpol
  | DeletePolicy netpol
  | UpdatePolicy netpol
  | UpdateTenantPolicy tenant_netpol

definition action_request :: "net_action \<Rightarrow> net_request list" where
  "action_request action =
     (case Modify action of
        None \<Rightarrow> []
      | Some m \<Rightarrow>
          if act action = ''create'' then [CreatePolicy (m\<lparr>np_labels := labels_Merge (np_labels m) (Labels action)\<rparr>)]
          else if act action = ''delete'' then [DeletePolicy m]
          else if act action = ''update'' then [UpdatePolicy (m\<lparr>np_labels := labels_Merge (np_labels m) (Labels action)\<rparr>)]
          else [])"

definition FinalizerNetworkPolicy :: string where
  "FinalizerNetworkPolicy = ''finalizer.gems.kubegems.io/networkpolicy''"

definition reconcile_found ::
  "(netpol \<Rightarrow> netpol \<Rightarrow> bool) \<Rightarrow> net_api \<Rightarrow> tenant_netpol \<Rightarrow> net_request list option" where
  "reconcile_found deriv api netpol =
     (if tp_deleting netpol
      then case map_of (tp_labels netpol) LabelTenant of
             None \<Rightarrow> Some []
           | Some tenantname \<Rightarrow>
               Some (map DeletePolicy (netpols_with api LabelTenant tenantname) @
                     [UpdateTenantPolicy (netpol\<lparr>tp_owners := [], tp_finalizers := []\<rparr>)])
      else case handleStatusMap deriv api (tp_spec netpol) of
             None \<Rightarrow> None
           | Some statusMap \<Rightarrow>
               Some (concat (map (action_request \<circ> snd) statusMap) @
                     (if FinalizerNetworkPolicy \<in> set (tp_finalizers netpol) then []
                      else [UpdateTenantPolicy
                             (netpol\<lparr>tp_finalizers := tp_finalizers netpol @ [FinalizerNetworkPolicy]\<rparr>)])))"

definition Reconcile_netpol ::
  "(netpol \<Rightarrow> netpol \<Rightarrow> bool) \<Rightarrow> net_api \<Rightarrow> string \<Rightarrow> net_request list option" where
  "Reconcile_netpol deriv api name =
     (case get_tnp api name of
        NotFound \<Rightarrow> Some []
      | Failed e \<Rightarrow> reconcile_found deriv api zero_tenant_netpol
      | Found netpol \<Rightarrow> reconcile_found deriv api netpol)"

section \<open>What a policy admits\<close>

text \<open>The namespaces a list of requirements selects, and those a policy lets in.\<close>

definition selects :: "requirement list \<Rightarrow> labels \<Rightarrow> bool" where
  "selects es ls \<longleftrightarrow> (\<forall>(k, op) \<in> set es.
     case op of OpIn vs \<Rightarrow> \<exists>v \<in> set vs. map_of ls k = Some v | OpExists \<Rightarrow> map_of ls k \<noteq> None)"

definition admits :: "netpol \<Rightarrow> labels \<Rightarrow> bool" where
  "admits np ls \<longleftrightarrow> (\<exists>ps \<in> set (np_ingress np). \<exists>p \<in> set ps.
     case p of NamespaceSelector es \<Rightarrow> selects es ls | IPBlock c ex \<Rightarrow> False)"

definition requirements :: "net_action \<Rightarrow> requirement list" where
  "requirements a =
     (if TenantISO a then [(LabelTenant, OpIn [Tenant a])] else []) @
     (if ProjectISO a then [(LabelProject, OpIn [Project a])] else []) @
     (if EnvironmentISO a then [(LabelEnvironment, OpIn [Environment a])] else [])"

lemma keys_differ [simp]:
  "LabelTenant \<noteq> LabelProject" "LabelTenant \<noteq> LabelEnvironment" "LabelProject \<noteq> LabelEnvironment"
  "LabelProject \<noteq> LabelTenant" "LabelEnvironment \<noteq> LabelTenant" "LabelEnvironment \<noteq> LabelProject"
  by (simp_all add: LabelTenant_def LabelProject_def LabelEnvironment_def)

abbreviation policy_with :: "string \<Rightarrow> string \<Rightarrow> string list \<Rightarrow> requirement list \<Rightarrow> netpol" where
  "policy_with n nm cidrs es \<equiv> set_MatchExpressions es (DefaultNetworkPolicy n nm cidrs)"

lemma policy_with_Nil: "DefaultNetworkPolicy n nm cidrs = policy_with n nm cidrs []"
  by (simp add: set_MatchExpressions_def DefaultNetworkPolicy_def)

lemma Add_policy_with:
  "AddNamespaceSelector (policy_with n nm cidrs es) k v =
     Some (policy_with n nm cidrs (if list_ex (\<lambda>(j, _). j = k) es then es else es @ [(k, OpIn [v])]))"
  by (simp add: AddNamespaceSelector_def validNetworkPolicy_def hasKindLabel_def MatchExpressions_def
      set_MatchExpressions_def DefaultNetworkPolicy_def)

lemma selectors_default:
  "selectors a (DefaultNetworkPolicy n nm cidrs) = Some (policy_with n nm cidrs (requirements a))"
proof -
  have "selectors a (policy_with n nm cidrs []) = Some (policy_with n nm cidrs (requirements a))"
    by (simp add: selectors_def requirements_def Add_policy_with)
  then show ?thesis by (simp only: policy_with_Nil [symmetric])
qed

lemma selects_Nil [simp]: "selects [] ls"
  by (simp add: selects_def)

lemma selects_append [simp]: "selects (es @ fs) ls \<longleftrightarrow> selects es ls \<and> selects fs ls"
  by (auto simp: selects_def)

lemma selects_one [simp]:
  "selects [(k, OpIn vs)] ls \<longleftrightarrow> (\<exists>v \<in> set vs. map_of ls k = Some v)"
  "selects [(k, OpExists)] ls \<longleftrightarrow> map_of ls k \<noteq> None"
  by (simp_all add: selects_def)

lemma admits_policy_with:
  "admits (policy_with n nm cidrs es) ls \<longleftrightarrow> map_of ls LabelPlugins \<noteq> None \<or> selects es ls"
  by (simp add: admits_def set_MatchExpressions_def DefaultNetworkPolicy_def)

lemma policy_with_simps [simp]:
  "np_namespace (policy_with n nm cidrs es) = n" "np_name (policy_with n nm cidrs es) = nm"
  "np_version (policy_with n nm cidrs es) = []" "np_labels (policy_with n nm cidrs es) = []"
  by (simp_all add: set_MatchExpressions_def DefaultNetworkPolicy_def)

lemma admits_updates [simp]:
  "admits (m\<lparr>np_labels := ls\<rparr>) = admits m" "admits (m\<lparr>np_version := v\<rparr>) = admits m"
  by (simp_all add: admits_def fun_eq_iff)

section \<open>Which namespaces are touched\<close>

definition tenant_match :: "net_spec \<Rightarrow> labels \<Rightarrow> bool" where
  "tenant_match spec ls \<longleftrightarrow> map_of ls LabelTenant = Some (ns_tenant spec)"

definition project_match :: "string list \<Rightarrow> labels \<Rightarrow> bool" where
  "project_match projects ls \<longleftrightarrow> (\<exists>p \<in> set projects. map_of ls LabelProject = Some p)"

definition environment_match :: "(string \<times> string) list \<Rightarrow> labels \<Rightarrow> bool" where
  "environment_match envs ls \<longleftrightarrow> (\<exists>e \<in> set envs. map_of ls LabelEnvironment = Some (snd e))"

text \<open>\<open>List\<close> with a selector of one label answers with the objects that carry it.\<close>

definition answers :: "net_api \<Rightarrow> namespace list \<Rightarrow> netpol list \<Rightarrow> bool" where
  "answers api nss nps \<longleftrightarrow>
     (\<forall>k v. namespaces_with api k v = filter (\<lambda>(_, ls). map_of ls k = Some v) nss \<and>
            netpols_with api k v = filter (\<lambda>np. map_of (np_labels np) k = Some v) nps)"

definition origin_for :: "netpol list \<Rightarrow> string \<Rightarrow> labels \<Rightarrow> string \<Rightarrow> netpol option" where
  "origin_for nps n ls k = by_namespace (filter (\<lambda>np. map_of (np_labels np) k = map_of ls k) nps) n"

lemma by_namespace_None: "by_namespace nps n = None \<longleftrightarrow> (\<forall>np \<in> set nps. np_namespace np \<noteq> n)"
proof -
  have "foldl (\<lambda>m np. m(np_namespace np \<mapsto> np)) f nps n = None
      \<longleftrightarrow> f n = None \<and> (\<forall>np \<in> set nps. np_namespace np \<noteq> n)" for f
    by (induction nps arbitrary: f) auto
  then show ?thesis by (simp add: by_namespace_def)
qed

lemma by_namespace_Some: "by_namespace nps n = Some np \<Longrightarrow> np \<in> set nps \<and> np_namespace np = n"
proof -
  have "foldl (\<lambda>m np. m(np_namespace np \<mapsto> np)) f nps n = Some np
      \<Longrightarrow> f n = Some np \<or> (np \<in> set nps \<and> np_namespace np = n)" for f
    by (induction nps arbitrary: f) (fastforce split: if_splits)+
  then show "by_namespace nps n = Some np \<Longrightarrow> ?thesis" by (fastforce simp: by_namespace_def)
qed

lemma map_of_related:
  assumes "distinct (map fst nslist)"
  shows "map_of (foldl (related_step npmap kind on) st nslist) n =
    (case map_of nslist n of
       None \<Rightarrow> map_of st n
     | Some ls \<Rightarrow> Some (touch npmap kind on (n, ls) (map_of st n)))"
  using assms
proof (induction nslist arbitrary: st)
  case (Cons x nslist)
  obtain m ls where x: "x = (m, ls)" by (cases x)
  have "map_of nslist m = None" using Cons.prems x by (simp add: map_of_eq_None_iff)
  then show ?case using Cons x by (auto simp: related_step_def split: option.splits)
qed simp

lemma map_of_filter_label:
  assumes "distinct (map fst nss)" and "map_of nss n = Some ls"
  shows "map_of (filter (\<lambda>(_, ls). map_of ls k = Some v) nss) n = (if map_of ls k = Some v then Some ls else None)"
  using map_of_filter_val [of nss "\<lambda>_ ls. map_of ls k = Some v" n] assms by simp

lemma handleRelated_at:
  assumes "answers api nss nps" and "distinct (map fst nss)" and "map_of nss n = Some ls"
  shows "map_of (handleRelatedObjectList api k v kind on st) n =
    (if map_of ls k = Some v
     then Some (touch (by_namespace (filter (\<lambda>np. map_of (np_labels np) k = Some v) nps)) kind on (n, ls) (map_of st n))
     else map_of st n)"
proof -
  have d: "distinct (map fst (filter (\<lambda>(_, ls). map_of ls k = Some v) nss))"
    using assms(2) by (rule distinct_map_filter)
  show ?thesis
    using assms unfolding answers_def
    by (simp add: handleRelatedObjectList_def map_of_related [OF d] map_of_filter_label)
qed

text \<open>The action of a namespace before the policies are built: its labels, its policy, its flags.\<close>

definition action_as :: "labels \<Rightarrow> netpol option \<Rightarrow> (iso_kind \<Rightarrow> bool) \<Rightarrow> net_action" where
  "action_as ls org f =
     \<lparr>TenantISO = f isoKindTenant, ProjectISO = f isoKindProject, EnvironmentISO = f isoKindEnvironment,
      Tenant = label_of ls LabelTenant, Project = label_of ls LabelProject, Environment = label_of ls LabelEnvironment,
      Origin = org, Modify = None, Labels = GetLabels ls CommonLabels, act = []\<rparr>"

lemma touch_Some: "touch npmap kind on (n, ls) (Some (action_as ls org f)) = action_as ls org (f(kind := on))"
  by (cases kind) (simp_all add: touch_def action_as_def set_iso_def)

lemma touch_None: "touch npmap kind on (n, ls) None = action_as ls (npmap n) ((\<lambda>_. False)(kind := on))"
  by (cases kind) (simp_all add: touch_def action_as_def set_iso_def zero_action_def)

definition label_in :: "labels \<Rightarrow> string \<Rightarrow> string list \<Rightarrow> bool" where
  "label_in ls k vs \<longleftrightarrow> (\<exists>v \<in> set vs. map_of ls k = Some v)"

lemma label_in_simps [simp]:
  "label_in ls k [] \<longleftrightarrow> False"
  "label_in ls k (v # vs) \<longleftrightarrow> map_of ls k = Some v \<or> label_in ls k vs"
  by (auto simp: label_in_def)

definition origin_key :: "net_spec \<Rightarrow> labels \<Rightarrow> string" where
  "origin_key spec ls =
     (if tenant_match spec ls then LabelTenant
      else if project_match (ns_projects spec) ls then LabelProject
      else LabelEnvironment)"

definition applies :: "net_spec \<Rightarrow> labels \<Rightarrow> bool" where
  "applies spec ls \<longleftrightarrow> tenant_match spec ls \<or> project_match (ns_projects spec) ls
     \<or> environment_match (ns_environments spec) ls"

fun level_isolated :: "net_spec \<Rightarrow> labels \<Rightarrow> iso_kind \<Rightarrow> bool" where
  "level_isolated spec ls isoKindTenant \<longleftrightarrow> tenant_match spec ls \<and> ns_isolated spec"
| "level_isolated spec ls isoKindProject \<longleftrightarrow> project_match (ns_projects spec) ls"
| "level_isolated spec ls isoKindEnvironment \<longleftrightarrow> environment_match (ns_environments spec) ls"

abbreviation pass :: "net_api \<Rightarrow> string \<Rightarrow> iso_kind \<Rightarrow> net_status \<Rightarrow> string list \<Rightarrow> net_status" where
  "pass api k kind \<equiv> foldl (\<lambda>st v. handleRelatedObjectList api k v kind True st)"

lemma pass_Some:
  assumes "answers api nss nps" and "distinct (map fst nss)" and "map_of nss n = Some ls"
    and "map_of st n = Some (action_as ls org f)"
  shows "map_of (pass api k kind st vs) n
    = Some (action_as ls org (if label_in ls k vs then f(kind := True) else f))"
  using assms(4)
proof (induction vs arbitrary: st f)
  case (Cons v vs)
  have "map_of (handleRelatedObjectList api k v kind True st) n
      = Some (action_as ls org (if map_of ls k = Some v then f(kind := True) else f))"
    using Cons.prems by (simp add: handleRelated_at [OF assms(1-3)] touch_Some)
  from Cons.IH [OF this] show ?case by simp
qed simp

lemma pass_None:
  assumes "answers api nss nps" and "distinct (map fst nss)" and "map_of nss n = Some ls"
    and "map_of st n = None"
  shows "map_of (pass api k kind st vs) n
    = (if label_in ls k vs then Some (action_as ls (origin_for nps n ls k) ((\<lambda>_. False)(kind := True))) else None)"
  using assms(4)
proof (induction vs arbitrary: st)
  case (Cons v vs)
  show ?case
  proof (cases "map_of ls k = Some v")
    case True
    then have "map_of (handleRelatedObjectList api k v kind True st) n
        = Some (action_as ls (origin_for nps n ls k) ((\<lambda>_. False)(kind := True)))"
      using Cons.prems by (simp add: handleRelated_at [OF assms(1-3)] touch_None origin_for_def)
    from pass_Some [OF assms(1-3) this] True show ?thesis by simp
  next
    case False
    then show ?thesis using Cons by (simp add: handleRelated_at [OF assms(1-3)])
  qed
qed simp

lemma collect_at:
  assumes "answers api nss nps" and "distinct (map fst nss)" and "map_of nss n = Some ls"
  shows "map_of (collect api spec) n =
    (if applies spec ls
     then Some (action_as ls (origin_for nps n ls (origin_key spec ls)) (level_isolated spec ls))
     else None)"
proof -
  have f: "level_isolated spec ls =
      (((\<lambda>_. False)(isoKindTenant := tenant_match spec ls \<and> ns_isolated spec))
        (isoKindProject := project_match (ns_projects spec) ls))
        (isoKindEnvironment := environment_match (ns_environments spec) ls)"
  proof
    fix k show "level_isolated spec ls k =
      ((((\<lambda>_. False)(isoKindTenant := tenant_match spec ls \<and> ns_isolated spec))
        (isoKindProject := project_match (ns_projects spec) ls))
        (isoKindEnvironment := environment_match (ns_environments spec) ls)) k"
      by (cases k) simp_all
  qed
  define st1 where "st1 = handleRelatedObjectList api LabelTenant (ns_tenant spec) isoKindTenant (ns_isolated spec) []"
  have m: "project_match ps ls = label_in ls LabelProject ps"
    "environment_match es ls = label_in ls LabelEnvironment (map snd es)" for ps es
    by (simp_all add: project_match_def environment_match_def label_in_def)
  have c: "collect api spec = pass api LabelEnvironment isoKindEnvironment
      (pass api LabelProject isoKindProject st1 (ns_projects spec)) (map snd (ns_environments spec))"
    by (simp add: collect_def st1_def foldl_map)
  show ?thesis
  proof (cases "tenant_match spec ls")
    case True
    then have "map_of st1 n = Some (action_as ls (origin_for nps n ls LabelTenant)
        ((\<lambda>_. False)(isoKindTenant := ns_isolated spec)))"
      by (simp add: st1_def handleRelated_at [OF assms] touch_None origin_for_def tenant_match_def)
    from pass_Some [OF assms pass_Some [OF assms this]] True show ?thesis
      by (auto simp: c f applies_def origin_key_def m fun_upd_def intro!: arg_cong [where f = "action_as ls _"])
  next
    case False
    then have n1: "map_of st1 n = None"
      by (simp add: st1_def handleRelated_at [OF assms] tenant_match_def)
    show ?thesis
    proof (cases "project_match (ns_projects spec) ls")
      case True
      with pass_None [OF assms n1]
      have "map_of (pass api LabelProject isoKindProject st1 (ns_projects spec)) n
          = Some (action_as ls (origin_for nps n ls LabelProject) ((\<lambda>_. False)(isoKindProject := True)))"
        by (simp add: m)
      from pass_Some [OF assms this] True False show ?thesis
        by (auto simp: c f applies_def origin_key_def m fun_upd_def intro!: arg_cong [where f = "action_as ls _"])
    next
      case P: False
      with pass_None [OF assms n1]
      have "map_of (pass api LabelProject isoKindProject st1 (ns_projects spec)) n = None"
        by (simp add: m)
      from pass_None [OF assms this] P False show ?thesis
        by (auto simp: c f applies_def origin_key_def m fun_upd_def intro!: arg_cong [where f = "action_as ls _"])
    qed
  qed
qed

section \<open>The requests\<close>

definition built :: "(netpol \<Rightarrow> netpol \<Rightarrow> bool) \<Rightarrow> string list \<Rightarrow> string \<Rightarrow> net_action \<Rightarrow> net_action" where
  "built deriv cidrs n a =
     (let m = policy_with n ''default'' cidrs (requirements a)
      in a\<lparr>Modify := Some m,
           act := (case Origin a of
              None \<Rightarrow> if isolated a then ''create'' else []
            | Some origin \<Rightarrow> if isolated a then (if deriv origin m then [] else ''update'') else ''delete'')\<rparr>)"

lemma finish_action_built: "finish_action deriv cidrs n a = Some (built deriv cidrs n a)"
  by (simp add: finish_action_def selectors_default built_def Let_def split: option.splits)

lemma finish_all_built:
  "finish_all deriv cidrs st = Some (map (\<lambda>(n, a). (n, built deriv cidrs n a)) st)"
  by (induction st) (auto simp: finish_action_built)

lemma wf_handleRelated: "wf_map st \<Longrightarrow> wf_map (handleRelatedObjectList api k v kind on st)"
proof -
  have "wf_map (foldl (related_step npmap kind on) st l)" if "wf_map st" for npmap l
    using that by (induction l arbitrary: st) (simp_all add: related_step_def)
  then show "wf_map st \<Longrightarrow> ?thesis" by (simp add: handleRelatedObjectList_def)
qed

lemma wf_collect: "wf_map (collect api spec)"
proof -
  have "wf_map (foldl (\<lambda>st v. handleRelatedObjectList api k (g v) kind True st) st vs)"
    if "wf_map st" for k kind st and vs :: "'a list" and g
    using that by (induction vs arbitrary: st) (simp_all add: wf_handleRelated)
  note fold = this
  have pass: "wf_map (pass api k kind st vs)" if "wf_map st" for k kind st vs
    using that by (induction vs arbitrary: st) (simp_all add: wf_handleRelated)
  show ?thesis unfolding collect_def Let_def
    by (intro fold pass wf_handleRelated) simp
qed

text \<open>The requests about the policies of one namespace.\<close>

fun about :: "string \<Rightarrow> net_request \<Rightarrow> bool" where
  "about n (CreatePolicy p) \<longleftrightarrow> np_namespace p = n"
| "about n (DeletePolicy p) \<longleftrightarrow> np_namespace p = n"
| "about n (UpdatePolicy p) \<longleftrightarrow> np_namespace p = n"
| "about n (UpdateTenantPolicy p) \<longleftrightarrow> False"

lemma about_built:
  "filter (about n) (action_request (built deriv cidrs m a)) =
     (if m = n then action_request (built deriv cidrs m a) else [])"
proof -
  have "Modify (built deriv cidrs m a) = Some (policy_with m ''default'' cidrs (requirements a))"
    by (simp add: built_def Let_def)
  then show ?thesis by (cases "m = n") (simp_all add: action_request_def)
qed

lemma filter_requests:
  assumes "wf_map st"
  shows "filter (about n) (concat (map (\<lambda>x. action_request (snd (case x of (n, a) \<Rightarrow> (n, built deriv cidrs n a)))) st))
    = (case map_of st n of None \<Rightarrow> [] | Some a \<Rightarrow> action_request (built deriv cidrs n a))"
  using assms
proof (induction st)
  case (Cons x st)
  obtain m a where x: "x = (m, a)" by (cases x)
  have "map_of st m = None" using Cons.prems x by (simp add: map_of_eq_None_iff)
  then show ?case using Cons x by (auto simp: about_built split: option.splits)
qed simp

fun level_key :: "iso_kind \<Rightarrow> string" where
  "level_key isoKindTenant = LabelTenant"
| "level_key isoKindProject = LabelProject"
| "level_key isoKindEnvironment = LabelEnvironment"

lemma isolated_action_as: "isolated (action_as ls org f) \<longleftrightarrow> (\<exists>k. f k)"
proof
  assume "isolated (action_as ls org f)"
  then show "\<exists>k. f k" by (auto simp: isolated_def action_as_def)
next
  assume "\<exists>k. f k"
  then obtain k where "f k" ..
  then show "isolated (action_as ls org f)" by (cases k) (auto simp: isolated_def action_as_def)
qed

lemma label_of_Some: "map_of ls k = Some v \<Longrightarrow> label_of ls k = v"
  by (simp add: label_of_def)

lemma level_has_label: "level_isolated spec ls k \<Longrightarrow> map_of ls (level_key k) \<noteq> None"
  by (cases k) (auto simp: tenant_match_def project_match_def environment_match_def)

lemma admits_requirements:
  assumes "\<And>k. f k \<Longrightarrow> map_of ls (level_key k) \<noteq> None"
  shows "admits (policy_with n nm cidrs (requirements (action_as ls org f))) ls' \<longleftrightarrow>
    map_of ls' LabelPlugins \<noteq> None \<or> (\<forall>k. f k \<longrightarrow> map_of ls' (level_key k) = map_of ls (level_key k))"
proof -
  have all: "(\<forall>k. P k) \<longleftrightarrow> P isoKindTenant \<and> P isoKindProject \<and> P isoKindEnvironment" for P
    by (metis iso_kind.exhaust)
  have l: "f k \<Longrightarrow> map_of ls (level_key k) = Some (label_of ls (level_key k))" for k
    using assms [of k] by (auto simp: label_of_def)
  show ?thesis
    using l [of isoKindTenant] l [of isoKindProject] l [of isoKindEnvironment]
    by (simp add: admits_policy_with requirements_def action_as_def all)
qed

lemma requests_at:
  assumes "\<And>o'. org = Some o' \<Longrightarrow> \<not> deriv o' (policy_with n ''default'' cidrs (requirements (action_as ls org f)))"
  shows "action_request (built deriv cidrs n (action_as ls org f)) =
    (if \<exists>k. f k
     then [(if org = None then CreatePolicy else UpdatePolicy)
             ((policy_with n ''default'' cidrs (requirements (action_as ls org f)))
                \<lparr>np_labels := labels_Merge [] (GetLabels ls CommonLabels)\<rparr>)]
     else if org = None then []
     else [DeletePolicy (DefaultNetworkPolicy n ''default'' cidrs)])"
proof -
  let ?a = "action_as ls org f"
  let ?m = "policy_with n ''default'' cidrs (requirements ?a)"
  have fields: "Origin ?a = org" "Labels ?a = GetLabels ls CommonLabels" by (simp_all add: action_as_def)
  have b: "Modify (built deriv cidrs n ?a) = Some ?m" "Labels (built deriv cidrs n ?a) = GetLabels ls CommonLabels"
    "act (built deriv cidrs n ?a) = (if \<exists>k. f k then (if org = None then ''create'' else ''update'')
       else if org = None then [] else ''delete'')"
    using assms by (auto simp: built_def Let_def fields isolated_action_as split: option.splits)
  have "requirements ?a = []" if "\<nexists>k. f k"
    using that by (simp add: requirements_def action_as_def)
  then have d: "?m = DefaultNetworkPolicy n ''default'' cidrs" if "\<nexists>k. f k"
    using that by (simp add: policy_with_Nil [symmetric])
  show ?thesis
    unfolding action_request_def b using d by auto
qed

lemma wf_GetLabels: "wf_map (GetLabels ls ks)"
proof -
  have "wf_map (foldl (\<lambda>ret k. case map_of ls k of None \<Rightarrow> ret | Some v \<Rightarrow> AList.update k v ret) r ks)"
    if "wf_map r" for r
    using that by (induction ks arbitrary: r) (auto split: option.splits)
  then show ?thesis by (simp add: GetLabels_def)
qed

lemma merged_labels:
  "map_of (labels_Merge [] (GetLabels ls CommonLabels)) k = (if k \<in> set CommonLabels then map_of ls k else None)"
  by (simp add: labels_Merge_of wf_GetLabels GetLabels_of)

lemma filter_owner_update [simp]: "filter (about n) (if b then [] else [UpdateTenantPolicy t]) = []"
  by simp

lemma Reconcile_about:
  assumes "get_tnp api name = Found tnp" and "\<not> tp_deleting tnp" and "pod_cidrs api = Inr c"
  shows "\<exists>reqs. Reconcile_netpol deriv api name = Some reqs \<and>
    filter (about n) reqs =
      (case map_of (collect api (tp_spec tnp)) n of
         None \<Rightarrow> []
       | Some a \<Rightarrow> action_request (built deriv (concat c) n a))"
  using assms
  by (simp add: Reconcile_netpol_def reconcile_found_def handleStatusMap_def GetCIDRs_def finish_all_built
      filter_requests [OF wf_collect] comp_def)

text \<open>C13: For every namespace of the cluster, one run of the controller sends exactly the request that
  isolates it. Nothing is sent about a namespace that no part of the policy names. If a level isolates
  it, one policy is created, or updated when the namespace already has a labelled one, and that policy
  admits exactly the namespaces of plugins and those that agree with it on the label of every isolated
  level. If it is named but no level isolates it, its policy is deleted. An existing policy is updated
  on every run, also when it is as it should be. Projects and environments are matched by their bare
  names, so the run for one tenant rewrites the policies of another whose project has the same name.\<close>

theorem Reconcile_isolates:
  assumes "answers api nss nps" and "distinct (map fst nss)" and "map_of nss n = Some ls"
    and "get_tnp api name = Found tnp" and "\<not> tp_deleting tnp" and "pod_cidrs api = Inr c"
    and stored: "\<forall>np \<in> set nps. np_version np \<noteq> []"
    and documented: "\<forall>a b. np_version a \<noteq> [] \<longrightarrow> np_version b = [] \<longrightarrow> \<not> deriv a b"
  shows "\<exists>reqs. Reconcile_netpol deriv api name = Some reqs \<and>
    (let spec = tp_spec tnp; levels = level_isolated spec ls; about_n = filter (about n) reqs;
         existing = (\<exists>np \<in> set nps. np_namespace np = n \<and>
            map_of (np_labels np) (origin_key spec ls) = map_of ls (origin_key spec ls))
     in (\<not> applies spec ls \<longrightarrow> about_n = []) \<and>
        (applies spec ls \<and> (\<nexists>k. levels k) \<longrightarrow>
           about_n = (if existing then [DeletePolicy (DefaultNetworkPolicy n ''default'' (concat c))] else [])) \<and>
        ((\<exists>k. levels k) \<longrightarrow>
           (\<exists>p. about_n = [if existing then UpdatePolicy p else CreatePolicy p] \<and>
              np_name p = ''default'' \<and> np_namespace p = n \<and>
              (\<forall>k. map_of (np_labels p) k = (if k \<in> set CommonLabels then map_of ls k else None)) \<and>
              (\<forall>ls'. admits p ls' \<longleftrightarrow> map_of ls' LabelPlugins \<noteq> None \<or>
                 (\<forall>k. levels k \<longrightarrow> map_of ls' (level_key k) = map_of ls (level_key k))))))"
proof -
  let ?spec = "tp_spec tnp"
  let ?org = "origin_for nps n ls (origin_key ?spec ls)"
  let ?a = "action_as ls ?org (level_isolated ?spec ls)"
  obtain reqs where run: "Reconcile_netpol deriv api name = Some reqs"
    and reqs: "filter (about n) reqs = (case map_of (collect api ?spec) n of
       None \<Rightarrow> [] | Some a \<Rightarrow> action_request (built deriv (concat c) n a))"
    using Reconcile_about [OF assms(4-6)] by blast
  have ex: "?org \<noteq> None \<longleftrightarrow> (\<exists>np \<in> set nps. np_namespace np = n \<and>
      map_of (np_labels np) (origin_key ?spec ls) = map_of ls (origin_key ?spec ls))"
    by (auto simp: origin_for_def by_namespace_None)
  have new: "\<not> deriv o' (policy_with n ''default'' (concat c) (requirements ?a))" if "?org = Some o'" for o'
    using by_namespace_Some [OF that [unfolded origin_for_def]] stored documented by auto
  have lev: "applies ?spec ls" if "level_isolated ?spec ls k" for k
    using that by (cases k) (auto simp: applies_def)
  note at = requests_at [where deriv = deriv and cidrs = "concat c" and n = n, OF new]
  have "\<not> applies ?spec ls \<Longrightarrow> filter (about n) reqs = []"
    using reqs by (simp add: collect_at [OF assms(1-3)])
  moreover have "filter (about n) reqs = action_request (built deriv (concat c) n ?a)" if "applies ?spec ls"
    using reqs that by (simp add: collect_at [OF assms(1-3)])
  moreover note adm = admits_requirements [where f = "level_isolated ?spec ls", OF level_has_label]
  ultimately show ?thesis
    using run lev
    apply (intro exI [of _ reqs])
    by (auto simp: Let_def ex [symmetric] at adm merged_labels)
qed

text \<open>
  A cluster of two tenants \<open>a\<close> and \<open>b\<close>, each with a project \<open>web\<close>; \<open>b\<close> isolates itself, and its
  namespace has the policy of that. The policy of \<open>a\<close> isolates its project \<open>web\<close>.
\<close>

definition ex_labels :: "string \<Rightarrow> labels" where
  "ex_labels t = [(LabelTenant, t), (LabelProject, ''web'')]"

definition ex_namespaces :: "namespace list" where
  "ex_namespaces = [(''a-web'', ex_labels ''a''), (''b-web'', ex_labels ''b'')]"

definition ex_existing :: netpol where
  "ex_existing =
     (policy_with ''b-web'' ''default'' [] [(LabelTenant, OpIn [''b''])])
       \<lparr>np_version := ''7'', np_labels := ex_labels ''b''\<rparr>"

definition ex_tnp :: tenant_netpol where
  "ex_tnp = \<lparr>tp_name = ''a'', tp_labels = [(LabelTenant, ''a'')], tp_deleting = False, tp_owners = [],
     tp_finalizers = [], tp_spec = \<lparr>ns_tenant = ''a'', ns_isolated = False, ns_projects = [''web''], ns_environments = []\<rparr>\<rparr>"

definition ex_net_api :: net_api where
  "ex_net_api = \<lparr>get_tnp = (\<lambda>_. Found ex_tnp), pod_cidrs = Inr [],
     namespaces_with = (\<lambda>k v. filter (\<lambda>(_, ls). map_of ls k = Some v) ex_namespaces),
     netpols_with = (\<lambda>k v. filter (\<lambda>np. map_of (np_labels np) k = Some v) [ex_existing])\<rparr>"

definition ex_deriv :: "netpol \<Rightarrow> netpol \<Rightarrow> bool" where
  "ex_deriv a b \<longleftrightarrow> np_version a = [] \<or> np_version a = np_version b"

lemma ex_existing_simps [simp]:
  "np_labels ex_existing = ex_labels ''b''" "np_version ex_existing = ''7''" "np_namespace ex_existing = ''b-web''"
  by (simp_all add: ex_existing_def)

lemma ex_levels: "level_isolated (tp_spec ex_tnp) (ex_labels ''b'') k \<longleftrightarrow> k = isoKindProject"
  by (cases k) (simp_all add: ex_tnp_def ex_labels_def tenant_match_def project_match_def environment_match_def)

lemma ex_origin_key: "origin_key (tp_spec ex_tnp) (ex_labels ''b'') = LabelProject"
  by (simp add: origin_key_def ex_tnp_def ex_labels_def tenant_match_def project_match_def)

text \<open>
  Before the run the policy of \<open>b-web\<close> keeps the namespaces of tenant \<open>a\<close> out; the
  run for tenant \<open>a\<close> replaces it by one that lets them in.
\<close>

theorem Reconcile_isolates_witness:
  "\<not> admits ex_existing (ex_labels ''a'') \<and>
   (\<exists>reqs p. Reconcile_netpol ex_deriv ex_net_api ''a'' = Some reqs \<and>
      filter (about ''b-web'') reqs = [UpdatePolicy p] \<and> admits p (ex_labels ''a''))"
proof -
  have no: "\<not> admits ex_existing (ex_labels ''a'')"
    by (simp add: ex_existing_def admits_policy_with ex_labels_def LabelPlugins_def
        LabelTenant_def LabelProject_def)
  have "answers ex_net_api ex_namespaces [ex_existing]" "distinct (map fst ex_namespaces)"
    "map_of ex_namespaces ''b-web'' = Some (ex_labels ''b'')" "get_tnp ex_net_api ''a'' = Found ex_tnp"
    "\<not> tp_deleting ex_tnp" "pod_cidrs ex_net_api = Inr []"
    "\<forall>np \<in> set [ex_existing]. np_version np \<noteq> []"
    "\<forall>a b. np_version a \<noteq> [] \<longrightarrow> np_version b = [] \<longrightarrow> \<not> ex_deriv a b"
    by (simp_all add: answers_def ex_net_api_def ex_namespaces_def ex_tnp_def ex_deriv_def)
  from Reconcile_isolates [OF this]
  obtain reqs p where "Reconcile_netpol ex_deriv ex_net_api ''a'' = Some reqs"
    "filter (about ''b-web'') reqs = [UpdatePolicy p]"
    "\<forall>ls'. admits p ls' \<longleftrightarrow> map_of ls' LabelPlugins \<noteq> None \<or>
       map_of ls' LabelProject = map_of (ex_labels ''b'') LabelProject"
    by (auto simp: Let_def ex_levels ex_origin_key)
  moreover have "map_of (ex_labels ''a'') LabelProject = map_of (ex_labels ''b'') LabelProject"
    by (simp add: ex_labels_def)
  ultimately show ?thesis using no by blast
qed

text \<open>Removing a selector undoes adding it.\<close>

lemma last_index_absent:
  "list_ex (\<lambda>(j, _). j = k) es = False \<Longrightarrow> last_index k i d es = d"
  by (induction es arbitrary: i) auto

lemma last_index_snoc:
  "last_index k i d (es @ [(k, r)]) = int (i + length es)"
  by (induction k i d es rule: last_index.induct) auto

lemma Del_Add:
  assumes "\<not> list_ex (\<lambda>(j, _). j = k) es"
  shows "Option.bind (AddNamespaceSelector (policy_with n nm cidrs es) k v) (\<lambda>np. DelNamespaceSelector np k)
    = Some (policy_with n nm cidrs es)"
proof -
  have "DelNamespaceSelector (policy_with n nm cidrs (es @ [(k, OpIn [v])])) k = Some (policy_with n nm cidrs es)"
    by (simp add: DelNamespaceSelector_def validNetworkPolicy_def MatchExpressions_def
        last_index_snoc set_MatchExpressions_def DefaultNetworkPolicy_def)
  then show ?thesis using assms by (simp add: Add_policy_with)
qed

end
