(* ===== verification/Api_Store.thy ===== *)
theory Api_Store
  imports Tenant_Quota
begin

text \<open>
  The objects of a cluster by their keys, and the requests the controllers make: a request fails when
  its object is missing or already there, and may fail for any other reason, its first argument.
\<close>

datatype verb = VGet | VList | VCreate | VUpdate | VDelete

definition api_get :: "bool \<Rightarrow> 'k \<Rightarrow> ('k, 'o) gomap \<Rightarrow> 'o got" where
  "api_get fails key store =
     (if fails then Failed ''unavailable''
      else case map_of store key of None \<Rightarrow> NotFound | Some obj \<Rightarrow> Found obj)"

text \<open>The new store, and whether the request succeeded.\<close>

definition api_create :: "bool \<Rightarrow> 'k \<Rightarrow> 'o \<Rightarrow> ('k, 'o) gomap \<Rightarrow> ('k, 'o) gomap \<times> bool" where
  "api_create fails key obj store =
     (if fails \<or> map_of store key \<noteq> None then (store, False)
      else (AList.update key obj store, True))"

definition api_update :: "bool \<Rightarrow> 'k \<Rightarrow> 'o \<Rightarrow> ('k, 'o) gomap \<Rightarrow> ('k, 'o) gomap \<times> bool" where
  "api_update fails key obj store =
     (if fails \<or> map_of store key = None then (store, False)
      else (AList.update key obj store, True))"

datatype delete_result = Deleted | Missing | DeleteFailed

definition api_delete :: "bool \<Rightarrow> 'k \<Rightarrow> ('k, 'o) gomap \<Rightarrow> ('k, 'o) gomap \<times> delete_result" where
  "api_delete fails key store =
     (if fails then (store, DeleteFailed)
      else if map_of store key = None then (store, Missing)
      else (AList.delete key store, Deleted))"

text \<open>\<open>controllerutil.CreateOrUpdate\<close>: get, change, and create or write what changed.\<close>

definition create_or_update ::
  "(verb \<Rightarrow> bool) \<Rightarrow> 'k \<Rightarrow> ('o option \<Rightarrow> 'o) \<Rightarrow> ('k, 'o) gomap \<Rightarrow> ('k, 'o) gomap" where
  "create_or_update fl key mutate store =
     (case api_get (fl VGet) key store of
        Failed e \<Rightarrow> store
      | NotFound \<Rightarrow> fst (api_create (fl VCreate) key (mutate None) store)
      | Found obj \<Rightarrow>
          (if mutate (Some obj) = obj then store
           else fst (api_update (fl VUpdate) key (mutate (Some obj)) store)))"

lemma api_update_at:
  "map_of (fst (api_update fails key obj store)) n =
    (if n = key \<and> \<not> fails \<and> map_of store key \<noteq> None then Some obj else map_of store n)"
  by (auto simp: api_update_def)

lemma api_create_at:
  "map_of (fst (api_create fails key obj store)) n =
    (if n = key \<and> \<not> fails \<and> map_of store key = None then Some obj else map_of store n)"
  by (auto simp: api_create_def)

lemma api_delete_at:
  "map_of (fst (api_delete fails key store)) n = (if n = key \<and> \<not> fails then None else map_of store n)"
  by (auto simp: api_delete_def)

lemma wf_api [simp]:
  "wf_map store \<Longrightarrow> wf_map (fst (api_update fails key obj store))"
  "wf_map store \<Longrightarrow> wf_map (fst (api_create fails key obj store))"
  "wf_map store \<Longrightarrow> wf_map (fst (api_delete fails key store))"
  by (simp_all add: api_update_def api_create_def api_delete_def)

lemma create_or_update_at:
  "map_of (create_or_update (\<lambda>_. False) key mutate st) key = Some (mutate (map_of st key))"
  by (cases "map_of st key") (auto simp: create_or_update_def api_get_def api_create_def api_update_def
      simp del: map_of_eq_Some_iff)

lemma create_or_update_other:
  "n \<noteq> key \<Longrightarrow> map_of (create_or_update fl key mutate st) n = map_of st n"
  by (simp add: create_or_update_def api_create_at api_update_at split: got.split)

section \<open>Operations that settle\<close>

text \<open>
  What a controller promises of each thing it looks after: one run makes it good, and a run over what is
  good already changes nothing. Then a second run never does anything, and the good states are exactly
  the fixed ones.
\<close>

locale convergent =
  fixes run :: "'s \<Rightarrow> 's" and ok :: "'s \<Rightarrow> bool" and good :: "'s \<Rightarrow> bool"
  assumes run_ok: "ok s \<Longrightarrow> ok (run s)"
    and run_good: "ok s \<Longrightarrow> good (run s)"
    and good_fixed: "ok s \<Longrightarrow> good s \<Longrightarrow> run s = s"
begin

lemma run_run: "ok s \<Longrightarrow> run (run s) = run s"
  by (rule good_fixed [OF run_ok run_good])

lemma fixed_iff: "ok s \<Longrightarrow> run s = s \<longleftrightarrow> good s"
  using run_good [of s] good_fixed [of s] by auto

lemma iterate: "ok s \<Longrightarrow> (run ^^ Suc n) s = run s"
  by (induction n) (simp_all add: run_run)

end

definition stable :: "('o option \<Rightarrow> 'o) \<Rightarrow> bool" where
  "stable mutate \<longleftrightarrow> (\<forall>x. mutate (Some (mutate x)) = mutate x)"

interpretation cou: convergent "create_or_update (\<lambda>_. False) key mutate" "\<lambda>_. stable mutate"
  "\<lambda>st. \<exists>obj. map_of st key = Some obj \<and> mutate (Some obj) = obj"
  for key :: 'k and mutate :: "'o option \<Rightarrow> 'o"
proof unfold_locales
  fix st :: "('k, 'o) gomap"
  assume "stable mutate"
  then show "\<exists>obj. map_of (create_or_update (\<lambda>_. False) key mutate st) key = Some obj \<and> mutate (Some obj) = obj"
    by (simp add: create_or_update_at stable_def)
next
  fix st :: "('k, 'o) gomap"
  assume "\<exists>obj. map_of st key = Some obj \<and> mutate (Some obj) = obj"
  then show "create_or_update (\<lambda>_. False) key mutate st = st"
    by (auto simp: create_or_update_def api_get_def simp del: map_of_eq_Some_iff)
qed

end
