(* ===== verification/Environment_Sync.thy ===== *)
theory Environment_Sync
  imports Net_Policy Api_Store "HOL-Library.List_Lexorder" "HOL-Library.Char_ord"
begin

text \<open>
  The controller of environments (\<open>pkg/controller/controllers/environment_controller.go\<close>): it gives an
  environment its namespace, resource quota and limit range, keeps the labels of the namespaces, and
  takes the labels away when the environment goes.

  The cluster is the objects the controller reads and writes, by name. A read or a write fails when the
  object is missing or already there, and may fail for any other reason, the parameter \<open>fl\<close>, a
  predicate of the verb, the kind and the name. \<open>controllerutil.SetControllerReference\<close> is the parameter
  \<open>setref\<close>; its error leaves the references alone.
\<close>

section \<open>Objects\<close>

type_synonym owners = "(owner_ref \<times> bool) list"

record ns_object =
  no_labels :: labels
  no_owners :: owners

record limit_range =
  lr_labels :: labels
  lr_limits :: "limit_item list"

record env_object =
  eo_spec :: environment
  eo_policy :: string
  eo_deleting :: bool
  eo_finalizers :: "string list"
  eo_labels :: labels
  eo_annotations :: labels

record env_cluster =
  ec_envs :: "(string, env_object) gomap"
  ec_namespaces :: "(string, ns_object) gomap"
  ec_quotas :: "(string \<times> string, resource_quota) gomap"
  ec_limits :: "(string \<times> string, limit_range) gomap"
  ec_accounts :: "(string \<times> string, string list) gomap"

type_synonym faults = "verb \<Rightarrow> string \<Rightarrow> string \<Rightarrow> bool"

section \<open>The namespace\<close>

definition has_controller :: "owners \<Rightarrow> bool" where
  "has_controller os = list_ex snd os"

definition set_owner :: "(owners \<Rightarrow> owners option) \<Rightarrow> ns_object \<Rightarrow> ns_object" where
  "set_owner setref ns = (case setref (no_owners ns) of None \<Rightarrow> ns | Some os \<Rightarrow> ns\<lparr>no_owners := os\<rparr>)"

definition matching_labels :: "labels \<Rightarrow> labels \<Rightarrow> bool" where
  "matching_labels sel ls = list_all (\<lambda>(k, v). map_of ls k = Some v) sel"

definition release ::
  "faults \<Rightarrow> labels \<Rightarrow> string \<Rightarrow> (string, ns_object) gomap \<Rightarrow> string \<times> ns_object \<Rightarrow> (string, ns_object) gomap" where
  "release fl nlabels name store item =
     (if fst item = name then store
      else fst (api_update (fl VUpdate ''Namespace'' (fst item)) (fst item)
             \<lparr>no_labels = DeleteLabels (no_labels (snd item)) nlabels, no_owners = []\<rparr> store))"

definition adopt ::
  "faults \<Rightarrow> (owners \<Rightarrow> owners option) \<Rightarrow> labels \<Rightarrow> string \<Rightarrow> ns_object
    \<Rightarrow> (string, ns_object) gomap \<Rightarrow> (string, ns_object) gomap" where
  "adopt fl setref nlabels name ns store =
     (let originNsList = (if fl VList ''Namespace'' [] then []
            else filter (\<lambda>(n, obj). matching_labels nlabels (no_labels obj)) store);
          store = foldl (release fl nlabels name) store originNsList;
          (ns, changed) = (if \<not> has_controller (no_owners ns) then (set_owner setref ns, True) else (ns, False));
          (ns, changed) = (if LabelChanged (no_labels ns) nlabels
             then (ns\<lparr>no_labels := labels_Merge (no_labels ns) nlabels\<rparr>, True) else (ns, changed))
      in if changed then fst (api_update (fl VUpdate ''Namespace'' name) name ns store) else store)"

definition handleNamespace ::
  "faults \<Rightarrow> (owners \<Rightarrow> owners option) \<Rightarrow> environment \<Rightarrow> labels
    \<Rightarrow> (string, ns_object) gomap \<Rightarrow> (string, ns_object) gomap" where
  "handleNamespace fl setref env nlabels store =
     (let name = env_namespace env in
      case api_get (fl VGet ''Namespace'' name) name store of
        Failed e \<Rightarrow> store
      | Found ns \<Rightarrow> adopt fl setref nlabels name ns store
      | NotFound \<Rightarrow>
          (case setref [] of
             None \<Rightarrow> store
           | Some os \<Rightarrow>
               let ns = \<lparr>no_labels = labels_Merge [] nlabels, no_owners = os\<rparr>;
                   (store, ok) = api_create (fl VCreate ''Namespace'' name) name ns store
               in if \<not> ok then store else adopt fl setref nlabels name ns store))"

section \<open>Quota, limits and service accounts\<close>

definition mutate_limits :: "environment \<Rightarrow> labels \<Rightarrow> limit_range option \<Rightarrow> limit_range" where
  "mutate_limits env nlabels found =
     (let lr = (case found of None \<Rightarrow> \<lparr>lr_labels = [], lr_limits = []\<rparr> | Some lr \<Rightarrow> lr)
      in lr\<lparr>lr_labels := labels_Merge (lr_labels lr) nlabels, lr_limits := limits_of env\<rparr>)"

definition handleLimitRange ::
  "faults \<Rightarrow> environment \<Rightarrow> labels \<Rightarrow> (string \<times> string, limit_range) gomap \<Rightarrow> (string \<times> string, limit_range) gomap" where
  "handleLimitRange fl env nlabels =
     create_or_update (\<lambda>v. fl v ''LimitRange'' (env_limits_name env)) (env_namespace env, env_limits_name env)
       (mutate_limits env nlabels)"

definition StringArrayEqual :: "string list \<Rightarrow> string list \<Rightarrow> bool" where
  "StringArrayEqual s1 s2 \<longleftrightarrow> sort s1 = sort s2"

definition imagePullSecretHasDiff :: "string list \<Rightarrow> string \<Rightarrow> string list \<times> bool" where
  "imagePullSecretHasDiff oldSec str =
     (let newSec = map trim_space (split_on (CHR '','') str)
      in if \<not> StringArrayEqual oldSec newSec then (newSec, True) else ([], False))"

definition AnnotationImagePullSecretKeyPrefix :: string where
  "AnnotationImagePullSecretKeyPrefix = ''application.kubegems.io/imagePullSecrets-''"

definition account_step ::
  "faults \<Rightarrow> string \<Rightarrow> (string \<rightharpoonup> string list) \<Rightarrow> (string \<times> string, string list) gomap
    \<Rightarrow> string \<times> string \<Rightarrow> (string \<times> string, string list) gomap" where
  "account_step fl namespace saMap store ann =
     (if \<not> has_prefix (fst ann) AnnotationImagePullSecretKeyPrefix then store
      else let name = trim_prefix (fst ann) AnnotationImagePullSecretKeyPrefix in
           case saMap name of
             None \<Rightarrow> store
           | Some sa \<Rightarrow>
               let (secrets, hasDiff) = imagePullSecretHasDiff sa (snd ann)
               in if hasDiff
                  then fst (api_update (fl VUpdate ''ServiceAccount'' name) (namespace, name) secrets store)
                  else store)"

definition handleServiceAccount ::
  "faults \<Rightarrow> environment \<Rightarrow> labels \<Rightarrow> (string \<times> string, string list) gomap
    \<Rightarrow> (string \<times> string, string list) gomap" where
  "handleServiceAccount fl env annotations store =
     (let saMap = (\<lambda>name. if fl VList ''ServiceAccount'' (env_namespace env) then None
                          else map_of store (env_namespace env, name))
      in foldl (account_step fl (env_namespace env) saMap) store annotations)"

section \<open>Deletion and reconciliation\<close>

definition DeletePolicyDelLabels :: string where "DeletePolicyDelLabels = ''delLabels''"
definition FinalizerNamespace :: string where "FinalizerNamespace = ''finalizer.gems.kubegems.io/namespace''"

definition zero_ns :: ns_object where "zero_ns = \<lparr>no_labels = [], no_owners = []\<rparr>"

text \<open>
  The store and whether the handler failed. A namespace that is not there is the zero object, whose
  name is empty.
\<close>

definition handleDelete ::
  "faults \<Rightarrow> env_object \<Rightarrow> labels \<Rightarrow> (string, ns_object) gomap \<Rightarrow> (string, ns_object) gomap \<times> bool" where
  "handleDelete fl env todelLabels store =
     (let name = env_namespace (eo_spec env) in
      case api_get (fl VGet ''Namespace'' name) name store of
        Failed e \<Rightarrow> (store, False)
      | got \<Rightarrow>
          let (key, ns) = (case got of Found ns \<Rightarrow> (name, ns) | _ \<Rightarrow> ([], zero_ns)) in
          if eo_policy env = DeletePolicyDelLabels
          then api_update (fl VUpdate ''Namespace'' key) key
                 \<lparr>no_labels = DeleteLabels (no_labels ns) todelLabels, no_owners = []\<rparr> store
          else (store, True))"

datatype reconcile_result = Done | Requeue

definition put_env :: "faults \<Rightarrow> string \<Rightarrow> env_object \<Rightarrow> env_cluster \<Rightarrow> env_cluster \<times> bool" where
  "put_env fl name env c =
     (let (envs, ok) = api_update (fl VUpdate ''Environment'' name) name env (ec_envs c)
      in (c\<lparr>ec_envs := envs\<rparr>, ok))"

definition delete_environment :: "faults \<Rightarrow> string \<Rightarrow> env_object \<Rightarrow> labels \<Rightarrow> env_cluster \<Rightarrow> env_cluster \<times> reconcile_result" where
  "delete_environment fl name env nsLabel c =
     (if FinalizerNamespace \<in> set (eo_finalizers env)
      then let (nss, ok) = handleDelete fl env nsLabel (ec_namespaces c);
               c = c\<lparr>ec_namespaces := nss\<rparr>
           in if \<not> ok then (c, Requeue)
              else let (c, ok) = put_env fl name
                         (env\<lparr>eo_finalizers := removeAll FinalizerNamespace (eo_finalizers env)\<rparr>) c
                   in if \<not> ok then (c, Requeue) else (c, Done)
      else (c, Done))"

definition sync_environment ::
  "faults \<Rightarrow> (owners \<Rightarrow> owners option) \<Rightarrow> string \<Rightarrow> env_object \<Rightarrow> labels \<Rightarrow> env_cluster \<Rightarrow> env_cluster" where
  "sync_environment fl setref name env nsLabel c =
     (let spec = eo_spec env;
          c = c\<lparr>ec_namespaces := handleNamespace fl setref spec nsLabel (ec_namespaces c)\<rparr>;
          c = c\<lparr>ec_quotas := create_or_update (\<lambda>v. fl v ''ResourceQuota'' (env_quota_name spec))
                 (env_namespace spec, env_quota_name spec) (handleResourceQuota spec) (ec_quotas c)\<rparr>;
          c = c\<lparr>ec_limits := handleLimitRange fl spec nsLabel (ec_limits c)\<rparr>;
          c = c\<lparr>ec_accounts := handleServiceAccount fl spec (eo_annotations env) (ec_accounts c)\<rparr>;
          (env, changed) = (if LabelChanged (eo_labels env) nsLabel
             then (env\<lparr>eo_labels := labels_Merge (eo_labels env) nsLabel\<rparr>, True) else (env, False));
          (env, changed) = (if FinalizerNamespace \<notin> set (eo_finalizers env)
             then (env\<lparr>eo_finalizers := eo_finalizers env @ [FinalizerNamespace]\<rparr>, True) else (env, changed))
      in if changed then fst (put_env fl name env c) else c)"

definition Reconcile_environment ::
  "faults \<Rightarrow> (owners \<Rightarrow> owners option) \<Rightarrow> string \<Rightarrow> env_cluster \<Rightarrow> env_cluster \<times> reconcile_result" where
  "Reconcile_environment fl setref name c =
     (case api_get (fl VGet ''Environment'' name) name (ec_envs c) of
        Found env \<Rightarrow>
          (let nsLabel = env_labels (eo_spec env)
           in if eo_deleting env then delete_environment fl name env nsLabel c
              else (sync_environment fl setref name env nsLabel c, Done))
      | _ \<Rightarrow> (c, Done))"

section \<open>Labels\<close>

lemma wf_env_labels [simp]: "wf_map (env_labels e)"
  by (simp add: env_labels_def)

lemma env_labels_not_Nil [simp]: "env_labels e \<noteq> []"
  by (simp add: env_labels_def)

lemma matching_iff: "matching_labels sel ls \<longleftrightarrow> (\<forall>(k, v) \<in> set sel. map_of ls k = Some v)"
  by (simp add: matching_labels_def list_all_iff)

lemma Merge_matching: "matching_labels l m \<Longrightarrow> labels_Merge m l = m"
proof -
  assume "matching_labels l m"
  then have "foldl (\<lambda>m (k, v). AList.update k v m) m l = m"
  proof (induction l)
    case (Cons x l)
    obtain k v where x: "x = (k, v)" by (cases x)
    then have "AList.update k v m = m" using Cons.prems by (auto simp: matching_labels_def update_triv)
    with Cons x show ?case by (simp add: matching_labels_def)
  qed simp
  then show ?thesis by (simp add: labels_Merge_def)
qed

lemma matching_Merge: "wf_map l \<Longrightarrow> matching_labels l (labels_Merge m l)"
  unfolding matching_iff by (auto simp: labels_Merge_of)

lemma Merge_Merge: "wf_map l \<Longrightarrow> labels_Merge (labels_Merge m l) l = labels_Merge m l"
  by (rule Merge_matching [OF matching_Merge])

lemma matching_not_Nil: "matching_labels l m \<Longrightarrow> l \<noteq> [] \<Longrightarrow> m \<noteq> []"
  by (cases l) (auto simp: matching_labels_def)

lemma LabelChanged_matching: "l \<noteq> [] \<Longrightarrow> LabelChanged m l \<longleftrightarrow> \<not> matching_labels l m"
  using matching_not_Nil [of l m]
  by (cases "m = []") (auto simp: LabelChanged_def label_differs_iff matching_iff)

lemma Delete_of:
  "map_of (DeleteLabels m l) k = (if k \<in> fst ` set l then None else map_of m k)"
proof -
  have "map_of (foldl (\<lambda>m (k, v). AList.delete k m) m l) k = (if k \<in> fst ` set l then None else map_of m k)"
    by (induction l arbitrary: m) auto
  then show ?thesis by (auto simp: DeleteLabels_def)
qed

lemma Delete_not_matching: "l \<noteq> [] \<Longrightarrow> \<not> matching_labels l (DeleteLabels m l)"
  by (cases l) (auto simp: matching_labels_def Delete_of)

section \<open>The store\<close>

lemma release_at:
  "map_of (release fl l t st (m, obj)) n =
    (if n = m \<and> m \<noteq> t \<and> \<not> fl VUpdate ''Namespace'' m \<and> map_of st m \<noteq> None
     then Some \<lparr>no_labels = DeleteLabels (no_labels obj) l, no_owners = []\<rparr> else map_of st n)"
  by (auto simp: release_def api_update_at)

lemma releases_at:
  assumes "wf_map items"
  shows "map_of (foldl (release fl l t) st items) n =
    (case map_of items n of
       Some obj \<Rightarrow> if n \<noteq> t \<and> \<not> fl VUpdate ''Namespace'' n \<and> map_of st n \<noteq> None
         then Some \<lparr>no_labels = DeleteLabels (no_labels obj) l, no_owners = []\<rparr> else map_of st n
     | None \<Rightarrow> map_of st n)"
  using assms
proof (induction items arbitrary: st)
  case (Cons x items)
  obtain m obj where x: "x = (m, obj)" by (cases x)
  have "map_of items m = None" using Cons.prems x by (simp add: map_of_eq_None_iff)
  then show ?case using Cons x by (auto simp: release_at split: option.splits)
qed simp

lemma wf_releases: "wf_map st \<Longrightarrow> wf_map (foldl (release fl l t) st items)"
  by (induction items arbitrary: st) (auto simp: release_def)

definition adopted :: "(owners \<Rightarrow> owners option) \<Rightarrow> labels \<Rightarrow> ns_object \<Rightarrow> ns_object" where
  "adopted setref l ns =
     (let ns = (if \<not> has_controller (no_owners ns) then set_owner setref ns else ns)
      in ns\<lparr>no_labels := labels_Merge (no_labels ns) l\<rparr>)"

definition fully_labelled :: "(string, ns_object) gomap \<Rightarrow> labels \<Rightarrow> string \<Rightarrow> bool" where
  "fully_labelled st l n \<longleftrightarrow> (\<exists>obj. map_of st n = Some obj \<and> matching_labels l (no_labels obj))"

text \<open>What becomes of the namespaces other than the one of the environment, whatever fails.\<close>

lemma adopt_other:
  assumes "n \<noteq> t" and "wf_map st"
  shows "map_of (adopt fl setref l t ns st) n =
    (if \<not> fl VList ''Namespace'' [] \<and> \<not> fl VUpdate ''Namespace'' n \<and> fully_labelled st l n
     then map_option (\<lambda>obj. \<lparr>no_labels = DeleteLabels (no_labels obj) l, no_owners = []\<rparr>) (map_of st n)
     else map_of st n)"
proof -
  let ?items = "if fl VList ''Namespace'' [] then [] else filter (\<lambda>(n, obj). matching_labels l (no_labels obj)) st"
  have wf: "wf_map ?items" using assms(2) by (simp add: distinct_map_filter)
  have "map_of (adopt fl setref l t ns st) n = map_of (foldl (release fl l t) st ?items) n"
    using assms(1) by (simp add: adopt_def Let_def api_update_at split: prod.split)
  also have "\<dots> = (if \<not> fl VList ''Namespace'' [] \<and> \<not> fl VUpdate ''Namespace'' n \<and> fully_labelled st l n
     then map_option (\<lambda>obj. \<lparr>no_labels = DeleteLabels (no_labels obj) l, no_owners = []\<rparr>) (map_of st n)
     else map_of st n)"
    using assms
    by (cases "map_of st n")
       (simp_all add: releases_at [OF wf] map_of_filter_val fully_labelled_def del: map_of_eq_Some_iff)
  finally show ?thesis .
qed

lemma adopt_own:
  assumes "map_of st t = Some ns" and "wf_map st" and "\<And>k. \<not> fl VUpdate ''Namespace'' k"
    and "l \<noteq> []"
  shows "map_of (adopt fl setref l t ns st) t = Some (adopted setref l ns)"
proof -
  let ?items = "if fl VList ''Namespace'' [] then [] else filter (\<lambda>(n, obj). matching_labels l (no_labels obj)) st"
  let ?st = "foldl (release fl l t) st ?items"
  have wf: "wf_map ?items" using assms(2) by (simp add: distinct_map_filter)
  have t: "map_of ?st t = Some ns" using assms(1) by (simp add: releases_at [OF wf] split: option.splits)
  have unchanged: "adopted setref l ns = ns" if "has_controller (no_owners ns)" "\<not> LabelChanged (no_labels ns) l"
    using that assms(4) by (simp add: adopted_def LabelChanged_matching Merge_matching)
  have labels: "no_labels (set_owner setref ns) = no_labels ns"
    by (simp add: set_owner_def split: option.splits)
  have merge: "labels_Merge (no_labels ns) l = no_labels ns" if "\<not> LabelChanged (no_labels ns) l"
    using that assms(4) by (simp add: LabelChanged_matching Merge_matching)
  show ?thesis
    using t assms(3) unchanged
    by (auto simp: adopt_def Let_def api_update_at adopted_def labels merge simp del: map_of_eq_Some_iff)
qed

lemma wf_adopt: "wf_map st \<Longrightarrow> wf_map (adopt fl setref l t ns st)"
  by (auto simp: adopt_def Let_def wf_releases split: prod.split)

lemma wf_handleNamespace: "wf_map st \<Longrightarrow> wf_map (handleNamespace fl setref env l st)"
  by (auto simp: handleNamespace_def Let_def api_create_def wf_adopt split: got.split option.split prod.split)

text \<open>A namespace that is the environment's own and complete is left alone.\<close>

lemma adopt_settled:
  assumes "has_controller (no_owners ns)" and "matching_labels l (no_labels ns)" and "l \<noteq> []"
    and "\<And>n. fully_labelled st l n \<Longrightarrow> n = t" and "wf_map st"
  shows "adopt fl setref l t ns st = st"
proof -
  have only: "n = t" if "(n, obj) \<in> set (filter (\<lambda>(n, obj). matching_labels l (no_labels obj)) st)" for n obj
    using that assms(4) [of n] assms(5) by (auto simp: fully_labelled_def)
  have "foldl (release fl l t) st items = st" if "\<forall>(n, obj) \<in> set items. n = t" for items
    using that by (induction items) (auto simp: release_def)
  note same = this
  have "foldl (release fl l t) st (if fl VList ''Namespace'' [] then [] else
      filter (\<lambda>(n, obj). matching_labels l (no_labels obj)) st) = st"
    by (rule same) (use only in auto)
  then show ?thesis using assms(1-3) by (simp add: adopt_def LabelChanged_matching)
qed

abbreviation no_faults :: faults where
  "no_faults \<equiv> \<lambda>_ _ _. False"

definition takes_owner :: "(owners \<Rightarrow> owners option) \<Rightarrow> bool" where
  "takes_owner setref \<longleftrightarrow> (\<forall>os. \<not> has_controller os \<longrightarrow> (\<exists>os'. setref os = Some os' \<and> has_controller os'))"

text \<open>What the environment owns after one run without failures.\<close>

definition settled :: "environment \<Rightarrow> (string, ns_object) gomap \<Rightarrow> bool" where
  "settled env st \<longleftrightarrow>
     (\<exists>ns. map_of st (env_namespace env) = Some ns \<and> matching_labels (env_labels env) (no_labels ns) \<and>
           has_controller (no_owners ns)) \<and>
     (\<forall>n. fully_labelled st (env_labels env) n \<longrightarrow> n = env_namespace env)"

lemma settled_fixed:
  assumes "settled env st" and "wf_map st"
  shows "handleNamespace no_faults setref env (env_labels env) st = st"
proof -
  from assms(1) obtain ns where "map_of st (env_namespace env) = Some ns"
    "matching_labels (env_labels env) (no_labels ns)" "has_controller (no_owners ns)"
    unfolding settled_def by blast
  then show ?thesis
    using adopt_settled [of ns "env_labels env" st "env_namespace env"] assms
    by (simp add: handleNamespace_def api_get_def settled_def del: map_of_eq_Some_iff)
qed

lemma adopted_complete:
  assumes "takes_owner setref" and "wf_map l"
  shows "matching_labels l (no_labels (adopted setref l ns))" "has_controller (no_owners (adopted setref l ns))"
proof -
  show "matching_labels l (no_labels (adopted setref l ns))"
    using assms(2) by (simp add: adopted_def Let_def matching_Merge)
  show "has_controller (no_owners (adopted setref l ns))"
    using assms(1) by (auto simp: adopted_def Let_def set_owner_def takes_owner_def split: option.splits)
qed

lemma adopt_settles:
  assumes "takes_owner setref" and "map_of st (env_namespace env) = Some ns" and "wf_map st"
  shows "settled env (adopt no_faults setref (env_labels env) (env_namespace env) ns st)" (is "settled env ?st")
proof -
  have own: "map_of ?st (env_namespace env) = Some (adopted setref (env_labels env) ns)"
    by (rule adopt_own [OF assms(2,3)]) simp_all
  have "\<not> fully_labelled ?st (env_labels env) n" if "n \<noteq> env_namespace env" for n
    using adopt_other [OF that assms(3), of no_faults setref "env_labels env" ns]
    by (auto simp: fully_labelled_def Delete_not_matching split: if_splits)
  then show ?thesis
    using own adopted_complete [OF assms(1) wf_env_labels] unfolding settled_def by blast
qed

lemma handleNamespace_settles:
  assumes "takes_owner setref" and "wf_map st"
  shows "settled env (handleNamespace no_faults setref env (env_labels env) st)"
proof (cases "map_of st (env_namespace env)")
  case (Some ns)
  then show ?thesis
    using adopt_settles [OF assms(1) Some assms(2)] by (simp add: handleNamespace_def api_get_def del: map_of_eq_Some_iff)
next
  case None
  have "\<not> has_controller []" by (simp add: has_controller_def)
  then obtain os where os: "setref [] = Some os" using assms(1) unfolding takes_owner_def by blast
  let ?ns = "\<lparr>no_labels = labels_Merge [] (env_labels env), no_owners = os\<rparr>"
  let ?st = "AList.update (env_namespace env) ?ns st"
  have "settled env (adopt no_faults setref (env_labels env) (env_namespace env) ?ns ?st)"
    using assms by (intro adopt_settles) simp_all
  then show ?thesis using None os by (simp add: handleNamespace_def api_get_def api_create_def Let_def)
qed

interpretation namespace_sync: convergent "handleNamespace no_faults setref env (env_labels env)"
  "\<lambda>st. takes_owner setref \<and> wf_map st" "settled env"
  for setref env
  by unfold_locales (auto simp: wf_handleNamespace handleNamespace_settles settled_fixed)

section \<open>Quota, limits, accounts: one run is enough\<close>

lemma quota_stable: "stable (handleResourceQuota env)"
  by (simp add: stable_def handleResourceQuota_def Let_def Merge_Merge)

lemma limits_stable: "stable (mutate_limits env (env_labels e))"
  by (simp add: stable_def mutate_limits_def Let_def Merge_Merge)

lemma handleLimitRange_idem:
  "handleLimitRange no_faults env (env_labels env) (handleLimitRange no_faults env (env_labels env) st)
    = handleLimitRange no_faults env (env_labels env) st"
  unfolding handleLimitRange_def by (rule cou.run_run [OF limits_stable])

abbreviation secrets_for :: "labels \<Rightarrow> string \<Rightarrow> string option" where
  "secrets_for anns name \<equiv> map_of anns (AnnotationImagePullSecretKeyPrefix @ name)"

lemma prefix_key:
  "has_prefix k p \<Longrightarrow> p @ trim_prefix k p = k"
  by (auto simp: has_prefix_iff)

lemma not_prefix_key: "\<not> has_prefix k p \<Longrightarrow> k \<noteq> p @ name"
  by (auto simp: has_prefix_iff)

lemma account_step_at:
  assumes "m = namespace" and "fst ann = AnnotationImagePullSecretKeyPrefix @ name"
  shows "map_of (account_step no_faults namespace sa st ann) (m, name') =
    (if name' \<noteq> name then map_of st (m, name')
     else case sa name of
       None \<Rightarrow> map_of st (m, name)
     | Some s \<Rightarrow> if snd (imagePullSecretHasDiff s (snd ann)) \<and> map_of st (m, name) \<noteq> None
         then Some (fst (imagePullSecretHasDiff s (snd ann))) else map_of st (m, name))"
  using assms by (auto simp: account_step_def Let_def api_update_at split: option.splits prod.splits)

lemma account_step_other:
  assumes "m \<noteq> namespace \<or> fst ann \<noteq> AnnotationImagePullSecretKeyPrefix @ name"
  shows "map_of (account_step no_faults namespace sa st ann) (m, name) = map_of st (m, name)"
  using assms by (auto simp: account_step_def Let_def api_update_at prefix_key split: option.splits prod.splits)

lemma accounts_at:
  assumes "wf_map anns"
  shows "map_of (foldl (account_step no_faults namespace sa) st anns) (namespace, name) =
    (case secrets_for anns name of
       None \<Rightarrow> map_of st (namespace, name)
     | Some v \<Rightarrow> (case sa name of
         None \<Rightarrow> map_of st (namespace, name)
       | Some s \<Rightarrow> if snd (imagePullSecretHasDiff s v) \<and> map_of st (namespace, name) \<noteq> None
           then Some (fst (imagePullSecretHasDiff s v)) else map_of st (namespace, name)))"
  using assms
proof (induction anns arbitrary: st)
  case (Cons x anns)
  obtain k v where x: "x = (k, v)" by (cases x)
  have wf: "wf_map anns" and k: "map_of anns k = None"
    using Cons.prems x by (auto simp: map_of_eq_None_iff)
  show ?case
  proof (cases "k = AnnotationImagePullSecretKeyPrefix @ name")
    case True
    then show ?thesis using Cons.IH [OF wf] k x
      by (auto simp: account_step_at [where name = name] simp del: map_of_eq_Some_iff split: option.split)
  next
    case False
    then have "map_of (account_step no_faults namespace sa st (k, v)) (namespace, name) = map_of st (namespace, name)"
      by (intro account_step_other) simp
    then show ?thesis using Cons.IH [OF wf] False x
      by (auto simp del: map_of_eq_Some_iff split: option.split)
  qed
qed simp

lemma HasDiff_again: "\<not> snd (imagePullSecretHasDiff (fst (imagePullSecretHasDiff s v)) v)" if "snd (imagePullSecretHasDiff s v)"
  using that by (simp add: imagePullSecretHasDiff_def StringArrayEqual_def Let_def split: if_splits)

lemma handleServiceAccount_idem:
  assumes "wf_map anns"
  shows "handleServiceAccount no_faults env anns (handleServiceAccount no_faults env anns st)
    = handleServiceAccount no_faults env anns st"
proof -
  let ?ns = "env_namespace env"
  let ?st = "handleServiceAccount no_faults env anns st"
  have st: "?st = foldl (account_step no_faults ?ns (\<lambda>name. map_of st (?ns, name))) st anns"
    by (simp add: handleServiceAccount_def)
  have settled: "\<not> snd (imagePullSecretHasDiff s v)"
    if "secrets_for anns name = Some v" and "map_of ?st (?ns, name) = Some s" for name v s
    using that HasDiff_again unfolding st accounts_at [OF assms]
    by (auto split: option.splits if_splits simp del: map_of_eq_Some_iff)
  have "account_step no_faults ?ns (\<lambda>name. map_of ?st (?ns, name)) ?st ann = ?st" if "ann \<in> set anns" for ann
  proof -
    obtain k v where ann: "ann = (k, v)" by (cases ann)
    have "secrets_for anns (trim_prefix k AnnotationImagePullSecretKeyPrefix) = Some v"
      if "has_prefix k AnnotationImagePullSecretKeyPrefix"
      using prefix_key [OF that] \<open>ann \<in> set anns\<close> assms ann by simp
    then show ?thesis
      using settled [of "trim_prefix k AnnotationImagePullSecretKeyPrefix" v] ann
      by (simp add: account_step_def Let_def case_prod_unfold split: option.split)
  qed
  note same = this
  have "foldl (account_step no_faults ?ns (\<lambda>name. map_of ?st (?ns, name))) ?st as = ?st" if "set as \<subseteq> set anns" for as
    using that by (induction as) (simp_all add: same)
  then have "foldl (account_step no_faults ?ns (\<lambda>name. map_of ?st (?ns, name))) ?st anns = ?st" by blast
  then show ?thesis by (subst handleServiceAccount_def) simp
qed

section \<open>Properties\<close>

lemma sync_fields:
  fixes setref name env
  defines "r \<equiv> sync_environment no_faults setref name env (env_labels (eo_spec env))"
  shows "ec_namespaces (r c) = handleNamespace no_faults setref (eo_spec env) (env_labels (eo_spec env)) (ec_namespaces c)"
    and "ec_quotas (r c) = create_or_update (\<lambda>_. False)
           (env_namespace (eo_spec env), env_quota_name (eo_spec env)) (handleResourceQuota (eo_spec env)) (ec_quotas c)"
    and "ec_limits (r c) = handleLimitRange no_faults (eo_spec env) (env_labels (eo_spec env)) (ec_limits c)"
    and "ec_accounts (r c) = handleServiceAccount no_faults (eo_spec env) (eo_annotations env) (ec_accounts c)"
  by (simp_all add: r_def sync_environment_def Let_def put_env_def split: prod.split)

definition complete :: "env_object \<Rightarrow> bool" where
  "complete env \<longleftrightarrow> matching_labels (env_labels (eo_spec env)) (eo_labels env) \<and> FinalizerNamespace \<in> set (eo_finalizers env)"

definition completed :: "env_object \<Rightarrow> env_object" where
  "completed env = env\<lparr>eo_labels := labels_Merge (eo_labels env) (env_labels (eo_spec env)),
     eo_finalizers := (if FinalizerNamespace \<in> set (eo_finalizers env) then eo_finalizers env
                       else eo_finalizers env @ [FinalizerNamespace])\<rparr>"

lemma complete_completed: "complete (completed env)"
  by (simp add: complete_def completed_def matching_Merge)

lemma completed_fields [simp]:
  "eo_spec (completed env) = eo_spec env" "eo_annotations (completed env) = eo_annotations env"
  "eo_deleting (completed env) = eo_deleting env"
  by (simp_all add: completed_def)

lemma sync_envs:
  assumes "map_of (ec_envs c) name = Some env"
  shows "ec_envs (sync_environment no_faults setref name env (env_labels (eo_spec env)) c) =
    AList.update name (completed env) (ec_envs c)"
proof -
  have same: "completed env = env" if "complete env"
    using that by (simp add: completed_def complete_def Merge_matching)
  show ?thesis
  proof (cases "complete env")
    case True
    have "AList.update name env (ec_envs c) = ec_envs c" using assms by (rule update_triv)
    then show ?thesis using True same [OF True]
      by (simp add: sync_environment_def complete_def LabelChanged_matching Let_def)
  next
    case False
    then show ?thesis using assms
      by (auto simp: sync_environment_def complete_def completed_def LabelChanged_matching put_env_def api_update_def
          Merge_matching Let_def simp del: map_of_eq_Some_iff)
  qed
qed

lemma sync_idem:
  assumes "takes_owner setref" and "wf_map (ec_namespaces c)" and "wf_map (eo_annotations env)"
    and "map_of (ec_envs c) name = Some env" and "env' = completed env"
    and "c' = sync_environment no_faults setref name env (env_labels (eo_spec env)) c"
  shows "sync_environment no_faults setref name env' (env_labels (eo_spec env')) c' = c'"
proof -
  have fields: "ec_namespaces c' = handleNamespace no_faults setref (eo_spec env) (env_labels (eo_spec env)) (ec_namespaces c)"
    "ec_quotas c' = create_or_update (\<lambda>_. False)
       (env_namespace (eo_spec env), env_quota_name (eo_spec env)) (handleResourceQuota (eo_spec env)) (ec_quotas c)"
    "ec_limits c' = handleLimitRange no_faults (eo_spec env) (env_labels (eo_spec env)) (ec_limits c)"
    "ec_accounts c' = handleServiceAccount no_faults (eo_spec env) (eo_annotations env) (ec_accounts c)"
    unfolding assms(6) by (fact sync_fields)+
  have spec: "eo_spec env' = eo_spec env" "eo_annotations env' = eo_annotations env" by (simp_all add: assms(5))
  have envs: "ec_envs c' = AList.update name env' (ec_envs c)"
    unfolding assms(5,6) by (rule sync_envs [OF assms(4)])
  then have "map_of (ec_envs c') name = Some env'" by simp
  from sync_envs [OF this] have e: "ec_envs (sync_environment no_faults setref name env' (env_labels (eo_spec env')) c') = ec_envs c'"
    by (simp add: envs assms(5) completed_def Merge_Merge)
  have "ec_namespaces (sync_environment no_faults setref name env' (env_labels (eo_spec env')) c') = ec_namespaces c'"
    unfolding sync_fields unfolding fields spec
    by (rule namespace_sync.run_run) (simp add: assms(1,2))
  moreover have "ec_quotas (sync_environment no_faults setref name env' (env_labels (eo_spec env')) c') = ec_quotas c'"
    unfolding sync_fields unfolding fields spec by (rule cou.run_run [OF quota_stable])
  moreover have "ec_limits (sync_environment no_faults setref name env' (env_labels (eo_spec env')) c') = ec_limits c'"
    unfolding sync_fields unfolding fields spec by (rule handleLimitRange_idem)
  moreover have "ec_accounts (sync_environment no_faults setref name env' (env_labels (eo_spec env')) c') = ec_accounts c'"
    unfolding sync_fields unfolding fields spec by (rule handleServiceAccount_idem [OF assms(3)])
  ultimately show ?thesis using e by (intro env_cluster.equality) simp_all
qed

lemma handleNamespace_other:
  assumes "n \<noteq> env_namespace env" and "wf_map st"
  shows "map_of (handleNamespace fl setref env l st) n = map_of st n \<or>
    fully_labelled st l n \<and> map_of (handleNamespace fl setref env l st) n =
      map_option (\<lambda>obj. \<lparr>no_labels = DeleteLabels (no_labels obj) l, no_owners = []\<rparr>) (map_of st n)"
proof -
  have up: "map_of (AList.update (env_namespace env) x st) n = map_of st n"
    "fully_labelled (AList.update (env_namespace env) x st) l n = fully_labelled st l n" for x
    using assms(1) by (simp_all add: fully_labelled_def)
  have "wf_map (AList.update (env_namespace env) x st)" for x using assms(2) by simp
  note other = adopt_other [OF assms(1) this, of fl setref l] adopt_other [OF assms, of fl setref l]
  show ?thesis
    using assms(1)
    by (auto simp: handleNamespace_def Let_def api_create_def other up split: got.split option.split)
qed

text \<open>C14: Whatever requests fail, a run for an environment changes no namespace but its own and those that
  carry all three of its labels, and those only lose the three labels and their owners. A run in which
  nothing fails leaves the environment settled: its namespace exists, has an owner and carries the three
  labels, and no other namespace carries all of them; its quota is the one that can be enforced; it has
  its own labels and the finalizer. A second run then changes nothing at all.\<close>

theorem Reconcile_environment_settles:
  assumes "takes_owner setref" and "wf_map (ec_namespaces c)" and "wf_map (eo_annotations env)"
    and "map_of (ec_envs c) name = Some env" and "\<not> eo_deleting env" and "eo_spec env = spec"
  shows "(\<forall>fl n. n \<noteq> env_namespace spec \<longrightarrow>
            (let before = map_of (ec_namespaces c) n;
                 after = map_of (ec_namespaces (fst (Reconcile_environment fl setref name c))) n
             in after = before \<or> fully_labelled (ec_namespaces c) (env_labels spec) n \<and>
                after = map_option (\<lambda>obj. \<lparr>no_labels = DeleteLabels (no_labels obj) (env_labels spec), no_owners = []\<rparr>) before)) \<and>
         (let c' = fst (Reconcile_environment no_faults setref name c) in
            settled spec (ec_namespaces c') \<and>
            (\<exists>q. map_of (ec_quotas c') (env_namespace spec, env_quota_name spec) = Some q \<and>
                 rq_spec q = RemoveInvalidResourceName (env_quota spec) \<and> matching_labels (env_labels spec) (rq_labels q)) \<and>
            (\<exists>env'. map_of (ec_envs c') name = Some env' \<and> eo_spec env' = spec \<and> complete env') \<and>
            Reconcile_environment no_faults setref name c' = (c', Done))"
proof -
  have any: "Reconcile_environment fl setref name c =
      (if fl VGet ''Environment'' name then (c, Done)
       else (sync_environment fl setref name env (env_labels spec) c, Done))" for fl
    using assms(4-6) by (simp add: Reconcile_environment_def api_get_def Let_def del: map_of_eq_Some_iff)
  have nss: "ec_namespaces (sync_environment fl setref name env (env_labels spec) c)
      = handleNamespace fl setref spec (env_labels spec) (ec_namespaces c)" for fl
    using assms(6) by (simp add: sync_environment_def Let_def put_env_def split: prod.split)
  define c' where "c' = sync_environment no_faults setref name env (env_labels (eo_spec env)) c"
  have envs: "map_of (ec_envs c') name = Some (completed env)"
    unfolding c'_def sync_envs [OF assms(4)] by simp
  have again: "Reconcile_environment no_faults setref name c' = (c', Done)"
    using sync_idem [OF assms(1-4) refl c'_def] envs assms(5)
    by (simp add: Reconcile_environment_def api_get_def Let_def del: map_of_eq_Some_iff)
  have quota: "map_of (ec_quotas c') (env_namespace spec, env_quota_name spec)
      = Some (handleResourceQuota spec (map_of (ec_quotas c) (env_namespace spec, env_quota_name spec)))"
    unfolding c'_def sync_fields unfolding assms(6) by (rule create_or_update_at)
  have "rq_spec (handleResourceQuota spec x) = RemoveInvalidResourceName (env_quota spec)"
    "matching_labels (env_labels spec) (rq_labels (handleResourceQuota spec x))" for x
    by (simp_all add: handleResourceQuota_def Let_def matching_Merge)
  note q = this
  have settled: "settled spec (ec_namespaces c')"
    using handleNamespace_settles [OF assms(1,2)] unfolding c'_def sync_fields unfolding assms(6) .
  have run: "fst (Reconcile_environment no_faults setref name c) = c'"
    using any [of no_faults] assms(6) by (simp add: c'_def)
  have "\<exists>env'. map_of (ec_envs c') name = Some env' \<and> eo_spec env' = spec \<and> complete env'"
    using envs complete_completed assms(6) by (intro exI [of _ "completed env"]) simp
  moreover have "n \<noteq> env_namespace spec \<Longrightarrow>
    (let before = map_of (ec_namespaces c) n; after = map_of (ec_namespaces (fst (Reconcile_environment fl setref name c))) n
     in after = before \<or> fully_labelled (ec_namespaces c) (env_labels spec) n \<and>
        after = map_option (\<lambda>obj. \<lparr>no_labels = DeleteLabels (no_labels obj) (env_labels spec), no_owners = []\<rparr>) before)" for fl n
    using handleNamespace_other [OF _ assms(2), of n spec fl setref "env_labels spec"]
    by (simp add: any nss Let_def)
  ultimately show ?thesis
    using settled quota q again unfolding run Let_def by blast
qed

text \<open>
  An environment that moved from the namespace \<open>old\<close> to \<open>new\<close>, which does not exist yet, beside the
  namespace of another environment of the project.
\<close>

definition ex_spec :: environment where
  "ex_spec = zero_environment\<lparr>env_name := ''dev'', env_tenant := ''t'', env_project := ''p'', env_namespace := ''new'',
     env_quota_name := ''q''\<rparr>"

definition ex_object :: env_object where
  "ex_object = \<lparr>eo_spec = ex_spec, eo_policy = ''delLabels'', eo_deleting = False, eo_finalizers = [],
     eo_labels = [], eo_annotations = []\<rparr>"

definition ex_sibling :: labels where
  "ex_sibling = [(LabelTenant, ''t''), (LabelProject, ''p''), (LabelEnvironment, ''test'')]"

definition ex_cluster :: env_cluster where
  "ex_cluster = \<lparr>ec_envs = [(''dev'', ex_object)],
     ec_namespaces = [(''old'', \<lparr>no_labels = (''team'', ''x'') # env_labels ex_spec, no_owners = []\<rparr>),
                      (''sib'', \<lparr>no_labels = ex_sibling, no_owners = []\<rparr>)],
     ec_quotas = [], ec_limits = [], ec_accounts = []\<rparr>"

definition ex_setref :: "owners \<Rightarrow> owners option" where
  "ex_setref os = Some (os @ [((''v1beta1'', ''Environment'', ''dev''), True)])"

lemma ex_takes_owner: "takes_owner ex_setref"
  by (simp add: takes_owner_def ex_setref_def has_controller_def)

lemma ex_env: "map_of (ec_envs ex_cluster) ''dev'' = Some ex_object"
  by (simp add: ex_cluster_def)

theorem Reconcile_environment_settles_witness:
  "let c' = fst (Reconcile_environment no_faults ex_setref ''dev'' ex_cluster) in
   map_of (ec_namespaces c') ''sib'' = map_of (ec_namespaces ex_cluster) ''sib'' \<and>
   (\<exists>ns. map_of (ec_namespaces c') ''new'' = Some ns \<and> matching_labels (env_labels ex_spec) (no_labels ns)) \<and>
   \<not> fully_labelled (ec_namespaces c') (env_labels ex_spec) ''old'' \<and>
   Reconcile_environment no_faults ex_setref ''dev'' c' = (c', Done)"
proof -
  have spec: "env_namespace ex_spec = ''new''" by (simp add: ex_spec_def)
  have sib: "\<not> fully_labelled (ec_namespaces ex_cluster) (env_labels ex_spec) ''sib''"
    by (simp add: fully_labelled_def ex_cluster_def matching_labels_def ex_sibling_def env_labels_def ex_spec_def
        zero_environment_def)
  have "wf_map (ec_namespaces ex_cluster)" "wf_map (eo_annotations ex_object)" "\<not> eo_deleting ex_object"
    "eo_spec ex_object = ex_spec"
    by (simp_all add: ex_cluster_def ex_object_def)
  note run = Reconcile_environment_settles [OF ex_takes_owner this(1,2) ex_env this(3,4)]
  have "map_of (ec_namespaces (fst (Reconcile_environment no_faults ex_setref ''dev'' ex_cluster))) ''sib''
      = map_of (ec_namespaces ex_cluster) ''sib''"
    using conjunct1 [OF run, rule_format, of "''sib''" no_faults] sib by (simp add: spec Let_def)
  moreover have "''old'' \<noteq> env_namespace ex_spec" by (simp add: spec)
  ultimately show ?thesis
    using conjunct2 [OF run] unfolding settled_def Let_def by (metis (no_types) spec)
qed

section \<open>Deletion\<close>

lemma env_label_keys: "fst ` set (env_labels e) = set CommonLabels"
  by (auto simp: env_labels_def CommonLabels_def)

lemma removed_finalizer [simp]: "FinalizerNamespace \<notin> set (removeAll FinalizerNamespace xs)"
  by simp

lemma handleDelete_absent:
  assumes "eo_policy env = DeletePolicyDelLabels" and "map_of st (env_namespace (eo_spec env)) = None" and "map_of st [] = None"
  shows "handleDelete fl env l st = (st, False)"
  using assms by (simp add: handleDelete_def api_get_def api_update_def Let_def)

lemma handleDelete_ok:
  assumes "snd (handleDelete fl env l st)" and "map_of st [] = None"
  shows "fst (handleDelete fl env l st) =
    (if eo_policy env = DeletePolicyDelLabels
     then AList.update (env_namespace (eo_spec env))
            \<lparr>no_labels = DeleteLabels (no_labels (the (map_of st (env_namespace (eo_spec env))))) l, no_owners = []\<rparr> st
     else st)"
  using assms
  by (auto simp: handleDelete_def api_get_def api_update_def Let_def simp del: map_of_eq_Some_iff
      split: option.splits if_splits)

lemma handleDelete_fails: "\<not> snd (handleDelete fl env l st) \<Longrightarrow> fst (handleDelete fl env l st) = st"
  by (auto simp: handleDelete_def api_get_def api_update_def Let_def split: option.splits if_splits)

text \<open>A run for an environment that is being deleted takes the finalizer off only after what the
  deletion policy asks for is done: with the policy \<open>delLabels\<close> the namespace then has no owner and none
  of the three labels; no other namespace changes. When nothing fails and the namespace exists, one run
  does it. With that policy and a namespace that is already gone, every run ends in an error and changes
  nothing, whatever the API server answers: the environment keeps its finalizer for good.
\<close>

theorem Reconcile_deleted_environment:
  assumes "map_of (ec_envs c) name = Some env" and "eo_deleting env" and "FinalizerNamespace \<in> set (eo_finalizers env)"
    and "map_of (ec_namespaces c) [] = None" and "\<not> fl VGet ''Environment'' name"
  shows "let (c', r) = Reconcile_environment fl setref name c;
             target = env_namespace (eo_spec env);
             env' = the (map_of (ec_envs c') name) in
    (\<forall>n. n \<noteq> target \<longrightarrow> map_of (ec_namespaces c') n = map_of (ec_namespaces c) n) \<and>
    (FinalizerNamespace \<notin> set (eo_finalizers env') \<longleftrightarrow> r = Done) \<and>
    (r = Done \<and> eo_policy env = DeletePolicyDelLabels \<longrightarrow>
       (\<exists>ns. map_of (ec_namespaces c') target = Some ns \<and> no_owners ns = [] \<and>
          (\<forall>k \<in> set CommonLabels. map_of (no_labels ns) k = None))) \<and>
    ((\<forall>v k n. \<not> fl v k n) \<and> (eo_policy env = DeletePolicyDelLabels \<longrightarrow> map_of (ec_namespaces c) target \<noteq> None) \<longrightarrow> r = Done) \<and>
    (eo_policy env = DeletePolicyDelLabels \<and> map_of (ec_namespaces c) target = None \<longrightarrow> c' = c \<and> r = Requeue)"
proof -
  let ?l = "env_labels (eo_spec env)"
  let ?t = "env_namespace (eo_spec env)"
  let ?d = "handleDelete fl env ?l (ec_namespaces c)"
  let ?e = "env\<lparr>eo_finalizers := removeAll FinalizerNamespace (eo_finalizers env)\<rparr>"
  have run: "Reconcile_environment fl setref name c =
     (if \<not> snd ?d then (c, Requeue)
      else if fl VUpdate ''Environment'' name then (c\<lparr>ec_namespaces := fst ?d\<rparr>, Requeue)
      else (c\<lparr>ec_namespaces := fst ?d, ec_envs := AList.update name ?e (ec_envs c)\<rparr>, Done))"
    using assms handleDelete_fails [of fl env ?l "ec_namespaces c"]
    by (auto simp: Reconcile_environment_def api_get_def delete_environment_def put_env_def api_update_def Let_def
        case_prod_unfold simp del: map_of_eq_Some_iff)
  have clean: "snd ?d" if "\<forall>v k n. \<not> fl v k n" "eo_policy env = DeletePolicyDelLabels \<longrightarrow> map_of (ec_namespaces c) ?t \<noteq> None"
    using that by (auto simp: handleDelete_def api_get_def api_update_def Let_def simp del: map_of_eq_Some_iff
        split: option.splits)
  have gone: "?d = (ec_namespaces c, False)"
    if "eo_policy env = DeletePolicyDelLabels" "map_of (ec_namespaces c) ?t = None"
    using that assms(4) by (rule handleDelete_absent)
  show ?thesis
  proof (cases "snd ?d")
    case False
    then have "\<not> ((\<forall>v k n. \<not> fl v k n) \<and>
        (eo_policy env = DeletePolicyDelLabels \<longrightarrow> map_of (ec_namespaces c) ?t \<noteq> None))"
      using clean by blast
    then show ?thesis using False assms(1,3) by (simp add: run)
  next
    case True
    note d = handleDelete_ok [OF True assms(4)]
    have there: "map_of (ec_namespaces c) ?t \<noteq> None" if "eo_policy env = DeletePolicyDelLabels"
      using gone [OF that] True by (metis snd_conv)
    show ?thesis using True assms(1,3) there
      by (auto simp: run d Delete_of env_label_keys Let_def simp del: map_of_eq_Some_iff)
  qed
qed

text \<open>An environment of that policy whose namespace was deleted by hand.\<close>

definition ex_gone :: env_object where
  "ex_gone = ex_object\<lparr>eo_deleting := True, eo_finalizers := [FinalizerNamespace]\<rparr>"

definition ex_gone_cluster :: env_cluster where
  "ex_gone_cluster = ex_cluster\<lparr>ec_envs := [(''dev'', ex_gone)]\<rparr>"

theorem Reconcile_deleted_environment_witness:
  "Reconcile_environment no_faults ex_setref ''dev'' ex_gone_cluster = (ex_gone_cluster, Requeue)"
proof -
  have pre: "map_of (ec_envs ex_gone_cluster) ''dev'' = Some ex_gone" "eo_deleting ex_gone"
    "FinalizerNamespace \<in> set (eo_finalizers ex_gone)" "map_of (ec_namespaces ex_gone_cluster) [] = None"
    "\<not> no_faults VGet ''Environment'' ''dev''"
    by (simp_all add: ex_gone_cluster_def ex_gone_def ex_cluster_def)
  have "eo_policy ex_gone = DeletePolicyDelLabels"
    "map_of (ec_namespaces ex_gone_cluster) (env_namespace (eo_spec ex_gone)) = None"
    by (simp_all add: ex_gone_def ex_object_def DeletePolicyDelLabels_def ex_gone_cluster_def ex_cluster_def ex_spec_def)
  then show ?thesis
    using Reconcile_deleted_environment [OF pre, of ex_setref]
    by (auto simp: Let_def split: prod.splits simp del: map_of_eq_Some_iff)
qed

end
