(* ===== verification/Mesh_Sync.thy ===== *)
theory Mesh_Sync
  imports Environment_Sync "HOL-Library.Word"
begin

text \<open>
  The controllers of the mesh (\<open>pkg/controller/controllers\<close>): virtual spaces put a sidecar into every namespace, which
  says what other namespaces it may reach (\<open>virtualspace_controller.go\<close>), virtual domains give a service further names
  by a service entry and a virtual service (\<open>virtualservice_controller.go\<close>), and \<open>pluginstatus_controller.go\<close> notes
  whether istio is installed.

  The cluster is the objects they read and write, by namespace and name. The protocol of a port by its name is a
  function of istio and a parameter; so are the requests that fail. A Go map is nil when its
  object was read without it, and writing to it then panics, which is an outcome of its own.
\<close>

section \<open>Sets of strings\<close>

text \<open>\<open>pkg/utils/set\<close>: a map whose keys are handed out in order, here the keys as they were put in.\<close>

definition Set_Append :: "'a list \<Rightarrow> 'a list \<Rightarrow> 'a list" where
  "Set_Append s vals = foldl (\<lambda>s val. if val \<in> set s then s else s @ [val]) s vals"

definition Set_Slice :: "('a :: linorder) list \<Rightarrow> 'a list" where
  "Set_Slice s = sort_slice (<) s"

lemma set_Append [simp]: "set (Set_Append s vals) = set s \<union> set vals"
  by (induction vals arbitrary: s) (auto simp: Set_Append_def)

lemma distinct_Append [simp]: "distinct s \<Longrightarrow> distinct (Set_Append s vals)"
  by (induction vals arbitrary: s) (auto simp: Set_Append_def)

lemma set_Slice [simp]: "set (Set_Slice s) = set s"
  by (simp add: Set_Slice_def gs.set_srt)

lemma Slice_Nil [simp]: "Set_Slice s = [] \<longleftrightarrow> s = []"
  by (metis set_Slice set_empty)

lemma strict_weak_less: "strict_weak ((<) :: 'a :: linorder \<Rightarrow> 'a \<Rightarrow> bool)"
  using strict_weak_score [of "\<lambda>x. x"] by simp

lemma Slice_sorted: "sorted (Set_Slice s)"
  using gs.srt_sorted [OF strict_weak_less, of s] by (simp add: Set_Slice_def not_less)

lemma Slice_distinct: "distinct s \<Longrightarrow> distinct (Set_Slice s)"
  by (simp add: Set_Slice_def gs.distinct_srt)

text \<open>Only what is in the set matters for what is handed out.\<close>

lemma Slice_canonical: "distinct s \<Longrightarrow> Set_Slice s = sorted_list_of_set (set s)"
  using Slice_sorted [of s] Slice_distinct [of s] set_Slice [of s]
  by (metis List.finite_set sorted_list_of_set.idem_if_sorted_distinct)

section \<open>The objects\<close>

definition AnnotationVirtualDomain :: string where "AnnotationVirtualDomain = ''networking.kubegems.io/virtualdomain''"
definition AnnotationVirtualSpace :: string where "AnnotationVirtualSpace = ''networking.kubegems.io/virtualspace''"
definition istioInjectionLabel :: string where "istioInjectionLabel = ''istio-injection''"

record mesh_ns =
  ms_labels :: "labels option"
  ms_annotations :: labels
  ms_deleting :: bool

record service_port =
  sp_Name :: string
  sp_Port :: "32 word"
  sp_Protocol :: string
  sp_AppProtocol :: "string option"

record mesh_service =
  sv_ClusterIP :: string
  sv_Ports :: "service_port list"
  sv_annotations :: labels
  sv_deleting :: bool

datatype entry_location = MESH_EXTERNAL | MESH_INTERNAL

datatype entry_resolution = ResolutionNone | ResolutionStatic | ResolutionDNS

record service_entry =
  sn_Hosts :: "string list"
  sn_Addresses :: "string list"
  sn_Ports :: "(string \<times> 32 word \<times> string) list"
  sn_Endpoints :: "string list"
  sn_Location :: entry_location
  sn_Resolution :: entry_resolution

text \<open>Of a sidecar the listeners for what leaves the namespace are kept, each with its hosts; only the one named
  \<open>default\<close> is touched, so it is named by its namespace. Of a virtual service the hosts are kept.\<close>

record mesh_world =
  mh_namespaces :: "(string, mesh_ns) gomap"
  mh_sidecars :: "(string, string list list) gomap"
  mh_services :: "(string \<times> string, mesh_service) gomap"
  mh_entries :: "(string \<times> string, service_entry) gomap"
  mh_virtuals :: "(string \<times> string, string list) gomap"

datatype mesh_kind = KNamespace | KSidecar | KService | KServiceEntry | KVirtualService

record mesh_env =
  mx_istio :: bool
  mx_fails :: "verb \<Rightarrow> mesh_kind \<Rightarrow> string \<times> string \<Rightarrow> bool"
  mx_protocol :: "service_port \<Rightarrow> string option"

datatype mesh_outcome = MeshDone | MeshErrored | MeshPanicked

section \<open>Virtual spaces\<close>

definition isManagerdNamespace :: "mesh_ns \<Rightarrow> bool" where
  "isManagerdNamespace ns = list_ex (\<lambda>(k, v). k = AnnotationVirtualSpace) (ms_annotations ns)"

text \<open>The names a comma separates, but the empty ones.\<close>

definition names_in :: "string \<Rightarrow> string list" where
  "names_in val = filter (\<lambda>s. s \<noteq> []) (split_on (CHR '','') val)"

definition add_to_space :: "string \<Rightarrow> (string, string list) gomap \<Rightarrow> string \<Rightarrow> (string, string list) gomap" where
  "add_to_space name m vs = AList.update vs ((case map_of m vs of None \<Rightarrow> [] | Some nss \<Rightarrow> nss) @ [name]) m"

definition virtualspacenamespaces :: "(string, mesh_ns) gomap \<Rightarrow> (string, string list) gomap" where
  "virtualspacenamespaces namespaces =
     foldl (\<lambda>m (name, ns). case map_of (ms_annotations ns) AnnotationVirtualSpace of
              None \<Rightarrow> m
            | Some val \<Rightarrow> foldl (add_to_space name) m (names_in val)) [] namespaces"

definition sisternss :: "(string, string list) gomap \<Rightarrow> string \<Rightarrow> string list" where
  "sisternss spaces namespace =
     Set_Slice (foldl (\<lambda>hosts (_, nss). foldl (\<lambda>hosts ns. if ns = namespace then Set_Append hosts nss else hosts) hosts nss)
       [] spaces)"

definition ensureInjectLabel :: "mesh_env \<Rightarrow> string \<Rightarrow> bool \<Rightarrow> mesh_world \<Rightarrow> mesh_world \<times> mesh_outcome" where
  "ensureInjectLabel env namespace inject w =
     (case api_get (mx_fails env VGet KNamespace ([], namespace)) namespace (mh_namespaces w) of
        Found ns \<Rightarrow>
          let val = get_str (case ms_labels ns of None \<Rightarrow> [] | Some ls \<Rightarrow> ls) istioInjectionLabel;
              on = val = ''enabled'' \<or> val = ''true''
          in if on = inject then (w, MeshDone)
             else case ms_labels ns of
                    None \<Rightarrow> (w, MeshPanicked)
                  | Some ls \<Rightarrow>
                      (case api_update (mx_fails env VUpdate KNamespace ([], namespace)) namespace
                              (ns\<lparr>ms_labels := Some (AList.update istioInjectionLabel (if inject then ''enabled'' else ''disabled'') ls)\<rparr>)
                              (mh_namespaces w) of
                         (store, ok) \<Rightarrow> (w\<lparr>mh_namespaces := store\<rparr>, if ok then MeshDone else MeshErrored))
      | _ \<Rightarrow> (w, MeshErrored))"

definition sidecar_egress :: "string \<Rightarrow> string list \<Rightarrow> string list list" where
  "sidecar_egress namespace namespaces = [''./*'' # map (\<lambda>ns. ns @ ''/*'') (filter (\<lambda>ns. ns \<noteq> namespace) namespaces)]"

definition ensuresidecar :: "mesh_env \<Rightarrow> string \<Rightarrow> string list \<Rightarrow> mesh_world \<Rightarrow> mesh_world \<times> bool" where
  "ensuresidecar env namespace namespaces w =
     (let fl = (\<lambda>v. mx_fails env v KSidecar (namespace, ''default'')); egress = sidecar_egress namespace namespaces in
      if namespaces = []
      then case api_delete (fl VDelete) namespace (mh_sidecars w) of
             (store, r) \<Rightarrow> (w\<lparr>mh_sidecars := store\<rparr>, r \<noteq> DeleteFailed)
      else case api_get (fl VGet) namespace (mh_sidecars w) of
             NotFound \<Rightarrow> (case api_create (fl VCreate) namespace egress (mh_sidecars w) of
                           (store, ok) \<Rightarrow> (w\<lparr>mh_sidecars := store\<rparr>, ok))
           | Failed e \<Rightarrow> (w, False)
           | Found exist \<Rightarrow>
               if exist = egress then (w, True)
               else case api_update (fl VUpdate) namespace egress (mh_sidecars w) of
                      (store, ok) \<Rightarrow> (w\<lparr>mh_sidecars := store\<rparr>, ok))"

text \<open>One round of the loop over the listed namespaces: the objects, and whether an error was noted. A panic ends the loop.\<close>

definition sync_space ::
  "mesh_env \<Rightarrow> (string, string list) gomap \<Rightarrow> mesh_world \<times> mesh_outcome \<Rightarrow> string \<times> mesh_ns \<Rightarrow> mesh_world \<times> mesh_outcome" where
  "sync_space env spaces acc item =
     (case acc of (w, r) \<Rightarrow>
        if r = MeshPanicked \<or> \<not> isManagerdNamespace (snd item) then (w, r)
        else let sisters = sisternss spaces (fst item) in
             case ensureInjectLabel env (fst item) (sisters \<noteq> []) w of
               (w, MeshPanicked) \<Rightarrow> (w, MeshPanicked)
             | (w, r1) \<Rightarrow>
                 (case ensuresidecar env (fst item) sisters w of
                    (w, ok) \<Rightarrow> (w, if r = MeshErrored \<or> r1 = MeshErrored \<or> \<not> ok then MeshErrored else MeshDone)))"

definition OnChange_space :: "mesh_env \<Rightarrow> mesh_world \<Rightarrow> mesh_world \<times> mesh_outcome" where
  "OnChange_space env w =
     (if mx_fails env VList KNamespace ([], []) then (w, MeshErrored)
      else let namespaces = mh_namespaces w
           in foldl (sync_space env (virtualspacenamespaces namespaces)) (w, MeshDone) namespaces)"

definition Reconcile_space :: "mesh_env \<Rightarrow> string \<Rightarrow> mesh_world \<Rightarrow> mesh_world \<times> mesh_outcome" where
  "Reconcile_space env name w =
     (if \<not> mx_istio env then (w, MeshDone)
      else case api_get (mx_fails env VGet KNamespace ([], name)) name (mh_namespaces w) of
             NotFound \<Rightarrow> (w, MeshDone)
           | Failed e \<Rightarrow> (w, MeshErrored)
           | Found ns \<Rightarrow> if ms_deleting ns then (w, MeshDone) else OnChange_space env w)"

section \<open>Virtual domains\<close>

definition OnRemove_service :: "mesh_env \<Rightarrow> string \<times> string \<Rightarrow> mesh_world \<Rightarrow> mesh_world \<times> mesh_outcome" where
  "OnRemove_service env key w =
     (case api_delete (mx_fails env VDelete KServiceEntry key) key (mh_entries w) of
        (store, r) \<Rightarrow> (w\<lparr>mh_entries := store\<rparr>, if r = DeleteFailed then MeshErrored else MeshDone))"

definition service_hosts :: "string \<Rightarrow> mesh_ns \<Rightarrow> mesh_service \<Rightarrow> string list" where
  "service_hosts name ns svc =
     (let addtohosts = (\<lambda>hosts annotations. case map_of annotations AnnotationVirtualDomain of
            None \<Rightarrow> hosts
          | Some val \<Rightarrow> foldl (\<lambda>hosts domain. Set_Append hosts [name @ ''.'' @ domain]) hosts (names_in val))
      in addtohosts (addtohosts [] (ms_annotations ns)) (sv_annotations svc))"

definition updateVirtualServiceHosts ::
  "mesh_env \<Rightarrow> string \<times> string \<Rightarrow> string list \<Rightarrow> mesh_world \<Rightarrow> mesh_world" where
  "updateVirtualServiceHosts env key hosts w =
     (case api_get (mx_fails env VGet KVirtualService key) key (mh_virtuals w) of
        Found exist \<Rightarrow>
          let desiredhosts = Set_Slice (Set_Append (Set_Append [] [snd key]) hosts) in
          if exist = desiredhosts then w
          else w\<lparr>mh_virtuals := fst (api_update (mx_fails env VUpdate KVirtualService key) key desiredhosts (mh_virtuals w))\<rparr>
      | _ \<Rightarrow> w)"

definition entry_for :: "mesh_env \<Rightarrow> string \<times> string \<Rightarrow> mesh_service \<Rightarrow> string list \<Rightarrow> service_entry" where
  "entry_for env key svc hosts =
     \<lparr>sn_Hosts = hosts, sn_Addresses = [sv_ClusterIP svc],
      sn_Ports = map (\<lambda>port. (sp_Name port, sp_Port port, case mx_protocol env port of None \<Rightarrow> ''TCP'' | Some p \<Rightarrow> p)) (sv_Ports svc),
      sn_Endpoints = [snd key @ ''.'' @ fst key], sn_Location = MESH_INTERNAL, sn_Resolution = ResolutionDNS\<rparr>"

definition ensure_entry :: "mesh_env \<Rightarrow> string \<times> string \<Rightarrow> service_entry \<Rightarrow> mesh_world \<Rightarrow> mesh_world \<times> mesh_outcome" where
  "ensure_entry env key entry w =
     (case api_get (mx_fails env VGet KServiceEntry key) key (mh_entries w) of
        NotFound \<Rightarrow> (case api_create (mx_fails env VCreate KServiceEntry key) key entry (mh_entries w) of
                      (store, ok) \<Rightarrow> (w\<lparr>mh_entries := store\<rparr>, if ok then MeshDone else MeshErrored))
      | Failed e \<Rightarrow> (w, MeshErrored)
      | Found exist \<Rightarrow>
          if exist = entry then (w, MeshDone)
          else case api_update (mx_fails env VUpdate KServiceEntry key) key entry (mh_entries w) of
                 (store, ok) \<Rightarrow> (w\<lparr>mh_entries := store\<rparr>, if ok then MeshDone else MeshErrored))"

definition OnChange_service :: "mesh_env \<Rightarrow> string \<times> string \<Rightarrow> mesh_service \<Rightarrow> mesh_world \<Rightarrow> mesh_world \<times> mesh_outcome" where
  "OnChange_service env key svc w =
     (if sv_ClusterIP svc = [] \<or> sv_ClusterIP svc = ''None'' then (w, MeshDone)
      else case api_get (mx_fails env VGet KNamespace ([], fst key)) (fst key) (mh_namespaces w) of
             Found ns \<Rightarrow>
               if \<not> isManagerdNamespace ns then (w, MeshDone)
               else let hosts = service_hosts (snd key) ns svc;
                        w = updateVirtualServiceHosts env key (Set_Slice hosts) w
                    in if hosts = [] then OnRemove_service env key w
                       else ensure_entry env key (entry_for env key svc (Set_Slice hosts)) w
           | _ \<Rightarrow> (w, MeshDone))"

definition Reconcile_service :: "mesh_env \<Rightarrow> string \<times> string \<Rightarrow> mesh_world \<Rightarrow> mesh_world \<times> mesh_outcome" where
  "Reconcile_service env key w =
     (if \<not> mx_istio env then (w, MeshDone)
      else if has_prefix (fst key) ''kube'' then (w, MeshDone)
      else case api_get (mx_fails env VGet KService key) key (mh_services w) of
             NotFound \<Rightarrow> (w, MeshDone)
           | Failed e \<Rightarrow> (w, MeshErrored)
           | Found svc \<Rightarrow> if sv_deleting svc then OnRemove_service env key w else OnChange_service env key svc w)"

text \<open>A change of a namespace starts a run for all its services.\<close>

definition OnNamespceChangeFunc :: "mesh_env \<Rightarrow> string \<Rightarrow> mesh_world \<Rightarrow> (string \<times> string) list" where
  "OnNamespceChangeFunc env name w =
     (if mx_fails env VList KService (name, []) then []
      else map fst (filter (\<lambda>(key, svc). fst key = name) (mh_services w)))"

section \<open>Whether istio is installed\<close>

record plugin_flags =
  pf_istioOperatorEnabled :: bool
  pf_nginxIngressControllerEnabled :: bool

record crd =
  cd_Group :: string
  cd_deleting :: bool

datatype component_name = ComponentNginx | ComponentIstio | ComponentOther string

fun ComponentEnabled :: "plugin_flags \<Rightarrow> component_name \<Rightarrow> bool" where
  "ComponentEnabled p ComponentNginx = pf_nginxIngressControllerEnabled p"
| "ComponentEnabled p ComponentIstio = pf_istioOperatorEnabled p"
| "ComponentEnabled p (ComponentOther n) = False"

definition OnChange_crd :: "crd \<Rightarrow> bool \<Rightarrow> plugin_flags \<Rightarrow> plugin_flags" where
  "OnChange_crd c exist p =
     (if cd_Group c = ''networking.kubegems.io'' then p\<lparr>pf_nginxIngressControllerEnabled := exist\<rparr>
      else if cd_Group c = ''install.istio.io'' then p\<lparr>pf_istioOperatorEnabled := exist\<rparr> else p)"

definition Init_flags :: "crd list \<Rightarrow> plugin_flags \<Rightarrow> plugin_flags" where
  "Init_flags crds p = foldl (\<lambda>p c. OnChange_crd c True p) p crds"

text \<open>\<open>None\<close> is a definition that cannot be read, or is gone.\<close>

definition Reconcile_crd :: "crd option \<Rightarrow> plugin_flags \<Rightarrow> plugin_flags" where
  "Reconcile_crd got p =
     (case got of
        None \<Rightarrow> p
      | Some exist \<Rightarrow>
          let p = (if cd_deleting exist then OnChange_crd exist False p else p) in OnChange_crd exist True p)"

section \<open>Who shares a space\<close>

definition in_space :: "(string, mesh_ns) gomap \<Rightarrow> string \<Rightarrow> string \<Rightarrow> bool" where
  "in_space namespaces vs n \<longleftrightarrow> (\<exists>ns val. (n, ns) \<in> set namespaces \<and>
     map_of (ms_annotations ns) AnnotationVirtualSpace = Some val \<and> vs \<in> set (names_in val))"

definition shares :: "(string, mesh_ns) gomap \<Rightarrow> string \<Rightarrow> string \<Rightarrow> bool" where
  "shares namespaces n m \<longleftrightarrow> (\<exists>vs. in_space namespaces vs n \<and> in_space namespaces vs m)"

lemma shares_sym: "shares nss n m \<longleftrightarrow> shares nss m n"
  by (auto simp: shares_def)

definition members :: "(string, string list) gomap \<Rightarrow> string \<Rightarrow> string set" where
  "members m vs = (case map_of m vs of None \<Rightarrow> {} | Some nss \<Rightarrow> set nss)"

lemma members_add: "members (add_to_space n m vs) v = (if v = vs then insert n (members m v) else members m v)"
  by (auto simp: members_def add_to_space_def split: option.split)

lemma members_adds: "members (foldl (add_to_space n) m vss) v = members m v \<union> (if v \<in> set vss then {n} else {})"
  by (induction vss arbitrary: m) (auto simp: members_add)

lemma wf_adds: "wf_map m \<Longrightarrow> wf_map (foldl (add_to_space n) m vss)"
  by (induction vss arbitrary: m) (auto simp: add_to_space_def)

lemma spaces_facts:
  "members (virtualspacenamespaces nss) v = {n. in_space nss v n}" "wf_map (virtualspacenamespaces nss)"
proof -
  let ?step = "\<lambda>m (name, ns). case map_of (ms_annotations ns) AnnotationVirtualSpace of
    None \<Rightarrow> m | Some val \<Rightarrow> foldl (add_to_space name) m (names_in val)"
  have step: "members (?step m x) v = members m v \<union> {n. in_space [x] v n}" for m x
    by (cases x) (auto simp: in_space_def members_adds simp del: map_of_eq_Some_iff split: option.split)
  have cons: "{n. in_space (x # xs) v n} = {n. in_space [x] v n} \<union> {n. in_space xs v n}" for x xs
    by (auto simp: in_space_def)
  have "members (foldl ?step m nss) v = members m v \<union> {n. in_space nss v n}" for m
  proof (induction nss arbitrary: m)
    case Nil
    show ?case by (simp add: in_space_def)
  next
    case (Cons x xs)
    show ?case unfolding foldl_Cons Cons.IH step cons [of x xs] by blast
  qed
  then show "members (virtualspacenamespaces nss) v = {n. in_space nss v n}"
    by (simp add: virtualspacenamespaces_def members_def)
  have "wf_map m \<Longrightarrow> wf_map (foldl ?step m nss)" for m
    by (induction nss arbitrary: m) (auto simp: wf_adds split: option.split)
  then show "wf_map (virtualspacenamespaces nss)" by (simp add: virtualspacenamespaces_def)
qed

lemma sister_fold:
  fixes hosts :: "string list"
  shows "set (foldl (\<lambda>hosts ns. if ns = n then Set_Append hosts all else hosts) hosts nss)
      = set hosts \<union> (if n \<in> set nss then set all else {})"
    "distinct hosts \<Longrightarrow> distinct (foldl (\<lambda>hosts ns. if ns = n then Set_Append hosts all else hosts) hosts nss)"
  by (induction nss arbitrary: hosts) auto

lemma sisters_fold:
  fixes hosts :: "string list" and n :: string
  defines "step \<equiv> \<lambda>hosts (vs :: string, nss). foldl (\<lambda>hosts ns. if ns = n then Set_Append hosts nss else hosts) hosts nss"
  shows "set (foldl step hosts spaces) = set hosts \<union> {m. \<exists>(vs, nss) \<in> set spaces. n \<in> set nss \<and> m \<in> set nss}"
    and "distinct hosts \<Longrightarrow> distinct (foldl step hosts spaces)"
  unfolding step_def by (induction spaces arbitrary: hosts) (auto simp: sister_fold)

lemma sisters_of: "sisternss (virtualspacenamespaces nss) n = sorted_list_of_set {m. shares nss n m}"
proof -
  let ?s = "virtualspacenamespaces nss"
  have "(\<exists>(vs, xs) \<in> set ?s. n \<in> set xs \<and> m \<in> set xs) \<longleftrightarrow> (\<exists>vs. n \<in> members ?s vs \<and> m \<in> members ?s vs)" for m
  proof
    assume "\<exists>(vs, xs) \<in> set ?s. n \<in> set xs \<and> m \<in> set xs"
    then obtain vs xs where "map_of ?s vs = Some xs" "n \<in> set xs" "m \<in> set xs"
      using map_of_is_SomeI [OF spaces_facts(2) [of nss]] by blast
    then show "\<exists>vs. n \<in> members ?s vs \<and> m \<in> members ?s vs"
      by (intro exI [of _ vs]) (simp add: members_def del: map_of_eq_Some_iff)
  next
    assume "\<exists>vs. n \<in> members ?s vs \<and> m \<in> members ?s vs"
    then obtain vs xs where "map_of ?s vs = Some xs" "n \<in> set xs" "m \<in> set xs"
      by (auto simp: members_def simp del: map_of_eq_Some_iff split: option.splits)
    then show "\<exists>(vs, xs) \<in> set ?s. n \<in> set xs \<and> m \<in> set xs"
      by (blast dest: map_of_SomeD)
  qed
  then have "(\<exists>(vs, xs) \<in> set ?s. n \<in> set xs \<and> m \<in> set xs) \<longleftrightarrow> shares nss n m" for m
    by (simp add: spaces_facts shares_def)
  then show ?thesis
    unfolding sisternss_def by (subst Slice_canonical) (simp_all add: sisters_fold)
qed

lemma finite_shares: "finite {m. shares nss n m}"
  by (rule finite_subset [of _ "fst ` set nss"]) (force simp: shares_def in_space_def)+

lemma shares_cong:
  assumes "map (\<lambda>(n, ns). (n, ms_annotations ns)) nss = map (\<lambda>(n, ns). (n, ms_annotations ns)) nss'"
  shows "shares nss = shares nss'"
proof -
  have "in_space nss vs n = (\<exists>val anns. (n, anns) \<in> set (map (\<lambda>(n, ns). (n, ms_annotations ns)) nss) \<and>
      map_of anns AnnotationVirtualSpace = Some val \<and> vs \<in> set (names_in val))" for nss vs n
    by (force simp: in_space_def simp del: map_of_eq_Some_iff)
  then show ?thesis by (intro ext) (simp only: shares_def assms)
qed

section \<open>One run of the virtual spaces\<close>

definition quiet :: "mesh_env \<Rightarrow> bool" where
  "quiet env \<longleftrightarrow> mx_fails env = (\<lambda>_ _ _. False)"

definition injected :: "mesh_ns \<Rightarrow> bool" where
  "injected ns \<longleftrightarrow> get_str (case ms_labels ns of None \<Rightarrow> [] | Some ls \<Rightarrow> ls) istioInjectionLabel \<in> {''enabled'', ''true''}"

definition relabel :: "bool \<Rightarrow> mesh_ns \<Rightarrow> mesh_ns" where
  "relabel inject ns =
     (if injected ns = inject then ns
      else ns\<lparr>ms_labels := map_option (AList.update istioInjectionLabel (if inject then ''enabled'' else ''disabled'')) (ms_labels ns)\<rparr>)"

definition put :: "'k \<Rightarrow> 'v option \<Rightarrow> ('k, 'v) gomap \<Rightarrow> ('k, 'v) gomap" where
  "put k v m = (case v of None \<Rightarrow> AList.delete k m | Some v \<Rightarrow> AList.update k v m)"

lemma update_id: "map_of m k = Some v \<Longrightarrow> AList.update k v m = m"
  by (induction m) (auto split: if_splits simp del: map_of_eq_Some_iff)

lemma put_at [simp]: "map_of (put k v m) k' = (if k' = k then v else map_of m k')"
  by (auto simp: put_def split: option.split)

lemma delete_none: "map_of m k = None \<Longrightarrow> AList.delete k m = m"
  by (simp add: map_of_eq_None_iff delete_id)

lemma put_id: "map_of m k = v \<Longrightarrow> put k v m = m"
  by (auto simp: put_def update_id delete_none simp del: map_of_eq_Some_iff map_of_eq_None_iff split: option.split)

lemma injected_relabel: "ms_labels ns \<noteq> None \<Longrightarrow> injected (relabel inject ns) = inject"
  by (auto simp: relabel_def injected_def get_str_def)

lemma relabel_same [simp]: "ms_annotations (relabel i ns) = ms_annotations ns" "ms_deleting (relabel i ns) = ms_deleting ns"
    "ms_labels (relabel i ns) = None \<longleftrightarrow> ms_labels ns = None" "isManagerdNamespace (relabel i ns) = isManagerdNamespace ns"
  by (simp_all add: relabel_def isManagerdNamespace_def)

lemma inject_quiet:
  assumes "quiet env" "map_of (mh_namespaces w) n = Some ns" "ms_labels ns \<noteq> None"
  shows "ensureInjectLabel env n inject w = (w\<lparr>mh_namespaces := AList.update n (relabel inject ns) (mh_namespaces w)\<rparr>, MeshDone)"
proof -
  obtain ls where ls: "ms_labels ns = Some ls" using assms(3) by auto
  have on: "injected ns \<longleftrightarrow> get_str ls istioInjectionLabel = ''enabled'' \<or> get_str ls istioInjectionLabel = ''true''"
    by (simp add: injected_def ls)
  show ?thesis
    using assms(1,2) ls on update_id [OF assms(2)]
    by (cases "injected ns = inject")
      (simp_all add: ensureInjectLabel_def api_get_def api_update_def quiet_def relabel_def Let_def del: map_of_eq_Some_iff)
qed

lemma sidecar_quiet:
  assumes "quiet env"
  shows "ensuresidecar env n sis w =
    (w\<lparr>mh_sidecars := put n (if sis = [] then None else Some (sidecar_egress n sis)) (mh_sidecars w)\<rparr>, True)"
  using assms update_id [of "mh_sidecars w" n "sidecar_egress n sis"]
  by (cases "map_of (mh_sidecars w) n")
    (auto simp: ensuresidecar_def api_get_def api_update_def api_create_def api_delete_def quiet_def put_def Let_def
      delete_none simp del: map_of_eq_Some_iff map_of_eq_None_iff)

definition space_sidecar :: "(string, mesh_ns) gomap \<Rightarrow> string \<Rightarrow> string list list option" where
  "space_sidecar nss n = (if \<exists>m. shares nss n m
     then Some [''./*'' # map (\<lambda>m. m @ ''/*'') (sorted_list_of_set ({m. shares nss n m} - {n}))] else None)"

lemma sisters_Nil: "sisternss (virtualspacenamespaces nss) n = [] \<longleftrightarrow> (\<nexists>m. shares nss n m)"
  by (auto simp: sisters_of finite_shares)

lemma sidecar_of_sisters:
  "(if sisternss (virtualspacenamespaces nss) n = [] then None
    else Some (sidecar_egress n (sisternss (virtualspacenamespaces nss) n))) = space_sidecar nss n"
proof -
  let ?A = "{m. shares nss n m}"
  have "filter (\<lambda>m. m \<noteq> n) (sorted_list_of_set ?A) = sorted_list_of_set (?A - {n})"
    using finite_shares [of nss n]
    by (subst sorted_list_of_set.idem_if_sorted_distinct [symmetric])
      (auto simp: sorted_filter [of "\<lambda>x. x", simplified] intro!: arg_cong [where f = sorted_list_of_set])
  then show ?thesis by (simp add: space_sidecar_def sisters_Nil sidecar_egress_def) (simp add: sisters_of)
qed

text \<open>One round without failures, for the namespace as it is in the cluster.\<close>

lemma sync_space_quiet:
  assumes "quiet env" "map_of (mh_namespaces w) n = Some ns" "isManagerdNamespace ns \<Longrightarrow> ms_labels ns \<noteq> None"
  shows "sync_space env (virtualspacenamespaces nss) (w, MeshDone) (n, ns) =
    (if isManagerdNamespace ns
     then w\<lparr>mh_namespaces := AList.update n (relabel (\<exists>m. shares nss n m) ns) (mh_namespaces w),
            mh_sidecars := put n (space_sidecar nss n) (mh_sidecars w)\<rparr>
     else w, MeshDone)"
proof (cases "isManagerdNamespace ns")
  case True
  then show ?thesis
    unfolding sync_space_def
    by (simp add: Let_def sisters_Nil inject_quiet [OF assms(1,2)] assms(3) sidecar_quiet [OF assms(1)]
        sidecar_of_sisters [unfolded sisters_Nil, simplified])
qed (simp add: sync_space_def)

definition annotated :: "(string, mesh_ns) gomap \<Rightarrow> (string \<times> labels) list" where
  "annotated nss = map (\<lambda>(n, ns). (n, ms_annotations ns)) nss"

lemma annotated_update:
  "map_of m n = Some ns \<Longrightarrow> ms_annotations ns' = ms_annotations ns \<Longrightarrow> annotated (AList.update n ns' m) = annotated m"
  by (induction m) (auto simp: annotated_def split: if_splits simp del: map_of_eq_Some_iff)

lemma annotated_keys: "map fst (annotated m) = map fst m"
  by (simp add: annotated_def case_prod_unfold)

lemma annotated_shares: "annotated m = annotated m' \<Longrightarrow> shares m = shares m'"
  by (rule shares_cong) (simp add: annotated_def)

text \<open>Namespaces as a run finds them: one of each name, and those to be managed can be given a label.\<close>

definition labelled :: "(string, mesh_ns) gomap \<Rightarrow> bool" where
  "labelled nss \<longleftrightarrow> wf_map nss \<and> (\<forall>(n, ns) \<in> set nss. isManagerdNamespace ns \<longrightarrow> ms_labels ns \<noteq> None)"

definition space_settled :: "mesh_world \<Rightarrow> bool" where
  "space_settled w \<longleftrightarrow> (\<forall>(n, ns) \<in> set (mh_namespaces w). isManagerdNamespace ns \<longrightarrow>
     injected ns = (\<exists>m. shares (mh_namespaces w) n m) \<and> map_of (mh_sidecars w) n = space_sidecar (mh_namespaces w) n)"

abbreviation keeps_rest :: "mesh_world \<Rightarrow> mesh_world \<Rightarrow> bool" where
  "keeps_rest w w' \<equiv> mh_services w' = mh_services w \<and> mh_entries w' = mh_entries w \<and> mh_virtuals w' = mh_virtuals w"

lemma sync_spaces_quiet:
  assumes "quiet env" "wf_map xs"
    and "\<forall>(n, ns) \<in> set xs. map_of (mh_namespaces w) n = Some ns \<and> (isManagerdNamespace ns \<longrightarrow> ms_labels ns \<noteq> None)"
  defines "done \<equiv> \<lambda>n. case map_of xs n of None \<Rightarrow> False | Some ns \<Rightarrow> isManagerdNamespace ns"
  shows "\<exists>w'. foldl (sync_space env (virtualspacenamespaces nss)) (w, MeshDone) xs = (w', MeshDone) \<and>
    (\<forall>n. map_of (mh_namespaces w') n =
       (if done n then map_option (relabel (\<exists>m. shares nss n m)) (map_of (mh_namespaces w) n) else map_of (mh_namespaces w) n) \<and>
       map_of (mh_sidecars w') n = (if done n then space_sidecar nss n else map_of (mh_sidecars w) n)) \<and>
    annotated (mh_namespaces w') = annotated (mh_namespaces w) \<and> keeps_rest w w'"
  using assms(2,3) unfolding done_def
proof (induction xs arbitrary: w)
  case Nil
  show ?case by simp
next
  case (Cons x xs)
  obtain n ns where x: "x = (n, ns)" by (cases x)
  have ns: "map_of (mh_namespaces w) n = Some ns" "isManagerdNamespace ns \<Longrightarrow> ms_labels ns \<noteq> None"
    using Cons.prems(2) x by (auto simp del: map_of_eq_Some_iff)
  define w1 where "w1 = (if isManagerdNamespace ns
     then w\<lparr>mh_namespaces := AList.update n (relabel (\<exists>m. shares nss n m) ns) (mh_namespaces w),
            mh_sidecars := put n (space_sidecar nss n) (mh_sidecars w)\<rparr> else w)"
  have step: "sync_space env (virtualspacenamespaces nss) (w, MeshDone) x = (w1, MeshDone)"
    unfolding x w1_def using sync_space_quiet [OF assms(1) ns] by simp
  have new: "n \<notin> fst ` set xs" and wf: "wf_map xs" using Cons.prems(1) x by auto
  have pre: "\<forall>(k, ks) \<in> set xs. map_of (mh_namespaces w1) k = Some ks \<and> (isManagerdNamespace ks \<longrightarrow> ms_labels ks \<noteq> None)"
  proof (intro ballI, clarify, intro conjI)
    fix k ks assume k: "(k, ks) \<in> set xs"
    then have "k \<noteq> n" using new by force
    with Cons.prems(2) k show "map_of (mh_namespaces w1) k = Some ks" by (fastforce simp: w1_def simp del: map_of_eq_Some_iff)
    show "isManagerdNamespace ks \<longrightarrow> ms_labels ks \<noteq> None" using Cons.prems(2) k by auto
  qed
  have none: "map_of xs n = None" using new by (simp add: map_of_eq_None_iff)
  from Cons.IH [OF wf pre] obtain w' where w': "foldl (sync_space env (virtualspacenamespaces nss)) (w1, MeshDone) xs = (w', MeshDone)"
    and at: "\<And>k. map_of (mh_namespaces w') k = (if (case map_of xs k of None \<Rightarrow> False | Some ns \<Rightarrow> isManagerdNamespace ns)
         then map_option (relabel (\<exists>m. shares nss k m)) (map_of (mh_namespaces w1) k) else map_of (mh_namespaces w1) k)"
      "\<And>k. map_of (mh_sidecars w') k = (if (case map_of xs k of None \<Rightarrow> False | Some ns \<Rightarrow> isManagerdNamespace ns)
         then space_sidecar nss k else map_of (mh_sidecars w1) k)"
    and rest: "annotated (mh_namespaces w') = annotated (mh_namespaces w1)" "keeps_rest w1 w'" by blast
  have "annotated (mh_namespaces w1) = annotated (mh_namespaces w)" "keeps_rest w w1"
    using annotated_update [OF ns(1), of "relabel (\<exists>m. shares nss n m) ns"] by (simp_all add: w1_def)
  moreover have "map_of (mh_namespaces w') k = (if (case map_of (x # xs) k of None \<Rightarrow> False | Some ns \<Rightarrow> isManagerdNamespace ns)
         then map_option (relabel (\<exists>m. shares nss k m)) (map_of (mh_namespaces w) k) else map_of (mh_namespaces w) k)
      \<and> map_of (mh_sidecars w') k = (if (case map_of (x # xs) k of None \<Rightarrow> False | Some ns \<Rightarrow> isManagerdNamespace ns)
         then space_sidecar nss k else map_of (mh_sidecars w) k)" for k
    unfolding at using none ns(1) by (cases "k = n") (auto simp: x w1_def simp del: map_of_eq_Some_iff map_of_eq_None_iff)
  ultimately show ?case unfolding foldl_Cons step w' using rest by (intro exI [of _ w']) simp
qed

lemma OnChange_space_quiet:
  assumes "quiet env" "labelled (mh_namespaces w)"
  shows "\<exists>w'. OnChange_space env w = (w', MeshDone) \<and> annotated (mh_namespaces w') = annotated (mh_namespaces w) \<and> keeps_rest w w' \<and>
    (\<forall>n ns. map_of (mh_namespaces w) n = Some ns \<longrightarrow>
       (if isManagerdNamespace ns
        then map_of (mh_namespaces w') n = Some (relabel (\<exists>m. shares (mh_namespaces w) n m) ns) \<and>
          map_of (mh_sidecars w') n = space_sidecar (mh_namespaces w) n
        else map_of (mh_namespaces w') n = Some ns \<and> map_of (mh_sidecars w') n = map_of (mh_sidecars w) n)) \<and>
    (\<forall>n. map_of (mh_namespaces w) n = None \<longrightarrow> map_of (mh_sidecars w') n = map_of (mh_sidecars w) n)"
proof -
  have wf: "wf_map (mh_namespaces w)" using assms(2) by (simp add: labelled_def)
  have pre: "\<forall>(n, ns) \<in> set (mh_namespaces w). map_of (mh_namespaces w) n = Some ns \<and> (isManagerdNamespace ns \<longrightarrow> ms_labels ns \<noteq> None)"
    using assms(2) by (auto simp: labelled_def)
  from sync_spaces_quiet [OF assms(1) wf pre, of "mh_namespaces w"] show ?thesis
    unfolding OnChange_space_def using assms(1)
    by (elim exE conjE) (rule_tac x = w' in exI, auto simp: quiet_def simp del: map_of_eq_Some_iff map_of_eq_None_iff split: if_splits)
qed

lemma labelled_after:
  assumes "labelled (mh_namespaces w)" "annotated (mh_namespaces w') = annotated (mh_namespaces w)"
    and at: "\<forall>n ns. map_of (mh_namespaces w) n = Some ns \<longrightarrow> map_of (mh_namespaces w') n \<in> {Some ns, Some (relabel (i n) ns)}"
  shows "labelled (mh_namespaces w')"
proof -
  have keys: "map fst (mh_namespaces w') = map fst (mh_namespaces w)" using assms(2) annotated_keys by metis
  then have wf: "wf_map (mh_namespaces w')" using assms(1) by (simp add: labelled_def)
  have "ms_labels ns' \<noteq> None" if m: "(n, ns') \<in> set (mh_namespaces w')" "isManagerdNamespace ns'" for n ns'
  proof -
    have "n \<in> fst ` set (mh_namespaces w)" using m(1) arg_cong [OF keys, of set] by force
    then obtain ns where ns: "map_of (mh_namespaces w) n = Some ns" by (cases "map_of (mh_namespaces w) n") (auto simp: map_of_eq_None_iff)
    then have "ns' = ns \<or> ns' = relabel (i n) ns" using at map_of_is_SomeI [OF wf m(1)] by fastforce
    then have "ms_labels ns \<noteq> None"
      using m(2) assms(1) map_of_SomeD [OF ns] by (auto simp: labelled_def)
    then show ?thesis using \<open>ns' = ns \<or> ns' = relabel (i n) ns\<close> relabel_same(3) by metis
  qed
  then show ?thesis using wf by (auto simp: labelled_def)
qed

lemma space_fixed:
  assumes "quiet env" "labelled (mh_namespaces w)" "space_settled w"
  shows "OnChange_space env w = (w, MeshDone)"
proof -
  have "sync_space env (virtualspacenamespaces (mh_namespaces w)) (w, MeshDone) x = (w, MeshDone)" if "x \<in> set (mh_namespaces w)" for x
  proof -
    obtain n ns where x: "x = (n, ns)" by (cases x)
    then have at: "map_of (mh_namespaces w) n = Some ns" using that assms(2) by (simp add: labelled_def)
    have "relabel (\<exists>m. shares (mh_namespaces w) n m) ns = ns \<and> map_of (mh_sidecars w) n = space_sidecar (mh_namespaces w) n"
      if "isManagerdNamespace ns" using assms(3) \<open>x \<in> set _\<close> x that by (auto simp: space_settled_def relabel_def)
    then show ?thesis
      unfolding x using sync_space_quiet [OF assms(1) at] assms(2) that x
      by (auto simp: update_id at put_id labelled_def simp del: map_of_eq_Some_iff)
  qed
  then have "foldl (sync_space env (virtualspacenamespaces (mh_namespaces w))) (w, MeshDone) xs = (w, MeshDone)"
    if "set xs \<subseteq> set (mh_namespaces w)" for xs using that by (induction xs) auto
  then show ?thesis using assms(1) by (simp add: OnChange_space_def quiet_def)
qed

lemma space_settles:
  assumes "quiet env" "labelled (mh_namespaces w)"
  shows "labelled (mh_namespaces (fst (OnChange_space env w)))" "space_settled (fst (OnChange_space env w))"
proof -
  from OnChange_space_quiet [OF assms] obtain w' where run: "OnChange_space env w = (w', MeshDone)"
    and ann: "annotated (mh_namespaces w') = annotated (mh_namespaces w)"
    and at: "\<And>n ns. map_of (mh_namespaces w) n = Some ns \<Longrightarrow>
       (if isManagerdNamespace ns
        then map_of (mh_namespaces w') n = Some (relabel (\<exists>m. shares (mh_namespaces w) n m) ns) \<and>
          map_of (mh_sidecars w') n = space_sidecar (mh_namespaces w) n
        else map_of (mh_namespaces w') n = Some ns \<and> map_of (mh_sidecars w') n = map_of (mh_sidecars w) n)" by blast
  let ?i = "\<lambda>n. \<exists>m. shares (mh_namespaces w) n m"
  have "map_of (mh_namespaces w') n \<in> {Some ns, Some (relabel (?i n) ns)}" if "map_of (mh_namespaces w) n = Some ns" for n ns
    using at [OF that] by (auto split: if_splits)
  then have lab: "labelled (mh_namespaces w')" using labelled_after [OF assms(2) ann, of ?i] by blast
  then show "labelled (mh_namespaces (fst (OnChange_space env w)))" by (simp add: run)
  have same: "shares (mh_namespaces w') = shares (mh_namespaces w)" by (rule annotated_shares [OF ann])
  have "injected ns' = ?i n \<and> map_of (mh_sidecars w') n = space_sidecar (mh_namespaces w) n"
    if m: "(n, ns') \<in> set (mh_namespaces w')" "isManagerdNamespace ns'" for n ns'
  proof -
    have at': "map_of (mh_namespaces w') n = Some ns'" using m(1) lab by (simp add: labelled_def)
    have "n \<in> fst ` set (mh_namespaces w)"
      using m(1) ann annotated_keys [of "mh_namespaces w"] annotated_keys [of "mh_namespaces w'"] by (metis fst_conv image_eqI set_map)
    then obtain ns where ns: "map_of (mh_namespaces w) n = Some ns" by (cases "map_of (mh_namespaces w) n") (auto simp: map_of_eq_None_iff)
    have man: "isManagerdNamespace ns" using at [OF ns] at' m(2) by (auto split: if_splits)
    then have "ms_labels ns \<noteq> None" using assms(2) map_of_SomeD [OF ns] by (auto simp: labelled_def)
    then show ?thesis using at [OF ns] at' man injected_relabel [of ns "?i n"] by simp
  qed
  then show "space_settled (fst (OnChange_space env w))"
    unfolding run fst_conv space_settled_def same by (auto simp: space_sidecar_def same)
qed

text \<open>What the controllers of the mesh promise, by the contract all controllers share.\<close>

definition without_faults :: "mesh_env \<Rightarrow> mesh_env" where
  "without_faults env = env\<lparr>mx_fails := \<lambda>_ _ _. False\<rparr>"

lemma without_faults_quiet [simp]: "quiet (without_faults env)"
  by (simp add: quiet_def without_faults_def)

lemma quiet_id: "quiet env \<Longrightarrow> without_faults env = env"
  by (simp add: quiet_def without_faults_def)

interpretation space_sync: convergent "\<lambda>w. fst (OnChange_space (without_faults env) w)"
  "\<lambda>w. labelled (mh_namespaces w)" space_settled for env
  by unfold_locales (simp_all add: space_settles space_fixed)

text \<open>C25: Where no request fails and every namespace with a space has a label, one run over the virtual spaces is done
  and a second one changes nothing. Every namespace that names a space, even none, gets a sidecar that reaches itself
  and just the other namespaces of its spaces, or none if it is in no space, and the sidecar is injected accordingly. A namespace that no
  longer has the annotation keeps its sidecar and its label as they are.\<close>

theorem Reconcile_space_joins:
  assumes "quiet env" "mx_istio env" "labelled (mh_namespaces w)"
    and "map_of (mh_namespaces w) name = Some ns" "\<not> ms_deleting ns"
  shows "\<exists>w'. Reconcile_space env name w = (w', MeshDone) \<and> Reconcile_space env name w' = (w', MeshDone) \<and> keeps_rest w w' \<and>
    (\<forall>n ns. map_of (mh_namespaces w) n = Some ns \<longrightarrow>
       (if isManagerdNamespace ns
        then (\<exists>ns'. map_of (mh_namespaces w') n = Some ns' \<and> ms_annotations ns' = ms_annotations ns \<and>
                injected ns' = (\<exists>m. shares (mh_namespaces w) n m)) \<and>
             map_of (mh_sidecars w') n =
               (if \<exists>m. shares (mh_namespaces w) n m
                then Some [''./*'' # map (\<lambda>m. m @ ''/*'') (sorted_list_of_set ({m. shares (mh_namespaces w) n m} - {n}))] else None)
        else map_of (mh_namespaces w') n = Some ns \<and> map_of (mh_sidecars w') n = map_of (mh_sidecars w) n))"
proof -
  from OnChange_space_quiet [OF assms(1,3)] obtain w' where run: "OnChange_space env w = (w', MeshDone)" and rest: "keeps_rest w w'"
    and at: "\<And>n ns. map_of (mh_namespaces w) n = Some ns \<Longrightarrow>
       (if isManagerdNamespace ns
        then map_of (mh_namespaces w') n = Some (relabel (\<exists>m. shares (mh_namespaces w) n m) ns) \<and>
          map_of (mh_sidecars w') n = space_sidecar (mh_namespaces w) n
        else map_of (mh_namespaces w') n = Some ns \<and> map_of (mh_sidecars w') n = map_of (mh_sidecars w) n)" by blast
  have reached: "w' = fst (OnChange_space (without_faults env) w)" by (simp add: quiet_id assms(1) run)
  have "OnChange_space env w' = (w', MeshDone)"
    unfolding reached using space_fixed [OF assms(1)] space_sync.run_ok [OF assms(3)] space_sync.run_good [OF assms(3)] by blast
  moreover have "\<exists>ns'. map_of (mh_namespaces w') name = Some ns' \<and> \<not> ms_deleting ns'"
    using at [OF assms(4)] assms(5) by (auto split: if_splits)
  moreover have "\<not> mx_fails env v k key" for v k key using assms(1) by (simp add: quiet_def)
  moreover have "injected (relabel i ns) = i"
    if "map_of (mh_namespaces w) n = Some ns" "isManagerdNamespace ns" for n ns i
  proof -
    have "ms_labels ns \<noteq> None" using that(2) assms(3) map_of_SomeD [OF that(1)] by (auto simp: labelled_def)
    then show ?thesis by (rule injected_relabel)
  qed
  ultimately show ?thesis
    using at rest assms(2,4,5) run unfolding space_sidecar_def
    by (intro exI [of _ w']) (auto simp: Reconcile_space_def api_get_def simp del: map_of_eq_Some_iff)
qed

section \<open>One run for a service\<close>

lemma add_domains:
  "set (foldl (\<lambda>hosts domain. Set_Append hosts [f domain]) hosts ds) = set hosts \<union> f ` set ds"
  "distinct hosts \<Longrightarrow> distinct (foldl (\<lambda>hosts domain. Set_Append hosts [f domain]) hosts ds)"
  by (induction ds arbitrary: hosts) auto

definition domains_of :: "labels \<Rightarrow> string set" where
  "domains_of annotations = (case map_of annotations AnnotationVirtualDomain of None \<Rightarrow> {} | Some val \<Rightarrow> set (names_in val))"

lemma service_hosts_facts:
  "set (service_hosts name ns svc) = (\<lambda>d. name @ ''.'' @ d) ` (domains_of (ms_annotations ns) \<union> domains_of (sv_annotations svc))"
  "distinct (service_hosts name ns svc)"
  by (auto simp: service_hosts_def Let_def domains_of_def add_domains image_Un simp del: map_of_eq_Some_iff split: option.split)

lemma ensure_entry_quiet:
  assumes "quiet env"
  shows "ensure_entry env key entry w = (w\<lparr>mh_entries := put key (Some entry) (mh_entries w)\<rparr>, MeshDone)"
  using assms update_id [of "mh_entries w" key entry]
  by (cases "map_of (mh_entries w) key")
    (auto simp: ensure_entry_def api_get_def api_create_def api_update_def quiet_def put_def
      simp del: map_of_eq_Some_iff map_of_eq_None_iff)

lemma OnRemove_quiet:
  "quiet env \<Longrightarrow> OnRemove_service env key w = (w\<lparr>mh_entries := put key None (mh_entries w)\<rparr>, MeshDone)"
  by (auto simp: OnRemove_service_def api_delete_def quiet_def put_def delete_none simp del: map_of_eq_None_iff)

text \<open>The hosts of the virtual service of that name, if there is one.\<close>

definition renamed :: "string \<Rightarrow> string list \<Rightarrow> string list option \<Rightarrow> string list option" where
  "renamed name hosts exist = map_option (\<lambda>_. sorted_list_of_set (insert name (set hosts))) exist"

lemma virtual_quiet:
  assumes "quiet env"
  shows "updateVirtualServiceHosts env key hosts w =
    w\<lparr>mh_virtuals := put key (renamed (snd key) hosts (map_of (mh_virtuals w) key)) (mh_virtuals w)\<rparr>"
proof -
  have "Set_Slice (Set_Append (Set_Append [] [snd key]) hosts) = sorted_list_of_set (insert (snd key) (set hosts))"
    by (subst Slice_canonical) auto
  then show ?thesis
    using assms update_id [of "mh_virtuals w" key]
    by (cases "map_of (mh_virtuals w) key")
      (auto simp: updateVirtualServiceHosts_def api_get_def api_update_def quiet_def put_def renamed_def Let_def delete_none
        simp del: map_of_eq_Some_iff map_of_eq_None_iff)
qed

text \<open>Where no request fails, a run for a service of a namespace with a space gives it exactly one service entry for
  its names under the domains of the namespace and of the service, or none if there is no domain; a virtual service of its name gets just
  these names and its own, and whatever hosts its author wrote are gone. A second run changes nothing. Once the service is gone a
  run does nothing at all, whatever entry it left.\<close>

theorem Reconcile_service_names:
  assumes "quiet env" "mx_istio env" "\<not> has_prefix (fst key) ''kube''"
    and "map_of (mh_services w) key = Some svc" "\<not> sv_deleting svc" "sv_ClusterIP svc \<notin> {[], ''None''}"
    and "map_of (mh_namespaces w) (fst key) = Some ns" "isManagerdNamespace ns"
  shows "\<exists>w'. let hosts = (\<lambda>d. snd key @ ''.'' @ d) ` (domains_of (ms_annotations ns) \<union> domains_of (sv_annotations svc)) in
    Reconcile_service env key w = (w', MeshDone) \<and> Reconcile_service env key w' = (w', MeshDone) \<and>
    (\<forall>k. map_of (mh_entries w') k = (if k \<noteq> key then map_of (mh_entries w) k
       else if hosts = {} then None else Some (entry_for env key svc (sorted_list_of_set hosts)))) \<and>
    (\<forall>k. map_of (mh_virtuals w') k = (if k \<noteq> key then map_of (mh_virtuals w) k
       else map_option (\<lambda>_. sorted_list_of_set (insert (snd key) hosts)) (map_of (mh_virtuals w) key))) \<and>
    mh_services w' = mh_services w \<and> mh_namespaces w' = mh_namespaces w \<and> mh_sidecars w' = mh_sidecars w \<and>
    (\<forall>w2. map_of (mh_services w2) key = None \<longrightarrow> fst (Reconcile_service env key w2) = w2)"
proof -
  let ?h = "service_hosts (snd key) ns svc"
  define entry where "entry = (if ?h = [] then None else Some (entry_for env key svc (Set_Slice ?h)))"
  have quiet: "\<not> mx_fails env v k x" for v k x using assms(1) by (simp add: quiet_def)
  have slice: "Set_Slice ?h = sorted_list_of_set (set ?h)" by (rule Slice_canonical [OF service_hosts_facts(2)])
  define next_world where "next_world = (\<lambda>w :: mesh_world. w\<lparr>mh_virtuals := put key (renamed (snd key) ?h (map_of (mh_virtuals w) key)) (mh_virtuals w),
    mh_entries := put key entry (mh_entries w)\<rparr>)"
  have run: "Reconcile_service env key v = (next_world v, MeshDone)"
    if "map_of (mh_services v) key = Some svc" "map_of (mh_namespaces v) (fst key) = Some ns" for v
    using that assms(2,3,5,6,8) quiet
    by (simp add: Reconcile_service_def OnChange_service_def api_get_def virtual_quiet [OF assms(1)] ensure_entry_quiet [OF assms(1)]
        OnRemove_quiet [OF assms(1)] next_world_def entry_def renamed_def Let_def del: map_of_eq_Some_iff)
  have again: "next_world (next_world w) = next_world w"
    by (cases "map_of (mh_virtuals w) key")
      (simp_all add: next_world_def put_id renamed_def option.map_comp comp_def del: map_of_eq_Some_iff map_of_eq_None_iff)
  have "Reconcile_service env key (next_world w) = (next_world w, MeshDone)"
    using run [of "next_world w"] assms(4,7) again by (simp add: next_world_def del: map_of_eq_Some_iff)
  moreover have "fst (Reconcile_service env key w2) = w2" if "map_of (mh_services w2) key = None" for w2
    using that quiet by (simp add: Reconcile_service_def api_get_def del: map_of_eq_None_iff)
  ultimately show ?thesis
    using run [OF assms(4,7)] service_hosts_facts(1) [of "snd key" ns svc] slice
    by (intro exI [of _ "next_world w"])
      (auto simp: Let_def next_world_def entry_def renamed_def simp del: map_of_eq_Some_iff map_of_eq_None_iff)
qed

text \<open>Three namespaces of a space, one of which has left it and one of which is in another, and a service.\<close>

definition ex_mesh_ns :: "labels \<Rightarrow> mesh_ns" where
  "ex_mesh_ns anns = \<lparr>ms_labels = Some [], ms_annotations = anns, ms_deleting = False\<rparr>"

definition ex_mesh_service :: mesh_service where
  "ex_mesh_service = \<lparr>sv_ClusterIP = ''10.0.0.1'', sv_Ports = [\<lparr>sp_Name = ''http'', sp_Port = 80, sp_Protocol = ''TCP'', sp_AppProtocol = None\<rparr>],
     sv_annotations = [(AnnotationVirtualDomain, ''b.io,'')], sv_deleting = False\<rparr>"

definition ex_mesh_world :: mesh_world where
  "ex_mesh_world = \<lparr>mh_namespaces = [(''a'', ex_mesh_ns [(AnnotationVirtualSpace, ''s,t''), (AnnotationVirtualDomain, ''x.io'')]),
       (''b'', ex_mesh_ns [(AnnotationVirtualSpace, ''t'')]), (''c'', ex_mesh_ns [])],
     mh_sidecars = [(''c'', [[''./*'', ''a/*'']])], mh_services = [((''a'', ''web''), ex_mesh_service)], mh_entries = [],
     mh_virtuals = [((''a'', ''web''), [''mine.io''])]\<rparr>"

definition ex_mesh_env :: mesh_env where
  "ex_mesh_env = \<lparr>mx_istio = True, mx_fails = (\<lambda>_ _ _. False), mx_protocol = (\<lambda>p. if sp_Name p = ''http'' then Some ''HTTP'' else None)\<rparr>"

theorem Reconcile_space_joins_witness:
  "\<exists>w'. Reconcile_space ex_mesh_env ''c'' ex_mesh_world = (w', MeshDone) \<and> Reconcile_space ex_mesh_env ''c'' w' = (w', MeshDone) \<and>
     map_of (mh_sidecars w') ''a'' = Some [[''./*'', ''b/*'']] \<and> map_of (mh_sidecars w') ''b'' = Some [[''./*'', ''a/*'']] \<and>
     map_of (mh_sidecars w') ''c'' = Some [[''./*'', ''a/*'']]"
proof -
  have pre: "quiet ex_mesh_env" "mx_istio ex_mesh_env" "labelled (mh_namespaces ex_mesh_world)"
    "map_of (mh_namespaces ex_mesh_world) ''c'' = Some (ex_mesh_ns [])" "\<not> ms_deleting (ex_mesh_ns [])"
    by (simp_all add: quiet_def ex_mesh_env_def labelled_def ex_mesh_world_def ex_mesh_ns_def)
  have run: "map_of (mh_sidecars (fst (Reconcile_space ex_mesh_env ''c'' ex_mesh_world))) ''a'' = Some [[''./*'', ''b/*'']]"
    "map_of (mh_sidecars (fst (Reconcile_space ex_mesh_env ''c'' ex_mesh_world))) ''b'' = Some [[''./*'', ''a/*'']]"
    "map_of (mh_sidecars (fst (Reconcile_space ex_mesh_env ''c'' ex_mesh_world))) ''c'' = Some [[''./*'', ''a/*'']]"
    by code_simp+
  from Reconcile_space_joins [OF pre] obtain w' where w': "Reconcile_space ex_mesh_env ''c'' ex_mesh_world = (w', MeshDone)"
    "Reconcile_space ex_mesh_env ''c'' w' = (w', MeshDone)" by blast
  then show ?thesis using run unfolding w'(1) fst_conv by blast
qed

theorem Reconcile_service_names_witness:
  "\<exists>w'. Reconcile_service ex_mesh_env (''a'', ''web'') ex_mesh_world = (w', MeshDone) \<and>
     Reconcile_service ex_mesh_env (''a'', ''web'') w' = (w', MeshDone) \<and>
     map_option sn_Hosts (map_of (mh_entries w') (''a'', ''web'')) = Some [''web.b.io'', ''web.x.io''] \<and>
     map_of (mh_virtuals w') (''a'', ''web'') = Some [''web'', ''web.b.io'', ''web.x.io'']"
proof -
  have pre: "quiet ex_mesh_env" "mx_istio ex_mesh_env" "\<not> has_prefix (fst (''a'', ''web'')) ''kube''"
    "map_of (mh_services ex_mesh_world) (''a'', ''web'') = Some ex_mesh_service" "\<not> sv_deleting ex_mesh_service"
    "sv_ClusterIP ex_mesh_service \<notin> {[], ''None''}"
    "map_of (mh_namespaces ex_mesh_world) (fst (''a'', ''web'')) =
       Some (ex_mesh_ns [(AnnotationVirtualSpace, ''s,t''), (AnnotationVirtualDomain, ''x.io'')])"
    "isManagerdNamespace (ex_mesh_ns [(AnnotationVirtualSpace, ''s,t''), (AnnotationVirtualDomain, ''x.io'')])"
    by (simp_all add: quiet_def ex_mesh_env_def ex_mesh_world_def ex_mesh_service_def ex_mesh_ns_def has_prefix_def isManagerdNamespace_def)
  have run: "map_option sn_Hosts (map_of (mh_entries (fst (Reconcile_service ex_mesh_env (''a'', ''web'') ex_mesh_world))) (''a'', ''web''))
      = Some [''web.b.io'', ''web.x.io'']"
    "map_of (mh_virtuals (fst (Reconcile_service ex_mesh_env (''a'', ''web'') ex_mesh_world))) (''a'', ''web'')
      = Some [''web'', ''web.b.io'', ''web.x.io'']"
    by code_simp+
  from Reconcile_service_names [OF pre] obtain w' where w': "Reconcile_service ex_mesh_env (''a'', ''web'') ex_mesh_world = (w', MeshDone)"
    "Reconcile_service ex_mesh_env (''a'', ''web'') w' = (w', MeshDone)" unfolding Let_def by blast
  then show ?thesis using run unfolding w'(1) fst_conv by blast
qed

section \<open>The flags\<close>

text \<open>Seeing that a definition is being deleted does not disable its component: the same call enables it again.\<close>

theorem flags_stay: "ComponentEnabled p c \<Longrightarrow> ComponentEnabled (foldl (\<lambda>p got. Reconcile_crd got p) p gots) c"
proof (induction gots arbitrary: p)
  case (Cons got gots)
  have "ComponentEnabled (Reconcile_crd got p) c"
    using Cons.prems by (cases c) (auto simp: Reconcile_crd_def OnChange_crd_def Let_def split: option.split)
  then show ?case using Cons.IH by simp
qed simp

end
