(* ===== verification/Tenant_Sync.thy ===== *)
theory Tenant_Sync
  imports Environment_Sync
begin

text \<open>
  The controller of tenants (\<open>pkg/controller/controllers/tenant_controller.go\<close>): every tenant gets a
  resource quota and a network policy, its finalizers and the list of its environments; when it goes,
  they are to go as well. The handlers of \<open>pkg/controller/handler\<close> say which tenants an event queues.

  As in \<open>Environment_Sync\<close>, any request may fail (\<open>fl\<close>), and \<open>setref\<close> is
  \<open>controllerutil.SetControllerReference\<close>. What the API server stores of an update is \<open>keep\<close>: the
  stored and the sent object.
\<close>

section \<open>Objects\<close>

record 'spec child =
  ch_labels :: labels
  ch_owners :: owners
  ch_deleting :: bool
  ch_spec :: 'spec

record tenant_env =
  te_labels :: labels
  te_namespace :: string
  te_deleting :: bool

record tenant_object =
  to_name :: string
  to_tenant :: string
  to_deleting :: bool
  to_finalizers :: "string list"
  to_environments :: "string list"
  to_namespaces :: "string list"

record tenant_cluster =
  tc_tenants :: "(string, tenant_object) gomap"
  tc_quotas :: "(string, resource_list child) gomap"
  tc_netpols :: "(string, net_spec child) gomap"
  tc_envs :: "(string, tenant_env) gomap"
  tc_gateways :: "(string, tenant_env) gomap"

definition FinalizerEnvironment :: string where "FinalizerEnvironment = ''finalizer.gems.kubegems.io/environment''"
definition FinalizerResourceQuota :: string where "FinalizerResourceQuota = ''finalizer.gems.kubegems.io/resourcequota''"
definition FinalizerGateway :: string where "FinalizerGateway = ''finalizer.gems.kubegems.io/gateway''"

text \<open>\<open>metav1.NewControllerRef\<close> of the tenant.\<close>

definition tenant_ref :: "tenant_object \<Rightarrow> owner_ref" where
  "tenant_ref t = (''gems.kubegems.io/v1beta1'', ''Tenant'', to_name t)"

section \<open>The quota and the policy of a tenant\<close>

definition update_child ::
  "('s child \<Rightarrow> 's child \<Rightarrow> 's child) \<Rightarrow> bool \<Rightarrow> string \<Rightarrow> 's child \<Rightarrow> (string, 's child) gomap \<Rightarrow> (string, 's child) gomap" where
  "update_child keep fails key ch store =
     (case map_of store key of
        None \<Rightarrow> store
      | Some old \<Rightarrow> fst (api_update fails key (keep old ch) store))"

definition refresh_child ::
  "('s child \<Rightarrow> 's child \<Rightarrow> 's child) \<Rightarrow> bool \<Rightarrow> (owners \<Rightarrow> owners option) \<Rightarrow> owner_ref \<Rightarrow> labels \<Rightarrow> string \<Rightarrow> 's child
    \<Rightarrow> (string, 's child) gomap \<Rightarrow> (string, 's child) gomap" where
  "refresh_child keep fails setref owner nlabels key ch store =
     (let (ch, changed) = (if \<not> ExistOwnerRef (map fst (ch_owners ch)) owner
             then (case setref (ch_owners ch) of None \<Rightarrow> ch | Some os \<Rightarrow> ch\<lparr>ch_owners := os\<rparr>, True) else (ch, False));
          (ch, changed) = (if LabelChanged (ch_labels ch) nlabels
             then (ch\<lparr>ch_labels := labels_Merge (ch_labels ch) nlabels\<rparr>, True) else (ch, changed))
      in if changed then update_child keep fails key ch store else store)"

definition new_child :: "(owners \<Rightarrow> owners option) \<Rightarrow> labels \<Rightarrow> 's \<Rightarrow> 's child" where
  "new_child setref nlabels spec =
     \<lparr>ch_labels = labels_Merge [] nlabels, ch_owners = (case setref [] of None \<Rightarrow> [] | Some os \<Rightarrow> os),
      ch_deleting = False, ch_spec = spec\<rparr>"

definition ensure_child ::
  "('s child \<Rightarrow> 's child \<Rightarrow> 's child) \<Rightarrow> (verb \<Rightarrow> string \<Rightarrow> bool) \<Rightarrow> (owners \<Rightarrow> owners option) \<Rightarrow> owner_ref
    \<Rightarrow> labels \<Rightarrow> string \<Rightarrow> string \<Rightarrow> 's \<Rightarrow> (string, 's child) gomap \<Rightarrow> (string, 's child) gomap" where
  "ensure_child keep fl setref owner nlabels key name spec store =
     (case api_get (fl VGet key) key store of
        Failed e \<Rightarrow> store
      | Found ch \<Rightarrow> refresh_child keep (fl VUpdate key) setref owner nlabels key ch store
      | NotFound \<Rightarrow>
          (let ch = new_child setref nlabels spec;
               (store, ok) = api_create (fl VCreate name) name ch store
           in if \<not> ok then store else refresh_child keep (fl VUpdate name) setref owner nlabels name ch store))"

definition handleTenantResourceQuota ::
  "(resource_list child \<Rightarrow> resource_list child \<Rightarrow> resource_list child) \<Rightarrow> faults \<Rightarrow> (owners \<Rightarrow> owners option) \<Rightarrow> tenant_object
    \<Rightarrow> (string, resource_list child) gomap \<Rightarrow> (string, resource_list child) gomap" where
  "handleTenantResourceQuota keep fl setref tenant =
     ensure_child keep (\<lambda>v. fl v ''TenantResourceQuota'') setref (tenant_ref tenant) [(LabelTenant, to_tenant tenant)]
       (to_tenant tenant) (to_name tenant) GetDefaultTeantResourceQuota"

definition handleTenantNetworkPolicy ::
  "(net_spec child \<Rightarrow> net_spec child \<Rightarrow> net_spec child) \<Rightarrow> faults \<Rightarrow> (owners \<Rightarrow> owners option) \<Rightarrow> tenant_object
    \<Rightarrow> (string, net_spec child) gomap \<Rightarrow> (string, net_spec child) gomap" where
  "handleTenantNetworkPolicy keep fl setref tenant =
     ensure_child keep (\<lambda>v. fl v ''TenantNetworkPolicy'') setref (tenant_ref tenant) [(LabelTenant, to_name tenant)]
       (to_name tenant) (to_name tenant)
       \<lparr>ns_tenant = to_name tenant, ns_isolated = False, ns_projects = [], ns_environments = []\<rparr>"

section \<open>The status of a tenant\<close>

definition tenant_envs :: "string \<Rightarrow> (string, tenant_env) gomap \<Rightarrow> (string, tenant_env) gomap" where
  "tenant_envs t envs = filter (\<lambda>(_, e). matching_labels [(LabelTenant, t)] (te_labels e)) envs"

text \<open>The tenant with its new status, if the status changed.\<close>

definition handleTenantStatus :: "faults \<Rightarrow> tenant_object \<Rightarrow> (string, tenant_env) gomap \<Rightarrow> tenant_object option" where
  "handleTenantStatus fl tenant envs =
     (if fl VList ''Environment'' [] then None
      else let items = tenant_envs (to_tenant tenant) envs;
               envNames = map fst items;
               namespaces = map (te_namespace \<circ> snd) items
           in if StringArrayEqual (to_environments tenant) envNames \<and> StringArrayEqual (to_namespaces tenant) namespaces
              then None
              else Some (tenant\<lparr>to_environments := envNames, to_namespaces := namespaces\<rparr>))"

section \<open>Deletion\<close>

text \<open>\<open>DeleteAllOf\<close> asks for the deletion of every object with a label.\<close>

definition delete_all_of :: "bool \<Rightarrow> string \<Rightarrow> (string, tenant_env) gomap \<Rightarrow> (string, tenant_env) gomap" where
  "delete_all_of fails t objs =
     (if fails then objs
      else map (\<lambda>(n, e). (n, if matching_labels [(LabelTenant, t)] (te_labels e) then e\<lparr>te_deleting := True\<rparr> else e)) objs)"

text \<open>\<open>SetOwnerReferences(nil)\<close>, \<open>SetDeletionTimestamp\<close> and an update whose result is ignored.\<close>

definition orphan_child ::
  "('s child \<Rightarrow> 's child \<Rightarrow> 's child) \<Rightarrow> (verb \<Rightarrow> string \<Rightarrow> bool) \<Rightarrow> string \<Rightarrow> (string, 's child) gomap \<Rightarrow> (string, 's child) gomap" where
  "orphan_child keep fl key store =
     (case api_get (fl VGet key) key store of
        Found ch \<Rightarrow> update_child keep (fl VUpdate key) key (ch\<lparr>ch_owners := [], ch_deleting := True\<rparr>) store
      | _ \<Rightarrow> store)"

record keeps =
  keep_quota :: "resource_list child \<Rightarrow> resource_list child \<Rightarrow> resource_list child"
  keep_netpol :: "net_spec child \<Rightarrow> net_spec child \<Rightarrow> net_spec child"

definition has_finalizer :: "tenant_object \<Rightarrow> string \<Rightarrow> bool" where
  "has_finalizer t f \<longleftrightarrow> f \<in> set (to_finalizers t)"

definition remove_finalizer :: "string \<Rightarrow> tenant_object \<Rightarrow> tenant_object" where
  "remove_finalizer f t = t\<lparr>to_finalizers := removeAll f (to_finalizers t)\<rparr>"

definition delete_tenant :: "keeps \<Rightarrow> faults \<Rightarrow> string \<Rightarrow> tenant_object \<Rightarrow> tenant_cluster \<Rightarrow> tenant_cluster" where
  "delete_tenant ks fl name tenant c =
     (let t = to_tenant tenant;
          (tenant, c) = (if has_finalizer tenant FinalizerEnvironment
             then (remove_finalizer FinalizerEnvironment tenant,
                   c\<lparr>tc_envs := delete_all_of (fl VDelete ''Environment'' []) t (tc_envs c)\<rparr>) else (tenant, c));
          (tenant, c) = (if has_finalizer tenant FinalizerResourceQuota
             then (remove_finalizer FinalizerResourceQuota tenant,
                   c\<lparr>tc_quotas := orphan_child (keep_quota ks) (\<lambda>v. fl v ''TenantResourceQuota'') t (tc_quotas c)\<rparr>) else (tenant, c));
          (tenant, c) = (if has_finalizer tenant FinalizerNetworkPolicy
             then (remove_finalizer FinalizerNetworkPolicy tenant,
                   c\<lparr>tc_netpols := orphan_child (keep_netpol ks) (\<lambda>v. fl v ''TenantNetworkPolicy'') t (tc_netpols c)\<rparr>) else (tenant, c));
          (tenant, c) = (if has_finalizer tenant FinalizerGateway
             then (remove_finalizer FinalizerGateway tenant,
                   c\<lparr>tc_gateways := delete_all_of (fl VDelete ''TenantGateway'' []) t (tc_gateways c)\<rparr>) else (tenant, c))
      in c\<lparr>tc_tenants := fst (api_update (fl VUpdate ''Tenant'' name) name tenant (tc_tenants c))\<rparr>)"

section \<open>Reconciliation\<close>

definition add_finalizer :: "string \<Rightarrow> tenant_object \<times> bool \<Rightarrow> tenant_object \<times> bool" where
  "add_finalizer f tc =
     (if \<not> has_finalizer (fst tc) f then ((fst tc)\<lparr>to_finalizers := to_finalizers (fst tc) @ [f]\<rparr>, True) else tc)"

definition sync_tenant ::
  "keeps \<Rightarrow> faults \<Rightarrow> (owners \<Rightarrow> owners option) \<Rightarrow> string \<Rightarrow> tenant_object \<Rightarrow> tenant_cluster \<Rightarrow> tenant_cluster \<times> reconcile_result" where
  "sync_tenant ks fl setref name tenant c =
     (let c = c\<lparr>tc_quotas := handleTenantResourceQuota (keep_quota ks) fl setref tenant (tc_quotas c)\<rparr>;
          (tenant, changed) = add_finalizer FinalizerResourceQuota (tenant, False);
          c = c\<lparr>tc_netpols := handleTenantNetworkPolicy (keep_netpol ks) fl setref tenant (tc_netpols c)\<rparr>;
          (tenant, changed) = add_finalizer FinalizerNetworkPolicy (tenant, changed);
          (tenant, changed) = add_finalizer FinalizerEnvironment (tenant, changed);
          (tenant, changed) = add_finalizer FinalizerGateway (tenant, changed);
          (tenants, ok) = (if changed then api_update (fl VUpdate ''Tenant'' name) name tenant (tc_tenants c)
             else (tc_tenants c, True));
          c = c\<lparr>tc_tenants := tenants\<rparr>
      in if \<not> ok then (c, Requeue)
         else case handleTenantStatus fl tenant (tc_envs c) of
                None \<Rightarrow> (c, Done)
              | Some tenant \<Rightarrow>
                  (let (tenants, ok) = api_update (fl VUpdate ''TenantStatus'' name) name tenant (tc_tenants c);
                       c = c\<lparr>tc_tenants := tenants\<rparr>
                   in (c, if \<not> ok then Requeue else Done)))"

definition Reconcile_tenant ::
  "keeps \<Rightarrow> faults \<Rightarrow> (owners \<Rightarrow> owners option) \<Rightarrow> string \<Rightarrow> tenant_cluster \<Rightarrow> tenant_cluster \<times> reconcile_result" where
  "Reconcile_tenant ks fl setref name c =
     (case api_get (fl VGet ''Tenant'' name) name (tc_tenants c) of
        Found tenant \<Rightarrow>
          (if to_deleting tenant then (delete_tenant ks fl name tenant c, Done)
           else sync_tenant ks fl setref name tenant c)
      | _ \<Rightarrow> (c, Done))"

section \<open>Events\<close>

text \<open>The tenants an event on an environment queues: its old and new object where it has them.\<close>

datatype 'o object_event = Created 'o | Updated 'o 'o | Removed 'o

fun EnvironmentHandler :: "environment object_event \<Rightarrow> string list" where
  "EnvironmentHandler (Created env) = [env_tenant env]"
| "EnvironmentHandler (Updated old new) =
     (if env_tenant new = env_tenant old \<and> env_namespace new = env_namespace old then []
      else [env_tenant new, env_tenant old])"
| "EnvironmentHandler (Removed env) = [env_tenant env]"

definition requeue_tenant :: "labels \<Rightarrow> string list" where
  "requeue_tenant ls = (case map_of ls LabelTenant of None \<Rightarrow> [] | Some t \<Rightarrow> [t])"

text \<open>The objects carry their labels and whether their status is equal is the parameter.\<close>

fun TenantResourceQuotaHandler :: "('o \<Rightarrow> labels) \<Rightarrow> ('o \<Rightarrow> 'o \<Rightarrow> bool) \<Rightarrow> 'o object_event \<Rightarrow> string list" where
  "TenantResourceQuotaHandler labels same_status (Created q) = requeue_tenant (labels q)"
| "TenantResourceQuotaHandler labels same_status (Updated old new) =
     (if \<not> same_status new old then requeue_tenant (labels new) else [])"
| "TenantResourceQuotaHandler labels same_status (Removed q) = requeue_tenant (labels q)"

text \<open>A node queues every network policy when it comes or goes.\<close>

fun NodeHandler :: "string + string list \<Rightarrow> 'o object_event \<Rightarrow> string list" where
  "NodeHandler policies (Updated old new) = []"
| "NodeHandler (Inl e) _ = []"
| "NodeHandler (Inr names) _ = names"

section \<open>Deletion of a tenant\<close>

text \<open>The API server sets the deletion timestamp itself; what an update says of it is dropped.\<close>

definition server_keeps :: "('s child \<Rightarrow> 's child \<Rightarrow> 's child) \<Rightarrow> bool" where
  "server_keeps keep \<longleftrightarrow> (\<forall>old ch. keep old ch = ch\<lparr>ch_deleting := ch_deleting old\<rparr>)"

lemma orphan_child_at:
  assumes "server_keeps keep"
  shows "map_of (orphan_child keep fl key store) n =
    (if n = key \<and> \<not> fl VGet key \<and> \<not> fl VUpdate key then map_option (\<lambda>ch. ch\<lparr>ch_owners := []\<rparr>) (map_of store n)
     else map_of store n)"
proof -
  have k: "keep ch (ch\<lparr>ch_owners := [], ch_deleting := True\<rparr>) = ch\<lparr>ch_owners := []\<rparr>" for ch
    using assms by (simp add: server_keeps_def)
  show ?thesis
    by (cases "map_of store key")
       (auto simp: orphan_child_def api_get_def update_child_def api_update_def k simp del: map_of_eq_Some_iff)
qed

lemma delete_all_of_at:
  "map_of (delete_all_of fails t objs) n =
    map_option (\<lambda>e. if \<not> fails \<and> map_of (te_labels e) LabelTenant = Some t then e\<lparr>te_deleting := True\<rparr> else e)
      (map_of objs n)"
proof -
  have "map_of (map (\<lambda>(n, e). (n, g e)) objs) n = map_option g (map_of objs n)" for g :: "tenant_env \<Rightarrow> tenant_env"
    by (induction objs) auto
  then show ?thesis
    by (cases fails) (simp_all add: delete_all_of_def matching_labels_def option.map_id0 option.map_ident)
qed

abbreviation tenant_finalizers :: "string set" where
  "tenant_finalizers \<equiv> {FinalizerEnvironment, FinalizerResourceQuota, FinalizerNetworkPolicy, FinalizerGateway}"

lemma has_remove [simp]: "has_finalizer (remove_finalizer f t) g \<longleftrightarrow> g \<noteq> f \<and> has_finalizer t g"
  by (auto simp: has_finalizer_def remove_finalizer_def)

lemma finalizers_differ [simp]:
  "FinalizerEnvironment \<noteq> FinalizerResourceQuota" "FinalizerEnvironment \<noteq> FinalizerNetworkPolicy"
  "FinalizerEnvironment \<noteq> FinalizerGateway" "FinalizerResourceQuota \<noteq> FinalizerNetworkPolicy"
  "FinalizerResourceQuota \<noteq> FinalizerGateway" "FinalizerNetworkPolicy \<noteq> FinalizerGateway"
  by (simp_all add: FinalizerEnvironment_def FinalizerResourceQuota_def FinalizerNetworkPolicy_def FinalizerGateway_def)

lemma delete_tenant_parts:
  assumes "\<forall>f \<in> tenant_finalizers. has_finalizer t f"
  shows "tc_envs (delete_tenant ks fl name t c) = delete_all_of (fl VDelete ''Environment'' []) (to_tenant t) (tc_envs c)"
    and "tc_quotas (delete_tenant ks fl name t c) =
      orphan_child (keep_quota ks) (\<lambda>v. fl v ''TenantResourceQuota'') (to_tenant t) (tc_quotas c)"
    and "tc_netpols (delete_tenant ks fl name t c) =
      orphan_child (keep_netpol ks) (\<lambda>v. fl v ''TenantNetworkPolicy'') (to_tenant t) (tc_netpols c)"
    and "tc_gateways (delete_tenant ks fl name t c) = delete_all_of (fl VDelete ''TenantGateway'' []) (to_tenant t) (tc_gateways c)"
    and "tc_tenants (delete_tenant ks fl name t c) = fst (api_update (fl VUpdate ''Tenant'' name) name
      (remove_finalizer FinalizerGateway (remove_finalizer FinalizerNetworkPolicy
        (remove_finalizer FinalizerResourceQuota (remove_finalizer FinalizerEnvironment t)))) (tc_tenants c))"
  using assms finalizers_differ finalizers_differ [symmetric]
  by (simp_all add: delete_tenant_def Let_def)

text \<open>A run for a tenant that is being deleted takes all its finalizers off, also when the deletion of
  its environments failed, so the tenant can go while they stay. Its quota and its network policy are not
  deleted: the code sets their deletion timestamps by an update, which the API server drops, and takes
  away their owners, by which they would have been collected.\<close>

theorem Reconcile_deleted_tenant:
  assumes "map_of (tc_tenants c) name = Some t" and "to_deleting t"
    and "\<not> fl VGet ''Tenant'' name" and "\<not> fl VUpdate ''Tenant'' name"
    and "\<forall>f \<in> tenant_finalizers. has_finalizer t f"
    and "server_keeps (keep_quota ks)" and "server_keeps (keep_netpol ks)"
  shows "let (c', r) = Reconcile_tenant ks fl setref name c; tn = to_tenant t in
    r = Done \<and>
    (\<exists>t'. map_of (tc_tenants c') name = Some t' \<and> (\<forall>f \<in> tenant_finalizers. \<not> has_finalizer t' f)) \<and>
    (\<forall>n. map_of (tc_envs c') n = map_option
       (\<lambda>e. if \<not> fl VDelete ''Environment'' [] \<and> map_of (te_labels e) LabelTenant = Some tn then e\<lparr>te_deleting := True\<rparr> else e)
       (map_of (tc_envs c) n)) \<and>
    (\<forall>n. map_of (tc_quotas c') n = (if n = tn \<and> \<not> fl VGet ''TenantResourceQuota'' tn \<and> \<not> fl VUpdate ''TenantResourceQuota'' tn
       then map_option (\<lambda>q. q\<lparr>ch_owners := []\<rparr>) (map_of (tc_quotas c) n) else map_of (tc_quotas c) n)) \<and>
    (\<forall>n. map_of (tc_netpols c') n = (if n = tn \<and> \<not> fl VGet ''TenantNetworkPolicy'' tn \<and> \<not> fl VUpdate ''TenantNetworkPolicy'' tn
       then map_option (\<lambda>q. q\<lparr>ch_owners := []\<rparr>) (map_of (tc_netpols c) n) else map_of (tc_netpols c) n))"
proof -
  have run: "Reconcile_tenant ks fl setref name c = (delete_tenant ks fl name t c, Done)"
    using assms(1-3) by (simp add: Reconcile_tenant_def api_get_def del: map_of_eq_Some_iff)
  note parts = delete_tenant_parts [OF assms(5), of ks fl name c]
  let ?t = "remove_finalizer FinalizerGateway (remove_finalizer FinalizerNetworkPolicy
      (remove_finalizer FinalizerResourceQuota (remove_finalizer FinalizerEnvironment t)))"
  have "map_of (tc_tenants (delete_tenant ks fl name t c)) name = Some ?t"
    using assms(1,4) by (simp add: parts api_update_at del: map_of_eq_Some_iff)
  moreover have "\<forall>f \<in> tenant_finalizers. \<not> has_finalizer ?t f" by simp
  ultimately have "\<exists>t'. map_of (tc_tenants (delete_tenant ks fl name t c)) name = Some t' \<and>
      (\<forall>f \<in> tenant_finalizers. \<not> has_finalizer t' f)" by blast
  then show ?thesis
    unfolding run by (simp add: parts orphan_child_at [OF assms(6)] orphan_child_at [OF assms(7)] delete_all_of_at)
qed

text \<open>A tenant with a quota and an environment; the deletion of environments fails.\<close>

definition ex_tenant :: tenant_object where
  "ex_tenant = \<lparr>to_name = ''t'', to_tenant = ''t'', to_deleting = True,
     to_finalizers = [FinalizerEnvironment, FinalizerResourceQuota, FinalizerNetworkPolicy, FinalizerGateway],
     to_environments = [''dev''], to_namespaces = [''ns'']\<rparr>"

definition ex_quota :: "resource_list child" where
  "ex_quota = \<lparr>ch_labels = [(LabelTenant, ''t'')], ch_owners = [(tenant_ref ex_tenant, True)], ch_deleting = False, ch_spec = []\<rparr>"

definition ex_tenant_cluster :: tenant_cluster where
  "ex_tenant_cluster = \<lparr>tc_tenants = [(''t'', ex_tenant)], tc_quotas = [(''t'', ex_quota)], tc_netpols = [],
     tc_envs = [(''dev'', \<lparr>te_labels = [(LabelTenant, ''t'')], te_namespace = ''ns'', te_deleting = False\<rparr>)], tc_gateways = []\<rparr>"

definition ex_keeps :: keeps where
  "ex_keeps = \<lparr>keep_quota = (\<lambda>old ch. ch\<lparr>ch_deleting := ch_deleting old\<rparr>),
     keep_netpol = (\<lambda>old ch. ch\<lparr>ch_deleting := ch_deleting old\<rparr>)\<rparr>"

theorem Reconcile_deleted_tenant_witness:
  "let c' = fst (Reconcile_tenant ex_keeps (\<lambda>v k n. v = VDelete) ex_setref ''t'' ex_tenant_cluster) in
   (\<exists>t'. map_of (tc_tenants c') ''t'' = Some t' \<and> (\<forall>f \<in> tenant_finalizers. \<not> has_finalizer t' f)) \<and>
   map_of (tc_envs c') ''dev'' = map_of (tc_envs ex_tenant_cluster) ''dev'' \<and>
   map_of (tc_quotas c') ''t'' = Some (ex_quota\<lparr>ch_owners := []\<rparr>)"
proof -
  have pre: "map_of (tc_tenants ex_tenant_cluster) ''t'' = Some ex_tenant" "to_deleting ex_tenant"
    "\<not> (\<lambda>v k n. v = VDelete) VGet ''Tenant'' ''t''" "\<not> (\<lambda>v k n. v = VDelete) VUpdate ''Tenant'' ''t''"
    "\<forall>f \<in> tenant_finalizers. has_finalizer ex_tenant f"
    "server_keeps (keep_quota ex_keeps)" "server_keeps (keep_netpol ex_keeps)"
    by (simp_all add: ex_tenant_cluster_def ex_tenant_def has_finalizer_def ex_keeps_def server_keeps_def)
  have t: "to_tenant ex_tenant = ''t''" by (simp add: ex_tenant_def)
  have q: "map_of (tc_quotas ex_tenant_cluster) ''t'' = Some ex_quota" by (simp add: ex_tenant_cluster_def)
  have e: "map_of (tc_envs ex_tenant_cluster) ''dev'' \<noteq> None" by (simp add: ex_tenant_cluster_def)
  show ?thesis
    using Reconcile_deleted_tenant [OF pre, of ex_setref] q e
    by (auto simp: t Let_def case_prod_unfold option.map_id0 option.map_ident)
qed

section \<open>A living tenant\<close>

definition owns :: "(owners \<Rightarrow> owners option) \<Rightarrow> owner_ref \<Rightarrow> bool" where
  "owns setref owner \<longleftrightarrow> (\<forall>os. \<exists>os'. setref os = Some os' \<and> ExistOwnerRef (map fst os') owner)"

definition settled_child :: "owner_ref \<Rightarrow> labels \<Rightarrow> 's child \<Rightarrow> bool" where
  "settled_child owner l ch \<longleftrightarrow> ExistOwnerRef (map fst (ch_owners ch)) owner \<and> matching_labels l (ch_labels ch)"

lemma refresh_settled:
  "settled_child owner l ch \<Longrightarrow> l \<noteq> [] \<Longrightarrow> refresh_child keep fails setref owner l key ch store = store"
  by (simp add: refresh_child_def settled_child_def LabelChanged_matching)

lemma refresh_settles:
  assumes "owns setref owner" and "server_keeps keep" and "map_of store key = Some ch" and "wf_map l" and "l \<noteq> []"
  shows "\<exists>ch'. map_of (refresh_child keep False setref owner l key ch store) key = Some ch' \<and> settled_child owner l ch' \<and>
    ch_spec ch' = ch_spec ch"
proof -
  obtain os where os: "setref (ch_owners ch) = Some os" "ExistOwnerRef (map fst os) owner"
    using assms(1) unfolding owns_def by blast
  show ?thesis
    using assms(2-5) os
    by (auto simp: refresh_child_def settled_child_def update_child_def server_keeps_def api_update_at
        LabelChanged_matching matching_Merge simp del: map_of_eq_Some_iff)
qed

lemma refresh_other: "n \<noteq> key \<Longrightarrow> map_of (refresh_child keep fails setref owner l key ch store) n = map_of store n"
  by (auto simp: refresh_child_def update_child_def api_update_at Let_def case_prod_unfold split: option.split)

lemma ensure_settles:
  assumes "owns setref owner" and "server_keeps keep" and "wf_map l" and "l \<noteq> []"
  shows "\<exists>ch. map_of (ensure_child keep (\<lambda>_ _. False) setref owner l key key spec store) key = Some ch \<and>
    settled_child owner l ch \<and> ch_spec ch = (case map_of store key of None \<Rightarrow> spec | Some old \<Rightarrow> ch_spec old)"
proof (cases "map_of store key")
  case None
  have "map_of (AList.update key (new_child setref l spec) store) key = Some (new_child setref l spec)" by simp
  from refresh_settles [OF assms(1,2) this assms(3,4)] None show ?thesis
    by (simp add: ensure_child_def api_get_def api_create_def new_child_def Let_def)
next
  case (Some ch)
  from refresh_settles [OF assms(1,2) Some assms(3,4)] Some show ?thesis
    by (simp add: ensure_child_def api_get_def del: map_of_eq_Some_iff)
qed

lemma ensure_fixed:
  assumes "map_of store key = Some ch" and "settled_child owner l ch" and "l \<noteq> []"
  shows "ensure_child keep (\<lambda>_ _. False) setref owner l key key spec store = store"
  using assms by (simp add: ensure_child_def api_get_def refresh_settled del: map_of_eq_Some_iff)

definition owned_child ::
  "('s child \<Rightarrow> 's child \<Rightarrow> 's child) \<Rightarrow> (owners \<Rightarrow> owners option) \<Rightarrow> owner_ref \<Rightarrow> labels \<Rightarrow> bool" where
  "owned_child keep setref owner l \<longleftrightarrow> owns setref owner \<and> server_keeps keep \<and> wf_map l \<and> l \<noteq> []"

interpretation child_sync: convergent "ensure_child keep (\<lambda>_ _. False) setref owner l key key spec"
  "\<lambda>_. owned_child keep setref owner l" "\<lambda>st. \<exists>ch. map_of st key = Some ch \<and> settled_child owner l ch"
  for keep :: "'s child \<Rightarrow> 's child \<Rightarrow> 's child" and setref owner l key spec
proof unfold_locales
  fix st :: "(string, 's child) gomap"
  assume ok: "owned_child keep setref owner l"
  then show "\<exists>ch. map_of (ensure_child keep (\<lambda>_ _. False) setref owner l key key spec st) key = Some ch \<and> settled_child owner l ch"
    using ensure_settles [of setref owner keep l key spec st] unfolding owned_child_def by blast
  assume "\<exists>ch. map_of st key = Some ch \<and> settled_child owner l ch"
  then obtain ch where "map_of st key = Some ch" "settled_child owner l ch" by blast
  then show "ensure_child keep (\<lambda>_ _. False) setref owner l key key spec st = st"
    by (rule ensure_fixed) (use ok in \<open>simp add: owned_child_def\<close>)
qed

text \<open>
  Where the name of the object and the name in its specification differ, the quota is looked for under
  the one and created under the other: once it exists, every later run fails to create it.
\<close>

lemma ensure_stuck:
  assumes "map_of store key = None" and "map_of store name \<noteq> None"
  shows "ensure_child keep fl setref owner l key name spec store = store"
  using assms by (auto simp: ensure_child_def api_get_def api_create_def Let_def simp del: map_of_eq_Some_iff)

definition finalized :: "tenant_object \<Rightarrow> tenant_object" where
  "finalized t = fst (add_finalizer FinalizerGateway (add_finalizer FinalizerEnvironment
     (add_finalizer FinalizerNetworkPolicy (add_finalizer FinalizerResourceQuota (t, False)))))"

lemma add_finalizer_eq:
  "add_finalizer f (t, b) =
    (if has_finalizer t f then (t, b) else (t\<lparr>to_finalizers := to_finalizers t @ [f]\<rparr>, True))"
  by (simp add: add_finalizer_def)

lemma finalized_all: "\<forall>f \<in> tenant_finalizers. has_finalizer (finalized t) f"
  by (auto simp: finalized_def add_finalizer_def has_finalizer_def)

lemma add_all:
  assumes "\<forall>f \<in> tenant_finalizers. has_finalizer t f"
  shows "add_finalizer FinalizerGateway (add_finalizer FinalizerEnvironment
     (add_finalizer FinalizerNetworkPolicy (add_finalizer FinalizerResourceQuota (t, b)))) = (t, b)"
  using assms by (simp add: add_finalizer_eq)

lemma add_changed:
  defines "r \<equiv> \<lambda>t. add_finalizer FinalizerGateway (add_finalizer FinalizerEnvironment
     (add_finalizer FinalizerNetworkPolicy (add_finalizer FinalizerResourceQuota (t, False))))"
  shows "r t = (finalized t, \<exists>f \<in> tenant_finalizers. \<not> has_finalizer t f)"
  unfolding r_def finalized_def
  by (auto simp: add_finalizer_def has_finalizer_def)

lemma finalized_same: "\<forall>f \<in> tenant_finalizers. has_finalizer t f \<Longrightarrow> finalized t = t"
  by (simp add: finalized_def add_all)

lemma finalized_fields [simp]:
  "to_name (finalized t) = to_name t" "to_tenant (finalized t) = to_tenant t" "to_deleting (finalized t) = to_deleting t"
  "to_environments (finalized t) = to_environments t" "to_namespaces (finalized t) = to_namespaces t"
  by (simp_all add: finalized_def add_finalizer_def)

definition with_status :: "tenant_object \<Rightarrow> (string, tenant_env) gomap \<Rightarrow> tenant_object" where
  "with_status t envs = (case handleTenantStatus no_faults t envs of None \<Rightarrow> t | Some t' \<Rightarrow> t')"

lemma with_status_fields [simp]:
  "to_name (with_status t envs) = to_name t" "to_tenant (with_status t envs) = to_tenant t"
  "to_deleting (with_status t envs) = to_deleting t" "to_finalizers (with_status t envs) = to_finalizers t"
  by (simp_all add: with_status_def handleTenantStatus_def Let_def)

lemma with_status_settled: "handleTenantStatus no_faults (with_status t envs) envs = None"
  by (auto simp: with_status_def handleTenantStatus_def Let_def StringArrayEqual_def)

lemma with_status_lists:
  "mset (to_environments (with_status t envs)) = mset (map fst (tenant_envs (to_tenant t) envs))"
  "mset (to_namespaces (with_status t envs)) = mset (map (te_namespace \<circ> snd) (tenant_envs (to_tenant t) envs))"
  by (auto simp: with_status_def handleTenantStatus_def Let_def StringArrayEqual_def
      dest!: arg_cong [where f = mset] simp del: mset_map)

lemma add_finalizer_name: "to_name (fst (add_finalizer f tc)) = to_name (fst tc)"
  by (simp add: add_finalizer_def)

lemma handleTenantNetworkPolicy_name:
  "to_name t = to_name u \<Longrightarrow> handleTenantNetworkPolicy keep fl setref t = handleTenantNetworkPolicy keep fl setref u"
  by (simp add: handleTenantNetworkPolicy_def tenant_ref_def fun_eq_iff)

lemma sync_tenant_clean:
  assumes "map_of (tc_tenants c) name = Some t"
  shows "sync_tenant ks no_faults setref name t c =
    (c\<lparr>tc_quotas := handleTenantResourceQuota (keep_quota ks) no_faults setref t (tc_quotas c),
       tc_netpols := handleTenantNetworkPolicy (keep_netpol ks) no_faults setref t (tc_netpols c),
       tc_tenants := AList.update name (with_status (finalized t) (tc_envs c)) (tc_tenants c)\<rparr>, Done)"
proof -
  define a1 where "a1 = add_finalizer FinalizerResourceQuota (t, False)"
  have net: "handleTenantNetworkPolicy keep fl setref (fst a1) = handleTenantNetworkPolicy keep fl setref t" for keep fl
    by (rule handleTenantNetworkPolicy_name) (simp add: a1_def add_finalizer_name)
  define b where "b \<longleftrightarrow> (\<exists>f \<in> tenant_finalizers. \<not> has_finalizer t f)"
  have all: "add_finalizer FinalizerGateway (add_finalizer FinalizerEnvironment (add_finalizer FinalizerNetworkPolicy a1))
      = (finalized t, b)"
    unfolding a1_def b_def by (rule add_changed)
  have triv: "AList.update name (finalized t) (tc_tenants c) = tc_tenants c" if "\<not> b"
  proof -
    have "finalized t = t" using that unfolding b_def by (intro finalized_same) blast
    then show ?thesis using assms by (simp add: update_triv)
  qed
  show ?thesis
    unfolding sync_tenant_def Let_def a1_def [symmetric] case_prod_unfold prod.collapse net all fst_conv snd_conv
    using assms triv
    by (cases b; cases "handleTenantStatus no_faults (finalized t) (tc_envs c)")
       (simp_all add: with_status_def api_update_def del: map_of_eq_Some_iff)
qed


definition ex_living :: tenant_object where
  "ex_living = ex_tenant\<lparr>to_deleting := False, to_finalizers := [], to_environments := []\<rparr>"

definition ex_owner :: "owners \<Rightarrow> owners option" where
  "ex_owner os = Some ((tenant_ref ex_living, True) # os)"


end
