(* ===== verification/Gateway_Sync.thy ===== *)
theory Gateway_Sync
  imports Tenant_Sync
begin

text \<open>
  Gateways of tenants: the controller that keeps an nginx ingress controller for each
  (\<open>pkg/controller/controllers/tenantgateway_controller.go\<close>), and the webhooks for gateways, ingresses and the labels of
  the objects in a namespace (\<open>pkg/controller/webhooks\<close>).

  Objects are kept by name, ingress controllers, services and deployments being those of the namespace of the gateways.
  What the handlers read of the ingresses and gateways is a list. The check of names, the resources of a workload, their
  equality and the five random letters of a host are parameters, and so are the requests that fail.
\<close>

section \<open>Gateways\<close>

definition LabelIngressClass :: string where "LabelIngressClass = ''networking.kubegems.io/ingressClass''"
definition LabelApplication :: string where "LabelApplication = ''gems.kubegems.io/application''"
definition LabelGatewayType :: string where "LabelGatewayType = ''gateway.kubegems.io/type''"
definition LabelLogCollector :: string where "LabelLogCollector = ''gems.kubegems.io/logging''"

record gateway_image =
  gi_Repository :: string
  gi_Tag :: string
  gi_PullPolicy :: string

record 'r gateway_workload =
  wo_Resources :: 'r
  wo_ExtraLabels :: labels

text \<open>A service is its extra labels.\<close>

record 'r gateway_spec =
  gs_Type :: string
  gs_Replicas :: "int option"
  gs_Tenant :: string
  gs_IngressClass :: string
  gs_Image :: gateway_image
  gs_Service :: "labels option"
  gs_Workload :: "'r gateway_workload option"
  gs_ConfigMapData :: labels
  gs_BaseDomain :: string

record 'r gateway =
  gw_Name :: string
  gw_labels :: labels
  gw_deleting :: bool
  gw_finalizers :: "string list"
  gw_Spec :: "'r gateway_spec"
  gw_Ports :: "string list"
  gw_AvailableReplicas :: int

record 'r nginx_controller =
  ng_labels :: labels
  ng_owners :: "string list"
  ng_Replicas :: "int option"
  ng_IngressClass :: string
  ng_Service :: "(string \<times> labels) option"
  ng_Image :: gateway_image
  ng_Workload :: "'r gateway_workload option"
  ng_ConfigMapData :: labels

record 'r gateway_world =
  gx_gateways :: "(string, 'r gateway) gomap"
  gx_controllers :: "(string, 'r nginx_controller) gomap"
  gx_classes :: "(string, unit) gomap"
  gx_services :: "(string, string list) gomap"
  gx_deployments :: "(string, int) gomap"

datatype gateway_kind = KGateway | KGatewayStatus | KController | KIngressClass | KService | KDeployment

record 'r gateway_env =
  ge_fails :: "verb \<Rightarrow> gateway_kind \<Rightarrow> bool"
  ge_none :: 'r

section \<open>The ingress controller of a gateway\<close>

definition controller_labels :: "'r gateway \<Rightarrow> labels" where
  "controller_labels tg = [(LabelTenant, gs_Tenant (gw_Spec tg)), (LabelApplication, gw_Name tg)]"

definition service_labels :: "'r gateway_spec \<Rightarrow> labels" where
  "service_labels spec = (case gs_Service spec of None \<Rightarrow> [] | Some ls \<Rightarrow> ls)"

definition nginxIngressControllerForTenantGateway :: "'r gateway \<Rightarrow> 'r nginx_controller" where
  "nginxIngressControllerForTenantGateway tg =
     (let spec = gw_Spec tg in
      \<lparr>ng_labels = controller_labels tg, ng_owners = [gw_Name tg], ng_Replicas = gs_Replicas spec,
       ng_IngressClass = gs_IngressClass spec, ng_Service = Some (gs_Type spec, service_labels spec),
       ng_Image = gs_Image spec, ng_Workload = gs_Workload spec, ng_ConfigMapData = gs_ConfigMapData spec\<rparr>)"

definition updateNginxIngressController :: "'r nginx_controller \<Rightarrow> 'r gateway \<Rightarrow> 'r nginx_controller" where
  "updateNginxIngressController nic tg =
     (let spec = gw_Spec tg in
      nic\<lparr>ng_labels := controller_labels tg, ng_owners := [gw_Name tg], ng_Replicas := gs_Replicas spec,
        ng_IngressClass := gs_IngressClass spec, ng_Service := Some (gs_Type spec, service_labels spec),
        ng_Image := gs_Image spec, ng_Workload := gs_Workload spec, ng_ConfigMapData := gs_ConfigMapData spec\<rparr>)"

definition same_labels :: "labels \<Rightarrow> labels \<Rightarrow> bool" where
  "same_labels a b \<longleftrightarrow> list_all (\<lambda>(k, v). map_of b k = Some v) a \<and> list_all (\<lambda>(k, v). map_of a k = Some v) b"

text \<open>The two images are of different types, for which \<open>reflect.DeepEqual\<close> is false: what follows in the code, the
  comparison of the workload and the configuration, is never reached.\<close>

definition hasNginxIngressControllerChanged :: "'r nginx_controller \<Rightarrow> 'r gateway \<Rightarrow> bool" where
  "hasNginxIngressControllerChanged nic tg =
     (let spec = gw_Spec tg in
      if get_str (ng_labels nic) LabelTenant \<noteq> gs_Tenant spec then True
      else if ng_owners nic = [] \<or> hd (ng_owners nic) \<noteq> gw_Name tg then True
      else if ng_Replicas nic \<noteq> None \<and> gs_Replicas spec \<noteq> None \<and> ng_Replicas nic \<noteq> gs_Replicas spec then True
      else if ng_IngressClass nic \<noteq> gs_IngressClass spec then True
      else let (typ, extra) = (case ng_Service nic of None \<Rightarrow> ([], []) | Some s \<Rightarrow> s) in
        if typ \<noteq> gs_Type spec then True
        else if \<not> same_labels extra (service_labels spec) then True
        else True)"

text \<open>Writing a gateway: its status is kept apart, an object that is being deleted goes with its last finalizer and takes no new one.\<close>

definition put_gateway :: "'r gateway_env \<Rightarrow> 'r gateway \<Rightarrow> 'r gateway_world \<Rightarrow> 'r gateway_world \<times> bool" where
  "put_gateway env tg w =
     (case map_of (gx_gateways w) (gw_Name tg) of
        None \<Rightarrow> (w, False)
      | Some stored \<Rightarrow>
          if ge_fails env VUpdate KGateway then (w, False)
          else if gw_deleting stored \<and> \<not> set (gw_finalizers tg) \<subseteq> set (gw_finalizers stored) then (w, False)
          else if gw_deleting stored \<and> gw_finalizers tg = []
          then (w\<lparr>gx_gateways := AList.delete (gw_Name tg) (gx_gateways w)\<rparr>, True)
          else (w\<lparr>gx_gateways := AList.update (gw_Name tg)
                  (stored\<lparr>gw_labels := gw_labels tg, gw_finalizers := gw_finalizers tg, gw_Spec := gw_Spec tg\<rparr>) (gx_gateways w)\<rparr>, True))"

definition put_gateway_status :: "'r gateway_env \<Rightarrow> 'r gateway \<Rightarrow> 'r gateway_world \<Rightarrow> 'r gateway_world" where
  "put_gateway_status env tg w =
     (case map_of (gx_gateways w) (gw_Name tg) of
        None \<Rightarrow> w
      | Some stored \<Rightarrow>
          if ge_fails env VUpdate KGatewayStatus then w
          else w\<lparr>gx_gateways := AList.update (gw_Name tg)
                 (stored\<lparr>gw_Ports := gw_Ports tg, gw_AvailableReplicas := gw_AvailableReplicas tg\<rparr>) (gx_gateways w)\<rparr>)"

definition delete_gateway :: "'r gateway_env \<Rightarrow> 'r gateway \<Rightarrow> 'r gateway_world \<Rightarrow> 'r gateway_world \<times> reconcile_result" where
  "delete_gateway env tg w =
     (let w = w\<lparr>gx_classes := fst (api_delete (ge_fails env VDelete KIngressClass) (gs_IngressClass (gw_Spec tg)) (gx_classes w))\<rparr>
      in case put_gateway env (tg\<lparr>gw_finalizers := removeAll FinalizerGateway (gw_finalizers tg)\<rparr>) w of
           (w, ok) \<Rightarrow> (w, if ok then Done else Requeue))"

definition sync_controller :: "'r gateway_env \<Rightarrow> 'r gateway \<Rightarrow> 'r gateway_world \<Rightarrow> 'r gateway_world" where
  "sync_controller env tg w =
     (case api_get (ge_fails env VGet KController) (gw_Name tg) (gx_controllers w) of
        NotFound \<Rightarrow> w\<lparr>gx_controllers := fst (api_create (ge_fails env VCreate KController) (gw_Name tg)
                      (nginxIngressControllerForTenantGateway tg) (gx_controllers w))\<rparr>
      | Failed e \<Rightarrow> w
      | Found found \<Rightarrow>
          if hasNginxIngressControllerChanged found tg
          then w\<lparr>gx_controllers := fst (api_update (ge_fails env VUpdate KController) (gw_Name tg)
                 (updateNginxIngressController found tg) (gx_controllers w))\<rparr>
          else w)"

definition sync_gateway_status :: "'r gateway_env \<Rightarrow> 'r gateway \<Rightarrow> 'r gateway_world \<Rightarrow> 'r gateway_world" where
  "sync_gateway_status env tg w =
     (case api_get (ge_fails env VGet KService) (gw_Name tg) (gx_services w) of
        Found ports \<Rightarrow>
          (case api_get (ge_fails env VGet KDeployment) (gw_Name tg) (gx_deployments w) of
             Found available \<Rightarrow>
               if ports \<noteq> gw_Ports tg \<or> available \<noteq> gw_AvailableReplicas tg
               then put_gateway_status env (tg\<lparr>gw_Ports := ports, gw_AvailableReplicas := available\<rparr>) w
               else w
           | _ \<Rightarrow> w)
      | _ \<Rightarrow> w)"

text \<open>The gateway with the parts that were missing.\<close>

definition fill_gateway :: "'r gateway_env \<Rightarrow> 'r gateway \<Rightarrow> 'r gateway" where
  "fill_gateway env tg =
     tg\<lparr>gw_Spec := (gw_Spec tg)\<lparr>gs_Service := Some (service_labels (gw_Spec tg)),
       gs_Workload := Some (case gs_Workload (gw_Spec tg) of None \<Rightarrow> \<lparr>wo_Resources = ge_none env, wo_ExtraLabels = []\<rparr> | Some wl \<Rightarrow> wl)\<rparr>\<rparr>"

definition Reconcile_gateway :: "'r gateway_env \<Rightarrow> string \<Rightarrow> 'r gateway_world \<Rightarrow> 'r gateway_world \<times> reconcile_result" where
  "Reconcile_gateway env name w =
     (case api_get (ge_fails env VGet KGateway) name (gx_gateways w) of
        Found tg \<Rightarrow>
          if gw_deleting tg \<and> FinalizerGateway \<in> set (gw_finalizers tg) then delete_gateway env tg w
          else let tg = fill_gateway env tg;
                   w = sync_controller env tg w
               in if FinalizerGateway \<notin> set (gw_finalizers tg)
                  then let tg = tg\<lparr>gw_finalizers := gw_finalizers tg @ [FinalizerGateway]\<rparr>
                       in case put_gateway env tg w of
                            (w, False) \<Rightarrow> (w, Done)
                          | (w, True) \<Rightarrow> (sync_gateway_status env tg w, Done)
                  else (sync_gateway_status env tg w, Done)
      | _ \<Rightarrow> (w, Done))"

text \<open>The gateway of an ingress controller is looked at again when the ports of its service or the replicas of its deployment change.\<close>

definition requeueTenantGateway :: "(string \<times> string) list \<Rightarrow> string list" where
  "requeueTenantGateway owners =
     (case owners of [] \<Rightarrow> [] | (kind, name) # rest \<Rightarrow> if kind \<noteq> ''NginxIngressController'' then [] else [name])"

fun OwnedHandler :: "(string \<times> string) list object_event \<Rightarrow> bool \<Rightarrow> string list" where
  "OwnedHandler (Created owners) differs = requeueTenantGateway owners"
| "OwnedHandler (Updated old new) differs = (if differs then requeueTenantGateway old else [])"
| "OwnedHandler (Removed owners) differs = []"

section \<open>Webhooks for gateways and ingresses\<close>

definition default_str :: "labels \<Rightarrow> string \<Rightarrow> string \<Rightarrow> labels" where
  "default_str m k v = (if get_str m k = [] then AList.update k v m else m)"

definition tgDefault :: "'r gateway_env \<Rightarrow> string \<Rightarrow> string \<Rightarrow> 'r gateway \<Rightarrow> 'r gateway" where
  "tgDefault env repo tag tg =
     (let spec = gw_Spec tg;
          own = gw_Name tg @ ''-'' @ gs_Tenant spec;
          labels = default_str (default_str (gw_labels tg) LabelTenant (gs_Tenant spec)) LabelIngressClass own;
          wl = (case gs_Workload spec of None \<Rightarrow> \<lparr>wo_Resources = ge_none env, wo_ExtraLabels = []\<rparr> | Some wl \<Rightarrow> wl);
          extra = default_str (default_str (default_str (wo_ExtraLabels wl) LabelTenant (gs_Tenant spec)) LabelApplication (gw_Name tg))
            LabelGatewayType ''ingress-nginx'';
          img = gs_Image spec;
          img = (if gi_Repository img = [] then img\<lparr>gi_Repository := repo\<rparr> else img);
          img = (if gi_Tag img = [] then img\<lparr>gi_Tag := tag\<rparr> else img);
          img = (if gi_PullPolicy img = [] then img\<lparr>gi_PullPolicy := ''IfNotPresent''\<rparr> else img)
      in tg\<lparr>gw_labels := labels,
           gw_Spec := spec\<lparr>
             gs_Replicas := (case gs_Replicas spec of None \<Rightarrow> Some 1 | Some n \<Rightarrow> if n \<le> 0 then Some 1 else Some n),
             gs_Type := (if gs_Type spec = [] then ''NodePort'' else gs_Type spec),
             gs_IngressClass := (if gs_IngressClass spec = [] then own else gs_IngressClass spec),
             gs_Workload := Some (wl\<lparr>wo_ExtraLabels := extra\<rparr>),
             gs_BaseDomain := (if gs_BaseDomain spec = [] then ''*.kubegems.io'' else gs_BaseDomain spec),
             gs_Image := img\<rparr>\<rparr>)"

definition MutateTenantGateway :: "'r gateway_env \<Rightarrow> string \<Rightarrow> operation \<Rightarrow> string + 'r gateway \<Rightarrow> admission + 'r gateway" where
  "MutateTenantGateway env repo op obj =
     (case obj of
        Inl e \<Rightarrow> Inl (Errored e)
      | Inr tg \<Rightarrow> if op = Create \<or> op = Update then Inr (tgDefault env repo ''v1.3.0'' tg) else Inl Allowed)"

record ingress =
  ig_Name :: string
  ig_Namespace :: string
  ig_Class :: "string option"
  ig_labels :: labels
  ig_annotations :: labels
  ig_Hosts :: "string list"
  ig_TLS :: "string list list"

definition IsGatewayHTTP2 :: "'r gateway \<Rightarrow> bool" where
  "IsGatewayHTTP2 tg = (case parse_bool (get_str (gs_ConfigMapData (gw_Spec tg)) ''http2'') of None \<Rightarrow> False | Some b \<Rightarrow> b)"

definition IsIngressGRPC :: "ingress \<Rightarrow> bool" where
  "IsIngressGRPC i \<longleftrightarrow> map_of (ig_annotations i) ''nginx.org/grpc-services'' \<noteq> None"

text \<open>The ingress for which the gateway does not speak the protocol.\<close>

definition CheckGatewayAndIngressProtocol :: "'r gateway \<Rightarrow> ingress list \<Rightarrow> ingress option" where
  "CheckGatewayAndIngressProtocol tg ingresses = (if \<not> IsGatewayHTTP2 tg then find IsIngressGRPC ingresses else None)"

definition protocol_error :: "'r gateway \<Rightarrow> ingress \<Rightarrow> string" where
  "protocol_error tg i = ''ingress ['' @ ig_Name i @ ''] services ['' @ get_str (ig_annotations i) ''nginx.org/grpc-services''
     @ ''] use grpc protocol, the gateway ['' @ gw_Name tg @ ''] must config http/2''"

definition has_class :: "string \<Rightarrow> labels \<Rightarrow> bool" where
  "has_class c ls \<longleftrightarrow> map_of ls LabelIngressClass = Some c"

definition ValidateTenantGateway ::
  "api \<Rightarrow> (string \<Rightarrow> string list) \<Rightarrow> string + ingress list \<Rightarrow> operation \<Rightarrow> string + 'r gateway \<Rightarrow> admission" where
  "ValidateTenantGateway a isDNS1035Label ingresses op obj =
     (if op \<noteq> Create \<and> op \<noteq> Update then Allowed
      else case obj of
        Inl e \<Rightarrow> Errored e
      | Inr tg \<Rightarrow>
          let spec = gw_Spec tg; errs = isDNS1035Label (gw_Name tg) in
          if errs \<noteq> [] then Denied (join_with '', '' errs)
          else if \<not> gw_deleting tg \<and> \<not> tenantExist a (gs_Tenant spec)
          then Denied (''Gateway related Tenant '' @ gs_Tenant spec @ '' not exist'')
          else if gs_Type spec \<noteq> [] \<and> gs_Type spec \<noteq> ''NodePort'' \<and> gs_Type spec \<noteq> ''LoadBalancer''
          then Denied (''Gateway type '' @ gs_Type spec @ '' not valid, must be NodePort or LoadBalancer'')
          else if ''*'' \<notin> set (split_on (CHR ''.'') (gs_BaseDomain spec))
          then Denied (''Gateway baseDomain '' @ gs_BaseDomain spec @ '' must has a wildcard '' @ [char_of (39 :: nat)] @ ''*'' @ [char_of (39 :: nat)])
          else case ingresses of
            Inl e \<Rightarrow> Denied e
          | Inr items \<Rightarrow>
              (case CheckGatewayAndIngressProtocol tg
                     (filter (\<lambda>i. has_class (get_str (gw_labels tg) LabelIngressClass) (ig_labels i)) items) of
                 Some i \<Rightarrow> Denied (protocol_error tg i)
               | None \<Rightarrow> Allowed))"

text \<open>The stars of a domain, replaced by letters of the supply in turn.\<close>

fun fill_stars :: "(nat \<Rightarrow> string) \<Rightarrow> nat \<Rightarrow> string list \<Rightarrow> string list" where
  "fill_stars rands i [] = []"
| "fill_stars rands i (s # ss) = (if s = ''*'' then rands i # fill_stars rands (Suc i) ss else s # fill_stars rands i ss)"

definition RandHost :: "(nat \<Rightarrow> string) \<Rightarrow> string \<Rightarrow> string" where
  "RandHost rands old = join_with ''.'' (fill_stars rands 0 (split_on (CHR ''.'') old))"

fun fill_hosts :: "(nat \<Rightarrow> nat \<Rightarrow> string) \<Rightarrow> nat \<Rightarrow> string \<Rightarrow> string list \<Rightarrow> string list" where
  "fill_hosts rands i base [] = []"
| "fill_hosts rands i base (h # hs) = (if h = [] then RandHost (rands i) base else h) # fill_hosts rands (Suc i) base hs"

text \<open>\<open>GetLabels\<close> of the common labels, over those the object has.\<close>

definition inherit_labels :: "labels \<Rightarrow> labels \<Rightarrow> labels" where
  "inherit_labels nslabel ls =
     foldl (\<lambda>ls label. case map_of nslabel label of None \<Rightarrow> ls | Some v \<Rightarrow> AList.update label v ls) ls CommonLabels"

definition MutateIngress ::
  "(nat \<Rightarrow> nat \<Rightarrow> string) \<Rightarrow> string + 'r gateway list \<Rightarrow> (string \<Rightarrow> labels got) \<Rightarrow> operation \<Rightarrow> string + ingress \<Rightarrow> admission + ingress" where
  "MutateIngress rands gateways get_ns op obj =
     (case obj of
        Inl e \<Rightarrow> Inl (Errored e)
      | Inr ingress \<Rightarrow>
          if op \<noteq> Create \<and> op \<noteq> Update then Inl Allowed
          else let ingressClassName = (case ig_Class ingress of None \<Rightarrow> [] | Some c \<Rightarrow> c) in
            case gateways of
              Inl e \<Rightarrow> Inl (Denied (''list gateway failed: '' @ e))
            | Inr items \<Rightarrow>
                (case filter (\<lambda>tg. has_class ingressClassName (gw_labels tg)) items of
                   [] \<Rightarrow> Inl Allowed
                 | tg # rest \<Rightarrow>
                     let ingress = ingress\<lparr>ig_Hosts := fill_hosts rands 0 (gs_BaseDomain (gw_Spec tg)) (ig_Hosts ingress)\<rparr> in
                     case CheckGatewayAndIngressProtocol tg [ingress] of
                       Some i \<Rightarrow> Inl (Denied (protocol_error tg i))
                     | None \<Rightarrow>
                         if [] \<in> set (ig_TLS ingress) then Inl (Denied ''ingress tls must specify at least one host'')
                         else case get_ns (ig_Namespace ingress) of
                           Found nslabel \<Rightarrow>
                             Inr (ingress\<lparr>ig_labels := AList.update LabelIngressClass ingressClassName (inherit_labels nslabel (ig_labels ingress))\<rparr>)
                         | NotFound \<Rightarrow> Inl (Denied ''not found'')
                         | Failed e \<Rightarrow> Inl (Denied e)))"

definition ValidateIstioGateway :: "operation \<Rightarrow> string + labels \<Rightarrow> admission" where
  "ValidateIstioGateway op selector =
     (case selector of
        Inl e \<Rightarrow> Errored e
      | Inr s \<Rightarrow> if (op = Create \<or> op = Update) \<and> s = []
          then Denied (''istio gateway'' @ [char_of (39 :: nat)] @ ''s selector can'' @ [char_of (39 :: nat)] @ ''t be null!'') else Allowed)"

section \<open>The labels of objects\<close>

definition injected_kinds :: "string list" where
  "injected_kinds = [''Pod'', ''ConfigMap'', ''Secret'', ''Service'', ''Job'', ''CronJob'', ''Deployment'', ''StatefulSet'', ''DaemonSet'',
     ''PersistentVolumeClaim'', ''Flow'', ''Output'']"

text \<open>The namespace with its note of whether logs are collected; it is written back in any case.\<close>

definition getAndMutateNS ::
  "(verb \<Rightarrow> bool) \<Rightarrow> operation \<Rightarrow> string \<Rightarrow> string \<Rightarrow> string \<Rightarrow> (string, labels) gomap \<Rightarrow> (string, labels) gomap \<times> labels option" where
  "getAndMutateNS fl op kind name namespace nss =
     (case api_get (fl VGet) namespace nss of
        Found ls \<Rightarrow>
          let ls = (if kind = ''Flow'' \<and> name = ''default''
                then if op = Create \<or> op = Update then AList.update LabelLogCollector ''enabled'' ls
                     else if op = Delete then AList.update LabelLogCollector ''disabled'' ls else ls
                else ls)
          in case api_update (fl VUpdate) namespace ls nss of (nss, ok) \<Rightarrow> (nss, if ok then Some ls else None)
      | _ \<Rightarrow> (nss, None))"

definition getComonLabels :: "labels \<Rightarrow> labels" where
  "getComonLabels ns =
     foldl (\<lambda>ret label. case map_of ns label of None \<Rightarrow> ret | Some v \<Rightarrow> AList.update label v ret) [] CommonLabels"

text \<open>The labels the object gets, or that it passes as it is.\<close>

definition CommonInjectLabel ::
  "(verb \<Rightarrow> bool) \<Rightarrow> operation \<Rightarrow> string \<Rightarrow> string \<Rightarrow> string \<Rightarrow> string + labels \<Rightarrow> (string, labels) gomap
    \<Rightarrow> (string, labels) gomap \<times> labels option" where
  "CommonInjectLabel fl op kind name namespace obj nss =
     (if op = Create \<or> op = Update
      then if kind \<notin> set injected_kinds then (nss, None)
           else case obj of
             Inl e \<Rightarrow> (nss, None)
           | Inr originlabels \<Rightarrow>
               (case getAndMutateNS fl op kind name namespace nss of
                  (nss, None) \<Rightarrow> (nss, None)
                | (nss, Some ns) \<Rightarrow> (nss, Some (foldl (\<lambda>m (k, v). AList.update k v m) originlabels (getComonLabels ns))))
      else if op = Delete then (fst (getAndMutateNS fl op kind name namespace nss), None)
      else (nss, None))"

section \<open>One run for a gateway\<close>

definition gateway_quiet :: "'r gateway_env \<Rightarrow> bool" where
  "gateway_quiet env \<longleftrightarrow> ge_fails env = (\<lambda>_ _. False)"

lemma changed_always [simp]: "hasNginxIngressControllerChanged nic tg"
  by (simp add: hasNginxIngressControllerChanged_def Let_def split: option.split)

lemma updated_controller: "updateNginxIngressController nic tg = nginxIngressControllerForTenantGateway tg"
  by (cases nic) (simp add: updateNginxIngressController_def nginxIngressControllerForTenantGateway_def Let_def)

lemma fill_same [simp]: "gw_Name (fill_gateway env tg) = gw_Name tg" "gw_finalizers (fill_gateway env tg) = gw_finalizers tg"
    "gw_labels (fill_gateway env tg) = gw_labels tg" "gw_Ports (fill_gateway env tg) = gw_Ports tg"
    "gw_deleting (fill_gateway env tg) = gw_deleting tg"
    "gw_AvailableReplicas (fill_gateway env tg) = gw_AvailableReplicas tg" "fill_gateway env (fill_gateway env tg) = fill_gateway env tg"
  by (simp_all add: fill_gateway_def service_labels_def)

lemma fill_spec: "tg\<lparr>gw_finalizers := f, gw_Spec := gw_Spec (fill_gateway env tg)\<rparr> = (fill_gateway env tg)\<lparr>gw_finalizers := f\<rparr>"
  by (cases tg) (simp add: fill_gateway_def)

lemma update_map_id: "map_of m k = Some v \<Longrightarrow> AList.update k v m = m"
  by (induction m) (auto split: if_splits simp del: map_of_eq_Some_iff)

lemma update_map_twice [simp]: "AList.update k v (AList.update k u m) = AList.update k v m"
  by (induction m) auto

lemma controller_quiet:
  assumes "gateway_quiet env"
  shows "sync_controller env tg w =
    w\<lparr>gx_controllers := AList.update (gw_Name tg) (nginxIngressControllerForTenantGateway tg) (gx_controllers w)\<rparr>"
  using assms by (cases "map_of (gx_controllers w) (gw_Name tg)")
    (simp_all add: sync_controller_def api_get_def api_create_def api_update_def gateway_quiet_def updated_controller
      del: map_of_eq_Some_iff map_of_eq_None_iff)

text \<open>The status of a gateway with the service and the deployment of its name.\<close>

definition observed :: "'r gateway_world \<Rightarrow> 'r gateway \<Rightarrow> 'r gateway" where
  "observed w tg =
     (case (map_of (gx_services w) (gw_Name tg), map_of (gx_deployments w) (gw_Name tg)) of
        (Some ports, Some available) \<Rightarrow> tg\<lparr>gw_Ports := ports, gw_AvailableReplicas := available\<rparr>
      | _ \<Rightarrow> tg)"

definition gateway_after :: "'r gateway_env \<Rightarrow> 'r gateway \<Rightarrow> 'r gateway" where
  "gateway_after env tg =
     (if FinalizerGateway \<in> set (gw_finalizers tg) then tg
      else (fill_gateway env tg)\<lparr>gw_finalizers := gw_finalizers tg @ [FinalizerGateway]\<rparr>)"

lemma observed_simps [simp]: "gw_Name (observed w tg) = gw_Name tg" "gw_deleting (observed w tg) = gw_deleting tg"
    "gw_finalizers (observed w tg) = gw_finalizers tg" "gw_Spec (observed w tg) = gw_Spec tg"
  by (simp_all add: observed_def split: option.split)

lemma observed_twice: "gx_services w' = gx_services w \<Longrightarrow> gx_deployments w' = gx_deployments w \<Longrightarrow> observed w' (observed w tg) = observed w tg"
  by (simp add: observed_def split: option.split)

lemma after_simps [simp]: "gw_Name (gateway_after env tg) = gw_Name tg" "gw_deleting (gateway_after env tg) = gw_deleting tg"
    "set (gw_finalizers (gateway_after env tg)) = insert FinalizerGateway (set (gw_finalizers tg))"
  by (auto simp: gateway_after_def)

lemma controller_cong:
  "gw_Name a = gw_Name b \<Longrightarrow> gw_Spec (fill_gateway env a) = gw_Spec (fill_gateway env b) \<Longrightarrow>
    nginxIngressControllerForTenantGateway (fill_gateway env a) = nginxIngressControllerForTenantGateway (fill_gateway env b)"
  by (simp add: nginxIngressControllerForTenantGateway_def controller_labels_def service_labels_def Let_def)

lemma fill_spec_cong: "gw_Spec a = gw_Spec b \<Longrightarrow> gw_Spec (fill_gateway env a) = gw_Spec (fill_gateway env b)"
  by (simp add: fill_gateway_def)

lemma fill_after: "gw_Spec (fill_gateway env (gateway_after env tg)) = gw_Spec (fill_gateway env tg)"
  by (simp add: gateway_after_def fill_gateway_def service_labels_def)

lemma status_same:
  "gw_Ports s = p \<Longrightarrow> gw_AvailableReplicas s = n \<Longrightarrow> s\<lparr>gw_Ports := p, gw_AvailableReplicas := n\<rparr> = s"
  by (cases s) simp

lemma status_quiet:
  assumes "gateway_quiet env" "map_of (gx_gateways w) (gw_Name tg) = Some stored"
    and "gw_Ports stored = gw_Ports tg" "gw_AvailableReplicas stored = gw_AvailableReplicas tg" "gw_Name stored = gw_Name tg"
  shows "sync_gateway_status env tg w = w\<lparr>gx_gateways := AList.update (gw_Name tg) (observed w stored) (gx_gateways w)\<rparr>"
  using assms update_map_id [OF assms(2)]
  by (cases "map_of (gx_services w) (gw_Name tg)"; cases "map_of (gx_deployments w) (gw_Name tg)")
    (auto simp: sync_gateway_status_def api_get_def put_gateway_status_def gateway_quiet_def observed_def status_same
      simp del: map_of_eq_Some_iff map_of_eq_None_iff)

lemma Reconcile_gateway_quiet:
  assumes "gateway_quiet env" "map_of (gx_gateways w) name = Some tg" "gw_Name tg = name" "\<not> gw_deleting tg"
  shows "Reconcile_gateway env name w =
    (w\<lparr>gx_controllers := AList.update name (nginxIngressControllerForTenantGateway (fill_gateway env tg)) (gx_controllers w),
       gx_gateways := AList.update name (observed w (gateway_after env tg)) (gx_gateways w)\<rparr>, Done)"
proof -
  let ?w = "w\<lparr>gx_controllers := AList.update name (nginxIngressControllerForTenantGateway (fill_gateway env tg)) (gx_controllers w)\<rparr>"
  have c: "sync_controller env (fill_gateway env tg) w = ?w" using controller_quiet [OF assms(1)] assms(3) by simp
  have at: "map_of (gx_gateways ?w) name = Some tg" using assms(2) by simp
  show ?thesis
  proof (cases "FinalizerGateway \<in> set (gw_finalizers tg)")
    case True
    have "sync_gateway_status env (fill_gateway env tg) ?w = ?w\<lparr>gx_gateways := AList.update name (observed w tg) (gx_gateways w)\<rparr>"
      using status_quiet [OF assms(1), of ?w "fill_gateway env tg" tg] at assms(3) by (simp add: observed_def del: map_of_eq_Some_iff)
    then show ?thesis using True assms c
      by (simp add: Reconcile_gateway_def api_get_def gateway_quiet_def gateway_after_def Let_def del: map_of_eq_Some_iff)
  next
    case False
    let ?tg = "gateway_after env tg"
    let ?w2 = "?w\<lparr>gx_gateways := AList.update name ?tg (gx_gateways w)\<rparr>"
    have tg: "?tg = (fill_gateway env tg)\<lparr>gw_finalizers := gw_finalizers tg @ [FinalizerGateway]\<rparr>" using False by (simp add: gateway_after_def)
    have put: "put_gateway env ?tg ?w = (?w2, True)"
      using assms(1,3,4) at tg by (simp add: put_gateway_def gateway_quiet_def fill_spec del: map_of_eq_Some_iff)
    have "sync_gateway_status env ?tg ?w2 = ?w2\<lparr>gx_gateways := AList.update name (observed w ?tg) (gx_gateways ?w2)\<rparr>"
      using status_quiet [OF assms(1), of ?w2 ?tg ?tg] assms(3) tg by (simp add: observed_def)
    then show ?thesis using False assms c put tg
      by (simp add: Reconcile_gateway_def api_get_def gateway_quiet_def Let_def del: map_of_eq_Some_iff)
  qed
qed

text \<open>C28: Without failures a run for a gateway that stays makes its ingress controller exactly what the gateway asks for, whatever it
  was before, gives the gateway its finalizer and the ports and replicas of its service and deployment if both are there, and leaves
  all others alone; a second run changes nothing.\<close>

theorem Reconcile_gateway_agrees:
  assumes "gateway_quiet env" "map_of (gx_gateways w) name = Some tg" "gw_Name tg = name" "\<not> gw_deleting tg"
  shows "\<exists>w' tg'. Reconcile_gateway env name w = (w', Done) \<and> Reconcile_gateway env name w' = (w', Done) \<and>
    map_of (gx_controllers w') name = Some
      \<lparr>ng_labels = [(LabelTenant, gs_Tenant (gw_Spec tg)), (LabelApplication, name)], ng_owners = [name],
       ng_Replicas = gs_Replicas (gw_Spec tg), ng_IngressClass = gs_IngressClass (gw_Spec tg),
       ng_Service = Some (gs_Type (gw_Spec tg), service_labels (gw_Spec tg)), ng_Image = gs_Image (gw_Spec tg),
       ng_Workload = Some (case gs_Workload (gw_Spec tg) of None \<Rightarrow> \<lparr>wo_Resources = ge_none env, wo_ExtraLabels = []\<rparr> | Some wl \<Rightarrow> wl),
       ng_ConfigMapData = gs_ConfigMapData (gw_Spec tg)\<rparr> \<and>
    map_of (gx_gateways w') name = Some tg' \<and> set (gw_finalizers tg') = insert FinalizerGateway (set (gw_finalizers tg)) \<and>
    (\<forall>ports n. map_of (gx_services w) name = Some ports \<and> map_of (gx_deployments w) name = Some n \<longrightarrow>
       gw_Ports tg' = ports \<and> gw_AvailableReplicas tg' = n) \<and>
    (\<forall>k. k \<noteq> name \<longrightarrow> map_of (gx_controllers w') k = map_of (gx_controllers w) k \<and> map_of (gx_gateways w') k = map_of (gx_gateways w) k) \<and>
    gx_classes w' = gx_classes w"
proof -
  let ?tg = "observed w (gateway_after env tg)"
  define w' where "w' = w\<lparr>gx_controllers := AList.update name (nginxIngressControllerForTenantGateway (fill_gateway env tg)) (gx_controllers w),
    gx_gateways := AList.update name ?tg (gx_gateways w)\<rparr>"
  have run: "Reconcile_gateway env name w = (w', Done)" unfolding w'_def by (rule Reconcile_gateway_quiet [OF assms])
  have same: "gw_Name ?tg = name" "\<not> gw_deleting ?tg" "FinalizerGateway \<in> set (gw_finalizers ?tg)"
    "set (gw_finalizers ?tg) = insert FinalizerGateway (set (gw_finalizers tg))"
    using assms(3,4) by simp_all
  have "gw_Spec (fill_gateway env ?tg) = gw_Spec (fill_gateway env tg)"
    by (rule trans [OF fill_spec_cong fill_after]) simp
  then have fill: "nginxIngressControllerForTenantGateway (fill_gateway env ?tg) = nginxIngressControllerForTenantGateway (fill_gateway env tg)"
    by (intro controller_cong) simp_all
  have "gateway_after env ?tg = ?tg" using same(3) by (simp only: gateway_after_def if_True)
  then have "observed w' (gateway_after env ?tg) = ?tg" by (simp add: observed_twice w'_def)
  moreover have "map_of (gx_gateways w') name = Some ?tg" by (simp add: w'_def)
  ultimately have "Reconcile_gateway env name w' = (w', Done)"
    using Reconcile_gateway_quiet [OF assms(1) _ same(1,2), of w'] fill by (simp add: w'_def)
  moreover have "gw_Ports ?tg = ports \<and> gw_AvailableReplicas ?tg = n"
    if "map_of (gx_services w) name = Some ports" "map_of (gx_deployments w) name = Some n" for ports n
    using that assms(3) by (simp add: observed_def gateway_after_def del: map_of_eq_Some_iff)
  moreover have "nginxIngressControllerForTenantGateway (fill_gateway env tg) =
      \<lparr>ng_labels = [(LabelTenant, gs_Tenant (gw_Spec tg)), (LabelApplication, name)], ng_owners = [name],
       ng_Replicas = gs_Replicas (gw_Spec tg), ng_IngressClass = gs_IngressClass (gw_Spec tg),
       ng_Service = Some (gs_Type (gw_Spec tg), service_labels (gw_Spec tg)), ng_Image = gs_Image (gw_Spec tg),
       ng_Workload = Some (case gs_Workload (gw_Spec tg) of None \<Rightarrow> \<lparr>wo_Resources = ge_none env, wo_ExtraLabels = []\<rparr> | Some wl \<Rightarrow> wl),
       ng_ConfigMapData = gs_ConfigMapData (gw_Spec tg)\<rparr>"
    using assms(3) by (simp add: nginxIngressControllerForTenantGateway_def controller_labels_def fill_gateway_def service_labels_def Let_def)
  moreover have "gx_controllers w' = AList.update name (nginxIngressControllerForTenantGateway (fill_gateway env tg)) (gx_controllers w)"
    "gx_gateways w' = AList.update name ?tg (gx_gateways w)" "gx_classes w' = gx_classes w"
    by (simp_all add: w'_def)
  ultimately show ?thesis using run same(4)
    by (intro exI [of _ w'] exI [of _ ?tg]) (simp del: map_of_eq_Some_iff)
qed

lemma removeAll_empty: "removeAll x xs = [] \<longleftrightarrow> set xs \<subseteq> {x}"
  by (induction xs) auto

text \<open>A gateway that is being deleted loses its finalizer whether or not its class could be deleted. The class of its name goes
  even when another gateway uses it, and no run touches its ingress controller.\<close>

theorem Reconcile_gateway_deleted:
  assumes "map_of (gx_gateways w) name = Some tg" "gw_Name tg = name" "gw_deleting tg" "FinalizerGateway \<in> set (gw_finalizers tg)"
    and "\<not> ge_fails env VGet KGateway" "\<not> ge_fails env VUpdate KGateway"
  shows "\<exists>w'. Reconcile_gateway env name w = (w', Done) \<and> gx_controllers w' = gx_controllers w \<and>
    map_of (gx_gateways w') name =
      (if set (gw_finalizers tg) = {FinalizerGateway} then None
       else Some (tg\<lparr>gw_finalizers := removeAll FinalizerGateway (gw_finalizers tg)\<rparr>)) \<and>
    (\<forall>k. k \<noteq> name \<longrightarrow> map_of (gx_gateways w') k = map_of (gx_gateways w) k) \<and>
    (\<forall>c. map_of (gx_classes w') c =
       (if c = gs_IngressClass (gw_Spec tg) \<and> \<not> ge_fails env VDelete KIngressClass then None else map_of (gx_classes w) c))"
proof -
  let ?tg = "tg\<lparr>gw_finalizers := removeAll FinalizerGateway (gw_finalizers tg)\<rparr>"
  have empty: "removeAll FinalizerGateway (gw_finalizers tg) = [] \<longleftrightarrow> set (gw_finalizers tg) = {FinalizerGateway}"
    using assms(4) removeAll_empty [of FinalizerGateway "gw_finalizers tg"] by blast
  let ?w = "w\<lparr>gx_classes := fst (api_delete (ge_fails env VDelete KIngressClass) (gs_IngressClass (gw_Spec tg)) (gx_classes w))\<rparr>"
  define w' where "w' = ?w\<lparr>gx_gateways := (if set (gw_finalizers tg) = {FinalizerGateway} then AList.delete name (gx_gateways w)
    else AList.update name ?tg (gx_gateways w))\<rparr>"
  have same: "tg\<lparr>gw_labels := gw_labels ?tg, gw_finalizers := gw_finalizers ?tg, gw_Spec := gw_Spec ?tg\<rparr> = ?tg" by (cases tg) simp
  have at: "map_of (gx_gateways ?w) (gw_Name ?tg) = Some tg" using assms(1,2) by simp
  have "put_gateway env ?tg ?w = (w', True)"
    unfolding put_gateway_def at option.case same using assms(2,3,6) empty by (simp add: w'_def)
  then have "Reconcile_gateway env name w = (w', Done)"
    using assms(1,3-5) by (simp add: Reconcile_gateway_def delete_gateway_def api_get_def Let_def del: map_of_eq_Some_iff)
  moreover have "map_of (gx_gateways w') k = (if k \<noteq> name then map_of (gx_gateways w) k
      else if set (gw_finalizers tg) = {FinalizerGateway} then None else Some ?tg)" for k
    by (simp add: w'_def)
  moreover have "gx_classes w' = gx_classes ?w" "gx_controllers w' = gx_controllers w" by (simp_all add: w'_def)
  ultimately show ?thesis by (intro exI [of _ w']) (simp add: api_delete_at)
qed

section \<open>The webhooks\<close>

text \<open>What the handlers and the controller rely on in a gateway.\<close>

definition wf_gateway :: "'r gateway \<Rightarrow> bool" where
  "wf_gateway tg \<longleftrightarrow>
     (let spec = gw_Spec tg in
      get_str (gw_labels tg) LabelIngressClass \<noteq> [] \<and> gs_Type spec \<noteq> [] \<and> gs_IngressClass spec \<noteq> [] \<and> gs_BaseDomain spec \<noteq> [] \<and>
      (case gs_Replicas spec of None \<Rightarrow> False | Some n \<Rightarrow> n > 0) \<and> gi_Repository (gs_Image spec) \<noteq> [] \<and> gi_Tag (gs_Image spec) \<noteq> [] \<and>
      gi_PullPolicy (gs_Image spec) \<noteq> [] \<and>
      (case gs_Workload spec of None \<Rightarrow> False
       | Some wl \<Rightarrow> get_str (wo_ExtraLabels wl) LabelApplication \<noteq> [] \<and> get_str (wo_ExtraLabels wl) LabelGatewayType \<noteq> []
           \<and> get_str (wo_ExtraLabels wl) LabelTenant \<noteq> []) \<and> get_str (gw_labels tg) LabelTenant \<noteq> [])"

lemmas gateway_label_defs = LabelTenant_def LabelIngressClass_def LabelApplication_def LabelGatewayType_def

lemma default_str_at: "get_str (default_str m k v) k' = (if k' = k \<and> get_str m k = [] then v else get_str m k')"
  by (auto simp: default_str_def get_str_def)

lemma default_str_same: "get_str m k \<noteq> [] \<Longrightarrow> default_str m k v = m"
  by (simp add: default_str_def)

lemma tgDefault_wf:
  assumes "repo \<noteq> []" "tag \<noteq> []" "gw_Name tg \<noteq> []" "gs_Tenant (gw_Spec tg) \<noteq> []"
  shows "wf_gateway (tgDefault env repo tag tg)"
  using assms by (auto simp: wf_gateway_def tgDefault_def Let_def default_str_at gateway_label_defs split: option.split)

lemma wf_tgDefault: "wf_gateway tg \<Longrightarrow> tgDefault env repo tag tg = tg"
  by (cases tg; cases "gw_Spec tg"; cases "gs_Image (gw_Spec tg)"; cases "gs_Workload (gw_Spec tg)")
    (auto simp: wf_gateway_def tgDefault_def Let_def default_str_same split: option.splits)


section \<open>Gateways and ingresses together\<close>

text \<open>No gateway is asked to speak a protocol it was not configured for by an ingress of its class that it knows of.\<close>

definition consistent :: "'r gateway list \<Rightarrow> ingress list \<Rightarrow> bool" where
  "consistent gs is \<longleftrightarrow> (\<forall>tg \<in> set gs. \<forall>i \<in> set is. \<forall>c. has_class c (gw_labels tg) \<and> has_class c (ig_labels i) \<and>
     ig_Class i = Some c \<and> IsIngressGRPC i \<longrightarrow> IsGatewayHTTP2 tg)"

text \<open>The requests that get through: the cluster is its gateways and ingresses, each replacing those of its name.\<close>

inductive admitted :: "'r gateway list \<times> ingress list \<Rightarrow> 'r gateway list \<times> ingress list \<Rightarrow> bool" where
  gateway: "op = Create \<or> op = Update \<Longrightarrow> MutateTenantGateway env repo op (Inr tg) = Inr tg' \<Longrightarrow>
    ValidateTenantGateway a dns (Inr is) op (Inr tg') = Allowed \<Longrightarrow>
    admitted (gs, is) (tg' # filter (\<lambda>g. gw_Name g \<noteq> gw_Name tg') gs, is)"
| taken: "op = Create \<or> op = Update \<Longrightarrow> MutateIngress rands (Inr gs) get_ns op (Inr i) = Inr i' \<Longrightarrow>
    admitted (gs, is) (gs, i' # filter (\<lambda>j. (ig_Namespace j, ig_Name j) \<noteq> (ig_Namespace i, ig_Name i)) is)"
| passed: "op = Create \<or> op = Update \<Longrightarrow> MutateIngress rands (Inr gs) get_ns op (Inr i) = Inl Allowed \<Longrightarrow>
    admitted (gs, is) (gs, i # filter (\<lambda>j. (ig_Namespace j, ig_Name j) \<noteq> (ig_Namespace i, ig_Name i)) is)"
| gateway_gone: "admitted (gs, is) (filter (\<lambda>g. gw_Name g \<noteq> n) gs, is)"
| ingress_gone: "admitted (gs, is) (gs, filter (\<lambda>j. (ig_Namespace j, ig_Name j) \<noteq> k) is)"

text \<open>No two gateways have the same class for their label.\<close>

definition own_classes :: "'r gateway list \<Rightarrow> bool" where
  "own_classes gs \<longleftrightarrow> (\<forall>g \<in> set gs. \<forall>h \<in> set gs. \<forall>c. has_class c (gw_labels g) \<and> has_class c (gw_labels h) \<longrightarrow> g = h)"

lemma consistent_mono: "consistent gs is \<Longrightarrow> set gs' \<subseteq> set gs \<Longrightarrow> set is' \<subseteq> set is \<Longrightarrow> consistent gs' is'"
  unfolding consistent_def by blast

lemma consistent_put:
  "consistent gs is \<Longrightarrow> consistent [tg] is \<Longrightarrow> consistent (tg # filter P gs) is"
  "consistent gs is \<Longrightarrow> consistent gs [i] \<Longrightarrow> consistent gs (i # filter Q is)"
  unfolding consistent_def by (simp, auto)

lemma validated_gateway:
  assumes "ValidateTenantGateway a dns (Inr is) op (Inr tg) = Allowed" "op = Create \<or> op = Update"
  shows "consistent [tg] is"
proof -
  have "CheckGatewayAndIngressProtocol tg (filter (\<lambda>i. has_class (get_str (gw_labels tg) LabelIngressClass) (ig_labels i)) is) = None"
    using assms by (auto simp: ValidateTenantGateway_def Let_def split: if_splits option.splits)
  then show ?thesis
    by (auto simp: consistent_def CheckGatewayAndIngressProtocol_def find_None_iff has_class_def get_str_def split: if_splits)
qed

lemma mutated_ingress:
  assumes "MutateIngress rands (Inr gs) get_ns op (Inr i) = Inr i'" "own_classes gs"
  shows "consistent gs [i']"
proof -
  let ?c = "case ig_Class i of None \<Rightarrow> [] | Some c \<Rightarrow> c"
  obtain tg rest where tgs: "filter (\<lambda>tg. has_class ?c (gw_labels tg)) gs = tg # rest"
    using assms(1) by (auto simp: MutateIngress_def Let_def split: if_splits list.splits)
  then have tg: "tg \<in> set gs" "has_class ?c (gw_labels tg)" using list.set_intros(1) [of tg rest] unfolding tgs [symmetric] by simp_all
  have same: "ig_annotations i' = ig_annotations i" "ig_Class i' = ig_Class i" "has_class ?c (ig_labels i')"
    and check: "\<not> IsGatewayHTTP2 tg \<longrightarrow> \<not> IsIngressGRPC i"
    using assms(1) tgs by (auto simp: MutateIngress_def Let_def CheckGatewayAndIngressProtocol_def IsIngressGRPC_def has_class_def
        split: if_splits option.splits got.splits)
  show ?thesis
    unfolding consistent_def
  proof (intro ballI allI impI, elim conjE)
    fix g j c
    assume g: "g \<in> set gs" "j \<in> set [i']" and c: "has_class c (gw_labels g)" "ig_Class j = Some c" "IsIngressGRPC j"
    then have "g = tg" using assms(2) tg same(2) by (auto simp: own_classes_def)
    then show "IsGatewayHTTP2 g" using check c(3) g(2) same(1) by (auto simp: IsIngressGRPC_def)
  qed
qed

lemma passed_ingress:
  assumes "MutateIngress rands (Inr gs) get_ns op (Inr i) = Inl Allowed" "op = Create \<or> op = Update"
  shows "consistent gs [i]"
proof -
  have "filter (\<lambda>tg. has_class (case ig_Class i of None \<Rightarrow> [] | Some c \<Rightarrow> c) (gw_labels tg)) gs = []"
    using assms by (auto simp: MutateIngress_def Let_def split: if_splits list.splits option.splits got.splits)
  then show ?thesis by (auto simp: consistent_def filter_empty_conv)
qed

lemma admitted_consistent: "admitted s s' \<Longrightarrow> own_classes (fst s) \<Longrightarrow> consistent (fst s) (snd s) \<Longrightarrow> consistent (fst s') (snd s')"
proof (induction rule: admitted.induct)
  case (gateway op env repo tg tg' a dns "is" gs)
  then have "consistent [tg'] is" using validated_gateway by blast
  then show ?case using gateway consistent_put(1) by simp
next
  case (taken op rands gs get_ns i i' "is")
  then have "consistent gs [i']" using mutated_ingress by auto
  then show ?case using taken consistent_put(2) by simp
next
  case (passed op rands gs get_ns i "is")
  then have "consistent gs [i]" using passed_ingress by blast
  then show ?case using passed consistent_put(2) by simp
next
  case (gateway_gone gs "is" n)
  then show ?case using consistent_mono [of gs "is" "filter (\<lambda>g. gw_Name g \<noteq> n) gs" "is"] by auto
next
  case (ingress_gone gs "is" k)
  then show ?case using consistent_mono [of gs "is" gs "filter (\<lambda>j. (ig_Namespace j, ig_Name j) \<noteq> k) is"] by auto
qed

text \<open>C27: However gateways and ingresses are created, changed and deleted through the webhooks, no gateway gets an ingress of its class
  that speaks gRPC without HTTP/2, as long as no two gateways share a class: the ingresses are checked against one gateway only.
  Ingresses that came before any gateway of their class carry no label and are never checked.\<close>

theorem admission_keeps_protocols:
  assumes "(\<lambda>s s'. admitted s s' \<and> own_classes (fst s))\<^sup>*\<^sup>* s s'" "consistent (fst s) (snd s)"
  shows "consistent (fst s') (snd s')"
  using assms by (induction rule: rtranclp_induct) (auto dest: admitted_consistent)

text \<open>A gateway and an ingress for it, made one after the other.\<close>

definition ex_gateway :: "nat gateway" where
  "ex_gateway = \<lparr>gw_Name = ''g'', gw_labels = [], gw_deleting = False, gw_finalizers = [],
     gw_Spec = \<lparr>gs_Type = [], gs_Replicas = None, gs_Tenant = ''notenant'', gs_IngressClass = [],
       gs_Image = \<lparr>gi_Repository = [], gi_Tag = [], gi_PullPolicy = []\<rparr>, gs_Service = None, gs_Workload = None,
       gs_ConfigMapData = [(''http2'', ''true'')], gs_BaseDomain = []\<rparr>, gw_Ports = [], gw_AvailableReplicas = 0\<rparr>"

definition ex_gateway_env :: "nat gateway_env" where
  "ex_gateway_env = \<lparr>ge_fails = (\<lambda>v k. v = VDelete), ge_none = 0\<rparr>"

definition ex_default_gateway :: "nat gateway" where
  "ex_default_gateway = tgDefault ex_gateway_env ''nginx'' ''v1.3.0'' ex_gateway"

definition ex_ingress :: ingress where
  "ex_ingress = \<lparr>ig_Name = ''i'', ig_Namespace = ''n'', ig_Class = Some ''g-notenant'', ig_labels = [],
     ig_annotations = [(''nginx.org/grpc-services'', ''s'')], ig_Hosts = [[], ''h.io''], ig_TLS = []\<rparr>"

definition ex_taken_ingress :: ingress where
  "ex_taken_ingress = ex_ingress\<lparr>ig_labels := [(LabelTenant, ''t''), (LabelIngressClass, ''g-notenant'')], ig_Hosts := [''abcde.kubegems.io'', ''h.io'']\<rparr>"


lemma ex_gateway_admitted: "admitted ([], []) ([ex_default_gateway], [])"
proof -
  have "MutateTenantGateway ex_gateway_env ''nginx'' Create (Inr ex_gateway) = Inr ex_default_gateway"
    by (simp add: MutateTenantGateway_def ex_default_gateway_def)
  moreover have "ValidateTenantGateway ex_api (\<lambda>_. []) (Inr []) Create (Inr ex_default_gateway) = Allowed" by code_simp
  ultimately show ?thesis using admitted.gateway [of Create ex_gateway_env "''nginx''" ex_gateway ex_default_gateway ex_api "\<lambda>_. []" "[]" "[]"] by simp
qed

lemma ex_ingress_admitted: "admitted ([ex_default_gateway], []) ([ex_default_gateway], [ex_taken_ingress])"
proof -
  have "MutateIngress (\<lambda>_ _. ''abcde'') (Inr [ex_default_gateway]) (\<lambda>_. Found [(LabelTenant, ''t'')]) Create (Inr ex_ingress) = Inr ex_taken_ingress"
    by code_simp
  then show ?thesis
    using admitted.taken [of Create "\<lambda>_ _. ''abcde''" "[ex_default_gateway]" "\<lambda>_. Found [(LabelTenant, ''t'')]" ex_ingress ex_taken_ingress "[]"] by simp
qed

theorem admission_keeps_protocols_witness:
  "consistent [ex_default_gateway] [ex_taken_ingress] \<and> IsIngressGRPC ex_taken_ingress \<and> IsGatewayHTTP2 ex_default_gateway"
proof -
  let ?step = "\<lambda>s s'. admitted s s' \<and> own_classes (fst s :: nat gateway list)"
  have own: "own_classes ([] :: nat gateway list)" "own_classes [ex_default_gateway]" by (simp_all add: own_classes_def)
  have "?step\<^sup>*\<^sup>* ([], []) ([ex_default_gateway], [])"
    by (rule r_into_rtranclp) (use ex_gateway_admitted own in simp)
  then have "?step\<^sup>*\<^sup>* ([], []) ([ex_default_gateway], [ex_taken_ingress])"
    by (rule rtranclp.rtrancl_into_rtrancl) (use ex_ingress_admitted own in simp)
  then have "consistent (fst ([ex_default_gateway], [ex_taken_ingress])) (snd ([ex_default_gateway], [ex_taken_ingress]))"
    by (rule admission_keeps_protocols) (simp add: consistent_def)
  moreover have "IsIngressGRPC ex_taken_ingress" "IsGatewayHTTP2 ex_default_gateway" by code_simp+
  ultimately show ?thesis by simp
qed

definition ex_gateway_world :: "bool \<Rightarrow> nat gateway_world" where
  "ex_gateway_world d = \<lparr>gx_gateways = [(''g'', ex_default_gateway\<lparr>gw_deleting := d, gw_finalizers := (if d then [FinalizerGateway] else [])\<rparr>)],
     gx_controllers = [], gx_classes = [(''g-notenant'', ())], gx_services = [(''g'', [''80''])], gx_deployments = [(''g'', 1)]\<rparr>"

theorem Reconcile_gateway_agrees_witness:
  "\<exists>w'. Reconcile_gateway (ex_gateway_env\<lparr>ge_fails := \<lambda>_ _. False\<rparr>) ''g'' (ex_gateway_world False) = (w', Done) \<and>
     map_option ng_IngressClass (map_of (gx_controllers w') ''g'') = Some ''g-notenant'' \<and>
     map_option gw_Ports (map_of (gx_gateways w') ''g'') = Some [''80'']"
proof -
  let ?tg = "ex_default_gateway\<lparr>gw_deleting := False, gw_finalizers := []\<rparr>"
  have pre: "gateway_quiet (ex_gateway_env\<lparr>ge_fails := \<lambda>_ _. False\<rparr>)" "map_of (gx_gateways (ex_gateway_world False)) ''g'' = Some ?tg"
    "gw_Name ?tg = ''g''" "\<not> gw_deleting ?tg"
    by (simp_all add: gateway_quiet_def ex_gateway_world_def ex_default_gateway_def tgDefault_def ex_gateway_def Let_def)
  have at: "gs_IngressClass (gw_Spec ?tg) = ''g-notenant''" "map_of (gx_services (ex_gateway_world False)) ''g'' = Some [''80'']"
    "map_of (gx_deployments (ex_gateway_world False)) ''g'' = Some 1"
    by (simp_all add: ex_gateway_world_def ex_default_gateway_def tgDefault_def ex_gateway_def Let_def)
  show ?thesis using Reconcile_gateway_agrees [OF pre] at by (auto simp del: map_of_eq_Some_iff)
qed

theorem Reconcile_gateway_deleted_witness:
  "\<exists>w'. Reconcile_gateway ex_gateway_env ''g'' (ex_gateway_world True) = (w', Done) \<and> map_of (gx_gateways w') ''g'' = None \<and>
     map_of (gx_classes w') ''g-notenant'' = Some ()"
proof -
  let ?tg = "ex_default_gateway\<lparr>gw_deleting := True, gw_finalizers := [FinalizerGateway]\<rparr>"
  have pre: "map_of (gx_gateways (ex_gateway_world True)) ''g'' = Some ?tg" "gw_Name ?tg = ''g''" "gw_deleting ?tg"
    "FinalizerGateway \<in> set (gw_finalizers ?tg)" "\<not> ge_fails ex_gateway_env VGet KGateway" "\<not> ge_fails ex_gateway_env VUpdate KGateway"
    by (simp_all add: ex_gateway_env_def ex_gateway_world_def ex_default_gateway_def tgDefault_def ex_gateway_def Let_def)
  have at: "ge_fails ex_gateway_env VDelete KIngressClass" "map_of (gx_classes (ex_gateway_world True)) ''g-notenant'' = Some ()"
    by (simp_all add: ex_gateway_env_def ex_gateway_world_def)
  show ?thesis using Reconcile_gateway_deleted [OF pre] at by (auto simp del: map_of_eq_Some_iff)
qed

end
