(* ===== verification/Tunnel_Packet.thy ===== *)
theory Tunnel_Packet
  imports Go_Prelude "HOL-Library.Word"
begin

text \<open>
  The packets of the edge tunnel (\<open>pkg/edge/tunnel/packet.go\<close>, \<open>tunnel.go\<close>) and their passage
  over the gRPC stream (\<open>GRPCTunnel\<close> of \<open>tunnelservergrpc.go\<close>).

  \<open>Packet.Data\<close> is bytes on the wire. The model keeps what the bytes are the JSON of: a route
  update, a connect or an open request, or raw bytes of a connection (\<open>None\<close> is Go's nil
  slice). \<open>PacketDecode\<close> of bytes that are not of the wanted shape is the zero value, as the
  source ignores the error of \<open>json.Unmarshal\<close>; a map that is empty is left out of the JSON
  (\<open>omitempty\<close>) and comes back nil.
\<close>

datatype packet_kind =
    PacketKindData | PacketKindConnect | PacketKindOpen | PacketKindClose | PacketKindRoute
  | PacketKindUnknown int

datatype route_update_kind =
    RouteUpdateKindInvalid | RouteUpdateKindReferesh | RouteUpdateKindOnline
  | RouteUpdateKindOffline | RouteUpdateKindKeepAlive

type_synonym annotations = "(string, string) gomap"

record packet_data_route =
  pdr_Kind :: route_update_kind
  pdr_Annotations :: annotations
  pdr_Peers :: "(string, annotations) gomap option"

record packet_data_connect =
  pdc_Token :: string

record packet_data_open =
  pdo_Network :: string
  pdo_Address :: string
  pdo_Timeout :: int

datatype packet_data =
    Raw "8 word list option"
  | JsonRoute packet_data_route
  | JsonConnect packet_data_connect
  | JsonOpen packet_data_open

record packet =
  Kind :: packet_kind
  Src :: string
  Dest :: string
  SrcCID :: "64 word"
  DestCID :: "64 word"
  Data :: packet_data
  Err :: string

definition zero_packet :: packet where
  "zero_packet = \<lparr>Kind = PacketKindData, Src = '''', Dest = '''', SrcCID = 0, DestCID = 0,
                  Data = Raw None, Err = ''''\<rparr>"

definition peers_of :: "packet_data_route \<Rightarrow> (string, annotations) gomap" where
  "peers_of d = (case pdr_Peers d of None \<Rightarrow> [] | Some ps \<Rightarrow> ps)"

definition zero_route :: packet_data_route where
  "zero_route = \<lparr>pdr_Kind = RouteUpdateKindInvalid, pdr_Annotations = [], pdr_Peers = None\<rparr>"

definition PacketEncode_route :: "packet_data_route \<Rightarrow> packet_data" where
  "PacketEncode_route d =
     JsonRoute (d\<lparr>pdr_Peers := (case pdr_Peers d of Some [] \<Rightarrow> None | p \<Rightarrow> p)\<rparr>)"

definition PacketDecode_route :: "packet_data \<Rightarrow> packet_data_route" where
  "PacketDecode_route d = (case d of JsonRoute r \<Rightarrow> r | _ \<Rightarrow> zero_route)"

definition PacketDecode_connect :: "packet_data \<Rightarrow> packet_data_connect" where
  "PacketDecode_connect d = (case d of JsonConnect r \<Rightarrow> r | _ \<Rightarrow> \<lparr>pdc_Token = ''''\<rparr>)"

definition PacketDecode_open :: "packet_data \<Rightarrow> packet_data_open" where
  "PacketDecode_open d =
     (case d of JsonOpen r \<Rightarrow> r
      | _ \<Rightarrow> \<lparr>pdo_Network = '''', pdo_Address = '''', pdo_Timeout = 0\<rparr>)"

text \<open>What a connection reads from the data of a packet.\<close>

definition raw_bytes :: "packet_data \<Rightarrow> 8 word list option" where
  "raw_bytes d = (case d of Raw b \<Rightarrow> b | _ \<Rightarrow> Some [])"

section \<open>A connected tunnel\<close>

record tunnel_options =
  SendRouteChange :: bool
  IsDefaultOut :: bool

text \<open>
  \<open>ConnectedTunnel\<close> embeds a \<open>Tunnel\<close>, an interface value. \<open>chan_id\<close> is the identity of that
  value: two tunnels of the same peer are two channels.
\<close>

record connected_tunnel =
  chan_id :: nat
  tun_ID :: string
  AnnotationsSent :: annotations
  Options :: tunnel_options

section \<open>The gRPC stream\<close>

record proto_packet =
  p_Src :: string
  p_SrcID :: "64 word"
  p_Dest :: string
  p_DestID :: "64 word"
  p_Kind :: int
  p_Data :: packet_data
  p_Error :: string

fun kind_int :: "packet_kind \<Rightarrow> int" where
  "kind_int PacketKindData = 0"
| "kind_int PacketKindConnect = 1"
| "kind_int PacketKindOpen = 2"
| "kind_int PacketKindClose = 3"
| "kind_int PacketKindRoute = 4"
| "kind_int (PacketKindUnknown k) = k"

definition int_kind :: "int \<Rightarrow> packet_kind" where
  "int_kind k =
     (if k = 0 then PacketKindData else if k = 1 then PacketKindConnect
      else if k = 2 then PacketKindOpen else if k = 3 then PacketKindClose
      else if k = 4 then PacketKindRoute else PacketKindUnknown k)"

text \<open>Protocol buffers do not tell an empty byte field from an absent one.\<close>

definition proto_bytes :: "packet_data \<Rightarrow> packet_data" where
  "proto_bytes d = (case d of Raw (Some []) \<Rightarrow> Raw None | _ \<Rightarrow> d)"

definition GRPCTunnel_Send :: "packet \<Rightarrow> proto_packet" where
  "GRPCTunnel_Send p =
     \<lparr>p_Src = Src p, p_SrcID = SrcCID p, p_Dest = Dest p, p_DestID = DestCID p,
      p_Kind = kind_int (Kind p), p_Data = proto_bytes (Data p), p_Error = Err p\<rparr>"

definition GRPCTunnel_Recv :: "proto_packet \<Rightarrow> packet" where
  "GRPCTunnel_Recv q =
     \<lparr>Kind = int_kind (p_Kind q), Src = p_Src q, Dest = p_Dest q, SrcCID = p_SrcID q,
      DestCID = p_DestID q, Data = p_Data q, Err = p_Error q\<rparr>"

lemma int_kind_kind_int: "k \<notin> PacketKindUnknown ` {0..4} \<Longrightarrow> int_kind (kind_int k) = k"
  by (cases k) (auto simp: int_kind_def)

lemma grpc_roundtrip:
  assumes "Kind p \<notin> PacketKindUnknown ` {0..4}"
  shows "GRPCTunnel_Recv (GRPCTunnel_Send p) = p\<lparr>Data := proto_bytes (Data p)\<rparr>"
  using assms by (simp add: GRPCTunnel_Send_def GRPCTunnel_Recv_def int_kind_kind_int)

lemma route_data_roundtrip:
  "peers_of (PacketDecode_route (PacketEncode_route d)) = peers_of d"
  "pdr_Kind (PacketDecode_route (PacketEncode_route d)) = pdr_Kind d"
  "pdr_Annotations (PacketDecode_route (PacketEncode_route d)) = pdr_Annotations d"
  by (auto simp: PacketDecode_route_def PacketEncode_route_def peers_of_def
      split: option.splits list.splits)

end
