(* ===== verification/Tunnel_Route.thy ===== *)
theory Tunnel_Route
  imports Tunnel_Packet
begin

text \<open>
  The route table of the edge tunnel (\<open>pkg/edge/tunnel/tunnelroutetable.go\<close>) and the watchers
  of its events (\<open>event.go\<close>).

  The table belongs to a server that many goroutines use; \<open>mu_held\<close> records that a goroutine
  returned from a method without releasing the write lock of \<open>RouteTable.mu\<close>. A method that
  takes the lock then waits forever, which is the result \<^const>\<open>None\<close> of the operations.
  \<open>sent\<close> is the log of what was handed to the channels, in order. Go maps that are ranged over
  (the records, the peers, the watchers) are association lists.
\<close>

section \<open>State\<close>

record channel_with_children =
  Channel :: connected_tunnel
  Annotations :: annotations
  Children :: "(string, annotations) gomap"

datatype event_kind = EventKindConnected | EventKindKeepalive | EventKindDisConnected

record tunnel_event =
  From :: string
  FromAnnotations :: annotations
  EvKind :: event_kind
  Peers :: "(string, annotations) gomap"

record route_table =
  s_id :: string
  records :: "(string, channel_with_children) gomap"
  defaultout :: "connected_tunnel option"
  mu_held :: bool
  watchers :: "(string, tunnel_event list) gomap"
  sent :: "(nat \<times> packet) list"

definition DefaultEventChannelSize :: nat where
  "DefaultEventChannelSize = 1024"

definition NewEmptyRouteTable :: "string \<Rightarrow> route_table" where
  "NewEmptyRouteTable sid =
     \<lparr>s_id = sid, records = [], defaultout = None, mu_held = False, watchers = [], sent = []\<rparr>"

section \<open>Map helpers\<close>

text \<open>\<open>maps.Copy(dst, src)\<close>: entries of \<open>src\<close> overwrite.\<close>

definition maps_Copy :: "('k, 'v) gomap \<Rightarrow> ('k, 'v) gomap \<Rightarrow> ('k, 'v) gomap" where
  "maps_Copy dst src = foldl (\<lambda>m (k, v). AList.update k v m) dst src"

text \<open>The loop that adds the peers that are not yet there.\<close>

definition add_missing :: "('k, 'v) gomap \<Rightarrow> ('k, 'v) gomap \<Rightarrow> ('k, 'v) gomap" where
  "add_missing dst src =
     foldl (\<lambda>m (k, v). if map_of m k \<noteq> None then m else AList.update k v m) dst src"

definition remove_all_keys :: "('k, 'v) gomap \<Rightarrow> ('k, 'w) gomap \<Rightarrow> ('k, 'v) gomap" where
  "remove_all_keys dst src =
     foldl (\<lambda>m (k, v). if map_of m k = None then m else AList.delete k m) dst src"

section \<open>Queries\<close>

fun select_child :: "string \<Rightarrow> (string, channel_with_children) gomap \<Rightarrow> connected_tunnel option" where
  "select_child dest [] = None"
| "select_child dest ((k, val) # rs) =
     (if map_of (Children val) dest \<noteq> None then Some (Channel val) else select_child dest rs)"

definition Select :: "route_table \<Rightarrow> string \<Rightarrow> (string + connected_tunnel) option" where
  "Select t dest =
     (if mu_held t then None
      else Some (case map_of (records t) dest of
          Some val \<Rightarrow> Inr (Channel val)
        | None \<Rightarrow> (case select_child dest (records t) of
              Some c \<Rightarrow> Inr c
            | None \<Rightarrow> (case defaultout t of
                  Some c \<Rightarrow> Inr c
                | None \<Rightarrow> Inl (''no destination for peer '' @ dest)))))"

definition Exists :: "route_table \<Rightarrow> string \<Rightarrow> bool option" where
  "Exists t i = (if mu_held t then None else Some (map_of (records t) i \<noteq> None))"

definition reachable_loop ::
  "string \<Rightarrow> (string, channel_with_children) gomap \<Rightarrow> (string, annotations) gomap" where
  "reachable_loop exclude rs =
     foldl (\<lambda>ret (k, val). if k = exclude then ret
              else AList.update k (Annotations val) (maps_Copy ret (Children val))) [] rs"

definition allRechablePeers :: "route_table \<Rightarrow> string \<Rightarrow> (string, annotations) gomap option" where
  "allRechablePeers t exclude =
     (if mu_held t then None else Some (reachable_loop exclude (records t)))"

section \<open>Sending\<close>

text \<open>
  The route table ignores the error of \<open>Channel.Send\<close>; the log has what it handed over.
  A watcher whose channel is full loses the event.
\<close>

definition send_packet :: "connected_tunnel \<Rightarrow> packet \<Rightarrow> route_table \<Rightarrow> route_table" where
  "send_packet c pkt t = t\<lparr>sent := sent t @ [(chan_id c, pkt)]\<rparr>"

definition sendWatcherEvent :: "tunnel_event \<Rightarrow> route_table \<Rightarrow> route_table" where
  "sendWatcherEvent ev t =
     t\<lparr>watchers := map (\<lambda>(uid, q). (uid, if length q < DefaultEventChannelSize then q @ [ev] else q))
        (watchers t)\<rparr>"

definition event_of :: "string \<Rightarrow> packet_data_route \<Rightarrow> event_kind \<Rightarrow> tunnel_event" where
  "event_of changesFrom changes k =
     \<lparr>From = changesFrom, FromAnnotations = pdr_Annotations changes, EvKind = k,
      Peers = peers_of changes\<rparr>"

definition emit_event :: "string \<Rightarrow> packet_data_route \<Rightarrow> route_table \<Rightarrow> route_table" where
  "emit_event changesFrom changes t =
     (case pdr_Kind changes of
        RouteUpdateKindOnline \<Rightarrow> sendWatcherEvent (event_of changesFrom changes EventKindConnected) t
      | RouteUpdateKindKeepAlive \<Rightarrow> sendWatcherEvent (event_of changesFrom changes EventKindKeepalive) t
      | RouteUpdateKindOffline \<Rightarrow> sendWatcherEvent (event_of changesFrom changes EventKindDisConnected) t
      | _ \<Rightarrow> t)"

definition route_packet :: "string \<Rightarrow> string \<Rightarrow> packet_data_route \<Rightarrow> packet" where
  "route_packet src dest d =
     zero_packet\<lparr>Kind := PacketKindRoute, Src := src, Dest := dest, Data := PacketEncode_route d\<rparr>"

definition advertise_one ::
  "string \<Rightarrow> string \<Rightarrow> packet_data_route \<Rightarrow> string \<times> channel_with_children \<Rightarrow> route_table \<Rightarrow> route_table" where
  "advertise_one sid changesFrom changes = (\<lambda>(peerid, peer) t.
     if peerid = changesFrom then t
     else if \<not> SendRouteChange (Options (Channel peer)) then t
     else send_packet (Channel peer)
       (route_packet sid peerid
          \<lparr>pdr_Kind = pdr_Kind changes,
           pdr_Annotations = AnnotationsSent (Channel peer),
           pdr_Peers = pdr_Peers changes\<rparr>) t)"

definition advertise :: "string \<Rightarrow> packet_data_route \<Rightarrow> route_table \<Rightarrow> route_table option" where
  "advertise changesFrom changes t =
     (if mu_held t then None
      else Some (fold (advertise_one (s_id t) changesFrom changes) (records t)
                  (emit_event changesFrom changes t)))"

section \<open>Updates\<close>

text \<open>
  The part of \<open>OnChange\<close> under the lock: the changed records and the change to advertise, or
  \<^const>\<open>None\<close> where the source returns early.
\<close>

definition apply_change ::
  "connected_tunnel \<Rightarrow> packet_data_route \<Rightarrow> (string, channel_with_children) gomap
     \<Rightarrow> ((string, channel_with_children) gomap \<times> packet_data_route) option" where
  "apply_change from data rs =
    (let id = tun_ID from in
     case pdr_Kind data of
       RouteUpdateKindReferesh \<Rightarrow>
         let rec' = (case map_of rs id of
               None \<Rightarrow> \<lparr>Channel = from, Annotations = pdr_Annotations data, Children = peers_of data\<rparr>
             | Some val \<Rightarrow> val\<lparr>Annotations := pdr_Annotations data, Children := peers_of data\<rparr>)
         in Some (AList.update id rec' rs,
              \<lparr>pdr_Kind = RouteUpdateKindOnline, pdr_Annotations = pdr_Annotations data,
               pdr_Peers = Some (AList.update id (pdr_Annotations data) (maps_Copy [] (peers_of data)))\<rparr>)
     | RouteUpdateKindKeepAlive \<Rightarrow>
         (case map_of rs id of
            None \<Rightarrow> None
          | Some val \<Rightarrow>
              Some (AList.update id (val\<lparr>Children := add_missing (Children val) (peers_of data),
                                        Annotations := pdr_Annotations data\<rparr>) rs,
                \<lparr>pdr_Kind = RouteUpdateKindKeepAlive, pdr_Annotations = pdr_Annotations data,
                 pdr_Peers = Some (AList.update id (pdr_Annotations data) (maps_Copy [] (peers_of data)))\<rparr>))
     | RouteUpdateKindOnline \<Rightarrow>
         (case map_of rs id of
            None \<Rightarrow> None
          | Some val \<Rightarrow>
              Some (AList.update id (val\<lparr>Children := add_missing (Children val) (peers_of data)\<rparr>) rs,
                \<lparr>pdr_Kind = RouteUpdateKindOnline, pdr_Annotations = pdr_Annotations data,
                 pdr_Peers = Some (maps_Copy [] (peers_of data))\<rparr>))
     | RouteUpdateKindOffline \<Rightarrow>
         (case map_of rs id of
            None \<Rightarrow> None
          | Some val \<Rightarrow>
              Some (AList.update id (val\<lparr>Children := remove_all_keys (Children val) (peers_of data)\<rparr>) rs,
                \<lparr>pdr_Kind = RouteUpdateKindOffline, pdr_Annotations = Annotations val,
                 pdr_Peers = Some (maps_Copy [] (peers_of data))\<rparr>))
     | RouteUpdateKindInvalid \<Rightarrow>
         Some (rs, \<lparr>pdr_Kind = pdr_Kind data, pdr_Annotations = pdr_Annotations data,
                    pdr_Peers = Some []\<rparr>))"

definition OnChange :: "connected_tunnel \<Rightarrow> packet_data_route \<Rightarrow> route_table \<Rightarrow> route_table option" where
  "OnChange from data t =
     (if mu_held t then None
      else case apply_change from data (records t) of
          None \<Rightarrow> Some (t\<lparr>mu_held := True\<rparr>)
        | Some (rs, changed) \<Rightarrow> advertise (tun_ID from) changed (t\<lparr>records := rs\<rparr>))"

definition Connect_table :: "connected_tunnel \<Rightarrow> packet_data_route \<Rightarrow> route_table \<Rightarrow> route_table option" where
  "Connect_table tun data t =
     OnChange tun data (if IsDefaultOut (Options tun) then t\<lparr>defaultout := Some tun\<rparr> else t)"

text \<open>
  \<open>Disconnect\<close>, less the closing of the connections of the tunnel, which is in the
  connection manager; \<open>closed\<close> says whether that step is reached.
\<close>

definition Disconnect_table :: "connected_tunnel \<Rightarrow> route_table \<Rightarrow> (route_table \<times> bool) option" where
  "Disconnect_table stream t =
     (if mu_held t then None
      else case map_of (records t) (tun_ID stream) of
          None \<Rightarrow> Some (t\<lparr>mu_held := True\<rparr>, False)
        | Some val \<Rightarrow>
            let removedPeers = AList.update (tun_ID stream) (Annotations val) (Children val);
                t' = t\<lparr>records := AList.delete (tun_ID stream) (records t)\<rparr>
            in map_option (\<lambda>t''. (t'', True))
                 (advertise (tun_ID stream)
                    \<lparr>pdr_Kind = RouteUpdateKindOffline, pdr_Annotations = [],
                     pdr_Peers = Some removedPeers\<rparr> t'))"

definition advertiseKeepalive :: "annotations \<Rightarrow> connected_tunnel \<Rightarrow> route_table \<Rightarrow> route_table" where
  "advertiseKeepalive anno c t =
     (if \<not> SendRouteChange (Options c) then t
      else send_packet c (route_packet (s_id t) (tun_ID c)
             \<lparr>pdr_Kind = RouteUpdateKindKeepAlive, pdr_Annotations = anno,
              pdr_Peers = Some (reachable_loop (tun_ID c) (records t))\<rparr>) t)"

definition SendKeepAlive :: "annotations \<Rightarrow> route_table \<Rightarrow> route_table option" where
  "SendKeepAlive anno t =
     (if mu_held t then None
      else Some (fold (\<lambda>(k, tun) t. if \<not> SendRouteChange (Options (Channel tun)) then t
                        else advertiseKeepalive anno (Channel tun) t) (records t) t))"

definition advertiseInit :: "connected_tunnel \<Rightarrow> annotations \<Rightarrow> route_table \<Rightarrow> route_table option" where
  "advertiseInit c anno t =
     (if SendRouteChange (Options c) then
        map_option (\<lambda>ps. send_packet c (route_packet (s_id t) (tun_ID c)
             \<lparr>pdr_Kind = RouteUpdateKindReferesh, pdr_Annotations = anno, pdr_Peers = Some ps\<rparr>) t)
          (allRechablePeers t (tun_ID c))
      else Some (send_packet c (route_packet (s_id t) (tun_ID c)
             \<lparr>pdr_Kind = RouteUpdateKindReferesh, pdr_Annotations = anno, pdr_Peers = None\<rparr>) t))"

text \<open>The answer to the init route, which must be a route packet.\<close>

definition RouteExchange_recv :: "packet \<Rightarrow> packet_data_route option" where
  "RouteExchange_recv pkt =
     (if Kind pkt \<noteq> PacketKindRoute then None else Some (PacketDecode_route (Data pkt)))"

definition Watch :: "string \<Rightarrow> route_table \<Rightarrow> route_table option" where
  "Watch uid t =
     map_option (\<lambda>ps. t\<lparr>watchers := AList.update uid
          [\<lparr>From = s_id t, FromAnnotations = [], EvKind = EventKindConnected, Peers = ps\<rparr>] (watchers t)\<rparr>)
       (allRechablePeers t '''')"

definition Unwatch :: "string \<Rightarrow> route_table \<Rightarrow> route_table" where
  "Unwatch uid t = t\<lparr>watchers := AList.delete uid (watchers t)\<rparr>"

section \<open>The maps as partial functions\<close>

lemma map_of_maps_Copy [go_map]: "wf_map src \<Longrightarrow> map_of (maps_Copy dst src) = map_of dst ++ map_of src"
proof (induction src arbitrary: dst)
  case (Cons a src)
  obtain k v where a: "a = (k, v)" by (cases a)
  with Cons.prems have k: "k \<notin> fst ` set src" and w: "wf_map src" by auto
  have "map_of (maps_Copy dst (a # src)) = map_of (AList.update k v dst) ++ map_of src"
    using Cons.IH [OF w, of "AList.update k v dst"] by (simp add: maps_Copy_def a fun_upd_def)
  also have "\<dots> = map_of dst ++ map_of (a # src)"
  proof -
    have "map_of src k = None" using k by (simp add: map_of_eq_None_iff)
    then show ?thesis by (auto simp: a map_add_def fun_eq_iff split: option.splits)
  qed
  finally show ?case .
qed (simp add: maps_Copy_def)

lemma map_of_add_missing [go_map]: "map_of (add_missing dst src) = map_of src ++ map_of dst"
proof (induction src arbitrary: dst)
  case (Cons a src)
  obtain k v where a: "a = (k, v)" by (cases a)
  have "map_of (add_missing dst (a # src)) =
      map_of src ++ map_of (if map_of dst k \<noteq> None then dst else AList.update k v dst)"
    using Cons.IH by (simp add: add_missing_def a)
  also have "\<dots> = map_of (a # src) ++ map_of dst"
    by (auto simp: a map_add_def fun_eq_iff split: option.splits)
  finally show ?case .
qed (simp add: add_missing_def)

lemma map_of_remove_all_keys [go_map]:
  "map_of (remove_all_keys dst src) = map_of dst |` (- dom (map_of src))"
proof (induction src arbitrary: dst)
  case (Cons a src)
  obtain k v where a: "a = (k, v)" by (cases a)
  have "map_of (remove_all_keys dst (a # src)) =
      map_of (if map_of dst k = None then dst else AList.delete k dst) |` (- dom (map_of src))"
    using Cons.IH by (simp add: remove_all_keys_def a)
  also have "\<dots> = map_of dst |` (- dom (map_of (a # src)))"
    by (auto simp: a restrict_map_def fun_eq_iff)
  finally show ?case .
qed (auto simp: remove_all_keys_def restrict_map_def)

lemma wf_maps_Copy [simp]: "wf_map dst \<Longrightarrow> wf_map (maps_Copy dst src)"
  unfolding maps_Copy_def by (induction src arbitrary: dst) auto

lemma wf_add_missing [simp]: "wf_map dst \<Longrightarrow> wf_map (add_missing dst src)"
  unfolding add_missing_def by (induction src arbitrary: dst) auto

lemma wf_remove_all_keys [simp]: "wf_map dst \<Longrightarrow> wf_map (remove_all_keys dst src)"
  unfolding remove_all_keys_def by (induction src arbitrary: dst) auto

lemma set_update_subset: "set (AList.update k v m) \<subseteq> insert (k, v) (set m)"
  by (induction m) auto

section \<open>Well-formed tables\<close>

definition wf_record :: "string \<times> channel_with_children \<Rightarrow> bool" where
  "wf_record r \<longleftrightarrow> fst r = tun_ID (Channel (snd r)) \<and> wf_map (Children (snd r))"

definition wf_table :: "route_table \<Rightarrow> bool" where
  "wf_table t \<longleftrightarrow> wf_map (records t) \<and> (\<forall>r \<in> set (records t). wf_record r)"

text \<open>What a table means: for every direct peer its channel, annotations and sub-peers.\<close>

type_synonym route_view =
  "string \<rightharpoonup> connected_tunnel \<times> annotations \<times> (string \<rightharpoonup> annotations)"

definition table_view :: "route_table \<Rightarrow> route_view" where
  "table_view t = (\<lambda>k. map_option (\<lambda>v. (Channel v, Annotations v, map_of (Children v)))
                          (map_of (records t) k))"

definition abs_change ::
  "connected_tunnel \<Rightarrow> route_update_kind \<Rightarrow> annotations \<Rightarrow> (string \<rightharpoonup> annotations)
     \<Rightarrow> route_view \<Rightarrow> route_view option" where
  "abs_change from k anno ps w =
    (let i = tun_ID from in
     case k of
       RouteUpdateKindReferesh \<Rightarrow>
         Some (w(i \<mapsto> ((case w i of None \<Rightarrow> from | Some (c, _) \<Rightarrow> c), anno, ps)))
     | RouteUpdateKindKeepAlive \<Rightarrow> map_option (\<lambda>(c, a, ch). w(i \<mapsto> (c, anno, ps ++ ch))) (w i)
     | RouteUpdateKindOnline \<Rightarrow> map_option (\<lambda>(c, a, ch). w(i \<mapsto> (c, a, ps ++ ch))) (w i)
     | RouteUpdateKindOffline \<Rightarrow> map_option (\<lambda>(c, a, ch). w(i \<mapsto> (c, a, ch |` (- dom ps)))) (w i)
     | RouteUpdateKindInvalid \<Rightarrow> Some w)"

lemma emit_event_simps [simp]:
  "records (emit_event i d t) = records t" "defaultout (emit_event i d t) = defaultout t"
  "mu_held (emit_event i d t) = mu_held t" "sent (emit_event i d t) = sent t"
  "s_id (emit_event i d t) = s_id t"
  by (simp_all add: emit_event_def sendWatcherEvent_def split: route_update_kind.splits)

text \<open>The packet a change makes for one record, where there is one.\<close>

definition adverts ::
  "string \<Rightarrow> string \<Rightarrow> packet_data_route \<Rightarrow> (string, channel_with_children) gomap \<Rightarrow> (nat \<times> packet) list" where
  "adverts sid i d rs =
     map (\<lambda>(k, v). (chan_id (Channel v), route_packet sid k (d\<lparr>pdr_Annotations := AnnotationsSent (Channel v)\<rparr>)))
       (filter (\<lambda>(k, v). k \<noteq> i \<and> SendRouteChange (Options (Channel v))) rs)"

lemma advertise_fold:
  "fold (advertise_one sid i d) rs t = t\<lparr>sent := sent t @ adverts sid i d rs\<rparr>"
proof (induction rs arbitrary: t)
  case (Cons r rs)
  obtain k v where r: "r = (k, v)" by (cases r)
  have "advertise_one sid i d (k, v) t = t\<lparr>sent := sent t @ adverts sid i d [(k, v)]\<rparr>"
    by (cases d) (simp add: advertise_one_def adverts_def send_packet_def)
  with Cons.IH show ?case by (simp add: r adverts_def)
qed (simp add: adverts_def)

lemma advertise_eq:
  "advertise i d t = (if mu_held t then None
     else Some ((emit_event i d t)\<lparr>sent := sent t @ adverts (s_id t) i d (records t)\<rparr>))"
  by (simp add: advertise_def advertise_fold)

lemma wf_record_update:
  "\<forall>r \<in> set rs. wf_record r \<Longrightarrow> wf_record (k, v) \<Longrightarrow> \<forall>r \<in> set (AList.update k v rs). wf_record r"
  using set_update_subset [of k v rs] by auto

lemma wf_table_update:
  "wf_table t \<Longrightarrow> k = tun_ID (Channel v) \<Longrightarrow> wf_map (Children v)
     \<Longrightarrow> wf_table (t\<lparr>records := AList.update k v (records t)\<rparr>)"
  using wf_record_update [of "records t" k v] unfolding wf_table_def by (simp add: wf_record_def)

lemma wf_record_lookup:
  "wf_table t \<Longrightarrow> map_of (records t) k = Some v \<Longrightarrow> k = tun_ID (Channel v) \<and> wf_map (Children v)"
  unfolding wf_table_def wf_record_def by (auto dest!: map_of_SomeD)

text \<open>One lemma for the part under the lock: it computes the abstract change and keeps the table well formed.\<close>

lemma apply_change_view:
  assumes "wf_table t" and "wf_map (peers_of data)"
  shows "case apply_change from data (records t) of
      None \<Rightarrow> abs_change from (pdr_Kind data) (pdr_Annotations data) (map_of (peers_of data)) (table_view t) = None
    | Some (rs, d) \<Rightarrow>
        abs_change from (pdr_Kind data) (pdr_Annotations data) (map_of (peers_of data)) (table_view t)
          = Some (table_view (t\<lparr>records := rs\<rparr>)) \<and> wf_table (t\<lparr>records := rs\<rparr>)"
proof (cases "map_of (records t) (tun_ID from)")
  case None
  have "wf_table (t\<lparr>records := AList.update (tun_ID from)
      \<lparr>Channel = from, Annotations = pdr_Annotations data, Children = peers_of data\<rparr> (records t)\<rparr>)"
    using assms by (intro wf_table_update) simp_all
  with None assms(1) show ?thesis
    by (cases "pdr_Kind data")
      (auto simp: apply_change_def abs_change_def Let_def table_view_def fun_eq_iff)
next
  case (Some val)
  note v = wf_record_lookup [OF assms(1) Some]
  have "wf_table (t\<lparr>records := AList.update (tun_ID from) v' (records t)\<rparr>)"
    if "Channel v' = Channel val" "wf_map (Children v')" for v'
    using assms(1) v that by (intro wf_table_update) simp_all
  with Some assms v show ?thesis
    by (cases "pdr_Kind data")
      (auto simp: apply_change_def abs_change_def Let_def table_view_def fun_eq_iff go_map)
qed

lemma OnChange_cases:
  assumes "\<not> mu_held t"
  shows "OnChange from data t =
    (case apply_change from data (records t) of
       None \<Rightarrow> Some (t\<lparr>mu_held := True\<rparr>)
     | Some (rs, d) \<Rightarrow> Some ((emit_event (tun_ID from) d (t\<lparr>records := rs\<rparr>))
          \<lparr>sent := sent t @ adverts (s_id t) (tun_ID from) d rs\<rparr>))"
  using assms by (simp add: OnChange_def advertise_eq split: option.splits)

lemma table_view_records: "records t = records t' \<Longrightarrow> table_view t = table_view t'"
  by (simp add: table_view_def)

lemma wf_table_records: "records t = records t' \<Longrightarrow> wf_table t = wf_table t'"
  by (simp add: wf_table_def)

lemma OnChange_wf:
  assumes "wf_table t" and "wf_map (peers_of data)" and "OnChange from data t = Some t'"
  shows "wf_table t'"
proof -
  have "\<not> mu_held t" using assms(3) by (auto simp: OnChange_def split: if_splits)
  with assms(1,3) apply_change_view [OF assms(1,2), of "from"] show ?thesis
    by (auto simp: OnChange_cases wf_table_def split: option.splits)
qed

lemma Connect_wf:
  assumes "wf_table t" and "wf_map (peers_of data)" and "Connect_table c data t = Some t'"
  shows "wf_table t'"
  using assms(3) unfolding Connect_table_def
  by (rule OnChange_wf [rotated 2]) (use assms(1,2) in \<open>auto simp: wf_table_def\<close>)

lemma Disconnect_wf:
  assumes "wf_table t" and "Disconnect_table c t = Some (t', b)"
  shows "wf_table t'"
  using assms set_delete_subset [of "tun_ID c" "records t"]
  by (auto simp: Disconnect_table_def Let_def advertise_eq wf_table_def split: if_splits option.splits)

section \<open>Reachability\<close>

lemma map_of_reachable_step:
  assumes "\<forall>r \<in> set rs. wf_record r"
  shows "dom (map_of (foldl (\<lambda>ret (k, val). if k = e then ret
              else AList.update k (Annotations val) (maps_Copy ret (Children val))) acc rs))
     = dom (map_of acc) \<union> {d. \<exists>(k, v) \<in> set rs. k \<noteq> e \<and> (d = k \<or> map_of (Children v) d \<noteq> None)}"
  using assms
proof (induction rs arbitrary: acc)
  case (Cons r rs)
  obtain k v where r: "r = (k, v)" by (cases r)
  with Cons.prems have w: "wf_map (Children v)" by (auto simp: wf_record_def)
  show ?case
  proof (cases "k = e")
    case True
    then show ?thesis using Cons by (auto simp: r)
  next
    case False
    then have "dom (map_of (AList.update k (Annotations v) (maps_Copy acc (Children v))))
        = dom (map_of acc) \<union> {d. d = k \<or> map_of (Children v) d \<noteq> None}"
      using w by (auto simp: map_of_maps_Copy)
    with False Cons show ?thesis by (auto simp: r)
  qed
qed simp

lemma dom_reachable:
  assumes "wf_table t" and "allRechablePeers t e = Some ps"
  shows "dom (map_of ps) = {d. \<exists>(k, v) \<in> set (records t). k \<noteq> e \<and> (d = k \<or> map_of (Children v) d \<noteq> None)}"
proof -
  have "ps = reachable_loop e (records t)"
    using assms(2) by (auto simp: allRechablePeers_def split: if_splits)
  moreover have "\<forall>r \<in> set (records t). wf_record r" using assms(1) by (simp add: wf_table_def)
  ultimately show ?thesis
    using map_of_reachable_step [of "records t" e "[]"] by (simp add: reachable_loop_def)
qed

lemma select_child_Some:
  "select_child d rs = Some c \<Longrightarrow> \<exists>(k, v) \<in> set rs. Channel v = c \<and> map_of (Children v) d \<noteq> None"
  by (induction d rs rule: select_child.induct) (auto split: if_splits)

lemma select_child_None:
  "select_child d rs = None \<longleftrightarrow> (\<forall>(k, v) \<in> set rs. map_of (Children v) d = None)"
  by (induction d rs rule: select_child.induct) auto

text \<open>A channel serves a destination when it is the peer itself or the peer leads to it.\<close>

definition serves :: "route_table \<Rightarrow> connected_tunnel \<Rightarrow> string \<Rightarrow> bool" where
  "serves t c d \<longleftrightarrow> (\<exists>(k, v) \<in> set (records t).
     Channel v = c \<and> (d = k \<or> map_of (Children v) d \<noteq> None))"

lemma Select_cases:
  assumes "wf_table t" and "\<not> mu_held t"
  shows "(\<exists>c. Select t d = Some (Inr c) \<and> serves t c d)
    \<or> ((\<forall>c. \<not> serves t c d) \<and> Select t d =
         Some (case defaultout t of Some c \<Rightarrow> Inr c | None \<Rightarrow> Inl (''no destination for peer '' @ d)))"
proof (cases "map_of (records t) d")
  case (Some v)
  then have "(d, v) \<in> set (records t)" by (rule map_of_SomeD)
  then have "serves t (Channel v) d" by (auto simp: serves_def)
  moreover have "Select t d = Some (Inr (Channel v))" using assms(2) Some by (simp add: Select_def)
  ultimately show ?thesis by blast
next
  case None
  then have nk: "\<forall>(k, v) \<in> set (records t). d \<noteq> k" by (force simp: map_of_eq_None_iff)
  show ?thesis
  proof (cases "select_child d (records t)")
    case (Some c)
    then have "serves t c d"
      using select_child_Some [OF Some] by (auto simp: serves_def)
    moreover have "Select t d = Some (Inr c)" using assms(2) Some None by (simp add: Select_def)
    ultimately show ?thesis by blast
  next
    case c: None
    then have "\<forall>c. \<not> serves t c d"
      using nk by (auto simp: serves_def select_child_None)
    then show ?thesis using assms(2) c None
      by (auto simp: Select_def split: option.splits)
  qed
qed

section \<open>Properties of the route table\<close>

text \<open>A small table for the witnesses: an upstream \<open>up\<close> and a peer \<open>edge\<close> with one sub-peer.\<close>

definition ex_tunnel :: "nat \<Rightarrow> string \<Rightarrow> bool \<Rightarrow> connected_tunnel" where
  "ex_tunnel c i up = \<lparr>chan_id = c, tun_ID = i, AnnotationsSent = [],
                       Options = \<lparr>SendRouteChange = up, IsDefaultOut = up\<rparr>\<rparr>"

definition ex_table :: route_table where
  "ex_table = (NewEmptyRouteTable ''self'')
     \<lparr>records := [(''up'', \<lparr>Channel = ex_tunnel 1 ''up'' True, Annotations = [], Children = []\<rparr>),
                  (''edge'', \<lparr>Channel = ex_tunnel 2 ''edge'' False, Annotations = [],
                             Children = [(''leaf'', [])]\<rparr>)],
      defaultout := Some (ex_tunnel 1 ''up'' True)\<rparr>"

definition ex_route :: "route_update_kind \<Rightarrow> packet_data_route" where
  "ex_route k = \<lparr>pdr_Kind = k, pdr_Annotations = [], pdr_Peers = Some [(''leaf2'', [])]\<rparr>"

lemmas ex_defs = ex_tunnel_def ex_table_def ex_route_def NewEmptyRouteTable_def wf_table_def
  wf_record_def peers_of_def

text \<open>C4: A route update refines the abstract routing map. When the write lock is free, \<open>OnChange\<close> on
  a well-formed table always returns; if the abstract update is defined, the new table means
  exactly that update (a refresh replaces the annotations and sub-peers of the peer and keeps
  the channel of an existing record, a keep-alive and an online add the missing sub-peers, an
  offline removes the named ones), stays well formed and releases the lock; if it is not
  (a keep-alive, online or offline of a peer that has no record), the table keeps its meaning
  and nothing is sent, but the lock stays held.\<close>

theorem OnChange_refines:
  assumes "wf_table t" and "wf_map (peers_of data)" and "\<not> mu_held t"
  shows "\<exists>t'. OnChange from data t = Some t' \<and> wf_table t' \<and> defaultout t' = defaultout t \<and>
    (case abs_change from (pdr_Kind data) (pdr_Annotations data) (map_of (peers_of data)) (table_view t) of
       Some w \<Rightarrow> table_view t' = w \<and> \<not> mu_held t'
     | None \<Rightarrow> table_view t' = table_view t \<and> mu_held t' \<and> sent t' = sent t)"
proof (cases "apply_change from data (records t)")
  case None
  then show ?thesis
    using assms apply_change_view [OF assms(1,2), of "from"]
    by (simp add: OnChange_cases wf_table_def table_view_def)
next
  case (Some p)
  obtain rs d where p: "p = (rs, d)" by (cases p)
  define t' where "t' = (emit_event (tun_ID from) d (t\<lparr>records := rs\<rparr>))
          \<lparr>sent := sent t @ adverts (s_id t) (tun_ID from) d rs\<rparr>"
  have "table_view t' = table_view (t\<lparr>records := rs\<rparr>)" "wf_table t' = wf_table (t\<lparr>records := rs\<rparr>)"
    unfolding t'_def by (rule table_view_records, simp) (rule wf_table_records, simp)
  moreover have "OnChange from data t = Some t'"
    using assms(3) Some by (simp add: OnChange_cases p t'_def)
  moreover have "defaultout t' = defaultout t" "\<not> mu_held t'" using assms(3) by (simp_all add: t'_def)
  ultimately show ?thesis
    using apply_change_view [OF assms(1,2), of "from"] Some by (simp add: p)
qed

theorem OnChange_refines_witness:
  "\<exists>t'. OnChange (ex_tunnel 2 ''edge'' False) (ex_route RouteUpdateKindOnline) ex_table = Some t' \<and>
     table_view t' ''edge'' = Some (ex_tunnel 2 ''edge'' False, [], [''leaf2'' \<mapsto> [], ''leaf'' \<mapsto> []])"
proof -
  let ?c = "ex_tunnel 2 ''edge'' False" and ?d = "ex_route RouteUpdateKindOnline"
  have h: "wf_table ex_table" "wf_map (peers_of ?d)" "\<not> mu_held ex_table"
    by (simp_all add: ex_defs)
  have "[''leaf2'' \<mapsto> []] ++ [''leaf'' \<mapsto> []] = [''leaf2'' \<mapsto> [] :: annotations, ''leaf'' \<mapsto> []]"
    by simp
  then have "abs_change ?c (pdr_Kind ?d) (pdr_Annotations ?d) (map_of (peers_of ?d)) (table_view ex_table)
    = Some ((table_view ex_table)(''edge'' \<mapsto> (?c, [], [''leaf2'' \<mapsto> [], ''leaf'' \<mapsto> []])))"
    by (simp add: ex_defs abs_change_def table_view_def Let_def)
  with OnChange_refines [OF h, of ?c] show ?thesis by auto
qed

text \<open>Split horizon. When an update of a known peer returns, exactly one route packet has been
  appended to the log for every other record whose channel wants route changes, in the order
  of the records, addressed to that record and carrying the annotations this server sends on
  that channel; a refresh is passed on as online and names the peer itself; and nothing goes
  back to the peer the change came from.\<close>

theorem OnChange_advertises:
  assumes "wf_table t" and "\<not> mu_held t" and "OnChange from data t = Some t'" and "\<not> mu_held t'"
  shows "\<exists>d new. sent t' = sent t @ new
    \<and> (pdr_Kind data = RouteUpdateKindReferesh \<longrightarrow> pdr_Kind d = RouteUpdateKindOnline
         \<and> map_of (peers_of d) (tun_ID from) = Some (pdr_Annotations data))
    \<and> (pdr_Kind data \<noteq> RouteUpdateKindReferesh \<longrightarrow> pdr_Kind d = pdr_Kind data)
    \<and> new = map (\<lambda>(k, v). (chan_id (Channel v),
               route_packet (s_id t) k (d\<lparr>pdr_Annotations := AnnotationsSent (Channel v)\<rparr>)))
             (filter (\<lambda>(k, v). k \<noteq> tun_ID from \<and> SendRouteChange (Options (Channel v))) (records t'))
    \<and> (\<forall>(c, p) \<in> set new. Kind p = PacketKindRoute \<and> Dest p \<noteq> tun_ID from)"
proof (cases "apply_change from data (records t)")
  case None
  then show ?thesis using assms(2-4) by (auto simp: OnChange_cases)
next
  case (Some p)
  obtain rs d where p: "p = (rs, d)" by (cases p)
  have t': "sent t' = sent t @ adverts (s_id t) (tun_ID from) d rs" "records t' = rs"
    using assms(2,3) Some by (auto simp: OnChange_cases p)
  have k: "pdr_Kind data = RouteUpdateKindReferesh \<longrightarrow> pdr_Kind d = RouteUpdateKindOnline
         \<and> map_of (peers_of d) (tun_ID from) = Some (pdr_Annotations data)"
    "pdr_Kind data \<noteq> RouteUpdateKindReferesh \<longrightarrow> pdr_Kind d = pdr_Kind data"
    using Some by (auto simp: p apply_change_def Let_def peers_of_def
        split: route_update_kind.splits option.splits)
  show ?thesis
    using t' k by (intro exI [of _ d] exI [of _ "adverts (s_id t) (tun_ID from) d rs"])
      (auto simp: adverts_def route_packet_def)
qed

theorem OnChange_advertises_witness:
  "\<exists>t' c p. OnChange (ex_tunnel 2 ''edge'' False) (ex_route RouteUpdateKindReferesh) ex_table = Some t' \<and>
     sent t' = [(c, p)] \<and> c = 1 \<and> Dest p = ''up''"
proof -
  obtain t' where t': "OnChange (ex_tunnel 2 ''edge'' False) (ex_route RouteUpdateKindReferesh) ex_table = Some t'"
    and r: "records t' = [(''up'', \<lparr>Channel = ex_tunnel 1 ''up'' True, Annotations = [], Children = []\<rparr>),
        (''edge'', \<lparr>Channel = ex_tunnel 2 ''edge'' False, Annotations = [], Children = [(''leaf2'', [])]\<rparr>)]"
    and h: "\<not> mu_held t'" "\<not> mu_held ex_table" "wf_table ex_table" "sent ex_table = []"
    by (simp add: ex_defs OnChange_cases apply_change_def Let_def)
  show ?thesis
    using OnChange_advertises [OF h(3) h(2) t' h(1)] t' h(4)
    by (auto simp: r ex_tunnel_def route_packet_def)
qed

text \<open>C5: Selecting the channel for a destination is right in both directions, in every iteration order
  of the records. On a well-formed, unlocked table \<open>Select\<close> returns a channel that serves the
  destination whenever one exists, which is exactly when the destination is among the peers
  the server reports as reachable; otherwise it returns the default-out tunnel, and the error
  only where there is none; and a directly connected peer is reached over its own channel
  even when another peer claims it as a child.\<close>

theorem Select_correct:
  assumes "wf_table t" and "\<not> mu_held t" and "[] \<notin> fst ` set (records t)"
  shows "\<exists>ps. allRechablePeers t [] = Some ps \<and>
     (map_of ps d \<noteq> None \<longleftrightarrow> (\<exists>c. serves t c d)) \<and>
     (map_of ps d \<noteq> None \<longrightarrow> (\<exists>c. Select t d = Some (Inr c) \<and> serves t c d)) \<and>
     (map_of ps d = None \<longrightarrow> Select t d =
         Some (case defaultout t of Some c \<Rightarrow> Inr c | None \<Rightarrow> Inl (''no destination for peer '' @ d))) \<and>
     (\<forall>v. map_of (records t) d = Some v \<longrightarrow> Select t d = Some (Inr (Channel v)) \<and> tun_ID (Channel v) = d)"
proof -
  obtain ps where ps: "allRechablePeers t [] = Some ps"
    using assms(2) by (simp add: allRechablePeers_def)
  have "map_of ps d \<noteq> None \<longleftrightarrow> d \<in> dom (map_of ps)" by auto
  also have "\<dots> \<longleftrightarrow> (\<exists>(k, v) \<in> set (records t). k \<noteq> [] \<and> (d = k \<or> map_of (Children v) d \<noteq> None))"
    using dom_reachable [OF assms(1) ps] by simp
  also have "\<dots> \<longleftrightarrow> (\<exists>c. serves t c d)"
    using assms(3) unfolding serves_def by force
  finally have r: "map_of ps d \<noteq> None \<longleftrightarrow> (\<exists>c. serves t c d)" .
  have direct: "\<forall>v. map_of (records t) d = Some v \<longrightarrow>
      Select t d = Some (Inr (Channel v)) \<and> tun_ID (Channel v) = d"
    using assms(2) wf_record_lookup [OF assms(1), of d] by (auto simp: Select_def)
  show ?thesis
    using Select_cases [OF assms(1,2), of d] ps r direct by (intro exI [of _ ps]) metis
qed

theorem Select_correct_witness:
  "Select ex_table ''leaf'' = Some (Inr (ex_tunnel 2 ''edge'' False)) \<and>
   Select ex_table ''elsewhere'' = Some (Inr (ex_tunnel 1 ''up'' True)) \<and>
   Select ex_table ''edge'' = Some (Inr (ex_tunnel 2 ''edge'' False))"
proof -
  have h: "wf_table ex_table" "\<not> mu_held ex_table" "[] \<notin> fst ` set (records ex_table)"
    by (simp_all add: ex_defs)
  have s: "serves ex_table c ''leaf'' \<longleftrightarrow> c = ex_tunnel 2 ''edge'' False"
    "\<not> serves ex_table c ''elsewhere''" for c
    by (auto simp: serves_def ex_table_def NewEmptyRouteTable_def)
  have d: "defaultout ex_table = Some (ex_tunnel 1 ''up'' True)"
    "\<exists>v. map_of (records ex_table) ''edge'' = Some v \<and> Channel v = ex_tunnel 2 ''edge'' False"
    by (simp_all add: ex_table_def NewEmptyRouteTable_def)
  show ?thesis
    using Select_correct [OF h, of "''leaf''"] Select_correct [OF h, of "''elsewhere''"]
      Select_correct [OF h, of "''edge''"] s d by auto
qed

text \<open>One stray update stops the server. A keep-alive, online or offline update from a tunnel that
  has no record (and a disconnect of one) returns with the write lock of the route table still
  held; from then on no operation of the table returns: no packet can be routed, no tunnel
  can connect, exchange routes with updates on, or disconnect, and no keep-alive is sent.\<close>

theorem unknown_tunnel_blocks_table:
  assumes "\<not> mu_held t" and "map_of (records t) (tun_ID c) = None"
    and "pdr_Kind data \<in> {RouteUpdateKindKeepAlive, RouteUpdateKindOnline, RouteUpdateKindOffline}"
  shows "OnChange c data t = Some (t\<lparr>mu_held := True\<rparr>)
    \<and> Disconnect_table c t = Some (t\<lparr>mu_held := True\<rparr>, False)
    \<and> (let t' = t\<lparr>mu_held := True\<rparr> in
        Select t' dest = None \<and> Exists t' dest = None \<and> allRechablePeers t' dest = None \<and>
        OnChange c' d' t' = None \<and> Connect_table c' d' t' = None \<and>
        Disconnect_table c' t' = None \<and> SendKeepAlive anno t' = None \<and> Watch uid t' = None)"
  using assms
  by (auto simp: OnChange_def apply_change_def Let_def Disconnect_table_def Select_def Exists_def
      allRechablePeers_def Connect_table_def SendKeepAlive_def Watch_def)

theorem unknown_tunnel_blocks_table_witness:
  "\<exists>t'. OnChange (ex_tunnel 3 ''new'' False) (ex_route RouteUpdateKindOnline) ex_table = Some t' \<and>
     Select t' ''edge'' = None"
  using unknown_tunnel_blocks_table [of ex_table "ex_tunnel 3 ''new'' False"
      "ex_route RouteUpdateKindOnline" "''edge''"]
  by (auto simp: ex_defs Let_def)

text \<open>Disconnecting a connected tunnel removes its record and nothing else, tells the other peers that it
  and all its sub-peers are offline, and no destination is routed to its channel afterwards,
  unless it is the default-out tunnel, which is never cleared.\<close>

theorem Disconnect_removes:
  assumes "wf_table t" and "\<not> mu_held t" and "table_view t (tun_ID c) = Some (c', a, ch)"
  shows "\<exists>t'. Disconnect_table c t = Some (t', True) \<and> wf_table t' \<and> \<not> mu_held t' \<and>
     table_view t' = (table_view t)(tun_ID c := None) \<and> defaultout t' = defaultout t \<and>
     (\<forall>d. Select t' d = Some (Inr e) \<longrightarrow> tun_ID e \<noteq> tun_ID c \<or> defaultout t = Some e) \<and>
     (\<exists>d new. sent t' = sent t @ new \<and> pdr_Kind d = RouteUpdateKindOffline \<and>
        map_of (peers_of d) = (ch(tun_ID c \<mapsto> a)) \<and>
        new = adverts (s_id t) (tun_ID c) d (records t'))"
proof -
  let ?i = "tun_ID c"
  obtain v where v: "map_of (records t) ?i = Some v" "Annotations v = a" "map_of (Children v) = ch"
    using assms(3) by (auto simp: table_view_def)
  define d where "d = \<lparr>pdr_Kind = RouteUpdateKindOffline, pdr_Annotations = [],
        pdr_Peers = Some (AList.update ?i (Annotations v) (Children v))\<rparr>"
  define t0 where "t0 = t\<lparr>records := AList.delete ?i (records t)\<rparr>"
  define t' where "t' = (emit_event ?i d t0)\<lparr>sent := sent t @ adverts (s_id t) ?i d (records t0)\<rparr>"
  have D: "Disconnect_table c t = Some (t', True)"
    using v assms(2) by (simp add: Disconnect_table_def Let_def advertise_eq t'_def t0_def d_def)
  have wf: "wf_table t'" by (rule Disconnect_wf [OF assms(1) D])
  have nm: "\<not> mu_held t'" using assms(2) by (simp add: t'_def t0_def)
  have view: "table_view t' = (table_view t)(?i := None)"
    by (auto simp: t'_def t0_def table_view_def)
  have gone: "\<not> serves t' e d'" if "tun_ID e = ?i" for e d'
  proof
    assume "serves t' e d'"
    then obtain k w where "(k, w) \<in> set (records t')" "Channel w = e" by (auto simp: serves_def)
    moreover have "?i \<notin> fst ` set (records t')" by (simp add: t'_def t0_def flip: map_of_eq_None_iff)
    ultimately show False using wf that by (force simp: wf_table_def wf_record_def)
  qed
  have def: "defaultout t' = defaultout t" by (simp add: t'_def t0_def)
  have sel: "tun_ID e \<noteq> ?i \<or> defaultout t = Some e" if "Select t' d' = Some (Inr e)" for d'
    using Select_cases [OF wf nm, of d'] that gone def by (auto split: option.splits)
  have "sent t' = sent t @ adverts (s_id t) ?i d (records t')" by (simp add: t'_def)
  moreover have "map_of (peers_of d) = (ch(?i \<mapsto> a))" "pdr_Kind d = RouteUpdateKindOffline"
    using v by (simp_all add: d_def peers_of_def)
  ultimately show ?thesis
    using D wf nm view def sel by blast
qed

theorem Disconnect_removes_witness:
  "\<exists>t'. Disconnect_table (ex_tunnel 1 ''up'' True) ex_table = Some (t', True) \<and>
     table_view t' ''up'' = None \<and> defaultout t' = Some (ex_tunnel 1 ''up'' True)"
proof -
  have h: "wf_table ex_table" "\<not> mu_held ex_table"
    "table_view ex_table (tun_ID (ex_tunnel 1 ''up'' True)) = Some (ex_tunnel 1 ''up'' True, [], Map.empty)"
    "defaultout ex_table = Some (ex_tunnel 1 ''up'' True)"
    by (simp_all add: ex_defs table_view_def)
  have i: "tun_ID (ex_tunnel 1 ''up'' True) = ''up''" by (simp add: ex_tunnel_def)
  obtain t' where "Disconnect_table (ex_tunnel 1 ''up'' True) ex_table = Some (t', True)"
    "table_view t' = (table_view ex_table)(''up'' := None)" "defaultout t' = defaultout ex_table"
    using Disconnect_removes [OF h(1-3)] unfolding i by blast
  then show ?thesis using h(4) by simp
qed

end
