(* ===== verification/Edge_Cluster.thy ===== *)
theory Edge_Cluster
  imports Tunnel_Route Api_Store
begin

text \<open>
  The edge server's view of its clusters and hubs (\<open>pkg/edge/server/clusters.go\<close>,
  \<open>store_cluster.go\<close>, \<open>store_hub.go\<close>): clusters are registered ahead, agents are installed with a token,
  and the events of the tunnel's route table set what is online.

  An object is what a request to the object can change, its metadata and specification, and its
  status, which only a request to the status can change. Times are numbers. A Go map of annotations
  that is nil is an empty one here. The handler of an event writes the address of the hub into the
  map of annotations it got, which the route table shares; the model hands it a copy.
\<close>

section \<open>Objects\<close>

datatype edge_phase = EdgePhaseUnset | EdgePhaseWaiting | EdgePhaseOnline | EdgePhaseOffline

record edge_certs =
  ce_CA :: string
  ce_Cert :: string
  ce_Key :: string

record register_info =
  ri_HubName :: string
  ri_ExpiresAt :: "nat option"
  ri_Image :: string
  ri_BootstrapToken :: string
  ri_Certs :: "edge_certs option"

record register_status =
  rg_LastRegister :: "nat option"
  rg_LastRegisterToken :: string
  rg_URL :: string

record tunnel_status =
  tn_Connected :: bool
  tn_LastOnline :: "nat option"
  tn_LastOffline :: "nat option"
  tn_LastHeartBeat :: "nat option"

record cluster_meta =
  cm_Labels :: labels
  cm_Annotations :: labels
  cm_Register :: register_info

record cluster_status =
  cs_Phase :: edge_phase
  cs_Register :: register_status
  cs_Tunnel :: tunnel_status
  cs_Manufacture :: labels

record hub_status =
  hs_Phase :: edge_phase
  hs_Address :: string
  hs_Tunnel :: tunnel_status
  hs_Manufacture :: labels

type_synonym edge_cluster = "cluster_meta \<times> cluster_status"
type_synonym edge_hub = "labels \<times> hub_status"

record edge_world =
  ew_clusters :: "(string, edge_cluster) gomap"
  ew_hubs :: "(string, edge_hub) gomap"

definition zero_tunnel :: tunnel_status where
  "zero_tunnel = \<lparr>tn_Connected = False, tn_LastOnline = None, tn_LastOffline = None, tn_LastHeartBeat = None\<rparr>"

definition zero_cluster :: edge_cluster where
  "zero_cluster =
     (\<lparr>cm_Labels = [], cm_Annotations = [],
       cm_Register = \<lparr>ri_HubName = [], ri_ExpiresAt = None, ri_Image = [], ri_BootstrapToken = [], ri_Certs = None\<rparr>\<rparr>,
      \<lparr>cs_Phase = EdgePhaseUnset,
       cs_Register = \<lparr>rg_LastRegister = None, rg_LastRegisterToken = [], rg_URL = []\<rparr>,
       cs_Tunnel = zero_tunnel, cs_Manufacture = []\<rparr>)"

definition zero_hub :: edge_hub where
  "zero_hub = ([], \<lparr>hs_Phase = EdgePhaseUnset, hs_Address = [], hs_Tunnel = zero_tunnel, hs_Manufacture = []\<rparr>)"

definition AnnotationKeyEdgeHubAddress :: string where
  "AnnotationKeyEdgeHubAddress = ''edge.kubegems.io/edge-hub-address''"
definition AnnotationKeyEdgeHubCert :: string where
  "AnnotationKeyEdgeHubCert = ''edge.kubegems.io/edge-hub-key''"
definition AnnotationKeyEdgeHubCA :: string where
  "AnnotationKeyEdgeHubCA = ''edge.kubegems.io/edge-hub-ca''"
definition AnnotationKeyEdgeHubKey :: string where
  "AnnotationKeyEdgeHubKey = ''edge.kubegems.io/edge-hub-cert''"
definition AnnotationKeyEdgeAgentRegisterAddress :: string where
  "AnnotationKeyEdgeAgentRegisterAddress = ''edge.kubegems.io/edge-agent-register-address''"
definition AnnotationKeyDeviceID :: string where
  "AnnotationKeyDeviceID = ''edge.kubegems.io/device-id''"
definition AnnotationIsTemporaryConnect :: string where
  "AnnotationIsTemporaryConnect = ''edge.kubegems.io/temporary-connect''"

section \<open>The store\<close>

datatype edge_verb = GetObject | CreateObject | PatchObject | PatchStatus

text \<open>
  The object is created without its status, which a second request adds; what exists is patched where
  it changed, first the object, then the status. The result says whether no request failed.
\<close>

definition CreateOrUpdateWithStatus ::
  "(edge_verb \<Rightarrow> bool) \<Rightarrow> 'm \<times> 's \<Rightarrow> 'k \<Rightarrow> ('m \<times> 's \<Rightarrow> ('m \<times> 's) option) \<Rightarrow> ('k, 'm \<times> 's) gomap
    \<Rightarrow> ('k, 'm \<times> 's) gomap \<times> bool" where
  "CreateOrUpdateWithStatus fl zero key f store =
     (if fl GetObject then (store, False)
      else case map_of store key of
        None \<Rightarrow>
          (case f zero of
             None \<Rightarrow> (store, False)
           | Some obj \<Rightarrow>
               if fl CreateObject then (store, False)
               else let store = AList.update key (fst obj, snd zero) store in
                    if fl PatchStatus then (store, False)
                    else (AList.update key obj store, True))
      | Some old \<Rightarrow>
          (case f old of
             None \<Rightarrow> (store, False)
           | Some obj \<Rightarrow>
               if fst obj \<noteq> fst old \<and> fl PatchObject then (store, False)
               else let store = (if fst obj \<noteq> fst old then AList.update key (fst obj, snd old) store else store) in
                    if snd obj \<noteq> snd old
                    then (if fl PatchStatus then (store, False) else (AList.update key obj store, True))
                    else (store, True)))"

definition Update_cluster ::
  "(edge_verb \<Rightarrow> bool) \<Rightarrow> string \<Rightarrow> (edge_cluster \<Rightarrow> edge_cluster option) \<Rightarrow> edge_world \<Rightarrow> edge_world \<times> bool" where
  "Update_cluster fl name f w =
     (let (cs, ok) = CreateOrUpdateWithStatus fl zero_cluster name f (ew_clusters w) in (w\<lparr>ew_clusters := cs\<rparr>, ok))"

definition Update_hub ::
  "(edge_verb \<Rightarrow> bool) \<Rightarrow> string \<Rightarrow> (edge_hub \<Rightarrow> edge_hub option) \<Rightarrow> edge_world \<Rightarrow> edge_world \<times> bool" where
  "Update_hub fl name f w =
     (let (hs, ok) = CreateOrUpdateWithStatus fl zero_hub name f (ew_hubs w) in (w\<lparr>ew_hubs := hs\<rparr>, ok))"

definition Delete_cluster :: "bool \<Rightarrow> string \<Rightarrow> edge_world \<Rightarrow> edge_world \<times> delete_result" where
  "Delete_cluster fails name w =
     (let (cs, r) = api_delete fails name (ew_clusters w) in (w\<lparr>ew_clusters := cs\<rparr>, r))"

text \<open>The filter of the list of clusters; \<open>manufacture\<close> is the selector on the annotations.\<close>

definition search_cluster :: "string \<Rightarrow> (labels \<Rightarrow> bool) option \<Rightarrow> string \<Rightarrow> edge_cluster \<Rightarrow> bool" where
  "search_cluster search manufacture name item =
     (((search = [] \<or> contains_str name search) \<or>
       (search = [] \<or> cs_Manufacture (snd item) = [] \<or>
        get_str (cs_Manufacture (snd item)) AnnotationKeyDeviceID = [] \<or>
        contains_str (get_str (cs_Manufacture (snd item)) AnnotationKeyDeviceID) search)) \<and>
      (case manufacture of None \<Rightarrow> True | Some sel \<Rightarrow> sel (cs_Manufacture (snd item))))"

definition search_hub :: "string \<Rightarrow> (labels \<Rightarrow> bool) option \<Rightarrow> string \<Rightarrow> edge_hub \<Rightarrow> bool" where
  "search_hub search manufacture name item =
     ((search = [] \<or> contains_str name search) \<and>
      (case manufacture of None \<Rightarrow> True | Some sel \<Rightarrow> sel (hs_Manufacture (snd item))))"

section \<open>Registration\<close>

definition precreate_spec :: "string \<Rightarrow> string \<Rightarrow> cluster_meta \<Rightarrow> edge_cluster \<Rightarrow> edge_cluster" where
  "precreate_spec selfaddress name example obj =
     (let (m, s) = obj;
          m = m\<lparr>cm_Annotations := maps_Copy (cm_Annotations m) (cm_Annotations example),
                cm_Labels := maps_Copy (cm_Labels m) (cm_Labels example),
                cm_Register := cm_Register example\<rparr>;
          s = (if cs_Phase s \<noteq> EdgePhaseOnline then s\<lparr>cs_Phase := EdgePhaseWaiting\<rparr> else s);
          selfaddr = (if has_prefix selfaddress ''http'' then selfaddress else ''http://'' @ selfaddress);
          manifestAddress = selfaddr @ ''/v1/edge-clusters/'' @ name @ ''/agent-installer.yaml?token=''
            @ ri_BootstrapToken (cm_Register m)
      in (m, s\<lparr>cs_Register := (cs_Register s)\<lparr>rg_URL := manifestAddress\<rparr>\<rparr>))"

definition PreCreate ::
  "(edge_verb \<Rightarrow> bool) \<Rightarrow> (string \<Rightarrow> bool) \<Rightarrow> string \<Rightarrow> string \<Rightarrow> cluster_meta \<Rightarrow> edge_world \<Rightarrow> edge_world \<times> bool" where
  "PreCreate fl hubfails selfaddress name example w =
     (if hubfails (ri_HubName (cm_Register example)) \<or> map_of (ew_hubs w) (ri_HubName (cm_Register example)) = None
      then (w, False)
      else Update_cluster fl name (\<lambda>obj. Some (precreate_spec selfaddress name example obj)) w)"

text \<open>The handlers that create, change and remove a cluster; \<open>uid\<close> and \<open>token\<close> are the random strings.\<close>

definition PreCreateEdgeCluster ::
  "(edge_verb \<Rightarrow> bool) \<Rightarrow> (string \<Rightarrow> bool) \<Rightarrow> string \<Rightarrow> string \<Rightarrow> string \<Rightarrow> string \<Rightarrow> cluster_meta \<Rightarrow> edge_world
    \<Rightarrow> edge_world \<times> bool" where
  "PreCreateEdgeCluster fl hubfails selfaddress uid token name body w =
     (let name = (if name = [] then uid else name);
          body = (if ri_BootstrapToken (cm_Register body) = []
            then body\<lparr>cm_Register := (cm_Register body)\<lparr>ri_BootstrapToken := filter (\<lambda>c. c \<noteq> CHR ''-'') token\<rparr>\<rparr> else body)
      in PreCreate fl hubfails selfaddress name body w)"

definition UpdateEdgeCluster ::
  "(edge_verb \<Rightarrow> bool) \<Rightarrow> string \<Rightarrow> cluster_meta \<Rightarrow> edge_world \<Rightarrow> edge_world \<times> bool" where
  "UpdateEdgeCluster fl uid upd =
     Update_cluster fl uid (\<lambda>(m, s). Some (m\<lparr>cm_Register := cm_Register upd, cm_Labels := cm_Labels upd,
        cm_Annotations := cm_Annotations upd\<rparr>, s))"

section \<open>Installation\<close>

text \<open>
  What of the installed objects depends on the arguments: the image of the agent, its arguments and the
  secret with its certificates.
\<close>

record agent_install =
  ai_Image :: string
  ai_Args :: "string list"
  ai_Secret :: labels

definition DefaultEdgeAgentImage :: string where
  "DefaultEdgeAgentImage = ''docker.io/kubegems/kubegems-edge-agent:latest''"

definition RenderManifets :: "string \<Rightarrow> string \<Rightarrow> string \<Rightarrow> edge_certs \<Rightarrow> agent_install" where
  "RenderManifets uid img edgehubaddress certs =
     (let img = (if img = [] then DefaultEdgeAgentImage else img) in
      \<lparr>ai_Image = img,
       ai_Args = [''--listen=:8080'', ''--edgehubaddr='' @ edgehubaddress, ''--deviceid='' @ uid],
       ai_Secret = [(''tls.crt'', ce_Cert certs), (''tls.key'', ce_Key certs), (''ca.crt'', ce_CA certs)]\<rparr>)"

text \<open>\<open>issue\<close> is \<open>IssueCertificate\<close>: from the certificates of the hub, the name and the expiry, a certificate and a key.\<close>

definition gencert ::
  "(edge_certs \<Rightarrow> string \<Rightarrow> nat option \<Rightarrow> (string \<times> string) option) \<Rightarrow> string \<Rightarrow> nat option \<Rightarrow> edge_hub \<Rightarrow> edge_certs option" where
  "gencert issue cn expire hub =
     (let ma = hs_Manufacture (snd hub);
          hubcert = \<lparr>ce_CA = get_str ma AnnotationKeyEdgeHubCA, ce_Cert = get_str ma AnnotationKeyEdgeHubCert,
            ce_Key = get_str ma AnnotationKeyEdgeHubKey\<rparr>
      in if ce_Cert hubcert = [] \<or> ce_Key hubcert = [] then None
         else case issue hubcert cn expire of
             None \<Rightarrow> None
           | Some (certpem, keypem) \<Rightarrow> Some \<lparr>ce_CA = ce_Cert hubcert, ce_Cert = certpem, ce_Key = keypem\<rparr>)"

datatype install_error =
    ClusterError | InvalidToken | NoHubName | HubError | NoHubAddress | CertError | UpdateError

definition RenderInstallManifests ::
  "(edge_certs \<Rightarrow> string \<Rightarrow> nat option \<Rightarrow> (string \<times> string) option) \<Rightarrow> (edge_verb \<Rightarrow> bool) \<Rightarrow> bool \<Rightarrow> bool \<Rightarrow> nat
    \<Rightarrow> string \<Rightarrow> string \<Rightarrow> edge_world \<Rightarrow> edge_world \<times> (install_error + agent_install)" where
  "RenderInstallManifests issue fl getfails hubfails now uid token w =
     (case (if getfails then None else map_of (ew_clusters w) uid) of
        None \<Rightarrow> (w, Inl ClusterError)
      | Some exists \<Rightarrow>
          let reg = cm_Register (fst exists) in
          if ri_BootstrapToken reg \<noteq> token then (w, Inl InvalidToken)
          else if ri_HubName reg = [] then (w, Inl NoHubName)
          else case (if hubfails then None else map_of (ew_hubs w) (ri_HubName reg)) of
              None \<Rightarrow> (w, Inl HubError)
            | Some hub \<Rightarrow>
                let hubaddress = get_str (hs_Manufacture (snd hub)) AnnotationKeyEdgeHubAddress in
                if hubaddress = [] then (w, Inl NoHubAddress)
                else case (case ri_Certs reg of Some c \<Rightarrow> Some c | None \<Rightarrow> gencert issue uid (ri_ExpiresAt reg) hub) of
                    None \<Rightarrow> (w, Inl CertError)
                  | Some certs \<Rightarrow>
                      let (w, ok) = Update_cluster fl uid (\<lambda>(m, s). Some (m, s\<lparr>cs_Register := (cs_Register s)
                            \<lparr>rg_LastRegister := Some now, rg_LastRegisterToken := token\<rparr>\<rparr>)) w
                      in if ok then (w, Inr (RenderManifets uid (ri_Image reg) hubaddress certs)) else (w, Inl UpdateError))"

section \<open>What the tunnel tells\<close>

definition hub_connection :: "nat \<Rightarrow> bool \<Rightarrow> string \<Rightarrow> annotations \<Rightarrow> edge_hub \<Rightarrow> edge_hub" where
  "hub_connection now connected address anno hub =
     (let s = (snd hub)\<lparr>hs_Tunnel := (hs_Tunnel (snd hub))\<lparr>tn_Connected := connected\<rparr>, hs_Manufacture := anno\<rparr>
      in (fst hub,
          if connected
          then s\<lparr>hs_Address := address, hs_Tunnel := (hs_Tunnel s)\<lparr>tn_LastOnline := Some now\<rparr>, hs_Phase := EdgePhaseOnline\<rparr>
          else s\<lparr>hs_Tunnel := (hs_Tunnel s)\<lparr>tn_LastOffline := Some now\<rparr>, hs_Phase := EdgePhaseOffline\<rparr>))"

definition cluster_connection ::
  "nat \<Rightarrow> bool \<Rightarrow> bool \<Rightarrow> annotations \<Rightarrow> annotations \<Rightarrow> edge_cluster \<Rightarrow> edge_cluster" where
  "cluster_connection now connected isrefresh fromannotations anno cluster =
     (let (m, s) = cluster;
          s = s\<lparr>cs_Tunnel := (cs_Tunnel s)\<lparr>tn_Connected := connected\<rparr>\<rparr>;
          val = get_str fromannotations AnnotationKeyEdgeHubAddress;
          anno = (if \<not> isrefresh \<and> val \<noteq> [] then AList.update AnnotationKeyEdgeAgentRegisterAddress val anno else anno);
          deviceid = get_str anno AnnotationKeyDeviceID;
          m = (if deviceid \<noteq> [] then m\<lparr>cm_Labels := AList.update AnnotationKeyDeviceID deviceid (cm_Labels m)\<rparr> else m);
          s = s\<lparr>cs_Manufacture := anno\<rparr>
      in (m, if connected
             then s\<lparr>cs_Tunnel := (if isrefresh then (cs_Tunnel s)\<lparr>tn_LastHeartBeat := Some now\<rparr>
                                  else (cs_Tunnel s)\<lparr>tn_LastOnline := Some now\<rparr>),
                    cs_Phase := EdgePhaseOnline\<rparr>
             else s\<lparr>cs_Tunnel := (cs_Tunnel s)\<lparr>tn_LastOffline := Some now\<rparr>, cs_Phase := EdgePhaseOffline\<rparr>))"

definition OnTunnelConnectedStatusChange ::
  "(edge_verb \<Rightarrow> bool) \<Rightarrow> nat \<Rightarrow> bool \<Rightarrow> bool \<Rightarrow> annotations \<Rightarrow> string \<Rightarrow> annotations \<Rightarrow> edge_world \<Rightarrow> edge_world \<times> bool" where
  "OnTunnelConnectedStatusChange fl now connected isrefresh fromannotations name anno w =
     (if parse_bool (get_str anno AnnotationIsTemporaryConnect) = Some True then (w, True)
      else case map_of anno AnnotationKeyEdgeHubAddress of
          Some address \<Rightarrow>
            (if isrefresh then (w, True)
             else Update_hub fl name (\<lambda>hub. Some (hub_connection now connected address anno hub)) w)
        | None \<Rightarrow>
            Update_cluster fl name (\<lambda>c. Some (cluster_connection now connected isrefresh fromannotations anno c)) w)"

text \<open>One event: its peers one after the other, an error of one does not keep the others from being handled.\<close>

definition sync_event :: "(string \<Rightarrow> edge_verb \<Rightarrow> bool) \<Rightarrow> nat \<Rightarrow> tunnel_event \<Rightarrow> edge_world \<Rightarrow> edge_world" where
  "sync_event fl now ev w =
     foldl (\<lambda>w (name, anno). fst (OnTunnelConnectedStatusChange (fl name) now
           (EvKind ev \<noteq> EventKindDisConnected) (EvKind ev = EventKindKeepalive) (FromAnnotations ev) name anno w))
       w (Peers ev)"

definition SyncTunnelStatusFrom ::
  "(string \<Rightarrow> edge_verb \<Rightarrow> bool) \<Rightarrow> nat \<Rightarrow> tunnel_event list \<Rightarrow> edge_world \<Rightarrow> edge_world" where
  "SyncTunnelStatusFrom fl now events w = foldl (\<lambda>w ev. sync_event fl now ev w) w events"

section \<open>The store, by key\<close>

lemma CreateOrUpdate_at:
  assumes "\<not> fl GetObject" and "f (case map_of store key of None \<Rightarrow> zero | Some old \<Rightarrow> old) = Some obj"
    and "\<not> fl CreateObject" "\<not> fl PatchObject" "\<not> fl PatchStatus"
  shows "CreateOrUpdateWithStatus fl zero key f store =
    (fst (CreateOrUpdateWithStatus fl zero key f store), True)"
    and "map_of (fst (CreateOrUpdateWithStatus fl zero key f store)) n = (if n = key then Some obj else map_of store n)"
proof -
  have "CreateOrUpdateWithStatus fl zero key f store =
      (fst (CreateOrUpdateWithStatus fl zero key f store), True) \<and>
      map_of (fst (CreateOrUpdateWithStatus fl zero key f store)) n = (if n = key then Some obj else map_of store n)"
    using assms by (cases "map_of store key"; cases obj)
      (auto simp: CreateOrUpdateWithStatus_def prod_eq_iff Let_def simp del: map_of_eq_Some_iff)
  then show "CreateOrUpdateWithStatus fl zero key f store =
      (fst (CreateOrUpdateWithStatus fl zero key f store), True)"
    "map_of (fst (CreateOrUpdateWithStatus fl zero key f store)) n = (if n = key then Some obj else map_of store n)"
    by blast+
qed

lemma CreateOrUpdate_other:
  "n \<noteq> key \<Longrightarrow> map_of (fst (CreateOrUpdateWithStatus fl zero key f store)) n = map_of store n"
  by (auto simp: CreateOrUpdateWithStatus_def Let_def split: option.split)

text \<open>Without failures an update is the change of one object.\<close>

abbreviation fine :: "edge_verb \<Rightarrow> bool" where "fine \<equiv> \<lambda>_. False"

lemma Update_cluster_at:
  "map_of (ew_clusters (fst (Update_cluster fine name (\<lambda>c. Some (f c)) w))) n =
    (if n = name then Some (f (case map_of (ew_clusters w) name of None \<Rightarrow> zero_cluster | Some c \<Rightarrow> c))
     else map_of (ew_clusters w) n)"
  "ew_hubs (fst (Update_cluster fl name g w)) = ew_hubs w"
  using CreateOrUpdate_at(2) [where fl = fine and f = "\<lambda>c. Some (f c)" and zero = zero_cluster and store = "ew_clusters w"
      and key = name, OF _ refl]
  by (simp_all add: Update_cluster_def case_prod_unfold Let_def)

lemma Update_hub_at:
  "map_of (ew_hubs (fst (Update_hub fine name (\<lambda>c. Some (h c)) w))) n =
    (if n = name then Some (h (case map_of (ew_hubs w) name of None \<Rightarrow> zero_hub | Some c \<Rightarrow> c))
     else map_of (ew_hubs w) n)"
  "ew_clusters (fst (Update_hub fl name k w)) = ew_clusters w"
  using CreateOrUpdate_at(2) [where fl = fine and f = "\<lambda>c. Some (h c)" and zero = zero_hub and store = "ew_hubs w"
      and key = name, OF _ refl]
  by (simp_all add: Update_hub_def case_prod_unfold Let_def)


section \<open>Phases and routes\<close>

text \<open>What the handler takes a peer for: it ignores temporary ones.\<close>

datatype peer_role = TempPeer | HubPeer | ClusterPeer

definition role_of :: "annotations \<Rightarrow> peer_role" where
  "role_of anno =
     (if parse_bool (get_str anno AnnotationIsTemporaryConnect) = Some True then TempPeer
      else if map_of anno AnnotationKeyEdgeHubAddress \<noteq> None then HubPeer else ClusterPeer)"

definition online :: "edge_world \<Rightarrow> peer_role \<Rightarrow> string \<Rightarrow> bool" where
  "online w r n =
     (case r of
        TempPeer \<Rightarrow> False
      | HubPeer \<Rightarrow> (case map_of (ew_hubs w) n of None \<Rightarrow> False | Some h \<Rightarrow> hs_Phase (snd h) = EdgePhaseOnline)
      | ClusterPeer \<Rightarrow> (case map_of (ew_clusters w) n of None \<Rightarrow> False | Some c \<Rightarrow> cs_Phase (snd c) = EdgePhaseOnline))"

definition annos_ok :: "(string \<Rightarrow> peer_role) \<Rightarrow> (string, annotations) gomap \<Rightarrow> bool" where
  "annos_ok rl ps \<longleftrightarrow> (\<forall>(n, a) \<in> set ps. role_of a = rl n)"

abbreviation names_of :: "(string, annotations) gomap \<Rightarrow> string set" where
  "names_of ps \<equiv> fst ` set ps"

lemma hub_phase: "hs_Phase (snd (hub_connection now connected address anno hub)) =
    (if connected then EdgePhaseOnline else EdgePhaseOffline)"
  by (simp add: hub_connection_def Let_def)

lemma cluster_phase: "cs_Phase (snd (cluster_connection now connected isrefresh fa anno c)) =
    (if connected then EdgePhaseOnline else EdgePhaseOffline)"
  by (simp add: cluster_connection_def Let_def case_prod_unfold)

lemma status_change_online:
  assumes "role_of anno = rl name" and "rl n \<noteq> TempPeer"
  shows "online (fst (OnTunnelConnectedStatusChange fine now connected isrefresh fa name anno w)) (rl n) n =
    (if n = name \<and> \<not> (isrefresh \<and> rl n = HubPeer) then connected else online w (rl n) n)"
proof (cases "role_of anno")
  case TempPeer
  then have "OnTunnelConnectedStatusChange fine now connected isrefresh fa name anno w = (w, True)"
    by (simp add: role_of_def OnTunnelConnectedStatusChange_def split: if_splits)
  then show ?thesis using assms TempPeer by auto
next
  case HubPeer
  then obtain address where "map_of anno AnnotationKeyEdgeHubAddress = Some address"
    and "parse_bool (get_str anno AnnotationIsTemporaryConnect) \<noteq> Some True"
    by (auto simp: role_of_def split: if_splits)
  then show ?thesis using assms HubPeer
    by (cases "rl n") (auto simp: OnTunnelConnectedStatusChange_def online_def Update_hub_at hub_phase
        simp del: map_of_eq_Some_iff)
next
  case ClusterPeer
  then have "map_of anno AnnotationKeyEdgeHubAddress = None"
    and "parse_bool (get_str anno AnnotationIsTemporaryConnect) \<noteq> Some True"
    by (auto simp: role_of_def split: if_splits)
  then show ?thesis using assms ClusterPeer
    by (cases "rl n") (auto simp: OnTunnelConnectedStatusChange_def online_def Update_cluster_at cluster_phase
        simp del: map_of_eq_Some_iff)
qed

lemma sync_event_online:
  assumes "annos_ok rl (Peers ev)" and "rl n \<noteq> TempPeer"
  shows "online (sync_event (\<lambda>_. fine) now ev w) (rl n) n =
    (if n \<in> names_of (Peers ev) \<and> \<not> (EvKind ev = EventKindKeepalive \<and> rl n = HubPeer)
     then EvKind ev \<noteq> EventKindDisConnected else online w (rl n) n)"
proof -
  have "online (foldl (\<lambda>w (name, anno). fst (OnTunnelConnectedStatusChange fine now
           (EvKind ev \<noteq> EventKindDisConnected) (EvKind ev = EventKindKeepalive) (FromAnnotations ev) name anno w)) w ps)
      (rl n) n =
    (if n \<in> names_of ps \<and> \<not> (EvKind ev = EventKindKeepalive \<and> rl n = HubPeer)
     then EvKind ev \<noteq> EventKindDisConnected else online w (rl n) n)" if "annos_ok rl ps" for ps
    using that
  proof (induction ps arbitrary: w)
    case (Cons p ps)
    obtain name anno where p: "p = (name, anno)" by (cases p)
    with Cons.prems have "role_of anno = rl name" "annos_ok rl ps" by (auto simp: annos_ok_def)
    then show ?case
      using status_change_online [where rl = rl and n = n and anno = anno and name = name] assms(2) Cons.IH
      by (auto simp: p)
  qed simp
  from this [OF assms(1)] show ?thesis by (simp add: sync_event_def)
qed

text \<open>Who serves a name: the peer itself, or the one direct peer that leads to it.\<close>

definition served :: "route_table \<Rightarrow> string \<Rightarrow> string \<Rightarrow> bool" where
  "served t n i \<longleftrightarrow> (\<exists>v. map_of (records t) i = Some v \<and> (n = i \<or> map_of (Children v) n \<noteq> None))"

definition reaches :: "route_table \<Rightarrow> string \<Rightarrow> bool" where
  "reaches t n \<longleftrightarrow> (\<exists>i. served t n i)"

definition tidy :: "(string \<Rightarrow> peer_role) \<Rightarrow> route_table \<Rightarrow> bool" where
  "tidy rl t \<longleftrightarrow> wf_table t \<and> \<not> mu_held t \<and> map_of (records t) [] = None \<and> (\<forall>n i j. served t n i \<longrightarrow> served t n j \<longrightarrow> i = j) \<and>
     (\<forall>i v. map_of (records t) i = Some v \<longrightarrow> role_of (Annotations v) = rl i \<and> annos_ok rl (Children v))"

datatype route_step =
    Join connected_tunnel packet_data_route
  | Change connected_tunnel packet_data_route
  | Leave connected_tunnel

fun run_step :: "route_step \<Rightarrow> route_table \<Rightarrow> route_table option" where
  "run_step (Join c d) t = Connect_table c d t"
| "run_step (Change c d) t = OnChange c d t"
| "run_step (Leave c) t = map_option fst (Disconnect_table c t)"

text \<open>
  The steps of a forest: a tunnel that joins brings names nobody served, a tunnel announces names
  it serves or nobody does, and a hub is not first heard of in a keep-alive.
\<close>

fun allowed :: "(string \<Rightarrow> peer_role) \<Rightarrow> route_table \<Rightarrow> route_step \<Rightarrow> bool" where
  "allowed rl t (Join c d) \<longleftrightarrow>
     pdr_Kind d = RouteUpdateKindReferesh \<and> tun_ID c \<noteq> [] \<and> wf_map (peers_of d) \<and>
     (\<forall>n \<in> insert (tun_ID c) (names_of (peers_of d)). \<not> reaches t n) \<and>
     role_of (pdr_Annotations d) = rl (tun_ID c) \<and> annos_ok rl (peers_of d)"
| "allowed rl t (Change c d) \<longleftrightarrow>
     map_of (records t) (tun_ID c) \<noteq> None \<and> wf_map (peers_of d) \<and>
     (\<forall>n \<in> names_of (peers_of d). \<forall>i. served t n i \<longrightarrow> i = tun_ID c) \<and>
     role_of (pdr_Annotations d) = rl (tun_ID c) \<and> annos_ok rl (peers_of d) \<and>
     (case pdr_Kind d of
        RouteUpdateKindKeepAlive \<Rightarrow> (\<forall>n \<in> names_of (peers_of d). rl n = HubPeer \<longrightarrow> reaches t n)
      | RouteUpdateKindOnline \<Rightarrow> True
      | RouteUpdateKindOffline \<Rightarrow> tun_ID c \<notin> names_of (peers_of d)
      | _ \<Rightarrow> False)"
| "allowed rl t (Leave c) \<longleftrightarrow> map_of (records t) (tun_ID c) \<noteq> None"


lemma annos_ok_update: "annos_ok rl m \<Longrightarrow> role_of a = rl k \<Longrightarrow> annos_ok rl (AList.update k a m)"
  using set_update_subset [of k a m] by (auto simp: annos_ok_def)

lemma annos_ok_simps [simp]:
  "annos_ok rl []" "annos_ok rl ((k, a) # ps) \<longleftrightarrow> role_of a = rl k \<and> annos_ok rl ps"
  by (auto simp: annos_ok_def)

lemma annos_ok_Copy: "annos_ok rl dst \<Longrightarrow> annos_ok rl src \<Longrightarrow> annos_ok rl (maps_Copy dst src)"
  unfolding maps_Copy_def by (induction src arbitrary: dst) (auto simp: annos_ok_update)

lemma annos_ok_missing: "annos_ok rl dst \<Longrightarrow> annos_ok rl src \<Longrightarrow> annos_ok rl (add_missing dst src)"
  unfolding add_missing_def by (induction src arbitrary: dst) (auto simp: annos_ok_update)

lemma annos_ok_delete: "annos_ok rl dst \<Longrightarrow> annos_ok rl (AList.delete k dst)"
  using set_delete_subset [of k dst] by (auto simp: annos_ok_def)

lemma annos_ok_remove: "annos_ok rl dst \<Longrightarrow> annos_ok rl (remove_all_keys dst src)"
  unfolding remove_all_keys_def by (induction src arbitrary: dst) (auto simp: annos_ok_delete)

lemma names_of_dom: "names_of m = dom (map_of m)"
  by (simp add: dom_map_of_conv_image_fst)

lemma names_Copy: "wf_map src \<Longrightarrow> names_of (maps_Copy dst src) = names_of dst \<union> names_of src"
  by (auto simp: names_of_dom map_of_maps_Copy)


text \<open>The event a change is told with.\<close>

definition told :: "event_kind \<Rightarrow> annotations \<Rightarrow> (string, annotations) gomap \<Rightarrow> string \<Rightarrow> route_table \<Rightarrow> route_table \<Rightarrow> bool" where
  "told k a ps i t t' \<longleftrightarrow> \<not> mu_held t' \<and>
     watchers t' = watchers (sendWatcherEvent \<lparr>From = i, FromAnnotations = a, EvKind = k, Peers = ps\<rparr> t)"

lemma OnChange_known:
  assumes "\<not> mu_held t" and "map_of (records t) (tun_ID c) = Some val"
  shows "pdr_Kind d = RouteUpdateKindKeepAlive \<Longrightarrow> \<exists>t'. OnChange c d t = Some t' \<and>
      told EventKindKeepalive (pdr_Annotations d)
        (AList.update (tun_ID c) (pdr_Annotations d) (maps_Copy [] (peers_of d))) (tun_ID c) t t' \<and>
      records t' = AList.update (tun_ID c) (val\<lparr>Children := add_missing (Children val) (peers_of d),
        Annotations := pdr_Annotations d\<rparr>) (records t)"
    and "pdr_Kind d = RouteUpdateKindOnline \<Longrightarrow> \<exists>t'. OnChange c d t = Some t' \<and>
      told EventKindConnected (pdr_Annotations d) (maps_Copy [] (peers_of d)) (tun_ID c) t t' \<and>
      records t' = AList.update (tun_ID c) (val\<lparr>Children := add_missing (Children val) (peers_of d)\<rparr>) (records t)"
    and "pdr_Kind d = RouteUpdateKindOffline \<Longrightarrow> \<exists>t'. OnChange c d t = Some t' \<and>
      told EventKindDisConnected (Annotations val) (maps_Copy [] (peers_of d)) (tun_ID c) t t' \<and>
      records t' = AList.update (tun_ID c) (val\<lparr>Children := remove_all_keys (Children val) (peers_of d)\<rparr>) (records t)"
  using assms
  by (simp_all add: OnChange_cases apply_change_def Let_def told_def emit_event_def sendWatcherEvent_def peers_of_def
      event_of_def del: map_of_eq_Some_iff)

lemma Connect_new:
  assumes "\<not> mu_held t" and "map_of (records t) (tun_ID c) = None" and "pdr_Kind d = RouteUpdateKindReferesh"
  shows "\<exists>t'. Connect_table c d t = Some t' \<and>
    told EventKindConnected (pdr_Annotations d)
      (AList.update (tun_ID c) (pdr_Annotations d) (maps_Copy [] (peers_of d))) (tun_ID c) t t' \<and>
    records t' = AList.update (tun_ID c) \<lparr>Channel = c, Annotations = pdr_Annotations d, Children = peers_of d\<rparr> (records t)"
  using assms
  by (simp add: Connect_table_def OnChange_cases apply_change_def Let_def told_def emit_event_def sendWatcherEvent_def
      peers_of_def event_of_def)

lemma Disconnect_known:
  assumes "\<not> mu_held t" and "map_of (records t) (tun_ID c) = Some val"
  shows "\<exists>t'. run_step (Leave c) t = Some t' \<and>
    told EventKindDisConnected [] (AList.update (tun_ID c) (Annotations val) (Children val)) (tun_ID c) t t' \<and>
    records t' = AList.delete (tun_ID c) (records t)"
  using assms
  by (simp add: Disconnect_table_def advertise_eq Let_def told_def emit_event_def sendWatcherEvent_def
      peers_of_def event_of_def del: map_of_eq_Some_iff)

text \<open>Who serves whom after one record changed.\<close>

lemma served_update:
  "records t' = AList.update i v (records t) \<Longrightarrow>
    served t' n j \<longleftrightarrow> (if j = i then n = i \<or> map_of (Children v) n \<noteq> None else served t n j)"
  by (auto simp: served_def)

lemma served_delete: "records t' = AList.delete i (records t) \<Longrightarrow> served t' n j \<longleftrightarrow> j \<noteq> i \<and> served t n j"
  by (auto simp: served_def)

lemma tidy_update:
  assumes "tidy rl t" and "records t' = AList.update i v (records t)" and "\<not> mu_held t'" and "i \<noteq> []"
    and "tun_ID (Channel v) = i" and "wf_map (Children v)" and "role_of (Annotations v) = rl i" and "annos_ok rl (Children v)"
    and "\<And>n j. n = i \<or> map_of (Children v) n \<noteq> None \<Longrightarrow> served t n j \<Longrightarrow> j = i"
  shows "tidy rl t'"
proof -
  have "wf_table t'"
    using assms(1-6) wf_record_update [of "records t" i v] by (auto simp: tidy_def wf_table_def wf_record_def)
  moreover have "j = k" if "served t' n j" "served t' n k" for n j k
    using that assms(1,9) unfolding served_update [OF assms(2)] tidy_def by (auto split: if_splits)
  moreover have "role_of (Annotations u) = rl j \<and> annos_ok rl (Children u)" if "map_of (records t') j = Some u" for j u
    using that assms(1,2,7,8) by (auto simp: tidy_def simp del: map_of_eq_Some_iff split: if_splits)
  moreover have "map_of (records t') [] = None" using assms(1,2,4) by (simp add: tidy_def)
  ultimately show ?thesis using assms(3) unfolding tidy_def by blast
qed

lemma tidy_delete:
  assumes "tidy rl t" and "records t' = AList.delete i (records t)" and "\<not> mu_held t'"
  shows "tidy rl t'"
proof -
  have "wf_table t'"
    using assms set_delete_subset [of i "records t"] by (auto simp: tidy_def wf_table_def)
  moreover have "j = k" if "served t' n j" "served t' n k" for n j k
    using that assms(1) unfolding served_delete [OF assms(2)] tidy_def by blast
  moreover have "role_of (Annotations u) = rl j \<and> annos_ok rl (Children u)" if "map_of (records t') j = Some u" for j u
    using that assms(1,2) by (auto simp: tidy_def simp del: map_of_eq_Some_iff split: if_splits)
  moreover have "map_of (records t') [] = None" using assms(1,2) by (simp add: tidy_def)
  ultimately show ?thesis using assms(3) unfolding tidy_def by blast
qed


text \<open>Each allowed step is possible, and tells the watcher exactly which names come or go.\<close>

definition stepped :: "(string \<Rightarrow> peer_role) \<Rightarrow> route_table \<Rightarrow> route_table \<Rightarrow> event_kind \<Rightarrow> (string, annotations) gomap \<Rightarrow> bool" where
  "stepped rl t t' k ps \<longleftrightarrow> tidy rl t' \<and> annos_ok rl ps \<and>
     (\<forall>n. reaches t' n \<longleftrightarrow>
        (if k = EventKindDisConnected then reaches t n \<and> n \<notin> names_of ps else reaches t n \<or> n \<in> names_of ps)) \<and>
     (k = EventKindKeepalive \<longrightarrow> (\<forall>n \<in> names_of ps. rl n = HubPeer \<longrightarrow> reaches t n))"

lemma tidy_parts:
  assumes "tidy rl t"
  shows "wf_table t" "\<not> mu_held t" "served t n i \<Longrightarrow> served t n j \<Longrightarrow> i = j"
    "map_of (records t) i = Some v \<Longrightarrow> role_of (Annotations v) = rl i \<and> annos_ok rl (Children v) \<and>
       tun_ID (Channel v) = i \<and> wf_map (Children v) \<and> i \<noteq> []"
  using assms wf_record_lookup [of t i v] unfolding tidy_def by (blast, blast, blast, metis option.distinct(1))

lemma served_known: "map_of (records t) i = Some v \<Longrightarrow> served t n i \<longleftrightarrow> n = i \<or> map_of (Children v) n \<noteq> None"
  by (simp add: served_def)

lemma reaches_split: "reaches t n \<longleftrightarrow> served t n i \<or> (\<exists>j. j \<noteq> i \<and> served t n j)"
  by (auto simp: reaches_def)

lemma reaches_update:
  assumes "records t' = AList.update i v (records t)"
  shows "reaches t' n \<longleftrightarrow> (n = i \<or> map_of (Children v) n \<noteq> None) \<or> (\<exists>j. j \<noteq> i \<and> served t n j)"
  unfolding reaches_split [of t' n i] served_update [OF assms] by auto

lemma join_step:
  assumes "tidy rl t" and "allowed rl t (Join c d)"
  shows "\<exists>t' k a ps. run_step (Join c d) t = Some t' \<and> told k a ps (tun_ID c) t t' \<and> stepped rl t t' k ps"
proof -
  let ?i = "tun_ID c" and ?v = "\<lparr>Channel = c, Annotations = pdr_Annotations d, Children = peers_of d\<rparr>"
  have new: "\<not> served t n j" if "n = ?i \<or> n \<in> names_of (peers_of d)" for n j
    using assms(2) that by (auto simp: reaches_def)
  from new [of ?i ?i] have none: "map_of (records t) ?i = None"
    by (cases "map_of (records t) ?i") (simp_all add: served_def)
  from Connect_new [OF tidy_parts(2) [OF assms(1)] none] assms(2)
  obtain t' where t': "Connect_table c d t = Some t'"
    "told EventKindConnected (pdr_Annotations d) (AList.update ?i (pdr_Annotations d) (maps_Copy [] (peers_of d))) ?i t t'"
    "records t' = AList.update ?i ?v (records t)" by auto
  have disj: "\<not> served t n j" if "n = ?i \<or> map_of (Children ?v) n \<noteq> None" for n j
    using new [of n j] that by (auto simp: names_of_dom dom_def simp del: map_of_eq_Some_iff)
  have "tidy rl t'"
  proof (rule tidy_update [OF assms(1) t'(3)])
    show "j = ?i" if "n = ?i \<or> map_of (Children ?v) n \<noteq> None" "served t n j" for n j
      using disj [OF that(1)] that(2) by blast
  qed (use assms(2) t'(2) in \<open>simp_all add: told_def\<close>)
  moreover have "annos_ok rl (AList.update ?i (pdr_Annotations d) (maps_Copy [] (peers_of d)))"
    using assms(2) by (auto intro!: annos_ok_update annos_ok_Copy)
  moreover have "names_of (AList.update ?i (pdr_Annotations d) (maps_Copy [] (peers_of d))) = insert ?i (names_of (peers_of d))"
    using assms(2) by (auto simp: names_of_dom map_of_maps_Copy)
  moreover have "reaches t' n \<longleftrightarrow> reaches t n \<or> n = ?i \<or> n \<in> names_of (peers_of d)" for n
  proof -
    have "map_of (Children ?v) n \<noteq> None \<longleftrightarrow> n \<in> names_of (peers_of d)" by (simp add: names_of_dom dom_def)
    moreover have "\<not> served t n ?i" using none by (simp add: served_def)
    ultimately show ?thesis using reaches_update [OF t'(3), of n] reaches_split [of t n ?i] by blast
  qed
  ultimately have "stepped rl t t' EventKindConnected (AList.update ?i (pdr_Annotations d) (maps_Copy [] (peers_of d)))"
    by (simp add: stepped_def)
  then show ?thesis using t'(1,2) by auto
qed

lemma leave_step:
  assumes "tidy rl t" and "allowed rl t (Leave c)"
  shows "\<exists>t' k a ps. run_step (Leave c) t = Some t' \<and> told k a ps (tun_ID c) t t' \<and> stepped rl t t' k ps"
proof -
  let ?i = "tun_ID c"
  obtain v where v: "map_of (records t) ?i = Some v" using assms(2) by auto
  note vv = tidy_parts(4) [OF assms(1) v]
  from Disconnect_known [OF tidy_parts(2) [OF assms(1)] v]
  obtain t' where t': "run_step (Leave c) t = Some t'"
    "told EventKindDisConnected [] (AList.update ?i (Annotations v) (Children v)) ?i t t'"
    "records t' = AList.delete ?i (records t)" by blast
  have names: "n \<in> names_of (AList.update ?i (Annotations v) (Children v)) \<longleftrightarrow> served t n ?i" for n
    unfolding names_of_dom served_known [OF v] by auto
  have "tidy rl t'" using tidy_delete [OF assms(1) t'(3)] t'(2) by (simp add: told_def)
  moreover have "annos_ok rl (AList.update ?i (Annotations v) (Children v))"
    using vv by (auto intro: annos_ok_update)
  moreover have "reaches t' n \<longleftrightarrow> reaches t n \<and> \<not> served t n ?i" for n
    using tidy_parts(3) [OF assms(1), of n _ ?i] unfolding reaches_def served_delete [OF t'(3)] by metis
  ultimately have "stepped rl t t' EventKindDisConnected (AList.update ?i (Annotations v) (Children v))"
    by (simp add: stepped_def names)
  then show ?thesis using t'(1,2) by blast
qed


lemma change_step:
  assumes "tidy rl t" and "allowed rl t (Change c d)"
  shows "\<exists>t' k a ps. run_step (Change c d) t = Some t' \<and> told k a ps (tun_ID c) t t' \<and> stepped rl t t' k ps"
proof -
  let ?i = "tun_ID c" and ?ps = "peers_of d"
  obtain v where v: "map_of (records t) ?i = Some v" using assms(2) by auto
  note held = tidy_parts(2) [OF assms(1)] and vv = tidy_parts(4) [OF assms(1) v]
  have d: "wf_map ?ps" "role_of (pdr_Annotations d) = rl ?i" "annos_ok rl ?ps" using assms(2) by simp_all
  have mine: "j = ?i" if "n \<in> names_of ?ps" "served t n j" for n j using assms(2) that by auto
  have own: "j = ?i" if "n = ?i \<or> map_of (Children v) n \<noteq> None" "served t n j" for n j
    using tidy_parts(3) [OF assms(1), of n j ?i] that served_known [OF v, of n] by blast
  have ok: "annos_ok rl (maps_Copy [] ?ps)" by (rule annos_ok_Copy) (simp_all add: d)
  have names: "names_of (maps_Copy [] ?ps) = names_of ?ps"
    "names_of (AList.update ?i (pdr_Annotations d) (maps_Copy [] ?ps)) = insert ?i (names_of ?ps)"
    using d(1) by (auto simp: names_of_dom map_of_maps_Copy)
  have add_dom: "map_of (add_missing (Children v) ?ps) n \<noteq> None \<longleftrightarrow> map_of (Children v) n \<noteq> None \<or> n \<in> names_of ?ps" for n
    by (auto simp: map_of_add_missing map_add_def names_of_dom dom_def simp del: map_of_eq_Some_iff split: option.splits)
  have rem_dom: "map_of (remove_all_keys (Children v) ?ps) n \<noteq> None \<longleftrightarrow> map_of (Children v) n \<noteq> None \<and> n \<notin> names_of ?ps" for n
    by (auto simp: map_of_remove_all_keys restrict_map_def names_of_dom dom_def simp del: map_of_eq_Some_iff)
  consider "pdr_Kind d = RouteUpdateKindKeepAlive" | "pdr_Kind d = RouteUpdateKindOnline" | "pdr_Kind d = RouteUpdateKindOffline"
    using assms(2) by (auto split: route_update_kind.splits)
  then show ?thesis
  proof cases
    case 1
    let ?v = "v\<lparr>Children := add_missing (Children v) ?ps, Annotations := pdr_Annotations d\<rparr>"
    from OnChange_known(1) [OF held v 1] obtain t' where t': "OnChange c d t = Some t'"
      "told EventKindKeepalive (pdr_Annotations d) (AList.update ?i (pdr_Annotations d) (maps_Copy [] ?ps)) ?i t t'"
      "records t' = AList.update ?i ?v (records t)" by blast
    have "tidy rl t'"
    proof (rule tidy_update [OF assms(1) t'(3)])
      show "j = ?i" if "n = ?i \<or> map_of (Children ?v) n \<noteq> None" "served t n j" for n j
        using that own [of n j] mine [of n j] add_dom [of n] by auto
    qed (use d vv t'(2) in \<open>simp_all add: told_def annos_ok_missing\<close>)
    moreover have "reaches t' n \<longleftrightarrow> reaches t n \<or> n = ?i \<or> n \<in> names_of ?ps" for n
      using reaches_update [OF t'(3), of n] reaches_split [of t n ?i] served_known [OF v, of n] add_dom [of n] by auto
    moreover have "reaches t ?i" using served_known [OF v, of ?i] by (auto simp: reaches_def)
    moreover have "\<forall>n \<in> names_of ?ps. rl n = HubPeer \<longrightarrow> reaches t n" using assms(2) 1 by simp
    ultimately have "stepped rl t t' EventKindKeepalive (AList.update ?i (pdr_Annotations d) (maps_Copy [] ?ps))"
      using annos_ok_update [OF ok d(2)] by (simp add: stepped_def names)
    then show ?thesis using t'(1,2) by auto
  next
    case 2
    let ?v = "v\<lparr>Children := add_missing (Children v) ?ps\<rparr>"
    from OnChange_known(2) [OF held v 2] obtain t' where t': "OnChange c d t = Some t'"
      "told EventKindConnected (pdr_Annotations d) (maps_Copy [] ?ps) ?i t t'"
      "records t' = AList.update ?i ?v (records t)" by blast
    have "tidy rl t'"
    proof (rule tidy_update [OF assms(1) t'(3)])
      show "j = ?i" if "n = ?i \<or> map_of (Children ?v) n \<noteq> None" "served t n j" for n j
        using that own [of n j] mine [of n j] add_dom [of n] by auto
    qed (use d vv t'(2) in \<open>simp_all add: told_def annos_ok_missing\<close>)
    moreover have "reaches t' n \<longleftrightarrow> reaches t n \<or> n \<in> names_of ?ps" for n
      using reaches_update [OF t'(3), of n] reaches_split [of t n ?i] served_known [OF v, of n] add_dom [of n] by auto
    ultimately have "stepped rl t t' EventKindConnected (maps_Copy [] ?ps)"
      using ok by (simp add: stepped_def names)
    then show ?thesis using t'(1,2) by auto
  next
    case 3
    let ?v = "v\<lparr>Children := remove_all_keys (Children v) ?ps\<rparr>"
    from OnChange_known(3) [OF held v 3] obtain t' where t': "OnChange c d t = Some t'"
      "told EventKindDisConnected (Annotations v) (maps_Copy [] ?ps) ?i t t'"
      "records t' = AList.update ?i ?v (records t)" by blast
    have "tidy rl t'"
    proof (rule tidy_update [OF assms(1) t'(3)])
      show "j = ?i" if "n = ?i \<or> map_of (Children ?v) n \<noteq> None" "served t n j" for n j
        using that own [of n j] rem_dom [of n] by auto
    qed (use d vv t'(2) in \<open>simp_all add: told_def annos_ok_remove\<close>)
    moreover have "reaches t' n \<longleftrightarrow> reaches t n \<and> n \<notin> names_of ?ps" for n
    proof -
      have i: "?i \<notin> names_of ?ps" using assms(2) 3 by simp
      have here: "served t' n ?i \<longleftrightarrow> n = ?i \<or> map_of (remove_all_keys (Children v) ?ps) n \<noteq> None"
        unfolding served_update [OF t'(3)] by simp
      have there: "served t' n j \<longleftrightarrow> served t n j" if "j \<noteq> ?i" for j
        unfolding served_update [OF t'(3)] using that by simp
      have "served t' n j \<longleftrightarrow> served t n j \<and> n \<notin> names_of ?ps" for j
        using mine [of n j] served_known [OF v, of n] rem_dom [of n] i here there [of j] by metis
      then show ?thesis by (auto simp: reaches_def)
    qed
    ultimately have "stepped rl t t' EventKindDisConnected (maps_Copy [] ?ps)"
      using ok by (simp add: stepped_def names)
    then show ?thesis using t'(1,2) by auto
  qed
qed

lemma allowed_step:
  assumes "tidy rl t" and "allowed rl t st"
  obtains i t' k a ps where "run_step st t = Some t'" "told k a ps i t t'" "stepped rl t t' k ps"
proof (cases st)
  case (Join c d)
  with assms show ?thesis using join_step that by blast
next
  case (Change c d)
  with assms show ?thesis using change_step that by blast
next
  case (Leave c)
  with assms show ?thesis using leave_step that by blast
qed


section \<open>The watcher\<close>

text \<open>
  The goroutine of the edge server takes what is in its queue and handles it. The runs below are those in
  which it does so after every change of the table; requests to the store do not fail. \<open>seen\<close> are the
  names any event was about.
\<close>

definition consume :: "string \<Rightarrow> nat \<Rightarrow> route_table \<Rightarrow> edge_world \<Rightarrow> route_table \<times> edge_world" where
  "consume uid now t w =
     (case map_of (watchers t) uid of
        None \<Rightarrow> (t, w)
      | Some q \<Rightarrow> (t\<lparr>watchers := AList.update uid [] (watchers t)\<rparr>, SyncTunnelStatusFrom (\<lambda>_. fine) now q w))"

definition queued :: "string \<Rightarrow> route_table \<Rightarrow> string set" where
  "queued uid t =
     (case map_of (watchers t) uid of None \<Rightarrow> {} | Some q \<Rightarrow> \<Union>ev \<in> set q. names_of (Peers ev))"

inductive tracked ::
  "string \<Rightarrow> (string \<Rightarrow> peer_role) \<Rightarrow> edge_world \<Rightarrow> route_table \<Rightarrow> edge_world \<Rightarrow> string set \<Rightarrow> bool"
  for uid :: string and rl :: "string \<Rightarrow> peer_role" and w0 :: edge_world where
  watch: "tidy rl t0 \<Longrightarrow> Watch uid t0 = Some t1 \<Longrightarrow> consume uid now t1 w0 = (t, w)
    \<Longrightarrow> tracked uid rl w0 t w (queued uid t1)"
| step: "tracked uid rl w0 t w seen \<Longrightarrow> allowed rl t st \<Longrightarrow> run_step st t = Some t1
    \<Longrightarrow> consume uid now t1 w = (t', w')
    \<Longrightarrow> tracked uid rl w0 t' w' (seen \<union> queued uid t1)"

lemma map_of_watchers:
  "map_of (watchers (sendWatcherEvent ev t)) uid =
    map_option (\<lambda>q. if length q < DefaultEventChannelSize then q @ [ev] else q) (map_of (watchers t) uid)"
proof -
  have "map_of (map (\<lambda>(u, q). (u, f q)) xs) uid = map_option f (map_of xs uid)" for f and xs :: "(string, tunnel_event list) gomap"
    by (induction xs) auto
  then show ?thesis by (simp add: sendWatcherEvent_def)
qed

lemma tidy_watchers [simp]: "tidy rl (t\<lparr>watchers := q\<rparr>) \<longleftrightarrow> tidy rl t"
  by (simp add: tidy_def wf_table_def served_def)

lemma reaches_watchers [simp]: "reaches (t\<lparr>watchers := q\<rparr>) n \<longleftrightarrow> reaches t n"
  by (simp add: reaches_def served_def)

lemma consume_told:
  assumes "told k a ps i t t'" and "map_of (watchers t) uid = Some []" and "consume uid now t' w = (t'', w')"
  shows "t'' = t'\<lparr>watchers := AList.update uid [] (watchers t')\<rparr>"
    and "w' = sync_event (\<lambda>_. fine) now \<lparr>From = i, FromAnnotations = a, EvKind = k, Peers = ps\<rparr> w"
    and "queued uid t' = names_of ps"
proof -
  have "map_of (watchers t') uid = Some [\<lparr>From = i, FromAnnotations = a, EvKind = k, Peers = ps\<rparr>]"
    using assms(1,2) by (simp add: told_def map_of_watchers DefaultEventChannelSize_def)
  then show "t'' = t'\<lparr>watchers := AList.update uid [] (watchers t')\<rparr>"
    "w' = sync_event (\<lambda>_. fine) now \<lparr>From = i, FromAnnotations = a, EvKind = k, Peers = ps\<rparr> w"
    "queued uid t' = names_of ps"
    using assms(3) by (auto simp: consume_def queued_def SyncTunnelStatusFrom_def)
qed

text \<open>The peers of the first event are the names the table reaches.\<close>

lemma reachable_names:
  assumes "tidy rl t" and "allRechablePeers t [] = Some ps"
  shows "annos_ok rl ps" and "n \<in> names_of ps \<longleftrightarrow> reaches t n"
proof -
  have wf: "wf_table t" "wf_map (records t)" using assms(1) by (simp_all add: tidy_def wf_table_def)
  have ps: "ps = reachable_loop [] (records t)" using assms by (simp add: allRechablePeers_def tidy_def)
  have "annos_ok rl (foldl (\<lambda>ret (k, val). if k = [] then ret
        else AList.update k (Annotations val) (maps_Copy ret (Children val))) acc rs)"
    if "annos_ok rl acc" "\<forall>(i, v) \<in> set rs. role_of (Annotations v) = rl i \<and> annos_ok rl (Children v)"
    for acc :: "(string, annotations) gomap" and rs
    using that by (induction rs arbitrary: acc) (auto simp: annos_ok_update annos_ok_Copy)
  note loop = this [of "[]" "records t"]
  have "\<forall>(i, v) \<in> set (records t). role_of (Annotations v) = rl i \<and> annos_ok rl (Children v)"
    using tidy_parts(4) [OF assms(1)] wf(2) by auto
  from loop [OF _ this] show "annos_ok rl ps" unfolding ps reachable_loop_def by simp
  have "n \<in> names_of ps \<longleftrightarrow> (\<exists>(k, v) \<in> set (records t). k \<noteq> [] \<and> (n = k \<or> map_of (Children v) n \<noteq> None))"
    using dom_reachable [OF wf(1) assms(2)] by (simp add: names_of_dom)
  also have "\<dots> \<longleftrightarrow> (\<exists>i v. map_of (records t) i = Some v \<and> i \<noteq> [] \<and> (n = i \<or> map_of (Children v) n \<noteq> None))"
    using map_of_mem [OF wf(2)] by (auto simp del: map_of_eq_Some_iff)
  also have "\<dots> \<longleftrightarrow> reaches t n"
    unfolding reaches_def served_def using tidy_parts(4) [OF assms(1)] by blast
  finally show "n \<in> names_of ps \<longleftrightarrow> reaches t n" .
qed


lemma tracked_invariant:
  assumes "tracked uid rl w0 t w seen"
  shows "tidy rl t \<and> map_of (watchers t) uid = Some [] \<and> (\<forall>n. reaches t n \<longrightarrow> n \<in> seen) \<and>
    (\<forall>n. rl n \<noteq> TempPeer \<longrightarrow> (online w (rl n) n \<longleftrightarrow> reaches t n \<or> n \<notin> seen \<and> online w0 (rl n) n))"
  using assms
proof (induction rule: tracked.induct)
  case (watch t0 t1 now t w)
  then obtain ps where ps: "allRechablePeers t0 [] = Some ps"
    and t1: "t1 = t0\<lparr>watchers := AList.update uid [\<lparr>From = s_id t0, FromAnnotations = [], EvKind = EventKindConnected,
      Peers = ps\<rparr>] (watchers t0)\<rparr>" by (auto simp: Watch_def)
  note names = reachable_names [OF watch.hyps(1) ps]
  from watch.hyps(3) t1 have t: "t = t1\<lparr>watchers := AList.update uid [] (watchers t1)\<rparr>"
    and w: "w = sync_event (\<lambda>_. fine) now \<lparr>From = s_id t0, FromAnnotations = [], EvKind = EventKindConnected, Peers = ps\<rparr> w0"
    by (simp_all add: consume_def SyncTunnelStatusFrom_def)
  have r: "reaches t n \<longleftrightarrow> reaches t0 n" for n by (simp add: t t1)
  have q: "queued uid t1 = {n. reaches t0 n}"
    using names(2) by (auto simp: queued_def t1 simp del: map_of_eq_Some_iff)
  have on: "online w (rl n) n \<longleftrightarrow> reaches t n \<or> n \<notin> queued uid t1 \<and> online w0 (rl n) n" if "rl n \<noteq> TempPeer" for n
    unfolding w q using sync_event_online [where rl = rl and n = n] that names r [of n] by simp
  have "tidy rl t" "map_of (watchers t) uid = Some []"
    using watch.hyps(1) by (simp_all add: t t1 del: map_of_eq_Some_iff)
  then show ?case using on r q by blast
next
  case (step t w seen st t1 now t' w')
  obtain i t2 k a ps where run: "run_step st t = Some t2" "told k a ps i t t2" "stepped rl t t2 k ps"
    by (rule allowed_step [OF conjunct1 [OF step.IH] step.hyps(2)])
  then have t2: "t2 = t1" using step.hyps(3) by simp
  note c = consume_told [OF run(2) _ step.hyps(4) [folded t2]]
  have names: "annos_ok rl ps" "reaches t1 n \<longleftrightarrow>
      (if k = EventKindDisConnected then reaches t n \<and> n \<notin> names_of ps else reaches t n \<or> n \<in> names_of ps)"
    "k = EventKindKeepalive \<Longrightarrow> n \<in> names_of ps \<Longrightarrow> rl n = HubPeer \<Longrightarrow> reaches t n" for n
    using run(3) unfolding stepped_def t2 by blast+
  have t': "t' = t1\<lparr>watchers := AList.update uid [] (watchers t1)\<rparr>"
    and w': "w' = sync_event (\<lambda>_. fine) now \<lparr>From = i, FromAnnotations = a, EvKind = k, Peers = ps\<rparr> w"
    and q: "queued uid t1 = names_of ps"
    using c step.IH t2 by simp_all
  have on: "online w' (rl n) n \<longleftrightarrow> reaches t1 n \<or> n \<notin> seen \<union> names_of ps \<and> online w0 (rl n) n" if "rl n \<noteq> TempPeer" for n
  proof -
    have on: "online w (rl n) n \<longleftrightarrow> reaches t n \<or> n \<notin> seen \<and> online w0 (rl n) n"
      using step.IH that by blast
    have ev: "online w' (rl n) n = (if n \<in> names_of ps \<and> \<not> (k = EventKindKeepalive \<and> rl n = HubPeer)
        then k \<noteq> EventKindDisConnected else online w (rl n) n)"
      unfolding w' by (subst sync_event_online [where rl = rl, OF _ that]) (auto simp: names(1))
    show ?thesis
      using on names(2,3) [of n] step.IH unfolding ev by (cases k) auto
  qed
  have "tidy rl t1" using run(3) by (simp add: stepped_def t2)
  then have "tidy rl t'" "map_of (watchers t') uid = Some []" and r: "reaches t' n \<longleftrightarrow> reaches t1 n" for n
    by (simp_all add: t' del: map_of_eq_Some_iff)
  moreover have "n \<in> seen \<union> queued uid t1" if "reaches t' n" for n
    using that r [of n] names(2) [of n] step.IH unfolding q by (auto split: if_splits)
  moreover have "online w' (rl n) n \<longleftrightarrow> reaches t' n \<or>
      n \<notin> seen \<union> queued uid t1 \<and> online w0 (rl n) n" if "rl n \<noteq> TempPeer" for n
    using on [OF that] r [of n] unfolding q by simp
  ultimately show ?case by blast
qed

section \<open>Properties\<close>

text \<open>A server that was told of a hub with one edge, and remembers a cluster from before it was restarted.\<close>

definition ex_role :: "string \<Rightarrow> peer_role" where
  "ex_role n = (if n = ''hub'' then HubPeer else ClusterPeer)"

definition ex_hub :: connected_tunnel where
  "ex_hub = \<lparr>chan_id = 1, tun_ID = ''hub'', AnnotationsSent = [], Options = \<lparr>SendRouteChange = False, IsDefaultOut = False\<rparr>\<rparr>"

definition ex_join :: packet_data_route where
  "ex_join = \<lparr>pdr_Kind = RouteUpdateKindReferesh, pdr_Annotations = [(AnnotationKeyEdgeHubAddress, ''hub:50051'')],
     pdr_Peers = Some [(''edge'', [])]\<rparr>"

definition ex_remembered :: edge_world where
  "ex_remembered = \<lparr>ew_clusters = [(''ghost'', (fst zero_cluster, (snd zero_cluster)\<lparr>cs_Phase := EdgePhaseOnline\<rparr>))],
     ew_hubs = []\<rparr>"

definition ex_watched :: route_table where
  "ex_watched = (NewEmptyRouteTable ''server'')\<lparr>watchers := [(''u'', [])]\<rparr>"

lemma ex_watched_tracked: "tracked ''u'' ex_role ex_remembered ex_watched ex_remembered {}"
proof -
  let ?t = "NewEmptyRouteTable ''server''"
  let ?ev = "\<lparr>From = ''server'', FromAnnotations = [], EvKind = EventKindConnected, Peers = []\<rparr>"
  have "tidy ex_role ?t" by (simp add: tidy_def NewEmptyRouteTable_def wf_table_def served_def)
  moreover have "Watch ''u'' ?t = Some (?t\<lparr>watchers := [(''u'', [?ev])]\<rparr>)"
    by (simp add: Watch_def allRechablePeers_def NewEmptyRouteTable_def reachable_loop_def)
  moreover have "consume ''u'' 0 (?t\<lparr>watchers := [(''u'', [?ev])]\<rparr>) ex_remembered = (ex_watched, ex_remembered)"
    by (simp add: consume_def ex_watched_def SyncTunnelStatusFrom_def sync_event_def)
  ultimately have "tracked ''u'' ex_role ex_remembered ex_watched ex_remembered
      (queued ''u'' (?t\<lparr>watchers := [(''u'', [?ev])]\<rparr>))"
    by (rule tracked.watch)
  then show ?thesis by (simp add: queued_def)
qed

lemma ex_joined:
  "\<exists>t w. tracked ''u'' ex_role ex_remembered t w {''hub'', ''edge''} \<and> (\<forall>n. reaches t n \<longleftrightarrow> n = ''hub'' \<or> n = ''edge'')"
proof -
  have none: "\<not> mu_held ex_watched" "map_of (records ex_watched) (tun_ID ex_hub) = None" "pdr_Kind ex_join = RouteUpdateKindReferesh"
    by (simp_all add: ex_watched_def NewEmptyRouteTable_def ex_join_def)
  obtain t1 where t1: "Connect_table ex_hub ex_join ex_watched = Some t1"
    and q: "queued ''u'' t1 = names_of (AList.update (tun_ID ex_hub) (pdr_Annotations ex_join) (maps_Copy [] (peers_of ex_join)))"
    and rec: "records t1 = [(''hub'', \<lparr>Channel = ex_hub, Annotations = pdr_Annotations ex_join, Children = [(''edge'', [])]\<rparr>)]"
    using Connect_new [OF none] by (auto simp: ex_watched_def NewEmptyRouteTable_def ex_hub_def ex_join_def peers_of_def
        told_def queued_def sendWatcherEvent_def DefaultEventChannelSize_def)
  have nobody: "\<not> reaches ex_watched n" for n by (simp add: reaches_def served_def ex_watched_def NewEmptyRouteTable_def)
  have both: "reaches t1 n \<longleftrightarrow> n = ''hub'' \<or> n = ''edge''" for n by (auto simp: reaches_def served_def rec split: if_splits)
  obtain t w where c: "consume ''u'' 0 t1 ex_remembered = (t, w)" by fastforce
  have "allowed ex_role ex_watched (Join ex_hub ex_join)"
    by (simp add: nobody ex_join_def ex_hub_def ex_role_def role_of_def get_str_def peers_of_def parse_bool_def
        AnnotationKeyEdgeHubAddress_def AnnotationIsTemporaryConnect_def)
  from tracked.step [OF ex_watched_tracked this _ c] t1
  have "tracked ''u'' ex_role ex_remembered t w (queued ''u'' t1)" by simp
  moreover have "queued ''u'' t1 = {''hub'', ''edge''}" using q by (auto simp: ex_hub_def ex_join_def peers_of_def maps_Copy_def)
  moreover have "reaches t n \<longleftrightarrow> reaches t1 n" for n
    using c by (auto simp: consume_def split: option.splits)
  ultimately show ?thesis using both by (intro exI [of _ t] exI [of _ w]) simp
qed




text \<open>The manifests of an agent are handed out only for the token the cluster was registered with, for
  the hub it was registered on, with the certificates registered for it or fresh ones issued by that
  hub; of the store only the registration status of that cluster changes, and nothing at all where an
  earlier step fails.\<close>

theorem RenderInstallManifests_token:
  "case RenderInstallManifests issue fl getfails hubfails now uid token w of (w', r) \<Rightarrow>
    (\<forall>m. r = Inr m \<longrightarrow>
      (\<exists>c h certs. map_of (ew_clusters w) uid = Some c \<and> ri_BootstrapToken (cm_Register (fst c)) = token \<and>
        map_of (ew_hubs w) (ri_HubName (cm_Register (fst c))) = Some h \<and>
        get_str (hs_Manufacture (snd h)) AnnotationKeyEdgeHubAddress \<noteq> [] \<and>
        (ri_Certs (cm_Register (fst c)) = Some certs \<or>
         ri_Certs (cm_Register (fst c)) = None \<and> gencert issue uid (ri_ExpiresAt (cm_Register (fst c))) h = Some certs) \<and>
        m = RenderManifets uid (ri_Image (cm_Register (fst c)))
          (get_str (hs_Manufacture (snd h)) AnnotationKeyEdgeHubAddress) certs)) \<and>
    ew_hubs w' = ew_hubs w \<and> (\<forall>n. n \<noteq> uid \<longrightarrow> map_of (ew_clusters w') n = map_of (ew_clusters w) n) \<and>
    (\<forall>e. r = Inl e \<longrightarrow> e \<noteq> UpdateError \<longrightarrow> w' = w)"
proof -
  have upd: "ew_hubs (fst (Update_cluster fl uid f w)) = ew_hubs w"
    "n \<noteq> uid \<Longrightarrow> map_of (ew_clusters (fst (Update_cluster fl uid f w))) n = map_of (ew_clusters w) n" for f n
    by (simp_all add: Update_cluster_def case_prod_unfold Let_def CreateOrUpdate_other)
  show ?thesis
    using upd
    by (auto simp: RenderInstallManifests_def Let_def case_prod_unfold simp del: map_of_eq_Some_iff
        split: option.split prod.split if_splits)
qed


definition ex_registered :: edge_world where
  "ex_registered = \<lparr>ew_clusters = [(''edge'', ((fst zero_cluster)\<lparr>cm_Register := \<lparr>ri_HubName = ''hub'', ri_ExpiresAt = None,
       ri_Image = [], ri_BootstrapToken = ''tok'', ri_Certs = None\<rparr>\<rparr>, snd zero_cluster))],
     ew_hubs = [(''hub'', ([], (snd zero_hub)\<lparr>hs_Manufacture := [(AnnotationKeyEdgeHubAddress, ''hub:50051''),
       (AnnotationKeyEdgeHubCert, ''cert''), (AnnotationKeyEdgeHubKey, ''key'')]\<rparr>))]\<rparr>"

definition ex_issue :: "edge_certs \<Rightarrow> string \<Rightarrow> nat option \<Rightarrow> (string \<times> string) option" where
  "ex_issue hub cn expire = Some (''for '' @ cn, ''secret'')"

lemma ex_keys [simp]:
  "AnnotationKeyEdgeHubAddress \<noteq> AnnotationKeyEdgeHubCert" "AnnotationKeyEdgeHubAddress \<noteq> AnnotationKeyEdgeHubKey"
  "AnnotationKeyEdgeHubCert \<noteq> AnnotationKeyEdgeHubKey" "AnnotationKeyEdgeHubCert \<noteq> AnnotationKeyEdgeHubAddress"
  "AnnotationKeyEdgeHubKey \<noteq> AnnotationKeyEdgeHubAddress" "AnnotationKeyEdgeHubKey \<noteq> AnnotationKeyEdgeHubCert"
  by (simp_all add: AnnotationKeyEdgeHubAddress_def AnnotationKeyEdgeHubCert_def AnnotationKeyEdgeHubKey_def)

theorem RenderInstallManifests_token_witness:
  "\<exists>w' m c. RenderInstallManifests ex_issue fine False False 7 ''edge'' ''tok'' ex_registered = (w', Inr m) \<and>
     map_of (ew_clusters ex_registered) ''edge'' = Some c \<and> ri_BootstrapToken (cm_Register (fst c)) = ''tok'' \<and>
     ew_hubs w' = ew_hubs ex_registered \<and>
     RenderInstallManifests ex_issue fine False False 7 ''edge'' [] ex_registered = (ex_registered, Inl InvalidToken)"
proof -
  have "\<exists>m. snd (RenderInstallManifests ex_issue fine False False 7 ''edge'' ''tok'' ex_registered) = Inr m"
    by (auto simp: RenderInstallManifests_def ex_registered_def gencert_def ex_issue_def get_str_def Update_cluster_def
        CreateOrUpdateWithStatus_def case_prod_unfold Let_def)
  then obtain w' m where run: "RenderInstallManifests ex_issue fine False False 7 ''edge'' ''tok'' ex_registered = (w', Inr m)"
    by (metis prod.collapse)
  obtain r where bad: "RenderInstallManifests ex_issue fine False False 7 ''edge'' [] ex_registered = r" "snd r = Inl InvalidToken"
    by (simp add: RenderInstallManifests_def ex_registered_def)
  show ?thesis
    using RenderInstallManifests_token [where issue = ex_issue and fl = fine and getfails = False and hubfails = False
        and now = 7 and uid = "''edge''" and token = "''tok''" and w = ex_registered]
      RenderInstallManifests_token [where issue = ex_issue and fl = fine and getfails = False and hubfails = False
        and now = 7 and uid = "''edge''" and token = "[]" and w = ex_registered] run bad
    by (cases r) auto
qed

end
