(* ===== verification/Installer_Sync.thy ===== *)
theory Installer_Sync
  imports Api_Store "HOL-Library.List_Lexorder" "HOL-Library.Char_ord"
begin

text \<open>
  The installer's synchronisation of the resources of a bundle (\<open>pkg/installer/utils/apply.go\<close>): what
  a bundle manages is compared with what it should contain, and the difference is created, applied
  and removed.

  The cluster is its objects by reference. What the code asks the REST mapper and the group and
  version of an API version are parameters (\<open>rest\<close>), and so is what a patch makes of an object
  (\<open>patched\<close>); a request of a verb for a reference may fail (\<open>fl\<close>).
\<close>

section \<open>References\<close>

record managed_resource =
  mr_api :: string
  mr_kind :: string
  mr_namespace :: string
  mr_name :: string

record resource =
  rs_ref :: managed_resource
  rs_annotations :: labels
  rs_content :: string

datatype rest_scope = ScopeNamespace | ScopeRoot

record rest =
  group_of :: "string \<Rightarrow> string"
  scope_of :: "string \<Rightarrow> string \<Rightarrow> rest_scope option"

type_synonym cluster = "(managed_resource, resource) gomap"

definition GetReference :: "resource \<Rightarrow> managed_resource" where
  "GetReference obj = rs_ref obj"

definition correct_namespace :: "rest \<Rightarrow> string \<Rightarrow> managed_resource \<Rightarrow> managed_resource" where
  "correct_namespace api defaultns val =
     (case scope_of api (mr_api val) (mr_kind val) of
        None \<Rightarrow> val
      | Some s \<Rightarrow>
          (if s = ScopeNamespace \<and> mr_namespace val = [] then val\<lparr>mr_namespace := defaultns\<rparr>
           else if s = ScopeRoot \<and> mr_namespace val \<noteq> [] then val\<lparr>mr_namespace := []\<rparr>
           else val))"

definition CorrectNamespacesForRefrences :: "rest \<Rightarrow> string \<Rightarrow> managed_resource list \<Rightarrow> managed_resource list" where
  "CorrectNamespacesForRefrences api defaultns list = map (correct_namespace api defaultns) list"

definition CorrectNamespaces :: "rest \<Rightarrow> string \<Rightarrow> resource list \<Rightarrow> resource list" where
  "CorrectNamespaces api defaultNamespace list =
     map (\<lambda>item. item\<lparr>rs_ref := correct_namespace api defaultNamespace (rs_ref item)\<rparr>) list"

section \<open>The difference\<close>

record diff_result =
  Creats :: "resource list"
  Applys :: "resource list"
  Removes :: "resource list"

definition diff_item ::
  "diff_result \<times> (managed_resource, bool) gomap \<Rightarrow> resource \<Rightarrow> diff_result \<times> (managed_resource, bool) gomap" where
  "diff_item acc item =
     (let (result, managedmap) = acc;
          man = GetReference item;
          result = (if map_of managedmap man = None
            then result\<lparr>Creats := Creats result @ [item]\<rparr>
            else result\<lparr>Applys := Applys result @ [item]\<rparr>)
      in (result, AList.update man True managedmap))"

text \<open>An object made of a reference alone: it has no annotations.\<close>

definition of_reference :: "managed_resource \<Rightarrow> resource" where
  "of_reference k = \<lparr>rs_ref = k, rs_annotations = [], rs_content = []\<rparr>"

definition Diff :: "managed_resource list \<Rightarrow> resource list \<Rightarrow> diff_result" where
  "Diff managed resources =
     (let managedmap = foldl (\<lambda>m item. AList.update item False m) [] managed;
          (result, managedmap) = foldl diff_item (\<lparr>Creats = [], Applys = [], Removes = []\<rparr>, managedmap) resources
      in result\<lparr>Removes := map (of_reference \<circ> fst) (filter (\<lambda>(k, v). \<not> v) managedmap)\<rparr>)"

definition DiffWithDefaultNamespace ::
  "rest \<Rightarrow> string \<Rightarrow> managed_resource list \<Rightarrow> resource list \<Rightarrow> diff_result" where
  "DiffWithDefaultNamespace api defaultnamespace managed resources =
     Diff (CorrectNamespacesForRefrences api defaultnamespace managed)
          (CorrectNamespaces api defaultnamespace resources)"

section \<open>Carrying it out\<close>

record sync_options =
  ServerSideApply :: bool
  CreateNamespace :: bool
  CleanCRD :: bool

definition NewDefaultSyncOptions :: sync_options where
  "NewDefaultSyncOptions = \<lparr>ServerSideApply = True, CreateNamespace = True, CleanCRD = False\<rparr>"

type_synonym faults = "verb \<Rightarrow> managed_resource \<Rightarrow> bool"

datatype sync_error = CreateError managed_resource | ApplyError managed_resource | RemoveError managed_resource

definition AnnotationIgnoreOptions :: string where
  "AnnotationIgnoreOptions = ''bundle.kubegems.io/ignore-options''"

definition AnnotationIgnoreOptionOnUpdate :: string where "AnnotationIgnoreOptionOnUpdate = ''OnUpdate''"
definition AnnotationIgnoreOptionOnDelete :: string where "AnnotationIgnoreOptionOnDelete = ''OnDelete''"

text \<open>No annotations and no map of annotations are told apart by the code, and both have no option.\<close>

definition IsSkipedOn :: "resource \<Rightarrow> string \<Rightarrow> bool" where
  "IsSkipedOn obj key =
     (if rs_annotations obj \<noteq> []
      then list_ex (\<lambda>opt. opt = key)
             (split_on (CHR '','') (case map_of (rs_annotations obj) AnnotationIgnoreOptions of None \<Rightarrow> [] | Some v \<Rightarrow> v))
      else False)"

definition IsCRD :: "rest \<Rightarrow> resource \<Rightarrow> bool" where
  "IsCRD api obj \<longleftrightarrow> group_of api (mr_api (rs_ref obj)) = ''apiextensions.k8s.io''
     \<and> mr_kind (rs_ref obj) = ''CustomResourceDefinition''"

definition namespace_ref :: "string \<Rightarrow> managed_resource" where
  "namespace_ref name = \<lparr>mr_api = ''v1'', mr_kind = ''Namespace'', mr_namespace = [], mr_name = name\<rparr>"

definition createNsIfNotExists :: "faults \<Rightarrow> string \<Rightarrow> cluster \<Rightarrow> cluster" where
  "createNsIfNotExists fl name store =
     (if name = [] then store
      else create_or_update (\<lambda>v. fl v (namespace_ref name)) (namespace_ref name)
             (\<lambda>found. case found of None \<Rightarrow> of_reference (namespace_ref name) | Some ns \<Rightarrow> ns) store)"

text \<open>The new store, and whether it worked.\<close>

definition ApplyResource ::
  "(bool \<Rightarrow> resource \<Rightarrow> resource \<Rightarrow> resource) \<Rightarrow> faults \<Rightarrow> bool \<Rightarrow> resource \<Rightarrow> cluster \<Rightarrow> cluster \<times> bool" where
  "ApplyResource patched fl serverside obj store =
     (let key = GetReference obj in
      case api_get (fl VGet key) key store of
        Failed e \<Rightarrow> (store, False)
      | NotFound \<Rightarrow> api_create (fl VCreate key) key obj store
      | Found exists \<Rightarrow> api_update (fl VUpdate key) key (patched serverside exists obj) store)"

type_synonym sync_state = "cluster \<times> managed_resource list \<times> sync_error list"

definition create_item ::
  "(bool \<Rightarrow> resource \<Rightarrow> resource \<Rightarrow> resource) \<Rightarrow> faults \<Rightarrow> sync_options \<Rightarrow> sync_state \<Rightarrow> resource \<Rightarrow> sync_state" where
  "create_item patched fl options st item =
     (let (store, managed, errs) = st;
          store = (if CreateNamespace options then createNsIfNotExists fl (mr_namespace (rs_ref item)) store else store);
          (store, ok) = ApplyResource patched fl (ServerSideApply options) item store
      in if \<not> ok then (store, managed, errs @ [CreateError (GetReference item)])
         else (store, managed @ [GetReference item], errs))"

definition apply_item ::
  "(bool \<Rightarrow> resource \<Rightarrow> resource \<Rightarrow> resource) \<Rightarrow> faults \<Rightarrow> sync_options \<Rightarrow> sync_state \<Rightarrow> resource \<Rightarrow> sync_state" where
  "apply_item patched fl options st item =
     (let (store, managed, errs) = st;
          managed = managed @ [GetReference item]
      in if IsSkipedOn item AnnotationIgnoreOptionOnUpdate then (store, managed, errs)
         else let store = (if CreateNamespace options then createNsIfNotExists fl (mr_namespace (rs_ref item)) store else store);
                  (store, ok) = ApplyResource patched fl (ServerSideApply options) item store
              in if \<not> ok then (store, managed, errs @ [ApplyError (GetReference item)])
                 else (store, managed, errs))"

definition remove_item :: "rest \<Rightarrow> faults \<Rightarrow> sync_options \<Rightarrow> sync_state \<Rightarrow> resource \<Rightarrow> sync_state" where
  "remove_item api fl options st item =
     (let (store, managed, errs) = st in
      if IsCRD api item \<and> \<not> CleanCRD options then (store, managed, errs)
      else if IsSkipedOn item AnnotationIgnoreOptionOnDelete then (store, managed, errs)
      else case api_delete (fl VDelete (GetReference item)) (GetReference item) store of
             (store, DeleteFailed) \<Rightarrow> (store, managed @ [GetReference item], errs @ [RemoveError (GetReference item)])
           | (store, _) \<Rightarrow> (store, managed, errs))"

definition SyncDiff ::
  "rest \<Rightarrow> (bool \<Rightarrow> resource \<Rightarrow> resource \<Rightarrow> resource) \<Rightarrow> faults \<Rightarrow> diff_result \<Rightarrow> sync_options \<Rightarrow> cluster \<Rightarrow> sync_state" where
  "SyncDiff api patched fl diff options store =
     (let st = foldl (create_item patched fl options) (store, [], []) (Creats diff);
          st = foldl (apply_item patched fl options) st (Applys diff);
          (store, managed, errs) = foldl (remove_item api fl options) st (Removes diff)
      in (store, sort_slice (\<lambda>a b. mr_api b < mr_api a) managed, errs))"

definition Sync ::
  "rest \<Rightarrow> (bool \<Rightarrow> resource \<Rightarrow> resource \<Rightarrow> resource) \<Rightarrow> faults \<Rightarrow> string \<Rightarrow> managed_resource list \<Rightarrow> resource list
    \<Rightarrow> sync_options \<Rightarrow> cluster \<Rightarrow> sync_state" where
  "Sync api patched fl defaultnamespace managed resources options =
     SyncDiff api patched fl (DiffWithDefaultNamespace api defaultnamespace managed resources) options"

section \<open>What the difference is\<close>

fun news :: "managed_resource set \<Rightarrow> resource list \<Rightarrow> resource list" where
  "news S [] = []"
| "news S (x # xs) = (if rs_ref x \<in> S then news S xs else x # news (insert (rs_ref x) S) xs)"

fun olds :: "managed_resource set \<Rightarrow> resource list \<Rightarrow> resource list" where
  "olds S [] = []"
| "olds S (x # xs) = (if rs_ref x \<in> S then x # olds S xs else olds (insert (rs_ref x) S) xs)"

abbreviation refs :: "resource list \<Rightarrow> managed_resource set" where
  "refs xs \<equiv> rs_ref ` set xs"

lemma news_refs: "refs (news S xs) = refs xs - S"
  by (induction S xs rule: news.induct) auto

lemma set_news_olds: "set (news S xs) \<union> set (olds S xs) = set xs"
  by (induction S xs rule: news.induct) auto

lemma olds_refs: "refs xs \<inter> S \<subseteq> refs (olds S xs)"
  by (induction S xs rule: olds.induct) auto

lemma olds_none: "refs xs \<subseteq> S \<Longrightarrow> news S xs = []"
  by (induction S xs rule: news.induct) auto

lemma diff_item_pair:
  "diff_item (r, m) x =
    (if map_of m (rs_ref x) = None then r\<lparr>Creats := Creats r @ [x]\<rparr> else r\<lparr>Applys := Applys r @ [x]\<rparr>,
     AList.update (rs_ref x) True m)"
  by (simp add: diff_item_def GetReference_def Let_def)

lemma diff_fold:
  assumes "dom (map_of m) = S"
  shows "foldl diff_item (r, m) items =
    (r\<lparr>Creats := Creats r @ news S items, Applys := Applys r @ olds S items\<rparr>,
     foldl (\<lambda>m x. AList.update (rs_ref x) True m) m items)"
  using assms
proof (induction items arbitrary: r m S)
  case (Cons x items)
  have "dom (map_of (AList.update (rs_ref x) True m)) = insert (rs_ref x) S"
    unfolding map_of_update using Cons.prems by auto
  note IH = Cons.IH [OF this]
  show ?case
  proof (cases "rs_ref x \<in> S")
    case True
    then have "map_of m (rs_ref x) \<noteq> None" using Cons.prems by (auto simp: dom_def)
    moreover have "insert (rs_ref x) S = S" using True by blast
    ultimately show ?thesis using True by (simp only: foldl_Cons diff_item_pair IH) simp
  next
    case False
    then have "map_of m (rs_ref x) = None" using Cons.prems by (auto simp: dom_def)
    then show ?thesis using False by (simp only: foldl_Cons diff_item_pair IH) simp
  qed
qed simp

lemma wf_marks: "wf_map m \<Longrightarrow> wf_map (foldl (\<lambda>m x. AList.update (f x) v m) m xs)"
  by (induction xs arbitrary: m) simp_all

lemma marks_at: "map_of (foldl (\<lambda>m x. AList.update (f x) v m) m xs) k = (if k \<in> f ` set xs then Some v else map_of m k)"
  by (induction xs arbitrary: m) auto

lemma Diff_parts:
  "Creats (Diff managed xs) = news (set managed) xs"
  "Applys (Diff managed xs) = olds (set managed) xs"
  "refs (Removes (Diff managed xs)) = set managed - refs xs"
  "x \<in> set (Removes (Diff managed xs)) \<Longrightarrow> x = of_reference (rs_ref x)"
proof -
  let ?m = "foldl (\<lambda>m item. AList.update item False m) [] managed"
  let ?m' = "foldl (\<lambda>m x. AList.update (rs_ref x) True m) ?m xs"
  have dom: "dom (map_of ?m) = set managed"
    using marks_at [of "\<lambda>x. x" False "[]" managed] by (auto simp: dom_def)
  have r: "Diff managed xs = \<lparr>Creats = news (set managed) xs, Applys = olds (set managed) xs,
      Removes = map (of_reference \<circ> fst) (filter (\<lambda>(k, v). \<not> v) ?m')\<rparr>"
    by (simp add: Diff_def diff_fold [OF dom])
  then show "Creats (Diff managed xs) = news (set managed) xs" "Applys (Diff managed xs) = olds (set managed) xs"
    by simp_all
  have wf: "wf_map ?m'" by (intro wf_marks wf_marks [where f = "\<lambda>x. x"]) simp
  have at: "map_of ?m' k = Some False \<longleftrightarrow> k \<in> set managed - refs xs" for k
    using marks_at [of rs_ref True ?m xs k] marks_at [of "\<lambda>x. x" False "[]" managed k] by auto
  show "refs (Removes (Diff managed xs)) = set managed - refs xs"
  proof -
    have "refs (Removes (Diff managed xs)) = {k. (k, False) \<in> set ?m'}"
      by (force simp: r of_reference_def image_iff)
    then show ?thesis using at by (simp only: map_of_mem [OF wf]) auto
  qed
  show "x = of_reference (rs_ref x)" if "x \<in> set (Removes (Diff managed xs))"
    using that by (auto simp: r of_reference_def)
qed

section \<open>The steps\<close>

lemma IsSkipedOn_reference [simp]: "\<not> IsSkipedOn (of_reference k) key"
  by (simp add: IsSkipedOn_def of_reference_def)

lemma createNs_at:
  "map_of (createNsIfNotExists fl n store) k =
    (if map_of store k \<noteq> None then map_of store k
     else map_of (createNsIfNotExists fl n store) k)"
  by (auto simp: createNsIfNotExists_def create_or_update_def api_get_def api_create_at api_update_at
      split: got.split option.split)

lemma createNs_other: "n = [] \<or> k \<noteq> namespace_ref n \<Longrightarrow> map_of (createNsIfNotExists fl n store) k = map_of store k"
  by (auto simp: createNsIfNotExists_def create_or_update_other)

lemma createNs_keeps: "map_of store k \<noteq> None \<Longrightarrow> map_of (createNsIfNotExists fl n store) k \<noteq> None"
  using createNs_at [of fl n store k] by auto

lemma ApplyResource_other: "k \<noteq> rs_ref obj \<Longrightarrow> map_of (fst (ApplyResource patched fl s obj store)) k = map_of store k"
  by (simp add: ApplyResource_def GetReference_def Let_def api_create_at api_update_at split: got.split)

lemma ApplyResource_keeps: "map_of store k \<noteq> None \<Longrightarrow> map_of (fst (ApplyResource patched fl s obj store)) k \<noteq> None"
  by (auto simp: ApplyResource_def Let_def api_create_at api_update_at split: got.split)

lemma ApplyResource_there: "snd (ApplyResource patched fl s obj store) \<Longrightarrow>
    map_of (fst (ApplyResource patched fl s obj store)) (rs_ref obj) \<noteq> None"
  by (auto simp: ApplyResource_def GetReference_def Let_def api_get_def api_create_def api_update_def
      simp del: map_of_eq_Some_iff split: got.splits option.splits if_splits)

lemma ApplyResource_clean: "snd (ApplyResource patched (\<lambda>_ _. False) s obj store)"
  by (auto simp: ApplyResource_def GetReference_def Let_def api_get_def api_create_def api_update_def
      simp del: map_of_eq_Some_iff split: got.splits option.splits if_splits)

abbreviation st_store :: "sync_state \<Rightarrow> cluster" where "st_store \<equiv> fst"
abbreviation st_managed :: "sync_state \<Rightarrow> managed_resource list" where "st_managed st \<equiv> fst (snd st)"
abbreviation st_errors :: "sync_state \<Rightarrow> sync_error list" where "st_errors st \<equiv> snd (snd st)"

text \<open>The references a creation or application writes: the object and its namespace.\<close>

definition writes :: "sync_options \<Rightarrow> resource \<Rightarrow> managed_resource set" where
  "writes options x = {rs_ref x} \<union>
     (if CreateNamespace options \<and> mr_namespace (rs_ref x) \<noteq> [] then {namespace_ref (mr_namespace (rs_ref x))} else {})"

definition prepared :: "faults \<Rightarrow> sync_options \<Rightarrow> cluster \<Rightarrow> resource \<Rightarrow> cluster" where
  "prepared fl options store x =
     (if CreateNamespace options then createNsIfNotExists fl (mr_namespace (rs_ref x)) store else store)"

abbreviation applied ::
  "(bool \<Rightarrow> resource \<Rightarrow> resource \<Rightarrow> resource) \<Rightarrow> faults \<Rightarrow> sync_options \<Rightarrow> cluster \<Rightarrow> resource \<Rightarrow> cluster \<times> bool" where
  "applied patched fl options store x \<equiv>
     ApplyResource patched fl (ServerSideApply options) x (prepared fl options store x)"

lemma applied_other: "k \<notin> writes options x \<Longrightarrow> map_of (fst (applied patched fl options store x)) k = map_of store k"
  by (auto simp: writes_def ApplyResource_other prepared_def intro!: createNs_other)

lemma applied_keeps: "map_of store k \<noteq> None \<Longrightarrow> map_of (fst (applied patched fl options store x)) k \<noteq> None"
  by (intro ApplyResource_keeps) (simp add: prepared_def createNs_keeps del: not_None_eq)

lemma create_item_parts:
  "st_store (create_item patched fl options st x) = fst (applied patched fl options (st_store st) x)"
  "st_managed (create_item patched fl options st x) =
     st_managed st @ (if snd (applied patched fl options (st_store st) x) then [rs_ref x] else [])"
  "st_errors (create_item patched fl options st x) =
     st_errors st @ (if snd (applied patched fl options (st_store st) x) then [] else [CreateError (rs_ref x)])"
  by (simp_all add: create_item_def prepared_def GetReference_def Let_def case_prod_unfold)

lemma apply_item_parts:
  "st_store (apply_item patched fl options st x) =
     (if IsSkipedOn x AnnotationIgnoreOptionOnUpdate then st_store st else fst (applied patched fl options (st_store st) x))"
  "st_managed (apply_item patched fl options st x) = st_managed st @ [rs_ref x]"
  "st_errors (apply_item patched fl options st x) =
     st_errors st @ (if IsSkipedOn x AnnotationIgnoreOptionOnUpdate \<or> snd (applied patched fl options (st_store st) x)
       then [] else [ApplyError (rs_ref x)])"
  by (simp_all add: apply_item_def prepared_def GetReference_def Let_def case_prod_unfold)

definition kept_crd :: "rest \<Rightarrow> sync_options \<Rightarrow> managed_resource \<Rightarrow> bool" where
  "kept_crd api options r \<longleftrightarrow> IsCRD api (of_reference r) \<and> \<not> CleanCRD options"

lemma remove_item_parts:
  assumes "x = of_reference r"
  shows "st_store (remove_item api fl options st x) =
      (if kept_crd api options r then st_store st else fst (api_delete (fl VDelete r) r (st_store st)))"
    and "st_managed (remove_item api fl options st x) =
      st_managed st @ (if kept_crd api options r \<or> \<not> fl VDelete r then [] else [r])"
    and "st_errors (remove_item api fl options st x) =
      st_errors st @ (if kept_crd api options r \<or> \<not> fl VDelete r then [] else [RemoveError r])"
proof -
  have ref: "GetReference x = r" using assms by (simp add: GetReference_def of_reference_def)
  show "st_store (remove_item api fl options st x) =
      (if kept_crd api options r then st_store st else fst (api_delete (fl VDelete r) r (st_store st)))"
    "st_managed (remove_item api fl options st x) =
      st_managed st @ (if kept_crd api options r \<or> \<not> fl VDelete r then [] else [r])"
    "st_errors (remove_item api fl options st x) =
      st_errors st @ (if kept_crd api options r \<or> \<not> fl VDelete r then [] else [RemoveError r])"
    unfolding remove_item_def ref using assms
    by (auto simp: kept_crd_def api_delete_def case_prod_unfold split: delete_result.split)
qed

lemma create_fold_managed:
  "set (st_managed st) \<subseteq> set (st_managed (foldl (create_item patched fl options) st xs))"
  "set (st_managed (foldl (create_item patched fl options) st xs)) \<subseteq> set (st_managed st) \<union> refs xs"
proof (induction xs arbitrary: st)
  case (Cons x xs)
  {
    case 1
    then show ?case using Cons.IH(1) [of "create_item patched fl options st x"] by (auto simp: create_item_parts)
  next
    case 2
    then show ?case using Cons.IH(2) [of "create_item patched fl options st x"]
      by (auto simp: create_item_parts split: if_splits)
  }
qed simp_all

lemma create_fold_keeps:
  "map_of (st_store st) k \<noteq> None \<Longrightarrow> map_of (st_store (foldl (create_item patched fl options) st xs)) k \<noteq> None"
  by (induction xs arbitrary: st) (simp_all add: create_item_parts applied_keeps del: not_None_eq)

lemma create_fold_other:
  "k \<notin> \<Union>(writes options ` set xs) \<Longrightarrow>
    map_of (st_store (foldl (create_item patched fl options) st xs)) k = map_of (st_store st) k"
  by (induction xs arbitrary: st) (simp_all add: create_item_parts applied_other)

lemma apply_fold_managed:
  "set (st_managed (foldl (apply_item patched fl options) st xs)) = set (st_managed st) \<union> refs xs"
  by (induction xs arbitrary: st) (auto simp: apply_item_parts)

lemma apply_fold_keeps:
  "map_of (st_store st) k \<noteq> None \<Longrightarrow> map_of (st_store (foldl (apply_item patched fl options) st xs)) k \<noteq> None"
  by (induction xs arbitrary: st) (simp_all add: apply_item_parts applied_keeps del: not_None_eq)

lemma apply_fold_other:
  "k \<notin> \<Union>(writes options ` set xs) \<Longrightarrow>
    map_of (st_store (foldl (apply_item patched fl options) st xs)) k = map_of (st_store st) k"
  by (induction xs arbitrary: st) (simp_all add: apply_item_parts applied_other)

text \<open>Runs that report no error, and runs in which nothing fails.\<close>

lemma fold_errors:
  "\<exists>es. st_errors (foldl (create_item patched fl options) st xs) = st_errors st @ es"
  "\<exists>es. st_errors (foldl (apply_item patched fl options) st xs) = st_errors st @ es"
proof (induction xs arbitrary: st)
  case (Cons x xs)
  {
    case 1
    then show ?case using Cons.IH(1) [of "create_item patched fl options st x"] by (auto simp: create_item_parts)
  next
    case 2
    then show ?case using Cons.IH(2) [of "apply_item patched fl options st x"] by (auto simp: apply_item_parts)
  }
qed simp_all

lemma create_fold_ok:
  "st_errors (foldl (create_item patched fl options) st xs) = [] \<Longrightarrow>
    set (st_managed (foldl (create_item patched fl options) st xs)) = set (st_managed st) \<union> refs xs"
  "st_errors (foldl (create_item patched fl options) st xs) = [] \<Longrightarrow> r \<in> refs xs \<Longrightarrow>
    map_of (st_store (foldl (create_item patched fl options) st xs)) r \<noteq> None"
proof (induction xs arbitrary: st)
  case (Cons x xs)
  have first: "snd (applied patched fl options (st_store st) x)"
    if "st_errors (foldl (create_item patched fl options) (create_item patched fl options st x) xs) = []" for st
    using fold_errors(1) [of patched fl options "create_item patched fl options st x" xs] that
    by (auto simp: create_item_parts split: if_splits)
  {
    case 1
    then have e: "st_errors (foldl (create_item patched fl options) (create_item patched fl options st x) xs) = []" by simp
    show ?case using Cons.IH(1) [OF e] first [OF e] by (simp add: create_item_parts)
  next
    case 2
    then have e: "st_errors (foldl (create_item patched fl options) (create_item patched fl options st x) xs) = []" by simp
    have "map_of (st_store (create_item patched fl options st x)) (rs_ref x) \<noteq> None"
      unfolding create_item_parts by (rule ApplyResource_there [OF first [OF e]])
    from create_fold_keeps [OF this] show ?case using 2 Cons.IH(2) [OF e] by (cases "r = rs_ref x") simp_all
  }
qed simp_all

lemma apply_fold_there:
  "st_errors (foldl (apply_item patched fl options) st xs) = [] \<Longrightarrow> x \<in> set xs \<Longrightarrow> \<not> IsSkipedOn x AnnotationIgnoreOptionOnUpdate \<Longrightarrow>
    map_of (st_store (foldl (apply_item patched fl options) st xs)) (rs_ref x) \<noteq> None"
proof (induction xs arbitrary: st)
  case (Cons y xs)
  let ?st = "apply_item patched fl options st y"
  show ?case
  proof (cases "x = y")
    case True
    have "st_errors ?st = []" using fold_errors(2) [of patched fl options ?st xs] Cons.prems(1) by auto
    then have "map_of (st_store ?st) (rs_ref y) \<noteq> None"
      using Cons.prems(3) True ApplyResource_there
      by (simp add: apply_item_parts del: not_None_eq split: if_splits)
    then show ?thesis using True apply_fold_keeps by simp
  next
    case False
    then show ?thesis using Cons by simp
  qed
qed simp

lemma fold_clean:
  "st_errors (foldl (create_item patched (\<lambda>_ _. False) options) st xs) = st_errors st"
  "st_errors (foldl (apply_item patched (\<lambda>_ _. False) options) st xs) = st_errors st"
  by (induction xs arbitrary: st) (auto simp: create_item_parts apply_item_parts ApplyResource_clean)

text \<open>Removal.\<close>

lemma remove_fold:
  fixes api fl options st rs
  defines "st' \<equiv> foldl (remove_item api fl options) st (map of_reference rs)"
  shows "set (st_managed st) \<subseteq> set (st_managed st')"
    and "set (st_managed st') \<subseteq> set (st_managed st) \<union> {r \<in> set rs. fl VDelete r}"
    and "map_of (st_store st') k =
      (if k \<in> set rs \<and> \<not> kept_crd api options k \<and> \<not> fl VDelete k then None else map_of (st_store st) k)"
    and "r \<in> set rs \<Longrightarrow> \<not> kept_crd api options r \<Longrightarrow> fl VDelete r \<Longrightarrow> r \<in> set (st_managed st')"
  unfolding st'_def
proof (induction rs arbitrary: st)
  case (Cons x rs)
  note step = remove_item_parts [OF refl]
  {
    case 1
    then show ?case using Cons.IH(1) [of "remove_item api fl options st (of_reference x)"]
      by (simp add: step)
  next
    case 2
    then show ?case using Cons.IH(2) [of "remove_item api fl options st (of_reference x)"]
      by (auto simp: step split: if_splits)
  next
    case 3
    then show ?case using Cons.IH(3) [of "remove_item api fl options st (of_reference x)"]
      by (auto simp: step api_delete_at)
  next
    case 4
    then show ?case using Cons.IH(1) [of "remove_item api fl options st (of_reference x)"]
        Cons.IH(4) [of "remove_item api fl options st (of_reference x)"] by (cases "r = x") (simp_all add: step)
  }
qed simp_all

lemma remove_fold_managed:
  "(\<And>r. r \<in> set rs \<Longrightarrow> \<not> kept_crd api options r \<Longrightarrow> \<not> fl VDelete r) \<Longrightarrow>
    set (st_managed (foldl (remove_item api fl options) st (map of_reference rs))) = set (st_managed st)"
  by (induction rs arbitrary: st) (auto simp: remove_item_parts [OF refl])

lemma remove_fold_errors:
  "st_errors (foldl (remove_item api fl options) st (map of_reference rs)) =
    st_errors st @ map RemoveError (filter (\<lambda>r. \<not> kept_crd api options r \<and> fl VDelete r) rs)"
  by (induction rs arbitrary: st) (simp_all add: remove_item_parts [OF refl])

section \<open>Properties\<close>

lemma correct_idem: "correct_namespace api d (correct_namespace api d r) = correct_namespace api d r"
  by (auto simp: correct_namespace_def split: option.splits)

lemma SyncDiff_run:
  defines "st2 \<equiv> \<lambda>patched fl options store M xs. foldl (apply_item patched fl options)
      (foldl (create_item patched fl options) (store, [], []) (news M xs)) (olds M xs)"
  obtains rs where "set rs = set managed - refs xs"
    and "\<And>patched fl options store. SyncDiff api patched fl (Diff managed xs) options store =
      (let st = foldl (remove_item api fl options) (st2 patched fl options store (set managed) xs) (map of_reference rs)
       in (st_store st, sort_slice (\<lambda>a b. mr_api b < mr_api a) (st_managed st), st_errors st))"
proof -
  let ?diff = "Diff managed xs"
  have "map (of_reference \<circ> rs_ref) (Removes ?diff) = Removes ?diff"
    by (intro map_idI, unfold comp_apply) (rule Diff_parts(4) [symmetric])
  then have rem: "Removes ?diff = map of_reference (map rs_ref (Removes ?diff))" by simp
  show ?thesis
  proof (rule that [of "map rs_ref (Removes ?diff)"])
    show "set (map rs_ref (Removes ?diff)) = set managed - refs xs" using Diff_parts(3) by simp
    fix patched fl options store
    show "SyncDiff api patched fl ?diff options store =
      (let st = foldl (remove_item api fl options) (st2 patched fl options store (set managed) xs)
            (map of_reference (map rs_ref (Removes ?diff)))
       in (st_store st, sort_slice (\<lambda>a b. mr_api b < mr_api a) (st_managed st), st_errors st))"
      by (simp only: SyncDiff_def Diff_parts(1,2) st2_def rem [symmetric] Let_def case_prod_unfold)
  qed
qed

lemma writes_parts:
  "\<Union>(writes options ` set (news M xs)) \<subseteq> \<Union>(writes options ` set xs)"
  "\<Union>(writes options ` set (olds M xs)) \<subseteq> \<Union>(writes options ` set xs)"
  using set_news_olds [of M xs] by auto

lemma refs_writes: "refs xs \<subseteq> \<Union>(writes options ` set xs)"
  by (auto simp: writes_def)

text \<open>One run over a difference, whatever fails.\<close>

lemma SyncDiff_keeps:
  assumes "SyncDiff api patched fl (Diff managed xs) options store = (store', managed', errs)"
  shows "r \<in> set managed \<Longrightarrow> r \<in> set managed' \<or> map_of store' r = None \<or> r \<notin> refs xs \<and> kept_crd api options r"
    and "set managed' \<subseteq> set managed \<union> refs xs"
    and "r \<notin> set managed \<union> \<Union>(writes options ` set xs) \<Longrightarrow> map_of store' r = map_of store r"
proof -
  let ?M = "set managed"
  obtain rs where rs: "set rs = ?M - refs xs"
    and run: "SyncDiff api patched fl (Diff managed xs) options store =
      (let st = foldl (remove_item api fl options) (foldl (apply_item patched fl options)
            (foldl (create_item patched fl options) (store, [], []) (news ?M xs)) (olds ?M xs)) (map of_reference rs)
       in (st_store st, sort_slice (\<lambda>a b. mr_api b < mr_api a) (st_managed st), st_errors st))"
    by (rule SyncDiff_run [of managed xs api]) blast
  define s1 where "s1 = foldl (create_item patched fl options) (store, [], []) (news ?M xs)"
  define s2 where "s2 = foldl (apply_item patched fl options) s1 (olds ?M xs)"
  define s3 where "s3 = foldl (remove_item api fl options) s2 (map of_reference rs)"
  have res: "store' = st_store s3" "set managed' = set (st_managed s3)"
    using assms [unfolded run] by (auto simp: s1_def s2_def s3_def Let_def gs.set_srt)
  have m1: "set (st_managed s1) \<subseteq> refs xs"
    using create_fold_managed(2) [of patched fl options "(store, [], [])" "news ?M xs"] news_refs [of ?M xs]
    by (auto simp: s1_def)
  have m2: "set (st_managed s2) = set (st_managed s1) \<union> refs (olds ?M xs)"
    unfolding s2_def by (rule apply_fold_managed)
  have olds: "refs (olds ?M xs) \<subseteq> refs xs" "refs xs \<inter> ?M \<subseteq> refs (olds ?M xs)"
    using set_news_olds [of ?M xs] olds_refs [of xs ?M] by auto
  note removal = remove_fold [where st = s2 and rs = rs and api = api and fl = fl and options = options, folded s3_def]
  show "r \<in> set managed' \<or> map_of store' r = None \<or> r \<notin> refs xs \<and> kept_crd api options r" if "r \<in> ?M"
  proof (cases "r \<in> refs xs")
    case True
    then show ?thesis using that olds(2) m2 removal(1) unfolding res by blast
  next
    case False
    then show ?thesis using that rs removal(3,4) [of r] unfolding res by auto
  qed
  show "set managed' \<subseteq> ?M \<union> refs xs"
    unfolding res using removal(2) m2 m1 olds(1) rs by blast
  show "map_of store' r = map_of store r" if "r \<notin> ?M \<union> \<Union>(writes options ` set xs)"
  proof -
    have t: "r \<notin> \<Union>(writes options ` set xs)" and "r \<notin> set rs" using that rs by simp_all
    moreover have "r \<notin> \<Union>(writes options ` set (news ?M xs))" "r \<notin> \<Union>(writes options ` set (olds ?M xs))"
      by (rule contra_subsetD [OF writes_parts(1) t], rule contra_subsetD [OF writes_parts(2) t])
    ultimately show ?thesis
      unfolding res removal(3) s2_def s1_def
      using apply_fold_other [of r options "olds ?M xs" patched fl]
        create_fold_other [of r options "news ?M xs" patched fl "(store, [], [])"] by simp
  qed
qed

text \<open>One run over a difference that reports no error.\<close>

lemma SyncDiff_success:
  assumes "SyncDiff api patched fl (Diff managed xs) options store = (store', managed', [])"
  shows "set managed' = refs xs"
    and "x \<in> set xs \<Longrightarrow> rs_ref x \<notin> set managed \<or> \<not> IsSkipedOn x AnnotationIgnoreOptionOnUpdate
      \<Longrightarrow> map_of store' (rs_ref x) \<noteq> None"
    and "r \<in> set managed - refs xs \<Longrightarrow> \<not> kept_crd api options r \<Longrightarrow> map_of store' r = None"
proof -
  let ?M = "set managed"
  obtain rs where rs: "set rs = ?M - refs xs"
    and run: "SyncDiff api patched fl (Diff managed xs) options store =
      (let st = foldl (remove_item api fl options) (foldl (apply_item patched fl options)
            (foldl (create_item patched fl options) (store, [], []) (news ?M xs)) (olds ?M xs)) (map of_reference rs)
       in (st_store st, sort_slice (\<lambda>a b. mr_api b < mr_api a) (st_managed st), st_errors st))"
    by (rule SyncDiff_run [of managed xs api]) blast
  define s1 where "s1 = foldl (create_item patched fl options) (store, [], []) (news ?M xs)"
  define s2 where "s2 = foldl (apply_item patched fl options) s1 (olds ?M xs)"
  define s3 where "s3 = foldl (remove_item api fl options) s2 (map of_reference rs)"
  have res: "store' = st_store s3" "set managed' = set (st_managed s3)" "st_errors s3 = []"
    using assms [unfolded run] by (auto simp: s1_def s2_def s3_def Let_def gs.set_srt)
  note removal = remove_fold [where st = s2 and rs = rs and api = api and fl = fl and options = options, folded s3_def]
  have del: "\<And>r. r \<in> set rs \<Longrightarrow> \<not> kept_crd api options r \<Longrightarrow> \<not> fl VDelete r" and e2: "st_errors s2 = []"
    using res(3) unfolding s3_def remove_fold_errors by (auto simp: filter_empty_conv)
  have e1: "st_errors s1 = []" using fold_errors(2) [of patched fl options s1 "olds ?M xs"] e2 by (auto simp: s2_def)
  have "set (st_managed s2) = refs (news ?M xs) \<union> refs (olds ?M xs)"
    using create_fold_ok(1) [OF e1 [unfolded s1_def]] by (simp add: s2_def s1_def apply_fold_managed)
  then have m2: "set (st_managed s2) = refs xs" using set_news_olds [of ?M xs] by auto
  have "set (st_managed s3) = set (st_managed s2)"
    unfolding s3_def by (rule remove_fold_managed) (use del in blast)
  then show "set managed' = refs xs" unfolding res m2 .
  have store3: "map_of store' k = (if k \<in> set rs \<and> \<not> kept_crd api options k then None else map_of (st_store s2) k)" for k
    unfolding res removal(3) using del by auto
  show "map_of store' (rs_ref x) \<noteq> None"
    if x: "x \<in> set xs" and y: "rs_ref x \<notin> ?M \<or> \<not> IsSkipedOn x AnnotationIgnoreOptionOnUpdate" for x
  proof -
    have "map_of (st_store s2) (rs_ref x) \<noteq> None"
    proof (cases "rs_ref x \<in> ?M")
      case True
      have "x \<in> set (olds ?M xs)" using x True set_news_olds [of ?M xs] news_refs [of ?M xs] by auto
      then show ?thesis using y True e2 unfolding s2_def by (intro apply_fold_there) auto
    next
      case False
      then have "rs_ref x \<in> refs (news ?M xs)" using x news_refs [of ?M xs] by auto
      then show ?thesis using e1 unfolding s2_def s1_def by (intro apply_fold_keeps create_fold_ok(2))
    qed
    then show ?thesis using x rs by (simp add: store3)
  qed
  show "map_of store' r = None" if "r \<in> ?M - refs xs" "\<not> kept_crd api options r"
    using that rs by (simp add: store3)
qed

text \<open>One run over a difference when nothing fails.\<close>

lemma SyncDiff_clean:
  assumes "SyncDiff api patched (\<lambda>_ _. False) (Diff managed xs) options store = (store', managed', errs)"
  shows "errs = []" and "set managed' = refs xs"
    and "x \<in> set xs \<Longrightarrow> rs_ref x \<notin> set managed \<or> \<not> IsSkipedOn x AnnotationIgnoreOptionOnUpdate
      \<Longrightarrow> map_of store' (rs_ref x) \<noteq> None"
    and "r \<in> set managed - refs xs \<Longrightarrow> \<not> kept_crd api options r \<Longrightarrow> map_of store' r = None"
proof -
  obtain rs where "SyncDiff api patched (\<lambda>_ _. False) (Diff managed xs) options store =
      (let st = foldl (remove_item api (\<lambda>_ _. False) options) (foldl (apply_item patched (\<lambda>_ _. False) options)
            (foldl (create_item patched (\<lambda>_ _. False) options) (store, [], []) (news (set managed) xs)) (olds (set managed) xs))
            (map of_reference rs)
       in (st_store st, sort_slice (\<lambda>a b. mr_api b < mr_api a) (st_managed st), st_errors st))"
    by (rule SyncDiff_run [of managed xs api]) blast
  then show errs: "errs = []" using assms by (auto simp: Let_def remove_fold_errors fold_clean)
  note ok = SyncDiff_success [OF assms [unfolded errs]]
  show "set managed' = refs xs" by (rule ok(1))
  show "x \<in> set xs \<Longrightarrow> rs_ref x \<notin> set managed \<or> \<not> IsSkipedOn x AnnotationIgnoreOptionOnUpdate
      \<Longrightarrow> map_of store' (rs_ref x) \<noteq> None" by (rule ok(2))
  show "r \<in> set managed - refs xs \<Longrightarrow> \<not> kept_crd api options r \<Longrightarrow> map_of store' r = None" by (rule ok(3))
qed

text \<open>The references a run is about: those managed before, and those wanted.\<close>

definition had :: "rest \<Rightarrow> string \<Rightarrow> managed_resource list \<Rightarrow> managed_resource set" where
  "had api d managed = set (CorrectNamespacesForRefrences api d managed)"

definition wanted :: "rest \<Rightarrow> string \<Rightarrow> resource list \<Rightarrow> managed_resource set" where
  "wanted api d resources = refs (CorrectNamespaces api d resources)"

definition touched :: "rest \<Rightarrow> string \<Rightarrow> sync_options \<Rightarrow> resource list \<Rightarrow> managed_resource set" where
  "touched api d options resources = \<Union>(writes options ` set (CorrectNamespaces api d resources))"

text \<open>
  A bundle that manages a configuration and the definition of a custom resource, and wants a service. The
  configuration asks, in its annotations, not to be deleted.
\<close>

definition ex_rest :: rest where
  "ex_rest = \<lparr>group_of = (\<lambda>v. if v = ''apiextensions.k8s.io/v1'' then ''apiextensions.k8s.io'' else []),
     scope_of = (\<lambda>v k. Some (if k = ''CustomResourceDefinition'' then ScopeRoot else ScopeNamespace))\<rparr>"

definition ex_config :: managed_resource where
  "ex_config = \<lparr>mr_api = ''v1'', mr_kind = ''ConfigMap'', mr_namespace = ''ns'', mr_name = ''c''\<rparr>"

definition ex_crd :: managed_resource where
  "ex_crd = \<lparr>mr_api = ''apiextensions.k8s.io/v1'', mr_kind = ''CustomResourceDefinition'', mr_namespace = [], mr_name = ''d''\<rparr>"

definition ex_service :: managed_resource where
  "ex_service = \<lparr>mr_api = ''v1'', mr_kind = ''Service'', mr_namespace = ''ns'', mr_name = ''s''\<rparr>"

definition ex_store :: cluster where
  "ex_store = [(ex_config, \<lparr>rs_ref = ex_config, rs_annotations = [(AnnotationIgnoreOptions, ''OnDelete'')], rs_content = []\<rparr>),
     (ex_crd, of_reference ex_crd)]"

definition ex_patched :: "bool \<Rightarrow> resource \<Rightarrow> resource \<Rightarrow> resource" where
  "ex_patched serverside exists obj = obj"

lemma ex_distinct [simp]: "ex_config \<noteq> ex_service" "ex_service \<noteq> ex_config" "ex_crd \<noteq> ex_service" "ex_crd \<noteq> ex_config"
  by (simp_all add: ex_config_def ex_service_def ex_crd_def)

lemma ex_correct [simp]:
  "correct_namespace ex_rest ''ns'' ex_config = ex_config" "correct_namespace ex_rest ''ns'' ex_crd = ex_crd"
  "correct_namespace ex_rest ''ns'' ex_service = ex_service"
  by (simp_all add: correct_namespace_def ex_rest_def ex_config_def ex_crd_def ex_service_def)

lemma ex_had: "had ex_rest ''ns'' [ex_config, ex_crd] = {ex_config, ex_crd}"
  by (simp add: had_def CorrectNamespacesForRefrences_def)

lemma ex_wanted: "wanted ex_rest ''ns'' [of_reference ex_service] = {ex_service}"
  by (simp add: wanted_def CorrectNamespaces_def of_reference_def)

lemma ex_kept: "kept_crd ex_rest NewDefaultSyncOptions r \<longleftrightarrow>
    group_of ex_rest (mr_api r) = ''apiextensions.k8s.io'' \<and> mr_kind r = ''CustomResourceDefinition''"
  by (simp add: kept_crd_def IsCRD_def of_reference_def NewDefaultSyncOptions_def)

lemma ex_config_not_kept: "\<not> kept_crd ex_rest NewDefaultSyncOptions ex_config"
  by (simp add: ex_kept ex_config_def)

text \<open>Whatever requests fail, a run of the synchronisation loses nothing it manages: every reference
  managed before is managed afterwards, or its object is gone, or it is a definition of a custom
  resource that is kept on purpose; every object it manages afterwards is one it managed or wants; and
  no object changes that is neither managed, nor wanted, nor the namespace of a wanted one.\<close>

theorem Sync_keeps_track:
  "let (store', managed', errs) = Sync api patched fl d managed resources options store;
             M = had api d managed; W = wanted api d resources in
    (\<forall>r \<in> M. r \<in> set managed' \<or> map_of store' r = None \<or> r \<notin> W \<and> kept_crd api options r) \<and>
    set managed' \<subseteq> M \<union> W \<and>
    (\<forall>r. r \<notin> M \<union> touched api d options resources \<longrightarrow> map_of store' r = map_of store r)"
proof -
  obtain store' managed' errs where run: "Sync api patched fl d managed resources options store = (store', managed', errs)"
    by (cases "Sync api patched fl d managed resources options store")
  note keeps = SyncDiff_keeps [OF run [unfolded Sync_def DiffWithDefaultNamespace_def]]
  show ?thesis
    unfolding run Let_def case_prod_conv had_def wanted_def touched_def
    by (intro conjI ballI allI impI keeps)
qed

theorem Sync_keeps_track_witness:
  "let (store', managed', errs) = Sync ex_rest ex_patched (\<lambda>v r. v = VDelete) ''ns'' [ex_config, ex_crd]
         [of_reference ex_service] NewDefaultSyncOptions ex_store in
   ex_config \<in> set managed' \<or> map_of store' ex_config = None"
  using Sync_keeps_track [of ex_rest ex_patched "\<lambda>v r. v = VDelete" "''ns''" "[ex_config, ex_crd]"
      "[of_reference ex_service]" NewDefaultSyncOptions ex_store]
  by (auto simp: Let_def ex_had ex_wanted ex_config_not_kept)



end
