(* ===== verification/Edge_Task.thy ===== *)
theory Edge_Task
  imports Edge_Cluster Installer_Sync
begin

text \<open>
  The controller of edge tasks (\<open>pkg/edge/task/controller.go\<close>, \<open>helper.go\<close>, \<open>status_repoter.go\<close>,
  \<open>edge_clients.go\<close>): a task names an edge cluster and the resources it should hold; once the cluster is
  online they are applied there, watched, and removed with the task.

  The hub cluster holds the tasks and the edge clusters under their namespace and name, each edge cluster
  its own objects. The parser of manifests, the hash, what the typed client makes of an object and what it
  lists are arguments (\<open>task_env\<close>), and so are the requests that fail. Messages are
  data here only where the code compares or clears them.
\<close>

section \<open>Tasks\<close>

datatype condition_type =
    EdgeTaskConditionTypePrepared | EdgeTaskConditionTypeOnline | EdgeTaskConditionTypeDistributed
  | EdgeTaskConditionTypeAvailable | EdgeTaskConditionTypeCleaned

datatype condition_status = ConditionTrue | ConditionFalse | ConditionUnknown

record task_condition =
  tc_Type :: condition_type
  tc_Status :: condition_status
  tc_LastTransitionTime :: "nat option"
  tc_LastUpdateTime :: "nat option"
  tc_Reason :: string

datatype task_phase = EdgeTaskPhaseUnset | EdgeTaskPhaseWaiting | EdgeTaskPhaseRunning | EdgeTaskPhaseFailed

datatype resource_message = NoMessage | NotGot | NotObserved | ReplicasNotReady int int

record resource_status =
  es_Ref :: managed_resource
  es_Images :: "string list"
  es_Exists :: bool
  es_Ready :: bool
  es_Message :: resource_message
  es_PodsStatus :: "string list"

record task_status =
  ts_ObservedGeneration :: int
  ts_Phase :: task_phase
  ts_Conditions :: "task_condition list"
  ts_ResourcesHash :: string
  ts_ResourcesStatus :: "resource_status list"

record edge_task =
  et_Name :: string
  et_Namespace :: string
  et_Generation :: int
  et_Deleting :: bool
  et_Finalizers :: "string list"
  et_EdgeClusterName :: string
  et_Resources :: "string list"
  et_Status :: task_status

record deployment =
  dp_Generation :: int
  dp_ObservedGeneration :: int
  dp_Replicas :: "int option"
  dp_AvailableReplicas :: int
  dp_Images :: "string list"

definition EdgeTaskFinalizer :: string where
  "EdgeTaskFinalizer = ''edgetask.finalizers.edge.kubegems.io''"

definition AnnotationEdgeTaskNameNamespace :: string where
  "AnnotationEdgeTaskNameNamespace = ''edge.kubegems.io/edge-task''"

datatype hub_verb = GetTask | UpdateTask | UpdateTaskStatus | GetEdgeCluster

record task_env =
  tv_now :: nat
  tv_split :: "string \<Rightarrow> resource list option"
  tv_hash :: "resource list \<Rightarrow> string"
  tv_rest :: rest
  tv_patched :: "bool \<Rightarrow> resource \<Rightarrow> resource \<Rightarrow> resource"
  tv_deployment :: "resource \<Rightarrow> deployment option"
  tv_pods :: "managed_resource \<Rightarrow> string list option"
  tv_connect :: "string \<Rightarrow> bool"
  tv_hub_fails :: "hub_verb \<Rightarrow> bool"
  tv_edge_fails :: "string \<Rightarrow> faults"

record task_world =
  kw_tasks :: "(string \<times> string, edge_task) gomap"
  kw_clusters :: "(string \<times> string, edge_phase) gomap"
  kw_clients :: "string list"
  kw_edges :: "string \<Rightarrow> cluster"

section \<open>Conditions\<close>

fun find_condition :: "nat \<Rightarrow> condition_type \<Rightarrow> task_condition list \<Rightarrow> (nat \<times> task_condition) option" where
  "find_condition i ty [] = None"
| "find_condition i ty (c # cs) = (if tc_Type c = ty then Some (i, c) else find_condition (Suc i) ty cs)"

definition GetEdgeTaskCondition :: "task_status \<Rightarrow> condition_type \<Rightarrow> (nat \<times> task_condition) option" where
  "GetEdgeTaskCondition status ty = find_condition 0 ty (ts_Conditions status)"

definition UpdateEdgeTaskCondition :: "nat \<Rightarrow> edge_task \<Rightarrow> task_condition \<Rightarrow> edge_task" where
  "UpdateEdgeTaskCondition now task condition =
     (let status = et_Status task in
      case GetEdgeTaskCondition status (tc_Type condition) of
        None \<Rightarrow> task\<lparr>et_Status := status\<lparr>ts_Conditions := ts_Conditions status @
          [condition\<lparr>tc_LastUpdateTime := Some now, tc_LastTransitionTime := Some now\<rparr>]\<rparr>\<rparr>
      | Some (index, oldcond) \<Rightarrow>
          let condition = (if tc_Status oldcond \<noteq> tc_Status condition
                then condition\<lparr>tc_LastTransitionTime := Some now\<rparr>
                else condition\<lparr>tc_LastTransitionTime := tc_LastTransitionTime oldcond\<rparr>)
          in task\<lparr>et_Status := status\<lparr>ts_Conditions := (ts_Conditions status)[index := condition]\<rparr>\<rparr>)"

definition RemoveEdgeTaskCondition :: "task_status \<Rightarrow> condition_type \<Rightarrow> task_status" where
  "RemoveEdgeTaskCondition status ty =
     (case find_condition 0 ty (ts_Conditions status) of
        None \<Rightarrow> status
      | Some (i, c) \<Rightarrow> status\<lparr>ts_Conditions := take i (ts_Conditions status) @ drop (i + 1) (ts_Conditions status)\<rparr>)"

abbreviation set_condition :: "task_env \<Rightarrow> condition_type \<Rightarrow> condition_status \<Rightarrow> string \<Rightarrow> edge_task \<Rightarrow> edge_task" where
  "set_condition env ty st reason task \<equiv> UpdateEdgeTaskCondition (tv_now env) task
     \<lparr>tc_Type = ty, tc_Status = st, tc_LastTransitionTime = None, tc_LastUpdateTime = None, tc_Reason = reason\<rparr>"

section \<open>The mark on a resource\<close>

text \<open>The events of an edge cluster find their task by an annotation.\<close>

definition InjectEdgeTask :: "edge_task \<Rightarrow> resource \<Rightarrow> resource" where
  "InjectEdgeTask edgetask obj =
     obj\<lparr>rs_annotations := AList.update AnnotationEdgeTaskNameNamespace
           (et_Name edgetask @ ''/'' @ et_Namespace edgetask) (rs_annotations obj)\<rparr>"

definition ExtractEdgeTask :: "resource \<Rightarrow> string \<times> string" where
  "ExtractEdgeTask obj =
     (if rs_annotations obj = [] then ([], [])
      else let val = get_str (rs_annotations obj) AnnotationEdgeTaskNameNamespace in
        case index_of val ''/'' of
          Some i \<Rightarrow> (take i val, drop (i + 1) val)
        | None \<Rightarrow> (val, []))"

definition ParseResources :: "(string \<Rightarrow> resource list option) \<Rightarrow> string list \<Rightarrow> resource list option" where
  "ParseResources split resources =
     foldl (\<lambda>acc raw. case acc of None \<Rightarrow> None
              | Some xs \<Rightarrow> (case split raw of None \<Rightarrow> None | Some ys \<Rightarrow> Some (xs @ ys))) (Some []) resources"

section \<open>Clients of the edge clusters\<close>

definition client_get :: "task_env \<Rightarrow> string \<Rightarrow> task_world \<Rightarrow> task_world \<times> bool" where
  "client_get env uid w =
     (if uid \<in> set (kw_clients w) then (w, True)
      else if tv_connect env uid then (w\<lparr>kw_clients := uid # kw_clients w\<rparr>, True)
      else (w, False))"

definition Invalid :: "string \<Rightarrow> task_world \<Rightarrow> task_world" where
  "Invalid uid w = w\<lparr>kw_clients := removeAll uid (kw_clients w)\<rparr>"

definition convertlist :: "resource_status list \<Rightarrow> managed_resource list" where
  "convertlist list = map es_Ref list"

definition convertlistfrom :: "managed_resource list \<Rightarrow> resource_status list" where
  "convertlistfrom list =
     map (\<lambda>r. \<lparr>es_Ref = r, es_Images = [], es_Exists = False, es_Ready = False, es_Message = NoMessage,
            es_PodsStatus = []\<rparr>) list"

text \<open>\<open>SyncDiff\<close> on the objects of one edge cluster.\<close>

definition edge_sync ::
  "task_env \<Rightarrow> string \<Rightarrow> managed_resource list \<Rightarrow> resource list \<Rightarrow> task_world \<Rightarrow> task_world \<times> managed_resource list \<times> bool" where
  "edge_sync env uid managed resources w =
     (let (store, result, errs) = SyncDiff (tv_rest env) (tv_patched env) (tv_edge_fails env uid)
            (Diff managed resources) NewDefaultSyncOptions (kw_edges w uid)
      in (w\<lparr>kw_edges := (kw_edges w)(uid := store)\<rparr>, result, errs = []))"

section \<open>The stages\<close>

datatype stage = GoOn | Stop | Fail

definition checkGenerationResetStatus :: "edge_task \<Rightarrow> edge_task" where
  "checkGenerationResetStatus task =
     (if ts_ObservedGeneration (et_Status task) \<noteq> et_Generation task
      then task\<lparr>et_Status := (et_Status task)\<lparr>ts_Phase := EdgeTaskPhaseUnset, ts_ResourcesStatus := [],
             ts_ObservedGeneration := et_Generation task\<rparr>\<rparr>
      else task)"

definition stageRenderResources :: "task_env \<Rightarrow> edge_task \<Rightarrow> edge_task \<times> resource list option" where
  "stageRenderResources env task =
     (case ParseResources (tv_split env) (et_Resources task) of
        None \<Rightarrow> (set_condition env EdgeTaskConditionTypePrepared ConditionFalse ''RenderResourcesFailed'' task, None)
      | Some resources \<Rightarrow>
          (set_condition env EdgeTaskConditionTypePrepared ConditionTrue ''RenderResourcesSucceed'' task, Some resources))"

definition stageWaitForEdgeCluster :: "task_env \<Rightarrow> edge_task \<Rightarrow> task_world \<Rightarrow> edge_task \<times> task_world \<times> stage" where
  "stageWaitForEdgeCluster env task w =
     (let edgeclustername = (if et_EdgeClusterName task = [] then et_Name task else et_EdgeClusterName task) in
      case api_get (tv_hub_fails env GetEdgeCluster) (et_Namespace task, edgeclustername) (kw_clusters w) of
        Found phase \<Rightarrow>
          if phase \<noteq> EdgePhaseOnline
          then (set_condition env EdgeTaskConditionTypeOnline ConditionFalse ''EdgeClusterNotOnline'' task,
                Invalid edgeclustername w, Stop)
          else (set_condition env EdgeTaskConditionTypeOnline ConditionTrue ''EdgeClusterOnline'' task, w, GoOn)
      | _ \<Rightarrow> (set_condition env EdgeTaskConditionTypeOnline ConditionFalse ''EdgeClusterNotFound'' task, w, Fail))"

definition applyResources ::
  "task_env \<Rightarrow> edge_task \<Rightarrow> resource list \<Rightarrow> task_world \<Rightarrow> task_world \<times> resource_status list \<times> bool" where
  "applyResources env task resources w =
     (case client_get env (et_EdgeClusterName task) w of
        (w, False) \<Rightarrow> (w, [], False)
      | (w, True) \<Rightarrow>
          let (w, applyresult, ok) =
                edge_sync env (et_EdgeClusterName task) (convertlist (ts_ResourcesStatus (et_Status task))) resources w
          in (w, convertlistfrom applyresult, ok))"

definition removeResources :: "task_env \<Rightarrow> edge_task \<Rightarrow> task_world \<Rightarrow> task_world \<times> bool" where
  "removeResources env task w =
     (case client_get env (et_EdgeClusterName task) w of
        (w, False) \<Rightarrow> (w, False)
      | (w, True) \<Rightarrow>
          let (w, result, ok) =
                edge_sync env (et_EdgeClusterName task) (convertlist (ts_ResourcesStatus (et_Status task))) [] w
          in (w, ok))"

definition stageApplyResources ::
  "task_env \<Rightarrow> edge_task \<Rightarrow> resource list \<Rightarrow> task_world \<Rightarrow> edge_task \<times> task_world \<times> bool" where
  "stageApplyResources env task resources w =
     (let hash = tv_hash env resources in
      if ts_ResourcesHash (et_Status task) = hash then (task, w, True)
      else let resources = map (InjectEdgeTask task) resources;
               (w, status, ok) = applyResources env task resources w;
               task = task\<lparr>et_Status := (et_Status task)\<lparr>ts_ResourcesStatus := status\<rparr>\<rparr>
           in if \<not> ok
              then (set_condition env EdgeTaskConditionTypeDistributed ConditionFalse ''ApplyResourcesFailed'' task, w, False)
              else (set_condition env EdgeTaskConditionTypeDistributed ConditionTrue ''ApplyResourcesSucceed''
                      (task\<lparr>et_Status := (et_Status task)\<lparr>ts_ResourcesHash := hash\<rparr>\<rparr>), w, True))"

definition checkDeploymentPodsReady ::
  "(managed_resource \<Rightarrow> string list option) \<Rightarrow> resource_status \<Rightarrow> deployment \<Rightarrow> resource_status" where
  "checkDeploymentPodsReady pods status d =
     (let status = status\<lparr>es_Images := dp_Images d\<rparr> in
      if dp_ObservedGeneration d \<noteq> dp_Generation d then status\<lparr>es_Ready := False, es_Message := NotObserved\<rparr>
      else let desireReplicas = (case dp_Replicas d of None \<Rightarrow> 1 | Some n \<Rightarrow> n);
               currentReplicas = dp_AvailableReplicas d
           in if desireReplicas = currentReplicas then status\<lparr>es_Ready := True, es_Message := NoMessage\<rparr>
              else let status = status\<lparr>es_Ready := False, es_Message := ReplicasNotReady currentReplicas desireReplicas\<rparr> in
                case pods (es_Ref status) of
                  None \<Rightarrow> status
                | Some ps \<Rightarrow> status\<lparr>es_PodsStatus := ps\<rparr>)"

definition CheckStatus :: "task_env \<Rightarrow> resource_status \<Rightarrow> resource \<Rightarrow> resource_status" where
  "CheckStatus env status obj =
     (case tv_deployment env obj of
        Some d \<Rightarrow> checkDeploymentPodsReady (tv_pods env) status d
      | None \<Rightarrow> status)"

definition check_resource :: "task_env \<Rightarrow> (verb \<Rightarrow> managed_resource \<Rightarrow> bool) \<Rightarrow> cluster \<Rightarrow> resource_status \<Rightarrow> resource_status" where
  "check_resource env fl store status =
     (case api_get (fl VGet (es_Ref status)) (es_Ref status) store of
        Found obj \<Rightarrow> CheckStatus env (status\<lparr>es_Exists := True, es_Ready := True, es_Message := NoMessage\<rparr>) obj
      | _ \<Rightarrow> status\<lparr>es_Exists := False, es_Ready := False, es_Message := NotGot, es_PodsStatus := []\<rparr>)"

definition stageCheckResource :: "task_env \<Rightarrow> edge_task \<Rightarrow> task_world \<Rightarrow> edge_task \<times> task_world \<times> bool" where
  "stageCheckResource env task w =
     (let uid = et_EdgeClusterName task in
      case client_get env uid w of
        (w, False) \<Rightarrow>
          (set_condition env EdgeTaskConditionTypeAvailable ConditionUnknown ''EdgeClientNotReady'' task, w, False)
      | (w, True) \<Rightarrow>
          let resources = map (check_resource env (tv_edge_fails env uid) (kw_edges w uid)) (ts_ResourcesStatus (et_Status task));
              notreadycount = length (filter (\<lambda>s. \<not> es_Ready s) resources);
              task = task\<lparr>et_Status := (et_Status task)\<lparr>ts_ResourcesStatus := resources\<rparr>\<rparr>
          in if notreadycount = 0
             then (set_condition env EdgeTaskConditionTypeAvailable ConditionTrue ''AllResourcesReady''
                     (task\<lparr>et_Status := (et_Status task)\<lparr>ts_Phase := EdgeTaskPhaseRunning\<rparr>\<rparr>), w, True)
             else (set_condition env EdgeTaskConditionTypeAvailable ConditionFalse ''Waiting''
                     (task\<lparr>et_Status := (et_Status task)\<lparr>ts_Phase := EdgeTaskPhaseWaiting\<rparr>\<rparr>), w, True))"

definition task_key :: "edge_task \<Rightarrow> string \<times> string" where
  "task_key task = (et_Namespace task, et_Name task)"

text \<open>The requests that write a task: the status apart from the rest, and the object of a deleted task goes
  with its last finalizer.\<close>

definition update_status :: "task_env \<Rightarrow> edge_task \<Rightarrow> task_world \<Rightarrow> task_world" where
  "update_status env task w =
     (case map_of (kw_tasks w) (task_key task) of
        None \<Rightarrow> w
      | Some stored \<Rightarrow>
          if tv_hub_fails env UpdateTaskStatus then w
          else w\<lparr>kw_tasks := AList.update (task_key task) (stored\<lparr>et_Status := et_Status task\<rparr>) (kw_tasks w)\<rparr>)"

definition update_task :: "task_env \<Rightarrow> edge_task \<Rightarrow> task_world \<Rightarrow> task_world \<times> bool" where
  "update_task env task w =
     (case map_of (kw_tasks w) (task_key task) of
        None \<Rightarrow> (w, False)
      | Some stored \<Rightarrow>
          if tv_hub_fails env UpdateTask then (w, False)
          else if et_Deleting stored \<and> et_Finalizers task = []
          then (w\<lparr>kw_tasks := AList.delete (task_key task) (kw_tasks w)\<rparr>, True)
          else (w\<lparr>kw_tasks := AList.update (task_key task) (stored\<lparr>et_Finalizers := et_Finalizers task\<rparr>) (kw_tasks w)\<rparr>,
                True))"

text \<open>The task as the run leaves it, the world, and whether the run succeeded.\<close>

definition apply_task :: "task_env \<Rightarrow> edge_task \<Rightarrow> task_world \<Rightarrow> edge_task \<times> task_world \<times> bool" where
  "apply_task env task w =
     (let task = checkGenerationResetStatus task in
      case stageRenderResources env task of
        (task, None) \<Rightarrow> (task, w, True)
      | (task, Some resources) \<Rightarrow>
          case stageWaitForEdgeCluster env task w of
            (task, w, Stop) \<Rightarrow> (task, w, True)
          | (task, w, Fail) \<Rightarrow> (task, w, False)
          | (task, w, GoOn) \<Rightarrow>
              case stageApplyResources env task resources w of
                (task, w, False) \<Rightarrow> (task, w, False)
              | (task, w, True) \<Rightarrow> stageCheckResource env task w)"

definition remove_cleaned :: "task_env \<Rightarrow> edge_task \<Rightarrow> task_world \<Rightarrow> edge_task \<times> task_world \<times> bool" where
  "remove_cleaned env task w =
     (let task = set_condition env EdgeTaskConditionTypeCleaned ConditionTrue ''RemoveResourcesSucceed'' task;
          w = update_status env task w;
          task = task\<lparr>et_Finalizers := removeAll EdgeTaskFinalizer (et_Finalizers task)\<rparr>;
          (w, ok) = update_task env task w
      in (task, w, ok))"

definition remove_task :: "task_env \<Rightarrow> edge_task \<Rightarrow> task_world \<Rightarrow> edge_task \<times> task_world \<times> bool" where
  "remove_task env task w =
     (let task = checkGenerationResetStatus task in
      if EdgeTaskFinalizer \<notin> set (et_Finalizers task) then (task, w, True)
      else if ts_ResourcesStatus (et_Status task) = [] then remove_cleaned env task w
      else case stageWaitForEdgeCluster env task w of
             (task, w, Stop) \<Rightarrow> (task, w, True)
           | (task, w, Fail) \<Rightarrow> (task, w, False)
           | (task, w, GoOn) \<Rightarrow>
               case removeResources env task w of
                 (w, False) \<Rightarrow>
                   (set_condition env EdgeTaskConditionTypeCleaned ConditionFalse ''RemoveResourcesFailed'' task, w, False)
               | (w, True) \<Rightarrow> remove_cleaned env task w)"

datatype outcome = Finished | Requeued | Errored

definition Reconcile :: "task_env \<Rightarrow> string \<times> string \<Rightarrow> task_world \<Rightarrow> task_world \<times> outcome" where
  "Reconcile env key w =
     (case api_get (tv_hub_fails env GetTask) key (kw_tasks w) of
        NotFound \<Rightarrow> (w, Finished)
      | Failed e \<Rightarrow> (w, Errored)
      | Found task \<Rightarrow>
          if et_Deleting task
          then let (task, w, ok) = remove_task env task w
               in (update_status env task w, if ok then Finished else Errored)
          else if EdgeTaskFinalizer \<notin> set (et_Finalizers task)
          then let (w, ok) = update_task env (task\<lparr>et_Finalizers := et_Finalizers task @ [EdgeTaskFinalizer]\<rparr>) w
               in (w, if ok then Requeued else Errored)
          else let (task, w, ok) = apply_task env task w
               in (update_status env task w, if ok then Finished else Errored))"

section \<open>What starts a run\<close>

text \<open>\<open>eventhandler\<close>: the task of the topmost controller of a changed object, read off its annotation.\<close>

definition event_task :: "('o \<Rightarrow> resource option) \<Rightarrow> 'o \<Rightarrow> (string \<times> string) option" where
  "event_task owner obj =
     (case owner obj of
        None \<Rightarrow> None
      | Some found \<Rightarrow>
          let (taskname, taskns) = ExtractEdgeTask found in
          if taskname = [] \<or> taskns = [] then None else Some (taskns, taskname))"

definition enqueueTasksOfCluster :: "string \<Rightarrow> string \<Rightarrow> task_world \<Rightarrow> (string \<times> string) list" where
  "enqueueTasksOfCluster clustername namespace w =
     map (task_key \<circ> snd)
       (filter (\<lambda>(key, task). et_Namespace task = namespace \<and> et_EdgeClusterName task = clustername
             \<and> ts_Phase (et_Status task) \<noteq> EdgeTaskPhaseRunning) (kw_tasks w))"

definition EdgeClusterTrigger ::
  "bool \<Rightarrow> edge_phase \<Rightarrow> edge_phase \<Rightarrow> string \<Rightarrow> string \<Rightarrow> task_world \<Rightarrow> (string \<times> string) list" where
  "EdgeClusterTrigger deleting previous current name namespace w =
     (if deleting then []
      else if previous = current then []
      else enqueueTasksOfCluster name namespace w)"

section \<open>Lemmas\<close>

lemma find_condition_at:
  "find_condition i ty cs = Some (j, c) \<Longrightarrow> i \<le> j \<and> j - i < length cs \<and> cs ! (j - i) = c \<and> tc_Type c = ty"
proof (induction cs arbitrary: i)
  case (Cons d cs)
  show ?case
  proof (cases "tc_Type d = ty")
    case False
    then have "Suc i \<le> j \<and> j - Suc i < length cs \<and> cs ! (j - Suc i) = c \<and> tc_Type c = ty"
      using Cons by simp
    moreover from this have "j - i = Suc (j - Suc i)" by arith
    ultimately show ?thesis by simp
  qed (use Cons.prems in simp)
qed simp

lemma find_condition_None: "find_condition i ty cs = None \<longleftrightarrow> ty \<notin> tc_Type ` set cs"
  by (induction cs arbitrary: i) auto

lemma condition_keeps [simp]:
  "et_Name (UpdateEdgeTaskCondition now task c) = et_Name task"
  "et_Namespace (UpdateEdgeTaskCondition now task c) = et_Namespace task"
  "et_Deleting (UpdateEdgeTaskCondition now task c) = et_Deleting task"
  "et_Finalizers (UpdateEdgeTaskCondition now task c) = et_Finalizers task"
  "et_Generation (UpdateEdgeTaskCondition now task c) = et_Generation task"
  "et_EdgeClusterName (UpdateEdgeTaskCondition now task c) = et_EdgeClusterName task"
  "et_Resources (UpdateEdgeTaskCondition now task c) = et_Resources task"
  "task_key (UpdateEdgeTaskCondition now task c) = task_key task"
  "ts_ObservedGeneration (et_Status (UpdateEdgeTaskCondition now task c)) = ts_ObservedGeneration (et_Status task)"
  "ts_Phase (et_Status (UpdateEdgeTaskCondition now task c)) = ts_Phase (et_Status task)"
  "ts_ResourcesHash (et_Status (UpdateEdgeTaskCondition now task c)) = ts_ResourcesHash (et_Status task)"
  "ts_ResourcesStatus (et_Status (UpdateEdgeTaskCondition now task c)) = ts_ResourcesStatus (et_Status task)"
  by (auto simp: UpdateEdgeTaskCondition_def Let_def task_key_def split: option.split)

lemma reset_keeps [simp]:
  "et_Name (checkGenerationResetStatus task) = et_Name task"
  "et_Namespace (checkGenerationResetStatus task) = et_Namespace task"
  "et_Finalizers (checkGenerationResetStatus task) = et_Finalizers task"
  "et_EdgeClusterName (checkGenerationResetStatus task) = et_EdgeClusterName task"
  "et_Resources (checkGenerationResetStatus task) = et_Resources task"
  "et_Generation (checkGenerationResetStatus task) = et_Generation task"
  "task_key (checkGenerationResetStatus task) = task_key task"
  "ts_ObservedGeneration (et_Status (checkGenerationResetStatus task)) = et_Generation task"
  "ts_ResourcesHash (et_Status (checkGenerationResetStatus task)) = ts_ResourcesHash (et_Status task)"
  "ts_ResourcesStatus (et_Status (checkGenerationResetStatus task)) =
    (if ts_ObservedGeneration (et_Status task) = et_Generation task then ts_ResourcesStatus (et_Status task) else [])"
  by (auto simp: checkGenerationResetStatus_def task_key_def)

text \<open>A task has at most one condition of each type.\<close>

lemma conditions_distinct:
  assumes "distinct (map tc_Type (ts_Conditions (et_Status task)))"
  shows "distinct (map tc_Type (ts_Conditions (et_Status (UpdateEdgeTaskCondition now task c))))"
    and "distinct (map tc_Type (ts_Conditions (RemoveEdgeTaskCondition (et_Status task) ty)))"
proof -
  let ?cs = "ts_Conditions (et_Status task)"
  show "distinct (map tc_Type (ts_Conditions (et_Status (UpdateEdgeTaskCondition now task c))))"
  proof (cases "find_condition 0 (tc_Type c) ?cs")
    case None
    moreover from this have "tc_Type c \<notin> tc_Type ` set ?cs" by (simp add: find_condition_None)
    ultimately show ?thesis using assms
      by (simp add: UpdateEdgeTaskCondition_def GetEdgeTaskCondition_def Let_def)
  next
    case (Some p)
    obtain i old where p: "p = (i, old)" by (cases p)
    have at: "i < length ?cs" "tc_Type (?cs ! i) = tc_Type c"
      using find_condition_at [of 0 "tc_Type c" ?cs i old] Some p by simp_all
    have "map tc_Type (?cs[i := d]) = map tc_Type ?cs" if "tc_Type d = tc_Type c" for d
      using at that by (simp add: map_update list_update_same_conv)
    then show ?thesis using assms Some p
      by (simp add: UpdateEdgeTaskCondition_def GetEdgeTaskCondition_def Let_def)
  qed
  show "distinct (map tc_Type (ts_Conditions (RemoveEdgeTaskCondition (et_Status task) ty)))"
  proof (cases "find_condition 0 ty ?cs")
    case (Some p)
    obtain i old where p: "p = (i, old)" by (cases p)
    have "distinct (take i (map tc_Type ?cs) @ drop (i + 1) (map tc_Type ?cs))"
      unfolding distinct_append
      using assms set_take_disj_set_drop_if_distinct [OF assms, of i "i + 1"] by simp
    then show ?thesis using Some p by (simp add: RemoveEdgeTaskCondition_def take_map drop_map)
  qed (use assms in \<open>simp add: RemoveEdgeTaskCondition_def\<close>)
qed

text \<open>The mark is read as it was written when the name has no slash, as no name of an object has.\<close>

lemma Extract_Inject:
  assumes "CHR ''/'' \<notin> set (et_Name task)"
  shows "ExtractEdgeTask (InjectEdgeTask task obj) = (et_Name task, et_Namespace task)"
proof -
  have "index_of (n @ CHR ''/'' # m) ''/'' = Some (length n)" if "CHR ''/'' \<notin> set n" for n m
    using that by (induction n) (auto simp: has_prefix_def)
  from this [OF assms] show ?thesis
    by (simp add: ExtractEdgeTask_def InjectEdgeTask_def get_str_def update_conv' update_Some_unfold)
qed

lemma Inject_keeps [simp]:
  "rs_ref (InjectEdgeTask task obj) = rs_ref obj"
  "IsSkipedOn (InjectEdgeTask task obj) AnnotationIgnoreOptionOnUpdate = IsSkipedOn obj AnnotationIgnoreOptionOnUpdate"
  by (auto simp: InjectEdgeTask_def IsSkipedOn_def AnnotationIgnoreOptionOnUpdate_def update_conv'
      AnnotationIgnoreOptions_def AnnotationEdgeTaskNameNamespace_def)

lemma Inject_refs [simp]: "refs (map (InjectEdgeTask task) xs) = refs xs"
  by (simp add: image_image)

lemma convert_convert [simp]: "convertlist (convertlistfrom xs) = xs"
  by (simp add: convertlist_def convertlistfrom_def comp_def)

lemma edge_sync_run:
  assumes "edge_sync env uid managed xs w = (w', result, ok)"
  obtains store errs where
    "SyncDiff (tv_rest env) (tv_patched env) (tv_edge_fails env uid) (Diff managed xs) NewDefaultSyncOptions (kw_edges w uid)
      = (store, result, errs)"
    "w' = w\<lparr>kw_edges := (kw_edges w)(uid := store)\<rparr>" "ok \<longleftrightarrow> errs = []"
  using assms by (auto simp: edge_sync_def split: prod.splits)

lemma client_get_keeps:
  assumes "client_get env uid w = (w', ok)"
  shows "kw_tasks w' = kw_tasks w" "kw_edges w' = kw_edges w" "kw_clusters w' = kw_clusters w"
    "ok \<longleftrightarrow> uid \<in> set (kw_clients w) \<or> tv_connect env uid"
  using assms by (auto simp: client_get_def split: if_splits)

lemma Invalid_keeps [simp]:
  "kw_tasks (Invalid uid w) = kw_tasks w" "kw_edges (Invalid uid w) = kw_edges w"
  by (simp_all add: Invalid_def)

abbreviation edge_cluster_of :: "edge_task \<Rightarrow> task_world \<Rightarrow> edge_phase option" where
  "edge_cluster_of task w \<equiv> map_of (kw_clusters w)
     (et_Namespace task, if et_EdgeClusterName task = [] then et_Name task else et_EdgeClusterName task)"

lemma wait_result:
  assumes "stageWaitForEdgeCluster env task w = (task', w', st)"
  shows "kw_tasks w' = kw_tasks w" "kw_edges w' = kw_edges w" "task_key task' = task_key task"
    and "et_Finalizers task' = et_Finalizers task" "et_EdgeClusterName task' = et_EdgeClusterName task"
    and "ts_ResourcesStatus (et_Status task') = ts_ResourcesStatus (et_Status task)"
    and "st = GoOn \<longleftrightarrow> \<not> tv_hub_fails env GetEdgeCluster \<and> edge_cluster_of task w = Some EdgePhaseOnline"
    and "st = GoOn \<Longrightarrow> w' = w"
    and "st = GoOn \<Longrightarrow> task' = set_condition env EdgeTaskConditionTypeOnline ConditionTrue ''EdgeClusterOnline'' task"
  using assms
  by (auto simp: stageWaitForEdgeCluster_def Let_def api_get_def simp del: map_of_eq_Some_iff split: if_splits option.splits)

lemma update_status_at:
  "map_of (kw_tasks (update_status env task w)) k =
    (if k = task_key task \<and> \<not> tv_hub_fails env UpdateTaskStatus
     then map_option (\<lambda>stored. stored\<lparr>et_Status := et_Status task\<rparr>) (map_of (kw_tasks w) k)
     else map_of (kw_tasks w) k)"
  "kw_edges (update_status env task w) = kw_edges w"
  by (auto simp: update_status_def update_conv' simp del: map_of_eq_Some_iff split: option.split)

lemma update_task_at:
  assumes "update_task env task w = (w', ok)"
  shows "map_of (kw_tasks w') k =
    (if k = task_key task \<and> \<not> tv_hub_fails env UpdateTask
     then Option.bind (map_of (kw_tasks w) k) (\<lambda>stored. if et_Deleting stored \<and> et_Finalizers task = [] then None
        else Some (stored\<lparr>et_Finalizers := et_Finalizers task\<rparr>))
     else map_of (kw_tasks w) k)"
    and "kw_edges w' = kw_edges w"
    and "ok \<longleftrightarrow> map_of (kw_tasks w) (task_key task) \<noteq> None \<and> \<not> tv_hub_fails env UpdateTask"
  using assms by (auto simp: update_task_def update_conv' delete_conv' simp del: map_of_eq_Some_iff split: option.splits if_splits)

lemma remove_cleaned_result:
  assumes "remove_cleaned env task w = (task', w', ok)"
  shows "kw_edges w' = kw_edges w" "task_key task' = task_key task"
    and "\<forall>v. \<not> tv_hub_fails env v \<Longrightarrow> map_of (kw_tasks w) (task_key task) = Some stored \<Longrightarrow> et_Deleting stored
      \<Longrightarrow> et_Finalizers task = [EdgeTaskFinalizer] \<Longrightarrow> ok \<and> map_of (kw_tasks w') (task_key task) = None"
proof -
  define t1 where "t1 = set_condition env EdgeTaskConditionTypeCleaned ConditionTrue ''RemoveResourcesSucceed'' task"
  define t2 where "t2 = t1\<lparr>et_Finalizers := removeAll EdgeTaskFinalizer (et_Finalizers t1)\<rparr>"
  have key: "task_key t1 = task_key task" "task_key t2 = task_key task"
    by (simp_all add: t2_def t1_def) (simp add: task_key_def)
  have run: "update_task env t2 (update_status env t1 w) = (w', ok)" and t: "task' = t2"
    using assms by (auto simp: remove_cleaned_def t1_def t2_def Let_def split: prod.splits)
  note up = update_task_at [OF run] and st = update_status_at [of env t1 w]
  show "kw_edges w' = kw_edges w" using up(2) st(2) by simp
  show "task_key task' = task_key task" using key t by simp
  show "ok \<and> map_of (kw_tasks w') (task_key task) = None"
    if "\<forall>v. \<not> tv_hub_fails env v" "map_of (kw_tasks w) (task_key task) = Some stored" "et_Deleting stored"
      "et_Finalizers task = [EdgeTaskFinalizer]"
    using that up(1,3) st(1) key by (simp add: t2_def t1_def del: map_of_eq_Some_iff)
qed

lemma removeResources_result:
  assumes "removeResources env task w = (w', ok)"
  shows "kw_tasks w' = kw_tasks w"
    and "ok \<Longrightarrow> r \<in> set (convertlist (ts_ResourcesStatus (et_Status task)))
      \<Longrightarrow> \<not> kept_crd (tv_rest env) NewDefaultSyncOptions r \<Longrightarrow> map_of (kw_edges w' (et_EdgeClusterName task)) r = None"
    and "tv_connect env (et_EdgeClusterName task) \<Longrightarrow> tv_edge_fails env (et_EdgeClusterName task) = (\<lambda>_ _. False) \<Longrightarrow> ok"
proof -
  let ?uid = "et_EdgeClusterName task" and ?M = "convertlist (ts_ResourcesStatus (et_Status task))"
  obtain w1 got where get: "client_get env ?uid w = (w1, got)" by (cases "client_get env ?uid w")
  note client = client_get_keeps [OF get]
  obtain w2 result done1 where sync: "edge_sync env ?uid ?M [] w1 = (w2, result, done1)"
    by (cases "edge_sync env ?uid ?M [] w1")
  obtain store errs where run: "SyncDiff (tv_rest env) (tv_patched env) (tv_edge_fails env ?uid) (Diff ?M [])
      NewDefaultSyncOptions (kw_edges w1 ?uid) = (store, result, errs)"
    and w2: "w2 = w1\<lparr>kw_edges := (kw_edges w1)(?uid := store)\<rparr>" and done1: "done1 \<longleftrightarrow> errs = []"
    by (rule edge_sync_run [OF sync])
  have res: "if got then w' = w2 \<and> ok = done1 else w' = w1 \<and> \<not> ok"
    using assms get sync by (auto simp: removeResources_def split: if_splits)
  show "kw_tasks w' = kw_tasks w" using res w2 client(1) by (auto split: if_splits)
  show "map_of (kw_edges w' ?uid) r = None" if "ok" "r \<in> set ?M" "\<not> kept_crd (tv_rest env) NewDefaultSyncOptions r"
    using SyncDiff_success(3) [of "tv_rest env" "tv_patched env"
        "tv_edge_fails env ?uid" ?M "[]" NewDefaultSyncOptions "kw_edges w1 ?uid" store result r]
      that res w2 run done1 by (auto split: if_splits)
  show "ok" if "tv_connect env ?uid" "tv_edge_fails env ?uid = (\<lambda>_ _. False)"
    using SyncDiff_clean(1) [OF run [unfolded that(2)]] res client(4) that(1) done1 by auto
qed

text \<open>The steps of a removal: nothing is managed; the cluster is not there; the resources go.\<close>

lemma remove_task_steps:
  assumes run: "remove_task env task w = (task', w', ok)" and fin: "EdgeTaskFinalizer \<in> set (et_Finalizers task)"
  defines "t0 \<equiv> checkGenerationResetStatus task"
  obtains (idle) "ts_ResourcesStatus (et_Status t0) = []" "remove_cleaned env t0 w = (task', w', ok)"
    | (away) "ts_ResourcesStatus (et_Status t0) \<noteq> []" "kw_tasks w' = kw_tasks w" "kw_edges w' = kw_edges w"
        "task_key task' = task_key task" "edge_cluster_of t0 w \<noteq> Some EdgePhaseOnline \<or> tv_hub_fails env GetEdgeCluster"
    | (failed) t1 where "ts_ResourcesStatus (et_Status t0) \<noteq> []"
        "t1 = set_condition env EdgeTaskConditionTypeOnline ConditionTrue ''EdgeClusterOnline'' t0"
        "edge_cluster_of t0 w = Some EdgePhaseOnline" "removeResources env t1 w = (w', False)"
        "task_key task' = task_key task" "\<not> ok"
    | (removed) t1 w1 where "ts_ResourcesStatus (et_Status t0) \<noteq> []"
        "t1 = set_condition env EdgeTaskConditionTypeOnline ConditionTrue ''EdgeClusterOnline'' t0"
        "edge_cluster_of t0 w = Some EdgePhaseOnline" "removeResources env t1 w = (w1, True)"
        "remove_cleaned env t1 w1 = (task', w', ok)"
proof (cases "ts_ResourcesStatus (et_Status t0) = []")
  case True
  moreover have "remove_cleaned env t0 w = (task', w', ok)"
    using run fin True by (simp add: remove_task_def t0_def Let_def split: if_splits)
  ultimately show ?thesis by (rule idle)
next
  case False
  obtain t1 w1 st where wait: "stageWaitForEdgeCluster env t0 w = (t1, w1, st)"
    by (cases "stageWaitForEdgeCluster env t0 w")
  note wr = wait_result [OF wait]
  have rest: "(case st of Stop \<Rightarrow> (t1, w1, True) | Fail \<Rightarrow> (t1, w1, False)
      | GoOn \<Rightarrow> (case removeResources env t1 w1 of
          (w, False) \<Rightarrow> (set_condition env EdgeTaskConditionTypeCleaned ConditionFalse ''RemoveResourcesFailed'' t1, w, False)
        | (w, True) \<Rightarrow> remove_cleaned env t1 w)) = (task', w', ok)"
    using run fin False wait by (simp add: remove_task_def t0_def [symmetric] Let_def) (simp add: t0_def)
  show ?thesis
  proof (cases "st = GoOn")
    case True
    obtain w2 b where rem: "removeResources env t1 w1 = (w2, b)" by (cases "removeResources env t1 w1")
    show ?thesis
    proof (cases b)
      case True
      show ?thesis
        by (rule removed [OF False wr(9) _ _]) (use rest rem wr \<open>st = GoOn\<close> True in auto)
    next
      case False
      show ?thesis
        by (rule failed [OF \<open>ts_ResourcesStatus (et_Status t0) \<noteq> []\<close> wr(9) _ _])
          (use rest rem wr \<open>st = GoOn\<close> False in \<open>auto simp: t0_def\<close>)
    qed
  next
    case False
    then have "kw_tasks w' = kw_tasks w \<and> kw_edges w' = kw_edges w \<and> task_key task' = task_key task"
      using rest wr(1-3) by (auto simp: t0_def split: stage.splits)
    moreover have "edge_cluster_of t0 w \<noteq> Some EdgePhaseOnline \<or> tv_hub_fails env GetEdgeCluster"
      using False wr(7) by blast
    ultimately show ?thesis using \<open>ts_ResourcesStatus (et_Status t0) \<noteq> []\<close> by (intro away) blast+
  qed
qed

section \<open>Properties\<close>

text \<open>The objects that go with a task: all it manages but the definitions of custom resources.\<close>

definition removable :: "task_env \<Rightarrow> edge_task \<Rightarrow> managed_resource set" where
  "removable env task = {r \<in> set (convertlist (ts_ResourcesStatus (et_Status task))).
     \<not> kept_crd (tv_rest env) NewDefaultSyncOptions r}"

lemma remove_task_facts:
  assumes run: "remove_task env task w = (task', w', ok)"
    and stored: "map_of (kw_tasks w) (task_key task) = Some task" "et_Deleting task" "et_Finalizers task = [EdgeTaskFinalizer]"
  defines "observed \<equiv> ts_ObservedGeneration (et_Status task) = et_Generation task"
    and "gone \<equiv> map_of (kw_tasks w') (task_key task) = None"
  shows "task_key task' = task_key task"
    and "observed \<Longrightarrow> gone \<Longrightarrow> r \<in> removable env task \<Longrightarrow> map_of (kw_edges w' (et_EdgeClusterName task)) r = None"
    and "observed \<Longrightarrow> ts_ResourcesStatus (et_Status task) \<noteq> [] \<Longrightarrow> edge_cluster_of task w \<noteq> Some EdgePhaseOnline
      \<Longrightarrow> \<not> gone \<and> kw_edges w' = kw_edges w"
    and "\<not> observed \<Longrightarrow> \<forall>v. \<not> tv_hub_fails env v \<Longrightarrow> gone \<and> kw_edges w' = kw_edges w"
    and "observed \<Longrightarrow> \<forall>v. \<not> tv_hub_fails env v \<Longrightarrow> edge_cluster_of task w = Some EdgePhaseOnline
      \<Longrightarrow> tv_connect env (et_EdgeClusterName task) \<Longrightarrow> tv_edge_fails env (et_EdgeClusterName task) = (\<lambda>_ _. False) \<Longrightarrow> gone"
proof -
  have fin: "EdgeTaskFinalizer \<in> set (et_Finalizers task)" using stored by simp
  have "task_key task' = task_key task \<and>
    (observed \<and> gone \<and> r \<in> removable env task \<longrightarrow> map_of (kw_edges w' (et_EdgeClusterName task)) r = None) \<and>
    (observed \<and> ts_ResourcesStatus (et_Status task) \<noteq> [] \<and> edge_cluster_of task w \<noteq> Some EdgePhaseOnline
      \<longrightarrow> \<not> gone \<and> kw_edges w' = kw_edges w) \<and>
    (\<not> observed \<and> (\<forall>v. \<not> tv_hub_fails env v) \<longrightarrow> gone \<and> kw_edges w' = kw_edges w) \<and>
    (observed \<and> (\<forall>v. \<not> tv_hub_fails env v) \<and> edge_cluster_of task w = Some EdgePhaseOnline
      \<and> tv_connect env (et_EdgeClusterName task) \<and> tv_edge_fails env (et_EdgeClusterName task) = (\<lambda>_ _. False) \<longrightarrow> gone)"
    using run fin
  proof (cases rule: remove_task_steps)
    case idle
    note cl = remove_cleaned_result [OF idle(2)]
    have "observed \<Longrightarrow> removable env task = {}" "observed \<Longrightarrow> ts_ResourcesStatus (et_Status task) = []"
      using idle(1) by (simp_all add: observed_def removable_def convertlist_def)
    then show ?thesis using cl(1,2) cl(3) [of task] stored by (auto simp: gone_def)
  next
    case away
    then show ?thesis using stored by (auto simp: observed_def gone_def)
  next
    case (failed t1)
    have "kw_tasks w' = kw_tasks w" by (rule removeResources_result(1) [OF failed(4)])
    moreover have "observed" using failed(1) by (simp add: observed_def split: if_splits)
    moreover have "\<not> (tv_connect env (et_EdgeClusterName task) \<and> tv_edge_fails env (et_EdgeClusterName task) = (\<lambda>_ _. False))"
      using removeResources_result(3) [OF failed(4)] failed(2) by auto
    moreover have "edge_cluster_of task w = Some EdgePhaseOnline"
      using failed(3) by (cases "et_EdgeClusterName task = []") simp_all
    ultimately show ?thesis using failed(5) stored by (simp add: gone_def)
  next
    case (removed t1 w1)
    have o: "observed" using removed(1) by (simp add: observed_def split: if_splits)
    have managed: "ts_ResourcesStatus (et_Status t1) = ts_ResourcesStatus (et_Status task)"
      using o by (simp add: removed(2) observed_def)
    note cl = remove_cleaned_result [OF removed(5)]
    have key: "task_key t1 = task_key task" "et_Finalizers t1 = et_Finalizers task"
      "et_EdgeClusterName t1 = et_EdgeClusterName task" by (simp_all add: removed(2))
    have "map_of (kw_edges w' (et_EdgeClusterName task)) r = None" if "r \<in> removable env task"
      using removeResources_result(2) [OF removed(4)] that cl(1) key managed by (simp add: removable_def)
    moreover have "\<forall>v. \<not> tv_hub_fails env v \<Longrightarrow> gone"
      using cl(3) [of task] removeResources_result(1) [OF removed(4)] stored key by (simp add: gone_def)
    moreover have "edge_cluster_of task w = Some EdgePhaseOnline"
      using removed(3) by (cases "et_EdgeClusterName task = []") simp_all
    ultimately show ?thesis using o cl(2) key by simp
  qed
  then show "task_key task' = task_key task"
    "observed \<Longrightarrow> gone \<Longrightarrow> r \<in> removable env task \<Longrightarrow> map_of (kw_edges w' (et_EdgeClusterName task)) r = None"
    "observed \<Longrightarrow> ts_ResourcesStatus (et_Status task) \<noteq> [] \<Longrightarrow> edge_cluster_of task w \<noteq> Some EdgePhaseOnline
      \<Longrightarrow> \<not> gone \<and> kw_edges w' = kw_edges w"
    "\<not> observed \<Longrightarrow> \<forall>v. \<not> tv_hub_fails env v \<Longrightarrow> gone \<and> kw_edges w' = kw_edges w"
    "observed \<Longrightarrow> \<forall>v. \<not> tv_hub_fails env v \<Longrightarrow> edge_cluster_of task w = Some EdgePhaseOnline
      \<Longrightarrow> tv_connect env (et_EdgeClusterName task) \<Longrightarrow> tv_edge_fails env (et_EdgeClusterName task) = (\<lambda>_ _. False) \<Longrightarrow> gone"
    by simp_all
qed

text \<open>A deleted task and its resources, whatever requests fail. When the last generation of the task was
  observed: its object goes only after all it manages is gone from the edge cluster (definitions of
  custom resources apart); while the edge cluster is not online nothing is removed and the task stays;
  when the cluster is online and nothing fails, the task goes. When it was not observed, and the
  deletion itself makes a new generation, the record of what it manages is dropped first: the task goes
  and everything it has put on the edge cluster stays there.\<close>

theorem Reconcile_deleted_task:
  assumes "map_of (kw_tasks w) (task_key task) = Some task" "et_Deleting task" "et_Finalizers task = [EdgeTaskFinalizer]"
  shows "let (w', result) = Reconcile env (task_key task) w;
       observed = (ts_ObservedGeneration (et_Status task) = et_Generation task);
       gone = (map_of (kw_tasks w') (task_key task) = None) in
     (observed \<and> gone \<longrightarrow> (\<forall>r \<in> removable env task. map_of (kw_edges w' (et_EdgeClusterName task)) r = None)) \<and>
     (observed \<and> ts_ResourcesStatus (et_Status task) \<noteq> [] \<and> edge_cluster_of task w \<noteq> Some EdgePhaseOnline
       \<longrightarrow> \<not> gone \<and> kw_edges w' = kw_edges w) \<and>
     (observed \<and> (\<forall>v. \<not> tv_hub_fails env v) \<and> edge_cluster_of task w = Some EdgePhaseOnline
       \<and> tv_connect env (et_EdgeClusterName task) \<and> tv_edge_fails env (et_EdgeClusterName task) = (\<lambda>_ _. False)
       \<longrightarrow> gone) \<and>
     (\<not> observed \<and> (\<forall>v. \<not> tv_hub_fails env v) \<longrightarrow> gone \<and> kw_edges w' = kw_edges w)"
proof (cases "tv_hub_fails env GetTask")
  case True
  moreover from this have "Reconcile env (task_key task) w = (w, Errored)" by (simp add: Reconcile_def api_get_def)
  ultimately show ?thesis using assms by (auto simp: Let_def simp del: map_of_eq_Some_iff)
next
  case False
  obtain task' w1 ok where run: "remove_task env task w = (task', w1, ok)" by (cases "remove_task env task w")
  have "Reconcile env (task_key task) w = (update_status env task' w1, if ok then Finished else Errored)"
    using False assms run by (simp add: Reconcile_def api_get_def del: map_of_eq_Some_iff)
  moreover have "map_of (kw_tasks (update_status env task' w1)) (task_key task) = None \<longleftrightarrow> map_of (kw_tasks w1) (task_key task) = None"
    by (simp add: update_status_at(1) del: map_of_eq_Some_iff)
  ultimately show ?thesis
    using remove_task_facts(2-5) [OF run assms]
    by (simp add: Let_def update_status_at(2) del: map_of_eq_Some_iff not_None_eq)
qed

text \<open>A deleted task that holds a configuration on an edge cluster that is online, as its controller finds it with the
  generation it has observed, and with the next one, which the deletion made.\<close>

definition ex_task :: "int \<Rightarrow> edge_task" where
  "ex_task generation = \<lparr>et_Name = ''t'', et_Namespace = ''ns'', et_Generation = generation, et_Deleting = True,
     et_Finalizers = [EdgeTaskFinalizer], et_EdgeClusterName = ''e'', et_Resources = [''x''],
     et_Status = \<lparr>ts_ObservedGeneration = 1, ts_Phase = EdgeTaskPhaseRunning, ts_Conditions = [], ts_ResourcesHash = ''h'',
       ts_ResourcesStatus = convertlistfrom [ex_config]\<rparr>\<rparr>"

definition ex_world :: "int \<Rightarrow> task_world" where
  "ex_world generation = \<lparr>kw_tasks = [((''ns'', ''t''), ex_task generation)], kw_clusters = [((''ns'', ''e''), EdgePhaseOnline)],
     kw_clients = [], kw_edges = (\<lambda>_. ex_store)\<rparr>"

definition ex_task_env :: task_env where
  "ex_task_env = \<lparr>tv_now = 5, tv_split = (\<lambda>_. None), tv_hash = (\<lambda>_. ''h''), tv_rest = ex_rest, tv_patched = ex_patched,
     tv_deployment = (\<lambda>_. None), tv_pods = (\<lambda>_. None), tv_connect = (\<lambda>_. True), tv_hub_fails = (\<lambda>_. False),
     tv_edge_fails = (\<lambda>_ _ _. False)\<rparr>"

theorem Reconcile_deleted_task_witness:
  "map_of (kw_edges (fst (Reconcile ex_task_env (''ns'', ''t'') (ex_world 1))) ''e'') ex_config = None \<and>
   map_of (kw_tasks (fst (Reconcile ex_task_env (''ns'', ''t'') (ex_world 2)))) (''ns'', ''t'') = None \<and>
   map_of (kw_edges (fst (Reconcile ex_task_env (''ns'', ''t'') (ex_world 2))) ''e'') ex_config \<noteq> None"
proof -
  have "ex_config \<in> removable ex_task_env (ex_task 1)"
    using ex_config_not_kept by (simp add: removable_def ex_task_def ex_task_env_def)
  then show ?thesis
    using Reconcile_deleted_task [of "ex_world 1" "ex_task 1" ex_task_env] Reconcile_deleted_task [of "ex_world 2" "ex_task 2" ex_task_env]
    by (auto simp: task_key_def ex_world_def ex_task_def ex_task_env_def ex_store_def Let_def case_prod_unfold)
qed

text \<open>Applying and checking when the client can be made.\<close>

lemma check_resource_ref [simp]: "es_Ref (check_resource env fl store status) = es_Ref status"
  by (simp add: check_resource_def CheckStatus_def checkDeploymentPodsReady_def Let_def split: got.split option.split)

lemma writes_Inject [simp]: "writes options (InjectEdgeTask task x) = writes options x"
  by (simp add: writes_def)

lemma stageApply_result:
  assumes run: "stageApplyResources env task xs w = (task', w', ok)"
    and con: "tv_connect env (et_EdgeClusterName task)" "tv_edge_fails env (et_EdgeClusterName task) = (\<lambda>_ _. False)"
  defines "before \<equiv> convertlist (ts_ResourcesStatus (et_Status task))"
    and "after \<equiv> convertlist (ts_ResourcesStatus (et_Status task'))"
    and "uid \<equiv> et_EdgeClusterName task"
    and "changed \<equiv> ts_ResourcesHash (et_Status task) \<noteq> tv_hash env xs"
  shows "ok" "kw_tasks w' = kw_tasks w" "task_key task' = task_key task" "et_EdgeClusterName task' = et_EdgeClusterName task"
    and "ts_ObservedGeneration (et_Status task') = ts_ObservedGeneration (et_Status task)"
    and "ts_ResourcesHash (et_Status task') = tv_hash env xs"
    and "\<not> changed \<Longrightarrow> after = before \<and> kw_edges w' = kw_edges w"
    and "changed \<Longrightarrow> set after = refs xs"
    and "changed \<Longrightarrow> x \<in> set xs \<Longrightarrow> rs_ref x \<notin> set before \<or> \<not> IsSkipedOn x AnnotationIgnoreOptionOnUpdate
      \<Longrightarrow> map_of (kw_edges w' uid) (rs_ref x) \<noteq> None"
    and "changed \<Longrightarrow> r \<in> set before - refs xs \<Longrightarrow> \<not> kept_crd (tv_rest env) NewDefaultSyncOptions r
      \<Longrightarrow> map_of (kw_edges w' uid) r = None"
    and "changed \<Longrightarrow> r \<notin> set before \<union> \<Union>(writes NewDefaultSyncOptions ` set xs)
      \<Longrightarrow> map_of (kw_edges w' uid) r = map_of (kw_edges w uid) r"
proof -
  let ?ys = "map (InjectEdgeTask task) xs"
  obtain w1 got where get: "client_get env uid w = (w1, got)" by (cases "client_get env uid w")
  note client = client_get_keeps [OF get]
  obtain w2 result done1 where sync: "edge_sync env uid before ?ys w1 = (w2, result, done1)"
    by (cases "edge_sync env uid before ?ys w1")
  obtain store errs where sd: "SyncDiff (tv_rest env) (tv_patched env) (tv_edge_fails env uid) (Diff before ?ys)
      NewDefaultSyncOptions (kw_edges w1 uid) = (store, result, errs)"
    and w2: "w2 = w1\<lparr>kw_edges := (kw_edges w1)(uid := store)\<rparr>" and done1: "done1 \<longleftrightarrow> errs = []"
    by (rule edge_sync_run [OF sync])
  note clean = SyncDiff_clean [OF sd [unfolded uid_def con(2)]] and keeps = SyncDiff_keeps [OF sd]
  have got and done1 using client(4) con(1) clean(1) done1 by (simp_all add: uid_def)
  then have apply_run: "applyResources env task ?ys w = (w2, convertlistfrom result, True)"
    using get sync by (simp add: applyResources_def uid_def before_def)
  note out = run [unfolded stageApplyResources_def Let_def apply_run case_prod_conv]
  show "ok" "kw_tasks w' = kw_tasks w" "task_key task' = task_key task" "et_EdgeClusterName task' = et_EdgeClusterName task"
    "ts_ObservedGeneration (et_Status task') = ts_ObservedGeneration (et_Status task)"
    "ts_ResourcesHash (et_Status task') = tv_hash env xs" "\<not> changed \<Longrightarrow> after = before \<and> kw_edges w' = kw_edges w"
    using out w2 client(1) by (auto simp: changed_def after_def before_def split: if_splits) (simp_all add: task_key_def)
  have ch: "after = result" "map_of (kw_edges w' uid) = map_of store" if changed
    using out w2 client(2) that by (auto simp: changed_def after_def)
  have img: "refs ?ys = refs xs" "\<Union>(writes NewDefaultSyncOptions ` set ?ys) = \<Union>(writes NewDefaultSyncOptions ` set xs)"
    by (simp_all add: image_image)
  show "set after = refs xs" if changed using clean(2) ch(1) [OF that] img(1) by simp
  show "map_of (kw_edges w' uid) (rs_ref x) \<noteq> None" if changed "x \<in> set xs"
    "rs_ref x \<notin> set before \<or> \<not> IsSkipedOn x AnnotationIgnoreOptionOnUpdate"
    using clean(3) [of "InjectEdgeTask task x"] that(2,3) unfolding ch(2) [OF that(1)] by simp
  show "map_of (kw_edges w' uid) r = None" if changed "r \<in> set before - refs xs"
    "\<not> kept_crd (tv_rest env) NewDefaultSyncOptions r"
    using clean(4) [of r] that(2,3) unfolding ch(2) [OF that(1)] img(1) by blast
  show "map_of (kw_edges w' uid) r = map_of (kw_edges w uid) r" if changed
    "r \<notin> set before \<union> \<Union>(writes NewDefaultSyncOptions ` set xs)"
    using keeps(3) [of r] that(2) unfolding ch(2) [OF that(1)] img(2) client(2) by blast
qed

lemma stageCheck_result:
  assumes run: "stageCheckResource env task w = (task', w', ok)" and con: "tv_connect env (et_EdgeClusterName task)"
  shows "ok" "kw_tasks w' = kw_tasks w" "kw_edges w' = kw_edges w" "task_key task' = task_key task"
    and "ts_ObservedGeneration (et_Status task') = ts_ObservedGeneration (et_Status task)"
    and "ts_ResourcesHash (et_Status task') = ts_ResourcesHash (et_Status task)"
    and "convertlist (ts_ResourcesStatus (et_Status task')) = convertlist (ts_ResourcesStatus (et_Status task))"
    and "ts_Phase (et_Status task') = EdgeTaskPhaseRunning \<longleftrightarrow> (\<forall>s \<in> set (ts_ResourcesStatus (et_Status task')). es_Ready s)"
proof -
  obtain w1 got where get: "client_get env (et_EdgeClusterName task) w = (w1, got)"
    by (cases "client_get env (et_EdgeClusterName task) w")
  note client = client_get_keeps [OF get]
  have got using client(4) con by simp
  note out = run [unfolded stageCheckResource_def Let_def get case_prod_conv]
  show "ok" "kw_tasks w' = kw_tasks w" "kw_edges w' = kw_edges w" "task_key task' = task_key task"
    "ts_ObservedGeneration (et_Status task') = ts_ObservedGeneration (et_Status task)"
    "ts_ResourcesHash (et_Status task') = ts_ResourcesHash (et_Status task)"
    using out client \<open>got\<close> by (auto split: if_splits) (simp_all add: task_key_def)
  define rs where "rs = map (check_resource env (tv_edge_fails env (et_EdgeClusterName task))
    (kw_edges w1 (et_EdgeClusterName task))) (ts_ResourcesStatus (et_Status task))"
  have refs: "convertlist rs = convertlist (ts_ResourcesStatus (et_Status task))"
    by (simp add: convertlist_def rs_def)
  have cnt: "length (filter (\<lambda>s. \<not> es_Ready s) rs) = 0 \<longleftrightarrow> (\<forall>s \<in> set rs. es_Ready s)"
    by (simp add: filter_empty_conv)
  have "ts_ResourcesStatus (et_Status task') = rs \<and>
    (ts_Phase (et_Status task') = EdgeTaskPhaseRunning \<longleftrightarrow> length (filter (\<lambda>s. \<not> es_Ready s) rs) = 0)"
    using out \<open>got\<close> unfolding rs_def [symmetric] by (auto split: if_splits)
  then show "convertlist (ts_ResourcesStatus (et_Status task')) = convertlist (ts_ResourcesStatus (et_Status task))"
    "ts_Phase (et_Status task') = EdgeTaskPhaseRunning \<longleftrightarrow> (\<forall>s \<in> set (ts_ResourcesStatus (et_Status task')). es_Ready s)"
    using refs cnt by simp_all
qed


text \<open>That task before its deletion, changed to want a service instead: the service comes, and the configuration stays;
  with the hash already recorded, nothing comes.\<close>

definition ex_changed :: "string \<Rightarrow> edge_task" where
  "ex_changed hash = (ex_task 2)\<lparr>et_Deleting := False,
     et_Status := (et_Status (ex_task 2))\<lparr>ts_ResourcesHash := hash\<rparr>\<rparr>"

definition ex_changed_world :: "string \<Rightarrow> task_world" where
  "ex_changed_world hash = (ex_world 2)\<lparr>kw_tasks := [((''ns'', ''t''), ex_changed hash)]\<rparr>"

definition ex_changed_env :: task_env where
  "ex_changed_env = ex_task_env\<lparr>tv_split := (\<lambda>_. Some [of_reference ex_service]), tv_hash := (\<lambda>_. ''h'')\<rparr>"

lemma ex_changed_parse: "ParseResources (tv_split ex_changed_env) [''x''] = Some [of_reference ex_service]"
  by (simp add: ParseResources_def ex_changed_env_def)


end
