(* ===== verification/Plugin_Values.thy ===== *)
theory Plugin_Values
  imports Go_Prelude
begin

text \<open>
  The values of a plugin (\<open>pkg/apis/plugins/v1beta1/types_values.go\<close>) and their merging and comparison
  (\<open>mergeMaps\<close> of \<open>pkg/installer/controller/controller.go\<close>, \<open>pkg/installer/utils/values.go\<close>). A JSON value is
  a tree; an object is its keys and values in the order the map is iterated in. A number is an
  \<open>int64\<close>, as an option on a command line makes it, or the text of the \<open>float64\<close> that JSON makes. The encoder and
  the decoder are parameters.
\<close>

section \<open>Values\<close>

datatype json = JNull | JBool bool | JInt int | JFloat string | JString string | JArray "json list"
  | JObject "(string \<times> json) list"

type_synonym fields = "(string \<times> json) list"

record json_values =
  vs_Raw :: "string option"
  vs_Object :: "fields option"

record codec =
  cd_unmarshal :: "string \<Rightarrow> fields option"
  cd_marshal :: "fields \<Rightarrow> string"
  cd_float :: "int \<Rightarrow> string"

lemma json_size_zip [termination_simp]:
  fixes x :: json
  assumes "(x, y) \<in> set (zip xs ys)"
  shows "size x < Suc (size_list size xs)"
  using set_zip_leftD [OF assms] by (induction xs) auto

fun deepCopyAny :: "json \<Rightarrow> json" where
  "deepCopyAny (JObject m) = JObject (map (\<lambda>(k, v). (k, deepCopyAny v)) m)"
| "deepCopyAny (JArray xs) = JArray (map deepCopyAny xs)"
| "deepCopyAny v = v"

text \<open>The type of a map decides, so no object is copied to an empty one.\<close>

definition DeepCopy :: "json_values \<Rightarrow> json_values" where
  "DeepCopy v = \<lparr>vs_Raw = vs_Raw v,
     vs_Object = (case deepCopyAny (JObject (case vs_Object v of None \<Rightarrow> [] | Some m \<Rightarrow> m)) of
        JObject m \<Rightarrow> Some m | _ \<Rightarrow> None)\<rparr>"

fun RemoveNulls :: "fields \<Rightarrow> fields" where
  "RemoveNulls [] = []"
| "RemoveNulls ((k, JObject m) # rest) =
     (if RemoveNulls m = [] then RemoveNulls rest else (k, JObject (RemoveNulls m)) # RemoveNulls rest)"
| "RemoveNulls ((k, JNull) # rest) = RemoveNulls rest"
| "RemoveNulls ((k, v) # rest) = (k, v) # RemoveNulls rest"

definition UnmarshalJSON :: "codec \<Rightarrow> string \<Rightarrow> json_values \<Rightarrow> json_values \<times> bool" where
  "UnmarshalJSON c input v =
     (if input = ''null'' then (v, True)
      else let v = v\<lparr>vs_Raw := Some input\<rparr> in
        case cd_unmarshal c input of
          None \<Rightarrow> (v, False)
        | Some val \<Rightarrow> (v\<lparr>vs_Object := Some (RemoveNulls val)\<rparr>, True))"

definition MarshalJSON :: "codec \<Rightarrow> json_values \<Rightarrow> string" where
  "MarshalJSON c re =
     (case vs_Raw re of
        Some raw \<Rightarrow> raw
      | None \<Rightarrow> (case vs_Object re of Some m \<Rightarrow> cd_marshal c m | None \<Rightarrow> ''{}''))"

definition FullFill :: "codec \<Rightarrow> json_values \<Rightarrow> json_values" where
  "FullFill c v =
     (let v = (case (vs_Object v, vs_Raw v) of (None, Some raw) \<Rightarrow> fst (UnmarshalJSON c raw v) | _ \<Rightarrow> v)
      in if vs_Raw v = None \<and> vs_Object v \<noteq> None then v\<lparr>vs_Raw := Some (MarshalJSON c v)\<rparr> else v)"

text \<open>What the program reads back of values it has written to the API server.\<close>

definition read_back :: "codec \<Rightarrow> json_values \<Rightarrow> json_values" where
  "read_back c v = fst (UnmarshalJSON c (MarshalJSON c v) \<lparr>vs_Raw = None, vs_Object = None\<rparr>)"

text \<open>\<open>b\<close> over \<open>a\<close>: the loop over \<open>b\<close>.\<close>

fun mergeMaps :: "fields \<Rightarrow> fields \<Rightarrow> fields" where
  "mergeMaps out [] = out"
| "mergeMaps out ((k, v) # b) =
     mergeMaps (AList.update k
       (case v of
          JObject vm \<Rightarrow> (case map_of out k of Some (JObject om) \<Rightarrow> JObject (mergeMaps om vm) | _ \<Rightarrow> v)
        | _ \<Rightarrow> v) out) b"

text \<open>\<open>reflect.DeepEqual\<close> on what JSON is made of.\<close>

fun DeepEqual :: "json \<Rightarrow> json \<Rightarrow> bool" where
  "DeepEqual (JObject m) w =
     (case w of
        JObject n \<Rightarrow> length m = length n \<and>
          (\<forall>(k, v) \<in> set m. case map_of n k of None \<Rightarrow> False | Some x \<Rightarrow> DeepEqual v x)
      | _ \<Rightarrow> False)"
| "DeepEqual (JArray xs) w =
     (case w of JArray ys \<Rightarrow> length xs = length ys \<and> (\<forall>(x, y) \<in> set (zip xs ys). DeepEqual x y) | _ \<Rightarrow> False)"
| "DeepEqual v w \<longleftrightarrow> v = w"

definition EqualMapValues :: "fields \<Rightarrow> fields \<Rightarrow> bool" where
  "EqualMapValues a b \<longleftrightarrow> a = [] \<and> b = [] \<or> DeepEqual (JObject a) (JObject b)"

section \<open>Maps all the way down\<close>

fun wf_json :: "json \<Rightarrow> bool" where
  "wf_json (JObject m) \<longleftrightarrow> wf_map m \<and> (\<forall>(k, v) \<in> set m. wf_json v)"
| "wf_json (JArray xs) \<longleftrightarrow> (\<forall>x \<in> set xs. wf_json x)"
| "wf_json v \<longleftrightarrow> True"

abbreviation wf_fields :: "fields \<Rightarrow> bool" where
  "wf_fields m \<equiv> wf_json (JObject m)"

definition is_object :: "json \<Rightarrow> bool" where
  "is_object v \<longleftrightarrow> (case v of JObject m \<Rightarrow> True | _ \<Rightarrow> False)"

text \<open>The value at a path of keys, and whether a map says anything at a path: it holds a value that is no object
  on the way, or anything at its end.\<close>

fun at :: "fields \<Rightarrow> string list \<Rightarrow> json option" where
  "at m [] = Some (JObject m)"
| "at m (k # p) =
     (case map_of m k of
        None \<Rightarrow> None
      | Some v \<Rightarrow> (if p = [] then Some v else case v of JObject n \<Rightarrow> at n p | _ \<Rightarrow> None))"

fun says :: "fields \<Rightarrow> string list \<Rightarrow> bool" where
  "says m [] \<longleftrightarrow> True"
| "says m (k # p) \<longleftrightarrow>
     (case map_of m k of None \<Rightarrow> False | Some (JObject n) \<Rightarrow> says n p | Some v \<Rightarrow> True)"

text \<open>What encoding and decoding makes of the numbers, and the values that come back as they were: those without
  integers, and, on the way through objects, without nulls and empty objects.\<close>

fun floats :: "(int \<Rightarrow> string) \<Rightarrow> json \<Rightarrow> json" where
  "floats f (JInt i) = JFloat (f i)"
| "floats f (JObject m) = JObject (map (\<lambda>(k, v). (k, floats f v)) m)"
| "floats f (JArray xs) = JArray (map (floats f) xs)"
| "floats f v = v"

fun no_ints :: "json \<Rightarrow> bool" where
  "no_ints (JInt i) \<longleftrightarrow> False"
| "no_ints (JObject m) \<longleftrightarrow> (\<forall>(k, v) \<in> set m. no_ints v)"
| "no_ints (JArray xs) \<longleftrightarrow> (\<forall>x \<in> set xs. no_ints x)"
| "no_ints v \<longleftrightarrow> True"

fun tidy :: "json \<Rightarrow> bool" where
  "tidy (JObject m) \<longleftrightarrow> (\<forall>(k, v) \<in> set m. v \<noteq> JNull \<and> v \<noteq> JObject [] \<and> tidy v)"
| "tidy v \<longleftrightarrow> True"

definition plain :: "fields \<Rightarrow> bool" where
  "plain m \<longleftrightarrow> no_ints (JObject m) \<and> tidy (JObject m)"

section \<open>Merging\<close>

lemma mergeMaps_at:
  assumes "wf_map b"
  shows "map_of (mergeMaps a b) k =
    (case map_of b k of
       None \<Rightarrow> map_of a k
     | Some v \<Rightarrow> Some (case v of JObject vm \<Rightarrow> (case map_of a k of Some (JObject om) \<Rightarrow> JObject (mergeMaps om vm) | _ \<Rightarrow> v)
                        | _ \<Rightarrow> v))"
  using assms
proof (induction b arbitrary: a)
  case (Cons e b)
  obtain k' v where e: "e = (k', v)" by (cases e)
  let ?new = "\<lambda>v. case v of JObject vm \<Rightarrow> (case map_of a k' of Some (JObject om) \<Rightarrow> JObject (mergeMaps om vm) | _ \<Rightarrow> v) | _ \<Rightarrow> v"
  define a' where "a' = AList.update k' (?new v) a"
  have wf: "wf_map b" and new: "map_of b k' = None"
    using Cons.prems e by (simp_all add: map_of_eq_None_iff)
  have step: "mergeMaps a ((k', v) # b) = mergeMaps a' b" by (simp add: a'_def)
  have a': "map_of a' k = (if k = k' then Some (?new v) else map_of a k)"
    unfolding a'_def by (simp add: update_conv')
  note IH = Cons.IH [OF wf, of a']
  show ?case
  proof (cases "k = k'")
    case True
    show ?thesis using IH a' new unfolding e step True by simp
  next
    case False
    then have eq: "map_of a' k = map_of a k" using a' by simp
    show ?thesis unfolding e step IH eq using False by simp
  qed
qed simp

text \<open>The leaves of a merged map: those of \<open>b\<close>, and those of \<open>a\<close> where \<open>b\<close> says nothing.\<close>

lemma wf_fields_at: "wf_fields m \<Longrightarrow> map_of m k = Some v \<Longrightarrow> wf_json v"
  by (auto dest!: map_of_SomeD simp del: map_of_eq_Some_iff)

lemma mergeMaps_leaf:
  assumes "wf_fields b" "\<not> is_object v" "p \<noteq> []"
  shows "at (mergeMaps a b) p = Some v \<longleftrightarrow> at b p = Some v \<or> at a p = Some v \<and> \<not> says b p"
  using assms(1,3)
proof (induction p arbitrary: a b)
  case (Cons k p)
  have wf: "wf_map b" using Cons.prems by simp
  show ?case
  proof (cases "map_of b k")
    case None
    then show ?thesis by (simp add: mergeMaps_at [OF wf])
  next
    case (Some x)
    have x: "wf_json x" by (rule wf_fields_at [OF Cons.prems(1) Some])
    show ?thesis
    proof (cases "\<exists>vm om. x = JObject vm \<and> map_of a k = Some (JObject om)")
      case True
      then obtain vm om where *: "x = JObject vm" "map_of a k = Some (JObject om)" by blast
      show ?thesis
        using Cons.IH [of vm om] x assms(2)
        by (cases v; cases "p = []") (simp_all add: mergeMaps_at [OF wf] Some * is_object_def del: map_of_eq_Some_iff)
    next
      case False
      then show ?thesis
        using assms(2) Some
        by (cases x; cases "map_of a k")
          (auto simp: mergeMaps_at [OF wf] is_object_def simp del: map_of_eq_Some_iff split: json.splits)
    qed
  qed
qed simp


lemma wf_merge: "wf_fields a \<Longrightarrow> wf_fields b \<Longrightarrow> wf_fields (mergeMaps a b)"
proof (induction a b rule: mergeMaps.induct)
  case (2 out k v b)
  let ?new = "case v of JObject vm \<Rightarrow> (case map_of out k of Some (JObject om) \<Rightarrow> JObject (mergeMaps om vm) | _ \<Rightarrow> v) | _ \<Rightarrow> v"
  have new: "wf_json ?new"
  proof (cases "\<exists>vm om. v = JObject vm \<and> map_of out k = Some (JObject om)")
    case True
    then obtain vm om where *: "v = JObject vm" "map_of out k = Some (JObject om)" by blast
    have "wf_fields om" by (rule wf_fields_at [OF 2(3) *(2)])
    moreover have "wf_fields vm" using 2(4) * by simp
    ultimately have "wf_fields (mergeMaps om vm)" by (rule 2(1) [OF *(1) *(2) refl])
    then show ?thesis by (simp add: * del: map_of_eq_Some_iff)
  next
    case False
    then have "?new = v" by (auto split: json.splits option.splits simp del: map_of_eq_Some_iff)
    then show ?thesis using 2(4) by simp
  qed
  have "wf_fields (AList.update k ?new out)"
  proof -
    have "wf_json w" if "(j, w) \<in> set (AList.update k ?new out)" for j w
    proof -
      have "map_of (AList.update k ?new out) j = Some w"
        by (rule map_of_mem [THEN iffD1, OF _ that]) (use 2(3) in simp)
      then show ?thesis using new wf_fields_at [OF 2(3), of j w]
        by (simp add: update_conv' del: map_of_eq_Some_iff split: if_splits)
    qed
    then show ?thesis using 2(3) by auto
  qed
  then show ?case using 2(2) 2(4) by simp
qed simp

section \<open>Reading back\<close>

lemma RemoveNulls_tidy: "tidy (JObject m) \<Longrightarrow> RemoveNulls m = m"
  by (induction m rule: RemoveNulls.induct) auto

lemma tidy_RemoveNulls: "tidy (JObject (RemoveNulls m))"
  by (induction m rule: RemoveNulls.induct) auto

lemma no_ints_RemoveNulls: "no_ints (JObject m) \<Longrightarrow> no_ints (JObject (RemoveNulls m))"
  by (induction m rule: RemoveNulls.induct) auto

lemma RemoveNulls_key: "(k, v) \<in> set (RemoveNulls m) \<Longrightarrow> k \<in> fst ` set m"
  by (induction m rule: RemoveNulls.induct) (auto split: if_splits)

lemma wf_RemoveNulls: "wf_fields m \<Longrightarrow> wf_fields (RemoveNulls m)"
  by (induction m rule: RemoveNulls.induct) (auto dest: RemoveNulls_key)

lemma floats_no_ints: "no_ints v \<Longrightarrow> floats f v = v"
  by (induction v rule: no_ints.induct) (auto intro!: map_idI)

lemma no_ints_floats: "no_ints (floats f v)"
  by (induction v rule: no_ints.induct) auto

lemma wf_floats: "wf_json v \<Longrightarrow> wf_json (floats f v)"
  by (induction v rule: wf_json.induct) (auto simp: comp_def case_prod_unfold)

lemma DeepEqual_refl: "wf_json v \<Longrightarrow> DeepEqual v v"
proof (induction v rule: wf_json.induct)
  case (1 m)
  have "map_of m k = Some x \<and> DeepEqual x x" if "(k, x) \<in> set m" for k x
    using 1(2) 1(1) [OF that refl] that by auto
  then show ?case by (auto simp del: map_of_eq_Some_iff)
next
  case (2 xs)
  then show ?case by (auto simp: zip_same)
qed simp_all

lemma DeepEqual_empty: "DeepEqual v JNull \<Longrightarrow> v = JNull" "DeepEqual v (JObject []) \<Longrightarrow> v = JObject []"
  by (cases v; simp)+

lemma DeepEqual_object:
  assumes "DeepEqual (JObject m) (JObject n)" "wf_map m" "wf_map n" "(k, y) \<in> set n"
  obtains x where "(k, x) \<in> set m" "DeepEqual x y"
proof -
  have ex: "\<exists>y. map_of n k = Some y \<and> DeepEqual x y" if "(k, x) \<in> set m" for k x
    using assms(1) that by (auto split: option.splits simp del: map_of_eq_Some_iff)
  have sub: "fst ` set m \<subseteq> fst ` set n"
  proof
    fix k
    assume "k \<in> fst ` set m"
    then obtain x where "(k, x) \<in> set m" by auto
    then obtain y where "map_of n k = Some y" using ex by blast
    then show "k \<in> fst ` set n" by (force dest: map_of_SomeD simp del: map_of_eq_Some_iff)
  qed
  have "length m = length n" using assms(1) by simp
  then have "card (set (map fst m)) = card (set (map fst n))"
    unfolding distinct_card [OF assms(2)] distinct_card [OF assms(3)] by simp
  then have "fst ` set m = fst ` set n" using sub by (intro card_subset_eq) simp_all
  then obtain x where x: "(k, x) \<in> set m" using assms(4) by (metis eq_fst_iff fst_conv image_iff)
  have "map_of n k = Some y" using assms(3,4) by simp
  then have "DeepEqual x y" using ex [OF x] by simp
  then show ?thesis using x that by blast
qed


lemma DeepEqual_keeps:
  "DeepEqual v w \<Longrightarrow> wf_json v \<Longrightarrow> wf_json w \<Longrightarrow> no_ints v \<Longrightarrow> no_ints w"
  "DeepEqual v w \<Longrightarrow> wf_json v \<Longrightarrow> wf_json w \<Longrightarrow> tidy v \<Longrightarrow> tidy w"
proof (induction v w rule: DeepEqual.induct)
  case (1 m w)
  {
    case 1
    then obtain n where w: "w = JObject n" by (cases w) simp_all
    have "no_ints y" if y: "(k, y) \<in> set n" for k y
    proof -
      obtain x where x: "(k, x) \<in> set m" "DeepEqual x y"
        by (rule DeepEqual_object [OF 1(1) [unfolded w] _ _ y]) (use 1 w in auto)
      have "map_of n k = Some y" using y 1(3) w by simp
      then show ?thesis using "1.IH"(1) [OF w x(1) refl _ x(2)] x(1) 1 w y by fastforce
    qed
    then show ?case by (auto simp: w)
  next
    case 2
    then obtain n where w: "w = JObject n" by (cases w) simp_all
    have "y \<noteq> JNull \<and> y \<noteq> JObject [] \<and> tidy y" if y: "(k, y) \<in> set n" for k y
    proof -
      obtain x where x: "(k, x) \<in> set m" "DeepEqual x y"
        by (rule DeepEqual_object [OF 2(1) [unfolded w] _ _ y]) (use 2 w in auto)
      have "map_of n k = Some y" using y 2(3) w by simp
      then have "tidy y" using "1.IH"(2) [OF w x(1) refl _ x(2)] x(1) 2 w y by fastforce
      moreover have "x \<noteq> JNull" "x \<noteq> JObject []" using 2(4) x(1) by auto
      ultimately show ?thesis using DeepEqual_empty x(2) by blast
    qed
    then show ?case by (auto simp: w)
  }
next
  case (2 xs w)
  {
    case 1
    then obtain ys where w: "w = JArray ys" by (cases w) simp_all
    have "no_ints y" if y: "y \<in> set ys" for y
    proof -
      have len: "length xs = length ys" using 1 w by simp
      obtain i where i: "i < length ys" "ys ! i = y" using y unfolding in_set_conv_nth by blast
      have x: "(xs ! i, y) \<in> set (zip xs ys)" using nth_mem [of i "zip xs ys"] len i by simp
      moreover have "xs ! i \<in> set xs" using len i by simp
      ultimately show ?thesis using "2.IH"(1) [OF w x refl] 1 w y by fastforce
    qed
    then show ?case by (simp add: w)
  next
    case 2
    then show ?case by (cases w) simp_all
  }
qed auto


section \<open>Properties\<close>

text \<open>The values a plugin is installed with are compared with those in its status, which were written to the API
  server and read back: they are found equal exactly if they are plain. An integer, as \<open>--set\<close> makes it, a
  null or an empty object makes them differ for ever.\<close>

theorem read_back_equal_iff:
  assumes "wf_fields m" "cd_unmarshal c (cd_marshal c m) = Some (map (\<lambda>(k, v). (k, floats (cd_float c) v)) m)"
    and "cd_marshal c m \<noteq> ''null''"
  shows "\<exists>m'. vs_Object (read_back c (FullFill c \<lparr>vs_Raw = None, vs_Object = Some m\<rparr>)) = Some m' \<and>
    (EqualMapValues m' m \<longleftrightarrow> plain m)"
proof -
  define n where "n = map (\<lambda>(k, v). (k, floats (cd_float c) v)) m"
  have fl: "JObject n = floats (cd_float c) (JObject m)" by (simp add: n_def)
  have obj: "vs_Object (read_back c (FullFill c \<lparr>vs_Raw = None, vs_Object = Some m\<rparr>)) = Some (RemoveNulls n)"
    using assms(2,3) by (simp add: read_back_def FullFill_def MarshalJSON_def UnmarshalJSON_def n_def)
  have wf: "wf_fields (RemoveNulls n)"
    by (rule wf_RemoveNulls) (use wf_floats [OF assms(1), of "cd_float c"] fl in metis)
  have "plain m" if "EqualMapValues (RemoveNulls n) m"
  proof (cases "m = []")
    case True
    then show ?thesis by (simp add: plain_def)
  next
    case False
    then have eq: "DeepEqual (JObject (RemoveNulls n)) (JObject m)" using that by (simp add: EqualMapValues_def)
    have "no_ints (JObject (RemoveNulls n))"
      by (rule no_ints_RemoveNulls) (metis fl no_ints_floats)
    then show ?thesis
      unfolding plain_def
      using DeepEqual_keeps [OF eq wf assms(1)] tidy_RemoveNulls by blast
  qed
  moreover have "EqualMapValues (RemoveNulls n) m" if "plain m"
  proof -
    have "JObject n = JObject m" using that floats_no_ints [of "JObject m" "cd_float c"] fl by (simp add: plain_def)
    then have "RemoveNulls n = m" using that RemoveNulls_tidy [of m] by (simp add: plain_def)
    then show ?thesis using DeepEqual_refl [OF assms(1)] by (simp add: EqualMapValues_def)
  qed
  ultimately show ?thesis using obj by blast
qed

text \<open>A number of replicas that comes from a configuration map.\<close>

definition ex_codec :: codec where
  "ex_codec = \<lparr>cd_unmarshal = (\<lambda>s. if s = ''{replicas:1}'' then Some [(''replicas'', JFloat ''1'')] else None),
     cd_marshal = (\<lambda>m. if m = [] then ''{}'' else ''{replicas:1}''), cd_float = (\<lambda>i. ''1'')\<rparr>"

theorem read_back_equal_iff_witness:
  "(let m' = the (vs_Object (read_back ex_codec (FullFill ex_codec \<lparr>vs_Raw = None, vs_Object = Some [(''replicas'', JInt 1)]\<rparr>)))
     in \<not> EqualMapValues m' [(''replicas'', JInt 1)]) \<and>
   (let m' = the (vs_Object (read_back ex_codec (FullFill ex_codec \<lparr>vs_Raw = None, vs_Object = Some [(''replicas'', JFloat ''1'')]\<rparr>)))
     in EqualMapValues m' [(''replicas'', JFloat ''1'')])"
proof -
  have not_plain: "\<not> plain [(''replicas'', JInt 1)]" and is_plain: "plain [(''replicas'', JFloat ''1'')]"
    by (simp_all add: plain_def)
  show ?thesis
    using read_back_equal_iff [of "[(''replicas'', JInt 1)]" ex_codec]
      read_back_equal_iff [of "[(''replicas'', JFloat ''1'')]" ex_codec] not_plain is_plain
    by (auto simp: ex_codec_def)
qed

end
