(* ===== verification/Plugin_Bundle.thy ===== *)
theory Plugin_Bundle
  imports Plugin_Values Installer_Sync
begin

text \<open>
  Plugins (\<open>pkg/apis/plugins/v1beta1\<close>) and the appliers of their bundles (\<open>pkg/installer/bundle\<close>): the native one
  renders manifests and synchronises the cluster with them, the one for helm installs and upgrades a release.

  Plugins, configuration maps and secrets are kept by namespace and name, everything else of the cluster by
  its reference. Downloading, rendering, the YAML and value parsers and helm are parameters, and
  so are the requests that fail and the text of an error.
\<close>

section \<open>Plugins\<close>

datatype bundle_kind = BundleKindHelm | BundleKindKustomize | BundleKindTemplate | BundleKindNative | BundleKindOther string

datatype plugin_phase = PhaseUnset | PhaseDisabled | PhaseFailed | PhaseInstalled

record object_reference =
  or_APIVersion :: string
  or_Kind :: string
  or_Namespace :: string
  or_Name :: string

record values_from =
  vf_Kind :: string
  vf_Name :: string
  vf_Namespace :: string
  vf_Prefix :: string
  vf_Optional :: bool

record plugin_spec =
  ps_Disabled :: bool
  ps_Kind :: bundle_kind
  ps_URL :: string
  ps_Version :: string
  ps_Chart :: string
  ps_Path :: string
  ps_InstallNamespace :: string
  ps_Dependencies :: "object_reference list"
  ps_Values :: json_values
  ps_ValuesFrom :: "values_from list"
  ps_FileOverrides :: "(string \<times> string) list"

record plugin_status =
  pt_ObservedGeneration :: int
  pt_Phase :: plugin_phase
  pt_Message :: string
  pt_Values :: json_values
  pt_Version :: string
  pt_AppVersion :: string
  pt_Namespace :: string
  pt_CreationTimestamp :: "nat option"
  pt_UpgradeTimestamp :: "nat option"
  pt_Resources :: "managed_resource list"

record plugin =
  pl_APIVersion :: string
  pl_Kind :: string
  pl_Name :: string
  pl_Namespace :: string
  pl_Annotations :: labels
  pl_Generation :: int
  pl_Deleting :: bool
  pl_Finalizers :: "string list"
  pl_Spec :: plugin_spec
  pl_Status :: plugin_status

record config_map =
  cm_Data :: "(string \<times> string) list"
  cm_BinaryData :: "(string \<times> string) list"

record plugin_world =
  pw_plugins :: "(string \<times> string, plugin) gomap"
  pw_configmaps :: "(string \<times> string, config_map) gomap"
  pw_secrets :: "(string \<times> string, (string \<times> string) list) gomap"
  pw_cluster :: cluster

datatype plugin_verb = GetPlugin | UpdatePlugin | UpdatePluginStatus | GetConfigMap | GetSecret

datatype plugin_error =
    DownloadError | UnknownBundleKind | TemplateError | SplitError | SyncErrors "sync_error list"
  | DependencyError object_reference | NotInstalled object_reference | RequestFailed | ValuesNotFound values_from
  | ValuesParseError values_from string | ValuesKindError string | PluginNotInstalled "string \<times> string" string
  | HelmError | HelmUnfinished string

definition FinalizerName :: string where "FinalizerName = ''plugins.kubegems.io/finalizer''"

definition GroupVersion :: string where "GroupVersion = ''plugins.kubegems.io/v1beta1''"

definition AnnotationCreateNamespaces :: string where
  "AnnotationCreateNamespaces = ''plugins.kubegems.io/create-namespaces''"

text \<open>A release of helm, and what the code uses of its library.\<close>

record release =
  rl_Deployed :: bool
  rl_Description :: string
  rl_Notes :: string
  rl_Namespace :: string
  rl_FirstDeployed :: nat
  rl_LastDeployed :: nat
  rl_Config :: fields
  rl_Version :: string
  rl_AppVersion :: string
  rl_Manifest :: string

record helm_chart =
  hc_Name :: string
  hc_Version :: string

record helm =
  hl_load :: "string \<Rightarrow> (string \<times> string) list \<Rightarrow> helm_chart option"
  hl_get :: "string \<Rightarrow> string \<Rightarrow> cluster \<Rightarrow> release got"
  hl_install :: "string \<Rightarrow> string \<Rightarrow> helm_chart \<Rightarrow> fields \<Rightarrow> cluster \<Rightarrow> cluster \<times> release option"
  hl_upgrade :: "string \<Rightarrow> string \<Rightarrow> helm_chart \<Rightarrow> fields \<Rightarrow> cluster \<Rightarrow> cluster \<times> release option"
  hl_uninstall :: "string \<Rightarrow> string \<Rightarrow> cluster \<Rightarrow> cluster \<times> release option"
  hl_history :: "string \<Rightarrow> string \<Rightarrow> cluster \<Rightarrow> (int \<times> bool) list option"
  hl_delete :: "string \<Rightarrow> string \<Rightarrow> int \<Rightarrow> cluster \<Rightarrow> cluster option"

record plugin_env =
  pv_now :: nat
  pv_codec :: codec
  pv_rest :: rest
  pv_patched :: "bool \<Rightarrow> resource \<Rightarrow> resource \<Rightarrow> resource"
  pv_cluster_fails :: faults
  pv_fails :: "plugin_verb \<Rightarrow> string \<times> string \<Rightarrow> bool"
  pv_split :: "string \<Rightarrow> resource list \<times> bool"
  pv_yaml :: "string \<Rightarrow> fields option"
  pv_parse_into :: "string \<Rightarrow> string \<Rightarrow> fields \<Rightarrow> fields option"
  pv_download :: "string \<Rightarrow> string \<Rightarrow> string \<Rightarrow> string \<Rightarrow> string option"
  pv_template :: "bundle_kind \<Rightarrow> plugin \<Rightarrow> string \<Rightarrow> string option"
  pv_exists :: "object_reference \<Rightarrow> cluster \<Rightarrow> unit got"
  pv_helm :: helm
  pv_show :: "plugin_error \<Rightarrow> string"

definition plugin_key :: "plugin \<Rightarrow> string \<times> string" where
  "plugin_key p = (pl_Namespace p, pl_Name p)"

abbreviation with_status :: "plugin \<Rightarrow> plugin_status \<Rightarrow> plugin" where
  "with_status p st \<equiv> p\<lparr>pl_Status := st\<rparr>"

section \<open>Native bundles\<close>

definition install_namespace :: "plugin \<Rightarrow> string" where
  "install_namespace bundle =
     (if ps_InstallNamespace (pl_Spec bundle) = [] then pl_Namespace bundle else ps_InstallNamespace (pl_Spec bundle))"

definition object_of :: "json_values \<Rightarrow> fields" where
  "object_of v = (case vs_Object v of None \<Rightarrow> [] | Some m \<Rightarrow> m)"

lemma install_namespace_status [simp]: "install_namespace (with_status p st) = install_namespace p"
  by (simp add: install_namespace_def)

text \<open>The bundle with its status, the cluster, and the error if any.\<close>

definition native_Apply :: "plugin_env \<Rightarrow> plugin \<Rightarrow> string \<Rightarrow> cluster \<Rightarrow> plugin \<times> cluster \<times> plugin_error option" where
  "native_Apply env bundle into cluster =
     (case pv_template env (ps_Kind (pl_Spec bundle)) bundle into of
        None \<Rightarrow> (bundle, cluster, Some TemplateError)
      | Some rendered \<Rightarrow>
        case pv_split env rendered of
          (resources, False) \<Rightarrow> (bundle, cluster, Some SplitError)
        | (resources, True) \<Rightarrow>
          let ns = install_namespace bundle;
              spec = pl_Spec bundle;
              st = pl_Status bundle;
              diffresult = DiffWithDefaultNamespace (pv_rest env) ns (pt_Resources st) resources
          in if pt_Phase st = PhaseInstalled \<and> ps_Version spec = pt_Version st
                \<and> EqualMapValues (object_of (pt_Values st)) (object_of (ps_Values spec))
                \<and> Creats diffresult = [] \<and> Removes diffresult = []
             then (bundle, cluster, None)
             else case SyncDiff (pv_rest env) (pv_patched env) (pv_cluster_fails env) diffresult NewDefaultSyncOptions cluster of
                    (cluster, managedResources, errs) \<Rightarrow>
                      if errs \<noteq> [] then (bundle, cluster, Some (SyncErrors errs))
                      else (with_status bundle (st\<lparr>pt_Resources := managedResources,
                              pt_Values := FullFill (pv_codec env) \<lparr>vs_Raw = None, vs_Object = vs_Object (ps_Values spec)\<rparr>,
                              pt_Phase := PhaseInstalled, pt_Version := ps_Version spec, pt_Namespace := ns,
                              pt_UpgradeTimestamp := Some (pv_now env),
                              pt_CreationTimestamp := (if pt_CreationTimestamp st = None then Some (pv_now env)
                                else pt_CreationTimestamp st),
                              pt_Message := []\<rparr>), cluster, None))"

definition native_Remove :: "plugin_env \<Rightarrow> plugin \<Rightarrow> cluster \<Rightarrow> plugin \<times> cluster \<times> plugin_error option" where
  "native_Remove env bundle cluster =
     (let ns = install_namespace bundle;
          st = pl_Status bundle;
          (cluster, managedResources, errs) = Sync (pv_rest env) (pv_patched env) (pv_cluster_fails env) ns
            (pt_Resources st) [] NewDefaultSyncOptions cluster
      in if errs \<noteq> [] then (bundle, cluster, Some (SyncErrors errs))
         else (with_status bundle (st\<lparr>pt_Resources := managedResources, pt_Phase := PhaseDisabled, pt_Message := []\<rparr>),
               cluster, None))"

section \<open>Helm bundles\<close>

text \<open>The versions \<open>removeHistories\<close> deletes, by the loop over the releases in the order of their versions: the first
  deployed one is passed over.\<close>

fun to_delete :: "int \<Rightarrow> int \<Rightarrow> bool \<Rightarrow> (int \<times> bool) list \<Rightarrow> int list \<Rightarrow> int list" where
  "to_delete n limit lastDeployed [] toDelete = toDelete"
| "to_delete n limit lastDeployed (rls # rest) toDelete =
     (if snd rls \<and> \<not> lastDeployed then to_delete n limit True rest toDelete
      else if n - int (length toDelete) = limit then toDelete
      else to_delete n limit lastDeployed rest (toDelete @ [fst rls]))"

definition historiesToDelete :: "(int \<times> bool) list \<Rightarrow> int \<Rightarrow> int list" where
  "historiesToDelete rlss limit =
     to_delete (int (length rlss)) (if limit \<le> 0 then 1 else limit) False (sort_slice (\<lambda>a b. fst a < fst b) rlss) []"

text \<open>It stops at the first release that cannot be deleted.\<close>

fun delete_releases :: "(int \<Rightarrow> cluster \<Rightarrow> cluster option) \<Rightarrow> int list \<Rightarrow> cluster \<Rightarrow> cluster" where
  "delete_releases del [] cluster = cluster"
| "delete_releases del (v # vs) cluster =
     (case del v cluster of None \<Rightarrow> cluster | Some cluster \<Rightarrow> delete_releases del vs cluster)"

definition removeHistories :: "helm \<Rightarrow> string \<Rightarrow> string \<Rightarrow> int \<Rightarrow> cluster \<Rightarrow> cluster" where
  "removeHistories h namespace name limit cluster =
     (case hl_history h namespace name cluster of
        None \<Rightarrow> cluster
      | Some rlss \<Rightarrow> delete_releases (hl_delete h namespace name) (historiesToDelete rlss limit) cluster)"

definition ApplyChart ::
  "helm \<Rightarrow> string \<Rightarrow> string \<Rightarrow> string \<Rightarrow> fields \<Rightarrow> (string \<times> string) list \<Rightarrow> cluster \<Rightarrow> cluster \<times> release option" where
  "ApplyChart h rlsname namespace chartPath values files cluster =
     (case hl_load h chartPath files of
        None \<Rightarrow> (cluster, None)
      | Some chart \<Rightarrow>
          let rlsname = (if rlsname = [] then hc_Name chart else rlsname) in
          case hl_get h namespace rlsname cluster of
            Failed e \<Rightarrow> (cluster, None)
          | NotFound \<Rightarrow> hl_install h namespace rlsname chart values cluster
          | Found existRelease \<Rightarrow>
              if rl_Deployed existRelease \<and> rl_Version existRelease = hc_Version chart
                \<and> EqualMapValues (rl_Config existRelease) values
              then (cluster, Some existRelease)
              else hl_upgrade h namespace rlsname chart values (removeHistories h namespace rlsname 2 cluster))"

definition ParseResourceReferences :: "plugin_env \<Rightarrow> string \<Rightarrow> managed_resource list" where
  "ParseResourceReferences env resources = map GetReference (fst (pv_split env resources))"

definition helm_Apply :: "plugin_env \<Rightarrow> plugin \<Rightarrow> string \<Rightarrow> cluster \<Rightarrow> plugin \<times> cluster \<times> plugin_error option" where
  "helm_Apply env bundle into cluster =
     (let overrideFiles = foldl (\<lambda>m f. AList.update (fst f) (snd f) m) [] (ps_FileOverrides (pl_Spec bundle)) in
      case ApplyChart (pv_helm env) (pl_Name bundle) (install_namespace bundle) into
             (object_of (ps_Values (pl_Spec bundle))) overrideFiles cluster of
        (cluster, None) \<Rightarrow> (bundle, cluster, Some HelmError)
      | (cluster, Some rls) \<Rightarrow>
          let st = (pl_Status bundle)\<lparr>pt_Resources := ParseResourceReferences env (rl_Manifest rls)\<rparr> in
          if \<not> rl_Deployed rls then (with_status bundle st, cluster, Some (HelmUnfinished (rl_Description rls)))
          else (with_status bundle (st\<lparr>pt_Phase := PhaseInstalled, pt_Message := rl_Notes rls, pt_Namespace := rl_Namespace rls,
                  pt_CreationTimestamp := Some (rl_FirstDeployed rls), pt_UpgradeTimestamp := Some (rl_LastDeployed rls),
                  pt_Values := \<lparr>vs_Raw = None, vs_Object = Some (rl_Config rls)\<rparr>, pt_Version := rl_Version rls,
                  pt_AppVersion := rl_AppVersion rls\<rparr>), cluster, None))"

datatype removed_chart = RemoveChartFailed | NoRelease | Uninstalled release

definition RemoveChart :: "helm \<Rightarrow> string \<Rightarrow> string \<Rightarrow> cluster \<Rightarrow> cluster \<times> removed_chart" where
  "RemoveChart h rlsname namespace cluster =
     (case hl_get h namespace rlsname cluster of
        Failed e \<Rightarrow> (cluster, RemoveChartFailed)
      | NotFound \<Rightarrow> (cluster, NoRelease)
      | Found exist \<Rightarrow>
          (case hl_uninstall h namespace rlsname cluster of
             (cluster, None) \<Rightarrow> (cluster, RemoveChartFailed)
           | (cluster, Some rls) \<Rightarrow> (cluster, Uninstalled rls)))"

definition helm_Remove :: "plugin_env \<Rightarrow> plugin \<Rightarrow> cluster \<Rightarrow> plugin \<times> cluster \<times> plugin_error option" where
  "helm_Remove env bundle cluster =
     (if pt_Phase (pl_Status bundle) = PhaseDisabled then (bundle, cluster, None)
      else case RemoveChart (pv_helm env) (pl_Name bundle) (install_namespace bundle) cluster of
             (cluster, RemoveChartFailed) \<Rightarrow> (bundle, cluster, Some HelmError)
           | (cluster, NoRelease) \<Rightarrow>
               (with_status bundle ((pl_Status bundle)\<lparr>pt_Phase := PhaseDisabled, pt_Message := ''plugin not install''\<rparr>), cluster, None)
           | (cluster, Uninstalled rls) \<Rightarrow>
               (with_status bundle ((pl_Status bundle)\<lparr>pt_Phase := PhaseDisabled, pt_Message := rl_Description rls\<rparr>), cluster, None))"

section \<open>The applier of a bundle\<close>

definition Download :: "plugin_env \<Rightarrow> plugin \<Rightarrow> string option" where
  "Download env bundle =
     (let name = (if ps_Chart (pl_Spec bundle) \<noteq> [] then ps_Chart (pl_Spec bundle) else pl_Name bundle);
          version = (if ps_Version (pl_Spec bundle) = [] then pt_Version (pl_Status bundle) else ps_Version (pl_Spec bundle))
      in pv_download env (ps_URL (pl_Spec bundle)) name version (ps_Path (pl_Spec bundle)))"

datatype applier = HelmApplier | NativeApplier

definition appliers :: "bundle_kind \<Rightarrow> applier option" where
  "appliers kind =
     (case kind of
        BundleKindHelm \<Rightarrow> Some HelmApplier
      | BundleKindKustomize \<Rightarrow> Some NativeApplier
      | BundleKindTemplate \<Rightarrow> Some NativeApplier
      | BundleKindNative \<Rightarrow> Some NativeApplier
      | BundleKindOther k \<Rightarrow> None)"

definition bundle_Apply :: "plugin_env \<Rightarrow> plugin \<Rightarrow> cluster \<Rightarrow> plugin \<times> cluster \<times> plugin_error option" where
  "bundle_Apply env bundle cluster =
     (case Download env bundle of
        None \<Rightarrow> (bundle, cluster, Some DownloadError)
      | Some into \<Rightarrow>
          (case appliers (ps_Kind (pl_Spec bundle)) of
             None \<Rightarrow> (bundle, cluster, Some UnknownBundleKind)
           | Some HelmApplier \<Rightarrow> helm_Apply env bundle into cluster
           | Some NativeApplier \<Rightarrow> native_Apply env bundle into cluster))"

definition bundle_Remove :: "plugin_env \<Rightarrow> plugin \<Rightarrow> cluster \<Rightarrow> plugin \<times> cluster \<times> plugin_error option" where
  "bundle_Remove env bundle cluster =
     (case appliers (ps_Kind (pl_Spec bundle)) of
        None \<Rightarrow> (bundle, cluster, Some UnknownBundleKind)
      | Some HelmApplier \<Rightarrow> helm_Remove env bundle cluster
      | Some NativeApplier \<Rightarrow> native_Remove env bundle cluster)"

section \<open>Native bundles, one run\<close>

abbreviation resources_of :: "plugin \<Rightarrow> managed_resource list" where
  "resources_of p \<equiv> pt_Resources (pl_Status p)"

text \<open>What the plugin should hold when it is rendered with the values it has.\<close>

definition rendered_resources :: "plugin_env \<Rightarrow> plugin \<Rightarrow> string \<Rightarrow> resource list option" where
  "rendered_resources env p into =
     (case pv_template env (ps_Kind (pl_Spec p)) p into of
        None \<Rightarrow> None
      | Some rendered \<Rightarrow> (case pv_split env rendered of (xs, ok) \<Rightarrow> if ok then Some xs else None))"

lemma had_corrected:
  "set ms = refs (CorrectNamespaces api ns xs) \<Longrightarrow> had api ns ms = wanted api ns xs"
  by (auto simp: had_def wanted_def CorrectNamespacesForRefrences_def CorrectNamespaces_def correct_idem image_image)

lemma nothing_to_do:
  assumes "Creats (DiffWithDefaultNamespace api ns ms xs) = []" "Removes (DiffWithDefaultNamespace api ns ms xs) = []"
  shows "had api ns ms = wanted api ns xs"
proof -
  let ?M = "set (CorrectNamespacesForRefrences api ns ms)" and ?xs = "CorrectNamespaces api ns xs"
  have "refs ?xs - ?M = {}" using assms(1) news_refs [of ?M ?xs] by (simp add: DiffWithDefaultNamespace_def Diff_parts(1))
  moreover have "?M - refs ?xs = {}"
    using assms(2) Diff_parts(3) [of "CorrectNamespacesForRefrences api ns ms" ?xs] by (simp add: DiffWithDefaultNamespace_def)
  ultimately show ?thesis by (auto simp: had_def wanted_def)
qed

lemma native_Apply_done:
  assumes "native_Apply env p into c = (p', c', None)"
  obtains xs where "rendered_resources env p into = Some xs"
    "had (pv_rest env) (install_namespace p) (resources_of p') = wanted (pv_rest env) (install_namespace p) xs"
proof -
  let ?ns = "install_namespace p"
  obtain xs where xs: "rendered_resources env p into = Some xs"
    using assms by (auto simp: native_Apply_def rendered_resources_def Let_def split: option.splits prod.splits bool.splits if_splits)
  define d where "d = DiffWithDefaultNamespace (pv_rest env) ?ns (resources_of p) xs"
  obtain store ms errs where run: "SyncDiff (pv_rest env) (pv_patched env) (pv_cluster_fails env) d NewDefaultSyncOptions c = (store, ms, errs)"
    by (cases "SyncDiff (pv_rest env) (pv_patched env) (pv_cluster_fails env) d NewDefaultSyncOptions c")
  have "(Creats d = [] \<and> Removes d = [] \<and> p' = p) \<or> (errs = [] \<and> resources_of p' = ms)"
    using assms xs run
    by (auto simp: native_Apply_def rendered_resources_def Let_def d_def
        split: option.splits prod.splits bool.splits if_splits)
  then have "had (pv_rest env) ?ns (resources_of p') = wanted (pv_rest env) ?ns xs"
  proof
    assume "Creats d = [] \<and> Removes d = [] \<and> p' = p"
    then show ?thesis using nothing_to_do unfolding d_def by simp
  next
    assume ok: "errs = [] \<and> resources_of p' = ms"
    have "set ms = refs (CorrectNamespaces (pv_rest env) ?ns xs)"
      by (rule SyncDiff_success(1)) (use run ok in \<open>simp add: d_def DiffWithDefaultNamespace_def\<close>)
    then show ?thesis using ok had_corrected by simp
  qed
  then show ?thesis by (rule that [OF xs])
qed

lemma native_Apply_failed: "native_Apply env p into c = (p', c', Some e) \<Longrightarrow> p' = p"
  by (auto simp: native_Apply_def Let_def split: option.splits prod.splits bool.splits if_splits)

lemma native_Remove_facts:
  assumes "native_Remove env p c = (p', c', e)"
  shows "e = None \<Longrightarrow> resources_of p' = []" "e \<noteq> None \<Longrightarrow> p' = p"
    and "e = None \<Longrightarrow> r \<in> had (pv_rest env) (install_namespace p) (resources_of p)
      \<Longrightarrow> \<not> kept_crd (pv_rest env) NewDefaultSyncOptions r \<Longrightarrow> map_of c' r = None"
    and "r \<notin> had (pv_rest env) (install_namespace p) (resources_of p) \<Longrightarrow> map_of c' r = map_of c r"
proof -
  let ?M = "CorrectNamespacesForRefrences (pv_rest env) (install_namespace p) (resources_of p)"
  obtain store ms errs where run: "SyncDiff (pv_rest env) (pv_patched env) (pv_cluster_fails env) (Diff ?M []) NewDefaultSyncOptions c = (store, ms, errs)"
    by (cases "SyncDiff (pv_rest env) (pv_patched env) (pv_cluster_fails env) (Diff ?M []) NewDefaultSyncOptions c")
  have out: "if errs = [] then e = None \<and> c' = store \<and> resources_of p' = ms else e \<noteq> None \<and> p' = p \<and> c' = store"
    using assms run
    by (auto simp: native_Remove_def Sync_def DiffWithDefaultNamespace_def CorrectNamespaces_def Let_def split: if_splits)
  show "e \<noteq> None \<Longrightarrow> p' = p" using out by (auto split: if_splits)
  show "resources_of p' = []" if "e = None"
    using SyncDiff_success(1) [of "pv_rest env" "pv_patched env" "pv_cluster_fails env" ?M "[]"] run out that
    by (auto split: if_splits)
  show "map_of c' r = None" if "e = None" "r \<in> had (pv_rest env) (install_namespace p) (resources_of p)"
    "\<not> kept_crd (pv_rest env) NewDefaultSyncOptions r"
    using SyncDiff_success(3) [of "pv_rest env" "pv_patched env" "pv_cluster_fails env" ?M "[]" _ c store ms r] run out that
    by (auto simp: had_def split: if_splits)
  show "map_of c' r = map_of c r" if "r \<notin> had (pv_rest env) (install_namespace p) (resources_of p)"
    using SyncDiff_keeps(3) [OF run, of r] out that by (auto simp: had_def split: if_splits)
qed

section \<open>Properties\<close>

text \<open>The loop over the histories in closed form.\<close>

fun without_first_deployed :: "(int \<times> bool) list \<Rightarrow> (int \<times> bool) list" where
  "without_first_deployed [] = []"
| "without_first_deployed (r # rs) = (if snd r then rs else r # without_first_deployed rs)"

lemma to_delete_run:
  "to_delete n lim True xs d = d @ (if n - int (length d) \<ge> lim
     then take (nat (n - int (length d) - lim)) (map fst xs) else map fst xs)"
proof (induction xs arbitrary: d)
  case (Cons r rs)
  show ?case
  proof (cases "n - int (length d) > lim")
    case True
    then have "nat (n - int (length d) - lim) = Suc (nat (n - int (length (d @ [fst r])) - lim))" by simp
    then show ?thesis using True Cons by simp
  next
    case False
    then show ?thesis using Cons by simp
  qed
qed simp

lemma to_delete_all:
  "to_delete n lim False xs d = d @ (if n - int (length d) \<ge> lim
     then take (nat (n - int (length d) - lim)) (map fst (without_first_deployed xs)) else map fst (without_first_deployed xs))"
proof (induction xs arbitrary: d)
  case (Cons r rs)
  show ?case
  proof (cases "snd r")
    case True
    then show ?thesis by (simp add: to_delete_run)
  next
    case False
    show ?thesis
    proof (cases "n - int (length d) > lim")
      case True
      then have "nat (n - int (length d) - lim) = Suc (nat (n - int (length (d @ [fst r])) - lim))" by simp
      then show ?thesis using True False Cons by simp
    next
      case le: False
      then show ?thesis using False Cons by simp
    qed
  qed
qed simp

lemma others_facts:
  "set (without_first_deployed xs) \<subseteq> set xs" "distinct (map fst xs) \<Longrightarrow> distinct (map fst (without_first_deployed xs))"
  "length (without_first_deployed xs) = length xs - (if \<exists>r \<in> set xs. snd r then 1 else 0)"
proof (induction xs)
  case (Cons r rs)
  {
    case 1
    then show ?case using Cons.IH(1) by auto
  next
    case 2
    then show ?case using Cons.IH(1,2) by auto
  next
    case 3
    then show ?case using Cons.IH(3) by (cases rs) auto
  }
qed simp_all

lemma others_first:
  assumes "sorted_wrt (\<lambda>a b. fst a \<le> fst b) xs" "distinct (map fst xs)"
    and "(v, True) \<in> set xs" "\<And>u. (u, True) \<in> set xs \<Longrightarrow> v \<le> u"
  shows "v \<notin> fst ` set (without_first_deployed xs)"
  using assms
proof (induction xs)
  case (Cons r rs)
  show ?case
  proof (cases "snd r")
    case True
    then have le: "v \<le> fst r" using Cons.prems(4) [of "fst r"] by (cases r) simp
    have "v \<notin> fst ` set rs"
    proof
      assume v: "v \<in> fst ` set rs"
      then have "fst r \<le> v" using Cons.prems(1) by auto
      then show False using le v Cons.prems(2) by simp
    qed
    then show ?thesis using True by simp
  next
    case False
    then have "(v, True) \<in> set rs" using Cons.prems(3) by auto
    moreover from this have "v \<in> fst ` set rs" by (metis fst_conv image_eqI)
    moreover have "fst r \<notin> fst ` set rs" using Cons.prems(2) by simp
    ultimately have "(v, True) \<in> set rs" "v \<noteq> fst r" by blast+
    then show ?thesis using Cons False by auto
  qed
qed simp

lemma kept_length:
  assumes "distinct ys" "set gone \<subseteq> set ys" "distinct gone"
  shows "length (filter (\<lambda>y. y \<notin> set gone) ys) = length ys - length gone"
proof -
  have "set (filter (\<lambda>y. y \<notin> set gone) ys) = set ys - set gone" by auto
  then have "length (filter (\<lambda>y. y \<notin> set gone) ys) = card (set ys - set gone)"
    using distinct_card [OF distinct_filter [OF assms(1)], of "\<lambda>y. y \<notin> set gone"] by simp
  then show ?thesis using assms by (simp add: card_Diff_subset distinct_card)
qed

text \<open>What is left of the releases of a chart when the histories are removed and every deletion succeeds. With at least as many releases as the
  limit, exactly the limit. With fewer, at most one: the count never meets the limit, so everything goes
  but the first deployed release. That one, the oldest that is deployed, is never deleted.\<close>

theorem removeHistories_bounds:
  assumes "distinct (map fst rlss)"
  shows "let n = int (length rlss); lim = (if limit \<le> 0 then 1 else limit);
       gone = historiesToDelete rlss limit;
       left = filter (\<lambda>v. v \<notin> set gone) (map fst rlss) in
     (lim \<le> n \<longrightarrow> int (length left) = lim) \<and>
     (n < lim \<longrightarrow> length left = (if \<exists>r \<in> set rlss. snd r then 1 else 0)) \<and>
     (\<forall>v. (v, True) \<in> set rlss \<and> (\<forall>u. (u, True) \<in> set rlss \<longrightarrow> v \<le> u) \<longrightarrow> v \<notin> set gone)"
proof -
  let ?n = "int (length rlss)"
  define lim where "lim = (if limit \<le> 0 then 1 else limit)"
  have pos: "lim \<ge> 1" by (simp add: lim_def)
  let ?s = "sort_slice (\<lambda>a b. fst a < fst b) rlss"
  let ?ys = "map fst (without_first_deployed ?s)"
  have gone: "historiesToDelete rlss limit = (if ?n \<ge> lim then take (nat (?n - lim)) ?ys else ?ys)"
    unfolding historiesToDelete_def to_delete_all lim_def by simp
  have ds: "distinct (map fst ?s)" using assms gs.distinct_map_srt by blast
  have sub: "set (historiesToDelete rlss limit) \<subseteq> set ?ys"
    unfolding gone by (auto dest: in_set_takeD)
  have ys: "set ?ys \<subseteq> set (map fst rlss)" using others_facts(1) [of ?s] gs.set_srt by fastforce
  have dy: "distinct ?ys" by (rule others_facts(2) [OF ds])
  then have dg: "distinct (historiesToDelete rlss limit)" unfolding gone by simp
  have len: "length ?ys = length rlss - (if \<exists>r \<in> set rlss. snd r then 1 else 0)"
    using others_facts(3) [of ?s] by (simp add: gs.set_srt gs.length_srt)
  have left: "length (filter (\<lambda>v. v \<notin> set (historiesToDelete rlss limit)) (map fst rlss))
      = length rlss - length (historiesToDelete rlss limit)"
    using kept_length [OF assms order_trans [OF sub ys] dg] by simp
  have many: "int (length rlss - length (historiesToDelete rlss limit)) = lim" if "lim \<le> ?n"
  proof -
    have "nat (?n - lim) \<le> length ?ys" using len that pos by auto
    then show ?thesis using that pos unfolding gone by auto
  qed
  have few: "length rlss - length (historiesToDelete rlss limit) = (if \<exists>r \<in> set rlss. snd r then 1 else 0)" if "?n < lim"
  proof -
    have "(\<exists>r \<in> set rlss. snd r) \<Longrightarrow> length rlss \<ge> 1" by (cases rlss) auto
    then show ?thesis using that len unfolding gone by auto
  qed
  have sorted: "sorted_wrt (\<lambda>a b. fst a \<le> fst b) ?s"
    using gs.srt_sorted [OF strict_weak_score [of fst], of rlss] by (simp add: not_less)
  have first: "v \<notin> set (historiesToDelete rlss limit)"
    if "(v, True) \<in> set rlss" "\<forall>u. (u, True) \<in> set rlss \<longrightarrow> v \<le> u" for v
    using others_first [OF sorted ds, of v] that sub by (auto simp: gs.set_srt)
  show ?thesis unfolding Let_def left lim_def [symmetric] using many few first by blast
qed

text \<open>A chart whose only release failed: upgrading it deletes that release first.\<close>

theorem removeHistories_bounds_witness:
  "historiesToDelete [(3, True), (1, False), (2, False)] 2 = [1] \<and> historiesToDelete [(1, False)] 2 = [1] \<and>
   length (filter (\<lambda>v. v \<notin> set (historiesToDelete [(1::int, False)] 2)) [1]) = 0"
proof -
  have "length (filter (\<lambda>v. v \<notin> set (historiesToDelete [(1, False)] 2)) (map fst [(1::int, False)])) = 0"
    using removeHistories_bounds [of "[(1, False)]" 2] by (simp add: Let_def)
  moreover have "historiesToDelete [(3, True), (1, False), (2, False)] 2 = [1]" "historiesToDelete [(1, False)] 2 = [1]"
    by code_simp+
  ultimately show ?thesis by simp
qed

end
