(* ===== verification/Plugin_Controller.thy ===== *)
theory Plugin_Controller
  imports Plugin_Bundle
begin

text \<open>
  The controller of plugins (\<open>pkg/installer/controller/controller.go\<close>): a plugin names a chart or manifests, the
  values to render them with and the plugins it depends on; a run resolves its values and applies the
  bundle, or removes what it holds. What the controller reads of plugins is the state before the run, as its cache
  has it.
\<close>

section \<open>The controller\<close>

definition ParseListValues :: "string \<Rightarrow> string list" where
  "ParseListValues annotations = filter (\<lambda>v. v \<noteq> []) (map trim_space (split_on (CHR '','') annotations))"

fun ensure_namespaces :: "faults \<Rightarrow> string list \<Rightarrow> cluster \<Rightarrow> cluster \<times> bool" where
  "ensure_namespaces fl [] cluster = (cluster, True)"
| "ensure_namespaces fl (ns # rest) cluster =
     (let key = namespace_ref ns in
      case api_get (fl VGet key) key cluster of
        Failed e \<Rightarrow> (cluster, False)
      | Found obj \<Rightarrow> ensure_namespaces fl rest cluster
      | NotFound \<Rightarrow>
          (case api_create (fl VCreate key) key (of_reference key) cluster of
             (cluster, False) \<Rightarrow> (cluster, False)
           | (cluster, True) \<Rightarrow> ensure_namespaces fl rest cluster))"

definition preProcessAnnotations :: "plugin_env \<Rightarrow> plugin \<Rightarrow> cluster \<Rightarrow> cluster \<times> bool" where
  "preProcessAnnotations env bundle cluster =
     ensure_namespaces (pv_cluster_fails env)
       (ParseListValues (get_str (pl_Annotations bundle) AnnotationCreateNamespaces)) cluster"

definition get_plugin :: "plugin_env \<Rightarrow> string \<times> string \<Rightarrow> plugin_world \<Rightarrow> plugin got" where
  "get_plugin env key w = api_get (pv_fails env GetPlugin key) key (pw_plugins w)"

definition checkPluginStatus :: "plugin_env \<Rightarrow> plugin_world \<Rightarrow> managed_resource \<Rightarrow> plugin_error option" where
  "checkPluginStatus env w managed =
     (case get_plugin env (mr_namespace managed, mr_name managed) w of
        Found p \<Rightarrow>
          if pt_Phase (pl_Status p) \<noteq> PhaseInstalled \<and> pt_Message (pl_Status p) \<noteq> []
          then Some (PluginNotInstalled (plugin_key p) (pt_Message (pl_Status p)))
          else None
      | _ \<Rightarrow> Some RequestFailed)"

fun first_error :: "('a \<Rightarrow> plugin_error option) \<Rightarrow> 'a list \<Rightarrow> plugin_error option" where
  "first_error f [] = None"
| "first_error f (x # xs) = (case f x of Some e \<Rightarrow> Some e | None \<Rightarrow> first_error f xs)"

definition checkResourcesStatus :: "plugin_env \<Rightarrow> plugin_world \<Rightarrow> plugin \<Rightarrow> plugin_error option" where
  "checkResourcesStatus env w bundle =
     first_error (\<lambda>res. if mr_kind res = ''Plugin'' \<or> mr_api res = GroupVersion then checkPluginStatus env w res else None)
       (pt_Resources (pl_Status bundle))"

definition fill_dependency :: "plugin \<Rightarrow> object_reference \<Rightarrow> object_reference" where
  "fill_dependency bundle dep =
     (let dep = (if or_Namespace dep = [] then dep\<lparr>or_Namespace := pl_Namespace bundle\<rparr> else dep)
      in if or_Kind dep = [] then dep\<lparr>or_APIVersion := pl_APIVersion bundle, or_Kind := pl_Kind bundle\<rparr> else dep)"

definition is_plugin_reference :: "object_reference \<Rightarrow> bool" where
  "is_plugin_reference dep \<longleftrightarrow> or_APIVersion dep = GroupVersion \<and> or_Kind dep = ''Plugin''"

definition check_one_dependency :: "plugin_env \<Rightarrow> plugin_world \<Rightarrow> plugin \<Rightarrow> object_reference \<Rightarrow> plugin_error option" where
  "check_one_dependency env w bundle dep =
     (if or_Name dep = [] then None
      else let dep = fill_dependency bundle dep in
        if is_plugin_reference dep
        then case get_plugin env (or_Namespace dep, or_Name dep) w of
               NotFound \<Rightarrow> Some (DependencyError dep)
             | Failed e \<Rightarrow> Some RequestFailed
             | Found obj \<Rightarrow> if pt_Phase (pl_Status obj) \<noteq> PhaseInstalled then Some (NotInstalled dep) else None
        else case pv_exists env dep (pw_cluster w) of
               NotFound \<Rightarrow> Some (DependencyError dep)
             | Failed e \<Rightarrow> Some RequestFailed
             | Found obj \<Rightarrow> None)"

definition checkDepenency :: "plugin_env \<Rightarrow> plugin_world \<Rightarrow> plugin \<Rightarrow> plugin_error option" where
  "checkDepenency env w bundle = first_error (check_one_dependency env w bundle) (ps_Dependencies (pl_Spec bundle))"

definition to_lower :: "string \<Rightarrow> string" where
  "to_lower s = map (\<lambda>c. let n = of_char c :: nat in if 65 \<le> n \<and> n \<le> 90 then char_of (n + 32) else c) s"

fun merge_into :: "plugin_env \<Rightarrow> values_from \<Rightarrow> (string \<times> string) list \<Rightarrow> fields \<Rightarrow> plugin_error + fields" where
  "merge_into env ref [] base = Inr base"
| "merge_into env ref ((k, v) # data) base =
     (case pv_parse_into env (vf_Prefix ref @ k) v base of
        None \<Rightarrow> Inl (ValuesParseError ref k)
      | Some base \<Rightarrow> merge_into env ref data base)"

fun merge_files :: "plugin_env \<Rightarrow> values_from \<Rightarrow> (string \<times> string) list \<Rightarrow> fields \<Rightarrow> plugin_error + fields" where
  "merge_files env ref [] base = Inr base"
| "merge_files env ref ((k, v) # data) base =
     (case pv_yaml env v of
        None \<Rightarrow> Inl (ValuesParseError ref k)
      | Some currentMap \<Rightarrow> merge_files env ref data (mergeMaps base currentMap))"

definition resolve_ref :: "plugin_env \<Rightarrow> plugin_world \<Rightarrow> plugin \<Rightarrow> values_from \<Rightarrow> fields \<Rightarrow> plugin_error + fields" where
  "resolve_ref env w bundle ref base =
     (let kind = to_lower (vf_Kind ref); key = (pl_Namespace bundle, vf_Name ref) in
      if kind = ''secret'' \<or> kind = ''secrets''
      then case api_get (pv_fails env GetSecret key) key (pw_secrets w) of
             Found data \<Rightarrow> merge_into env ref data base
           | NotFound \<Rightarrow> if vf_Optional ref then Inr base else Inl (ValuesNotFound ref)
           | Failed e \<Rightarrow> Inl RequestFailed
      else if kind = ''configmap'' \<or> kind = ''configmaps''
      then case api_get (pv_fails env GetConfigMap key) key (pw_configmaps w) of
             Found configmap \<Rightarrow>
               (case merge_files env ref (cm_BinaryData configmap) base of
                  Inl e \<Rightarrow> Inl e
                | Inr base \<Rightarrow> merge_into env ref (cm_Data configmap) base)
           | NotFound \<Rightarrow> if vf_Optional ref then Inr base else Inl (ValuesNotFound ref)
           | Failed e \<Rightarrow> Inl RequestFailed
      else Inl (ValuesKindError (vf_Kind ref)))"

fun resolve_refs :: "plugin_env \<Rightarrow> plugin_world \<Rightarrow> plugin \<Rightarrow> values_from list \<Rightarrow> fields \<Rightarrow> plugin_error + fields" where
  "resolve_refs env w bundle [] base = Inr base"
| "resolve_refs env w bundle (ref # rest) base =
     (case resolve_ref env w bundle ref base of
        Inl e \<Rightarrow> Inl e
      | Inr base \<Rightarrow> resolve_refs env w bundle rest base)"

definition resolveValuesRef :: "plugin_env \<Rightarrow> plugin_world \<Rightarrow> plugin \<Rightarrow> plugin_error + plugin" where
  "resolveValuesRef env w bundle =
     (case resolve_refs env w bundle (ps_ValuesFrom (pl_Spec bundle)) [] of
        Inl e \<Rightarrow> Inl e
      | Inr base \<Rightarrow>
          let base = mergeMaps base (object_of (ps_Values (pl_Spec bundle)))
          in Inr (bundle\<lparr>pl_Spec := (pl_Spec bundle)\<lparr>ps_Values :=
               FullFill (pv_codec env) \<lparr>vs_Raw = None, vs_Object = Some base\<rparr>\<rparr>\<rparr>))"

text \<open>\<open>Sync\<close> with the applier the controller holds.\<close>

definition Sync_with ::
  "(plugin \<Rightarrow> cluster \<Rightarrow> plugin \<times> cluster \<times> plugin_error option) \<Rightarrow> (plugin \<Rightarrow> cluster \<Rightarrow> plugin \<times> cluster \<times> plugin_error option)
    \<Rightarrow> plugin_env \<Rightarrow> plugin \<Rightarrow> plugin_world \<Rightarrow> plugin \<times> cluster \<times> plugin_error option" where
  "Sync_with run_apply run_remove env bundle w =
     (if ps_Disabled (pl_Spec bundle) \<or> pl_Deleting bundle then run_remove bundle (pw_cluster w)
      else case checkDepenency env w bundle of
             Some e \<Rightarrow> (bundle, pw_cluster w, Some e)
           | None \<Rightarrow>
             case resolveValuesRef env w bundle of
               Inl e \<Rightarrow> (bundle, pw_cluster w, Some e)
             | Inr bundle \<Rightarrow>
               case preProcessAnnotations env bundle (pw_cluster w) of
                 (cluster, False) \<Rightarrow> (bundle, cluster, Some RequestFailed)
               | (cluster, True) \<Rightarrow>
                 case run_apply bundle cluster of
                   (bundle, cluster, Some e) \<Rightarrow> (bundle, cluster, Some e)
                 | (bundle, cluster, None) \<Rightarrow>
                   case checkResourcesStatus env w bundle of
                     Some e \<Rightarrow> (bundle, cluster, Some e)
                   | None \<Rightarrow> (with_status bundle ((pl_Status bundle)\<lparr>pt_ObservedGeneration := pl_Generation bundle\<rparr>), cluster, None))"

definition Sync_plugin :: "plugin_env \<Rightarrow> plugin \<Rightarrow> plugin_world \<Rightarrow> plugin \<times> cluster \<times> plugin_error option" where
  "Sync_plugin env = Sync_with (bundle_Apply env) (bundle_Remove env) env"

text \<open>The requests that write a plugin. A status is read back as the decoder makes it.\<close>

definition update_plugin_status :: "plugin_env \<Rightarrow> plugin \<Rightarrow> plugin_world \<Rightarrow> plugin_world \<times> bool" where
  "update_plugin_status env p w =
     (case map_of (pw_plugins w) (plugin_key p) of
        None \<Rightarrow> (w, False)
      | Some stored \<Rightarrow>
          if pv_fails env UpdatePluginStatus (plugin_key p) then (w, False)
          else (w\<lparr>pw_plugins := AList.update (plugin_key p) (with_status stored
                 ((pl_Status p)\<lparr>pt_Values := read_back (pv_codec env) (pt_Values (pl_Status p))\<rparr>)) (pw_plugins w)\<rparr>, True))"

definition update_plugin :: "plugin_env \<Rightarrow> plugin \<Rightarrow> plugin_world \<Rightarrow> plugin_world \<times> bool" where
  "update_plugin env p w =
     (case map_of (pw_plugins w) (plugin_key p) of
        None \<Rightarrow> (w, False)
      | Some stored \<Rightarrow>
          if pv_fails env UpdatePlugin (plugin_key p) then (w, False)
          else if pl_Deleting stored \<and> pl_Finalizers p = []
          then (w\<lparr>pw_plugins := AList.delete (plugin_key p) (pw_plugins w)\<rparr>, True)
          else (w\<lparr>pw_plugins := AList.update (plugin_key p) (stored\<lparr>pl_Finalizers := pl_Finalizers p\<rparr>) (pw_plugins w)\<rparr>,
                True))"

datatype plugin_outcome = PluginDone | PluginRequeued | PluginErrored

definition Reconcile_plugin :: "plugin_env \<Rightarrow> string \<times> string \<Rightarrow> plugin_world \<Rightarrow> plugin_world \<times> plugin_outcome" where
  "Reconcile_plugin env key w =
     (case get_plugin env key w of
        NotFound \<Rightarrow> (w, PluginDone)
      | Failed e \<Rightarrow> (w, PluginErrored)
      | Found p \<Rightarrow>
          if \<not> pl_Deleting p \<and> FinalizerName \<notin> set (pl_Finalizers p)
          then case update_plugin env (p\<lparr>pl_Finalizers := pl_Finalizers p @ [FinalizerName]\<rparr>) w of
                 (w, ok) \<Rightarrow> (w, if ok then PluginRequeued else PluginErrored)
          else if pl_Deleting p \<and> FinalizerName \<in> set (pl_Finalizers p) \<and> pt_Phase (pl_Status p) = PhaseDisabled
          then case update_plugin env (p\<lparr>pl_Finalizers := removeAll FinalizerName (pl_Finalizers p)\<rparr>) w of
                 (w, ok) \<Rightarrow> (w, if ok then PluginDone else PluginErrored)
          else case Sync_plugin env p w of
                 (p, cluster, err) \<Rightarrow>
                   let p = (case err of None \<Rightarrow> p
                              | Some e \<Rightarrow> with_status p ((pl_Status p)\<lparr>pt_Phase := PhaseFailed, pt_Message := pv_show env e\<rparr>));
                       (w, ok) = update_plugin_status env p (w\<lparr>pw_cluster := cluster\<rparr>)
                   in (w, if ok \<and> err = None then PluginDone else PluginErrored))"

section \<open>What starts a run\<close>

definition PluginUnhealthyTrigger :: "plugin \<Rightarrow> plugin_world \<Rightarrow> (string \<times> string) list" where
  "PluginUnhealthyTrigger p w =
     (if pt_Phase (pl_Status p) \<noteq> PhaseFailed then []
      else concat (map (\<lambda>(key, item). map (\<lambda>ref. plugin_key item)
             (filter (\<lambda>ref. mr_namespace ref \<noteq> [] \<and> mr_api ref = pl_APIVersion p \<and> mr_kind ref = pl_Kind p
                 \<and> mr_name ref = pl_Name p \<and> mr_namespace ref = pl_Namespace p) (pt_Resources (pl_Status item))))
             (pw_plugins w)))"

text \<open>\<open>kind\<close> is \<open>ConfigMap\<close> or \<open>Secret\<close>.\<close>

definition ConfigMapOrSecretTrigger :: "string \<Rightarrow> string \<Rightarrow> string \<Rightarrow> plugin_world \<Rightarrow> (string \<times> string) list" where
  "ConfigMapOrSecretTrigger kind namespace name w =
     concat (map (\<lambda>(key, item). map (\<lambda>ref. plugin_key item)
       (filter (\<lambda>ref. vf_Kind ref = kind \<and> vf_Name ref = name
           \<and> (if vf_Namespace ref = [] then pl_Namespace item else vf_Namespace ref) = namespace)
         (ps_ValuesFrom (pl_Spec item)))) (pw_plugins w))"

section \<open>What an applier promises\<close>

text \<open>An applier touches nothing of a plugin but its status; when it reports no error the plugin is installed, or
  disabled. The controller needs no more of it to tell the outcome of a run.\<close>

locale bundle_applier =
  fixes run_apply :: "plugin \<Rightarrow> cluster \<Rightarrow> plugin \<times> cluster \<times> plugin_error option"
    and run_remove :: "plugin \<Rightarrow> cluster \<Rightarrow> plugin \<times> cluster \<times> plugin_error option"
  assumes apply_status: "run_apply p c = (p', c', e) \<Longrightarrow> p' = with_status p (pl_Status p')"
    and apply_installs: "run_apply p c = (p', c', None) \<Longrightarrow> pt_Phase (pl_Status p') = PhaseInstalled"
    and remove_status: "run_remove p c = (p', c', e) \<Longrightarrow> p' = with_status p (pl_Status p')"
    and remove_disables: "run_remove p c = (p', c', None) \<Longrightarrow> pt_Phase (pl_Status p') = PhaseDisabled"
begin

lemma Sync_keeps:
  assumes "Sync_with run_apply run_remove env p w = (p', c', e)"
  shows "plugin_key p' = plugin_key p" "pl_Generation p' = pl_Generation p"
proof -
  have "plugin_key p' = plugin_key p \<and> pl_Generation p' = pl_Generation p"
  proof (cases "ps_Disabled (pl_Spec p) \<or> pl_Deleting p")
    case True
    then have "p' = with_status p (pl_Status p')" using assms remove_status by (auto simp: Sync_with_def)
    then show ?thesis by (metis plugin.ext_inject plugin.surjective plugin.update_convs(10) plugin_key_def)
  next
    case False
    show ?thesis
    proof (cases "checkDepenency env w p")
      case None
      show ?thesis
      proof (cases "resolveValuesRef env w p")
        case (Inl b)
        then show ?thesis using assms False None by (simp add: Sync_with_def)
      next
        case (Inr q)
        then have q: "plugin_key q = plugin_key p \<and> pl_Generation q = pl_Generation p"
          by (auto simp: resolveValuesRef_def plugin_key_def Let_def split: sum.splits)
        obtain c ok where pre: "preProcessAnnotations env q (pw_cluster w) = (c, ok)"
          by (cases "preProcessAnnotations env q (pw_cluster w)")
        obtain r c2 e2 where run: "run_apply q c = (r, c2, e2)" by (cases "run_apply q c")
        have r: "plugin_key r = plugin_key q \<and> pl_Generation r = pl_Generation q"
          by (subst (1 2) apply_status [OF run]) (simp add: plugin_key_def)
        show ?thesis using assms False None Inr pre run q r
          by (cases ok; cases e2) (auto simp: Sync_with_def plugin_key_def split: option.splits)
      qed
    qed (use assms False in \<open>simp add: Sync_with_def\<close>)
  qed
  then show "plugin_key p' = plugin_key p" "pl_Generation p' = pl_Generation p" by simp_all
qed

text \<open>A run without an error, for a plugin that is wanted and for one that is not.\<close>

lemma Sync_removed:
  assumes "Sync_with run_apply run_remove env p w = (p', c', None)" "ps_Disabled (pl_Spec p) \<or> pl_Deleting p"
  shows "pt_Phase (pl_Status p') = PhaseDisabled"
  using assms remove_disables by (simp add: Sync_with_def)

lemma Sync_installed:
  assumes "Sync_with run_apply run_remove env p w = (p', c', None)" "\<not> ps_Disabled (pl_Spec p)" "\<not> pl_Deleting p"
  obtains q c r where "checkDepenency env w p = None" "resolveValuesRef env w p = Inr q"
    "preProcessAnnotations env q (pw_cluster w) = (c, True)" "run_apply q c = (r, c', None)"
    "checkResourcesStatus env w r = None"
    "p' = with_status r ((pl_Status r)\<lparr>pt_ObservedGeneration := pl_Generation r\<rparr>)"
    "pt_Phase (pl_Status p') = PhaseInstalled" "pt_ObservedGeneration (pl_Status p') = pl_Generation p"
proof -
  obtain q where dep: "checkDepenency env w p = None" and res: "resolveValuesRef env w p = Inr q"
    using assms by (auto simp: Sync_with_def split: option.splits sum.splits)
  have gen: "pl_Generation q = pl_Generation p"
    using res by (auto simp: resolveValuesRef_def Let_def split: sum.splits)
  obtain c ok where pre: "preProcessAnnotations env q (pw_cluster w) = (c, ok)"
    by (cases "preProcessAnnotations env q (pw_cluster w)")
  obtain r c2 e2 where run: "run_apply q c = (r, c2, e2)" by (cases "run_apply q c")
  have "ok \<and> e2 = None \<and> checkResourcesStatus env w r = None \<and> c2 = c'
      \<and> p' = with_status r ((pl_Status r)\<lparr>pt_ObservedGeneration := pl_Generation r\<rparr>)"
    using assms dep res pre run by (cases ok; cases e2) (auto simp: Sync_with_def split: option.splits)
  moreover from this have "pt_Phase (pl_Status r) = PhaseInstalled" using apply_installs run by simp
  moreover have "pl_Generation r = pl_Generation q" by (subst apply_status [OF run]) simp
  ultimately show ?thesis using that [OF dep res _ _ _ _ _ _, of c r] pre run gen by simp
qed

end

interpretation native: bundle_applier "\<lambda>p. native_Apply env p into" "native_Remove env" for env into
proof unfold_locales
  fix p c p' c' e
  show "native_Apply env p into c = (p', c', e) \<Longrightarrow> p' = with_status p (pl_Status p')"
    by (auto simp: native_Apply_def Let_def split: option.splits if_splits prod.splits bool.splits)
  show "native_Remove env p c = (p', c', e) \<Longrightarrow> p' = with_status p (pl_Status p')"
    by (auto simp: native_Remove_def Let_def split: if_splits prod.splits)
next
  fix p c p' c'
  show "native_Apply env p into c = (p', c', None) \<Longrightarrow> pt_Phase (pl_Status p') = PhaseInstalled"
    by (auto simp: native_Apply_def Let_def split: option.splits if_splits prod.splits bool.splits)
  show "native_Remove env p c = (p', c', None) \<Longrightarrow> pt_Phase (pl_Status p') = PhaseDisabled"
    by (auto simp: native_Remove_def Let_def split: if_splits prod.splits)
qed

interpretation helm: bundle_applier "\<lambda>p. helm_Apply env p into" "helm_Remove env" for env into
proof unfold_locales
  fix p c p' c' e
  show "helm_Apply env p into c = (p', c', e) \<Longrightarrow> p' = with_status p (pl_Status p')"
    by (auto simp: helm_Apply_def Let_def split: option.splits if_splits prod.splits)
  show "helm_Remove env p c = (p', c', e) \<Longrightarrow> p' = with_status p (pl_Status p')"
    by (auto simp: helm_Remove_def Let_def split: if_splits prod.splits removed_chart.splits)
next
  fix p c p' c'
  show "helm_Apply env p into c = (p', c', None) \<Longrightarrow> pt_Phase (pl_Status p') = PhaseInstalled"
    by (auto simp: helm_Apply_def Let_def split: option.splits if_splits prod.splits)
  show "helm_Remove env p c = (p', c', None) \<Longrightarrow> pt_Phase (pl_Status p') = PhaseDisabled"
    by (auto simp: helm_Remove_def Let_def split: if_splits prod.splits removed_chart.splits)
qed

interpretation bundles: bundle_applier "bundle_Apply env" "bundle_Remove env" for env
proof unfold_locales
  fix p c p' c' e
  show "bundle_Apply env p c = (p', c', e) \<Longrightarrow> p' = with_status p (pl_Status p')"
    using native.apply_status helm.apply_status by (auto simp: bundle_Apply_def split: option.splits applier.splits)
  show "bundle_Remove env p c = (p', c', e) \<Longrightarrow> p' = with_status p (pl_Status p')"
    using native.remove_status helm.remove_status by (auto simp: bundle_Remove_def split: option.splits applier.splits)
next
  fix p c p' c'
  show "bundle_Apply env p c = (p', c', None) \<Longrightarrow> pt_Phase (pl_Status p') = PhaseInstalled"
    using native.apply_installs helm.apply_installs by (auto simp: bundle_Apply_def split: option.splits applier.splits)
  show "bundle_Remove env p c = (p', c', None) \<Longrightarrow> pt_Phase (pl_Status p') = PhaseDisabled"
    using native.remove_disables helm.remove_disables by (auto simp: bundle_Remove_def split: option.splits applier.splits)
qed

section \<open>Runs of the controller\<close>

lemma update_plugin_status_at:
  assumes "update_plugin_status env p w = (w', ok)"
  shows "map_of (pw_plugins w') k = (if k = plugin_key p \<and> ok
      then Some (with_status (the (map_of (pw_plugins w) k))
        ((pl_Status p)\<lparr>pt_Values := read_back (pv_codec env) (pt_Values (pl_Status p))\<rparr>))
      else map_of (pw_plugins w) k)"
    and "pw_cluster w' = pw_cluster w" "pw_configmaps w' = pw_configmaps w" "pw_secrets w' = pw_secrets w"
    and "ok \<longleftrightarrow> map_of (pw_plugins w) (plugin_key p) \<noteq> None \<and> \<not> pv_fails env UpdatePluginStatus (plugin_key p)"
  using assms by (auto simp: update_plugin_status_def update_conv' simp del: map_of_eq_Some_iff split: option.splits if_splits)

text \<open>A run that comes to the synchronisation, when no request for a plugin fails.\<close>

definition sync_run :: "plugin_env \<Rightarrow> plugin \<Rightarrow> plugin_world \<Rightarrow> bool" where
  "sync_run env p w \<longleftrightarrow> map_of (pw_plugins w) (plugin_key p) = Some p
     \<and> FinalizerName \<in> set (pl_Finalizers p) \<and> \<not> (pl_Deleting p \<and> pt_Phase (pl_Status p) = PhaseDisabled)
     \<and> (\<forall>verb key. \<not> pv_fails env verb key)"

lemma Reconcile_sync:
  assumes "sync_run env p w" and "Sync_plugin env p w = (p', c', e)"
  defines "p2 \<equiv> (case e of None \<Rightarrow> p'
      | Some err \<Rightarrow> with_status p' ((pl_Status p')\<lparr>pt_Phase := PhaseFailed, pt_Message := pv_show env err\<rparr>))"
  obtains w' where "Reconcile_plugin env (plugin_key p) w = (w', if e = None then PluginDone else PluginErrored)"
    "pw_cluster w' = c'" "pw_configmaps w' = pw_configmaps w" "pw_secrets w' = pw_secrets w"
    "map_of (pw_plugins w') (plugin_key p) = Some (with_status p
      ((pl_Status p2)\<lparr>pt_Values := read_back (pv_codec env) (pt_Values (pl_Status p2))\<rparr>))"
    "\<And>k. k \<noteq> plugin_key p \<Longrightarrow> map_of (pw_plugins w') k = map_of (pw_plugins w) k"
proof -
  note s = assms(1) [unfolded sync_run_def]
  have key: "plugin_key p2 = plugin_key p"
    using bundles.Sync_keeps(1) [OF assms(2) [unfolded Sync_plugin_def]] by (simp add: p2_def plugin_key_def split: option.split)
  obtain w' ok where up: "update_plugin_status env p2 (w\<lparr>pw_cluster := c'\<rparr>) = (w', ok)"
    by (cases "update_plugin_status env p2 (w\<lparr>pw_cluster := c'\<rparr>)")
  note at = update_plugin_status_at [OF up]
  have fails: "\<And>v k. \<not> pv_fails env v k" using s by blast
  have ok: "ok" using at(5) s key fails by simp
  have get: "get_plugin env (plugin_key p) w = Found p"
    using s fails by (simp add: get_plugin_def api_get_def del: map_of_eq_Some_iff)
  have c: "(\<not> pl_Deleting p \<and> FinalizerName \<notin> set (pl_Finalizers p)) = False"
    "(pl_Deleting p \<and> FinalizerName \<in> set (pl_Finalizers p) \<and> pt_Phase (pl_Status p) = PhaseDisabled) = False"
    using s by blast+
  have "Reconcile_plugin env (plugin_key p) w = (w', if e = None then PluginDone else PluginErrored)"
    unfolding Reconcile_plugin_def get got.case c if_False assms(2) case_prod_conv Let_def p2_def [symmetric] up
    using ok by simp
  moreover have "map_of (pw_plugins w') (plugin_key p) = Some (with_status p
      ((pl_Status p2)\<lparr>pt_Values := read_back (pv_codec env) (pt_Values (pl_Status p2))\<rparr>))"
    using at(1) [of "plugin_key p"] ok key s by simp
  moreover have "map_of (pw_plugins w') k = map_of (pw_plugins w) k" if "k \<noteq> plugin_key p" for k
    using at(1) [of k] that key by simp
  ultimately show ?thesis using at(2-4) by (intro that [of w']) simp_all
qed

lemma native_bundle:
  assumes "appliers (ps_Kind (pl_Spec p)) = Some NativeApplier"
  shows "bundle_Remove env p c = native_Remove env p c"
    and "bundle_Apply env p c = (case Download env p of None \<Rightarrow> (p, c, Some DownloadError) | Some into \<Rightarrow> native_Apply env p into c)"
  using assms by (simp_all add: bundle_Remove_def bundle_Apply_def split: option.split)

definition managed_by :: "plugin_env \<Rightarrow> plugin \<Rightarrow> managed_resource set" where
  "managed_by env p = had (pv_rest env) (install_namespace p) (resources_of p)"

section \<open>Properties\<close>

text \<open>C20: The removal of a native plugin that is deleted or disabled, when no request for a plugin fails but those on
  the cluster may. A run touches nothing the plugin does not manage. If it succeeds, the plugin is disabled,
  manages nothing, and all it managed is gone (definitions of custom resources apart); if not, it is marked failed and still
  manages the same. Either way the object of the plugin stays, and only a later run that finds it disabled lets it go, without touching
  the cluster.\<close>

theorem Reconcile_plugin_removes:
  assumes "sync_run env p w" "pl_Deleting p \<or> ps_Disabled (pl_Spec p)" "appliers (ps_Kind (pl_Spec p)) = Some NativeApplier"
  shows "let (w', result) = Reconcile_plugin env (plugin_key p) w;
       p' = the (map_of (pw_plugins w') (plugin_key p));
       (w'', result') = Reconcile_plugin env (plugin_key p) w' in
     map_of (pw_plugins w') (plugin_key p) \<noteq> None \<and>
     (\<forall>r. r \<notin> managed_by env p \<longrightarrow> map_of (pw_cluster w') r = map_of (pw_cluster w) r) \<and>
     (result = PluginDone \<longrightarrow> pt_Phase (pl_Status p') = PhaseDisabled \<and> resources_of p' = [] \<and>
        (\<forall>r \<in> managed_by env p. \<not> kept_crd (pv_rest env) NewDefaultSyncOptions r \<longrightarrow> map_of (pw_cluster w') r = None) \<and>
        (pl_Deleting p \<and> pl_Finalizers p = [FinalizerName] \<longrightarrow>
           map_of (pw_plugins w'') (plugin_key p) = None \<and> pw_cluster w'' = pw_cluster w')) \<and>
     (result \<noteq> PluginDone \<longrightarrow> pt_Phase (pl_Status p') = PhaseFailed \<and> resources_of p' = resources_of p)"
proof -
  obtain p1 c1 e where rem: "native_Remove env p (pw_cluster w) = (p1, c1, e)"
    by (cases "native_Remove env p (pw_cluster w)")
  have sync: "Sync_plugin env p w = (p1, c1, e)"
    using assms(2,3) rem by (auto simp: Sync_plugin_def Sync_with_def native_bundle)
  note facts = native_Remove_facts [OF rem, folded managed_by_def]
  define p2 where "p2 = (case e of None \<Rightarrow> p1
      | Some err \<Rightarrow> with_status p1 ((pl_Status p1)\<lparr>pt_Phase := PhaseFailed, pt_Message := pv_show env err\<rparr>))"
  obtain w' where run: "Reconcile_plugin env (plugin_key p) w = (w', if e = None then PluginDone else PluginErrored)"
    "pw_cluster w' = c1" and stored: "map_of (pw_plugins w') (plugin_key p) = Some (with_status p
      ((pl_Status p2)\<lparr>pt_Values := read_back (pv_codec env) (pt_Values (pl_Status p2))\<rparr>))"
    by (rule Reconcile_sync [OF assms(1) sync]) (simp add: p2_def)
  let ?p' = "with_status p ((pl_Status p2)\<lparr>pt_Values := read_back (pv_codec env) (pt_Values (pl_Status p2))\<rparr>)"
  have done1: "pt_Phase (pl_Status ?p') = PhaseDisabled" "resources_of ?p' = []" if "e = None"
    using native.remove_disables rem facts(1) that by (simp_all add: p2_def)
  have failed: "pt_Phase (pl_Status ?p') = PhaseFailed" "resources_of ?p' = resources_of p" if "e \<noteq> None"
    using facts(2) that by (auto simp: p2_def)
  obtain w'' r'' where again: "Reconcile_plugin env (plugin_key p) w' = (w'', r'')"
    by (cases "Reconcile_plugin env (plugin_key p) w'")
  have gone: "map_of (pw_plugins w'') (plugin_key p) = None \<and> pw_cluster w'' = pw_cluster w'"
    if "e = None" "pl_Deleting p" "pl_Finalizers p = [FinalizerName]"
  proof -
    have fails: "\<And>v k. \<not> pv_fails env v k" using assms(1) unfolding sync_run_def by blast
    have get: "get_plugin env (plugin_key p) w' = Found ?p'"
      using stored fails by (simp add: get_plugin_def api_get_def del: map_of_eq_Some_iff)
    have key: "plugin_key (?p'\<lparr>pl_Finalizers := []\<rparr>) = plugin_key p" by (simp add: plugin_key_def)
    have "update_plugin env (?p'\<lparr>pl_Finalizers := []\<rparr>) w' = (w'\<lparr>pw_plugins := AList.delete (plugin_key p) (pw_plugins w')\<rparr>, True)"
      unfolding update_plugin_def key stored using fails that by simp
    moreover have "pl_Deleting ?p'" "pl_Finalizers ?p' = [FinalizerName]" using that by simp_all
    ultimately have "w'' = w'\<lparr>pw_plugins := AList.delete (plugin_key p) (pw_plugins w')\<rparr>"
      using again get done1(1) [OF that(1)] by (auto simp: Reconcile_plugin_def)
    then show ?thesis by (simp add: delete_conv')
  qed
  show ?thesis
    unfolding run(1) Let_def case_prod_conv again stored option.sel run(2)
    using facts(3,4) done1 failed gone run(2) by (cases "e = None") simp_all
qed

text \<open>A deleted plugin of which an earlier run that failed has left a service on the cluster, and which manages a
  configuration: its removal takes the configuration and leaves the service.\<close>

definition ex_plugin :: plugin where
  "ex_plugin = \<lparr>pl_APIVersion = GroupVersion, pl_Kind = ''Plugin'', pl_Name = ''p'', pl_Namespace = ''ns'', pl_Annotations = [],
     pl_Generation = 2, pl_Deleting = True, pl_Finalizers = [FinalizerName],
     pl_Spec = \<lparr>ps_Disabled = False, ps_Kind = BundleKindNative, ps_URL = [], ps_Version = ''1'', ps_Chart = [], ps_Path = [],
       ps_InstallNamespace = [], ps_Dependencies = [], ps_Values = \<lparr>vs_Raw = None, vs_Object = None\<rparr>, ps_ValuesFrom = [],
       ps_FileOverrides = []\<rparr>,
     pl_Status = \<lparr>pt_ObservedGeneration = 1, pt_Phase = PhaseFailed, pt_Message = ''x'', pt_Values = \<lparr>vs_Raw = None, vs_Object = None\<rparr>,
       pt_Version = ''1'', pt_AppVersion = [], pt_Namespace = ''ns'', pt_CreationTimestamp = Some 1, pt_UpgradeTimestamp = Some 1,
       pt_Resources = [ex_config]\<rparr>\<rparr>"

definition ex_plugin_world :: plugin_world where
  "ex_plugin_world = \<lparr>pw_plugins = [((''ns'', ''p''), ex_plugin)], pw_configmaps = [], pw_secrets = [],
     pw_cluster = (ex_service, of_reference ex_service) # ex_store\<rparr>"

definition ex_helm :: helm where
  "ex_helm = \<lparr>hl_load = (\<lambda>_ _. None), hl_get = (\<lambda>_ _ _. NotFound), hl_install = (\<lambda>_ _ _ _ c. (c, None)),
     hl_upgrade = (\<lambda>_ _ _ _ c. (c, None)), hl_uninstall = (\<lambda>_ _ c. (c, None)), hl_history = (\<lambda>_ _ _. None),
     hl_delete = (\<lambda>_ _ _ c. None)\<rparr>"

definition ex_plugin_env :: plugin_env where
  "ex_plugin_env = \<lparr>pv_now = 5, pv_codec = ex_codec, pv_rest = ex_rest, pv_patched = ex_patched, pv_cluster_fails = (\<lambda>_ _. False),
     pv_fails = (\<lambda>_ _. False), pv_split = (\<lambda>_. ([of_reference ex_service], True)), pv_yaml = (\<lambda>_. None),
     pv_parse_into = (\<lambda>k v base. None), pv_download = (\<lambda>_ _ _ _. Some ''dir''), pv_template = (\<lambda>_ _ _. Some ''x''),
     pv_exists = (\<lambda>_ _. NotFound), pv_helm = ex_helm, pv_show = (\<lambda>_. ''error'')\<rparr>"

lemma ex_managed: "managed_by ex_plugin_env ex_plugin = {ex_config}"
  by (simp add: managed_by_def had_def CorrectNamespacesForRefrences_def install_namespace_def ex_plugin_def ex_plugin_env_def)

theorem Reconcile_plugin_removes_witness:
  "let (w', result) = Reconcile_plugin ex_plugin_env (''ns'', ''p'') ex_plugin_world in
   map_of (pw_cluster w') ex_service \<noteq> None \<and> (result = PluginDone \<longrightarrow> map_of (pw_cluster w') ex_config = None)"
proof -
  have key: "plugin_key ex_plugin = (''ns'', ''p'')" by (simp add: plugin_key_def ex_plugin_def)
  have run: "sync_run ex_plugin_env ex_plugin ex_plugin_world"
    by (simp add: sync_run_def key) (simp add: ex_plugin_world_def ex_plugin_def ex_plugin_env_def)
  have native: "appliers (ps_Kind (pl_Spec ex_plugin)) = Some NativeApplier" "pl_Deleting ex_plugin"
    by (simp_all add: ex_plugin_def appliers_def)
  have there: "map_of (pw_cluster ex_plugin_world) ex_service \<noteq> None" by (simp add: ex_plugin_world_def)
  have not_kept: "\<not> kept_crd (pv_rest ex_plugin_env) NewDefaultSyncOptions ex_config"
    using ex_config_not_kept by (simp add: ex_plugin_env_def)
  show ?thesis
    using Reconcile_plugin_removes [OF run disjI1 [OF native(2)] native(1)] there not_kept ex_distinct
    unfolding key ex_managed Let_def case_prod_unfold by (auto simp del: map_of_eq_Some_iff)
qed

text \<open>What a native plugin should hold, with the values resolved and the bundle downloaded and rendered.\<close>

definition renders_to :: "plugin_env \<Rightarrow> plugin_world \<Rightarrow> plugin \<Rightarrow> resource list \<Rightarrow> bool" where
  "renders_to env w p xs \<longleftrightarrow>
     (case resolveValuesRef env w p of
        Inl e \<Rightarrow> False
      | Inr q \<Rightarrow> (case Download env q of None \<Rightarrow> False | Some into \<Rightarrow> rendered_resources env q into = Some xs))"

lemma resolve_keeps:
  assumes "resolveValuesRef env w p = Inr q"
  shows "pl_Status q = pl_Status p" "install_namespace q = install_namespace p" "ps_Kind (pl_Spec q) = ps_Kind (pl_Spec p)"
    "pl_Generation q = pl_Generation p" "pl_Annotations q = pl_Annotations p" "plugin_key q = plugin_key p"
    "ps_Version (pl_Spec q) = ps_Version (pl_Spec p)"
  using assms by (auto simp: resolveValuesRef_def Let_def install_namespace_def plugin_key_def split: sum.splits)

lemma native_apply_resources:
  assumes "bundle_Apply env q c = (r, c', e)" "appliers (ps_Kind (pl_Spec q)) = Some NativeApplier"
    and "resolveValuesRef env w p = Inr q"
  shows "if e = None then \<exists>xs. renders_to env w p xs
      \<and> had (pv_rest env) (install_namespace p) (resources_of r) = wanted (pv_rest env) (install_namespace p) xs
    else r = q"
proof (cases "Download env q")
  case None
  then show ?thesis using assms by (auto simp: native_bundle(2))
next
  case (Some into)
  have run: "native_Apply env q into c = (r, c', e)" using assms Some by (simp add: native_bundle(2))
  show ?thesis
  proof (cases e)
    case None
    obtain xs where "rendered_resources env q into = Some xs"
      "had (pv_rest env) (install_namespace q) (resources_of r) = wanted (pv_rest env) (install_namespace q) xs"
      by (rule native_Apply_done [OF run [unfolded None]])
    then show ?thesis using None Some assms(3) resolve_keeps(2) [OF assms(3)] by (auto simp: renders_to_def)
  next
    case (Some err)
    then show ?thesis using native_Apply_failed run by auto
  qed
qed

lemma first_error_None: "first_error f xs = None \<longleftrightarrow> (\<forall>x \<in> set xs. f x = None)"
  by (induction xs) (auto split: option.split)

lemma Sync_failed_resources:
  assumes "Sync_plugin env p w = (p', c', Some e)" "\<not> pl_Deleting p" "\<not> ps_Disabled (pl_Spec p)"
    and "appliers (ps_Kind (pl_Spec p)) = Some NativeApplier"
  shows "resources_of p' = resources_of p \<or>
    (\<exists>xs. renders_to env w p xs \<and> had (pv_rest env) (install_namespace p) (resources_of p') = wanted (pv_rest env) (install_namespace p) xs)"
proof (cases "checkDepenency env w p = None")
  case True
  show ?thesis
  proof (cases "resolveValuesRef env w p")
    case (Inl b)
    then show ?thesis using assms True by (simp add: Sync_plugin_def Sync_with_def)
  next
    case (Inr q)
    note q = resolve_keeps [OF Inr]
    obtain c ok where pre: "preProcessAnnotations env q (pw_cluster w) = (c, ok)"
      by (cases "preProcessAnnotations env q (pw_cluster w)")
    obtain r c2 e2 where run: "bundle_Apply env q c = (r, c2, e2)" by (cases "bundle_Apply env q c")
    show ?thesis
      using native_apply_resources [OF run _ Inr] assms True Inr pre run q
      by (cases ok; cases e2) (auto simp: Sync_plugin_def Sync_with_def split: option.splits)
  qed
qed (use assms in \<open>auto simp: Sync_plugin_def Sync_with_def\<close>)


text \<open>A plugin that needs another one, and whose manifests hold a service; the other one is installed, or not.\<close>

definition ex_wanted_plugin :: plugin where
  "ex_wanted_plugin = ex_plugin\<lparr>pl_Deleting := False, pl_Spec := (pl_Spec ex_plugin)\<lparr>ps_Dependencies :=
     [\<lparr>or_APIVersion = [], or_Kind = [], or_Namespace = [], or_Name = ''d''\<rparr>]\<rparr>\<rparr>"

definition ex_wanted_world :: "plugin_phase \<Rightarrow> plugin_world" where
  "ex_wanted_world phase = ex_plugin_world\<lparr>pw_plugins := [((''ns'', ''p''), ex_wanted_plugin),
     ((''ns'', ''d''), ex_plugin\<lparr>pl_Name := ''d'', pl_Status := (pl_Status ex_plugin)\<lparr>pt_Phase := phase\<rparr>\<rparr>)]\<rparr>"

lemma ex_wanted_run: "sync_run ex_plugin_env ex_wanted_plugin (ex_wanted_world phase)"
  by (simp add: sync_run_def plugin_key_def ex_wanted_world_def ex_wanted_plugin_def ex_plugin_def ex_plugin_env_def)

lemma ex_wanted_done: "snd (Reconcile_plugin ex_plugin_env (''ns'', ''p'') (ex_wanted_world PhaseInstalled)) = PluginDone"
  by code_simp

lemma trigger_iff:
  "k \<in> set (ConfigMapOrSecretTrigger kind ns name w) \<longleftrightarrow> (\<exists>e \<in> set (pw_plugins w). \<exists>ref \<in> set (ps_ValuesFrom (pl_Spec (snd e))).
     plugin_key (snd e) = k \<and> vf_Kind ref = kind \<and> vf_Name ref = name
     \<and> (if vf_Namespace ref = [] then pl_Namespace (snd e) else vf_Namespace ref) = ns)"
  unfolding ConfigMapOrSecretTrigger_def by (auto simp: case_prod_unfold)

text \<open>No change of a configuration map is missed: when every reference of a plugin to its values is of the kind
  \<open>ConfigMap\<close> or \<open>Secret\<close> to the letter, and names no namespace or that of the plugin, then a change of one
  configuration map that changes what the plugin resolves to starts a run for it. Without that premise changes are missed: the
  values are read from the namespace of the plugin whatever namespace the reference names.\<close>

theorem values_change_triggers:
  assumes "(key, p) \<in> set (pw_plugins w)"
    and "\<And>ref. ref \<in> set (ps_ValuesFrom (pl_Spec p)) \<Longrightarrow>
      vf_Kind ref \<in> {''ConfigMap'', ''Secret''} \<and> vf_Namespace ref \<in> {[], pl_Namespace p}"
    and "\<And>k. k \<noteq> (ns, name) \<Longrightarrow> map_of cms k = map_of (pw_configmaps w) k"
    and "resolveValuesRef env (w\<lparr>pw_configmaps := cms\<rparr>) p \<noteq> resolveValuesRef env w p"
  shows "plugin_key p \<in> set (ConfigMapOrSecretTrigger ''ConfigMap'' ns name (w\<lparr>pw_configmaps := cms\<rparr>))"
proof (rule ccontr)
  assume missed: "plugin_key p \<notin> set (ConfigMapOrSecretTrigger ''ConfigMap'' ns name (w\<lparr>pw_configmaps := cms\<rparr>))"
  have same: "resolve_ref env (w\<lparr>pw_configmaps := cms\<rparr>) p ref base = resolve_ref env w p ref base"
    if ref: "ref \<in> set (ps_ValuesFrom (pl_Spec p))" for ref base
  proof (cases "vf_Kind ref = ''ConfigMap''")
    case True
    have "\<not> (vf_Name ref = name \<and> (if vf_Namespace ref = [] then pl_Namespace p else vf_Namespace ref) = ns)"
    proof
      assume "vf_Name ref = name \<and> (if vf_Namespace ref = [] then pl_Namespace p else vf_Namespace ref) = ns"
      then have "plugin_key p \<in> set (ConfigMapOrSecretTrigger ''ConfigMap'' ns name (w\<lparr>pw_configmaps := cms\<rparr>))"
        unfolding trigger_iff by (intro bexI [of _ "(key, p)"] bexI [of _ ref]) (use assms(1) ref True in \<open>auto split: if_splits\<close>)
      then show False using missed by simp
    qed
    then have "(pl_Namespace p, vf_Name ref) \<noteq> (ns, name)" using assms(2) [OF ref] by (auto split: if_splits)
    then show ?thesis using assms(3) by (simp add: resolve_ref_def api_get_def Let_def)
  next
    case False
    then have "vf_Kind ref = ''Secret''" using assms(2) [OF ref] by simp
    moreover have "to_lower ''Secret'' = ''secret''" by code_simp
    ultimately show ?thesis by (simp add: resolve_ref_def)
  qed
  have "resolve_refs env (w\<lparr>pw_configmaps := cms\<rparr>) p rs base = resolve_refs env w p rs base"
    if "set rs \<subseteq> set (ps_ValuesFrom (pl_Spec p))" for rs base
    using that by (induction rs arbitrary: base) (auto simp: same split: sum.split)
  then show False using assms(4) by (simp add: resolveValuesRef_def)
qed

text \<open>A map of options, and a plugin that reads it; with the reference in another namespace its change starts nothing.\<close>

definition ex_reader :: "string \<Rightarrow> plugin" where
  "ex_reader ns = ex_plugin\<lparr>pl_Spec := (pl_Spec ex_plugin)\<lparr>ps_ValuesFrom :=
     [\<lparr>vf_Kind = ''ConfigMap'', vf_Name = ''c'', vf_Namespace = ns, vf_Prefix = ''g.'', vf_Optional = True\<rparr>]\<rparr>\<rparr>"

definition ex_reader_world :: "string \<Rightarrow> (string \<times> string, config_map) gomap \<Rightarrow> plugin_world" where
  "ex_reader_world ns cms = ex_plugin_world\<lparr>pw_plugins := [((''ns'', ''p''), ex_reader ns)], pw_configmaps := cms\<rparr>"

definition ex_reader_env :: plugin_env where
  "ex_reader_env = ex_plugin_env\<lparr>pv_parse_into := (\<lambda>k v base. Some (AList.update k (JString v) base))\<rparr>"

definition ex_map :: "(string \<times> string, config_map) gomap" where
  "ex_map = [((''ns'', ''c''), \<lparr>cm_Data = [(''a'', ''1'')], cm_BinaryData = []\<rparr>)]"

lemma ex_reader_reads:
  "resolveValuesRef ex_reader_env (ex_reader_world ns ex_map) (ex_reader n) \<noteq>
   resolveValuesRef ex_reader_env (ex_reader_world ns []) (ex_reader n)"
proof -
  have "to_lower ''ConfigMap'' = ''configmap''" by code_simp
  then show ?thesis
    by (simp add: resolveValuesRef_def resolve_ref_def api_get_def Let_def ex_reader_def ex_reader_world_def ex_map_def
        ex_reader_env_def ex_plugin_env_def ex_plugin_def ex_plugin_world_def object_of_def FullFill_def MarshalJSON_def ex_codec_def)
qed

theorem values_change_triggers_witness:
  "(''ns'', ''p'') \<in> set (ConfigMapOrSecretTrigger ''ConfigMap'' ''ns'' ''c'' (ex_reader_world [] ex_map)) \<and>
   ConfigMapOrSecretTrigger ''ConfigMap'' ''ns'' ''c'' (ex_reader_world ''other'' ex_map) = []"
proof -
  have w: "(ex_reader_world ns [])\<lparr>pw_configmaps := ex_map\<rparr> = ex_reader_world ns ex_map" for ns
    by (simp add: ex_reader_world_def)
  have "plugin_key (ex_reader []) \<in> set (ConfigMapOrSecretTrigger ''ConfigMap'' ''ns'' ''c'' (ex_reader_world [] ex_map))"
    unfolding w [symmetric]
  proof (rule values_change_triggers [of "(''ns'', ''p'')"])
    show "resolveValuesRef ex_reader_env ((ex_reader_world [] [])\<lparr>pw_configmaps := ex_map\<rparr>) (ex_reader []) \<noteq>
      resolveValuesRef ex_reader_env (ex_reader_world [] []) (ex_reader [])"
      unfolding w by (rule ex_reader_reads)
  qed (simp_all add: ex_reader_world_def ex_reader_def ex_map_def)
  moreover have "plugin_key (ex_reader []) = (''ns'', ''p'')" by (simp add: plugin_key_def ex_reader_def ex_plugin_def)
  moreover have "ConfigMapOrSecretTrigger ''ConfigMap'' ''ns'' ''c'' (ex_reader_world ''other'' ex_map) = []"
    by (simp add: ConfigMapOrSecretTrigger_def ex_reader_world_def ex_reader_def)
  ultimately show ?thesis by simp
qed

text \<open>The values a plugin is installed with, leaf by leaf: what it gives itself wins, and where it says nothing the
  references do, the later ones over the earlier ones in the order of their merging.\<close>

theorem resolved_leaf:
  assumes "resolve_refs env w p (ps_ValuesFrom (pl_Spec p)) [] = Inr base"
    and "wf_fields (object_of (ps_Values (pl_Spec p)))" "\<not> is_object v" "path \<noteq> []"
  shows "\<exists>q m. resolveValuesRef env w p = Inr q \<and> vs_Object (ps_Values (pl_Spec q)) = Some m \<and>
    (at m path = Some v \<longleftrightarrow>
      at (object_of (ps_Values (pl_Spec p))) path = Some v \<or>
      at base path = Some v \<and> \<not> says (object_of (ps_Values (pl_Spec p))) path)"
  using assms(1) mergeMaps_leaf [OF assms(2-4), of base]
  by (simp add: resolveValuesRef_def FullFill_def Let_def)

theorem resolved_leaf_witness:
  "\<exists>q m. resolveValuesRef ex_reader_env (ex_reader_world [] ex_map)
      ((ex_reader [])\<lparr>pl_Spec := (pl_Spec (ex_reader []))\<lparr>ps_Values := \<lparr>vs_Raw = None, vs_Object = Some [(''b'', JString ''2'')]\<rparr>\<rparr>\<rparr>) = Inr q \<and>
    vs_Object (ps_Values (pl_Spec q)) = Some m \<and> at m [''b''] = Some (JString ''2'')"
proof -
  let ?p = "(ex_reader [])\<lparr>pl_Spec := (pl_Spec (ex_reader []))\<lparr>ps_Values := \<lparr>vs_Raw = None, vs_Object = Some [(''b'', JString ''2'')]\<rparr>\<rparr>\<rparr>"
  have "to_lower ''ConfigMap'' = ''configmap''" by code_simp
  then have "resolve_refs ex_reader_env (ex_reader_world [] ex_map) ?p (ps_ValuesFrom (pl_Spec ?p)) [] = Inr [(''g.a'', JString ''1'')]"
    by (simp add: resolve_ref_def api_get_def Let_def ex_reader_def ex_reader_world_def ex_map_def
        ex_reader_env_def ex_plugin_env_def ex_plugin_def ex_plugin_world_def)
  moreover have "object_of (ps_Values (pl_Spec ?p)) = [(''b'', JString ''2'')]" by (simp add: object_of_def)
  ultimately show ?thesis
    using resolved_leaf [of ex_reader_env "ex_reader_world [] ex_map" ?p "[(''g.a'', JString ''1'')]" "JString ''2''" "[''b'']"]
    by (simp add: is_object_def)
qed

text \<open>Repeating a run.\<close>

lemma Reconcile_done_steps:
  assumes "sync_run env p w" "\<not> pl_Deleting p" "\<not> ps_Disabled (pl_Spec p)"
    and "appliers (ps_Kind (pl_Spec p)) = Some NativeApplier"
    and "Reconcile_plugin env (plugin_key p) w = (w', PluginDone)"
  obtains q into c r c1 where "resolveValuesRef env w p = Inr q" "Download env q = Some into"
    "native_Apply env q into c = (r, c1, None)"
    "map_of (pw_plugins w') (plugin_key p) = Some (with_status p ((pl_Status r)\<lparr>pt_ObservedGeneration := pl_Generation p,
       pt_Values := read_back (pv_codec env) (pt_Values (pl_Status r))\<rparr>))"
    "pw_configmaps w' = pw_configmaps w" "pw_secrets w' = pw_secrets w"
proof -
  obtain p1 c1 e where sync: "Sync_plugin env p w = (p1, c1, e)" by (cases "Sync_plugin env p w")
  obtain w2 where run: "Reconcile_plugin env (plugin_key p) w = (w2, if e = None then PluginDone else PluginErrored)"
    and maps: "pw_configmaps w2 = pw_configmaps w" "pw_secrets w2 = pw_secrets w"
    and stored: "map_of (pw_plugins w2) (plugin_key p) = Some (let p2 = (case e of None \<Rightarrow> p1
      | Some err \<Rightarrow> with_status p1 ((pl_Status p1)\<lparr>pt_Phase := PhaseFailed, pt_Message := pv_show env err\<rparr>)) in with_status p
      ((pl_Status p2)\<lparr>pt_Values := read_back (pv_codec env) (pt_Values (pl_Status p2))\<rparr>))"
    by (rule Reconcile_sync [OF assms(1) sync]) (simp add: Let_def)
  have e: "e = None" and w2: "w2 = w'" using run assms(5) by (auto split: if_splits)
  obtain q c r where q: "resolveValuesRef env w p = Inr q" and ap: "bundle_Apply env q c = (r, c1, None)"
    and p1: "p1 = with_status r ((pl_Status r)\<lparr>pt_ObservedGeneration := pl_Generation r\<rparr>)"
    by (rule bundles.Sync_installed [OF sync [unfolded Sync_plugin_def e] assms(3,2)]) blast
  have "pl_Generation r = pl_Generation p"
    by (subst bundles.apply_status [OF ap]) (simp add: resolve_keeps(4) [OF q])
  moreover obtain into where "Download env q = Some into" "native_Apply env q into c = (r, c1, None)"
    using ap assms(4) resolve_keeps(3) [OF q] by (auto simp: native_bundle(2) split: option.splits)
  ultimately show ?thesis
    using q stored p1 maps unfolding e w2 by (intro that [of q into c r c1]) simp_all
qed

lemma nothing_to_do_iff:
  "Creats (DiffWithDefaultNamespace api ns ms xs) = [] \<and> Removes (DiffWithDefaultNamespace api ns ms xs) = []
    \<longleftrightarrow> had api ns ms = wanted api ns xs"
proof
  assume eq: "had api ns ms = wanted api ns xs"
  have "Creats (DiffWithDefaultNamespace api ns ms xs) = []"
    using eq by (simp add: DiffWithDefaultNamespace_def Diff_parts(1) olds_none had_def wanted_def)
  moreover have "refs (Removes (DiffWithDefaultNamespace api ns ms xs)) = {}"
    unfolding DiffWithDefaultNamespace_def Diff_parts(3) using eq by (simp add: had_def wanted_def)
  ultimately show "Creats (DiffWithDefaultNamespace api ns ms xs) = [] \<and> Removes (DiffWithDefaultNamespace api ns ms xs) = []" by simp
qed (use nothing_to_do in blast)

text \<open>Applying again what has been applied: it is skipped exactly if the values are found equal.\<close>

lemma native_Apply_again:
  assumes "native_Apply env q into c = (r, c', None)" "rendered_resources env q into = Some xs"
    and "had (pv_rest env) (install_namespace q) (resources_of q) = wanted (pv_rest env) (install_namespace q) xs"
    and "pt_Phase (pl_Status q) = PhaseInstalled" "ps_Version (pl_Spec q) = pt_Version (pl_Status q)"
  shows "if EqualMapValues (object_of (pt_Values (pl_Status q))) (object_of (ps_Values (pl_Spec q))) then r = q
    else pt_UpgradeTimestamp (pl_Status r) = Some (pv_now env)"
proof -
  obtain rendered where t: "pv_template env (ps_Kind (pl_Spec q)) q into = Some rendered" "pv_split env rendered = (xs, True)"
    using assms(2) by (auto simp: rendered_resources_def split: option.splits prod.splits if_splits)
  show ?thesis
    using assms(1,4,5) nothing_to_do_iff [THEN iffD2, OF assms(3)] t
    by (auto simp: native_Apply_def Let_def split: prod.splits if_splits)
qed

text \<open>An application that is not skipped records its values and its time.\<close>

lemma native_Apply_fresh:
  assumes "native_Apply env q into c = (r, c', None)" "pt_Phase (pl_Status q) \<noteq> PhaseInstalled"
  shows "pt_Values (pl_Status r) = FullFill (pv_codec env) \<lparr>vs_Raw = None, vs_Object = vs_Object (ps_Values (pl_Spec q))\<rparr>"
    "pt_UpgradeTimestamp (pl_Status r) = Some (pv_now env)" "pt_Version (pl_Status r) = ps_Version (pl_Spec q)"
  using assms by (auto simp: native_Apply_def Let_def split: prod.splits if_splits option.splits bool.splits)

lemma resolve_again:
  assumes "pw_configmaps w' = pw_configmaps w" "pw_secrets w' = pw_secrets w"
  shows "resolveValuesRef (env\<lparr>pv_now := t\<rparr>) w' (with_status p st) =
    (case resolveValuesRef env w p of Inl e \<Rightarrow> Inl e | Inr q \<Rightarrow> Inr (with_status q st))"
proof -
  have into: "merge_into (env\<lparr>pv_now := t\<rparr>) ref data base = merge_into env ref data base" for ref data base
    by (induction data arbitrary: base) (auto split: option.split)
  have files: "merge_files (env\<lparr>pv_now := t\<rparr>) ref data base = merge_files env ref data base" for ref data base
    by (induction data arbitrary: base) (auto split: option.split)
  have one: "resolve_ref (env\<lparr>pv_now := t\<rparr>) w' (with_status p st) ref base = resolve_ref env w p ref base" for ref base
    unfolding resolve_ref_def Let_def into files assms by simp
  have "resolve_refs (env\<lparr>pv_now := t\<rparr>) w' (with_status p st) rs base = resolve_refs env w p rs base" for rs base
    by (induction rs arbitrary: base) (auto simp: one split: sum.split)
  then show ?thesis by (simp add: resolveValuesRef_def Let_def split: sum.split)
qed

lemma read_back_twice: "MarshalJSON c v \<noteq> ''null'' \<Longrightarrow> read_back c (read_back c v) = read_back c v"
  by (simp add: read_back_def UnmarshalJSON_def MarshalJSON_def Let_def split: option.split)

text \<open>C22: Runs for a native plugin that succeed, one after the other, with nothing changed in between. Where rendering
  depends on what the plugin asks for alone, the second run leaves the status of the plugin as it is exactly if its values
  are plain. With an integer, a null or an empty object in them, as a configuration map makes them, every
  run applies everything again and writes a new time, which starts the next run.\<close>

theorem Reconcile_plugin_settles_iff:
  assumes "sync_run env p w" "\<not> pl_Deleting p" "\<not> ps_Disabled (pl_Spec p)"
    and "appliers (ps_Kind (pl_Spec p)) = Some NativeApplier"
    and "pt_Phase (pl_Status p) \<noteq> PhaseInstalled" "ps_Version (pl_Spec p) \<noteq> []"
    and "Reconcile_plugin env (plugin_key p) w = (w1, PluginDone)"
    and "Reconcile_plugin (env\<lparr>pv_now := later\<rparr>) (plugin_key p) w1 = (w2, PluginDone)" "later \<noteq> pv_now env"
    and "resolveValuesRef env w p = Inr q" "vs_Object (ps_Values (pl_Spec q)) = Some m" "wf_fields m"
    and "cd_unmarshal (pv_codec env) (cd_marshal (pv_codec env) m) = Some (map (\<lambda>(k, v). (k, floats (cd_float (pv_codec env)) v)) m)"
    and "cd_marshal (pv_codec env) m \<noteq> ''null''"
    and "\<And>kind b st into. pv_template env kind (with_status b st) into = pv_template env kind b into"
  shows "pl_Status (the (map_of (pw_plugins w2) (plugin_key p))) = pl_Status (the (map_of (pw_plugins w1) (plugin_key p)))
    \<longleftrightarrow> plain m"
proof -
  let ?env2 = "env\<lparr>pv_now := later\<rparr>" and ?c = "pv_codec env"
  let ?full = "FullFill ?c \<lparr>vs_Raw = None, vs_Object = Some m\<rparr>"
  obtain q' into c r c1 where q': "resolveValuesRef env w p = Inr q'" and down': "Download env q' = Some into"
    and ap': "native_Apply env q' into c = (r, c1, None)"
    and stored: "map_of (pw_plugins w1) (plugin_key p) = Some (with_status p ((pl_Status r)\<lparr>pt_ObservedGeneration := pl_Generation p,
       pt_Values := read_back ?c (pt_Values (pl_Status r))\<rparr>))"
    and maps: "pw_configmaps w1 = pw_configmaps w" "pw_secrets w1 = pw_secrets w"
    by (rule Reconcile_done_steps [OF assms(1-4,7)])
  have "q' = q" using q' assms(10) by simp
  note down = down' [unfolded this] and ap = ap' [unfolded this]
  note q = resolve_keeps [OF assms(10)]
  have fresh: "pt_Values (pl_Status r) = ?full" "pt_UpgradeTimestamp (pl_Status r) = Some (pv_now env)"
    "pt_Version (pl_Status r) = ps_Version (pl_Spec q)"
    using native_Apply_fresh [OF ap] assms(5,11) q(1) by simp_all
  define st1 where "st1 = (pl_Status r)\<lparr>pt_ObservedGeneration := pl_Generation p, pt_Values := read_back ?c ?full\<rparr>"
  define p1 where "p1 = with_status p st1"
  have p1: "map_of (pw_plugins w1) (plugin_key p) = Some p1" "plugin_key p1 = plugin_key p"
    using stored fresh(1) by (simp_all add: p1_def st1_def plugin_key_def)
  have "sync_run ?env2 p1 w1"
    using assms(1,2) p1 by (simp add: sync_run_def p1_def)
  then obtain q2 into2 c2 r2 c3 where res2: "resolveValuesRef ?env2 w1 p1 = Inr q2" and down2: "Download ?env2 q2 = Some into2"
    and ap2: "native_Apply ?env2 q2 into2 c2 = (r2, c3, None)"
    and stored2: "map_of (pw_plugins w2) (plugin_key p) = Some (with_status p1 ((pl_Status r2)\<lparr>pt_ObservedGeneration := pl_Generation p1,
       pt_Values := read_back ?c (pt_Values (pl_Status r2))\<rparr>))"
    by (rule Reconcile_done_steps [of ?env2 p1 w1 w2]) (use assms(2-4,8) p1 in \<open>simp_all add: p1_def\<close>)
  have q2: "q2 = with_status q st1"
    using res2 resolve_again [OF maps] assms(10) by (simp add: p1_def)
  have "into2 = into"
    using down down2 assms(6) q(7) by (simp add: Download_def q2 Let_def cong: if_cong)
  moreover obtain xs where xs: "rendered_resources env q into = Some xs"
    "had (pv_rest env) (install_namespace q) (resources_of r) = wanted (pv_rest env) (install_namespace q) xs"
    by (rule native_Apply_done [OF ap])
  moreover have "rendered_resources ?env2 q2 into = rendered_resources env q into"
    using assms(15) [of "ps_Kind (pl_Spec q)" st1 q into] by (simp add: rendered_resources_def q2 cong: option.case_cong)
  moreover have "pt_Phase (pl_Status r) = PhaseInstalled" by (rule native.apply_installs [OF ap])
  ultimately have again: "if EqualMapValues (object_of (read_back ?c ?full)) m then r2 = q2
      else pt_UpgradeTimestamp (pl_Status r2) = Some later"
    using native_Apply_again [of ?env2 q2 into c2 r2 c3 xs] ap2 assms(11) fresh(3)
    by (simp add: q2 st1_def object_of_def)
  obtain m' where m': "vs_Object (read_back ?c ?full) = Some m'" "EqualMapValues m' m \<longleftrightarrow> plain m"
    using read_back_equal_iff [OF assms(12-14)] by blast
  have marshal: "MarshalJSON ?c ?full \<noteq> ''null''" using assms(14) by (simp add: FullFill_def MarshalJSON_def)
  show ?thesis
  proof (cases "plain m")
    case True
    then have "r2 = q2" using again m' by (simp add: object_of_def)
    then show ?thesis using True stored2 p1 read_back_twice [OF marshal] by (simp add: q2 p1_def st1_def)
  next
    case False
    then have "pt_UpgradeTimestamp (pl_Status r2) = Some later" using again m' by (simp add: object_of_def)
    moreover have "pt_UpgradeTimestamp st1 = Some (pv_now env)" using fresh(2) by (simp add: st1_def)
    ultimately have "pl_Status (the (map_of (pw_plugins w2) (plugin_key p))) \<noteq> st1"
      using stored2 assms(9) by (auto dest: arg_cong [of _ _ pt_UpgradeTimestamp])
    then show ?thesis using False p1 by (simp add: p1_def)
  qed
qed

text \<open>A number of replicas that comes from a configuration map.\<close>

definition ex_scaled :: plugin where
  "ex_scaled = ex_plugin\<lparr>pl_Deleting := False, pl_Spec := (pl_Spec ex_plugin)\<lparr>ps_ValuesFrom :=
     [\<lparr>vf_Kind = ''ConfigMap'', vf_Name = ''c'', vf_Namespace = [], vf_Prefix = [], vf_Optional = True\<rparr>]\<rparr>\<rparr>"

definition ex_scaled_world :: plugin_world where
  "ex_scaled_world = ex_plugin_world\<lparr>pw_plugins := [((''ns'', ''p''), ex_scaled)],
     pw_configmaps := [((''ns'', ''c''), \<lparr>cm_Data = [(''replicas'', ''1'')], cm_BinaryData = []\<rparr>)]\<rparr>"

definition ex_scaled_env :: plugin_env where
  "ex_scaled_env = ex_plugin_env\<lparr>pv_parse_into := (\<lambda>k v base. Some (AList.update k (JInt 1) base))\<rparr>"

definition ex_scaled_once :: plugin_world where
  "ex_scaled_once = fst (Reconcile_plugin ex_scaled_env (''ns'', ''p'') ex_scaled_world)"

lemma ex_scaled_runs:
  "snd (Reconcile_plugin ex_scaled_env (''ns'', ''p'') ex_scaled_world) = PluginDone"
  "snd (Reconcile_plugin (ex_scaled_env\<lparr>pv_now := 9\<rparr>) (''ns'', ''p'') ex_scaled_once) = PluginDone"
  by code_simp+

theorem Reconcile_plugin_settles_iff_witness:
  "pl_Status (the (map_of (pw_plugins (fst (Reconcile_plugin (ex_scaled_env\<lparr>pv_now := 9\<rparr>) (''ns'', ''p'') ex_scaled_once))) (''ns'', ''p'')))
   \<noteq> pl_Status (the (map_of (pw_plugins ex_scaled_once) (''ns'', ''p'')))"
proof -
  let ?m = "[(''replicas'', JInt 1)]" and ?q = "ex_scaled\<lparr>pl_Spec := (pl_Spec ex_scaled)\<lparr>ps_Values :=
      FullFill ex_codec \<lparr>vs_Raw = None, vs_Object = Some [(''replicas'', JInt 1)]\<rparr>\<rparr>\<rparr>"
  have key: "plugin_key ex_scaled = (''ns'', ''p'')" by (simp add: plugin_key_def ex_scaled_def ex_plugin_def)
  have run: "sync_run ex_scaled_env ex_scaled ex_scaled_world"
    by (simp add: sync_run_def key) (simp add: ex_scaled_world_def ex_scaled_def ex_plugin_def ex_scaled_env_def ex_plugin_env_def)
  have "to_lower ''ConfigMap'' = ''configmap''" by code_simp
  then have res: "resolveValuesRef ex_scaled_env ex_scaled_world ex_scaled = Inr ?q"
    by (simp add: resolveValuesRef_def resolve_ref_def api_get_def Let_def ex_scaled_def ex_scaled_world_def
        ex_scaled_env_def ex_plugin_env_def ex_plugin_def ex_plugin_world_def object_of_def)
  have "pl_Status (the (map_of (pw_plugins (fst (Reconcile_plugin (ex_scaled_env\<lparr>pv_now := 9\<rparr>) (''ns'', ''p'') ex_scaled_once))) (plugin_key ex_scaled)))
      = pl_Status (the (map_of (pw_plugins ex_scaled_once) (plugin_key ex_scaled))) \<longleftrightarrow> plain ?m"
  proof (rule Reconcile_plugin_settles_iff [OF run])
    show "Reconcile_plugin ex_scaled_env (plugin_key ex_scaled) ex_scaled_world = (ex_scaled_once, PluginDone)"
      using ex_scaled_runs(1) by (simp add: key ex_scaled_once_def prod_eq_iff)
    show "Reconcile_plugin (ex_scaled_env\<lparr>pv_now := 9\<rparr>) (plugin_key ex_scaled) ex_scaled_once =
        (fst (Reconcile_plugin (ex_scaled_env\<lparr>pv_now := 9\<rparr>) (''ns'', ''p'') ex_scaled_once), PluginDone)"
      using ex_scaled_runs(2) by (simp add: key prod_eq_iff)
    show "resolveValuesRef ex_scaled_env ex_scaled_world ex_scaled = Inr ?q" by (rule res)
    show "vs_Object (ps_Values (pl_Spec ?q)) = Some ?m" by (simp add: FullFill_def)
  qed (simp_all add: ex_scaled_def ex_plugin_def ex_scaled_env_def ex_plugin_env_def ex_codec_def appliers_def)
  moreover have "\<not> plain ?m" by (simp add: plain_def)
  ultimately show ?thesis by (simp add: key)
qed

end
