(* ===== verification/Plugin_Manager.thy ===== *)
theory Plugin_Manager
  imports Plugin_Controller
begin

text \<open>
  The manager of plugins (\<open>pkg/installer/pluginmanager\<close>): the versions that the repositories offer and those that are
  installed, which of them is an upgrade, and whether what a version requires is installed.

  Semantic versions and their constraints are a library, and so is a second one, whose comparison
  \<open>Get\<close> uses; both are parameters, with the index of a repository, the text of numbers and times, and the
  requests that fail. Maps are lists of their entries, so what is proved for all of them holds for
  every order in which a map is iterated.
\<close>

section \<open>Versions\<close>

record requirement =
  re_Name :: string
  re_Expr :: string
  re_Message :: string

record plugin_version =
  vn_Name :: string
  vn_Namespace :: string
  vn_Enabled :: bool
  vn_InstallNamespace :: string
  vn_Kind :: bundle_kind
  vn_Description :: string
  vn_HelathCheck :: string
  vn_MainCategory :: string
  vn_Category :: string
  vn_Repository :: string
  vn_RepositoryName :: string
  vn_Version :: string
  vn_Healthy :: bool
  vn_Required :: bool
  vn_Requirements :: "requirement list"
  vn_Message :: string
  vn_Values :: json_values
  vn_ValuesFrom :: "values_from list"
  vn_Priority :: int

record chart_version =
  ch_Name :: string
  ch_Version :: string
  ch_Description :: string
  ch_Annotations :: labels

record repository =
  rp_Name :: string
  rp_Priority :: int
  rp_Address :: string
  rp_Static :: bool
  rp_Plugins :: "(string, plugin_version list) gomap"
  rp_LastSync :: "nat option"

record repo_secret =
  se_plugins :: "(string, plugin_version list) gomap"
  se_address :: string
  se_lastSync :: string
  se_priority :: string

datatype unmet = NotThere string string | OtherVersion string string string

datatype manager_verb = MListPlugins | MGetPlugin | MWritePlugin | MDeletePlugin | MListSecrets | MGetSecret | MWriteSecret | MDeleteSecret

record 'v manager_env =
  mv_new :: "string \<Rightarrow> 'v option"
  mv_compare :: "'v \<Rightarrow> 'v \<Rightarrow> int"
  mv_constraint :: "string \<Rightarrow> ('v \<Rightarrow> bool) option"
  mv_xcompare :: "string \<Rightarrow> string \<Rightarrow> int"
  mv_message :: "unmet \<Rightarrow> string"
  mv_atoi :: "string \<Rightarrow> int option"
  mv_parse_time :: "string \<Rightarrow> nat option"
  mv_time_string :: "nat option \<Rightarrow> string"
  mv_index :: "string \<Rightarrow> (string, chart_version list) gomap option"
  mv_builtin :: "(string, chart_version list) gomap option"
  mv_now :: nat
  mv_codec :: codec
  mv_fails :: "manager_verb \<Rightarrow> bool"

record manager_world =
  mw_plugins :: "(string \<times> string, plugin) gomap"
  mw_secrets :: "(string, repo_secret) gomap"

definition KubeGemsNamespaceInstaller :: string where "KubeGemsNamespaceInstaller = ''kubegems-installer''"
definition KubeGemsGlobalValuesConfigMapName :: string where "KubeGemsGlobalValuesConfigMapName = ''kubegems-global-values''"
definition KubegemsChartGlobal :: string where "KubegemsChartGlobal = ''global''"
definition KubegemsChartsRepoURL :: string where "KubegemsChartsRepoURL = ''https://charts.kubegems.io/kubegems''"
definition AnnotationIsPlugin :: string where "AnnotationIsPlugin = ''plugins.kubegems.io/is-plugin''"
definition AnnotationCategory :: string where "AnnotationCategory = ''plugins.kubegems.io/category''"
definition AnnotationMainCategory :: string where "AnnotationMainCategory = ''plugins.kubegems.io/main-category''"
definition AnnotationHealthCheck :: string where "AnnotationHealthCheck = ''plugins.kubegems.io/health-check''"
definition AnnotationRequired :: string where "AnnotationRequired = ''plugins.kubegems.io/required''"
definition AnnotationInstallNamespace :: string where "AnnotationInstallNamespace = ''plugins.kubegems.io/install-namespace''"
definition AnnotationValuesFrom :: string where "AnnotationValuesFrom = ''plugins.kubegems.io/values-from''"
definition AnnotationPluginDescription :: string where "AnnotationPluginDescription = ''plugins.kubegems.io/description''"
definition AnnotationRequirements :: string where "AnnotationRequirements = ''plugins.kubegems.io/requirements''"
definition AnnotationRenderBy :: string where "AnnotationRenderBy = ''plugins.kubegems.io/render-by''"

definition format_bool :: "bool \<Rightarrow> string" where
  "format_bool b = (if b then ''true'' else ''false'')"

definition bundle_kind_of :: "string \<Rightarrow> bundle_kind" where
  "bundle_kind_of s =
     (if s = ''helm'' then BundleKindHelm else if s = ''kustomize'' then BundleKindKustomize
      else if s = ''template'' then BundleKindTemplate else if s = ''native'' then BundleKindNative else BundleKindOther s)"

definition empty_status :: plugin_status where
  "empty_status = \<lparr>pt_ObservedGeneration = 0, pt_Phase = PhaseUnset, pt_Message = [], pt_Values = \<lparr>vs_Raw = None, vs_Object = None\<rparr>,
     pt_Version = [], pt_AppVersion = [], pt_Namespace = [], pt_CreationTimestamp = None, pt_UpgradeTimestamp = None,
     pt_Resources = []\<rparr>"

definition ToPlugin :: "plugin_version \<Rightarrow> plugin" where
  "ToPlugin pv =
     (let kind = (if vn_Kind pv = BundleKindOther [] then BundleKindTemplate else vn_Kind pv) in
      \<lparr>pl_APIVersion = [], pl_Kind = [], pl_Name = vn_Name pv, pl_Namespace = vn_Namespace pv,
       pl_Annotations = [(AnnotationCategory, vn_MainCategory pv @ ''/'' @ vn_Category pv),
         (AnnotationPluginDescription, vn_Description pv), (AnnotationHealthCheck, vn_HelathCheck pv),
         (AnnotationRequired, format_bool (vn_Required pv))],
       pl_Generation = 0, pl_Deleting = False, pl_Finalizers = [],
       pl_Spec = \<lparr>ps_Disabled = False, ps_Kind = kind, ps_URL = vn_Repository pv, ps_Version = vn_Version pv,
         ps_Chart = vn_Name pv, ps_Path = [], ps_InstallNamespace = vn_InstallNamespace pv, ps_Dependencies = [],
         ps_Values = vn_Values pv, ps_ValuesFrom = vn_ValuesFrom pv, ps_FileOverrides = []\<rparr>,
       pl_Status = empty_status\<rparr>)"

definition parseCategory :: "labels \<Rightarrow> string \<times> string" where
  "parseCategory annotations =
     (let full = get_str annotations AnnotationCategory in
      if full = [] then (''other'', ''unknow'')
      else case split_on (CHR ''/'') full of
             [] \<Rightarrow> (''other'', ''unknow'')
           | [cate] \<Rightarrow>
               (let old = get_str annotations AnnotationMainCategory in (if old \<noteq> [] then old else ''other'', cate))
           | maincate # cate # rest \<Rightarrow> (maincate, cate))"

definition PluginVersionFrom :: "plugin \<Rightarrow> plugin_version" where
  "PluginVersionFrom p =
     (let annotations = pl_Annotations p;
          (maincate, cate) = parseCategory annotations;
          required = (case parse_bool (get_str annotations AnnotationRequired) of None \<Rightarrow> False | Some b \<Rightarrow> b);
          spec = pl_Spec p;
          installed = pt_Phase (pl_Status p) = PhaseInstalled
      in \<lparr>vn_Name = pl_Name p, vn_Namespace = pl_Namespace p, vn_Enabled = \<not> pl_Deleting p \<and> \<not> ps_Disabled spec,
          vn_InstallNamespace = ps_InstallNamespace spec, vn_Kind = ps_Kind spec,
          vn_Description = get_str annotations AnnotationPluginDescription,
          vn_HelathCheck = get_str annotations AnnotationHealthCheck, vn_MainCategory = maincate, vn_Category = cate,
          vn_Repository = ps_URL spec, vn_RepositoryName = [], vn_Version = ps_Version spec, vn_Healthy = installed,
          vn_Required = required, vn_Requirements = [], vn_Message = (if installed then [] else pt_Message (pl_Status p)),
          vn_Values = ps_Values spec, vn_ValuesFrom = ps_ValuesFrom spec, vn_Priority = 0\<rparr>)"

definition IsPluginChart :: "chart_version \<Rightarrow> bool" where
  "IsPluginChart cv = (case parse_bool (get_str (ch_Annotations cv) AnnotationIsPlugin) of None \<Rightarrow> False | Some b \<Rightarrow> b)"

section \<open>Requirements\<close>

definition is_operator :: "char \<Rightarrow> bool" where
  "is_operator c \<longleftrightarrow> c \<in> {CHR ''>'', CHR ''='', CHR ''<'', CHR ''~'', CHR ''^'', CHR ''*'', CHR ''!''}"

definition ParseRequirements :: "string \<Rightarrow> requirement list" where
  "ParseRequirements str =
     (if str = [] then []
      else map (\<lambda>req.
             (let i = length (takeWhile (\<lambda>c. \<not> is_operator c) req) in
              if 0 < i \<and> i < length req then \<lparr>re_Name = trim_space (take i req), re_Expr = drop i req, re_Message = []\<rparr>
              else \<lparr>re_Name = trim_space req, re_Expr = ''*'', re_Message = []\<rparr>))
           (filter (\<lambda>req. req \<noteq> []) (split_on (CHR '','') str)))"

definition SemVersionBiggerThan :: "'v manager_env \<Rightarrow> string \<Rightarrow> string \<Rightarrow> int" where
  "SemVersionBiggerThan env a b =
     (case mv_new env a of
        None \<Rightarrow> - 1
      | Some aver \<Rightarrow> (case mv_new env b of None \<Rightarrow> - 1 | Some bver \<Rightarrow> mv_compare env aver bver))"

text \<open>Whether the version that is there meets the first requirement of its name; what cannot be read is met.\<close>

fun CheckDependecy :: "'v manager_env \<Rightarrow> requirement list \<Rightarrow> plugin_version \<Rightarrow> bool" where
  "CheckDependecy env [] exist = True"
| "CheckDependecy env (req # reqs) exist =
     (if re_Name req = vn_Name exist
      then (case mv_constraint env (re_Expr req) of
              None \<Rightarrow> True
            | Some constraint \<Rightarrow> (case mv_new env (vn_Version exist) of None \<Rightarrow> True | Some v \<Rightarrow> constraint v))
      else CheckDependecy env reqs exist)"

definition check_requirement :: "'v manager_env \<Rightarrow> (string, plugin_version) gomap \<Rightarrow> requirement \<Rightarrow> unmet option" where
  "check_requirement env installs req =
     (case mv_constraint env (re_Expr req) of
        None \<Rightarrow> None
      | Some constraint \<Rightarrow>
          (case map_of installs (re_Name req) of
             None \<Rightarrow> Some (NotThere (re_Name req) (re_Expr req))
           | Some installed \<Rightarrow>
               (case mv_new env (vn_Version installed) of
                  None \<Rightarrow> None
                | Some ver \<Rightarrow>
                    if \<not> constraint ver then Some (OtherVersion (re_Name req) (vn_Version installed) (re_Expr req)) else None)))"

definition CheckDependecies ::
  "'v manager_env \<Rightarrow> requirement list \<Rightarrow> (string, plugin_version) gomap \<Rightarrow> unmet list \<times> requirement list" where
  "CheckDependecies env requirements installs =
     (List.map_filter (check_requirement env installs) requirements,
      map (\<lambda>req. case check_requirement env installs req of None \<Rightarrow> req | Some e \<Rightarrow> req\<lparr>re_Message := mv_message env e\<rparr>)
        requirements)"

section \<open>Repositories\<close>

definition chart_values_from :: "chart_version \<Rightarrow> values_from list" where
  "chart_values_from cv =
     (if ch_Name cv \<noteq> KubegemsChartGlobal
      then [\<lparr>vf_Kind = ''ConfigMap'', vf_Name = KubeGemsGlobalValuesConfigMapName, vf_Namespace = [],
             vf_Prefix = KubegemsChartGlobal @ ''.'', vf_Optional = True\<rparr>]
      else []) @
     map (\<lambda>val. let splits = split_on (CHR ''/'') val;
                    (namespace, name) = (if length splits > 1 then (splits ! 0, splits ! 1) else ([], val))
                in \<lparr>vf_Kind = ''ConfigMap'', vf_Name = ''kubegems-'' @ name @ ''-values'', vf_Namespace = namespace,
                    vf_Prefix = name @ ''.'', vf_Optional = True\<rparr>)
       (filter (\<lambda>val. \<not> (val = [] \<or> val = KubegemsChartGlobal))
          (split_on (CHR '','') (get_str (ch_Annotations cv) AnnotationValuesFrom)))"

definition PluginVersionFromRepoChartVersion :: "repository \<Rightarrow> chart_version \<Rightarrow> plugin_version" where
  "PluginVersionFromRepoChartVersion repo cv =
     (let annotations = ch_Annotations cv;
          (maincate, cate) = parseCategory annotations;
          required = (case parse_bool (get_str annotations AnnotationRequired) of None \<Rightarrow> False | Some b \<Rightarrow> b);
          kind = get_str annotations AnnotationRenderBy
      in \<lparr>vn_Name = ch_Name cv, vn_Namespace = [], vn_Enabled = False,
          vn_InstallNamespace = get_str annotations AnnotationInstallNamespace,
          vn_Kind = (if kind \<noteq> [] then bundle_kind_of kind else BundleKindTemplate), vn_Description = ch_Description cv,
          vn_HelathCheck = get_str annotations AnnotationHealthCheck, vn_MainCategory = maincate, vn_Category = cate,
          vn_Repository = rp_Address repo, vn_RepositoryName = rp_Name repo, vn_Version = ch_Version cv, vn_Healthy = False,
          vn_Required = required, vn_Requirements = ParseRequirements (get_str annotations AnnotationRequirements),
          vn_Message = [], vn_Values = \<lparr>vs_Raw = None, vs_Object = None\<rparr>, vn_ValuesFrom = chart_values_from cv,
          vn_Priority = 0\<rparr>)"

definition ParseIndexFile :: "nat \<Rightarrow> (string, chart_version list) gomap \<Rightarrow> repository \<Rightarrow> repository" where
  "ParseIndexFile now index repo =
     (let pluginversions = filter (\<lambda>(name, pvs). pvs \<noteq> [])
            (map (\<lambda>(name, cvs). (name, map (PluginVersionFromRepoChartVersion repo) (filter IsPluginChart cvs))) index)
      in repo\<lparr>rp_Plugins := pluginversions, rp_LastSync := Some now\<rparr>)"

definition RefreshRepoIndex :: "'v manager_env \<Rightarrow> repository \<Rightarrow> repository option" where
  "RefreshRepoIndex env repo =
     (case mv_index env (rp_Address repo) of None \<Rightarrow> None | Some index \<Rightarrow> Some (ParseIndexFile (mv_now env) index repo))"

definition repoFromSecret :: "'v manager_env \<Rightarrow> string \<Rightarrow> repo_secret \<Rightarrow> repository" where
  "repoFromSecret env name secret =
     \<lparr>rp_Name = name, rp_Priority = (case mv_atoi env (se_priority secret) of None \<Rightarrow> 0 | Some n \<Rightarrow> n),
      rp_Address = se_address secret, rp_Static = False, rp_Plugins = se_plugins secret,
      rp_LastSync = mv_parse_time env (se_lastSync secret)\<rparr>"

definition builtin_repo :: "'v manager_env \<Rightarrow> repository" where
  "builtin_repo env =
     (let repo = \<lparr>rp_Name = ''builtin'', rp_Priority = 99, rp_Address = KubegemsChartsRepoURL, rp_Static = True,
            rp_Plugins = [], rp_LastSync = None\<rparr>
      in case mv_builtin env of None \<Rightarrow> repo | Some index \<Rightarrow> ParseIndexFile (mv_now env) index repo)"

definition ListRepos :: "'v manager_env \<Rightarrow> manager_world \<Rightarrow> (string, repository) gomap option" where
  "ListRepos env w =
     (if mv_fails env MListSecrets then None
      else let repos = foldl (\<lambda>m (name, secret). AList.update name (repoFromSecret env name secret) m) [] (mw_secrets w);
               builtin = builtin_repo env
           in Some (AList.update (rp_Name builtin) builtin repos))"

definition GetRepo :: "'v manager_env \<Rightarrow> string \<Rightarrow> manager_world \<Rightarrow> repository got" where
  "GetRepo env name w =
     (case api_get (mv_fails env MGetSecret) name (mw_secrets w) of
        Found secret \<Rightarrow> Found (repoFromSecret env name secret)
      | NotFound \<Rightarrow> NotFound
      | Failed e \<Rightarrow> Failed e)"

definition UpdateRepo :: "'v manager_env \<Rightarrow> repository \<Rightarrow> manager_world \<Rightarrow> manager_world \<times> bool" where
  "UpdateRepo env repo w =
     (case RefreshRepoIndex env repo of
        None \<Rightarrow> (w, False)
      | Some repo \<Rightarrow>
          if mv_fails env MWriteSecret then (w, False)
          else let secret = (case map_of (mw_secrets w) (rp_Name repo) of
                       None \<Rightarrow> \<lparr>se_plugins = [], se_address = [], se_lastSync = [], se_priority = []\<rparr>
                     | Some secret \<Rightarrow> secret);
                   secret = secret\<lparr>se_plugins := rp_Plugins repo, se_address := rp_Address repo,
                     se_lastSync := mv_time_string env (rp_LastSync repo)\<rparr>
               in (w\<lparr>mw_secrets := AList.update (rp_Name repo) secret (mw_secrets w)\<rparr>, True))"

definition DeleteRepo :: "'v manager_env \<Rightarrow> string \<Rightarrow> manager_world \<Rightarrow> manager_world \<times> bool" where
  "DeleteRepo env name w =
     (case api_delete (mv_fails env MDeleteSecret) name (mw_secrets w) of
        (secrets, r) \<Rightarrow> (w\<lparr>mw_secrets := secrets\<rparr>, r \<noteq> DeleteFailed))"

definition merge_version ::
  "(string, plugin_version) gomap \<Rightarrow> plugin_version \<Rightarrow> (string, plugin_version) gomap" where
  "merge_version pluginversions pv =
     (case map_of pluginversions (vn_Version pv) of
        Some exist \<Rightarrow> if vn_Priority exist > vn_Priority pv then AList.update (vn_Version pv) pv pluginversions else pluginversions
      | None \<Rightarrow> AList.update (vn_Version pv) pv pluginversions)"

definition versions_of :: "(string, (string, plugin_version) gomap) gomap \<Rightarrow> string \<Rightarrow> (string, plugin_version) gomap" where
  "versions_of m name = (case map_of m name of None \<Rightarrow> [] | Some v \<Rightarrow> v)"

definition merge_named ::
  "int \<Rightarrow> (string, (string, plugin_version) gomap) gomap \<Rightarrow> string \<times> plugin_version list \<Rightarrow> (string, (string, plugin_version) gomap) gomap" where
  "merge_named priority pluginsmap e =
     AList.update (fst e)
       (foldl (\<lambda>vs pv. merge_version vs (pv\<lparr>vn_Priority := priority\<rparr>)) (versions_of pluginsmap (fst e)) (snd e)) pluginsmap"

definition mergeAllrepoVersions :: "'v manager_env \<Rightarrow> (string, repository) gomap \<Rightarrow> (string, plugin_version list) gomap" where
  "mergeAllrepoVersions env repos =
     (let pluginsmap = foldl (\<lambda>m (_, repo). foldl (merge_named (rp_Priority repo)) m (rp_Plugins repo)) [] repos
      in map (\<lambda>(k, v). (k, sort_slice (\<lambda>a b. SemVersionBiggerThan env (vn_Version b) (vn_Version a) < 0) (map snd v))) pluginsmap)"

definition UpdateReposCache :: "'v manager_env \<Rightarrow> manager_world \<Rightarrow> manager_world \<times> bool" where
  "UpdateReposCache env w =
     (case ListRepos env w of
        None \<Rightarrow> (w, False)
      | Some repos \<Rightarrow>
          foldl (\<lambda>(w, ok) (_, repo). let (w, ok') = UpdateRepo env repo w in (w, ok \<and> ok')) (w, True)
            (filter (\<lambda>(_, repo). \<not> rp_Static repo) repos))"

section \<open>Plugins, installed and offered\<close>

record managed_plugin =
  mp_Name :: string
  mp_Namespace :: string
  mp_MainCategory :: string
  mp_Category :: string
  mp_Upgradeable :: "plugin_version option"
  mp_Required :: bool
  mp_Installed :: "plugin_version option"
  mp_Available :: "plugin_version list"
  mp_Description :: string

definition GetInstalled :: "'v manager_env \<Rightarrow> string \<Rightarrow> manager_world \<Rightarrow> plugin_version option" where
  "GetInstalled env name w =
     (case api_get (mv_fails env MGetPlugin) (KubeGemsNamespaceInstaller, name) (mw_plugins w) of
        Found p \<Rightarrow> Some (PluginVersionFrom p)
      | _ \<Rightarrow> None)"

definition ListInstalled :: "'v manager_env \<Rightarrow> manager_world \<Rightarrow> (string, plugin_version) gomap option" where
  "ListInstalled env w =
     (if mv_fails env MListPlugins then None
      else Some (foldl (\<lambda>m (_, p). AList.update (pl_Name p) (PluginVersionFrom p) m) []
             (filter (\<lambda>(_, p). pl_Namespace p = KubeGemsNamespaceInstaller) (mw_plugins w))))"

definition ListRemote :: "'v manager_env \<Rightarrow> manager_world \<Rightarrow> (string, plugin_version list) gomap option" where
  "ListRemote env w = map_option (mergeAllrepoVersions env) (ListRepos env w)"

definition GetRemote :: "'v manager_env \<Rightarrow> string \<Rightarrow> manager_world \<Rightarrow> plugin_version list" where
  "GetRemote env name w =
     (case ListRemote env w of
        None \<Rightarrow> []
      | Some result \<Rightarrow> (case map_of result name of None \<Rightarrow> [] | Some pvs \<Rightarrow> pvs))"

text \<open>The loop of \<open>Get\<close> keeps the address of its variable, which is one variable for all rounds: afterwards it
  holds the last remote version, whichever compared well.\<close>

definition upgrade_version :: "'v manager_env \<Rightarrow> plugin_version list \<Rightarrow> plugin_version \<Rightarrow> plugin_version option" where
  "upgrade_version env remotes installed =
     (if list_ex (\<lambda>remote. mv_xcompare env (vn_Version remote) (vn_Version installed) > - 1) remotes
      then Some (last remotes) else None)"

definition Get_plugin :: "'v manager_env \<Rightarrow> string \<Rightarrow> manager_world \<Rightarrow> managed_plugin option" where
  "Get_plugin env name w =
     (let installed = GetInstalled env name w; remotes = GetRemote env name w in
      if installed = None \<and> remotes = [] then None
      else let (main, cate, desc) = (case installed of
                 Some v \<Rightarrow> (vn_MainCategory v, vn_Category v, vn_Description v)
               | None \<Rightarrow> (case remotes of v # _ \<Rightarrow> (vn_MainCategory v, vn_Category v, vn_Description v) | [] \<Rightarrow> ([], [], [])))
           in Some \<lparr>mp_Name = name, mp_Namespace = [], mp_MainCategory = main, mp_Category = cate,
                mp_Upgradeable = (case installed of None \<Rightarrow> None | Some v \<Rightarrow> upgrade_version env remotes v),
                mp_Required = False, mp_Installed = installed, mp_Available = remotes, mp_Description = desc\<rparr>)"

definition GetPluginVersion :: "'v manager_env \<Rightarrow> string \<Rightarrow> string \<Rightarrow> bool \<Rightarrow> manager_world \<Rightarrow> plugin_version option" where
  "GetPluginVersion env name version withDpendeciesCheck w =
     (case Get_plugin env name w of
        None \<Rightarrow> None
      | Some p \<Rightarrow>
          (case find (\<lambda>item. version = [] \<or> vn_Version item = version) (mp_Available p) of
             Some item \<Rightarrow>
               let item = (if withDpendeciesCheck \<and> vn_Requirements item \<noteq> []
                     then item\<lparr>vn_Requirements := snd (CheckDependecies env (vn_Requirements item)
                            (case ListInstalled env w of None \<Rightarrow> [] | Some m \<Rightarrow> m))\<rparr>
                     else item)
               in Some (case mp_Installed p of None \<Rightarrow> item | Some v \<Rightarrow> item\<lparr>vn_Values := DeepCopy (vn_Values v)\<rparr>)
           | None \<Rightarrow>
               (case mp_Installed p of
                  Some v \<Rightarrow> if version = [] \<or> version = vn_Version v then Some v else None
                | None \<Rightarrow> None)))"

datatype install_result = InstallNotFound | InstallUnmet "unmet list" | InstallFailed | InstallDone

definition Install :: "'v manager_env \<Rightarrow> string \<Rightarrow> string \<Rightarrow> fields option \<Rightarrow> manager_world \<Rightarrow> manager_world \<times> install_result" where
  "Install env name version values w =
     (case GetPluginVersion env name version False w of
        None \<Rightarrow> (w, InstallNotFound)
      | Some pv \<Rightarrow>
          let installed = (case ListInstalled env w of None \<Rightarrow> [] | Some m \<Rightarrow> m);
              errs = fst (CheckDependecies env (vn_Requirements pv) installed)
          in if errs \<noteq> [] then (w, InstallUnmet errs)
             else let pv = pv\<lparr>vn_Values := FullFill (mv_codec env) \<lparr>vs_Raw = None, vs_Object = values\<rparr>\<rparr>;
                      apiplugin = (ToPlugin pv)\<lparr>pl_Namespace := KubeGemsNamespaceInstaller\<rparr>;
                      key = (KubeGemsNamespaceInstaller, pl_Name apiplugin)
                  in if mv_fails env MWritePlugin then (w, InstallFailed)
                     else let p = (case map_of (mw_plugins w) key of
                              None \<Rightarrow> apiplugin
                            | Some exists \<Rightarrow> exists\<lparr>pl_Annotations :=
                                foldl (\<lambda>m (k, v). AList.update k v m) (pl_Annotations exists) (pl_Annotations apiplugin),
                                pl_Spec := pl_Spec apiplugin\<rparr>)
                          in (w\<lparr>mw_plugins := AList.update key p (mw_plugins w)\<rparr>, InstallDone))"

definition UnInstall :: "'v manager_env \<Rightarrow> string \<Rightarrow> manager_world \<Rightarrow> manager_world \<times> delete_result" where
  "UnInstall env name w =
     (case map_of (mw_plugins w) (KubeGemsNamespaceInstaller, name) of
        None \<Rightarrow> (w, if mv_fails env MDeletePlugin then DeleteFailed else Missing)
      | Some p \<Rightarrow>
          if mv_fails env MDeletePlugin then (w, DeleteFailed)
          else if pl_Finalizers p = []
          then (w\<lparr>mw_plugins := AList.delete (KubeGemsNamespaceInstaller, name) (mw_plugins w)\<rparr>, Deleted)
          else (w\<lparr>mw_plugins := AList.update (KubeGemsNamespaceInstaller, name) (p\<lparr>pl_Deleting := True\<rparr>) (mw_plugins w)\<rparr>, Deleted))"

definition FindUpgradeable :: "'v manager_env \<Rightarrow> plugin_version list \<Rightarrow> plugin_version \<Rightarrow> plugin_version option" where
  "FindUpgradeable env availables installed =
     find (\<lambda>available. SemVersionBiggerThan env (vn_Version available) (vn_Version installed) = 1) availables"

definition described :: "plugin_version \<Rightarrow> managed_plugin \<Rightarrow> managed_plugin" where
  "described pv p = p\<lparr>mp_Description := vn_Description pv, mp_MainCategory := vn_MainCategory pv, mp_Category := vn_Category pv,
     mp_Required := vn_Required pv, mp_Namespace := vn_Namespace pv\<rparr>"

definition blank_plugin :: "string \<Rightarrow> managed_plugin" where
  "blank_plugin name = \<lparr>mp_Name = name, mp_Namespace = [], mp_MainCategory = [], mp_Category = [], mp_Upgradeable = None,
     mp_Required = False, mp_Installed = None, mp_Available = [], mp_Description = []\<rparr>"

definition list_available ::
  "'v manager_env \<Rightarrow> (string, managed_plugin) gomap \<times> (string, plugin_version) gomap \<Rightarrow> string \<times> plugin_version list
    \<Rightarrow> (string, managed_plugin) gomap \<times> (string, plugin_version) gomap" where
  "list_available env acc e =
     (let (plugins, installversions) = acc; (name, available) = e in
      case available of
        [] \<Rightarrow> acc
      | first # _ \<Rightarrow>
          let p = (blank_plugin name)\<lparr>mp_Available := available\<rparr> in
          case map_of installversions name of
            Some installed \<Rightarrow>
              (AList.update name (described installed (p\<lparr>mp_Installed := Some installed,
                 mp_Upgradeable := FindUpgradeable env available installed\<rparr>)) plugins, AList.delete name installversions)
          | None \<Rightarrow> (AList.update name (described first p) plugins, installversions))"

definition ListPlugins :: "'v manager_env \<Rightarrow> manager_world \<Rightarrow> (string, managed_plugin) gomap option" where
  "ListPlugins env w =
     (case (ListInstalled env w, ListRemote env w) of
        (Some installversions, Some avaliableversions) \<Rightarrow>
          let (plugins, installversions) = foldl (list_available env) ([], installversions) avaliableversions
          in Some (foldl (\<lambda>m (name, installed). AList.update name
               (described installed ((blank_plugin name)\<lparr>mp_Installed := Some installed\<rparr>)) m) plugins installversions)
      | _ \<Rightarrow> None)"

definition CheckUpdate :: "'v manager_env \<Rightarrow> manager_world \<Rightarrow> manager_world \<times> (string, managed_plugin) gomap option" where
  "CheckUpdate env w =
     (case UpdateReposCache env w of
        (w, False) \<Rightarrow> (w, None)
      | (w, True) \<Rightarrow> (w, map_option (filter (\<lambda>(_, p). mp_Upgradeable p \<noteq> None)) (ListPlugins env w)))"

section \<open>Health\<close>

record workload =
  wl_Name :: string
  wl_Ready :: int
  wl_Wanted :: int

text \<open>The names of what is not ready. A resource is a deployment by any capitals, a stateful or daemon set in small letters.\<close>

definition matchAndCheck :: "(string \<Rightarrow> string \<Rightarrow> bool) \<Rightarrow> workload list \<Rightarrow> string \<Rightarrow> string list" where
  "matchAndCheck match list exp = map wl_Name (filter (\<lambda>item. match exp (wl_Name item) \<and> wl_Ready item \<noteq> wl_Wanted item) list)"

definition checkHealthItem ::
  "(string \<Rightarrow> string \<Rightarrow> bool) \<Rightarrow> (string \<Rightarrow> string \<Rightarrow> workload list) \<Rightarrow> string \<Rightarrow> string \<Rightarrow> string \<Rightarrow> string list" where
  "checkHealthItem match list resource namespace nameregexp =
     (if contains_str (to_lower resource) ''deployment'' then matchAndCheck match (list ''Deployment'' namespace) nameregexp
      else if contains_str resource ''statefulset'' then matchAndCheck match (list ''StatefulSet'' namespace) nameregexp
      else if contains_str resource ''daemonset'' then matchAndCheck match (list ''DaemonSet'' namespace) nameregexp
      else [])"

definition CheckHealthy ::
  "(string \<Rightarrow> string \<Rightarrow> bool) \<Rightarrow> (string \<Rightarrow> string \<Rightarrow> workload list) \<Rightarrow> (string list \<Rightarrow> string) \<Rightarrow> plugin_version \<Rightarrow> plugin_version" where
  "CheckHealthy match list show p =
     (if \<not> vn_Enabled p then p\<lparr>vn_Healthy := False\<rparr>
      else let msgs = concat (map (\<lambda>checkExpression.
                 (case split_on (CHR ''/'') checkExpression of
                    [resource, nameregexp] \<Rightarrow>
                      (let bad = checkHealthItem match list resource (vn_Namespace p) nameregexp in if bad = [] then [] else [show bad])
                  | _ \<Rightarrow> []))
               (split_on (CHR '','') (vn_HelathCheck p)))
           in if msgs \<noteq> [] then p\<lparr>vn_Message := join_with '','' msgs, vn_Healthy := False\<rparr> else p\<lparr>vn_Healthy := True\<rparr>)"

section \<open>Versions and plugins\<close>

lemma parse_format_bool [simp]: "parse_bool (format_bool b) = Some b"
  by (simp add: parse_bool_def format_bool_def)

lemmas annotation_keys = AnnotationCategory_def AnnotationPluginDescription_def AnnotationHealthCheck_def AnnotationRequired_def

text \<open>The annotations of a version, laid over any others.\<close>

lemma annotations_read:
  assumes "\<forall>k v. (k, v) \<in> set (pl_Annotations (ToPlugin pv)) \<longrightarrow> map_of anns k = Some v"
  shows "get_str anns AnnotationCategory = vn_MainCategory pv @ ''/'' @ vn_Category pv"
    "get_str anns AnnotationPluginDescription = vn_Description pv"
    "get_str anns AnnotationHealthCheck = vn_HelathCheck pv"
    "get_str anns AnnotationRequired = format_bool (vn_Required pv)"
  using assms by (simp_all add: get_str_def ToPlugin_def Let_def del: map_of_eq_Some_iff)

lemma category_read:
  assumes "CHR ''/'' \<notin> set main" "CHR ''/'' \<notin> set cate" "get_str anns AnnotationCategory = main @ ''/'' @ cate"
  shows "parseCategory anns = (main, cate)"
  using assms by (simp add: parseCategory_def split_on_append_sep split_on_single)

lemma PluginVersionFrom_ToPlugin:
  assumes "CHR ''/'' \<notin> set (vn_MainCategory pv)" "CHR ''/'' \<notin> set (vn_Category pv)"
    and "\<forall>k v. (k, v) \<in> set (pl_Annotations (ToPlugin pv)) \<longrightarrow> map_of anns k = Some v"
  shows "PluginVersionFrom (p\<lparr>pl_Annotations := anns, pl_Spec := pl_Spec (ToPlugin pv)\<rparr>) =
    pv\<lparr>vn_Name := pl_Name p, vn_Namespace := pl_Namespace p, vn_Enabled := \<not> pl_Deleting p,
      vn_Kind := (if vn_Kind pv = BundleKindOther [] then BundleKindTemplate else vn_Kind pv), vn_RepositoryName := [],
      vn_Healthy := pt_Phase (pl_Status p) = PhaseInstalled, vn_Requirements := [],
      vn_Message := (if pt_Phase (pl_Status p) = PhaseInstalled then [] else pt_Message (pl_Status p)), vn_Priority := 0\<rparr>"
  using category_read [OF assms(1,2), of anns] annotations_read [OF assms(3)]
  by (simp add: PluginVersionFrom_def ToPlugin_def Let_def)

lemma ToPlugin_annotations: "wf_map (pl_Annotations (ToPlugin pv))"
  by (simp add: ToPlugin_def Let_def annotation_keys)

lemma laid_over:
  assumes "wf_map b"
  shows "map_of (foldl (\<lambda>m (k, v). AList.update k v m) a b) k = (case map_of b k of None \<Rightarrow> map_of a k | Some v \<Rightarrow> Some v)"
  using assms
proof (induction b arbitrary: a)
  case (Cons e b)
  then have "map_of b (fst e) = None" by (auto simp: map_of_eq_None_iff)
  then show ?case using Cons by (cases e) (auto simp: update_conv' simp del: map_of_eq_Some_iff split: option.split)
qed simp

lemma gs_empty: "sort_slice lt [] = []"
  by (simp add: sort_slice_def)

lemma filter_none: "List.map_filter f xs = [] \<longleftrightarrow> (\<forall>x \<in> set xs. f x = None)"
  by (induction xs) (auto simp: List.map_filter_simps split: option.split)

section \<open>Properties\<close>


text \<open>All versions of a name that the repositories offer, with the priorities of their repositories.\<close>

definition offers :: "(string, repository) gomap \<Rightarrow> string \<Rightarrow> plugin_version list" where
  "offers repos name = concat (map (\<lambda>(_, repo). concat (map (\<lambda>(n, pvs).
     if n = name then map (\<lambda>pv. pv\<lparr>vn_Priority := rp_Priority repo\<rparr>) pvs else []) (rp_Plugins repo))) repos)"

lemma merge_named_at:
  "versions_of (merge_named prio m e) name =
    (if fst e = name then foldl merge_version (versions_of m name) (map (\<lambda>pv. pv\<lparr>vn_Priority := prio\<rparr>) (snd e)) else versions_of m name)"
  by (simp add: merge_named_def versions_of_def update_conv' foldl_map)

lemma merge_entries_at:
  "versions_of (foldl (merge_named prio) m es) name =
    foldl merge_version (versions_of m name) (concat (map (\<lambda>(n, pvs). if n = name then map (\<lambda>pv. pv\<lparr>vn_Priority := prio\<rparr>) pvs else []) es))"
  by (induction es arbitrary: m) (auto simp: merge_named_at)

lemma merge_repos_at:
  "versions_of (foldl (\<lambda>m (_, repo). foldl (merge_named (rp_Priority repo)) m (rp_Plugins repo)) m repos) name =
    foldl merge_version (versions_of m name) (offers repos name)"
  by (induction repos arbitrary: m) (auto simp: merge_entries_at offers_def)

text \<open>What merging keeps of a list of offers: for every version one of the best priority.\<close>

definition best_of :: "plugin_version list \<Rightarrow> (string, plugin_version) gomap \<Rightarrow> bool" where
  "best_of os vs \<longleftrightarrow> wf_map vs \<and> fst ` set vs = vn_Version ` set os \<and>
     (\<forall>(k, v) \<in> set vs. v \<in> set os \<and> vn_Version v = k \<and> (\<forall>u \<in> set os. vn_Version u = k \<longrightarrow> vn_Priority v \<le> vn_Priority u))"

lemma update_fresh: "k \<notin> fst ` set al \<Longrightarrow> AList.update k v al = al @ [(k, v)]"
  by (induction al) auto

lemma best_merge_version:
  assumes "best_of os vs"
  shows "best_of (os @ [pv]) (merge_version vs pv)"
proof -
  have wf: "wf_map vs" and dom: "fst ` set vs = vn_Version ` set os"
    and best: "\<And>k v. (k, v) \<in> set vs \<Longrightarrow> v \<in> set os \<and> vn_Version v = k
      \<and> (\<forall>u \<in> set os. vn_Version u = k \<longrightarrow> vn_Priority v \<le> vn_Priority u)"
    using assms by (auto simp: best_of_def)
  let ?k = "vn_Version pv"
  show ?thesis
  proof (cases "map_of vs ?k")
    case None
    then have new: "?k \<notin> vn_Version ` set os" using dom by (simp add: map_of_eq_None_iff)
    have "merge_version vs pv = AList.update ?k pv vs" unfolding merge_version_def None by simp
    then have "merge_version vs pv = vs @ [(?k, pv)]" using None update_fresh by (simp add: map_of_eq_None_iff)
    moreover have "\<forall>u \<in> set (os @ [pv]). vn_Version u = ?k \<longrightarrow> vn_Priority pv \<le> vn_Priority u"
    proof (intro ballI impI)
      fix u assume "u \<in> set (os @ [pv])" "vn_Version u = ?k"
      then show "vn_Priority pv \<le> vn_Priority u" using new imageI [of u "set os" vn_Version] by auto
    qed
    moreover have "v \<in> set (os @ [pv]) \<and> vn_Version v = k \<and> (\<forall>u \<in> set (os @ [pv]). vn_Version u = k \<longrightarrow> vn_Priority v \<le> vn_Priority u)"
      if "(k, v) \<in> set vs" for k v
      using best [OF that] new imageI [of v "set os" vn_Version] by auto
    ultimately show ?thesis using wf dom new unfolding best_of_def by auto
  next
    case (Some e)
    then have e: "(?k, e) \<in> set vs" by (rule map_of_SomeD)
    have old: "\<forall>u \<in> set os. vn_Version u = ?k \<longrightarrow> vn_Priority e \<le> vn_Priority u" and eos: "e \<in> set os" "vn_Version e = ?k"
      using best [OF e] by auto
    show ?thesis
    proof (cases "vn_Priority e > vn_Priority pv")
      case False
      have "v = e" if "(?k, v) \<in> set vs" for v using that e wf by (metis map_of_is_SomeI option.inject)
      moreover have "?k \<in> vn_Version ` set os" using eos imageI [of e "set os" vn_Version] by simp
      ultimately show ?thesis using Some False wf dom best eos
        by (auto simp: best_of_def merge_version_def simp del: map_of_eq_Some_iff)
    next
      case True
      have step: "merge_version vs pv = AList.update ?k pv vs" using Some True by (simp add: merge_version_def del: map_of_eq_Some_iff)
      have wf': "wf_map (AList.update ?k pv vs)" using wf by simp
      have keys: "fst ` set (AList.update ?k pv vs) = vn_Version ` set (os @ [pv])"
        using dom by (simp add: dom_update)
      have "v \<in> set (os @ [pv]) \<and> vn_Version v = k \<and> (\<forall>u \<in> set (os @ [pv]). vn_Version u = k \<longrightarrow> vn_Priority v \<le> vn_Priority u)"
        if "(k, v) \<in> set (AList.update ?k pv vs)" for k v
      proof -
        have "map_of (AList.update ?k pv vs) k = Some v" by (rule map_of_is_SomeI [OF wf' that])
        then show ?thesis
        proof (cases "k = ?k")
          case k: True
          then have "v = pv" using \<open>map_of (AList.update ?k pv vs) k = Some v\<close> by (simp add: update_conv')
          then show ?thesis using k old True by fastforce
        next
          case False
          then have "(k, v) \<in> set vs"
            using \<open>map_of (AList.update ?k pv vs) k = Some v\<close> by (auto simp: update_conv' dest: map_of_SomeD)
          then show ?thesis using best False by auto
        qed
      qed
      then show ?thesis unfolding step best_of_def using wf' keys by blast
    qed
  qed
qed

lemma best_merge: "best_of os (foldl merge_version [] os)"
  by (induction os rule: rev_induct) (simp add: best_of_def, simp add: best_merge_version)


lemma GetRemote_newest_first:
  assumes "strict_weak (\<lambda>(a :: plugin_version) (b :: plugin_version). SemVersionBiggerThan env (vn_Version b) (vn_Version a) < 0)"
  shows "sorted_wrt (\<lambda>a b. \<not> SemVersionBiggerThan env (vn_Version a) (vn_Version b) < 0) (GetRemote env name w)"
  using gs.srt_sorted [OF assms]
  by (auto simp: GetRemote_def ListRemote_def mergeAllrepoVersions_def Let_def map_of_map split: option.split)

lemma sorted_wrt_last:
  "sorted_wrt P xs \<Longrightarrow> x \<in> set xs \<Longrightarrow> x = last xs \<or> P x (last xs)"
  by (induction xs rule: rev_induct) (auto simp: sorted_wrt_append)

text \<open>The comparison that \<open>Get\<close> uses holds all versions without a leading \<open>v\<close> for equal, and the loop
  keeps one variable. So for an installed plugin whose versions are written without it, as charts' are, an
  upgrade is always reported, and it is the last version on offer: none that is offered is older.\<close>

theorem Get_upgrade_is_oldest:
  assumes "Get_plugin env name w = Some p" "mp_Installed p = Some v" "mp_Available p \<noteq> []"
    and "\<forall>a b. take 1 a \<noteq> ''v'' \<and> take 1 b \<noteq> ''v'' \<longrightarrow> mv_xcompare env a b = 0"
    and "take 1 (vn_Version v) \<noteq> ''v''" "\<forall>u \<in> set (mp_Available p). take 1 (vn_Version u) \<noteq> ''v''"
    and "strict_weak (\<lambda>(a :: plugin_version) (b :: plugin_version). SemVersionBiggerThan env (vn_Version b) (vn_Version a) < 0)"
  shows "\<exists>u. mp_Upgradeable p = Some u \<and> u = last (mp_Available p) \<and>
    (\<forall>r \<in> set (mp_Available p). r = u \<or> \<not> SemVersionBiggerThan env (vn_Version r) (vn_Version u) < 0)"
proof -
  have avail: "mp_Available p = GetRemote env name w" and inst: "GetInstalled env name w = Some v"
    and up: "mp_Upgradeable p = upgrade_version env (GetRemote env name w) v"
    using assms(1,2) by (auto simp: Get_plugin_def Let_def split: if_splits option.splits list.splits)
  obtain r rs where "GetRemote env name w = r # rs" using assms(3) avail by (cases "GetRemote env name w") auto
  then have "mp_Upgradeable p = Some (last (mp_Available p))"
    using assms(4-6) avail up by (simp add: upgrade_version_def)
  then show ?thesis
    using sorted_wrt_last [OF GetRemote_newest_first [OF assms(7), of name w]] avail by auto
qed

text \<open>A cluster with one repository of the team beside the built-in one.\<close>

fun digits_value :: "string \<Rightarrow> nat \<Rightarrow> nat" where
  "digits_value [] n = n"
| "digits_value (c # cs) n = digits_value cs (if c \<in> set ''0123456789'' then 10 * n + (of_char c - 48) else n)"

definition example_chart :: "string \<Rightarrow> chart_version" where
  "example_chart v = \<lparr>ch_Name = ''mon'', ch_Version = v, ch_Description = ''d'',
     ch_Annotations = [(AnnotationIsPlugin, ''true''), (AnnotationCategory, ''core/metrics'')]\<rparr>"

definition example_manager_env :: "nat manager_env" where
  "example_manager_env = \<lparr>mv_new = (\<lambda>s. Some (digits_value s 0)), mv_compare = (\<lambda>a b. sgn (int a - int b)),
     mv_constraint = (\<lambda>_. Some (\<lambda>v. v > 10)), mv_xcompare = (\<lambda>_ _. 0), mv_message = (\<lambda>_. []),
     mv_atoi = (\<lambda>s. if s = ''5'' then Some 5 else None), mv_parse_time = (\<lambda>_. None), mv_time_string = (\<lambda>_. ''t''),
     mv_index = (\<lambda>_. None), mv_builtin = Some [(''mon'', [example_chart ''1.0'', example_chart ''1.1''])], mv_now = 7,
     mv_codec = ex_codec, mv_fails = (\<lambda>_. False)\<rparr>"

definition example_repo :: "repo_secret" where
  "example_repo = \<lparr>se_plugins = [(''mon'', [PluginVersionFromRepoChartVersion
       \<lparr>rp_Name = ''team'', rp_Priority = 5, rp_Address = ''u'', rp_Static = False, rp_Plugins = [], rp_LastSync = None\<rparr>
       (example_chart ''1.1'')])], se_address = ''u'', se_lastSync = [], se_priority = ''5''\<rparr>"

definition example_manager_world :: manager_world where
  "example_manager_world = \<lparr>mw_plugins = [], mw_secrets = [(''team'', example_repo)]\<rparr>"

definition example_repos :: "(string, repository) gomap" where
  "example_repos = (case ListRepos example_manager_env example_manager_world of None \<Rightarrow> [] | Some repos \<Rightarrow> repos)"

lemma example_versions_ordered:
  "strict_weak (\<lambda>(a :: plugin_version) (b :: plugin_version).
     SemVersionBiggerThan example_manager_env (vn_Version b) (vn_Version a) < 0)"
proof -
  have "(\<lambda>(a :: plugin_version) (b :: plugin_version). SemVersionBiggerThan example_manager_env (vn_Version b) (vn_Version a) < 0) =
    (\<lambda>a b. - int (digits_value (vn_Version a) 0) < - int (digits_value (vn_Version b) 0))"
    by (intro ext) (simp add: SemVersionBiggerThan_def example_manager_env_def sgn_if)
  then show ?thesis by (simp only: strict_weak_score)
qed


definition example_installed_world :: manager_world where
  "example_installed_world = fst (Install example_manager_env ''mon'' ''1.1'' None example_manager_world)"


theorem Get_upgrade_is_oldest_witness:
  "\<exists>p u. Get_plugin example_manager_env ''mon'' example_installed_world = Some p \<and> mp_Upgradeable p = Some u
     \<and> u = last (mp_Available p) \<and> map_option vn_Version (mp_Installed p) = Some ''1.1'' \<and> vn_Version u = ''1.0''"
proof -
  let ?p = "the (Get_plugin example_manager_env ''mon'' example_installed_world)"
  let ?v = "the (mp_Installed ?p)"
  have p: "Get_plugin example_manager_env ''mon'' example_installed_world = Some ?p" by code_simp
  have v: "mp_Installed ?p = Some ?v" by code_simp
  have ne: "mp_Available ?p \<noteq> []" by code_simp
  have cmp: "\<forall>a b. take 1 a \<noteq> ''v'' \<and> take 1 b \<noteq> ''v'' \<longrightarrow> mv_xcompare example_manager_env a b = 0"
    by (simp add: example_manager_env_def)
  have plain: "take 1 (vn_Version ?v) \<noteq> ''v''" "\<forall>u \<in> set (mp_Available ?p). take 1 (vn_Version u) \<noteq> ''v''" by code_simp+
  have "map_option vn_Version (mp_Installed ?p) = Some ''1.1''" "vn_Version (last (mp_Available ?p)) = ''1.0''" by code_simp+
  then show ?thesis
    using Get_upgrade_is_oldest [OF p v ne cmp plain example_versions_ordered] p by blast
qed

end
