(* ===== verification/Msg_Switch.thy ===== *)
theory Msg_Switch
  imports Go_Prelude
begin

text \<open>
  The switch of the message bus (\<open>pkg/msgbus/switcher/switch.go\<close>, \<open>user.go\<close> and
  \<open>pkg/utils/msgbus/msg.go\<close>): the users that are connected, what each watches, and the delivery of a
  message to those it concerns.

  The slice of users is its backing array and its length, because the code shrinks it in place while a
  loop still ranges over it. Whether a write to a session succeeds is the parameter \<open>ok\<close>.
\<close>

section \<open>Messages and watches\<close>

datatype event_kind = EventAdd | EventUpdate | EventDelete

record involved_object =
  io_cluster :: string
  io_kind :: string
  io_namespaced_name :: string

record notify_message =
  EventKind :: event_kind
  InvolvedObject :: "involved_object option"

type_synonym current_watch = "(string, (string, string list) gomap) gomap"

record notify_user =
  UserID :: nat
  CurrentWatch :: current_watch
  SessionID :: string

definition star :: string where "star = ''*''"

definition NamespacedNameFrom :: "string \<Rightarrow> string \<Rightarrow> string" where
  "NamespacedNameFrom namespace name = namespace @ ''/'' @ name"

definition NamespacedNameSplit :: "string \<Rightarrow> string \<times> string" where
  "NamespacedNameSplit nm =
     (case split_on (CHR ''/'') nm of
        [] \<Rightarrow> ([], [])
      | [a] \<Rightarrow> ([], a)
      | a # b # _ \<Rightarrow> (a, b))"

fun watch_names :: "involved_object \<Rightarrow> string list \<Rightarrow> bool" where
  "watch_names object [] = False"
| "watch_names object (nm # nms) =
     (if nm = star then True
      else let (matchnamespace, matchname) = NamespacedNameSplit nm;
               (namespace, name) = NamespacedNameSplit (io_namespaced_name object)
           in if (matchnamespace = star \<or> matchnamespace = namespace) \<and> (matchname = star \<or> matchname = name)
              then True else watch_names object nms)"

fun watch_kinds :: "notify_message \<Rightarrow> involved_object \<Rightarrow> (string, string list) gomap \<Rightarrow> bool" where
  "watch_kinds msg object [] = False"
| "watch_kinds msg object ((kind, nms) # kinds) =
     (if kind = star \<or> kind = io_kind object
      then if EventKind msg = EventAdd then True
           else if watch_names object nms then True
           else watch_kinds msg object kinds
      else watch_kinds msg object kinds)"

fun watch_clusters :: "notify_message \<Rightarrow> involved_object \<Rightarrow> current_watch \<Rightarrow> bool" where
  "watch_clusters msg object [] = False"
| "watch_clusters msg object ((cluster, kinds) # rest) =
     (if cluster = star \<or> cluster = io_cluster object
      then if watch_kinds msg object kinds then True else watch_clusters msg object rest
      else watch_clusters msg object rest)"

definition IsWatchObject :: "notify_message \<Rightarrow> notify_user \<Rightarrow> bool" where
  "IsWatchObject msg nu =
     (case InvolvedObject msg of
        None \<Rightarrow> False
      | Some object \<Rightarrow>
          (if CurrentWatch nu = [] then False else watch_clusters msg object (CurrentWatch nu)))"

section \<open>The users\<close>

text \<open>A slice: the backing array, and how many of its elements it has.\<close>

type_synonym users = "notify_user list \<times> nat"

definition registered :: "users \<Rightarrow> notify_user list" where
  "registered us = take (snd us) (fst us)"

text \<open>\<open>append\<close> writes behind the last element, in place when there is room.\<close>

definition RegistUser :: "notify_user \<Rightarrow> users \<Rightarrow> users" where
  "RegistUser user us =
     (let (arr, n) = us in
      if n < length arr then (arr[n := user], n + 1) else (take n arr @ [user], n + 1))"

function compact :: "string \<Rightarrow> nat \<Rightarrow> nat \<Rightarrow> nat \<Rightarrow> notify_user list \<Rightarrow> users" where
  "compact session n idx index arr =
     (if idx < n
      then if SessionID (arr ! idx) \<noteq> session
           then compact session n (idx + 1) (index + 1) (arr[index := arr ! idx])
           else compact session n (idx + 1) index arr
      else (arr, index))"
  by pat_completeness auto
termination by (relation "measure (\<lambda>(_, n, idx, _). n - idx)") auto

declare compact.simps [simp del]

definition DeRegistUser :: "notify_user \<Rightarrow> users \<Rightarrow> users" where
  "DeRegistUser user us = compact (SessionID user) (snd us) 0 0 (fst us)"

text \<open>The sessions a message was written to, in order.\<close>

definition Send :: "(string \<Rightarrow> bool) \<Rightarrow> notify_user \<Rightarrow> users \<times> string list \<Rightarrow> users \<times> string list" where
  "Send ok user st =
     (if \<not> ok (SessionID user) then (DeRegistUser user (fst st), snd st)
      else (fst st, snd st @ [SessionID user]))"

text \<open>\<open>for _, u := range ms.Users\<close>: the length is that at the start, the elements are read when their turn comes.\<close>

function range_users ::
  "(notify_user \<Rightarrow> bool) \<Rightarrow> (string \<Rightarrow> bool) \<Rightarrow> nat \<Rightarrow> nat \<Rightarrow> users \<times> string list \<Rightarrow> users \<times> string list" where
  "range_users want ok n idx st =
     (if idx < n
      then let u = fst (fst st) ! idx
           in range_users want ok n (idx + 1) (if want u then Send ok u st else st)
      else st)"
  by pat_completeness auto
termination by (relation "measure (\<lambda>(_, _, n, idx, _). n - idx)") auto

declare range_users.simps [simp del]

definition DispatchChanged :: "(string \<Rightarrow> bool) \<Rightarrow> notify_message \<Rightarrow> users \<Rightarrow> users \<times> string list" where
  "DispatchChanged ok msg us = range_users (IsWatchObject msg) ok (snd us) 0 (us, [])"

definition SendMessageToUser :: "(string \<Rightarrow> bool) \<Rightarrow> nat \<Rightarrow> users \<Rightarrow> users \<times> string list" where
  "SendMessageToUser ok userid us = range_users (\<lambda>u. UserID u = userid) ok (snd us) 0 (us, [])"

section \<open>Watching\<close>

definition name_matches :: "involved_object \<Rightarrow> string \<Rightarrow> bool" where
  "name_matches object nm \<longleftrightarrow> nm = star \<or>
     (fst (NamespacedNameSplit nm) \<in> {star, fst (NamespacedNameSplit (io_namespaced_name object))} \<and>
      snd (NamespacedNameSplit nm) \<in> {star, snd (NamespacedNameSplit (io_namespaced_name object))})"

lemma watch_names_iff: "watch_names object nms \<longleftrightarrow> (\<exists>nm \<in> set nms. name_matches object nm)"
  by (induction nms) (auto simp: name_matches_def case_prod_unfold Let_def)

lemma watch_kinds_iff:
  "watch_kinds msg object kinds \<longleftrightarrow>
    (\<exists>(kind, nms) \<in> set kinds. kind \<in> {star, io_kind object} \<and>
       (EventKind msg = EventAdd \<or> (\<exists>nm \<in> set nms. name_matches object nm)))"
  by (induction kinds) (auto simp: watch_names_iff split: if_splits)

lemma IsWatchObject_iff:
  "IsWatchObject msg nu \<longleftrightarrow>
    (\<exists>object. InvolvedObject msg = Some object \<and>
      (\<exists>(cluster, kinds) \<in> set (CurrentWatch nu). cluster \<in> {star, io_cluster object} \<and>
        (\<exists>(kind, nms) \<in> set kinds. kind \<in> {star, io_kind object} \<and>
          (EventKind msg = EventAdd \<or> (\<exists>nm \<in> set nms. name_matches object nm)))))"
proof -
  have "watch_clusters msg object w \<longleftrightarrow>
      (\<exists>(cluster, kinds) \<in> set w. cluster \<in> {star, io_cluster object} \<and> watch_kinds msg object kinds)" for object w
    by (induction w) (auto split: if_splits)
  then show ?thesis
    by (cases "InvolvedObject msg") (auto simp: IsWatchObject_def watch_kinds_iff)
qed

lemma NamespacedNameSplit_From:
  assumes "CHR ''/'' \<notin> set ns" and "CHR ''/'' \<notin> set n"
  shows "NamespacedNameSplit (NamespacedNameFrom ns n) = (ns, n)"
  using assms split_on_append_sep [of "CHR ''/''" ns n]
  by (simp add: NamespacedNameSplit_def NamespacedNameFrom_def split_on_single)

section \<open>Shrinking in place\<close>

lemma compact_result:
  assumes "index \<le> idx" and "idx \<le> n" and "n \<le> length arr"
  shows "compact s n idx index arr =
    (let kept = filter (\<lambda>u. SessionID u \<noteq> s) (take (n - idx) (drop idx arr))
     in (take index arr @ kept @ drop (index + length kept) arr, index + length kept))"
  using assms
proof (induction s n idx index arr rule: compact.induct)
  case (1 s n idx index arr)
  show ?case
  proof (cases "idx < n")
    case True
    then have seg: "take (n - idx) (drop idx arr) = arr ! idx # take (n - Suc idx) (drop (Suc idx) arr)"
      using "1.prems" by (metis Cons_nth_drop_Suc Suc_diff_Suc order_less_le_trans take_Suc_Cons)
    show ?thesis
    proof (cases "SessionID (arr ! idx) = s")
      case True
      then show ?thesis using "1.IH"(2) "1.prems" \<open>idx < n\<close> seg by (simp add: compact.simps [of s n idx index arr])
    next
      case False
      let ?arr = "arr[index := arr ! idx]"
      have d: "drop (Suc idx) ?arr = drop (Suc idx) arr" using "1.prems" \<open>idx < n\<close> by simp
      have t: "take (Suc index) ?arr = take index arr @ [arr ! idx]"
        using "1.prems" \<open>idx < n\<close> by (simp add: take_Suc_conv_app_nth)
      have e: "drop (Suc (index + k)) ?arr = drop (Suc (index + k)) arr" for k by simp
      show ?thesis using "1.IH"(1) "1.prems" \<open>idx < n\<close> False seg
        by (simp add: compact.simps [of s n idx index arr] d t e Let_def)
    qed
  next
    case False
    then have "idx = n" using "1.prems" by simp
    then show ?thesis by (simp add: compact.simps [of s n n index arr])
  qed
qed

lemma DeRegistUser_result:
  assumes "n \<le> length arr"
  shows "DeRegistUser u (arr, n) =
    (let kept = filter (\<lambda>v. SessionID v \<noteq> SessionID u) (take n arr) in (kept @ drop (length kept) arr, length kept))"
  using compact_result [of 0 0 n arr "SessionID u"] assms by (simp add: DeRegistUser_def)

lemma registered_DeRegist:
  assumes "n \<le> length arr"
  shows "registered (DeRegistUser u (arr, n)) = filter (\<lambda>v. SessionID v \<noteq> SessionID u) (registered (arr, n))"
  using assms by (simp add: DeRegistUser_result registered_def Let_def)

lemma registered_Regist:
  "snd us \<le> length (fst us) \<Longrightarrow> registered (RegistUser u us) = registered us @ [u]"
  by (cases us) (auto simp: RegistUser_def registered_def take_Suc_conv_app_nth)

section \<open>Delivery\<close>

text \<open>A stretch of the slice where every write succeeds.\<close>

lemma range_users_ok:
  assumes "i \<le> m" and "m \<le> n" and "m \<le> length (fst us)"
    and "\<And>j. i \<le> j \<Longrightarrow> j < m \<Longrightarrow> want (fst us ! j) \<Longrightarrow> ok (SessionID (fst us ! j))"
  shows "range_users want ok n i (us, sent) =
    range_users want ok n m (us, sent @ map SessionID (filter want (drop i (take m (fst us)))))"
  using assms
proof (induction "m - i" arbitrary: i sent)
  case (Suc k)
  then have i: "i < m" by simp
  have d: "drop i (take m (fst us)) = fst us ! i # drop (Suc i) (take m (fst us))"
    using i Suc.prems(3) by (metis Cons_nth_drop_Suc length_take min.absorb2 nth_take)
  have "range_users want ok n i (us, sent) = range_users want ok n (Suc i)
      (us, sent @ (if want (fst us ! i) then [SessionID (fst us ! i)] else []))"
    using i Suc.prems by (simp add: range_users.simps [of want ok n i] Send_def)
  also have "\<dots> = range_users want ok n m (us, (sent @ (if want (fst us ! i) then [SessionID (fst us ! i)] else []))
      @ map SessionID (filter want (drop (Suc i) (take m (fst us)))))"
    using Suc by (intro Suc.hyps(1)) auto
  finally show ?case by (simp add: d)
qed simp

lemma range_users_all_ok:
  assumes "i \<le> n" and "n \<le> length (fst us)"
    and "\<And>j. i \<le> j \<Longrightarrow> j < n \<Longrightarrow> want (fst us ! j) \<Longrightarrow> ok (SessionID (fst us ! j))"
  shows "range_users want ok n i (us, sent) = (us, sent @ map SessionID (filter want (drop i (take n (fst us)))))"
  using range_users_ok [of i n n us want ok sent] assms by (simp add: range_users.simps [of want ok n n])

definition wf_users :: "users \<Rightarrow> bool" where
  "wf_users us \<longleftrightarrow> snd us \<le> length (fst us) \<and> distinct (map SessionID (registered us))"

lemma DeRegist_wf:
  assumes "wf_users us"
  shows "wf_users (DeRegistUser u us)"
    and "registered (DeRegistUser u us) = filter (\<lambda>v. SessionID v \<noteq> SessionID u) (registered us)"
    and "set (take k (fst (DeRegistUser u us))) \<subseteq> set (fst us)"
    and "length (fst (DeRegistUser u us)) = length (fst us)"
proof -
  obtain arr n where us: "us = (arr, n)" by (cases us)
  have n: "n \<le> length arr" using assms us by (simp add: wf_users_def)
  let ?kept = "filter (\<lambda>v. SessionID v \<noteq> SessionID u) (take n arr)"
  have len: "length ?kept \<le> n" using length_filter_le [of _ "take n arr"] n by simp
  have r: "DeRegistUser u us = (?kept @ drop (length ?kept) arr, length ?kept)"
    using DeRegistUser_result [OF n] us by (simp add: Let_def)
  show reg: "registered (DeRegistUser u us) = filter (\<lambda>v. SessionID v \<noteq> SessionID u) (registered us)"
    using registered_DeRegist [OF n] us by simp
  show "length (fst (DeRegistUser u us)) = length (fst us)" unfolding r using len n us by simp
  show "wf_users (DeRegistUser u us)"
    using assms len n unfolding wf_users_def reg r by (simp add: us registered_def distinct_map_filter)
  show "set (take k (fst (DeRegistUser u us))) \<subseteq> set (fst us)"
  proof -
    have "set (?kept @ drop (length ?kept) arr) \<subseteq> set arr" by (auto dest: in_set_takeD in_set_dropD)
    then show ?thesis unfolding r [unfolded us] us fst_conv by (rule subset_trans [OF set_take_subset])
  qed
qed

text \<open>
  Whatever fails: only sessions that want the message get it, and only sessions whose write failed are
  taken off.
\<close>

lemma range_users_safe:
  assumes "wf_users us" and "n \<le> length (fst us)" and "set (fst us) \<subseteq> U"
  shows "let (us', sent') = range_users want ok n i (us, sent) in
    wf_users us' \<and> set sent' \<subseteq> set sent \<union> {SessionID u | u. u \<in> U \<and> want u \<and> ok (SessionID u)} \<and>
    filter (\<lambda>u. ok (SessionID u)) (registered us') = filter (\<lambda>u. ok (SessionID u)) (registered us) \<and>
    set (registered us') \<subseteq> set (registered us)"
  using assms
proof (induction "n - i" arbitrary: i us sent)
  case 0
  then show ?case by (simp add: range_users.simps [of want ok n i])
next
  case (Suc k)
  let ?u = "fst us ! i"
  have i: "i < n" and k: "k = n - Suc i" using Suc.hyps(2) by simp_all
  note IH = Suc.hyps(1) [OF k]
  have u: "?u \<in> U" using i Suc.prems by (meson nth_mem order_less_le_trans subsetD)
  show ?case
  proof (cases "want ?u \<and> \<not> ok (SessionID ?u)")
    case True
    have "range_users want ok n i (us, sent) = range_users want ok n (Suc i) (DeRegistUser ?u us, sent)"
      using i True by (simp add: range_users.simps [of want ok n i] Send_def)
    moreover have "filter (\<lambda>v. ok (SessionID v)) (filter (\<lambda>v. SessionID v \<noteq> SessionID ?u) xs) = filter (\<lambda>v. ok (SessionID v)) xs" for xs
      using True by (induction xs) auto
    moreover have "set (fst (DeRegistUser ?u us)) \<subseteq> U"
      using DeRegist_wf(3) [OF Suc.prems(1), of "length (fst us)"] DeRegist_wf(4) [OF Suc.prems(1)] Suc.prems(3)
      by (metis order_refl subset_trans take_all)
    ultimately show ?thesis
      using IH [of "DeRegistUser ?u us" sent] Suc.prems
      by (auto simp: DeRegist_wf case_prod_unfold Let_def)
  next
    case False
    have "range_users want ok n i (us, sent) =
        range_users want ok n (Suc i) (us, sent @ (if want ?u then [SessionID ?u] else []))"
      using i False by (simp add: range_users.simps [of want ok n i] Send_def)
    then show ?thesis
      using IH [of us "sent @ (if want ?u then [SessionID ?u] else [])"] Suc.prems u False
      by (auto simp: case_prod_unfold Let_def split: if_splits)
  qed
qed

text \<open>
  The first failure leaves, behind the users that moved up, the last one a second time in the backing
  array, where the loop still looks.
\<close>

lemma one_failure_slice:
  assumes "n = length (xs @ y # ys)" and "arr = xs @ y # ys @ rest"
    and "distinct (map SessionID (xs @ y # ys))"
  shows "DeRegistUser y (arr, n) = (xs @ ys @ [last (y # ys)] @ rest, n - 1)"
proof -
  have "\<forall>v \<in> set (xs @ ys). SessionID v \<noteq> SessionID y" using assms(3) by (auto simp: image_iff)
  then have kept: "filter (\<lambda>v. SessionID v \<noteq> SessionID y) (take n arr) = xs @ ys"
    using assms(1,2) by (simp add: filter_id_conv)
  have "drop (length (xs @ ys)) arr = last (y # ys) # rest"
    using assms(2) by (cases ys rule: rev_cases) simp_all
  moreover have "n \<le> length arr" using assms(1,2) by simp
  ultimately show ?thesis
    using DeRegistUser_result [of n arr y] assms(1) unfolding kept Let_def by simp
qed

lemma delivery_one_failure:
  assumes wf: "wf_users us" and r: "registered us = xs @ y # ys"
    and bad: "want y" "\<not> ok (SessionID y)"
    and good: "\<And>v. v \<in> set xs \<union> set ys \<Longrightarrow> want v \<Longrightarrow> ok (SessionID v)"
  shows "snd (range_users want ok (snd us) 0 (us, [])) =
    map SessionID (filter want (xs @ (if ys = [] then [] else tl ys @ [last ys])))"
proof -
  obtain arr n where us: "us = (arr, n)" by (cases us)
  define rest where "rest = drop n arr"
  have n: "n = length (xs @ y # ys)" and arr: "arr = xs @ y # ys @ rest"
    and dis: "distinct (map SessionID (xs @ y # ys))"
  proof -
    have t: "take n arr = xs @ y # ys" and "n \<le> length arr" and d: "distinct (map SessionID (take n arr))"
      using wf r us by (simp_all add: wf_users_def registered_def)
    then show "n = length (xs @ y # ys)" by (metis length_take min.absorb2)
    show "arr = xs @ y # ys @ rest" using append_take_drop_id [of n arr] t by (simp add: rest_def)
    show "distinct (map SessionID (xs @ y # ys))" using d t by simp
  qed
  let ?i = "length xs"
  let ?b = "xs @ ys @ [last (y # ys)] @ rest"
  have pre: "range_users want ok n 0 (us, []) = range_users want ok n ?i (us, map SessionID (filter want xs))"
    using range_users_ok [of 0 ?i n us want ok "[]"] n arr us good by (simp add: nth_append)
  have step: "range_users want ok n ?i (us, sent) = range_users want ok n (Suc ?i) ((?b, n - 1), sent)" for sent
    using one_failure_slice [OF n arr dis] bad n us arr
    by (subst range_users.simps) (simp add: Send_def nth_append)
  have seg: "drop (Suc ?i) (take n ?b) = (if ys = [] then [] else tl ys @ [last ys])"
    using n by (cases ys) simp_all
  have "ok (SessionID (?b ! j))" if j: "Suc ?i \<le> j" "j < n" and w: "want (?b ! j)" for j
  proof -
    have "l ! j = drop (Suc ?i) (take n l) ! (j - Suc ?i)" if "n \<le> length l" for l :: "notify_user list"
      using j that by simp
    moreover have "n \<le> length ?b" using n by simp
    ultimately have "?b ! j = drop (Suc ?i) (take n ?b) ! (j - Suc ?i)" by blast
    moreover have "j - Suc ?i < length (drop (Suc ?i) (take n ?b))" using j n by simp
    ultimately have "?b ! j \<in> set (drop (Suc ?i) (take n ?b))" by (metis nth_mem)
    then have "?b ! j \<in> set ys" unfolding seg by (cases ys) (auto split: if_splits)
    then show ?thesis using good w by blast
  qed
  then have "range_users want ok n (Suc ?i) ((?b, n - 1), sent) =
      ((?b, n - 1), sent @ map SessionID (filter want (if ys = [] then [] else tl ys @ [last ys])))" for sent
    using range_users_all_ok [of "Suc ?i" n "(?b, n - 1)" want ok sent] n unfolding fst_conv seg by simp
  then show ?thesis using pre step us by simp
qed

text \<open>C16: A message about an object goes only to sessions that watch it, and only sessions whose write
  failed are taken off, whatever fails. When every write succeeds, every user that watches the object
  gets it once, in the order of registration. But when the write to one user fails, the users behind it
  move up in the slice the loop is ranging over: the next user is passed over, and the last one gets
  the message twice.\<close>

theorem DispatchChanged_delivers:
  assumes "wf_users us"
  shows "(let (us', sent) = DispatchChanged ok msg us in
            (\<forall>s \<in> set sent. ok s \<and> (\<exists>u \<in> set (fst us). SessionID u = s \<and> IsWatchObject msg u)) \<and>
            filter (\<lambda>u. ok (SessionID u)) (registered us') = filter (\<lambda>u. ok (SessionID u)) (registered us) \<and>
            set (registered us') \<subseteq> set (registered us)) \<and>
         ((\<forall>u \<in> set (registered us). IsWatchObject msg u \<longrightarrow> ok (SessionID u)) \<longrightarrow>
            DispatchChanged ok msg us = (us, map SessionID (filter (IsWatchObject msg) (registered us)))) \<and>
         (\<forall>xs y z zs. registered us = xs @ y # z # zs \<longrightarrow> IsWatchObject msg y \<longrightarrow> \<not> ok (SessionID y) \<longrightarrow>
            (\<forall>u \<in> set xs \<union> set (z # zs). IsWatchObject msg u \<longrightarrow> ok (SessionID u)) \<longrightarrow>
            snd (DispatchChanged ok msg us) = map SessionID (filter (IsWatchObject msg) (xs @ zs @ [last (z # zs)])))"
proof (intro conjI allI impI)
  have n: "snd us \<le> length (fst us)" using assms by (simp add: wf_users_def)
  show "let (us', sent) = DispatchChanged ok msg us in
      (\<forall>s \<in> set sent. ok s \<and> (\<exists>u \<in> set (fst us). SessionID u = s \<and> IsWatchObject msg u)) \<and>
      filter (\<lambda>u. ok (SessionID u)) (registered us') = filter (\<lambda>u. ok (SessionID u)) (registered us) \<and>
      set (registered us') \<subseteq> set (registered us)"
    using range_users_safe [OF assms n order_refl, of "IsWatchObject msg" ok 0 "[]"]
    by (fastforce simp: DispatchChanged_def case_prod_unfold Let_def)
  show "DispatchChanged ok msg us = (us, map SessionID (filter (IsWatchObject msg) (registered us)))"
    if all: "\<forall>u \<in> set (registered us). IsWatchObject msg u \<longrightarrow> ok (SessionID u)"
  proof -
    have "ok (SessionID (fst us ! j))" if j: "j < snd us" "IsWatchObject msg (fst us ! j)" for j
    proof -
      have "fst us ! j \<in> set (registered us)"
        using j n by (auto simp: registered_def in_set_conv_nth)
      then show ?thesis using all j(2) by blast
    qed
    then show ?thesis
      using range_users_all_ok [of 0 "snd us" us "IsWatchObject msg" ok "[]"] n
      by (simp add: DispatchChanged_def registered_def)
  qed
  show "snd (DispatchChanged ok msg us) = map SessionID (filter (IsWatchObject msg) (xs @ zs @ [last (z # zs)]))"
    if "registered us = xs @ y # z # zs" "IsWatchObject msg y" "\<not> ok (SessionID y)"
      "\<forall>u \<in> set xs \<union> set (z # zs). IsWatchObject msg u \<longrightarrow> ok (SessionID u)" for xs y z zs
    using delivery_one_failure [OF assms that(1), of "IsWatchObject msg" ok] that(2-4) by (simp add: DispatchChanged_def)
qed

definition ex_user :: "string \<Rightarrow> notify_user" where
  "ex_user s = \<lparr>UserID = 1, CurrentWatch = [(star, [(star, [star])])], SessionID = s\<rparr>"

definition ex_users :: users where
  "ex_users = (map ex_user [''a'', ''b'', ''c'', ''d''], 4)"

definition ex_message :: notify_message where
  "ex_message = \<lparr>EventKind = EventUpdate, InvolvedObject = Some \<lparr>io_cluster = ''k'', io_kind = ''Pod'', io_namespaced_name = ''n/p''\<rparr>\<rparr>"

lemma ex_watches: "IsWatchObject ex_message (ex_user s)"
  by (simp add: IsWatchObject_def ex_message_def ex_user_def)

text \<open>Of four users the second is gone: the third gets nothing, the fourth two messages.\<close>

theorem DispatchChanged_delivers_witness:
  "snd (DispatchChanged (\<lambda>s. s \<noteq> ''b'') ex_message ex_users) = [''a'', ''d'', ''d'']"
proof -
  have wf: "wf_users ex_users"
    by (simp add: wf_users_def registered_def ex_users_def ex_user_def)
  have reg: "registered ex_users = [ex_user ''a''] @ ex_user ''b'' # ex_user ''c'' # [ex_user ''d'']"
    by (simp add: registered_def ex_users_def)
  have s: "SessionID (ex_user s) = s" for s by (simp add: ex_user_def)
  have "snd (DispatchChanged (\<lambda>s. s \<noteq> ''b'') ex_message ex_users) =
      map SessionID (filter (IsWatchObject ex_message) ([ex_user ''a''] @ [ex_user ''d''] @ [last (ex_user ''c'' # [ex_user ''d''])]))"
    by (rule DispatchChanged_delivers [OF wf, THEN conjunct2, THEN conjunct2, rule_format, OF reg])
       (auto simp: ex_watches s)
  then show ?thesis by (simp add: ex_watches s)
qed

end
