(* ===== verification/Route_Section.thy ===== *)
theory Route_Section
  imports Go_Prelude
begin

text \<open>
  The patterns of one path section, package \<open>pkg/utils/route\<close>, files \<open>path.go\<close> and
  \<open>section.go\<close>: splitting a path into its tokens, compiling a token of a pattern into
  elements, and matching a compiled section against the tokens of a request.

  The lemmas show that the tokens are exactly the path, that compiling loses nothing (the
  elements render back to the pattern), that the compiled elements have a normal form, and
  that what a match binds to the variables spells the section that was matched.
\<close>

section \<open>Elements\<close>

datatype element_kind = KNone | KConst | KVariable | KStar | KSplit

datatype element = Element (ekind: element_kind) (eparam: string)

abbreviation Const :: "string \<Rightarrow> element" where
  "Const s \<equiv> Element KConst s"

abbreviation Variable :: "string \<Rightarrow> element" where
  "Variable s \<equiv> Element KVariable s"

abbreviation Star :: element where
  "Star \<equiv> Element KStar []"

abbreviation Split :: element where
  "Split \<equiv> Element KSplit []"

text \<open>The errors of the package; \<open>IndexPanic\<close> is Go's panic on an index out of range.\<close>

datatype route_error =
    CompileError string nat char
  | IndexPanic
  | PatternConflict string string

section \<open>Tokens of a path\<close>

text \<open>\<open>cur\<close> is \<open>path[pos:i]\<close>, the characters since the last cut.\<close>

fun path_tokens_loop :: "string \<Rightarrow> string \<Rightarrow> string list" where
  "path_tokens_loop cur [] = (if cur = [] then [] else [cur])"
| "path_tokens_loop cur (c # cs) =
     (if c = CHR ''/''
      then (if cur = [] then [] else [cur]) @ [''/''] @ path_tokens_loop [] cs
      else path_tokens_loop (cur @ [c]) cs)"

definition ParsePathTokens :: "string \<Rightarrow> string list" where
  "ParsePathTokens path = path_tokens_loop [] path"

definition token_ok :: "string \<Rightarrow> bool" where
  "token_ok t \<longleftrightarrow> t = ''/'' \<or> t \<noteq> [] \<and> CHR ''/'' \<notin> set t"

fun no_adjacent_words :: "string list \<Rightarrow> bool" where
  "no_adjacent_words (s # t # ts) \<longleftrightarrow> (s = ''/'' \<or> t = ''/'') \<and> no_adjacent_words (t # ts)"
| "no_adjacent_words _ \<longleftrightarrow> True"

definition tokens_ok :: "string list \<Rightarrow> bool" where
  "tokens_ok ts \<longleftrightarrow> list_all token_ok ts \<and> no_adjacent_words ts"

lemma concat_path_tokens_loop: "concat (path_tokens_loop cur s) = cur @ s"
  by (induction cur s rule: path_tokens_loop.induct) auto

lemma no_adjacent_slash: "no_adjacent_words ts \<Longrightarrow> no_adjacent_words (''/'' # ts)"
  by (cases ts) auto

lemma tokens_ok_loop: "CHR ''/'' \<notin> set cur \<Longrightarrow> tokens_ok (path_tokens_loop cur s)"
  by (induction cur s rule: path_tokens_loop.induct)
     (auto simp: tokens_ok_def token_ok_def no_adjacent_slash)

lemma path_tokens_loop_word:
  "CHR ''/'' \<notin> set w \<Longrightarrow> path_tokens_loop cur (w @ s) = path_tokens_loop (cur @ w) s"
  by (induction w arbitrary: cur) auto

lemma path_tokens_loop_concat: "tokens_ok ts \<Longrightarrow> path_tokens_loop [] (concat ts) = ts"
proof (induction ts rule: induct_list012)
  case (2 t)
  then show ?case
    using path_tokens_loop_word [of t "[]" "[]"] by (auto simp: tokens_ok_def token_ok_def)
next
  case (3 t u us)
  from "3.prems" have rest: "tokens_ok (u # us)"
    by (simp add: tokens_ok_def)
  note IH = "3.IH"(2) [OF rest]
  show ?case
  proof (cases "t = ''/''")
    case True
    with IH show ?thesis by simp
  next
    case False
    then have "u = ''/''" "CHR ''/'' \<notin> set t" "t \<noteq> []"
      using "3.prems" by (auto simp: tokens_ok_def token_ok_def)
    with IH show ?thesis by (simp add: path_tokens_loop_word)
  qed
qed (simp add: tokens_ok_def)

lemma ParsePathTokens_concat: "concat (ParsePathTokens p) = p"
  by (simp add: ParsePathTokens_def concat_path_tokens_loop)

lemma ParsePathTokens_ok: "tokens_ok (ParsePathTokens p)"
  by (simp add: ParsePathTokens_def tokens_ok_loop)

lemma ParsePathTokens_of_concat: "tokens_ok ts \<Longrightarrow> ParsePathTokens (concat ts) = ts"
  by (simp add: ParsePathTokens_def path_tokens_loop_concat)

section \<open>Compiling a section\<close>

text \<open>
  The loop over the runes of the pattern. \<open>seg\<close> is \<open>pattern[pos:i]\<close>; the braces are
  ASCII, so a rune of several bytes takes the default branch byte by byte.
\<close>

fun compile_loop ::
    "element list \<Rightarrow> element_kind \<Rightarrow> string \<Rightarrow> string \<Rightarrow> element list \<times> element_kind \<times> string" where
  "compile_loop elems k seg [] = (elems, k, seg)"
| "compile_loop elems k seg (c # cs) =
     (if c = CHR ''{'' \<and> k \<noteq> KVariable
      then compile_loop (if k = KConst then elems @ [Const seg] else elems) KVariable [] cs
      else if c = CHR ''}'' \<and> k = KVariable
      then compile_loop (elems @ [Variable seg]) KNone [] cs
      else if k = KVariable \<or> k = KConst then compile_loop elems k (seg @ [c]) cs
      else compile_loop elems KConst [c] cs)"

definition CompileSection :: "string \<Rightarrow> route_error + element list" where
  "CompileSection pattern0 =
     (if pattern0 = [] then Inl IndexPanic
      else
        let hasStarSuffix = (last pattern0 = CHR ''*'');
            pattern = (if hasStarSuffix then butlast pattern0 else pattern0);
            (elems, currentKind, seg) = compile_loop [] KNone [] pattern;
            star = (if hasStarSuffix then [Star] else [])
        in case currentKind of
             KConst \<Rightarrow> Inr (elems @ [Const seg] @ star)
           | KVariable \<Rightarrow> Inl (CompileError pattern (length pattern) (last pattern))
           | _ \<Rightarrow> Inr (elems @ star))"

fun compile_tokens :: "string list \<Rightarrow> route_error + element list list" where
  "compile_tokens [] = Inr []"
| "compile_tokens (t # ts) =
     (if t = ''/''
      then (case compile_tokens ts of Inl e \<Rightarrow> Inl e | Inr ss \<Rightarrow> Inr ([Split] # ss))
      else case CompileSection t of
             Inl e \<Rightarrow> Inl e
           | Inr compiled \<Rightarrow>
               (case compile_tokens ts of Inl e \<Rightarrow> Inl e | Inr ss \<Rightarrow> Inr (compiled # ss)))"

definition CompilePathPattern :: "string \<Rightarrow> route_error + element list list" where
  "CompilePathPattern pattern = compile_tokens (ParsePathTokens pattern)"

text \<open>The text an element stands for in a pattern.\<close>

fun render :: "element \<Rightarrow> string" where
  "render (Element KConst s) = s"
| "render (Element KVariable v) = ''{'' @ v @ ''}''"
| "render (Element KStar _) = ''*''"
| "render (Element KSplit _) = ''/''"
| "render (Element KNone _) = []"

definition render_all :: "element list \<Rightarrow> string" where
  "render_all es = concat (map render es)"

lemma render_all_simps [simp]:
  "render_all [] = []"
  "render_all (e # es) = render e @ render_all es"
  "render_all (es @ fs) = render_all es @ render_all fs"
  by (simp_all add: render_all_def)

text \<open>The part of the pattern the loop still holds in its state.\<close>

fun pending :: "element_kind \<Rightarrow> string \<Rightarrow> string" where
  "pending KConst seg = seg"
| "pending KVariable seg = CHR ''{'' # seg"
| "pending _ seg = []"

lemma compile_loop_render:
  "compile_loop elems k seg s = (elems', k', seg') \<Longrightarrow> k \<in> {KNone, KConst, KVariable} \<Longrightarrow>
   render_all elems' @ pending k' seg' = render_all elems @ pending k seg @ s"
  by (induction elems k seg s rule: compile_loop.induct) (auto split: if_splits)

lemma compile_loop_kind:
  "compile_loop elems k seg s = (elems', k', seg') \<Longrightarrow> k \<in> {KNone, KConst, KVariable} \<Longrightarrow>
   k' \<in> {KNone, KConst, KVariable}"
  by (induction elems k seg s rule: compile_loop.induct) (auto split: if_splits)

lemma CompileSection_Inr_cases:
  assumes "CompileSection p = Inr es"
  obtains q star elems k seg where "p \<noteq> []" "p = q @ render_all star"
    "compile_loop [] KNone [] q = (elems, k, seg)"
    "star = [Star] \<or> star = [] \<and> last p \<noteq> CHR ''*''"
    "k = KConst \<and> es = elems @ [Const seg] @ star \<or>
     k \<noteq> KConst \<and> k \<noteq> KVariable \<and> es = elems @ star"
proof -
  from assms have ne: "p \<noteq> []" by (auto simp: CompileSection_def)
  define q where "q = (if last p = CHR ''*'' then butlast p else p)"
  define star where "star = (if last p = CHR ''*'' then [Star] else [])"
  obtain elems k seg where l: "compile_loop [] KNone [] q = (elems, k, seg)"
    by (metis prod_cases3)
  have a: "butlast p @ [last p] = p" using ne by simp
  have "p = q @ render_all star"
  proof (cases "last p = CHR ''*''")
    case True
    then show ?thesis using a [unfolded True] by (simp add: q_def star_def)
  qed (simp add: q_def star_def)
  moreover have "k = KConst \<and> es = elems @ [Const seg] @ star \<or>
     k \<noteq> KConst \<and> k \<noteq> KVariable \<and> es = elems @ star"
    using assms ne l unfolding CompileSection_def Let_def q_def [symmetric] star_def [symmetric]
    by (auto split: element_kind.splits)
  moreover have "star = [Star] \<or> star = [] \<and> last p \<noteq> CHR ''*''"
    by (simp add: star_def)
  ultimately show thesis using ne l that by blast
qed

lemma CompileSection_render:
  assumes "CompileSection p = Inr es"
  shows "render_all es = p"
  using assms
proof (cases rule: CompileSection_Inr_cases)
  case (1 q star elems k seg)
  then show ?thesis
    using compile_loop_kind [OF 1(3)] compile_loop_render [OF 1(3)] by auto
qed

subsection \<open>The normal form of a compiled section\<close>

text \<open>
  A constant is not empty and has no opening brace, a variable name has no closing brace,
  two constants never stand side by side, and the star can only be last.
\<close>

fun wf_elems :: "element list \<Rightarrow> bool" where
  "wf_elems [] \<longleftrightarrow> True"
| "wf_elems [Element k s] \<longleftrightarrow>
     (case k of KConst \<Rightarrow> s \<noteq> [] \<and> CHR ''{'' \<notin> set s \<and> last s \<noteq> CHR ''*''
      | KVariable \<Rightarrow> CHR ''}'' \<notin> set s | KStar \<Rightarrow> s = [] | _ \<Rightarrow> False)"
| "wf_elems (Element k s # e # es) \<longleftrightarrow>
     (case k of KConst \<Rightarrow> s \<noteq> [] \<and> CHR ''{'' \<notin> set s \<and> ekind e \<noteq> KConst
      | KVariable \<Rightarrow> CHR ''}'' \<notin> set s | _ \<Rightarrow> False) \<and> wf_elems (e # es)"

text \<open>What the loop keeps of its element list before the last constant is closed.\<close>

fun wf_pre :: "element list \<Rightarrow> bool" where
  "wf_pre [] \<longleftrightarrow> True"
| "wf_pre (Element k s # es) \<longleftrightarrow>
     (case k of KConst \<Rightarrow> s \<noteq> [] \<and> CHR ''{'' \<notin> set s \<and> es \<noteq> [] \<and> ekind (hd es) = KVariable
      | KVariable \<Rightarrow> CHR ''}'' \<notin> set s | _ \<Rightarrow> False) \<and> wf_pre es"

definition pre_ok :: "element list \<Rightarrow> element_kind \<Rightarrow> string \<Rightarrow> bool" where
  "pre_ok elems k seg \<longleftrightarrow>
     (case k of
        KNone \<Rightarrow> wf_pre elems
      | KConst \<Rightarrow> wf_pre elems \<and> seg \<noteq> [] \<and> CHR ''{'' \<notin> set seg
      | KVariable \<Rightarrow> wf_pre (elems @ [Variable []]) \<and> CHR ''}'' \<notin> set seg
      | _ \<Rightarrow> False)"

lemma wf_pre_append_var:
  "wf_pre (es @ [Variable v]) \<Longrightarrow> CHR ''}'' \<notin> set w \<Longrightarrow> wf_pre (es @ [Variable w])"
proof (induction es)
  case (Cons e es)
  obtain k s where "e = Element k s" by (cases e)
  with Cons show ?case by (cases es) (auto split: element_kind.splits)
qed simp

lemma wf_pre_snoc_var: "wf_pre es \<Longrightarrow> CHR ''}'' \<notin> set w \<Longrightarrow> wf_pre (es @ [Variable w])"
proof (induction es)
  case (Cons e es)
  obtain k s where "e = Element k s" by (cases e)
  with Cons show ?case by (cases es) (auto split: element_kind.splits)
qed simp

lemma wf_pre_snoc_const_var:
  "wf_pre es \<Longrightarrow> s \<noteq> [] \<Longrightarrow> CHR ''{'' \<notin> set s \<Longrightarrow> wf_pre (es @ [Const s, Variable []])"
proof (induction es)
  case (Cons e es)
  obtain k t where "e = Element k t" by (cases e)
  with Cons show ?case by (cases es) (auto split: element_kind.splits)
qed simp

lemma compile_loop_pre:
  "compile_loop elems k seg s = (elems', k', seg') \<Longrightarrow> pre_ok elems k seg \<Longrightarrow>
   pre_ok elems' k' seg'"
proof (induction elems k seg s rule: compile_loop.induct)
  case (2 elems k seg c cs)
  show ?case
  proof (cases k)
    case KConst
    with 2 show ?thesis
      by (auto simp: pre_ok_def wf_pre_snoc_const_var split: if_splits)
  qed (use 2 in \<open>auto simp: pre_ok_def wf_pre_snoc_var intro: wf_pre_append_var split: if_splits\<close>)
qed auto

lemma wf_elems_pre: "wf_pre es \<Longrightarrow> wf_elems es"
proof (induction es)
  case (Cons e es)
  obtain k s where "e = Element k s" by (cases e)
  with Cons show ?case by (cases es) (auto split: element_kind.splits)
qed simp

lemma wf_elems_pre_star: "wf_pre es \<Longrightarrow> wf_elems (es @ [Star])"
proof (induction es)
  case (Cons e es)
  obtain k s where "e = Element k s" by (cases e)
  with Cons show ?case by (cases es) (auto split: element_kind.splits)
qed simp

lemma wf_elems_pre_const:
  "wf_pre es \<Longrightarrow> s \<noteq> [] \<Longrightarrow> CHR ''{'' \<notin> set s \<Longrightarrow>
   wf_elems (es @ [Const s, Star]) \<and> (last s \<noteq> CHR ''*'' \<longrightarrow> wf_elems (es @ [Const s]))"
proof (induction es)
  case (Cons e es)
  obtain k t where "e = Element k t" by (cases e)
  with Cons show ?case by (cases es) (auto split: element_kind.splits)
qed auto

lemma CompileSection_wf:
  assumes "CompileSection p = Inr es"
  shows "wf_elems es \<and> es \<noteq> []"
  using assms
proof (cases rule: CompileSection_Inr_cases)
  case (1 q star elems k seg)
  have pre: "pre_ok elems k seg"
    using compile_loop_pre [OF 1(3)] by (simp add: pre_ok_def)
  have r: "render_all elems @ pending k seg = q"
    using compile_loop_render [OF 1(3)] by simp
  have "star = [] \<Longrightarrow> k = KConst \<Longrightarrow> last seg \<noteq> CHR ''*''"
    using 1(2,4) r pre by (auto simp: pre_ok_def)
  then have "wf_elems es"
    using 1(4,5) pre
    by (auto simp: pre_ok_def wf_elems_pre wf_elems_pre_star wf_elems_pre_const
          split: element_kind.splits)
  moreover have "es \<noteq> []"
    using CompileSection_render [OF assms] 1(1) by auto
  ultimately show ?thesis by simp
qed

subsection \<open>Compiling what was rendered\<close>

fun wf_body :: "element list \<Rightarrow> bool" where
  "wf_body [] \<longleftrightarrow> True"
| "wf_body (Element k s # es) \<longleftrightarrow>
     (case k of KConst \<Rightarrow> s \<noteq> [] \<and> CHR ''{'' \<notin> set s \<and> (es = [] \<or> ekind (hd es) \<noteq> KConst)
      | KVariable \<Rightarrow> CHR ''}'' \<notin> set s | _ \<Rightarrow> False) \<and> wf_body es"

definition close_loop :: "element list \<times> element_kind \<times> string \<Rightarrow> element list" where
  "close_loop r = (case r of (elems, k, seg) \<Rightarrow> if k = KConst then elems @ [Const seg] else elems)"

lemma compile_loop_var:
  "CHR ''}'' \<notin> set v \<Longrightarrow>
   compile_loop acc KVariable seg (v @ CHR ''}'' # s)
     = compile_loop (acc @ [Variable (seg @ v)]) KNone [] s"
  by (induction v arbitrary: seg) auto

lemma compile_loop_const:
  "CHR ''{'' \<notin> set c \<Longrightarrow>
   compile_loop acc KConst seg (c @ s) = compile_loop acc KConst (seg @ c) s"
  by (induction c arbitrary: seg) auto

lemma compile_loop_body:
  "wf_body es \<Longrightarrow>
   close_loop (compile_loop acc KNone sg (render_all es)) = acc @ es \<and>
   fst (snd (compile_loop acc KNone sg (render_all es))) \<in> {KNone, KConst}"
proof (induction es arbitrary: acc sg)
  case Nil
  then show ?case by (simp add: close_loop_def)
next
  case (Cons e es)
  obtain k s where e: "e = Element k s" by (cases e)
  from Cons.prems e have body: "wf_body es" by simp
  show ?case
  proof (cases k)
    case KVariable
    with Cons.prems e have "CHR ''}'' \<notin> set s" by simp
    then show ?thesis
      using Cons.IH [OF body, of "acc @ [Variable s]" "[]"] e KVariable
      by (simp add: compile_loop_var)
  next
    case KConst
    with Cons.prems e have s: "s \<noteq> []" "CHR ''{'' \<notin> set s"
      and nx: "es = [] \<or> ekind (hd es) \<noteq> KConst" by auto
    from s obtain c cs where cs: "s = c # cs" by (cases s) auto
    have step: "compile_loop acc KNone sg (render_all (e # es))
        = compile_loop acc KConst s (render_all es)"
      using s cs e KConst by (auto simp: compile_loop_const)
    show ?thesis
    proof (cases es)
      case Nil
      then show ?thesis using step e KConst by (simp add: close_loop_def)
    next
      case (Cons f fs)
      obtain k' v where f: "f = Element k' v" by (cases f)
      have "k' = KVariable"
        using nx body Cons f by (cases k') auto
      then have "compile_loop acc KConst s (render_all es)
          = compile_loop (acc @ [Const s]) KNone [] (render_all es)"
        using Cons f by simp
      then show ?thesis
        using step Cons.IH [OF body, of "acc @ [Const s]" "[]"] e KConst by simp
    qed
  qed (use Cons.prems e in auto)
qed

lemma wf_elems_cases:
  "wf_elems es \<Longrightarrow> es \<noteq> [] \<Longrightarrow>
   (\<exists>fs. es = fs @ [Star] \<and> wf_body fs) \<or>
   (wf_body es \<and> render_all es \<noteq> [] \<and> last (render_all es) \<noteq> CHR ''*'')"
proof (induction es rule: wf_elems.induct)
  case (2 k s)
  then show ?case by (cases k) (auto intro: exI [of _ "[]"])
next
  case (3 k s e es)
  then have ks: "k = KConst \<and> s \<noteq> [] \<and> CHR ''{'' \<notin> set s \<and> ekind e \<noteq> KConst \<or>
      k = KVariable \<and> CHR ''}'' \<notin> set s" and wf: "wf_elems (e # es)"
    by (auto split: element_kind.splits)
  have "e # es \<noteq> []" by simp
  from "3.IH" [OF wf this] show ?case
  proof (elim disjE exE conjE)
    fix fs assume fs: "e # es = fs @ [Star]" "wf_body fs"
    have "ekind (hd (fs @ [Star])) = ekind e" by (simp flip: fs(1))
    then have "wf_body (Element k s # fs)"
      using ks fs(2) by (cases fs) auto
    moreover have "Element k s # e # es = (Element k s # fs) @ [Star]"
      using fs(1) by simp
    ultimately show ?thesis by blast
  next
    assume "wf_body (e # es)" "render_all (e # es) \<noteq> []" "last (render_all (e # es)) \<noteq> CHR ''*''"
    then show ?thesis using ks by auto
  qed
qed simp

lemma CompileSection_render_all:
  assumes "wf_elems es" and "es \<noteq> []"
  shows "CompileSection (render_all es) = Inr es"
  using wf_elems_cases [OF assms]
proof (elim disjE exE conjE)
  fix fs assume fs: "es = fs @ [Star]" "wf_body fs"
  obtain elems k seg where l: "compile_loop [] KNone [] (render_all fs) = (elems, k, seg)"
    by (metis prod_cases3)
  then show ?thesis
    using compile_loop_body [OF fs(2), of "[]" "[]"] fs
    by (auto simp: CompileSection_def close_loop_def Let_def)
next
  assume b: "wf_body es" "render_all es \<noteq> []" "last (render_all es) \<noteq> CHR ''*''"
  obtain elems k seg where l: "compile_loop [] KNone [] (render_all es) = (elems, k, seg)"
    by (metis prod_cases3)
  then show ?thesis
    using compile_loop_body [OF b(1), of "[]" "[]"] b
    by (auto simp: CompileSection_def close_loop_def Let_def)
qed

section \<open>Matching a section\<close>

text \<open>
  \<open>MatchSection\<close> returns (matched, matches the tokens left, variables); the variables of
  a failed match are the nil map, \<^const>\<open>None\<close>. \<open>rest\<close> is \<open>section[pos:]\<close>.
\<close>

type_synonym vars = "string \<rightharpoonup> string"

type_synonym section_match = "bool \<times> bool \<times> vars option"

abbreviation no_match :: section_match where
  "no_match \<equiv> (False, False, None)"

fun match_elems :: "element list \<Rightarrow> string \<Rightarrow> string \<Rightarrow> string list \<Rightarrow> vars \<Rightarrow> section_match" where
  "match_elems [] sec rest lefts vs = (if rest \<noteq> [] then no_match else (True, False, Some vs))"
| "match_elems (Element KConst p # es) sec rest lefts vs =
     (if length rest < length p then no_match
      else if take (length p) rest \<noteq> p then no_match
      else match_elems es sec (drop (length p) rest) lefts vs)"
| "match_elems (Element KVariable v # es) sec rest lefts vs =
     (case es of
        [] \<Rightarrow> (True, False, Some (vs(v \<mapsto> rest)))
      | Element KConst p # _ \<Rightarrow>
          (case index_of rest p of
             None \<Rightarrow> no_match
           | Some i \<Rightarrow> if i = 0 then no_match
                       else match_elems es sec (drop i rest) lefts (vs(v \<mapsto> take i rest)))
      | Element KStar _ # _ \<Rightarrow> (True, True, Some (vs(v \<mapsto> rest @ concat lefts)))
      | _ \<Rightarrow> match_elems es sec rest lefts vs)"
| "match_elems (Element KStar _ # es) sec rest lefts vs = (True, True, Some vs)"
| "match_elems (Element KSplit _ # es) sec rest lefts vs =
     (if sec = ''/'' then (True, False, Some vs) else no_match)"
| "match_elems (Element KNone _ # es) sec rest lefts vs = match_elems es sec rest lefts vs"

fun MatchSection :: "element list \<Rightarrow> string list \<Rightarrow> section_match" where
  "MatchSection compiled [] = no_match"
| "MatchSection compiled (sec # lefts) = match_elems compiled sec sec lefts Map.empty"

text \<open>The text the elements spell under a binding of the variables, an unbound one as empty.\<close>

definition bound :: "vars \<Rightarrow> string \<Rightarrow> string" where
  "bound vs v = (case vs v of None \<Rightarrow> [] | Some x \<Rightarrow> x)"

fun spell :: "vars \<Rightarrow> element list \<Rightarrow> string" where
  "spell vs [] = []"
| "spell vs (Element k s # es) =
     (case k of KConst \<Rightarrow> s | KVariable \<Rightarrow> bound vs s | _ \<Rightarrow> []) @ spell vs es"

definition var_names :: "element list \<Rightarrow> string list" where
  "var_names es = map eparam (filter (\<lambda>e. ekind e = KVariable) es)"

lemma var_names_simps [simp]:
  "var_names [] = []"
  "var_names (Element k s # es) = (if k = KVariable then s # var_names es else var_names es)"
  by (simp_all add: var_names_def)

lemma match_elems_frame:
  "match_elems es sec rest lefts vs = (True, l, Some vs') \<Longrightarrow> x \<notin> set (var_names es) \<Longrightarrow>
   vs' x = vs x"
  by (induction es sec rest lefts vs rule: match_elems.induct)
     (auto split: if_splits option.splits list.splits element.splits element_kind.splits)

lemma match_elems_wf_cases:
  "wf_elems (Element k s # es) \<Longrightarrow> k \<noteq> KSplit \<and> k \<noteq> KNone \<and> (k = KStar \<longrightarrow> es = [])"
  by (cases es) (auto split: element_kind.splits)

lemma wf_elems_tl: "wf_elems (e # es) \<Longrightarrow> wf_elems es"
  by (cases e; cases es) (auto split: element_kind.splits)

text \<open>
  What a match means: without the star the variables spell the section, with it they spell a
  prefix of everything that is left of the path.
\<close>

definition spells :: "bool \<Rightarrow> string \<Rightarrow> string \<Rightarrow> string list \<Rightarrow> bool" where
  "spells l w rest lefts \<longleftrightarrow> (if l then prefix w (rest @ concat lefts) else w = rest)"

lemma spells_append: "spells l w d lefts \<Longrightarrow> spells l (p @ w) (p @ d) lefts"
  by (simp add: spells_def)

lemma match_elems_spells:
  "match_elems es sec rest lefts vs = (True, l, Some vs') \<Longrightarrow> wf_elems es \<Longrightarrow>
   distinct (var_names es) \<Longrightarrow> (\<And>x. x \<in> set (var_names es) \<Longrightarrow> vs x = None) \<Longrightarrow>
   spells l (spell vs' es) rest lefts"
proof (induction es sec rest lefts vs rule: match_elems.induct)
  case (2 p es sec rest lefts vs)
  then have t: "take (length p) rest = p"
    and m: "match_elems es sec (drop (length p) rest) lefts vs = (True, l, Some vs')"
    by (auto split: if_splits)
  have r: "rest = p @ drop (length p) rest"
    by (metis t append_take_drop_id)
  have "spells l (spell vs' es) (drop (length p) rest) lefts"
    using 2 m wf_elems_tl by (auto split: if_splits)
  from spells_append [OF this, of p] r show ?case by simp
next
  case (3 v es sec rest lefts vs)
  show ?case
  proof (cases es)
    case Nil
    with 3 show ?thesis by (auto simp: spells_def bound_def)
  next
    case (Cons e fs)
    obtain k s where e: "e = Element k s" by (cases e)
    have wf: "wf_elems es" using 3 wf_elems_tl by blast
    have v: "v \<notin> set (var_names es)" and d: "distinct (var_names es)"
      and nb: "\<And>x. x \<in> set (var_names es) \<Longrightarrow> vs x = None"
      using "3.prems" by auto
    show ?thesis
    proof (cases k)
      case KConst
      with "3.prems"(1) Cons e obtain i where i: "index_of rest s = Some i" "i \<noteq> 0"
        and m: "match_elems es sec (drop i rest) lefts (vs(v \<mapsto> take i rest)) = (True, l, Some vs')"
        by (auto split: option.splits if_splits)
      have "spells l (spell vs' es) (drop i rest) lefts"
        by (rule "3.IH"(2) [OF Cons e KConst i m wf d]) (use nb v in auto)
      moreover have "vs' v = Some (take i rest)"
        using match_elems_frame [OF m v] by simp
      ultimately show ?thesis
        using spells_append [of l "spell vs' es" "drop i rest" lefts "take i rest"]
        by (simp add: bound_def)
    next
      case KVariable
      then have m: "match_elems es sec rest lefts vs = (True, l, Some vs')"
        using "3.prems"(1) Cons e by simp
      have "spells l (spell vs' es) rest lefts"
        using "3.IH" Cons e KVariable m wf d nb by auto
      moreover have "vs' v = None"
        using match_elems_frame [OF m v] "3.prems"(4) by simp
      ultimately show ?thesis by (simp add: bound_def)
    next
      case KStar
      then have "fs = []" using wf Cons e match_elems_wf_cases by blast
      then show ?thesis
        using "3.prems"(1) Cons e KStar by (auto simp: spells_def bound_def)
    qed (use wf Cons e match_elems_wf_cases in auto)
  qed
qed (auto simp: spells_def split: if_splits dest: match_elems_wf_cases)

end
