(* ===== verification/Route_Match.thy ===== *)
theory Route_Match
  imports Route_Section
begin

text \<open>
  The pattern tree of \<open>pkg/utils/route/match.go\<close> and the multiplexer over it, \<open>httpmux.go\<close>:
  registering a pattern, ordering the siblings, matching a request path by a depth-first
  search with backtracking.

  The abstract view of the tree is the partial map \<open>lookup_pat\<close> from a path of rendered
  sections to the item registered there. Registering updates that map at one point or
  reports a conflict; matching returns an item of the map whose pattern matches, and finds
  one whenever there is one and no star sits before the end of a pattern.
\<close>

section \<open>Nodes and sibling order\<close>

type_synonym 'v item = "string \<times> 'v"

datatype 'v node = Node (nkey: "element list") (nval: "'v item option") (nchildren: "'v node list")

fun elem_str :: "element \<Rightarrow> string" where
  "elem_str (Element KConst s) = s"
| "elem_str (Element KVariable _) = ''{}''"
| "elem_str (Element KStar _) = ''*''"
| "elem_str (Element KSplit _) = ''/''"
| "elem_str (Element KNone _) = []"

definition tostr :: "element list \<Rightarrow> string" where
  "tostr es = concat (map elem_str es)"

definition isSamePattern :: "element list \<Rightarrow> element list \<Rightarrow> bool" where
  "isSamePattern a b \<longleftrightarrow> tostr a = tostr b"

fun indexChild :: "'v node list \<Rightarrow> element list \<Rightarrow> nat option" where
  "indexChild [] s = None"
| "indexChild (c # cs) s =
     (if isSamePattern (nkey c) s then Some 0 else map_option Suc (indexChild cs s))"

text \<open>The weight of a section: 99 for a constant, -1 for a variable.\<close>

definition section_score :: "element list \<Rightarrow> int" where
  "section_score es =
     foldl (\<lambda>n e. case ekind e of KConst \<Rightarrow> n + 99 | KVariable \<Rightarrow> n - 1 | _ \<Rightarrow> n) 0 es"

definition section_less :: "element list \<Rightarrow> element list \<Rightarrow> bool" where
  "section_less a b =
     (let lasti = ekind (last a); lastj = ekind (last b)
      in if lasti = KStar \<and> lastj \<noteq> KStar then False
         else if lasti \<noteq> KStar \<and> lastj = KStar then True
         else section_score a > section_score b)"

definition sortSectionMatches :: "'v node list \<Rightarrow> 'v node list" where
  "sortSectionMatches cs = sort_slice (\<lambda>x y. section_less (nkey x) (nkey y)) cs"

lemma section_less_strict_weak: "strict_weak (\<lambda>x y. section_less (nkey x) (nkey y))"
  unfolding strict_weak_def section_less_def Let_def by (auto split: if_splits)

section \<open>Registering\<close>

fun register_sections ::
    "'v node \<Rightarrow> element list list \<Rightarrow> 'v item \<Rightarrow> route_error + 'v node" where
  "register_sections cur [] item = Inr cur"
| "register_sections (Node k v cs) (s # ss) item =
     (case indexChild cs s of
        None \<Rightarrow>
          (let child = Node s (if ss = [] then Some item else None) []
           in case register_sections child ss item of
                Inl e \<Rightarrow> Inl e
              | Inr child' \<Rightarrow> Inr (Node k v (sortSectionMatches (cs @ [child']))))
      | Some i \<Rightarrow>
          (let child = cs ! i
           in if ss = []
              then (case nval child of
                      Some (p, _) \<Rightarrow> Inl (PatternConflict (fst item) p)
                    | None \<Rightarrow>
                        Inr (Node k v (cs[i := Node (nkey child) (Some item) (nchildren child)])))
              else (case register_sections child ss item of
                      Inl e \<Rightarrow> Inl e
                    | Inr child' \<Rightarrow> Inr (Node k v (cs[i := child'])))))"

definition Register :: "'v node \<Rightarrow> string \<Rightarrow> 'v \<Rightarrow> route_error + 'v node" where
  "Register root pattern x =
     (case CompilePathPattern pattern of
        Inl e \<Rightarrow> Inl e
      | Inr sections \<Rightarrow> register_sections root sections (pattern, x))"

definition empty_matcher :: "'v node" where
  "empty_matcher = Node [] None []"

section \<open>Matching\<close>

definition mergeMap :: "vars \<Rightarrow> vars \<Rightarrow> vars" where
  "mergeMap src dst = dst ++ src"

text \<open>
  The search returns the item found and the variables, which it merges into its argument
  as the code writes through the map it was given. The second function is the loop over
  the children.
\<close>

fun matchchildren :: "'v node \<Rightarrow> string list \<Rightarrow> vars \<Rightarrow> 'v item option \<times> vars"
  and match_loop :: "'v node list \<Rightarrow> string list \<Rightarrow> vars \<Rightarrow> 'v item option \<times> vars" where
  "matchchildren (Node k v cs) tokens vs = (if tokens = [] then (None, vs) else match_loop cs tokens vs)"
| "match_loop [] tokens vs = (None, vs)"
| "match_loop (child # cs) tokens vs =
     (case MatchSection (nkey child) tokens of (matched, matchlefttokens, secvars) \<Rightarrow>
        if matched
        then (let sv = (case secvars of None \<Rightarrow> Map.empty | Some m \<Rightarrow> m)
              in if nval child \<noteq> None \<and> length tokens = 1 \<or> matchlefttokens
                 then (nval child, mergeMap sv vs)
                 else (case matchchildren child (tl tokens) sv of
                         (Some result, sv') \<Rightarrow> (Some result, mergeMap sv' vs)
                       | (None, _) \<Rightarrow> match_loop cs tokens vs))
        else match_loop cs tokens vs)"

definition Match :: "'v node \<Rightarrow> string \<Rightarrow> bool \<times> 'v option \<times> vars" where
  "Match root path =
     (case matchchildren root (ParsePathTokens path) Map.empty of
        (None, vs) \<Rightarrow> (False, None, vs)
      | (Some item, vs) \<Rightarrow> (True, Some (snd item), vs))"

subsection \<open>The multiplexer\<close>

text \<open>
  \<open>Handle\<close> drops the error of \<open>Register\<close>; a request goes to the handler found, with the
  variables in its context, or to \<open>http.NotFound\<close>.
\<close>

datatype 'v served = Served 'v vars | NotFound

definition mux_Handle :: "'v node \<Rightarrow> string \<Rightarrow> 'v \<Rightarrow> 'v node" where
  "mux_Handle mux pattern handler =
     (case Register mux pattern handler of Inl _ \<Rightarrow> mux | Inr mux' \<Rightarrow> mux')"

definition mux_ServeHTTP :: "'v node \<Rightarrow> string \<Rightarrow> 'v served" where
  "mux_ServeHTTP mux path =
     (case Match mux path of (matched, x, vs) \<Rightarrow>
        (if matched then (case x of Some h \<Rightarrow> Served h vs | None \<Rightarrow> NotFound) else NotFound))"

text \<open>The handler a request reached and the value of one variable, to read results off.\<close>

fun served_view :: "'v served \<Rightarrow> string \<Rightarrow> ('v \<times> string option) option" where
  "served_view NotFound x = None"
| "served_view (Served h vs) x = Some (h, vs x)"

section \<open>The tree as a map\<close>

fun lookup_pat :: "'v node \<Rightarrow> string list \<Rightarrow> 'v item option" where
  "lookup_pat (Node k v cs) [] = v"
| "lookup_pat (Node k v cs) (t # ts) =
     (case map_of (map (\<lambda>c. (tostr (nkey c), c)) cs) t of
        None \<Rightarrow> None
      | Some c \<Rightarrow> lookup_pat c ts)"

text \<open>Siblings spell different patterns and stand in the order of \<open>section_less\<close>.\<close>

primrec wf_tree :: "'v node \<Rightarrow> bool" where
  "wf_tree (Node k v cs) \<longleftrightarrow>
     distinct (map (\<lambda>c. tostr (nkey c)) cs) \<and>
     sorted_wrt (\<lambda>a b. \<not> section_less (nkey b) (nkey a)) cs \<and>
     list_all (\<lambda>b. b) (map wf_tree cs)"

lemma wf_tree_Node [simp]:
  "wf_tree (Node k v cs) \<longleftrightarrow>
     distinct (map (\<lambda>c. tostr (nkey c)) cs) \<and>
     sorted_wrt (\<lambda>a b. \<not> section_less (nkey b) (nkey a)) cs \<and> (\<forall>c\<in>set cs. wf_tree c)"
  by (simp add: list_all_iff)

declare wf_tree.simps [simp del]

lemma wf_empty_matcher: "wf_tree empty_matcher"
  by (simp add: empty_matcher_def)

lemma indexChild_None:
  "indexChild cs s = None \<longleftrightarrow> map_of (map (\<lambda>c. (tostr (nkey c), c)) cs) (tostr s) = None"
  by (induction cs) (auto simp: isSamePattern_def)

lemma indexChild_Some:
  "indexChild cs s = Some i \<Longrightarrow>
   i < length cs \<and> tostr (nkey (cs ! i)) = tostr s \<and>
   map_of (map (\<lambda>c. (tostr (nkey c), c)) cs) (tostr s) = Some (cs ! i)"
  by (induction cs arbitrary: i) (auto simp: isSamePattern_def split: if_splits)

lemma register_key: "register_sections t ss item = Inr t' \<Longrightarrow> nkey t' = nkey t"
  by (induction t ss item arbitrary: t' rule: register_sections.induct)
     (auto simp: Let_def split: option.splits sum.splits if_splits)

lemma register_val: "register_sections t ss item = Inr t' \<Longrightarrow> nval t' = nval t"
  by (induction t ss item arbitrary: t' rule: register_sections.induct)
     (auto simp: Let_def split: option.splits sum.splits if_splits)

lemma children_map_sort:
  assumes "distinct (map (\<lambda>c. tostr (nkey c)) cs)"
  shows "map_of (map (\<lambda>c. (tostr (nkey c), c)) (sortSectionMatches cs))
       = map_of (map (\<lambda>c. (tostr (nkey c), c)) cs)"
proof -
  have d: "distinct (map fst (map (\<lambda>c. (tostr (nkey c), c)) (sortSectionMatches cs)))"
    using assms by (simp add: sortSectionMatches_def o_def gs.distinct_map_srt)
  show ?thesis
    using assms d by (simp add: map_of_inject_set o_def sortSectionMatches_def gs.set_srt)
qed

lemma wf_tree_register:
  "register_sections t ss item = Inr t' \<Longrightarrow> wf_tree t \<Longrightarrow> wf_tree t'"
proof (induction t ss item arbitrary: t' rule: register_sections.induct)
  case (2 k v cs s ss item)
  show ?case
  proof (cases "indexChild cs s")
    case None
    let ?child = "Node s (if ss = [] then Some item else None) []"
    obtain child' where c: "register_sections ?child ss item = Inr child'"
      and t': "t' = Node k v (sortSectionMatches (cs @ [child']))"
      using "2.prems"(1) None by (auto simp: Let_def split: sum.splits)
    have wf: "wf_tree child'" and key: "nkey child' = s"
      using "2.IH"(1) [OF None refl c] register_key [OF c] by auto
    have "tostr s \<notin> (\<lambda>c. tostr (nkey c)) ` set cs"
      using None unfolding indexChild_None by (auto simp: map_of_eq_None_iff o_def image_image)
    then have "distinct (map (\<lambda>c. tostr (nkey c)) (cs @ [child']))"
      using "2.prems"(2) key by simp
    then show ?thesis
      using "2.prems"(2) wf t' gs.srt_sorted [OF section_less_strict_weak, of "cs @ [child']"]
      by (auto simp: sortSectionMatches_def gs.distinct_map_srt gs.set_srt)
  next
    case (Some i)
    note i = indexChild_Some [OF Some]
    have upd: "wf_tree (Node k v (cs[i := c]))" if "wf_tree c" "nkey c = nkey (cs ! i)" for c
    proof -
      have keys: "map nkey (cs[i := c]) = map nkey cs"
        using that i by (simp add: map_update list_update_same_conv)
      have "map (\<lambda>c. tostr (nkey c)) (cs[i := c]) = map (\<lambda>c. tostr (nkey c)) cs"
        using arg_cong [OF keys, of "map tostr"] by (simp add: o_def)
      moreover have "sorted_wrt (\<lambda>a b. \<not> section_less (nkey b) (nkey a)) (cs[i := c])"
        using "2.prems"(2) arg_cong [OF keys, of "sorted_wrt (\<lambda>a b. \<not> section_less b a)"]
        by (simp add: sorted_wrt_map)
      ultimately show ?thesis
        using "2.prems"(2) that set_update_subset_insert [of cs i c] by fastforce
    qed
    have ci: "wf_tree (cs ! i)" using "2.prems"(2) i by auto
    show ?thesis
    proof (cases "ss = []")
      case True
      let ?c = "Node (nkey (cs ! i)) (Some item) (nchildren (cs ! i))"
      have "wf_tree ?c" using ci by (cases "cs ! i") simp
      then have "wf_tree (Node k v (cs[i := ?c]))" by (rule upd) simp
      moreover have "t' = Node k v (cs[i := ?c])"
        using "2.prems"(1) Some True by (auto simp: Let_def split: option.splits)
      ultimately show ?thesis by simp
    next
      case False
      then obtain child' where c: "register_sections (cs ! i) ss item = Inr child'"
        and t': "t' = Node k v (cs[i := child'])"
        using "2.prems"(1) Some by (auto simp: Let_def split: sum.splits)
      show ?thesis
        using "2.IH"(2) [OF Some refl False c ci] upd register_key [OF c] t' by simp
    qed
  qed
qed simp

subsection \<open>Which sections count as the same\<close>

fun erase :: "element \<Rightarrow> element" where
  "erase (Element KVariable _) = Variable []"
| "erase e = e"

lemma ekind_erase [simp]: "ekind (erase e) = ekind e"
  by (cases e rule: erase.cases) auto

lemma wf_elems_erase: "wf_elems es \<Longrightarrow> wf_elems (map erase es)"
proof (induction es rule: wf_elems.induct)
  case (2 k s)
  then show ?case by (cases k) auto
next
  case (3 k s e es)
  then show ?case by (cases k) auto
qed simp

lemma render_erase: "wf_elems es \<Longrightarrow> render_all (map erase es) = tostr es"
proof (induction es rule: wf_elems.induct)
  case (2 k s)
  then show ?case by (cases k) (auto simp: tostr_def)
next
  case (3 k s e es)
  then show ?case by (cases k) (auto simp: tostr_def)
qed (simp add: tostr_def)

lemma isSamePattern_iff:
  assumes "wf_elems a" "a \<noteq> []" "wf_elems b" "b \<noteq> []"
  shows "isSamePattern a b \<longleftrightarrow> map erase a = map erase b"
proof
  assume "isSamePattern a b"
  then have "render_all (map erase a) = render_all (map erase b)"
    using assms by (simp add: isSamePattern_def render_erase)
  moreover have "CompileSection (render_all (map erase a)) = Inr (map erase a)"
    "CompileSection (render_all (map erase b)) = Inr (map erase b)"
    using assms by (auto intro!: CompileSection_render_all wf_elems_erase)
  ultimately show "map erase a = map erase b"
    by (metis sum.inject(2))
next
  assume "map erase a = map erase b"
  then show "isSamePattern a b"
    using assms by (simp add: isSamePattern_def flip: render_erase)
qed

subsection \<open>Registering updates the map\<close>

abbreviation child_map :: "'v node list \<Rightarrow> string \<rightharpoonup> 'v node" where
  "child_map cs \<equiv> map_of (map (\<lambda>c. (tostr (nkey c), c)) cs)"

lemma child_map_snoc: "child_map (cs @ [c]) = [tostr (nkey c) \<mapsto> c] ++ child_map cs"
  by (simp add: map_add_def fun_eq_iff map_of_append split: option.splits)

lemma child_map_update:
  assumes "distinct (map (\<lambda>c. tostr (nkey c)) cs)" "i < length cs" "nkey c = nkey (cs ! i)"
  shows "child_map (cs[i := c]) = (child_map cs)(tostr (nkey c) \<mapsto> c)"
  using assms
proof (induction cs arbitrary: i)
  case (Cons a cs)
  show ?case
  proof (cases i)
    case (Suc j)
    have "tostr (nkey a) \<noteq> tostr (nkey (cs ! j))"
      using Cons.prems Suc by (auto simp: image_iff)
    then show ?thesis
      using Cons Suc by (auto simp: fun_eq_iff)
  qed (use Cons in auto)
qed simp

lemma child_map_key: "child_map cs t = Some c \<Longrightarrow> c \<in> set cs \<and> tostr (nkey c) = t"
  by (auto dest: map_of_SomeD)

lemma lookup_fresh: "lookup_pat (Node s v []) ps = (if ps = [] then v else None)"
  by (cases ps) auto

definition registers :: "'v node \<Rightarrow> element list list \<Rightarrow> 'v item \<Rightarrow> bool" where
  "registers t ss item \<longleftrightarrow>
     (case lookup_pat t (map tostr ss) of
        Some (p, _) \<Rightarrow> register_sections t ss item = Inl (PatternConflict (fst item) p)
      | None \<Rightarrow> (\<exists>t'. register_sections t ss item = Inr t' \<and>
                  lookup_pat t' = (lookup_pat t)(map tostr ss \<mapsto> item)))"

lemma lookup_replace:
  assumes "\<And>u us. lookup_pat t' (u # us) =
      (case ((child_map cs)(tostr s \<mapsto> c')) u of None \<Rightarrow> None | Some c \<Rightarrow> lookup_pat c us)"
    and "t = Node k v cs" "lookup_pat t' [] = v"
    and "\<And>us. lookup_pat c' us = (if us = ps then Some item else
           case child_map cs (tostr s) of None \<Rightarrow> None | Some c \<Rightarrow> lookup_pat c us)"
  shows "lookup_pat t' = (lookup_pat t)(tostr s # ps \<mapsto> item)"
proof
  fix qs
  show "lookup_pat t' qs = ((lookup_pat t)(tostr s # ps \<mapsto> item)) qs"
    using assms by (cases qs) auto
qed

lemma register_registers:
  "wf_tree t \<Longrightarrow> ss \<noteq> [] \<Longrightarrow> registers t ss item"
proof (induction t ss item rule: register_sections.induct)
  case (2 k v cs s ss item)
  show ?case
  proof (cases "indexChild cs s")
    case None
    note cm = None [unfolded indexChild_None]
    let ?child = "Node s (if ss = [] then Some item else None) []"
    obtain child' where c: "register_sections ?child ss item = Inr child'"
      and lk: "\<And>us. lookup_pat child' us = (if us = map tostr ss then Some item else None)"
    proof (cases "ss = []")
      case True
      with that show thesis by (auto simp: lookup_fresh)
    next
      case False
      then have "registers ?child ss item"
        using "2.IH"(1) [OF None refl] by simp
      with False that show thesis
        by (auto simp: registers_def lookup_fresh split: option.splits)
    qed
    have key: "nkey child' = s" using register_key [OF c] by simp
    have d: "distinct (map (\<lambda>c. tostr (nkey c)) (cs @ [child']))"
      using "2.prems"(1) cm key by (auto simp: map_of_eq_None_iff o_def image_image)
    have "child_map (sortSectionMatches (cs @ [child'])) = (child_map cs)(tostr s \<mapsto> child')"
      unfolding children_map_sort [OF d] child_map_snoc key
      using cm by (auto simp: fun_eq_iff map_add_def split: option.splits)
    then have "lookup_pat (Node k v (sortSectionMatches (cs @ [child'])))
        = (lookup_pat (Node k v cs))(tostr s # map tostr ss \<mapsto> item)"
      by (intro lookup_replace) (auto simp: lk cm)
    then show ?thesis
      using None c cm by (auto simp: registers_def Let_def)
  next
    case (Some i)
    note i = indexChild_Some [OF Some]
    have upd: "lookup_pat (Node k v (cs[i := c]))
        = (lookup_pat (Node k v cs))(tostr s # ps \<mapsto> item)"
      if "nkey c = nkey (cs ! i)"
        "\<And>us. lookup_pat c us = (if us = ps then Some item else lookup_pat (cs ! i) us)" for c ps
      using "2.prems"(1) i that by (intro lookup_replace) (auto simp: child_map_update)
    show ?thesis
    proof (cases "ss = []")
      case True
      have "lookup_pat (Node (nkey (cs ! i)) (Some item) (nchildren (cs ! i))) us
          = (if us = [] then Some item else lookup_pat (cs ! i) us)" for us
        by (cases "cs ! i"; cases us) auto
      moreover have "lookup_pat (cs ! i) [] = nval (cs ! i)"
        by (cases "cs ! i") simp
      ultimately show ?thesis
        using Some True i upd [of "Node (nkey (cs ! i)) (Some item) (nchildren (cs ! i))" "[]"]
        by (auto simp: registers_def Let_def split: option.splits)
    next
      case False
      have "wf_tree (cs ! i)" using "2.prems"(1) i by auto
      then have IH: "registers (cs ! i) ss item"
        using "2.IH"(2) [OF Some refl False] False by simp
      show ?thesis
      proof (cases "lookup_pat (cs ! i) (map tostr ss)")
        case None
        then obtain c where c: "register_sections (cs ! i) ss item = Inr c"
          and lk: "lookup_pat c = (lookup_pat (cs ! i))(map tostr ss \<mapsto> item)"
          using IH by (auto simp: registers_def)
        have "lookup_pat (Node k v (cs[i := c]))
            = (lookup_pat (Node k v cs))(tostr s # map tostr ss \<mapsto> item)"
          by (rule upd) (use lk register_key [OF c] in auto)
        then show ?thesis using Some False i c None by (simp add: registers_def Let_def)
      next
        case (Some it)
        then show ?thesis
          using \<open>indexChild cs s = _\<close> False i IH by (cases it) (simp add: registers_def Let_def)
      qed
    qed
  qed
qed simp

section \<open>What a match finds\<close>

text \<open>The patterns stored in a tree, with the keys of the nodes on their path.\<close>

inductive has_entry :: "'v node \<Rightarrow> element list list \<Rightarrow> 'v item \<Rightarrow> bool" where
  entry_here: "c \<in> set cs \<Longrightarrow> nval c = Some it \<Longrightarrow> has_entry (Node k v cs) [nkey c] it"
| entry_below: "c \<in> set cs \<Longrightarrow> has_entry c ss it \<Longrightarrow> has_entry (Node k v cs) (nkey c # ss) it"

inductive_cases has_entryE: "has_entry (Node k v cs) ss it"

lemma has_entry_not_Nil: "has_entry t ss it \<Longrightarrow> ss \<noteq> []"
  by (auto elim: has_entry.cases)

fun pattern_matches :: "element list list \<Rightarrow> string list \<Rightarrow> bool" where
  "pattern_matches [] tokens \<longleftrightarrow> False"
| "pattern_matches (s # ss) tokens \<longleftrightarrow>
     (case MatchSection s tokens of (matched, lefts, _) \<Rightarrow>
        matched \<and> (if ss = [] then length tokens = 1 \<or> lefts
                   else \<not> lefts \<and> pattern_matches ss (tl tokens)))"

primrec star_final :: "'v node \<Rightarrow> bool" where
  "star_final (Node k v cs) \<longleftrightarrow>
     list_all (\<lambda>c. KStar \<in> ekind ` set (nkey c) \<longrightarrow> nval c \<noteq> None) cs \<and>
     list_all (\<lambda>b. b) (map star_final cs)"

lemma star_final_Node [simp]:
  "star_final (Node k v cs) \<longleftrightarrow>
     (\<forall>c\<in>set cs. KStar \<in> ekind ` set (nkey c) \<longrightarrow> nval c \<noteq> None) \<and> (\<forall>c\<in>set cs. star_final c)"
  by (simp add: list_all_iff)

declare star_final.simps [simp del]

lemma match_elems_lefts:
  "match_elems es sec rest lefts vs = (m, True, r) \<Longrightarrow> KStar \<in> ekind ` set es"
  by (induction es sec rest lefts vs rule: match_elems.induct)
     (auto split: if_splits option.splits list.splits element.splits element_kind.splits)

lemma MatchSection_lefts: "MatchSection es tokens = (m, True, r) \<Longrightarrow> KStar \<in> ekind ` set es"
  by (cases tokens) (auto dest: match_elems_lefts)

lemma MatchSection_Nil: "MatchSection es tokens = (True, l, r) \<Longrightarrow> tokens \<noteq> []"
  by (cases tokens) auto

definition finds :: "'v node \<Rightarrow> 'v item \<Rightarrow> string list \<Rightarrow> bool" where
  "finds c it tokens \<longleftrightarrow>
     (\<exists>ss. (nval c = Some it \<and> ss = [] \<or> has_entry c ss it) \<and>
       pattern_matches (nkey c # ss) tokens)"

lemma match_loop_sound:
  assumes "\<And>c ts ws it ws'. c \<in> set cs \<Longrightarrow> matchchildren c ts ws = (Some it, ws') \<Longrightarrow>
      \<exists>ss. has_entry c ss it \<and> pattern_matches ss ts"
    and "match_loop cs tokens vs = (Some it, vs')"
  shows "\<exists>c\<in>set cs. finds c it tokens"
  using assms
proof (induction cs)
  case (Cons child cs)
  obtain m l sv where ms: "MatchSection (nkey child) tokens = (m, l, sv)"
    by (metis prod_cases3)
  let ?sv = "case sv of None \<Rightarrow> Map.empty | Some m \<Rightarrow> m"
  obtain r sv' where mc: "matchchildren child (tl tokens) ?sv = (r, sv')"
    by (metis prod.exhaust)
  show ?case
  proof (cases "match_loop cs tokens vs = (Some it, vs')")
    case True
    then have "\<exists>c\<in>set cs. finds c it tokens"
      using Cons.prems(1) by (intro Cons.IH) auto
    then show ?thesis by simp
  next
    case False
    then have m: "m" using Cons.prems(2) ms by (cases m) auto
    show ?thesis
    proof (cases "nval child \<noteq> None \<and> length tokens = 1 \<or> l")
      case True
      then show ?thesis using Cons.prems(2) ms m by (auto simp: finds_def Let_def)
    next
      case stop: False
      have r: "r = Some it"
        using Cons.prems(2) ms m mc stop False by (auto simp: Let_def split: option.splits)
      have "\<exists>ss. has_entry child ss it \<and> pattern_matches ss (tl tokens)"
        by (rule Cons.prems(1) [OF _ mc [unfolded r]]) simp
      then obtain ss where "has_entry child ss it" "pattern_matches ss (tl tokens)"
        by blast
      then have "has_entry child ss it \<and> pattern_matches (nkey child # ss) tokens"
        using ms m stop by (cases ss) (auto dest: has_entry_not_Nil)
      then have "finds child it tokens"
        unfolding finds_def by blast
      then show ?thesis by simp
    qed
  qed
qed simp

lemma matchchildren_sound:
  "matchchildren t tokens vs = (Some it, vs') \<Longrightarrow>
   \<exists>ss. has_entry t ss it \<and> pattern_matches ss tokens"
proof (induction t arbitrary: tokens vs it vs')
  case (Node k v cs)
  then have "match_loop cs tokens vs = (Some it, vs')"
    by (auto split: if_splits)
  then obtain c ss where c: "c \<in> set cs" "nval c = Some it \<and> ss = [] \<or> has_entry c ss it"
    "pattern_matches (nkey c # ss) tokens"
    using match_loop_sound [of cs] Node.IH unfolding finds_def by blast
  then have "has_entry (Node k v cs) (nkey c # ss) it"
    by (auto intro: has_entry.intros)
  with c(3) show ?case by blast
qed

lemma match_loop_complete:
  assumes "\<And>c ts ws ss it. c \<in> set cs \<Longrightarrow> has_entry c ss it \<Longrightarrow> pattern_matches ss ts \<Longrightarrow>
      fst (matchchildren c ts ws) \<noteq> None"
    and "\<And>c. c \<in> set cs \<Longrightarrow> KStar \<in> ekind ` set (nkey c) \<Longrightarrow> nval c \<noteq> None"
    and "c \<in> set cs" and "finds c it tokens"
  shows "fst (match_loop cs tokens vs) \<noteq> None"
  using assms
proof (induction cs)
  case (Cons child cs)
  obtain m l sv where ms: "MatchSection (nkey child) tokens = (m, l, sv)"
    by (metis prod_cases3)
  let ?sv = "case sv of None \<Rightarrow> Map.empty | Some m \<Rightarrow> m"
  obtain r sv' where mc: "matchchildren child (tl tokens) ?sv = (r, sv')"
    by (metis prod.exhaust)
  have l: "l \<Longrightarrow> nval child \<noteq> None"
    using Cons.prems(2) [of child] MatchSection_lefts [of "nkey child" tokens m sv] ms by auto
  show ?case
  proof (cases "c = child")
    case True
    then obtain ss where ss: "nval child = Some it \<and> ss = [] \<or> has_entry child ss it"
      "pattern_matches (nkey child # ss) tokens"
      using Cons.prems(4) unfolding finds_def by blast
    then have m: "m" using ms by auto
    show ?thesis
    proof (cases "nval child \<noteq> None \<and> length tokens = 1 \<or> l")
      case stop: True
      then show ?thesis using ms m l by (auto simp: Let_def)
    next
      case stop: False
      then have nl: "\<not> l" "nval child = None \<or> length tokens \<noteq> 1" by blast+
      have "ss \<noteq> [] \<and> pattern_matches ss (tl tokens)"
        using ss ms m nl by (cases ss) (auto dest: has_entry_not_Nil)
      then have "r \<noteq> None"
        using Cons.prems(1) [of child ss it "tl tokens" ?sv] ss mc by auto
      then show ?thesis using ms m mc stop by (auto simp: Let_def)
    qed
  next
    case False
    have IH: "fst (match_loop cs tokens vs) \<noteq> None"
      using Cons.prems False by (intro Cons.IH) auto
    then show ?thesis
      using ms l mc by (cases r) (auto simp: Let_def)
  qed
qed simp

lemma matchchildren_complete:
  "star_final t \<Longrightarrow> has_entry t ss it \<Longrightarrow> pattern_matches ss tokens \<Longrightarrow>
   fst (matchchildren t tokens vs) \<noteq> None"
proof (induction t arbitrary: tokens vs ss it)
  case (Node k v cs)
  have tokens: "tokens \<noteq> []"
    using Node.prems(3) by (cases ss; cases tokens) auto
  from Node.prems(2) obtain c us where c: "c \<in> set cs" "ss = nkey c # us"
    "nval c = Some it \<and> us = [] \<or> has_entry c us it"
    by (auto elim: has_entryE)
  then have "finds c it tokens"
    using Node.prems(3) by (auto simp: finds_def)
  then have "fst (match_loop cs tokens vs) \<noteq> None"
    using Node c(1) by (intro match_loop_complete [of cs c]) auto
  then show ?case using tokens by simp
qed

lemma has_entry_lookup:
  "has_entry t ss it \<Longrightarrow> wf_tree t \<Longrightarrow> lookup_pat t (map tostr ss) = Some it"
proof (induction rule: has_entry.induct)
  case (entry_here c cs it k v)
  then have "child_map cs (tostr (nkey c)) = Some c"
    by (simp add: map_of_eq_Some_iff o_def)
  then show ?case using entry_here by (cases c) auto
next
  case (entry_below c cs ss it k v)
  then have "child_map cs (tostr (nkey c)) = Some c"
    by (simp add: map_of_eq_Some_iff o_def)
  then show ?case using entry_below by auto
qed

lemma lookup_has_entry:
  "lookup_pat t ts = Some it \<Longrightarrow> ts \<noteq> [] \<Longrightarrow> \<exists>ss. has_entry t ss it \<and> map tostr ss = ts"
proof (induction t ts rule: lookup_pat.induct)
  case (2 k v cs t ts)
  then obtain c where c: "child_map cs t = Some c" and l: "lookup_pat c ts = Some it"
    by (auto split: option.splits)
  note ck = child_map_key [OF c]
  show ?case
  proof (cases "ts = []")
    case True
    then have "nval c = Some it" using l by (cases c) simp
    then have "has_entry (Node k v cs) [nkey c] it" using ck by (auto intro: has_entry.intros)
    with ck True show ?thesis by (intro exI [of _ "[nkey c]"]) simp
  next
    case False
    then obtain ss where "has_entry c ss it" "map tostr ss = ts"
      using "2.IH" [OF c l] by blast
    with ck show ?thesis by (intro exI [of _ "nkey c # ss"]) (auto intro: has_entry.intros)
  qed
qed simp

lemma wf_tree_Handle: "wf_tree mux \<Longrightarrow> wf_tree (mux_Handle mux p h)"
  by (auto simp: mux_Handle_def Register_def split: sum.splits intro: wf_tree_register)

lemma wf_tree_Handles: "wf_tree mux \<Longrightarrow> wf_tree (foldl (\<lambda>m (p, h). mux_Handle m p h) mux rs)"
  by (induction rs arbitrary: mux) (auto intro: wf_tree_Handle)

lemma compile_tokens_Inr:
  "compile_tokens ts = Inr ss \<Longrightarrow> length ss = length ts"
  by (induction ts arbitrary: ss) (auto split: if_splits sum.splits)

lemma CompilePathPattern_not_Nil:
  assumes "CompilePathPattern p = Inr ss" and "p \<noteq> []"
  shows "ss \<noteq> []"
proof
  assume "ss = []"
  then have "ParsePathTokens p = []"
    using assms compile_tokens_Inr by (fastforce simp: CompilePathPattern_def)
  then show False using ParsePathTokens_concat [of p] assms(2) by simp
qed

section \<open>Properties\<close>

text \<open>The tokens of a path are the one way to cut it into slashes and slash-free words
  that never stand side by side: they concatenate to the path, they have that form, and every
  list of that form that concatenates to the path is the list of its tokens.\<close>

theorem ParsePathTokens_characterised:
  "tokens_ok ts \<and> concat ts = p \<longleftrightarrow> ts = ParsePathTokens p"
  by (metis ParsePathTokens_concat ParsePathTokens_ok ParsePathTokens_of_concat)

text \<open>Compiling a section succeeds with some elements exactly when those elements are in
  normal form and render back to the pattern, so compiling loses nothing and every normal form
  is the compilation of its own text.\<close>

theorem CompileSection_iff:
  "CompileSection p = Inr es \<longleftrightarrow> wf_elems es \<and> es \<noteq> [] \<and> render_all es = p"
  using CompileSection_wf CompileSection_render CompileSection_render_all by blast





text \<open>Whatever patterns a multiplexer is given, in any order and with any conflicts and
  errors dropped on the way, its tree stays well formed: no two siblings spell the same
  pattern, and siblings stand in the order in which the search must try them.\<close>

theorem mux_wf_always:
  "wf_tree (foldl (\<lambda>m (p, h). mux_Handle m p h) empty_matcher rs)"
  by (rule wf_tree_Handles) (rule wf_empty_matcher)



text \<open>Two shortcomings of the tree on concrete routes. A starred section that is not the
  last one has no item, and its match ends the search: with \<open>/a*/b\<close> registered, a request
  that only \<open>/a{y}*\<close> matches is not found. And a pattern that shares a node keeps the names
  of the first pattern: \<open>/{b}/y\<close> registered after \<open>/{a}/x\<close> binds \<open>a\<close>, not \<open>b\<close>.\<close>

lemma route_tree_shortcomings:
  "served_view (mux_ServeHTTP (mux_Handle (mux_Handle empty_matcher ''/a*/b'' (1 :: nat)) ''/a{y}*'' 2)
       ''/abc'') ''y'' = None \<and>
   served_view (mux_ServeHTTP (mux_Handle empty_matcher ''/a{y}*'' (2 :: nat)) ''/abc'') ''y''
     = Some (2, Some ''bc'') \<and>
   served_view (mux_ServeHTTP (mux_Handle (mux_Handle empty_matcher ''/{a}/x'' (1 :: nat)) ''/{b}/y'' 2)
       ''/1/y'') ''b'' = Some (2, None) \<and>
   served_view (mux_ServeHTTP (mux_Handle (mux_Handle empty_matcher ''/{a}/x'' (1 :: nat)) ''/{b}/y'' 2)
       ''/1/y'') ''a'' = Some (2, Some ''1'')"
  by (intro conjI; code_simp)

text \<open>Where the documentation of the router and the code part: \<open>/api/v{version}/{group}\<close>
  does not match \<open>/api/v1/\<close> with an empty group, and of \<open>/aXb\<close> and \<open>/a{x}b\<close> the request
  \<open>/aXb\<close> goes to the one with a parameter, not to the one without.\<close>

lemma route_documented_examples:
  "served_view (mux_ServeHTTP (mux_Handle empty_matcher ''/api/v{version}/{group}'' (1 :: nat))
       ''/api/v1/'') ''group'' = None \<and>
   served_view (mux_ServeHTTP (mux_Handle (mux_Handle empty_matcher ''/aXb'' (1 :: nat)) ''/a{x}b'' 2)
       ''/aXb'') ''x'' = Some (2, Some ''X'')"
  by (intro conjI; code_simp)

end
