(* ===== verification/Tunnel_Conn.thy ===== *)
theory Tunnel_Conn
  imports Tunnel_Packet
begin

text \<open>
  The connections multiplexed over a tunnel: \<open>TunnelConn\<close> (\<open>pkg/edge/tunnel/tunnelconn.go\<close>)
  and \<open>Connections\<close>, \<open>ConnectionManager\<close> (\<open>tunnelconnmanager.go\<close>).

  A \<open>*TunnelConn\<close> outlives its entry in the map \<open>connections\<close>: the reader keeps the pointer
  after the entry is gone. \<open>conn_heap\<close> holds every object of a \<open>Connections\<close> by its
  \<open>localConnectionID\<close>, which never changes, and \<open>conn_ids\<close> the keys of the map, in an
  arbitrary order. A buffered Go channel is the list of what is in it; \<open>closed\<close> is set in the
  same step as \<open>close(conn.ack)\<close>. Operations return the packets they hand to the channel of the
  connection, with the number of that channel. What closing the raw network connection
  returns (\<open>raw\<close>) and whether a \<open>Send\<close> fails are arguments.
\<close>

section \<open>State\<close>

record connect_data =
  remoteID :: "64 word"
  cd_err :: string
  cd_data :: "8 word list option"

record tunnel_conn =
  channel :: connected_tunnel
  has_rawConn :: bool
  c_local :: string
  localConnectionID :: "64 word"
  remote :: string
  remoteConnectionID :: "64 word"
  rdata :: "8 word list option"
  closed :: bool
  ack :: "connect_data list"

record connections =
  cs_local :: string
  autoinc :: "64 word"
  conn_heap :: "(64 word, tunnel_conn) gomap"
  conn_ids :: "64 word list"

definition DefaultDataChannelSize :: nat where
  "DefaultDataChannelSize = 512"

definition net_ErrClosed :: string where
  "net_ErrClosed = ''use of closed network connection''"

definition ErrFullChannel :: string where
  "ErrFullChannel = ''channel full''"

definition io_EOF :: string where
  "io_EOF = ''EOF''"

definition new_connections :: "string \<Rightarrow> connections" where
  "new_connections loc = \<lparr>cs_local = loc, autoinc = 0, conn_heap = [], conn_ids = []\<rparr>"

section \<open>One connection\<close>

definition sendPkt :: "tunnel_conn \<Rightarrow> (packet \<Rightarrow> packet) \<Rightarrow> nat \<times> packet" where
  "sendPkt c f = (chan_id (channel c),
     f (zero_packet\<lparr>Kind := PacketKindData, Src := c_local c, SrcCID := localConnectionID c,
                    Dest := remote c, DestCID := remoteConnectionID c\<rparr>))"

definition sendData :: "tunnel_conn \<Rightarrow> 8 word list option \<Rightarrow> nat \<times> packet" where
  "sendData c d = sendPkt c (\<lambda>p. p\<lparr>Kind := PacketKindData, Data := Raw d\<rparr>)"

definition sendClose :: "tunnel_conn \<Rightarrow> string option \<Rightarrow> nat \<times> packet" where
  "sendClose c e = sendPkt c (\<lambda>p. let q = p\<lparr>Kind := PacketKindClose\<rparr> in
      case e of None \<Rightarrow> q | Some m \<Rightarrow> q\<lparr>Err := m\<rparr>)"

definition sendOpen :: "tunnel_conn \<Rightarrow> packet_data_open \<Rightarrow> nat \<times> packet" where
  "sendOpen c d = sendPkt c (\<lambda>p. p\<lparr>Kind := PacketKindOpen, Data := JsonOpen d\<rparr>)"

definition conn_recv :: "tunnel_conn \<Rightarrow> 64 word \<Rightarrow> 8 word list option \<Rightarrow> string \<Rightarrow> tunnel_conn \<times> string option" where
  "conn_recv c remotecid data err =
     (if length (ack c) < DefaultDataChannelSize
      then (c\<lparr>ack := ack c @ [\<lparr>remoteID = remotecid, cd_err = err, cd_data = data\<rparr>]\<rparr>, None)
      else (c, Some ErrFullChannel))"

definition deliver :: "tunnel_conn \<Rightarrow> 8 word list \<Rightarrow> nat \<Rightarrow> tunnel_conn \<times> 8 word list \<times> string option" where
  "deliver c data n =
     (if length data > n then (c\<lparr>rdata := Some (drop n data)\<rparr>, take n data, None)
      else (c\<lparr>rdata := None\<rparr>, data, None))"

text \<open>\<open>Read\<close> into a buffer of \<open>n\<close> bytes; \<^const>\<open>None\<close> while it waits for the channel.\<close>

definition Read :: "tunnel_conn \<Rightarrow> nat \<Rightarrow> (tunnel_conn \<times> 8 word list \<times> string option) option" where
  "Read c n =
     (case rdata c of
        Some data \<Rightarrow> Some (deliver c data n)
      | None \<Rightarrow>
         (case ack c of
            [] \<Rightarrow> if closed c then Some (c, [], Some net_ErrClosed) else None
          | a # as \<Rightarrow>
              let c' = c\<lparr>ack := as\<rparr> in
              if cd_err a = ''EOF'' then Some (c', [], Some io_EOF)
              else if cd_err a \<noteq> [] then Some (c', [], Some (cd_err a))
              else (case cd_data a of
                      None \<Rightarrow> Some (c', [], Some io_EOF)
                    | Some data \<Rightarrow> Some (deliver c' data n))))"

text \<open>\<open>Write\<close>: the error of \<open>Send\<close> is \<open>tx\<close> of the packet.\<close>

definition Write ::
  "(nat \<times> packet \<Rightarrow> string option) \<Rightarrow> tunnel_conn \<Rightarrow> 8 word list option \<Rightarrow> (nat \<times> packet) list \<times> (string + nat)" where
  "Write tx c b =
     (if closed c then ([], Inl net_ErrClosed)
      else let m = sendData c b in
        case tx m of Some e \<Rightarrow> ([m], Inl e)
        | None \<Rightarrow> ([m], Inr (case b of None \<Rightarrow> 0 | Some bs \<Rightarrow> length bs)))"

section \<open>The connections of one tunnel\<close>

definition pending ::
  "connected_tunnel \<Rightarrow> string \<Rightarrow> 64 word \<Rightarrow> connections \<Rightarrow> 64 word \<times> connections" where
  "pending tun rem remotecid cs =
    (let cid = autoinc cs + 1;
         conn = \<lparr>channel = tun, has_rawConn = False, c_local = cs_local cs, localConnectionID = cid,
                 remote = rem, remoteConnectionID = remotecid, rdata = None, closed = False, ack = []\<rparr>
     in (cid, cs\<lparr>autoinc := cid, conn_heap := AList.update cid conn (conn_heap cs),
                 conn_ids := (if cid \<in> set (conn_ids cs) then conn_ids cs else conn_ids cs @ [cid])\<rparr>))"

definition conn_get :: "connections \<Rightarrow> 64 word \<Rightarrow> tunnel_conn option" where
  "conn_get cs cid = (if cid \<in> set (conn_ids cs) then map_of (conn_heap cs) cid else None)"

definition conn_set :: "64 word \<Rightarrow> tunnel_conn \<Rightarrow> connections \<Rightarrow> connections" where
  "conn_set cid c cs = cs\<lparr>conn_heap := AList.update cid c (conn_heap cs)\<rparr>"

definition opened :: "64 word \<Rightarrow> 64 word \<Rightarrow> connections \<Rightarrow> connections" where
  "opened cid remotecid cs =
     (case map_of (conn_heap cs) cid of
        None \<Rightarrow> cs | Some c \<Rightarrow> conn_set cid (c\<lparr>remoteConnectionID := remotecid\<rparr>) cs)"

definition closeWihoutLock ::
  "(tunnel_conn \<Rightarrow> string option) \<Rightarrow> 64 word \<Rightarrow> connections \<Rightarrow> connections \<times> string option" where
  "closeWihoutLock raw cid cs =
     (case conn_get cs cid of
        None \<Rightarrow> (cs, None)
      | Some c \<Rightarrow>
          ((conn_set cid (c\<lparr>closed := True\<rparr>) cs)\<lparr>conn_ids := removeAll cid (conn_ids cs)\<rparr>,
           if has_rawConn c then raw c else None))"

definition flush :: "(tunnel_conn \<Rightarrow> string option) \<Rightarrow> connections \<Rightarrow> connections" where
  "flush raw cs = foldl (\<lambda>cs cid. fst (closeWihoutLock raw cid cs)) cs (conn_ids cs)"

text \<open>
  \<open>TunnelConn.Close\<close>: close the entry of the remote connection number in the map of the
  tunnel, then tell the other side.
\<close>

definition conn_Close ::
  "(tunnel_conn \<Rightarrow> string option) \<Rightarrow> 64 word \<Rightarrow> connections \<Rightarrow> connections \<times> (nat \<times> packet) list" where
  "conn_Close raw cid cs =
     (case map_of (conn_heap cs) cid of
        None \<Rightarrow> (cs, [])
      | Some c \<Rightarrow>
          let (cs', e) = closeWihoutLock raw (remoteConnectionID c) cs in (cs', [sendClose c e]))"

section \<open>Opening and accepting\<close>

text \<open>
  \<open>Open\<close> after the channel is selected: register, send the open packet. When the send fails
  the source returns the error at once.
\<close>

definition Open_send ::
  "(nat \<times> packet \<Rightarrow> string option) \<Rightarrow> connected_tunnel \<Rightarrow> string \<Rightarrow> packet_data_open \<Rightarrow> connections
     \<Rightarrow> connections \<times> (nat \<times> packet) list \<times> (string + 64 word)" where
  "Open_send tx tun dest d cs =
    (let (cid, cs') = pending tun dest 0 cs in
     case map_of (conn_heap cs') cid of
       None \<Rightarrow> (cs', [], Inr cid)
     | Some c \<Rightarrow> let m = sendOpen c d in
         (cs', [m], case tx m of Some e \<Rightarrow> Inl e | None \<Rightarrow> Inr cid))"

text \<open>The \<open>select\<close> of \<open>Open\<close>: the channel, the dial context, or the longest wait.\<close>

datatype open_event = AckReady | DialDone string | MaxOpenConnectTimeout

definition Open_wait ::
  "(tunnel_conn \<Rightarrow> string option) \<Rightarrow> open_event \<Rightarrow> 64 word \<Rightarrow> connections
     \<Rightarrow> (connections \<times> (nat \<times> packet) list \<times> (string + 64 word)) option" where
  "Open_wait raw ev cid cs =
    (let fail = (\<lambda>cs e. let (cs', out) = conn_Close raw cid cs in (cs', out, Inl e)) in
     case map_of (conn_heap cs) cid of
       None \<Rightarrow> None
     | Some c \<Rightarrow>
        (case ev of
           DialDone e \<Rightarrow> Some (fail cs e)
         | MaxOpenConnectTimeout \<Rightarrow> Some (fail cs ''dial timeout'')
         | AckReady \<Rightarrow>
            (case ack c of
               [] \<Rightarrow> if closed c then Some (fail cs net_ErrClosed) else None
             | a # as \<Rightarrow>
                 let cs' = conn_set cid (c\<lparr>ack := as\<rparr>) cs in
                 if cd_err a \<noteq> [] then Some (fail cs' (cd_err a))
                 else if remoteID a = 0 then Some (fail cs' ''empty remote connection id'')
                 else Some (opened cid (remoteID a) cs', [], Inr cid))))"

text \<open>
  \<open>accept\<close> up to the copying: register, dial the network (the result is an argument), then
  report the failure or acknowledge with an empty data packet. The result says whether the
  copying starts; otherwise the deferred \<open>Close\<close> has run.
\<close>

definition accept_open ::
  "(tunnel_conn \<Rightarrow> string option) \<Rightarrow> (nat \<times> packet \<Rightarrow> string option) \<Rightarrow> (packet_data_open \<Rightarrow> string option)
     \<Rightarrow> connected_tunnel \<Rightarrow> string \<Rightarrow> 64 word \<Rightarrow> packet_data_open \<Rightarrow> connections
     \<Rightarrow> connections \<times> (nat \<times> packet) list \<times> 64 word \<times> bool" where
  "accept_open raw tx dial tun rem remotecid d cs =
    (let (cid, cs1) = pending tun rem remotecid cs in
     case map_of (conn_heap cs1) cid of
       None \<Rightarrow> (cs1, [], cid, False)
     | Some c \<Rightarrow>
        (case dial d of
           Some e \<Rightarrow> let (cs2, out) = conn_Close raw cid cs1 in (cs2, sendClose c (Some e) # out, cid, False)
         | None \<Rightarrow>
             let m = sendData c (Some []) in
             (case tx m of
                Some e \<Rightarrow> let (cs2, out) = conn_Close raw cid cs1 in (cs2, m # out, cid, False)
              | None \<Rightarrow> (conn_set cid (c\<lparr>has_rawConn := True\<rparr>) cs1, [m], cid, True))))"

section \<open>The manager\<close>

type_synonym connection_manager = "(string, connections) gomap"

definition cm_tunnel :: "string \<Rightarrow> connected_tunnel \<Rightarrow> connection_manager \<Rightarrow> connections \<times> connection_manager" where
  "cm_tunnel sid tun m =
     (case map_of m (tun_ID tun) of
        Some cs \<Rightarrow> (cs, m)
      | None \<Rightarrow> let cs = new_connections sid in (cs, AList.update (tun_ID tun) cs m))"

definition cm_put :: "connected_tunnel \<Rightarrow> connections \<Rightarrow> connection_manager \<Rightarrow> connection_manager" where
  "cm_put tun cs m = AList.update (tun_ID tun) cs m"

definition cm_recv ::
  "string \<Rightarrow> connected_tunnel \<Rightarrow> 64 word \<Rightarrow> 64 word \<Rightarrow> 8 word list option \<Rightarrow> string
     \<Rightarrow> connection_manager \<Rightarrow> connection_manager \<times> string option" where
  "cm_recv sid tun fromCID localcid data err m =
    (let (cs, m') = cm_tunnel sid tun m in
     case conn_get cs localcid of
       None \<Rightarrow> (m', Some net_ErrClosed)
     | Some c \<Rightarrow>
         if closed c then (m', Some net_ErrClosed)
         else let (c', e) = conn_recv c fromCID data err in
           (cm_put tun (conn_set localcid c' cs) m', e))"

definition cm_close ::
  "(tunnel_conn \<Rightarrow> string option) \<Rightarrow> string \<Rightarrow> connected_tunnel \<Rightarrow> 64 word \<Rightarrow> connection_manager \<Rightarrow> connection_manager" where
  "cm_close raw sid tun localcid m =
    (let (cs, m') = cm_tunnel sid tun m in cm_put tun (fst (closeWihoutLock raw localcid cs)) m')"

definition tunnelClose ::
  "(tunnel_conn \<Rightarrow> string option) \<Rightarrow> string \<Rightarrow> connected_tunnel \<Rightarrow> connection_manager \<Rightarrow> connection_manager" where
  "tunnelClose raw sid tun m =
    (let (cs, m') = cm_tunnel sid tun m in cm_put tun (flush raw cs) m')"

section \<open>Invariant\<close>

definition wf_conns :: "connections \<Rightarrow> bool" where
  "wf_conns cs \<longleftrightarrow> wf_map (conn_heap cs) \<and> distinct (conn_ids cs) \<and>
     (\<forall>(i, c) \<in> set (conn_heap cs). localConnectionID c = i \<and> 0 < unat i \<and> unat i \<le> unat (autoinc cs)) \<and>
     (\<forall>i \<in> set (conn_ids cs). \<exists>c. map_of (conn_heap cs) i = Some c \<and> \<not> closed c)"

lemma wf_conns_lookup:
  "wf_conns cs \<Longrightarrow> map_of (conn_heap cs) i = Some c
     \<Longrightarrow> localConnectionID c = i \<and> 0 < unat i \<and> unat i \<le> unat (autoinc cs)"
  unfolding wf_conns_def by (auto dest!: map_of_SomeD)

lemma wf_conns_registered:
  "wf_conns cs \<Longrightarrow> i \<in> set (conn_ids cs) \<Longrightarrow> \<exists>c. map_of (conn_heap cs) i = Some c \<and> \<not> closed c"
  unfolding wf_conns_def by blast

lemma wf_new_connections [simp]: "wf_conns (new_connections loc)"
  by (simp add: wf_conns_def new_connections_def)

lemma wf_conn_set:
  assumes "wf_conns cs" and "map_of (conn_heap cs) cid = Some c"
    and "localConnectionID c' = localConnectionID c" and "closed c' = closed c"
  shows "wf_conns (conn_set cid c' cs)"
proof -
  have "\<forall>(i, c) \<in> set (AList.update cid c' (conn_heap cs)).
      localConnectionID c = i \<and> 0 < unat i \<and> unat i \<le> unat (autoinc cs)"
    using assms(1) wf_conns_lookup [OF assms(1,2)] assms(3)
    unfolding wf_conns_def by (auto dest!: update_mem)
  moreover have "\<exists>d. map_of (AList.update cid c' (conn_heap cs)) i = Some d \<and> \<not> closed d"
    if "i \<in> set (conn_ids cs)" for i
    using wf_conns_registered [OF assms(1) that] assms(2,4) by auto
  ultimately show ?thesis
    using assms(1) unfolding wf_conns_def by (simp add: conn_set_def)
qed

lemma wf_opened: "wf_conns cs \<Longrightarrow> wf_conns (opened cid r cs)"
  by (auto simp: opened_def intro: wf_conn_set split: option.splits)

lemma autoinc_step: "unat (a :: 64 word) < 2 ^ 64 - 1 \<Longrightarrow> unat (a + 1) = Suc (unat a)"
  by (simp add: unat_word_ariths)

lemma wf_pending:
  assumes "wf_conns cs" and "unat (autoinc cs) < 2 ^ 64 - 1"
    and "pending tun rem r cs = (cid, cs')"
  shows "wf_conns cs' \<and> map_of (conn_heap cs) cid = None \<and> cid \<notin> set (conn_ids cs) \<and> cid \<noteq> 0
    \<and> conn_ids cs' = conn_ids cs @ [cid] \<and> unat (autoinc cs') = Suc (unat (autoinc cs))
    \<and> map_of (conn_heap cs') = (map_of (conn_heap cs))(cid \<mapsto>
         \<lparr>channel = tun, has_rawConn = False, c_local = cs_local cs, localConnectionID = cid,
          remote = rem, remoteConnectionID = r, rdata = None, closed = False, ack = []\<rparr>)"
proof -
  have cid: "cid = autoinc cs + 1" "unat cid = Suc (unat (autoinc cs))"
    using assms(2,3) autoinc_step by (auto simp: pending_def Let_def)
  have none: "map_of (conn_heap cs) cid = None"
    using wf_conns_lookup [OF assms(1), of cid] cid by fastforce
  then have nid: "cid \<notin> set (conn_ids cs)"
    using wf_conns_registered [OF assms(1), of cid] by auto
  have le: "\<forall>(i, c) \<in> set (conn_heap cs). localConnectionID c = i \<and> 0 < unat i \<and> unat i \<le> Suc (unat (autoinc cs))"
    using assms(1) unfolding wf_conns_def by fastforce
  show ?thesis
    using assms(1,3) cid none nid le unfolding wf_conns_def
    by (auto simp: pending_def Let_def dest!: update_mem)
qed

lemma closeWihoutLock_cases:
  assumes "wf_conns cs"
  shows "closeWihoutLock raw cid cs =
    (if cid \<in> set (conn_ids cs) then
       let c = the (map_of (conn_heap cs) cid) in
       ((conn_set cid (c\<lparr>closed := True\<rparr>) cs)\<lparr>conn_ids := removeAll cid (conn_ids cs)\<rparr>,
        if has_rawConn c then raw c else None)
     else (cs, None))"
  using wf_conns_registered [OF assms, of cid]
  by (auto simp: closeWihoutLock_def conn_get_def Let_def)

lemma wf_closeWihoutLock:
  assumes "wf_conns cs"
  shows "wf_conns (fst (closeWihoutLock raw cid cs))"
proof (cases "cid \<in> set (conn_ids cs)")
  case True
  then obtain c where c: "map_of (conn_heap cs) cid = Some c"
    using wf_conns_registered [OF assms] by blast
  note l = wf_conns_lookup [OF assms c]
  have "\<forall>(i, c) \<in> set (AList.update cid (c\<lparr>closed := True\<rparr>) (conn_heap cs)).
      localConnectionID c = i \<and> 0 < unat i \<and> unat i \<le> unat (autoinc cs)"
    using assms l unfolding wf_conns_def by (auto dest!: update_mem)
  moreover have "\<forall>i \<in> set (removeAll cid (conn_ids cs)).
      \<exists>c'. map_of (AList.update cid (c\<lparr>closed := True\<rparr>) (conn_heap cs)) i = Some c' \<and> \<not> closed c'"
    using wf_conns_registered [OF assms] by auto
  ultimately show ?thesis
    using assms c True unfolding wf_conns_def
    by (simp add: closeWihoutLock_cases [OF assms] Let_def conn_set_def distinct_removeAll)
next
  case False
  with assms show ?thesis by (simp add: closeWihoutLock_cases)
qed

lemma conn_ids_closeWihoutLock:
  "wf_conns cs \<Longrightarrow> conn_ids (fst (closeWihoutLock raw cid cs)) = removeAll cid (conn_ids cs)"
  by (auto simp: closeWihoutLock_cases Let_def)

lemma autoinc_closeWihoutLock [simp]: "autoinc (fst (closeWihoutLock raw cid cs)) = autoinc cs"
  by (auto simp: closeWihoutLock_def conn_set_def split: option.splits)

lemma wf_conn_Close: "wf_conns cs \<Longrightarrow> wf_conns (fst (conn_Close raw cid cs))"
  by (auto simp: conn_Close_def Let_def split: option.splits prod.splits dest: wf_closeWihoutLock [of cs raw]
      intro: wf_closeWihoutLock) (metis fst_conv wf_closeWihoutLock)

lemma autoinc_conn_Close [simp]: "autoinc (fst (conn_Close raw cid cs)) = autoinc cs"
  by (auto simp: conn_Close_def Let_def split: option.splits prod.splits)
    (metis fst_conv autoinc_closeWihoutLock)

lemma flush_fold:
  assumes "wf_conns cs"
  shows "wf_conns (foldl (\<lambda>cs cid. fst (closeWihoutLock raw cid cs)) cs ids)
    \<and> set (conn_ids (foldl (\<lambda>cs cid. fst (closeWihoutLock raw cid cs)) cs ids)) = set (conn_ids cs) - set ids
    \<and> autoinc (foldl (\<lambda>cs cid. fst (closeWihoutLock raw cid cs)) cs ids) = autoinc cs"
  using assms
proof (induction ids arbitrary: cs)
  case (Cons i ids)
  have "wf_conns (fst (closeWihoutLock raw i cs))" by (rule wf_closeWihoutLock [OF Cons.prems])
  from Cons.IH [OF this] show ?case
    by (auto simp: conn_ids_closeWihoutLock [OF Cons.prems])
qed simp

lemma wf_flush: "wf_conns cs \<Longrightarrow> wf_conns (flush raw cs) \<and> conn_ids (flush raw cs) = [] \<and> autoinc (flush raw cs) = autoinc cs"
  using flush_fold [of cs raw "conn_ids cs"] by (auto simp: flush_def)

section \<open>Operations keep the invariant\<close>

lemma autoinc_conn_set [simp]: "autoinc (conn_set i c cs) = autoinc cs"
  by (simp add: conn_set_def)

lemma autoinc_opened [simp]: "autoinc (opened i r cs) = autoinc cs"
  by (simp add: opened_def split: option.splits)

lemma wf_Open_send:
  assumes "wf_conns cs" and "unat (autoinc cs) < 2 ^ 64 - 1" and "Open_send tx tun dest d cs = (cs', out, r)"
  shows "wf_conns cs' \<and> unat (autoinc cs') \<le> Suc (unat (autoinc cs))"
proof -
  obtain cid cs1 where p: "pending tun dest 0 cs = (cid, cs1)" by fastforce
  from assms(3) wf_pending [OF assms(1,2) p] show ?thesis
    by (auto simp: Open_send_def p Let_def)
qed

lemma wf_Open_wait:
  assumes "wf_conns cs" and "Open_wait raw ev cid cs = Some (cs', out, r)"
  shows "wf_conns cs' \<and> autoinc cs' = autoinc cs"
proof -
  obtain c where c: "map_of (conn_heap cs) cid = Some c"
    using assms(2) by (auto simp: Open_wait_def Let_def split: option.splits)
  have fail: "wf_conns cs2 \<and> autoinc cs2 = autoinc cs1"
    if "conn_Close raw cid cs1 = (cs2, out')" "wf_conns cs1" for cs1 cs2 out'
    using wf_conn_Close [OF that(2), of raw cid] autoinc_conn_Close [of raw cid cs1] that(1) by simp
  have set: "wf_conns (conn_set cid (c\<lparr>ack := as\<rparr>) cs)" for as
    by (rule wf_conn_set [OF assms(1) c]) simp_all
  show ?thesis
    using assms(2) c assms(1) set
    by (auto simp: Open_wait_def Let_def wf_opened dest!: fail
        split: open_event.splits list.splits if_splits prod.splits)
qed

lemma wf_accept_open:
  assumes "wf_conns cs" and "unat (autoinc cs) < 2 ^ 64 - 1"
    and "accept_open raw tx dial tun rem r d cs = (cs', out, cid, b)"
  shows "wf_conns cs' \<and> unat (autoinc cs') \<le> Suc (unat (autoinc cs))"
proof -
  obtain cid1 cs1 where p: "pending tun rem r cs = (cid1, cs1)" by fastforce
  note w = wf_pending [OF assms(1,2) p]
  obtain c where c: "map_of (conn_heap cs1) cid1 = Some c" using w by auto
  obtain cs2 out2 where f: "conn_Close raw cid1 cs1 = (cs2, out2)" by fastforce
  then have fail: "wf_conns cs2 \<and> autoinc cs2 = autoinc cs1"
    using wf_conn_Close [of cs1 raw cid1] autoinc_conn_Close [of raw cid1 cs1] w by simp
  have ok: "wf_conns (conn_set cid1 (c\<lparr>has_rawConn := True\<rparr>) cs1)"
    by (rule wf_conn_set [OF _ c]) (use w in simp_all)
  have "autoinc cs' = autoinc cs1 \<and> wf_conns cs'"
    using assms(3) fail ok
    by (simp add: accept_open_def p c f Let_def split: option.splits) auto
  with w show ?thesis by simp
qed

definition wf_manager :: "connection_manager \<Rightarrow> bool" where
  "wf_manager m \<longleftrightarrow> wf_map m \<and> (\<forall>(i, cs) \<in> set m. wf_conns cs)"

lemma wf_manager_lookup: "wf_manager m \<Longrightarrow> map_of m i = Some cs \<Longrightarrow> wf_conns cs"
  unfolding wf_manager_def by (auto dest!: map_of_SomeD)

lemma wf_cm_tunnel:
  "wf_manager m \<Longrightarrow> cm_tunnel sid tun m = (cs, m') \<Longrightarrow> wf_conns cs \<and> wf_manager m' \<and> map_of m' (tun_ID tun) = Some cs"
  by (auto simp: cm_tunnel_def Let_def wf_manager_def dest!: map_of_SomeD update_mem
      split: option.splits)

lemma wf_cm_put: "wf_manager m \<Longrightarrow> wf_conns cs \<Longrightarrow> wf_manager (cm_put tun cs m)"
  unfolding wf_manager_def cm_put_def by (auto dest!: update_mem)

lemma wf_cm_recv:
  assumes "wf_manager m" and "cm_recv sid tun r l d e m = (m', res)"
  shows "wf_manager m'"
proof -
  obtain cs m1 where t: "cm_tunnel sid tun m = (cs, m1)" by fastforce
  note w = wf_cm_tunnel [OF assms(1) t]
  have "wf_conns (conn_set l c' cs)"
    if "conn_get cs l = Some c" "conn_recv c r d e = (c', x)" for c c' x
    using that w by (intro wf_conn_set [of cs l c]) (auto simp: conn_get_def conn_recv_def split: if_splits)
  then show ?thesis
    using assms(2) w by (auto simp: cm_recv_def t intro: wf_cm_put split: option.splits if_splits prod.splits)
qed

lemma wf_cm_close:
  assumes "wf_manager m"
  shows "wf_manager (cm_close raw sid tun l m)"
proof -
  obtain cs m1 where t: "cm_tunnel sid tun m = (cs, m1)" by fastforce
  note w = wf_cm_tunnel [OF assms t]
  then have "wf_manager (cm_put tun (fst (closeWihoutLock raw l cs)) m1)"
    by (simp add: wf_cm_put wf_closeWihoutLock)
  then show ?thesis by (simp add: cm_close_def t)
qed

lemma wf_tunnelClose:
  assumes "wf_manager m"
  shows "wf_manager (tunnelClose raw sid tun m)"
proof -
  obtain cs m1 where t: "cm_tunnel sid tun m = (cs, m1)" by fastforce
  note w = wf_cm_tunnel [OF assms t]
  then have "wf_manager (cm_put tun (flush raw cs) m1)"
    by (simp add: wf_cm_put wf_flush)
  then show ?thesis by (simp add: tunnelClose_def t)
qed

section \<open>The byte stream of a connection\<close>

text \<open>The bytes still to be read, and how the stream ends once they are.\<close>

fun ack_bytes :: "connect_data list \<Rightarrow> 8 word list" where
  "ack_bytes [] = []"
| "ack_bytes (a # as) =
     (if cd_err a \<noteq> [] then []
      else case cd_data a of None \<Rightarrow> [] | Some d \<Rightarrow> d @ ack_bytes as)"

fun ack_end :: "bool \<Rightarrow> connect_data list \<Rightarrow> string option" where
  "ack_end cl [] = (if cl then Some net_ErrClosed else None)"
| "ack_end cl (a # as) =
     (if cd_err a \<noteq> [] then Some (cd_err a)
      else case cd_data a of None \<Rightarrow> Some io_EOF | Some d \<Rightarrow> ack_end cl as)"

definition rdata_bytes :: "tunnel_conn \<Rightarrow> 8 word list" where
  "rdata_bytes c = (case rdata c of None \<Rightarrow> [] | Some d \<Rightarrow> d)"

definition unread :: "tunnel_conn \<Rightarrow> 8 word list" where
  "unread c = rdata_bytes c @ ack_bytes (ack c)"

text \<open>\<open>io.Copy\<close> from the connection with a buffer of \<open>n\<close> bytes, until an error or until it has to wait.\<close>

fun io_Copy :: "nat \<Rightarrow> tunnel_conn \<Rightarrow> nat \<Rightarrow> (tunnel_conn \<times> 8 word list \<times> string option) option" where
  "io_Copy 0 c n = None"
| "io_Copy (Suc fuel) c n =
     (case Read c n of
        None \<Rightarrow> Some (c, [], None)
      | Some (c', bs, Some e) \<Rightarrow> Some (c', bs, Some e)
      | Some (c', bs, None) \<Rightarrow>
          map_option (\<lambda>(c'', out, e). (c'', bs @ out, e)) (io_Copy fuel c' n))"

definition read_cost :: "tunnel_conn \<Rightarrow> nat" where
  "read_cost c = (case rdata c of None \<Rightarrow> 0 | Some d \<Rightarrow> Suc (length d)) +
     sum_list (map (\<lambda>a. 2 + (case cd_data a of None \<Rightarrow> 0 | Some d \<Rightarrow> length d)) (ack c))"

lemma Read_step:
  assumes "Read c n = Some (c', bs, None)"
  shows "bs @ unread c' = unread c \<and> length bs \<le> n \<and> closed c' = closed c \<and>
    ack_end (closed c') (ack c') = ack_end (closed c) (ack c) \<and> (0 < n \<longrightarrow> read_cost c' < read_cost c)"
  using assms
  by (auto simp: Read_def deliver_def unread_def rdata_bytes_def read_cost_def Let_def
      split: option.splits list.splits if_splits)

lemma Read_stop:
  assumes "Read c n = Some (c', bs, Some e)"
  shows "bs = [] \<and> unread c = [] \<and> ack_end (closed c) (ack c) = Some e"
  using assms
  by (auto simp: Read_def deliver_def unread_def rdata_bytes_def io_EOF_def Let_def
      split: option.splits list.splits if_splits)

lemma Read_wait: "Read c n = None \<Longrightarrow> unread c = [] \<and> ack_end (closed c) (ack c) = None"
  by (auto simp: Read_def unread_def rdata_bytes_def Let_def
      split: option.splits list.splits if_splits)

lemma io_Copy_all:
  assumes "0 < n" and "read_cost c < fuel"
  shows "\<exists>c'. io_Copy fuel c n = Some (c', unread c, ack_end (closed c) (ack c))"
  using assms(2)
proof (induction fuel arbitrary: c)
  case (Suc fuel)
  show ?case
  proof (cases "Read c n")
    case None
    then show ?thesis using Read_wait [OF None] by simp
  next
    case (Some r)
    obtain c' bs e where r: "r = (c', bs, e)" by (cases r)
    show ?thesis
    proof (cases e)
      case None
      note s = Read_step [OF Some [unfolded r None]]
      then have "read_cost c' < fuel" using Suc.prems assms(1) by auto
      from Suc.IH [OF this] s Some r None show ?thesis by auto
    next
      case e: (Some e')
      then show ?thesis using Read_stop [of c n c' bs e'] Some r by simp
    qed
  qed
qed simp

text \<open>A packet that arrives while there is room, and before the end of the stream, adds its bytes.\<close>

lemma ack_bytes_append:
  "ack_end False as = None \<Longrightarrow> ack_bytes (as @ bs) = ack_bytes as @ ack_bytes bs"
  "ack_end False as = None \<Longrightarrow> ack_end cl (as @ bs) = ack_end cl bs"
  by (induction as) (auto split: option.splits if_splits)

lemma conn_recv_unread:
  assumes "length (ack c) < DefaultDataChannelSize" and "ack_end False (ack c) = None"
    and "conn_recv c r (Some d) [] = (c', e)"
  shows "e = None \<and> unread c' = unread c @ d \<and> ack_end False (ack c') = None"
  using assms by (auto simp: conn_recv_def unread_def rdata_bytes_def ack_bytes_append)

section \<open>Properties of the connections\<close>

definition ex_chan :: connected_tunnel where
  "ex_chan = \<lparr>chan_id = 1, tun_ID = ''b'', AnnotationsSent = [],
              Options = \<lparr>SendRouteChange = False, IsDefaultOut = False\<rparr>\<rparr>"

definition ex_conn :: "64 word \<Rightarrow> 64 word \<Rightarrow> connect_data list \<Rightarrow> tunnel_conn" where
  "ex_conn l r as = \<lparr>channel = ex_chan, has_rawConn = False, c_local = ''a'', localConnectionID = l,
     remote = ''b'', remoteConnectionID = r, rdata = None, closed = False, ack = as\<rparr>"

text \<open>Reading a connection delivers its byte stream. Whatever the size of the buffer, copying from the
  connection returns after at most one step more than the cost of what is queued, and hands
  out exactly the bytes left over from the last read followed by those of the queued packets,
  in order, up to the first packet that carries an error or no data; it then reports that
  error (end of file for no data), that the connection is closed, or waits.\<close>

theorem Read_delivers_stream:
  assumes "0 < n" and "read_cost c < fuel"
  shows "\<exists>c'. io_Copy fuel c n =
     Some (c', rdata_bytes c @ ack_bytes (ack c), ack_end (closed c) (ack c))"
  using io_Copy_all [OF assms] by (simp add: unread_def)

theorem Read_delivers_stream_witness:
  "\<exists>c'. io_Copy 20 (ex_conn 1 2 [\<lparr>remoteID = 2, cd_err = [], cd_data = Some [1, 2, 3]\<rparr>,
        \<lparr>remoteID = 2, cd_err = [], cd_data = Some [4]\<rparr>,
        \<lparr>remoteID = 2, cd_err = ''EOF'', cd_data = None\<rparr>]) 2 = Some (c', [1, 2, 3, 4], Some ''EOF'')"
  using Read_delivers_stream [of 2 "ex_conn 1 2 [\<lparr>remoteID = 2, cd_err = [], cd_data = Some [1, 2, 3]\<rparr>,
        \<lparr>remoteID = 2, cd_err = [], cd_data = Some [4]\<rparr>,
        \<lparr>remoteID = 2, cd_err = ''EOF'', cd_data = None\<rparr>]" 20]
  by (simp add: ex_conn_def read_cost_def rdata_bytes_def)

text \<open>Closing a connection closes the wrong one. \<open>Close\<close> of the connection with local number \<open>l\<close>
  and remote number \<open>r\<close> removes the entry \<open>r\<close> of the map keyed by local numbers: when
  \<open>l\<close> differs from \<open>r\<close> the connection itself stays registered and open, and an unrelated
  connection registered under \<open>r\<close> is closed and removed; the close packet still names \<open>l\<close>.
  Only where the two numbers agree does it close itself.\<close>

theorem Close_uses_remote_number:
  assumes "wf_conns cs" and "conn_get cs l = Some c"
  shows "let r = remoteConnectionID c; (cs', out) = conn_Close raw l cs in
     conn_ids cs' = removeAll r (conn_ids cs) \<and>
     (l \<noteq> r \<longrightarrow> conn_get cs' l = Some c \<and> \<not> closed c) \<and>
     (\<forall>c2. conn_get cs r = Some c2 \<longrightarrow> map_of (conn_heap cs') r = Some (c2\<lparr>closed := True\<rparr>)) \<and>
     (\<exists>p. out = [(chan_id (channel c), p)] \<and> Kind p = PacketKindClose \<and> SrcCID p = l \<and> DestCID p = r)"
proof -
  have c: "map_of (conn_heap cs) l = Some c" "l \<in> set (conn_ids cs)"
    using assms(2) by (auto simp: conn_get_def split: if_splits)
  have l: "localConnectionID c = l" "\<not> closed c"
    using wf_conns_lookup [OF assms(1) c(1)] wf_conns_registered [OF assms(1) c(2)] c(1) by auto
  show ?thesis
    using c l
    by (auto simp: conn_Close_def closeWihoutLock_cases [OF assms(1)] Let_def conn_get_def conn_set_def
        sendClose_def sendPkt_def split: option.splits)
qed

theorem Close_uses_remote_number_witness:
  "\<exists>cs' out. conn_Close (\<lambda>_. None) 1
      \<lparr>cs_local = ''a'', autoinc = 2, conn_heap = [(1, ex_conn 1 2 []), (2, ex_conn 2 7 [])], conn_ids = [1, 2]\<rparr>
      = (cs', out) \<and> conn_ids cs' = [1] \<and> map_of (conn_heap cs') 2 = Some ((ex_conn 2 7 [])\<lparr>closed := True\<rparr>)"
  using Close_uses_remote_number [of "\<lparr>cs_local = ''a'', autoinc = 2,
      conn_heap = [(1, ex_conn 1 2 []), (2, ex_conn 2 7 [])], conn_ids = [1, 2]\<rparr>" 1 "ex_conn 1 2 []" "\<lambda>_. None"]
  by (auto simp: wf_conns_def ex_conn_def conn_get_def Let_def split: prod.splits)

end
