(* ===== verification/Tunnel_Server.thy ===== *)
theory Tunnel_Server
  imports Tunnel_Route Tunnel_Conn
begin

text \<open>
  The tunnel server (\<open>pkg/edge/tunnel/tunnelserver.go\<close>): the handshake stages of \<open>Connect\<close>,
  the routing of packets, the dialer, and the server as a step relation whose steps are the
  pieces its goroutines run between two points where they can be interleaved.

  \<open>tx\<close> says which \<open>Send\<close> fails and how, \<open>auth\<close> is the \<open>AuthenticationManager\<close> (an interface),
  \<open>dial\<close> is \<open>net.DialTimeout\<close>: an error text or \<^const>\<open>None\<close>.
\<close>

section \<open>State\<close>

record tunnel_server =
  routeTable :: route_table
  connections :: connection_manager

definition NewTunnelServer :: "string \<Rightarrow> tunnel_server" where
  "NewTunnelServer sid = \<lparr>routeTable = NewEmptyRouteTable sid, connections = []\<rparr>"

definition srv_id :: "tunnel_server \<Rightarrow> string" where
  "srv_id s = s_id (routeTable s)"

definition srv_send :: "connected_tunnel \<Rightarrow> packet \<Rightarrow> tunnel_server \<Rightarrow> tunnel_server" where
  "srv_send c p s = s\<lparr>routeTable := send_packet c p (routeTable s)\<rparr>"

definition srv_out :: "(nat \<times> packet) list \<Rightarrow> tunnel_server \<Rightarrow> tunnel_server" where
  "srv_out out s = s\<lparr>routeTable := (routeTable s)\<lparr>sent := sent (routeTable s) @ out\<rparr>\<rparr>"

section \<open>The handshake\<close>

datatype tunnel_error =
    SendError string | RecvError string | InvalidPacketKind packet_kind | EmptyTunnelID
  | AuthError string | RemoteClosed string | AlreadyExists string

definition NonAuthManager :: "string \<Rightarrow> string \<Rightarrow> string option" where
  "NonAuthManager name token = None"

definition close_packet :: "string \<Rightarrow> packet" where
  "close_packet e = zero_packet\<lparr>Kind := PacketKindClose, Err := e\<rparr>"

definition connect_packet :: "string \<Rightarrow> string \<Rightarrow> packet" where
  "connect_packet sid token =
     zero_packet\<lparr>Kind := PacketKindConnect, Src := sid, Data := JsonConnect \<lparr>pdc_Token = token\<rparr>\<rparr>"

definition ack_packet :: "string \<Rightarrow> string \<Rightarrow> packet" where
  "ack_packet sid rem = zero_packet\<lparr>Kind := PacketKindData, Src := sid, Dest := rem\<rparr>"

text \<open>
  \<open>authStage\<close> over what the channel receives; the result has the packets sent, in order, and
  either the error or the id of the remote and what is still to be received.
\<close>

fun recv_next :: "(string + packet) list \<Rightarrow> (string + packet) \<times> (string + packet) list" where
  "recv_next [] = (Inl ''EOF'', [])"
| "recv_next (x # xs) = (x, xs)"

definition authStage ::
  "string \<Rightarrow> (string \<Rightarrow> string \<Rightarrow> string option) \<Rightarrow> string \<Rightarrow> (packet \<Rightarrow> string option)
     \<Rightarrow> (string + packet) list \<Rightarrow> packet list \<times> (tunnel_error + string \<times> (string + packet) list)" where
  "authStage sid auth token tx inp =
    (let m1 = connect_packet sid token in
     case tx m1 of Some e \<Rightarrow> ([m1], Inl (SendError e))
     | None \<Rightarrow>
     (case recv_next inp of
        (Inl e, _) \<Rightarrow> ([m1], Inl (RecvError e))
      | (Inr connectpkt, inp1) \<Rightarrow>
        if Kind connectpkt \<noteq> PacketKindConnect then ([m1], Inl (InvalidPacketKind (Kind connectpkt)))
        else
        let remoteid = Src connectpkt; tok = pdc_Token (PacketDecode_connect (Data connectpkt)) in
        if remoteid = [] then ([m1, close_packet ''empty tunnel id''], Inl EmptyTunnelID)
        else (case auth remoteid tok of
           Some e \<Rightarrow> ([m1, close_packet e], Inl (AuthError e))
         | None \<Rightarrow>
           let m2 = ack_packet sid remoteid in
           (case tx m2 of Some e \<Rightarrow> ([m1, m2], Inl (SendError e))
            | None \<Rightarrow>
            (case recv_next inp1 of
               (Inl e, _) \<Rightarrow> ([m1, m2], Inl (RecvError e))
             | (Inr ackpkt, inp2) \<Rightarrow>
                if Kind ackpkt = PacketKindClose \<or> Err ackpkt \<noteq> [] then ([m1, m2], Inl (RemoteClosed (Err ackpkt)))
                else ([m1, m2], Inr (remoteid, inp2)))))))"

definition existsCheckStage :: "tunnel_server \<Rightarrow> connected_tunnel \<Rightarrow> (tunnel_error + unit) option" where
  "existsCheckStage s c =
     map_option (\<lambda>b. if b then Inl (AlreadyExists (tun_ID c)) else Inr ()) (Exists (routeTable s) (tun_ID c))"

section \<open>Packets\<close>

text \<open>What a packet starts with \<open>go\<close> and runs later.\<close>

datatype task =
    TaskAccept connected_tunnel string "64 word" packet_data_open
  | TaskClose connected_tunnel "64 word"
  | TaskChange connected_tunnel packet_data_route

definition refuse :: "tunnel_server \<Rightarrow> packet \<Rightarrow> string \<Rightarrow> packet" where
  "refuse s pkt e = zero_packet\<lparr>Kind := PacketKindClose, Src := srv_id s, Dest := Src pkt,
                               DestCID := SrcCID pkt, Err := e\<rparr>"

definition forward ::
  "(nat \<times> packet \<Rightarrow> string option) \<Rightarrow> connected_tunnel \<Rightarrow> packet \<Rightarrow> tunnel_server \<Rightarrow> tunnel_server option" where
  "forward tx income pkt s =
     map_option (\<lambda>r. case r of
         Inl e \<Rightarrow> srv_send income (refuse s pkt e) s
       | Inr target \<Rightarrow>
           let s' = srv_send target pkt s in
           (case tx (chan_id target, pkt) of
              None \<Rightarrow> s' | Some e \<Rightarrow> srv_send income (refuse s pkt e) s'))
       (Select (routeTable s) (Dest pkt))"

definition localIn :: "connected_tunnel \<Rightarrow> packet \<Rightarrow> tunnel_server \<Rightarrow> tunnel_server \<times> task list" where
  "localIn c pkt s =
     (case Kind pkt of
        PacketKindOpen \<Rightarrow> (s, [TaskAccept c (Src pkt) (SrcCID pkt) (PacketDecode_open (Data pkt))])
      | PacketKindData \<Rightarrow>
          let (m, e) = cm_recv (srv_id s) c (SrcCID pkt) (DestCID pkt) (raw_bytes (Data pkt)) (Err pkt)
                         (connections s);
              s' = s\<lparr>connections := m\<rparr>
          in (case e of
                None \<Rightarrow> (s', [])
              | Some msg \<Rightarrow> (srv_send c ((refuse s pkt msg)\<lparr>SrcCID := DestCID pkt\<rparr>) s', []))
      | PacketKindClose \<Rightarrow> (s, [TaskClose c (DestCID pkt)])
      | PacketKindRoute \<Rightarrow> (s, [TaskChange c (PacketDecode_route (Data pkt))])
      | _ \<Rightarrow> (s, []))"

definition preRouting ::
  "(nat \<times> packet \<Rightarrow> string option) \<Rightarrow> connected_tunnel \<Rightarrow> packet \<Rightarrow> tunnel_server
     \<Rightarrow> (tunnel_server \<times> task list) option" where
  "preRouting tx income pkt0 s =
    (let pkt = (if Dest pkt0 = [] then pkt0\<lparr>Dest := srv_id s\<rparr> else pkt0) in
     if Dest pkt \<noteq> srv_id s then map_option (\<lambda>s'. (s', [])) (forward tx income pkt s)
     else Some (localIn income pkt s))"

definition run_task ::
  "(tunnel_conn \<Rightarrow> string option) \<Rightarrow> (nat \<times> packet \<Rightarrow> string option) \<Rightarrow> (packet_data_open \<Rightarrow> string option)
     \<Rightarrow> task \<Rightarrow> tunnel_server \<Rightarrow> tunnel_server option" where
  "run_task raw tx dial t s =
     (case t of
        TaskAccept c rem cid d \<Rightarrow>
          (let (cs, m) = cm_tunnel (srv_id s) c (connections s);
               (cs', out, l, b) = accept_open raw tx dial c rem cid d cs
           in Some (srv_out out (s\<lparr>connections := cm_put c cs' m\<rparr>)))
      | TaskClose c cid \<Rightarrow> Some (s\<lparr>connections := cm_close raw (srv_id s) c cid (connections s)\<rparr>)
      | TaskChange c d \<Rightarrow> map_option (\<lambda>rt. s\<lparr>routeTable := rt\<rparr>) (OnChange c d (routeTable s)))"

text \<open>The deferred \<open>Disconnect\<close> with the closing of the connections of the tunnel.\<close>

definition Disconnect ::
  "(tunnel_conn \<Rightarrow> string option) \<Rightarrow> connected_tunnel \<Rightarrow> tunnel_server \<Rightarrow> tunnel_server option" where
  "Disconnect raw c s =
     map_option (\<lambda>(rt, b). s\<lparr>routeTable := rt,
         connections := (if b then tunnelClose raw (srv_id s) c (connections s) else connections s)\<rparr>)
       (Disconnect_table c (routeTable s))"

text \<open>\<open>Dailer.DialTimeout\<close> up to the wait: select the tunnel, register and send the open packet.\<close>

definition Open_start ::
  "(nat \<times> packet \<Rightarrow> string option) \<Rightarrow> string \<Rightarrow> packet_data_open \<Rightarrow> tunnel_server
     \<Rightarrow> (tunnel_server \<times> (string + connected_tunnel \<times> 64 word)) option" where
  "Open_start tx dest d s =
     map_option (\<lambda>r. case r of
         Inl e \<Rightarrow> (s, Inl e)
       | Inr c \<Rightarrow>
          (let (cs, m) = cm_tunnel (srv_id s) c (connections s);
               (cs', out, r) = Open_send tx c dest d cs
           in (srv_out out (s\<lparr>connections := cm_put c cs' m\<rparr>), map_sum id (\<lambda>cid. (c, cid)) r)))
       (Select (routeTable s) dest)"

definition Open_finish ::
  "(tunnel_conn \<Rightarrow> string option) \<Rightarrow> open_event \<Rightarrow> connected_tunnel \<Rightarrow> 64 word \<Rightarrow> tunnel_server
     \<Rightarrow> (tunnel_server \<times> (string + 64 word)) option" where
  "Open_finish raw ev c cid s =
    (let (cs, m) = cm_tunnel (srv_id s) c (connections s) in
     map_option (\<lambda>(cs', out, r). (srv_out out (s\<lparr>connections := cm_put c cs' m\<rparr>), r))
       (Open_wait raw ev cid cs))"

section \<open>The server as a step relation\<close>

text \<open>
  A configuration: the server, the tunnels that passed the existence check and are exchanging
  routes, the tunnels whose packet loop runs, and the goroutines started and not yet run.
\<close>

record config =
  srv :: tunnel_server
  exchanging :: "connected_tunnel list"
  running :: "connected_tunnel list"
  tasks :: "task list"

definition wf_packet :: "packet \<Rightarrow> bool" where
  "wf_packet p \<longleftrightarrow> wf_map (peers_of (PacketDecode_route (Data p)))"

text \<open>The connection numbers of a tunnel are not used up: fewer than 2^64 - 1 were given out.\<close>

definition room :: "connected_tunnel \<Rightarrow> tunnel_server \<Rightarrow> bool" where
  "room c s \<longleftrightarrow> unat (autoinc (fst (cm_tunnel (srv_id s) c (connections s)))) < 2 ^ 64 - 1"

definition task_room :: "task \<Rightarrow> tunnel_server \<Rightarrow> bool" where
  "task_room t s = (case t of TaskAccept c _ _ _ \<Rightarrow> room c s | _ \<Rightarrow> True)"

inductive server_step ::
  "(tunnel_conn \<Rightarrow> string option) \<Rightarrow> (nat \<times> packet \<Rightarrow> string option) \<Rightarrow> (packet_data_open \<Rightarrow> string option)
     \<Rightarrow> (string \<Rightarrow> string \<Rightarrow> string option) \<Rightarrow> config \<Rightarrow> config \<Rightarrow> bool" for raw tx dial auth where
  Admit: "authStage (srv_id (srv g)) auth token (\<lambda>p. tx (chan_id c, p)) inp = (out, Inr (tun_ID c, rest)) \<Longrightarrow>
    s' = srv_out (map (Pair (chan_id c)) out) (srv g) \<Longrightarrow> existsCheckStage s' c = Some (Inr ()) \<Longrightarrow>
    advertiseInit c (AnnotationsSent c) (routeTable s') = Some rt \<Longrightarrow>
    server_step raw tx dial auth g (g\<lparr>srv := s'\<lparr>routeTable := rt\<rparr>, exchanging := c # exchanging g\<rparr>)"
| Established: "c \<in> set (exchanging g) \<Longrightarrow> wf_packet p \<Longrightarrow> RouteExchange_recv p = Some d \<Longrightarrow>
    Connect_table c d (routeTable (srv g)) = Some rt \<Longrightarrow>
    server_step raw tx dial auth g (g\<lparr>srv := (srv g)\<lparr>routeTable := rt\<rparr>,
      exchanging := remove1 c (exchanging g), running := c # running g\<rparr>)"
| Abandoned: "c \<in> set (exchanging g) \<Longrightarrow>
    server_step raw tx dial auth g (g\<lparr>exchanging := remove1 c (exchanging g)\<rparr>)"
| Received: "c \<in> set (running g) \<Longrightarrow> wf_packet p \<Longrightarrow> preRouting tx c p (srv g) = Some (s', ts) \<Longrightarrow>
    server_step raw tx dial auth g (g\<lparr>srv := s', tasks := tasks g @ ts\<rparr>)"
| Scheduled: "t \<in> set (tasks g) \<Longrightarrow> task_room t (srv g) \<Longrightarrow> run_task raw tx dial t (srv g) = Some s' \<Longrightarrow>
    server_step raw tx dial auth g (g\<lparr>srv := s', tasks := remove1 t (tasks g)\<rparr>)"
| Lost: "c \<in> set (running g) \<Longrightarrow> Disconnect raw c (srv g) = Some s' \<Longrightarrow>
    server_step raw tx dial auth g (g\<lparr>srv := s', running := remove1 c (running g)\<rparr>)"
| KeepAlive: "SendKeepAlive anno (routeTable (srv g)) = Some rt \<Longrightarrow>
    server_step raw tx dial auth g (g\<lparr>srv := (srv g)\<lparr>routeTable := rt\<rparr>\<rparr>)"
| Dial: "(\<And>c. Select (routeTable (srv g)) dest = Some (Inr c) \<Longrightarrow> room c (srv g)) \<Longrightarrow>
    Open_start tx dest d (srv g) = Some (s', r) \<Longrightarrow>
    server_step raw tx dial auth g (g\<lparr>srv := s'\<rparr>)"
| Dialed: "Open_finish raw ev c cid (srv g) = Some (s', r) \<Longrightarrow>
    server_step raw tx dial auth g (g\<lparr>srv := s'\<rparr>)"

inductive reachable ::
  "(tunnel_conn \<Rightarrow> string option) \<Rightarrow> (nat \<times> packet \<Rightarrow> string option) \<Rightarrow> (packet_data_open \<Rightarrow> string option)
     \<Rightarrow> (string \<Rightarrow> string \<Rightarrow> string option) \<Rightarrow> string \<Rightarrow> config \<Rightarrow> bool" for raw tx dial auth sid where
  Start: "reachable raw tx dial auth sid
     \<lparr>srv = NewTunnelServer sid, exchanging = [], running = [], tasks = []\<rparr>"
| Step: "reachable raw tx dial auth sid g \<Longrightarrow> server_step raw tx dial auth g g' \<Longrightarrow> reachable raw tx dial auth sid g'"

inductive_cases server_stepE: "server_step raw tx dial auth g g'"

section \<open>Invariants\<close>

lemma authStage_Inr:
  assumes "authStage sid auth token tx inp = (out, Inr (i, rest))"
  shows "i \<noteq> [] \<and> (\<exists>p1 p2. inp = Inr p1 # Inr p2 # rest \<and> Kind p1 = PacketKindConnect \<and> Src p1 = i \<and>
      auth i (pdc_Token (PacketDecode_connect (Data p1))) = None \<and> Kind p2 \<noteq> PacketKindClose \<and> Err p2 = []) \<and>
    out = [connect_packet sid token, ack_packet sid i] \<and> (\<forall>p \<in> set out. tx p = None)"
proof -
  obtain x1 in1 where r1: "recv_next inp = (x1, in1)" by fastforce
  obtain x2 in2 where r2: "recv_next in1 = (x2, in2)" by fastforce
  have "inp = x1 # in1 \<or> x1 = Inl ''EOF''" using r1 by (cases inp) auto
  moreover have "in1 = x2 # in2 \<or> x2 = Inl ''EOF''" using r2 by (cases in1) auto
  ultimately show ?thesis
    using assms
    by (auto simp: authStage_def r1 r2 Let_def split: option.splits sum.splits if_splits)
qed

definition good_id :: "(string \<Rightarrow> string \<Rightarrow> string option) \<Rightarrow> string \<Rightarrow> bool" where
  "good_id auth i \<longleftrightarrow> i \<noteq> [] \<and> (\<exists>token. auth i token = None)"

definition good_task :: "(string \<Rightarrow> string \<Rightarrow> string option) \<Rightarrow> task \<Rightarrow> bool" where
  "good_task auth t = (case t of
     TaskAccept c _ _ _ \<Rightarrow> good_id auth (tun_ID c)
   | TaskClose c _ \<Rightarrow> good_id auth (tun_ID c)
   | TaskChange c d \<Rightarrow> good_id auth (tun_ID c) \<and> wf_map (peers_of d))"

definition good_table :: "(string \<Rightarrow> string \<Rightarrow> string option) \<Rightarrow> route_table \<Rightarrow> bool" where
  "good_table auth t \<longleftrightarrow> wf_table t \<and> (\<forall>i \<in> fst ` set (records t). good_id auth i)"

definition good_server :: "(string \<Rightarrow> string \<Rightarrow> string option) \<Rightarrow> tunnel_server \<Rightarrow> bool" where
  "good_server auth s \<longleftrightarrow> good_table auth (routeTable s) \<and> wf_manager (connections s)"

definition good_config :: "(string \<Rightarrow> string \<Rightarrow> string option) \<Rightarrow> config \<Rightarrow> bool" where
  "good_config auth g \<longleftrightarrow> good_server auth (srv g) \<and>
     (\<forall>c \<in> set (exchanging g) \<union> set (running g). good_id auth (tun_ID c)) \<and>
     (\<forall>t \<in> set (tasks g). good_task auth t)"

lemma apply_change_keys:
  "apply_change from d rs = Some (rs', d') \<Longrightarrow> fst ` set rs' \<subseteq> insert (tun_ID from) (fst ` set rs)"
  by (auto simp: apply_change_def Let_def dest!: update_mem split: route_update_kind.splits option.splits)

lemma good_OnChange:
  assumes "good_table auth t" and "wf_map (peers_of d)" and "good_id auth (tun_ID c)"
    and "OnChange c d t = Some t'"
  shows "good_table auth t'"
proof -
  have "\<not> mu_held t" using assms(4) by (auto simp: OnChange_def split: if_splits)
  then have k: "fst ` set (records t') \<subseteq> insert (tun_ID c) (fst ` set (records t))"
  proof (cases "apply_change c d (records t)")
    case (Some p)
    obtain rs d' where p: "p = (rs, d')" by (cases p)
    with \<open>\<not> mu_held t\<close> Some assms(4) have "records t' = rs" by (auto simp: OnChange_cases)
    with apply_change_keys Some p show ?thesis by blast
  next
    case None
    with \<open>\<not> mu_held t\<close> assms(4) have "records t' = records t" by (auto simp: OnChange_cases)
    then show ?thesis by auto
  qed
  have g: "wf_table t" "\<forall>i \<in> fst ` set (records t). good_id auth i"
    using assms(1) by (simp_all add: good_table_def)
  have "good_id auth i" if "i \<in> fst ` set (records t')" for i
    using subsetD [OF k that] g(2) assms(3) by blast
  moreover have "wf_table t'" by (rule OnChange_wf [OF g(1) assms(2,4)])
  ultimately show ?thesis by (simp add: good_table_def)
qed

lemma good_table_records:
  "good_table auth t \<Longrightarrow> records t' = records t \<Longrightarrow> good_table auth t'"
  by (simp add: good_table_def wf_table_def)

lemma good_Connect:
  assumes "good_table auth t" and "wf_map (peers_of d)" and "good_id auth (tun_ID c)"
    and "Connect_table c d t = Some t'"
  shows "good_table auth t'"
proof -
  have "good_table auth (if IsDefaultOut (Options c) then t\<lparr>defaultout := Some c\<rparr> else t)"
    by (rule good_table_records [OF assms(1)]) simp
  from good_OnChange [OF this assms(2,3)] assms(4) show ?thesis by (simp add: Connect_table_def)
qed

lemma good_Disconnect_table:
  assumes "good_table auth t" and "Disconnect_table c t = Some (t', b)"
  shows "good_table auth t'"
proof -
  have "fst ` set (records t') \<subseteq> fst ` set (records t)"
  proof -
    have "records t' = records t \<or> records t' = AList.delete (tun_ID c) (records t)"
      using assms(2) by (auto simp: Disconnect_table_def Let_def advertise_eq split: if_splits option.splits)
    then show ?thesis using set_delete_subset [of "tun_ID c" "records t"] by auto
  qed
  then show ?thesis
    using assms Disconnect_wf [of t c t' b] unfolding good_table_def by blast
qed

lemma good_send [simp]:
  "good_server auth (srv_send c p s) = good_server auth s"
  "good_server auth (srv_out out s) = good_server auth s"
  by (simp_all add: good_server_def good_table_def wf_table_def srv_send_def srv_out_def send_packet_def)

lemma good_connections: "good_server auth s \<Longrightarrow> wf_manager m \<Longrightarrow> good_server auth (s\<lparr>connections := m\<rparr>)"
  by (simp add: good_server_def)

lemma good_forward: "good_server auth s \<Longrightarrow> forward tx c p s = Some s' \<Longrightarrow> good_server auth s'"
proof -
  assume g: "good_server auth s" and f: "forward tx c p s = Some s'"
  obtain sel where sel: "Select (routeTable s) (Dest p) = Some sel"
    using f by (auto simp: forward_def)
  show ?thesis
  proof (cases sel)
    case (Inr target)
    then show ?thesis using f g sel
      by (cases "tx (chan_id target, p)") (auto simp: forward_def Let_def)
  qed (use f g sel in \<open>auto simp: forward_def\<close>)
qed

lemma good_localIn:
  assumes "good_server auth s" and "good_id auth (tun_ID c)" and "wf_packet p"
    and "localIn c p s = (s', ts)"
  shows "good_server auth s' \<and> (\<forall>t \<in> set ts. good_task auth t)"
proof -
  have w: "wf_manager (connections s)" using assms(1) by (simp add: good_server_def)
  obtain m e where r: "cm_recv (srv_id s) c (SrcCID p) (DestCID p) (raw_bytes (Data p)) (Err p)
      (connections s) = (m, e)" by fastforce
  have "good_server auth (s\<lparr>connections := m\<rparr>)"
    by (rule good_connections [OF assms(1) wf_cm_recv [OF w r]])
  then show ?thesis
    using assms
    by (cases "Kind p"; cases e) (auto simp: localIn_def r Let_def good_task_def wf_packet_def)
qed

lemma good_preRouting:
  assumes "good_server auth s" and "good_id auth (tun_ID c)" and "wf_packet p"
    and "preRouting tx c p s = Some (s', ts)"
  shows "good_server auth s' \<and> (\<forall>t \<in> set ts. good_task auth t)"
proof (cases "(if Dest p = [] then srv_id s else Dest p) \<noteq> srv_id s")
  case True
  then show ?thesis using assms good_forward [OF assms(1)]
    by (auto simp: preRouting_def Let_def split: if_splits)
next
  case False
  let ?q = "if Dest p = [] then p\<lparr>Dest := srv_id s\<rparr> else p"
  have "localIn c ?q s = (s', ts)"
    using False assms(4) by (auto simp: preRouting_def Let_def split: if_splits)
  moreover have "wf_packet ?q" using assms(3) by (simp add: wf_packet_def)
  ultimately show ?thesis using good_localIn assms(1,2) by blast
qed

lemma good_accept_open:
  assumes "good_server auth s" and "room c s"
    and "cm_tunnel (srv_id s) c (connections s) = (cs, m)"
  shows "wf_conns cs \<and> wf_manager m \<and> unat (autoinc cs) < 2 ^ 64 - 1"
  using assms wf_cm_tunnel [of "connections s" "srv_id s" c cs m]
  by (simp add: good_server_def room_def)

lemma good_run_task:
  assumes "good_server auth s" and "good_task auth t" and "task_room t s"
    and "run_task raw tx dial t s = Some s'"
  shows "good_server auth s'"
proof (cases t)
  case (TaskAccept c rem cid d)
  obtain cs m where t: "cm_tunnel (srv_id s) c (connections s) = (cs, m)" by fastforce
  obtain cs' out l b where a: "accept_open raw tx dial c rem cid d cs = (cs', out, l, b)"
    by (metis prod_cases4)
  have "room c s" using assms(3) TaskAccept by (simp add: task_room_def)
  note w = good_accept_open [OF assms(1) this t]
  have "wf_manager (cm_put c cs' m)"
    using wf_accept_open [OF _ _ a] w by (simp add: wf_cm_put)
  then show ?thesis
    using assms(1,4) by (auto simp: run_task_def TaskAccept t a intro!: good_connections)
next
  case (TaskClose c cid)
  then show ?thesis
    using assms by (auto simp: run_task_def good_server_def wf_cm_close)
next
  case (TaskChange c d)
  then show ?thesis
    using assms by (auto simp: run_task_def good_server_def good_task_def intro: good_OnChange)
qed

lemma good_Disconnect:
  assumes "good_server auth s" and "Disconnect raw c s = Some s'"
  shows "good_server auth s'"
  using assms
  by (auto simp: Disconnect_def good_server_def wf_tunnelClose intro: good_Disconnect_table)

lemma good_Open_start:
  assumes "good_server auth s" and "\<And>c. Select (routeTable s) dest = Some (Inr c) \<Longrightarrow> room c s"
    and "Open_start tx dest d s = Some (s', r)"
  shows "good_server auth s'"
proof -
  obtain sel where sel: "Select (routeTable s) dest = Some sel"
    using assms(3) by (auto simp: Open_start_def)
  show ?thesis
  proof (cases sel)
    case (Inr c)
    obtain cs m where t: "cm_tunnel (srv_id s) c (connections s) = (cs, m)" by fastforce
    obtain cs' out x where o: "Open_send tx c dest d cs = (cs', out, x)" by (metis prod_cases3)
    note w = good_accept_open [OF assms(1) assms(2) t]
    have "wf_manager (cm_put c cs' m)"
      using wf_Open_send [OF _ _ o] w sel Inr by (simp add: wf_cm_put)
    then show ?thesis
      using assms(1,3) sel Inr by (auto simp: Open_start_def t o intro!: good_connections)
  qed (use assms sel in \<open>auto simp: Open_start_def\<close>)
qed

lemma good_Open_finish:
  assumes "good_server auth s" and "Open_finish raw ev c cid s = Some (s', r)"
  shows "good_server auth s'"
proof -
  obtain cs m where t: "cm_tunnel (srv_id s) c (connections s) = (cs, m)" by fastforce
  have w: "wf_conns cs" "wf_manager m"
    using wf_cm_tunnel [OF _ t] assms(1) by (simp_all add: good_server_def)
  obtain cs' out x where o: "Open_wait raw ev cid cs = Some (cs', out, x)"
    using assms(2) by (auto simp: Open_finish_def t)
  have "wf_manager (cm_put c cs' m)"
    using wf_Open_wait [OF w(1) o] w by (simp add: wf_cm_put)
  then show ?thesis using assms by (auto simp: Open_finish_def t o intro!: good_connections)
qed

lemma good_SendKeepAlive:
  assumes "good_table auth t" and "SendKeepAlive anno t = Some t'"
  shows "good_table auth t'"
proof -
  have "records (fold (\<lambda>(k, tun) t. if \<not> SendRouteChange (Options (Channel tun)) then t
      else advertiseKeepalive anno (Channel tun) t) rs t) = records t" for rs
    by (induction rs arbitrary: t) (auto simp: advertiseKeepalive_def send_packet_def)
  with assms show ?thesis
    by (auto simp: SendKeepAlive_def split: if_splits intro: good_table_records)
qed

lemma good_advertiseInit:
  assumes "good_table auth t" and "advertiseInit c anno t = Some t'"
  shows "good_table auth t'"
  using assms
  by (auto simp: advertiseInit_def send_packet_def split: if_splits intro: good_table_records)

lemma good_server_table:
  "good_server auth s \<Longrightarrow> good_table auth t \<Longrightarrow> good_server auth (s\<lparr>routeTable := t\<rparr>)"
  by (simp add: good_server_def)

lemma good_step:
  assumes "server_step raw tx dial auth g g'" and "good_config auth g"
  shows "good_config auth g'"
  using assms
proof (induction rule: server_step.induct)
  case (Admit g token c inp out rest s' rt)
  have i: "good_id auth (tun_ID c)"
    using authStage_Inr [OF Admit.hyps(1)] by (auto simp: good_id_def)
  have "good_server auth s'" using Admit.hyps(2) Admit.prems by (simp add: good_config_def)
  then have "good_server auth (s'\<lparr>routeTable := rt\<rparr>)"
    using good_advertiseInit [OF _ Admit.hyps(4)] by (simp add: good_server_def)
  with i Admit.prems show ?case by (simp add: good_config_def)
next
  case (Established c g p d rt)
  have "wf_map (peers_of d)"
    using Established.hyps by (auto simp: wf_packet_def RouteExchange_recv_def split: if_splits)
  then have "good_table auth rt"
    using good_Connect Established unfolding good_config_def good_server_def by blast
  with Established show ?case
    by (auto simp: good_config_def good_server_def dest: notin_set_remove1 set_remove1_subset [THEN subsetD])
next
  case (Received c g p s' ts)
  then show ?case using good_preRouting [of auth "srv g" c p tx s' ts]
    by (auto simp: good_config_def)
next
  case (Scheduled t g s')
  then show ?case using good_run_task [of auth "srv g" t raw tx dial s']
    by (auto simp: good_config_def dest: set_remove1_subset [THEN subsetD])
next
  case (KeepAlive anno g rt)
  then show ?case using good_SendKeepAlive [of auth "routeTable (srv g)" anno rt]
    by (simp add: good_config_def good_server_def)
next
  case (Dial g dest d s' r)
  then show ?case using good_Open_start [of auth "srv g" dest tx d s' r]
    by (simp add: good_config_def)
qed (auto simp: good_config_def intro: good_Disconnect good_Open_finish
      dest: set_remove1_subset [THEN subsetD])

lemma good_reachable: "reachable raw tx dial auth sid g \<Longrightarrow> good_config auth g"
proof (induction rule: reachable.induct)
  case Start
  show ?case
    by (simp add: good_config_def good_server_def good_table_def wf_table_def wf_manager_def
        NewTunnelServer_def NewEmptyRouteTable_def)
qed (blast intro: good_step)

section \<open>A held lock stays held\<close>

lemma held_srv_send [simp]:
  "mu_held (routeTable (srv_send c p s)) = mu_held (routeTable s)"
  "mu_held (routeTable (srv_out out s)) = mu_held (routeTable s)"
  "mu_held (routeTable (s\<lparr>connections := m\<rparr>)) = mu_held (routeTable s)"
  by (simp_all add: srv_send_def srv_out_def send_packet_def)

lemma held_blocks:
  assumes "mu_held t"
  shows "Select t d = None" "Exists t d = None" "Connect_table c r t = None" "OnChange c r t = None"
    "Disconnect_table c t = None" "SendKeepAlive a t = None"
  using assms by (auto simp: Select_def Exists_def Connect_table_def OnChange_def Disconnect_table_def
      SendKeepAlive_def)

lemma held_localIn: "localIn c p s = (s', ts) \<Longrightarrow> mu_held (routeTable s') = mu_held (routeTable s)"
  by (cases "Kind p") (auto simp: localIn_def Let_def split: prod.splits option.splits)

lemma held_step:
  assumes "server_step raw tx dial auth g g'" and "mu_held (routeTable (srv g))"
  shows "mu_held (routeTable (srv g'))"
  using assms
proof (induction rule: server_step.induct)
  case (Admit g token c inp out rest s' rt)
  then show ?case by (simp add: existsCheckStage_def held_blocks)
next
  case (Received c g p s' ts)
  then show ?case
    by (auto simp: preRouting_def Let_def forward_def held_blocks dest!: held_localIn split: if_splits)
next
  case (Scheduled t g s')
  from Scheduled.hyps(3) Scheduled.prems show ?case
    by (cases t) (auto simp: run_task_def held_blocks split: prod.splits)
next
  case (Dialed ev c cid g s' r)
  then show ?case by (auto simp: Open_finish_def split: prod.splits)
qed (simp_all add: held_blocks Disconnect_def Open_start_def)

lemma held_steps:
  "(server_step raw tx dial auth)\<^sup>*\<^sup>* g g' \<Longrightarrow> mu_held (routeTable (srv g)) \<Longrightarrow> mu_held (routeTable (srv g'))"
  by (induction rule: rtranclp_induct) (auto intro: held_step)

text \<open>A packet for this server that updates a route, a lost tunnel, then the update.\<close>

definition late_route :: "packet_data_route \<Rightarrow> packet" where
  "late_route d = zero_packet\<lparr>Kind := PacketKindRoute, Data := PacketEncode_route d\<rparr>"

lemma preRouting_late_route:
  "preRouting tx c (late_route d) s = Some (s, [TaskChange c (PacketDecode_route (PacketEncode_route d))])"
  by (simp add: preRouting_def late_route_def zero_packet_def localIn_def Let_def)

lemma late_update:
  assumes "reachable raw tx dial auth sid g" and "c \<in> set (running g)" and "\<not> mu_held (routeTable (srv g))"
    and "map_of (records (routeTable (srv g))) (tun_ID c) = Some v" and "wf_map (peers_of d)"
    and "\<And>rt b. Disconnect_table c (routeTable (srv g)) = Some (rt, b) \<Longrightarrow>
           OnChange c (PacketDecode_route (PacketEncode_route d)) rt = Some (F rt)"
  shows "\<exists>g' rt. reachable raw tx dial auth sid g' \<and> running g' = remove1 c (running g) \<and>
     Disconnect_table c (routeTable (srv g)) = Some (rt, True) \<and> routeTable (srv g') = F rt"
proof -
  let ?t = "TaskChange c (PacketDecode_route (PacketEncode_route d))"
  define h1 where "h1 = g\<lparr>srv := srv g, tasks := tasks g @ [?t]\<rparr>"
  have "server_step raw tx dial auth g h1"
    unfolding h1_def
    by (rule Received [OF assms(2) _ preRouting_late_route])
      (simp add: wf_packet_def late_route_def route_data_roundtrip assms(5))
  with assms(1) have r1: "reachable raw tx dial auth sid h1" by (rule Step)
  obtain rt where D: "Disconnect_table c (routeTable (srv g)) = Some (rt, True)"
    using assms(3,4) by (simp add: Disconnect_table_def Let_def advertise_eq)
  then obtain s2 where s2: "Disconnect raw c (srv g) = Some s2" "routeTable s2 = rt"
    by (simp add: Disconnect_def)
  define h2 where "h2 = h1\<lparr>srv := s2, running := remove1 c (running h1)\<rparr>"
  have "server_step raw tx dial auth h1 h2"
    unfolding h2_def by (rule Lost) (use assms(2) s2 in \<open>simp_all add: h1_def\<close>)
  with r1 have r2: "reachable raw tx dial auth sid h2" by (rule Step)
  define h3 where "h3 = h2\<lparr>srv := s2\<lparr>routeTable := F rt\<rparr>, tasks := remove1 ?t (tasks h2)\<rparr>"
  have "server_step raw tx dial auth h2 h3"
    unfolding h3_def
    by (rule Scheduled) (use assms(6) [OF D] s2 in \<open>simp_all add: h2_def h1_def task_room_def run_task_def\<close>)
  with r2 have "reachable raw tx dial auth sid h3" by (rule Step)
  then show ?thesis using D by (intro exI [of _ h3] exI [of _ rt]) (simp add: h3_def h2_def h1_def)
qed

lemma Disconnect_table_records:
  "Disconnect_table c t = Some (rt, True) \<Longrightarrow> \<not> mu_held rt \<and> records rt = AList.delete (tun_ID c) (records t)"
  by (auto simp: Disconnect_table_def Let_def advertise_eq split: if_splits option.splits)

section \<open>A concrete run\<close>

definition no_fault :: "nat \<times> packet \<Rightarrow> string option" where "no_fault = (\<lambda>_. None)"
definition no_raw :: "tunnel_conn \<Rightarrow> string option" where "no_raw = (\<lambda>_. None)"
definition no_dial :: "packet_data_open \<Rightarrow> string option" where "no_dial = (\<lambda>_. None)"

definition edge :: connected_tunnel where "edge = ex_tunnel 1 ''e'' False"

definition one_running :: config where
  "one_running = \<lparr>srv = \<lparr>routeTable = \<lparr>s_id = ''s'',
       records = [(''e'', \<lparr>Channel = edge, Annotations = [], Children = []\<rparr>)],
       defaultout = None, mu_held = False, watchers = [],
       sent = [(1, connect_packet ''s'' []), (1, ack_packet ''s'' ''e''),
               (1, route_packet ''s'' ''e'' \<lparr>pdr_Kind = RouteUpdateKindReferesh, pdr_Annotations = [], pdr_Peers = None\<rparr>)]\<rparr>,
      connections = []\<rparr>, exchanging = [], running = [edge], tasks = []\<rparr>"

lemma one_running_reachable: "reachable no_raw no_fault no_dial NonAuthManager ''s'' one_running"
proof -
  let ?inp = "[Inr (connect_packet ''e'' []), Inr (ack_packet ''e'' ''s'')]"
  let ?g0 = "\<lparr>srv = NewTunnelServer ''s'', exchanging = [], running = [], tasks = []\<rparr>"
  let ?s1 = "srv_out (map (Pair (chan_id edge)) [connect_packet ''s'' [], ack_packet ''s'' ''e'']) (srv ?g0)"
  let ?d = "\<lparr>pdr_Kind = RouteUpdateKindReferesh, pdr_Annotations = [], pdr_Peers = None\<rparr>"
  define rt1 where "rt1 = send_packet edge (route_packet ''s'' ''e'' ?d) (routeTable ?s1)"
  have "authStage (srv_id (srv ?g0)) NonAuthManager [] (\<lambda>p. no_fault (chan_id edge, p)) ?inp
      = ([connect_packet ''s'' [], ack_packet ''s'' ''e''], Inr (tun_ID edge, []))"
    by (simp add: authStage_def no_fault_def connect_packet_def ack_packet_def zero_packet_def NonAuthManager_def
        srv_id_def NewTunnelServer_def NewEmptyRouteTable_def edge_def ex_tunnel_def Let_def)
  moreover have "existsCheckStage ?s1 edge = Some (Inr ())"
    by (simp add: existsCheckStage_def Exists_def srv_out_def NewTunnelServer_def NewEmptyRouteTable_def)
  moreover have "advertiseInit edge (AnnotationsSent edge) (routeTable ?s1) = Some rt1"
    by (simp add: advertiseInit_def rt1_def edge_def ex_tunnel_def srv_out_def NewTunnelServer_def NewEmptyRouteTable_def)
  ultimately have "server_step no_raw no_fault no_dial NonAuthManager ?g0
      (?g0\<lparr>srv := ?s1\<lparr>routeTable := rt1\<rparr>, exchanging := edge # exchanging ?g0\<rparr>)"
    by (intro Admit [OF _ refl]) (simp_all only: NewTunnelServer_def)
  with Start have r1: "reachable no_raw no_fault no_dial NonAuthManager ''s''
      (?g0\<lparr>srv := ?s1\<lparr>routeTable := rt1\<rparr>, exchanging := edge # exchanging ?g0\<rparr>)"
    by (rule Step)
  have "Connect_table edge ?d rt1 = Some (routeTable (srv one_running))"
    by (simp add: Connect_table_def OnChange_def apply_change_def rt1_def edge_def ex_tunnel_def one_running_def
        send_packet_def srv_out_def NewTunnelServer_def NewEmptyRouteTable_def Let_def peers_of_def advertise_eq
        adverts_def emit_event_def sendWatcherEvent_def)
  then have "server_step no_raw no_fault no_dial NonAuthManager
      (?g0\<lparr>srv := ?s1\<lparr>routeTable := rt1\<rparr>, exchanging := edge # exchanging ?g0\<rparr>) one_running"
    using Established [of edge "?g0\<lparr>srv := ?s1\<lparr>routeTable := rt1\<rparr>, exchanging := edge # exchanging ?g0\<rparr>"
        "late_route ?d" ?d]
    by (simp add: wf_packet_def late_route_def PacketDecode_route_def PacketEncode_route_def peers_of_def
        RouteExchange_recv_def one_running_def srv_out_def NewTunnelServer_def)
  with r1 show ?thesis by (rule Step)
qed

section \<open>Properties of the server\<close>

text \<open>The handshake admits a tunnel exactly when it should. \<open>authStage\<close> succeeds with the id \<open>i\<close>
  if and only if both of its sends succeed, the first packet received is a connect packet from the
  non-empty id \<open>i\<close> whose token the authentication manager accepts for \<open>i\<close>, and the second is
  neither a close packet nor carries an error; what was sent is then the connect packet and
  the acknowledgement, and nothing after those two packets has been consumed.\<close>

theorem authStage_admits_iff:
  "authStage sid auth token tx inp = (out, Inr (i, rest)) \<longleftrightarrow>
     (\<exists>p1 p2. inp = Inr p1 # Inr p2 # rest \<and>
        Kind p1 = PacketKindConnect \<and> Src p1 = i \<and> i \<noteq> [] \<and>
        auth i (pdc_Token (PacketDecode_connect (Data p1))) = None \<and>
        Kind p2 \<noteq> PacketKindClose \<and> Err p2 = [] \<and>
        out = [connect_packet sid token, ack_packet sid i] \<and>
        tx (connect_packet sid token) = None \<and> tx (ack_packet sid i) = None)"
proof
  assume "authStage sid auth token tx inp = (out, Inr (i, rest))"
  from authStage_Inr [OF this] show "\<exists>p1 p2. inp = Inr p1 # Inr p2 # rest \<and>
        Kind p1 = PacketKindConnect \<and> Src p1 = i \<and> i \<noteq> [] \<and>
        auth i (pdc_Token (PacketDecode_connect (Data p1))) = None \<and>
        Kind p2 \<noteq> PacketKindClose \<and> Err p2 = [] \<and>
        out = [connect_packet sid token, ack_packet sid i] \<and>
        tx (connect_packet sid token) = None \<and> tx (ack_packet sid i) = None"
    by force
qed (auto simp: authStage_def Let_def)

text \<open>C6: In every reachable configuration of the server, whatever the order of the steps of its
  goroutines, the faults of the network and the packets received: the routing table has one
  record per peer, kept under the id of its channel, with no sub-peer twice; every peer with a
  record, every tunnel being set up and every running tunnel has a non-empty id for which the
  authentication manager accepted some token; and in every connection map the entries are
  objects under their own local number, numbered from one up to the counter, and not closed
  (so no channel is closed twice).\<close>

theorem reachable_config_wf:
  assumes "reachable raw tx dial auth sid g"
  shows "wf_map (records (routeTable (srv g))) \<and>
    (\<forall>(k, v) \<in> set (records (routeTable (srv g))).
        tun_ID (Channel v) = k \<and> wf_map (Children v) \<and> k \<noteq> [] \<and> (\<exists>token. auth k token = None)) \<and>
    (\<forall>c \<in> set (exchanging g) \<union> set (running g). tun_ID c \<noteq> [] \<and> (\<exists>token. auth (tun_ID c) token = None)) \<and>
    (\<forall>(i, cs) \<in> set (connections (srv g)). distinct (conn_ids cs) \<and>
        (\<forall>l \<in> set (conn_ids cs). \<exists>c. map_of (conn_heap cs) l = Some c \<and> \<not> closed c \<and>
            localConnectionID c = l \<and> 0 < unat l \<and> unat l \<le> unat (autoinc cs)))"
proof -
  have g: "wf_table (routeTable (srv g))" "\<forall>i \<in> fst ` set (records (routeTable (srv g))). good_id auth i"
    "wf_manager (connections (srv g))" "\<forall>c \<in> set (exchanging g) \<union> set (running g). good_id auth (tun_ID c)"
    using good_reachable [OF assms] by (simp_all add: good_config_def good_server_def good_table_def)
  have r: "tun_ID (Channel v) = k \<and> wf_map (Children v) \<and> k \<noteq> [] \<and> (\<exists>token. auth k token = None)"
    if "(k, v) \<in> set (records (routeTable (srv g)))" for k v
    using that g(1,2) by (force simp: wf_table_def wf_record_def good_id_def)
  have c: "distinct (conn_ids cs) \<and> (\<forall>l \<in> set (conn_ids cs). \<exists>c. map_of (conn_heap cs) l = Some c \<and> \<not> closed c \<and>
            localConnectionID c = l \<and> 0 < unat l \<and> unat l \<le> unat (autoinc cs))"
    if "(i, cs) \<in> set (connections (srv g))" for i cs
  proof -
    have w: "wf_conns cs" using g(3) that by (auto simp: wf_manager_def)
    then have "distinct (conn_ids cs)" by (simp add: wf_conns_def)
    moreover have "\<exists>c. map_of (conn_heap cs) l = Some c \<and> \<not> closed c \<and>
            localConnectionID c = l \<and> 0 < unat l \<and> unat l \<le> unat (autoinc cs)" if "l \<in> set (conn_ids cs)" for l
      using wf_conns_registered [OF w that] wf_conns_lookup [OF w, of l] by metis
    ultimately show ?thesis by blast
  qed
  show ?thesis
    using g(1,4) r c by (auto simp: wf_table_def good_id_def split: prod.splits)
qed

theorem reachable_config_wf_witness:
  "\<exists>(g :: config) v. (''e'', v) \<in> set (records (routeTable (srv g))) \<and> tun_ID (Channel v) = ''e'' \<and>
     (\<exists>token. NonAuthManager ''e'' token = None)"
proof -
  have a: "(''e'', \<lparr>Channel = edge, Annotations = [], Children = []\<rparr>) \<in> set (records (routeTable (srv one_running)))"
    by (simp add: one_running_def)
  have b: "tun_ID edge = ''e'' \<and> (\<exists>token. NonAuthManager ''e'' token = None)"
    using reachable_config_wf [OF one_running_reachable] by (simp add: one_running_def)
  show ?thesis
    by (rule exI [of _ one_running], rule exI [of _ "\<lparr>Channel = edge, Annotations = [], Children = []\<rparr>"])
      (use a b in simp)
qed

text \<open>A keep-alive that is handled late stops the server for good. From any reachable
  configuration in which a tunnel runs with its record and the lock is free, three ordinary
  steps - a keep-alive from that peer arrives, its stream ends, the goroutine that handles the
  keep-alive runs - lead to a reachable configuration from which, whatever happens afterwards,
  the write lock is never released: no route is selected, no existence check answers, and no
  tunnel is connected or disconnected.\<close>

theorem late_keepalive_deadlock:
  assumes "reachable raw tx dial auth sid g" and "c \<in> set (running g)"
    and "\<not> mu_held (routeTable (srv g))" and "map_of (records (routeTable (srv g))) (tun_ID c) = Some v"
  shows "\<exists>g'. reachable raw tx dial auth sid g' \<and>
    (\<forall>g''. (server_step raw tx dial auth)\<^sup>*\<^sup>* g' g'' \<longrightarrow>
       (\<forall>d. Select (routeTable (srv g'')) d = None) \<and>
       (\<forall>e. existsCheckStage (srv g'') e = None \<and> Disconnect raw e (srv g'') = None) \<and>
       (\<forall>e d. Connect_table e d (routeTable (srv g'')) = None))"
proof -
  let ?d = "\<lparr>pdr_Kind = RouteUpdateKindKeepAlive, pdr_Annotations = [], pdr_Peers = None\<rparr>"
  have "OnChange c (PacketDecode_route (PacketEncode_route ?d)) rt = Some (rt\<lparr>mu_held := True\<rparr>)"
    if "Disconnect_table c (routeTable (srv g)) = Some (rt, b)" for rt b
  proof -
    have "b" using that assms(4)
      by (auto simp: Disconnect_table_def Let_def advertise_eq split: if_splits)
    with that have D: "\<not> mu_held rt" "records rt = AList.delete (tun_ID c) (records (routeTable (srv g)))"
      using Disconnect_table_records by auto
    then show ?thesis
      by (simp add: OnChange_def apply_change_def Let_def route_data_roundtrip)
  qed
  then obtain g' rt where g': "reachable raw tx dial auth sid g'" "routeTable (srv g') = rt\<lparr>mu_held := True\<rparr>"
    using late_update [OF assms, of ?d "\<lambda>rt. rt\<lparr>mu_held := True\<rparr>"] by (force simp: peers_of_def)
  have "mu_held (routeTable (srv g''))" if "(server_step raw tx dial auth)\<^sup>*\<^sup>* g' g''" for g''
    by (rule held_steps [OF that]) (simp add: g')
  then show ?thesis
    using g'(1) by (intro exI [of _ g'])
      (auto simp: held_blocks existsCheckStage_def Disconnect_def)
qed

theorem late_keepalive_deadlock_witness:
  "\<exists>g'. reachable no_raw no_fault no_dial NonAuthManager ''s'' g' \<and> Select (routeTable (srv g')) ''x'' = None"
proof -
  have h: "edge \<in> set (running one_running)" "\<not> mu_held (routeTable (srv one_running))"
    "map_of (records (routeTable (srv one_running))) (tun_ID edge)
       = Some \<lparr>Channel = edge, Annotations = [], Children = []\<rparr>"
    by (simp_all add: one_running_def edge_def ex_tunnel_def)
  show ?thesis using late_keepalive_deadlock [OF one_running_reachable h] by blast
qed

text \<open>A refresh that is handled late leaves a ghost. From any reachable configuration in which a
  tunnel runs once, with its record and the lock free, there is a reachable configuration in
  which the tunnel runs no more, yet has a record through which destinations are selected, and
  every new tunnel of that peer is refused because its id already exists.\<close>

theorem late_refresh_ghost:
  assumes "reachable raw tx dial auth sid g" and "c \<in> set (running g)" and "distinct (running g)"
    and "\<not> mu_held (routeTable (srv g))" and "map_of (records (routeTable (srv g))) (tun_ID c) = Some v"
  shows "\<exists>g'. reachable raw tx dial auth sid g' \<and> c \<notin> set (running g') \<and>
     Select (routeTable (srv g')) (tun_ID c) = Some (Inr c) \<and>
     (\<forall>e. tun_ID e = tun_ID c \<longrightarrow> existsCheckStage (srv g') e = Some (Inl (AlreadyExists (tun_ID c))))"
proof -
  let ?d = "\<lparr>pdr_Kind = RouteUpdateKindReferesh, pdr_Annotations = [], pdr_Peers = None\<rparr>"
  define F where "F = (\<lambda>rt. the (OnChange c (PacketDecode_route (PacketEncode_route ?d)) rt))"
  have F: "\<exists>t'. OnChange c (PacketDecode_route (PacketEncode_route ?d)) rt = Some t' \<and> \<not> mu_held t' \<and>
        map_of (records t') (tun_ID c) = Some \<lparr>Channel = c, Annotations = [], Children = []\<rparr>"
    if "Disconnect_table c (routeTable (srv g)) = Some (rt, b)" for rt b
  proof -
    have "b" using that assms(5)
      by (auto simp: Disconnect_table_def Let_def advertise_eq split: if_splits)
    with that have D: "\<not> mu_held rt" "records rt = AList.delete (tun_ID c) (records (routeTable (srv g)))"
      using Disconnect_table_records by auto
    then show ?thesis
      by (simp add: OnChange_cases apply_change_def Let_def route_data_roundtrip) (simp add: peers_of_def)
  qed
  then obtain g' rt where g': "reachable raw tx dial auth sid g'" "running g' = remove1 c (running g)"
      "Disconnect_table c (routeTable (srv g)) = Some (rt, True)" "routeTable (srv g') = F rt"
    using late_update [OF assms(1,2,4,5), of ?d F] by (force simp: peers_of_def F_def)
  from F [OF g'(3)] g'(4) have "\<not> mu_held (routeTable (srv g'))"
      "map_of (records (routeTable (srv g'))) (tun_ID c) = Some \<lparr>Channel = c, Annotations = [], Children = []\<rparr>"
    by (auto simp: F_def)
  then show ?thesis
    using g'(1,2) assms(3) by (intro exI [of _ g']) (auto simp: Select_def existsCheckStage_def Exists_def)
qed

theorem late_refresh_ghost_witness:
  "\<exists>g'. reachable no_raw no_fault no_dial NonAuthManager ''s'' g' \<and> edge \<notin> set (running g') \<and>
     existsCheckStage (srv g') edge = Some (Inl (AlreadyExists ''e''))"
proof -
  have h: "edge \<in> set (running one_running)" "distinct (running one_running)"
    "\<not> mu_held (routeTable (srv one_running))"
    "map_of (records (routeTable (srv one_running))) (tun_ID edge)
       = Some \<lparr>Channel = edge, Annotations = [], Children = []\<rparr>"
    by (simp_all add: one_running_def edge_def ex_tunnel_def)
  have "tun_ID edge = ''e''" by (simp add: edge_def ex_tunnel_def)
  then show ?thesis using late_refresh_ghost [OF one_running_reachable h] by metis
qed

text \<open>A packet for another peer is never lost silently. With the lock free on a well-formed table,
  routing it returns, leaves the connections alone and starts nothing; the packet is handed unchanged
  to one channel, which serves the destination if any does and is the default-out tunnel
  otherwise, and only if there is no such channel or its send fails, the sender's tunnel gets one close
  packet addressed to the packet's source and its connection, carrying the error.\<close>

theorem preRouting_forwards:
  assumes "wf_table (routeTable s)" and "\<not> mu_held (routeTable s)"
    and "Dest pkt \<noteq> []" and "Dest pkt \<noteq> srv_id s"
  shows "\<exists>s' out. preRouting tx income pkt s = Some (s', []) \<and> connections s' = connections s \<and>
     sent (routeTable s') = sent (routeTable s) @ out \<and>
     ((\<exists>c. (serves (routeTable s) c (Dest pkt) \<or>
             (\<forall>c'. \<not> serves (routeTable s) c' (Dest pkt)) \<and> defaultout (routeTable s) = Some c) \<and>
          (tx (chan_id c, pkt) = None \<and> out = [(chan_id c, pkt)] \<or>
           (\<exists>e. tx (chan_id c, pkt) = Some e \<and>
              out = [(chan_id c, pkt), (chan_id income, refuse s pkt e)])))
      \<or> (\<forall>c. \<not> serves (routeTable s) c (Dest pkt)) \<and> defaultout (routeTable s) = None \<and>
          out = [(chan_id income, refuse s pkt (''no destination for peer '' @ Dest pkt))])"
proof -
  have pre: "preRouting tx income pkt s = map_option (\<lambda>s'. (s', [])) (forward tx income pkt s)"
    using assms(3,4) by (simp add: preRouting_def)
  have target: "\<exists>s'. forward tx income pkt s = Some s' \<and> connections s' = connections s \<and>
       (tx (chan_id c, pkt) = None \<and> sent (routeTable s') = sent (routeTable s) @ [(chan_id c, pkt)] \<or>
        (\<exists>e. tx (chan_id c, pkt) = Some e \<and> sent (routeTable s') =
           sent (routeTable s) @ [(chan_id c, pkt), (chan_id income, refuse s pkt e)]))"
    if "Select (routeTable s) (Dest pkt) = Some (Inr c)" for c
    using that by (cases "tx (chan_id c, pkt)") (auto simp: forward_def srv_send_def send_packet_def)
  from Select_cases [OF assms(1,2), of "Dest pkt"] show ?thesis
  proof
    assume "\<exists>c. Select (routeTable s) (Dest pkt) = Some (Inr c) \<and> serves (routeTable s) c (Dest pkt)"
    then obtain c where c: "Select (routeTable s) (Dest pkt) = Some (Inr c)" "serves (routeTable s) c (Dest pkt)"
      by blast
    from target [OF c(1)] c(2) pre show ?thesis by auto
  next
    assume n: "(\<forall>c. \<not> serves (routeTable s) c (Dest pkt)) \<and> Select (routeTable s) (Dest pkt) =
         Some (case defaultout (routeTable s) of Some c \<Rightarrow> Inr c
               | None \<Rightarrow> Inl (''no destination for peer '' @ Dest pkt))"
    show ?thesis
    proof (cases "defaultout (routeTable s)")
      case None
      then show ?thesis using n pre by (simp add: forward_def srv_send_def send_packet_def)
    next
      case (Some c)
      then show ?thesis using n pre target [of c] by auto
    qed
  qed
qed

theorem preRouting_forwards_witness:
  "\<exists>s'. preRouting no_fault edge (zero_packet\<lparr>Dest := ''up''\<rparr>) \<lparr>routeTable = ex_table, connections = []\<rparr> = Some (s', [])"
proof -
  have "wf_table (routeTable \<lparr>routeTable = ex_table, connections = []\<rparr>)"
    "\<not> mu_held (routeTable \<lparr>routeTable = ex_table, connections = []\<rparr>)"
    "Dest (zero_packet\<lparr>Dest := ''up''\<rparr>) \<noteq> srv_id \<lparr>routeTable = ex_table, connections = []\<rparr>"
    by (simp_all add: ex_defs srv_id_def)
  moreover have "Dest (zero_packet\<lparr>Dest := ''up''\<rparr>) \<noteq> []" by simp
  ultimately show ?thesis using preRouting_forwards by blast
qed

section \<open>A connection between two servers\<close>

definition wire :: "packet \<Rightarrow> packet" where
  "wire p = GRPCTunnel_Recv (GRPCTunnel_Send p)"

definition conns_of :: "tunnel_server \<Rightarrow> connected_tunnel \<Rightarrow> connections" where
  "conns_of s c = fst (cm_tunnel (srv_id s) c (connections s))"

definition conn_of :: "tunnel_server \<Rightarrow> connected_tunnel \<Rightarrow> 64 word \<Rightarrow> tunnel_conn option" where
  "conn_of s c i = conn_get (conns_of s c) i"

lemma cm_tunnel_put [simp]: "cm_tunnel sid c (cm_put c cs m) = (cs, cm_put c cs m)"
  by (simp add: cm_tunnel_def cm_put_def)

lemma srv_simps [simp]:
  "srv_id (srv_out out s) = srv_id s" "connections (srv_out out s) = connections s"
  "sent (routeTable (srv_out out s)) = sent (routeTable s) @ out"
  "srv_id (s\<lparr>connections := m\<rparr>) = srv_id s"
  by (simp_all add: srv_id_def srv_out_def)

lemma wire_simps:
  "wire (snd (sendOpen c d)) = zero_packet\<lparr>Kind := PacketKindOpen, Src := c_local c, SrcCID := localConnectionID c,
     Dest := remote c, DestCID := remoteConnectionID c, Data := JsonOpen d\<rparr>"
  "wire (snd (sendData c (Some bs))) = zero_packet\<lparr>Kind := PacketKindData, Src := c_local c,
     SrcCID := localConnectionID c, Dest := remote c, DestCID := remoteConnectionID c,
     Data := Raw (if bs = [] then None else Some bs)\<rparr>"
  by (cases bs; simp add: wire_def GRPCTunnel_Recv_def GRPCTunnel_Send_def sendOpen_def sendData_def sendPkt_def
      zero_packet_def proto_bytes_def int_kind_def)+

lemma fst_send [simp]: "fst (sendOpen c d) = chan_id (channel c)" "fst (sendData c x) = chan_id (channel c)"
  by (simp_all add: sendOpen_def sendData_def sendPkt_def)

text \<open>A data packet that arrives for a registered connection is queued on it.\<close>

lemma preRouting_data:
  assumes "Dest p = srv_id s" and "Kind p = PacketKindData" and "Err p = []" and "Data p = Raw x"
    and "conn_of s c (DestCID p) = Some k" and "\<not> closed k" and "length (ack k) < DefaultDataChannelSize"
    and "srv_id s \<noteq> []"
  shows "\<exists>s'. preRouting tx c p s = Some (s', []) \<and> srv_id s' = srv_id s \<and>
     conns_of s' c = conn_set (DestCID p)
        (k\<lparr>ack := ack k @ [\<lparr>remoteID = SrcCID p, cd_err = [], cd_data = x\<rparr>]\<rparr>) (conns_of s c)"
proof -
  obtain cs m where t: "cm_tunnel (srv_id s) c (connections s) = (cs, m)" by fastforce
  have cs: "conns_of s c = cs" by (simp add: conns_of_def t)
  let ?k = "k\<lparr>ack := ack k @ [\<lparr>remoteID = SrcCID p, cd_err = [], cd_data = x\<rparr>]\<rparr>"
  have "preRouting tx c p s = Some (s\<lparr>connections := cm_put c (conn_set (DestCID p) ?k cs) m\<rparr>, [])"
    using assms by (simp add: preRouting_def localIn_def cm_recv_def t Let_def conn_of_def cs conn_recv_def
        raw_bytes_def)
  then show ?thesis by (simp add: cs) (simp add: conns_of_def)
qed

text \<open>C7: Opening a connection through a tunnel works end to end. Take two servers whose tunnels
  reach each other, with connection numbers left, no send failing and a dial that succeeds.
  Then the open packet of \<open>a\<close> makes \<open>b\<close> start one accept; running it sends one acknowledgement; when
  \<open>a\<close> has received it, the waiting \<open>Open\<close> returns; each side's connection is registered and open and
  knows the number of the other; and whatever non-empty bytes \<open>a\<close> then writes are what the connection
  at \<open>b\<close> reads.\<close>

theorem open_connection_end_to_end:
  assumes "wf_manager (connections a)" and "wf_manager (connections b)"
    and "room ca a" and "room cb b" and "cs_local (conns_of a ca) = srv_id a" and "cs_local (conns_of b cb) = srv_id b"
    and "srv_id a \<noteq> []" and "srv_id b \<noteq> []"
    and "Select (routeTable a) (srv_id b) = Some (Inr ca)" and "dial d = None"
  shows "\<exists>a1 ia p1 b1 ib p2 a2 a3 ka kb.
    Open_start no_fault (srv_id b) d a = Some (a1, Inr (ca, ia)) \<and>
    sent (routeTable a1) = sent (routeTable a) @ [(chan_id ca, p1)] \<and>
    preRouting no_fault cb (wire p1) b = Some (b, [TaskAccept cb (srv_id a) ia d]) \<and>
    run_task raw no_fault dial (TaskAccept cb (srv_id a) ia d) b = Some b1 \<and>
    sent (routeTable b1) = sent (routeTable b) @ [(chan_id cb, p2)] \<and>
    preRouting no_fault ca (wire p2) a1 = Some (a2, []) \<and>
    Open_finish raw AckReady ca ia a2 = Some (a3, Inr ia) \<and>
    conn_of a3 ca ia = Some ka \<and> conn_of b1 cb ib = Some kb \<and>
    \<not> closed ka \<and> \<not> closed kb \<and> remoteConnectionID ka = ib \<and> remoteConnectionID kb = ia \<and>
    (\<forall>bs. bs \<noteq> [] \<longrightarrow> (\<exists>p3 b2 kb'.
       Write no_fault ka (Some bs) = ([(chan_id ca, p3)], Inr (length bs)) \<and>
       preRouting no_fault cb (wire p3) b1 = Some (b2, []) \<and>
       conn_of b2 cb ib = Some kb' \<and> unread kb' = bs))"
proof -
  obtain csa ma where ta: "cm_tunnel (srv_id a) ca (connections a) = (csa, ma)" by fastforce
  obtain csb mb where tb: "cm_tunnel (srv_id b) cb (connections b) = (csb, mb)" by fastforce
  have wa: "wf_conns csa" "unat (autoinc csa) < 2 ^ 64 - 1" "cs_local csa = srv_id a"
    using wf_cm_tunnel [OF assms(1) ta] assms(3,5) by (simp_all add: room_def conns_of_def ta)
  have wb: "wf_conns csb" "unat (autoinc csb) < 2 ^ 64 - 1" "cs_local csb = srv_id b"
    using wf_cm_tunnel [OF assms(2) tb] assms(4,6) by (simp_all add: room_def conns_of_def tb)
  obtain ia csa1 where pa: "pending ca (srv_id b) 0 csa = (ia, csa1)" by fastforce
  obtain ib csb1 where pb: "pending cb (srv_id a) ia csb = (ib, csb1)" by fastforce
  note fa = wf_pending [OF wa(1,2) pa] and fb = wf_pending [OF wb(1,2) pb]
  define ka0 where "ka0 = \<lparr>channel = ca, has_rawConn = False, c_local = srv_id a, localConnectionID = ia,
          remote = srv_id b, remoteConnectionID = 0, rdata = None, closed = False, ack = []\<rparr>"
  define kb0 where "kb0 = \<lparr>channel = cb, has_rawConn = False, c_local = srv_id b, localConnectionID = ib,
          remote = srv_id a, remoteConnectionID = ia, rdata = None, closed = False, ack = []\<rparr>"
  have ha: "map_of (conn_heap csa1) ia = Some ka0" and hb: "map_of (conn_heap csb1) ib = Some kb0"
    using fa fb wa(3) wb(3) by (simp_all add: ka0_def kb0_def)
  define a1 where "a1 = srv_out [sendOpen ka0 d] (a\<lparr>connections := cm_put ca csa1 ma\<rparr>)"
  define kb where "kb = kb0\<lparr>has_rawConn := True\<rparr>"
  define b1 where "b1 = srv_out [sendData kb0 (Some [])] (b\<lparr>connections := cm_put cb (conn_set ib kb csb1) mb\<rparr>)"
  have s1: "Open_start no_fault (srv_id b) d a = Some (a1, Inr (ca, ia))"
    using assms(9) by (simp add: Open_start_def ta Open_send_def pa ha no_fault_def Let_def a1_def)
  have s2: "preRouting no_fault cb (wire (snd (sendOpen ka0 d))) b = Some (b, [TaskAccept cb (srv_id a) ia d])"
    using assms(8) by (simp add: wire_simps preRouting_def localIn_def PacketDecode_open_def ka0_def)
  have s3: "run_task raw no_fault dial (TaskAccept cb (srv_id a) ia d) b = Some b1"
    using assms(10) by (simp add: run_task_def tb accept_open_def pb hb no_fault_def Let_def b1_def kb_def)
  have ca1: "conns_of a1 ca = csa1" "srv_id a1 = srv_id a" by (simp_all add: a1_def conns_of_def)
  have cb1: "conns_of b1 cb = conn_set ib kb csb1" "srv_id b1 = srv_id b" by (simp_all add: b1_def conns_of_def)
  define p2 where "p2 = snd (sendData kb0 (Some []))"
  have w2: "wire p2 = zero_packet\<lparr>Kind := PacketKindData, Src := srv_id b, SrcCID := ib, Dest := srv_id a,
      DestCID := ia, Data := Raw None\<rparr>"
    by (simp add: p2_def wire_simps kb0_def)
  have "conn_of a1 ca (DestCID (wire p2)) = Some ka0"
    using fa ha by (simp add: conn_of_def ca1 w2 conn_get_def)
  then obtain a2 where a2: "preRouting no_fault ca (wire p2) a1 = Some (a2, [])" "srv_id a2 = srv_id a1"
    "conns_of a2 ca = conn_set ia (ka0\<lparr>ack := [\<lparr>remoteID = ib, cd_err = [], cd_data = None\<rparr>]\<rparr>) csa1"
    using preRouting_data [of "wire p2" a1 None ca ka0 no_fault] assms(7)
    by (auto simp: w2 ca1 ka0_def DefaultDataChannelSize_def zero_packet_def)
  obtain m2 where t2: "cm_tunnel (srv_id a2) ca (connections a2) = (conns_of a2 ca, m2)"
    by (metis conns_of_def prod.collapse)
  define ka where "ka = ka0\<lparr>remoteConnectionID := ib\<rparr>"
  define csa3 where "csa3 = opened ia ib (conn_set ia (ka0\<lparr>ack := []\<rparr>) (conns_of a2 ca))"
  have g3: "conn_get csa3 ia = Some ka"
    using fa by (simp add: csa3_def conn_get_def opened_def conn_set_def ka_def a2(3) ka0_def)
  define a3 where "a3 = srv_out [] (a2\<lparr>connections := cm_put ca csa3 m2\<rparr>)"
  have s5: "Open_finish raw AckReady ca ia a2 = Some (a3, Inr ia)"
    using fb by (simp add: Open_finish_def t2 Open_wait_def a2(3) conn_set_def Let_def a3_def csa3_def)
  have s6: "conn_of a3 ca ia = Some ka" using g3 by (simp add: conn_of_def conns_of_def a3_def)
  have s7: "conn_of b1 cb ib = Some kb"
    using fb by (simp add: conn_of_def cb1 conn_get_def conn_set_def)
  have data: "\<exists>p3 b2 kb'. Write no_fault ka (Some bs) = ([(chan_id ca, p3)], Inr (length bs)) \<and>
       preRouting no_fault cb (wire p3) b1 = Some (b2, []) \<and> conn_of b2 cb ib = Some kb' \<and> unread kb' = bs"
    if bs: "bs \<noteq> []" for bs
  proof -
    define p3 where "p3 = snd (sendData ka (Some bs))"
    have w3: "wire p3 = zero_packet\<lparr>Kind := PacketKindData, Src := srv_id a, SrcCID := ia, Dest := srv_id b,
        DestCID := ib, Data := Raw (Some bs)\<rparr>"
      using bs by (simp add: p3_def wire_simps ka_def ka0_def)
    have "sendData ka (Some bs) = (chan_id ca, p3)"
      by (simp add: p3_def prod_eq_iff) (simp add: ka_def ka0_def)
    then have W: "Write no_fault ka (Some bs) = ([(chan_id ca, p3)], Inr (length bs))"
      by (simp add: Write_def no_fault_def Let_def) (simp add: ka_def ka0_def)
    obtain b2 where b2: "preRouting no_fault cb (wire p3) b1 = Some (b2, [])"
      "conns_of b2 cb = conn_set ib (kb\<lparr>ack := [\<lparr>remoteID = ia, cd_err = [], cd_data = Some bs\<rparr>]\<rparr>) (conns_of b1 cb)"
      using preRouting_data [of "wire p3" b1 "Some bs" cb kb no_fault] assms(8) s7
      by (auto simp: w3 cb1(2) kb_def kb0_def DefaultDataChannelSize_def zero_packet_def)
    have "conn_of b2 cb ib = Some (kb\<lparr>ack := [\<lparr>remoteID = ia, cd_err = [], cd_data = Some bs\<rparr>]\<rparr>)"
      using fb by (simp add: conn_of_def b2(2) cb1 conn_get_def conn_set_def)
    with W b2(1) show ?thesis by (force simp: unread_def rdata_bytes_def kb_def kb0_def)
  qed
  have out: "sent (routeTable a1) = sent (routeTable a) @ [(chan_id ca, snd (sendOpen ka0 d))]"
    "sent (routeTable b1) = sent (routeTable b) @ [(chan_id cb, p2)]"
    by (simp_all add: a1_def b1_def p2_def prod_eq_iff) (simp_all add: ka0_def kb0_def)
  have rel: "\<not> closed ka" "\<not> closed kb" "remoteConnectionID ka = ib" "remoteConnectionID kb = ia"
    by (simp_all add: ka_def ka0_def kb_def kb0_def)
  show ?thesis
    using s1 s2 s3 a2(1) s5 s6 s7 data out rel by blast
qed

definition peer_a :: tunnel_server where
  "peer_a = \<lparr>routeTable = (NewEmptyRouteTable ''a'')\<lparr>records :=
      [(''b'', \<lparr>Channel = ex_tunnel 1 ''b'' False, Annotations = [], Children = []\<rparr>)]\<rparr>, connections = []\<rparr>"

theorem open_connection_end_to_end_witness:
  "\<exists>a1 ia p1 b1. let d = \<lparr>pdo_Network = ''tcp'', pdo_Address = ''x'', pdo_Timeout = 1\<rparr>;
      ca = ex_tunnel 1 ''b'' False; cb = ex_tunnel 2 ''a'' False in
     Open_start no_fault ''b'' d peer_a = Some (a1, Inr (ca, ia)) \<and>
     preRouting no_fault cb (wire p1) (NewTunnelServer ''b'')
       = Some (NewTunnelServer ''b'', [TaskAccept cb ''a'' ia d]) \<and>
     run_task no_raw no_fault no_dial (TaskAccept cb ''a'' ia d) (NewTunnelServer ''b'') = Some b1"
proof -
  let ?d = "\<lparr>pdo_Network = ''tcp'', pdo_Address = ''x'', pdo_Timeout = 1\<rparr>"
  let ?ca = "ex_tunnel 1 ''b'' False" and ?cb = "ex_tunnel 2 ''a'' False"
  let ?b = "NewTunnelServer ''b''"
  have i: "srv_id peer_a = ''a''" "srv_id ?b = ''b''"
    by (simp_all add: srv_id_def peer_a_def NewTunnelServer_def NewEmptyRouteTable_def)
  have h: "wf_manager (connections peer_a)" "wf_manager (connections ?b)" "room ?ca peer_a" "room ?cb ?b"
    "cs_local (conns_of peer_a ?ca) = srv_id peer_a" "cs_local (conns_of ?b ?cb) = srv_id ?b"
    by (simp_all add: peer_a_def NewTunnelServer_def wf_manager_def room_def conns_of_def cm_tunnel_def
        new_connections_def Let_def)
  have n: "srv_id peer_a \<noteq> []" "srv_id ?b \<noteq> []" by (simp_all add: i)
  have s: "Select (routeTable peer_a) (srv_id ?b) = Some (Inr ?ca)"
    by (simp add: i) (simp add: peer_a_def Select_def NewEmptyRouteTable_def)
  have dl: "no_dial ?d = None" by (simp add: no_dial_def)
  show ?thesis
    using open_connection_end_to_end [where raw = no_raw and dial = no_dial, OF h n s dl]
    unfolding i Let_def by blast
qed

end
