(* ===== verification/Workflow_Task.thy ===== *)
theory Workflow_Task
  imports Go_Prelude
begin

text \<open>
  Tasks, their trees of steps and the execution of a registered function
  (\<open>pkg/utils/workflow/task.go\<close>, and \<open>execute\<close>, \<open>Register\<close>, \<open>WithValues\<close> of \<open>server.go\<close>).

  What a registered function does is not part of the engine: it is described by its signature
  (whether its first parameter is a context, how an argument is decoded into each further
  parameter, the zero values) and by a function from the calls made so far, its context and
  its arguments to what happens and how long it took, so it may keep state of its own. Results are kept as far as
  the engine looks at them: an error, a nil pointer, something JSON cannot encode, or data.
\<close>

section \<open>Data\<close>

datatype status_code =
    TaskStatusNone | TaskStatusPending | TaskStatusRunning | TaskStatusSuccess | TaskStatusError
  | TaskStatusOther string

datatype go_value = VNil | VNilPtr | VError string | VData string | VChan

record task_status =
  StartTimestamp :: int
  FinishTimestamp :: int
  Status :: status_code
  Result :: "go_value list"
  Executer :: string
  Message :: string

definition zero_status :: task_status where
  "zero_status = \<lparr>StartTimestamp = 0, FinishTimestamp = 0, Status = TaskStatusNone, Result = [],
                  Executer = [], Message = []\<rparr>"

datatype step =
  Step (Name: string) (Function: string) (Args: "string list") (SubSteps: "step list")
       (StepStatus: task_status) (Timeout: int)

record task =
  UID :: string
  TaskName :: string
  Group :: string
  Steps :: "step list"
  CreationTimestamp :: int
  Addtionals :: "(string, string) gomap"
  TaskStatus :: task_status

definition set_status :: "task_status \<Rightarrow> step \<Rightarrow> step" where
  "set_status st s = Step (Name s) (Function s) (Args s) (SubSteps s) st (Timeout s)"

definition set_subs :: "step list \<Rightarrow> step \<Rightarrow> step" where
  "set_subs ss s = Step (Name s) (Function s) (Args s) ss (StepStatus s) (Timeout s)"

definition set_timeout :: "int \<Rightarrow> step \<Rightarrow> step" where
  "set_timeout d s = Step (Name s) (Function s) (Args s) (SubSteps s) (StepStatus s) d"

lemma set_step_simps [simp]:
  "StepStatus (set_status st s) = st" "SubSteps (set_status st s) = SubSteps s"
  "Function (set_status st s) = Function s" "Args (set_status st s) = Args s"
  "Timeout (set_status st s) = Timeout s"
  "StepStatus (set_subs ss s) = StepStatus s" "SubSteps (set_subs ss s) = ss"
  "Function (set_subs ss s) = Function s"
  "StepStatus (set_timeout d s) = StepStatus s" "SubSteps (set_timeout d s) = SubSteps s"
  "Function (set_timeout d s) = Function s" "Args (set_timeout d s) = Args s"
  by (simp_all add: set_status_def set_subs_def set_timeout_def)

section \<open>Context values\<close>

text \<open>
  A context is the maps \<open>WithValues\<close> wrapped around it, innermost last; the parent of all is
  the context of the queue, which has no string key. A value is a string here.
\<close>

type_synonym go_context = "(string, string) gomap list"

definition WithValues :: "go_context \<Rightarrow> (string, string) gomap \<Rightarrow> go_context" where
  "WithValues ctx kvs = kvs # ctx"

fun ctx_Value :: "go_context \<Rightarrow> string \<Rightarrow> string option" where
  "ctx_Value [] k = None"
| "ctx_Value (kvs # parent) k = (case map_of kvs k of Some v \<Rightarrow> Some v | None \<Rightarrow> ctx_Value parent k)"

definition ValueFromConetxt :: "go_context \<Rightarrow> string \<Rightarrow> string" where
  "ValueFromConetxt ctx k = (case ctx_Value ctx k of Some v \<Rightarrow> v | None \<Rightarrow> [])"

section \<open>Registered functions\<close>

record call =
  call_name :: string
  call_ctx :: go_context
  call_timeout :: int
  call_args :: "go_value list"

datatype decoded = Decoded go_value | DecodeError string | DecodedNull

datatype call_outcome = Returned "go_value list" | PanicError string | PanicString string | PanicOther

record go_func =
  takes_ctx :: bool
  params :: "(string \<Rightarrow> decoded) list"
  zeros :: "go_value list"
  behave :: "call list \<Rightarrow> go_context \<Rightarrow> go_value list \<Rightarrow> call_outcome \<times> int"

type_synonym registry = "(string, go_func) gomap"

text \<open>\<open>Register\<close> of a function; \<open>is_func\<close> is \<open>t.Kind() == reflect.Func\<close>. The error is not spelled out.\<close>

definition Register_func :: "string \<Rightarrow> bool \<Rightarrow> go_func \<Rightarrow> registry \<Rightarrow> registry \<times> bool" where
  "Register_func name is_func f r =
     (if \<not> is_func then (r, False)
      else if map_of r name \<noteq> None then (r, False)
      else (AList.update name f r, True))"

text \<open>
  The loop over the parameters: an argument that is there is decoded, one that is missing is
  the zero value. JSON \<open>null\<close> leaves an invalid value, on which the call panics.
\<close>

fun build_args :: "(string \<Rightarrow> decoded) list \<Rightarrow> go_value list \<Rightarrow> string list \<Rightarrow> string + (go_value list \<times> bool)" where
  "build_args [] zs as = Inr ([], False)"
| "build_args (p # ps) zs as =
     (let (z, zs') = (case zs of [] \<Rightarrow> (VNil, []) | x # xs \<Rightarrow> (x, xs)) in
      case as of
        [] \<Rightarrow> map_sum id (\<lambda>(vs, b). (z # vs, b)) (build_args ps zs' [])
      | a # as' \<Rightarrow>
         (case p a of
            DecodeError e \<Rightarrow> Inl e
          | Decoded v \<Rightarrow> map_sum id (\<lambda>(vs, b). (v # vs, b)) (build_args ps zs' as')
          | DecodedNull \<Rightarrow> map_sum id (\<lambda>(vs, b). (VNil # vs, True)) (build_args ps zs' as')))"

text \<open>The loop that stores the results, up to the first nil pointer, on which it panics.\<close>

fun collect_results :: "go_value list \<Rightarrow> go_value list \<times> bool" where
  "collect_results [] = ([], False)"
| "collect_results (v # vs) =
     (if v = VNilPtr then ([], True) else let (ws, b) = collect_results vs in (v # ws, b))"

record world =
  trace :: "call list"
  now :: int

definition DefaultTaskTimeout :: int where
  "DefaultTaskTimeout = 300"

text \<open>\<open>execute\<close>: the error if any, the step with its timeout and results, and the call made.\<close>

definition execute :: "registry \<Rightarrow> go_context \<Rightarrow> step \<Rightarrow> world \<Rightarrow> string option \<times> step \<times> world" where
  "execute reg ctx s0 w =
    (let s = (if Timeout s0 = 0 then set_timeout DefaultTaskTimeout s0 else s0) in
     case map_of reg (Function s) of
       None \<Rightarrow> (Some (''func '' @ Function s @ '' not registered''), s, w)
     | Some f \<Rightarrow>
       (case build_args (params f) (zeros f) (Args s) of
          Inl e \<Rightarrow> (Some e, s, w)
        | Inr (vs, invalid) \<Rightarrow>
          if invalid then (Some ''reflect: Call using zero Value argument'', s, w)
          else
          let (out, dt) = behave f (trace w) (if takes_ctx f then ctx else []) vs;
              w' = w\<lparr>now := now w + dt, trace := trace w @ [\<lparr>call_name = Function s, call_ctx = ctx,
                        call_timeout = Timeout s, call_args = vs\<rparr>]\<rparr>
          in case out of
            PanicError e \<Rightarrow> (Some e, s, w')
          | PanicString e \<Rightarrow> (Some e, s, w')
          | PanicOther \<Rightarrow> (Some ''failed to execute'', s, w')
          | Returned rvs \<Rightarrow>
             let (res, bad) = collect_results rvs;
                 s' = set_status ((StepStatus s)\<lparr>Result := Result (StepStatus s) @ res\<rparr>) s
             in if bad then (Some ''reflect: call of reflect.Value.Interface on zero Value'', s', w')
                else if rvs = [] then (Some ''runtime error: index out of range [-1]'', s', w')
                else (case last rvs of VError e \<Rightarrow> Some e | _ \<Rightarrow> None, s', w')))"

lemma execute_keeps:
  "execute reg ctx s w = (e, s', w') \<Longrightarrow>
     SubSteps s' = SubSteps s \<and> Function s' = Function s \<and> Status (StepStatus s') = Status (StepStatus s) \<and>
     (\<exists>new. trace w' = trace w @ new \<and> (e = None \<longrightarrow> map call_name new = [Function s]) \<and>
        length new \<le> 1)"
  by (auto simp: execute_def Let_def split: option.splits sum.splits prod.splits if_splits
      call_outcome.splits)

section \<open>Measures of a tree of steps\<close>

text \<open>A step is open when a round may still run it.\<close>

definition open_code :: "status_code \<Rightarrow> bool" where
  "open_code c \<longleftrightarrow> c = TaskStatusNone \<or> c = TaskStatusRunning"

text \<open>The open steps of a tree, and the functions they are to call.\<close>

fun open_steps :: "step list \<Rightarrow> nat" where
  "open_steps [] = 0"
| "open_steps (Step n f a subs st d # rest) =
     (if open_code (Status st) then 1 else 0) + open_steps subs + open_steps rest"

fun open_funcs :: "step list \<Rightarrow> string multiset" where
  "open_funcs [] = {#}"
| "open_funcs (Step n f a subs st d # rest) =
     (if open_code (Status st) \<and> f \<noteq> [] then {#f#} else {#}) + open_funcs subs + open_funcs rest"

text \<open>Every status of the tree is one the engine itself writes.\<close>

fun known_codes :: "step list \<Rightarrow> bool" where
  "known_codes [] = True"
| "known_codes (Step n f a subs st d # rest) \<longleftrightarrow>
     Status st \<in> {TaskStatusNone, TaskStatusRunning, TaskStatusSuccess, TaskStatusError} \<and>
     known_codes subs \<and> known_codes rest"

fun isAllFinished :: "step list \<Rightarrow> bool" where
  "isAllFinished [] = True"
| "isAllFinished (Step n f a subs st d # rest) =
     (if Status st \<noteq> TaskStatusSuccess then False
      else if \<not> isAllFinished subs then False else isAllFinished rest)"

lemma isAllFinished_open: "isAllFinished ss \<Longrightarrow> open_steps ss = 0 \<and> open_funcs ss = {#}"
  by (induction ss rule: isAllFinished.induct) (auto simp: open_code_def split: if_splits)

end
