(* ===== verification/Workflow_Backend.thy ===== *)
theory Workflow_Backend
  imports Go_Prelude
begin

text \<open>
  The store and queue of the workflow engine: the interface \<open>Backend\<close>
  (\<open>pkg/utils/workflow/backend.go\<close>) as a locale, and its in-memory implementation
  (\<open>backend_memory.go\<close>).

  A value is whatever the callers store; \<^const>\<open>None\<close> is the nil byte slice. A time is an
  integer, the zero \<open>time.Time\<close> is 0 and every clock reading is positive. The two Go channels
  have room for 64 entries. \<open>Pub\<close> is modelled for a context that is not cancelled.
\<close>

section \<open>State\<close>

record 'v kv =
  key :: string
  val :: "'v option"
  createTime :: int
  expireTime :: int

record 'v inmemory_backend =
  db :: "(string, 'v kv) gomap"
  subeventch :: "(string \<times> 'v) list"
  watchch :: "(string \<times> 'v option) list"
  watchers :: "(string, string) gomap"

definition channel_size :: nat where
  "channel_size = 64"

definition time_zero :: int where
  "time_zero = 0"

definition NewInmemoryBackend :: "'v inmemory_backend" where
  "NewInmemoryBackend = \<lparr>db = [], subeventch = [], watchch = [], watchers = []\<rparr>"

section \<open>Operations\<close>

definition backend_event :: "string \<Rightarrow> 'v option \<Rightarrow> 'v inmemory_backend \<Rightarrow> 'v inmemory_backend" where
  "backend_event k v b =
     (if length (watchch b) < channel_size then b\<lparr>watchch := watchch b @ [(k, v)]\<rparr> else b)"

definition Put :: "int \<Rightarrow> string \<Rightarrow> 'v \<Rightarrow> int option \<Rightarrow> 'v inmemory_backend \<Rightarrow> 'v inmemory_backend" where
  "Put now k v ttl b =
    (let e = \<lparr>key = k, val = Some v, createTime = now,
              expireTime = (case ttl of None \<Rightarrow> time_zero | Some d \<Rightarrow> now + d)\<rparr>
     in backend_event k (Some v) (b\<lparr>db := AList.update k e (db b)\<rparr>))"

definition Get :: "string \<Rightarrow> 'v inmemory_backend \<Rightarrow> 'v option" where
  "Get k b = (case map_of (db b) k of None \<Rightarrow> None | Some e \<Rightarrow> val e)"

definition Del :: "string \<Rightarrow> 'v inmemory_backend \<Rightarrow> 'v inmemory_backend" where
  "Del k b = b\<lparr>db := AList.delete k (db b)\<rparr>"

definition List :: "string \<Rightarrow> 'v inmemory_backend \<Rightarrow> (string, 'v option) gomap" where
  "List keyprefix b =
     map (\<lambda>(k, e). (k, val e)) (filter (\<lambda>(k, e). has_prefix k keyprefix) (db b))"

definition Pub :: "string \<Rightarrow> 'v \<Rightarrow> 'v inmemory_backend \<Rightarrow> 'v inmemory_backend \<times> string option" where
  "Pub k v b =
     (if length (subeventch b) < channel_size then (b\<lparr>subeventch := subeventch b @ [(k, v)]\<rparr>, None)
      else (b, Some ''subevent channel full''))"

text \<open>One run of the expire worker.\<close>

definition removeExpired :: "int \<Rightarrow> 'v inmemory_backend \<Rightarrow> 'v inmemory_backend" where
  "removeExpired now b =
     foldl (\<lambda>b (k, e). if expireTime e < now
              then backend_event k None (b\<lparr>db := AList.delete k (db b)\<rparr>) else b) b (db b)"

text \<open>One turn of a watch goroutine: the watchers told of the oldest event.\<close>

definition watch_turn ::
  "'v inmemory_backend \<Rightarrow> ('v inmemory_backend \<times> string list \<times> string \<times> 'v option) option" where
  "watch_turn b =
     (case watchch b of [] \<Rightarrow> None
      | (k, v) # es \<Rightarrow> Some (b\<lparr>watchch := es\<rparr>,
            map fst (filter (\<lambda>(uid, p). has_prefix k p) (watchers b)), k, v))"

definition Watch :: "string \<Rightarrow> string \<Rightarrow> 'v inmemory_backend \<Rightarrow> 'v inmemory_backend" where
  "Watch uid keyprefix b = b\<lparr>watchers := AList.update uid keyprefix (watchers b)\<rparr>"

definition next_event :: "'v inmemory_backend \<Rightarrow> ((string \<times> 'v) \<times> 'v inmemory_backend) option" where
  "next_event b = (case subeventch b of [] \<Rightarrow> None | e # es \<Rightarrow> Some (e, b\<lparr>subeventch := es\<rparr>))"

section \<open>The interface\<close>

text \<open>
  What the server and the client of the engine rely on: a store with the usual laws that the
  queue does not touch, and a queue.
\<close>

locale backend =
  fixes valid :: "'b \<Rightarrow> bool"
    and get :: "string \<Rightarrow> 'b \<Rightarrow> 'v option"
    and put :: "int \<Rightarrow> string \<Rightarrow> 'v \<Rightarrow> int option \<Rightarrow> 'b \<Rightarrow> 'b"
    and del :: "string \<Rightarrow> 'b \<Rightarrow> 'b"
    and lst :: "string \<Rightarrow> 'b \<Rightarrow> (string, 'v option) gomap"
    and pub :: "string \<Rightarrow> 'v \<Rightarrow> 'b \<Rightarrow> 'b \<times> string option"
  assumes valid_put: "valid b \<Longrightarrow> valid (put now k v ttl b)"
    and valid_del: "valid b \<Longrightarrow> valid (del k b)"
    and valid_pub: "valid b \<Longrightarrow> valid (fst (pub k v b))"
    and get_put: "valid b \<Longrightarrow> get k' (put now k v ttl b) = (if k' = k then Some v else get k' b)"
    and get_del: "valid b \<Longrightarrow> get k' (del k b) = (if k' = k then None else get k' b)"
    and get_pub: "get k' (fst (pub k v b)) = get k' b"
    and lst_get: "valid b \<Longrightarrow> map_of (lst p b) k =
          (if has_prefix k p \<and> get k b \<noteq> None then Some (get k b) else None)"
    and lst_distinct: "valid b \<Longrightarrow> wf_map (lst p b)"
begin

lemma list_after_put:
  assumes "valid b" and "has_prefix k p"
  shows "map_of (lst p (put now k v ttl b)) k = Some (Some v)"
  using assms by (simp add: lst_get valid_put get_put)

lemma list_after_del:
  assumes "valid b"
  shows "map_of (lst p (del k b)) k = None"
  using assms by (simp add: lst_get valid_del get_del)

lemma put_del_other: "valid b \<Longrightarrow> k' \<noteq> k \<Longrightarrow> get k (del k' (put now k v ttl b)) = Some v"
  by (simp add: get_del get_put valid_put)

lemma list_mem_iff:
  assumes "valid b"
  shows "(k, w) \<in> set (lst p b) \<longleftrightarrow> has_prefix k p \<and> get k b \<noteq> None \<and> w = get k b"
  using map_of_mem [OF lst_distinct [OF assms]] assms by (auto simp: lst_get)

end

text \<open>Every entry holds a value, under one key.\<close>

definition valid_db :: "'v inmemory_backend \<Rightarrow> bool" where
  "valid_db b \<longleftrightarrow> wf_map (db b) \<and> (\<forall>(k, e) \<in> set (db b). val e \<noteq> None)"

lemma backend_event_simps [simp]:
  "db (backend_event k v b) = db b" "subeventch (backend_event k v b) = subeventch b"
  "watchers (backend_event k v b) = watchers b"
  by (simp_all add: backend_event_def)

lemma map_of_List:
  assumes "valid_db b"
  shows "map_of (List p b) k = (if has_prefix k p \<and> Get k b \<noteq> None then Some (Get k b) else None)"
proof -
  have "map_of (map (\<lambda>(k, e). (k, val e)) xs) k = map_option val (map_of xs k)" for xs :: "(string, 'a kv) gomap"
    by (induction xs) auto
  moreover have "map_of (filter (\<lambda>(k, e). has_prefix k p) (db b)) k =
      (if has_prefix k p then map_of (db b) k else None)"
    using map_of_filter_val [of "db b" "\<lambda>k e. has_prefix k p" k] assms
    by (auto simp: valid_db_def split: option.splits)
  ultimately show ?thesis
    using assms by (auto simp: List_def Get_def valid_db_def split: option.splits dest!: map_of_SomeD)
qed

interpretation im: backend valid_db Get Put Del List Pub
proof unfold_locales
  fix b :: "'a inmemory_backend" and p
  assume v: "valid_db b"
  have "map fst (List p b) = map fst (filter (\<lambda>(k, e). has_prefix k p) (db b))"
    by (simp add: List_def case_prod_unfold)
  then show "wf_map (List p b)" using v by (simp add: valid_db_def distinct_map_filter)
qed (auto simp: valid_db_def Put_def Del_def Pub_def Get_def Let_def map_of_List dest!: update_mem
      set_delete_subset [THEN subsetD])

lemma Put_subeventch [simp]: "subeventch (Put now k v ttl b) = subeventch b"
  by (simp add: Put_def Let_def)

section \<open>Expiry\<close>

lemma removeExpired_fold:
  assumes "wf_map (db b)"
  shows "map_of (db (foldl (\<lambda>b (k, e). if expireTime e < now
            then backend_event k None (b\<lparr>db := AList.delete k (db b)\<rparr>) else b) b es)) k =
     (if \<exists>e. (k, e) \<in> set es \<and> expireTime e < now then None else map_of (db b) k)"
  using assms
proof (induction es arbitrary: b)
  case (Cons x es)
  obtain k' e' where x: "x = (k', e')" by (cases x)
  show ?case
  proof (cases "expireTime e' < now")
    case True
    then show ?thesis
      using Cons.IH [of "backend_event k' None (b\<lparr>db := AList.delete k' (db b)\<rparr>)"] Cons.prems
      by (auto simp: x)
  next
    case False
    then show ?thesis using Cons by (auto simp: x)
  qed
qed simp

lemma map_of_removeExpired:
  assumes "wf_map (db b)"
  shows "map_of (db (removeExpired now b)) k =
     (case map_of (db b) k of None \<Rightarrow> None | Some e \<Rightarrow> if expireTime e < now then None else Some e)"
  using removeExpired_fold [OF assms, of now "db b" k] map_of_mem [OF assms, of k]
  by (auto simp: removeExpired_def split: option.splits)

end
