(* ===== verification/Workflow_Server.thy ===== *)
theory Workflow_Server
  imports Workflow_Task Workflow_Backend
begin

text \<open>
  The workflow server (\<open>pkg/utils/workflow/server.go\<close>) and its client (\<open>client.go\<close>) over the
  in-memory backend. The queue and the store hold what the JSON of a task decodes to.

  The steps of a task are updated in place in Go and the whole task is stored while a
  step deep in the tree runs; \<open>processone\<close> therefore carries a function from the steps it
  works on to the task they are part of.
\<close>

section \<open>JSON\<close>

text \<open>Results are the only part of a task whose encoding can fail or lose something.\<close>

fun json_value :: "go_value \<Rightarrow> go_value" where
  "json_value (VError e) = VData ''{}''"
| "json_value VNilPtr = VNil"
| "json_value v = v"

definition json_status :: "task_status \<Rightarrow> task_status" where
  "json_status st = st\<lparr>Result := map json_value (Result st)\<rparr>"

fun json_steps :: "step list \<Rightarrow> step list" where
  "json_steps [] = []"
| "json_steps (Step n f a subs st d # rest) = Step n f a (json_steps subs) (json_status st) d # json_steps rest"

fun encodable :: "step list \<Rightarrow> bool" where
  "encodable [] = True"
| "encodable (Step n f a subs st d # rest) \<longleftrightarrow> VChan \<notin> set (Result st) \<and> encodable subs \<and> encodable rest"

definition json_task :: "task \<Rightarrow> task option" where
  "json_task t = (if encodable (Steps t) \<and> VChan \<notin> set (Result (TaskStatus t))
     then Some (t\<lparr>Steps := json_steps (Steps t), TaskStatus := json_status (TaskStatus t)\<rparr>) else None)"

section \<open>Paths\<close>

text \<open>\<open>path.Clean\<close> by components: empty and dot components vanish, two dots drop the one before.\<close>

fun clean_comps :: "bool \<Rightarrow> string list \<Rightarrow> string list \<Rightarrow> string list" where
  "clean_comps rooted acc [] = rev acc"
| "clean_comps rooted acc (c # cs) =
     (if c = [] \<or> c = ''.'' then clean_comps rooted acc cs
      else if c = ''..'' then
        (case acc of
           [] \<Rightarrow> if rooted then clean_comps rooted [] cs else clean_comps rooted [c] cs
         | a # as \<Rightarrow> if a = ''..'' then clean_comps rooted (c # acc) cs else clean_comps rooted as cs)
      else clean_comps rooted (c # acc) cs)"

definition path_Clean :: "string \<Rightarrow> string" where
  "path_Clean p =
    (let rooted = has_prefix p ''/'';
         q = (if rooted then ''/'' else []) @ join_with ''/'' (clean_comps rooted [] (split_on CHR ''/'' p))
     in if q = [] then ''.'' else q)"

definition path_Join :: "string list \<Rightarrow> string" where
  "path_Join ps = (let qs = filter (\<lambda>p. p \<noteq> []) ps in
     if qs = [] then [] else path_Clean (join_with ''/'' qs))"

section \<open>The server\<close>

record engine =
  store :: "task inmemory_backend"
  world :: world

definition task_key :: "task \<Rightarrow> string" where
  "task_key t = join_with ''/'' [Group t, TaskName t, UID t]"

definition update_ttl :: int where
  "update_ttl = 300"

definition updateTask :: "task \<Rightarrow> engine \<Rightarrow> engine" where
  "updateTask t e =
     (case json_task t of
        None \<Rightarrow> e
      | Some content \<Rightarrow> e\<lparr>store := Put (now (world e)) (task_key t) content (Some update_ttl) (store e)\<rparr>)"

definition start_status :: "string \<Rightarrow> int \<Rightarrow> task_status" where
  "start_status ex t = zero_status\<lparr>Status := TaskStatusRunning, StartTimestamp := t, Executer := ex\<rparr>"

definition finish_step :: "status_code \<Rightarrow> string \<Rightarrow> int \<Rightarrow> step \<Rightarrow> step" where
  "finish_step c m t s = set_status ((StepStatus s)\<lparr>Status := c, Message := m, FinishTimestamp := t\<rparr>) s"

text \<open>
  The \<open>switch\<close> of the loop body on one step: either the round is over (with the error, if
  any), or the loop goes on to the substeps of the step.
\<close>

definition visit ::
  "registry \<Rightarrow> string \<Rightarrow> (step \<Rightarrow> task) \<Rightarrow> go_context \<Rightarrow> step \<Rightarrow> engine
     \<Rightarrow> (string option \<times> step \<times> engine) + (step \<times> engine)" where
  "visit reg ex k ctx s e =
    (if open_code (Status (StepStatus s)) then
       let s1 = set_status (start_status ex (now (world e))) s;
           e1 = updateTask (k s1) e
       in if Function s \<noteq> [] then
            let (err, s2, w2) = execute reg ctx s1 (world e1);
                e2 = e1\<lparr>world := w2\<rparr>;
                s3 = (case err of
                        Some m \<Rightarrow> finish_step TaskStatusError m (now w2) s2
                      | None \<Rightarrow> finish_step TaskStatusSuccess (Message (StepStatus s2)) (now w2) s2)
            in Inl (err, s3, updateTask (k s3) e2)
          else Inr (finish_step TaskStatusSuccess [] (now (world e1)) s1, e1)
     else if Status (StepStatus s) = TaskStatusError then Inl (Some (Message (StepStatus s)), s, e)
     else Inr (s, e))"

fun processone ::
  "registry \<Rightarrow> string \<Rightarrow> (step list \<Rightarrow> task) \<Rightarrow> go_context \<Rightarrow> step list \<Rightarrow> engine
     \<Rightarrow> string option \<times> step list \<times> engine" where
  "processone reg ex k ctx0 [] e = (None, [], e)"
| "processone reg ex k ctx0 (Step n f a subs st d # rest) e =
    (let s = Step n f a subs st d;
         ctx = WithValues ctx0 (Addtionals (k (s # rest)))
     in case visit reg ex (\<lambda>s. k (s # rest)) ctx s e of
          Inl (err, s', e') \<Rightarrow> (err, s' # rest, e')
        | Inr (s', e') \<Rightarrow>
           (case processone reg ex (\<lambda>ss. k (set_subs ss s' # rest)) ctx subs e' of
              (Some m, subs', e2) \<Rightarrow> (Some m, set_subs subs' s' # rest, e2)
            | (None, subs', e2) \<Rightarrow>
               (case processone reg ex (\<lambda>rs. k (set_subs subs' s' # rs)) ctx0 rest e2 of
                  (err2, rest', e3) \<Rightarrow> (err2, set_subs subs' s' # rest', e3))))"

definition process :: "registry \<Rightarrow> string \<Rightarrow> string \<Rightarrow> task \<Rightarrow> engine \<Rightarrow> bool \<times> task \<times> engine" where
  "process reg ex uuid t0 e =
    (let t = (if UID t0 = [] then t0\<lparr>UID := uuid\<rparr> else t0);
         (err, steps, e') = processone reg ex (\<lambda>ss. t\<lparr>Steps := ss\<rparr>) [] (Steps t) e;
         t' = t\<lparr>Steps := steps\<rparr>;
         tm = now (world e')
     in case err of
          Some m \<Rightarrow>
            let t'' = t'\<lparr>TaskStatus := (TaskStatus t')\<lparr>FinishTimestamp := tm, Status := TaskStatusError, Message := m\<rparr>\<rparr>
            in (True, t'', updateTask t'' e')
        | None \<Rightarrow>
            if isAllFinished steps then
              let t'' = t'\<lparr>TaskStatus := (TaskStatus t')\<lparr>FinishTimestamp := tm, Status := TaskStatusSuccess\<rparr>\<rparr>
              in (True, t'', updateTask t'' e')
            else (False, t', e'))"

text \<open>\<open>consume\<close>: an unfinished task goes back to the queue; the error of \<open>Pub\<close> is dropped.\<close>

definition consume :: "registry \<Rightarrow> string \<Rightarrow> string \<Rightarrow> task \<Rightarrow> engine \<Rightarrow> string option \<times> engine" where
  "consume reg ex uuid content e =
    (let (finished, t, e') = process reg ex uuid content e in
     if \<not> finished then
       (case json_task t of
          None \<Rightarrow> (Some ''json: unsupported type'', e')
        | Some c \<Rightarrow> (None, e'\<lparr>store := fst (Pub [] c (store e'))\<rparr>))
     else (None, e'))"

text \<open>One turn of a subscriber goroutine, and \<open>n\<close> turns of it while there is something queued.\<close>

definition turn :: "registry \<Rightarrow> string \<Rightarrow> string \<Rightarrow> engine \<Rightarrow> engine" where
  "turn reg ex uuid e =
     (case next_event (store e) of
        None \<Rightarrow> e
      | Some ((k, c), b) \<Rightarrow> snd (consume reg ex uuid c (e\<lparr>store := b\<rparr>)))"

fun turns :: "nat \<Rightarrow> registry \<Rightarrow> string \<Rightarrow> string \<Rightarrow> engine \<Rightarrow> engine" where
  "turns 0 reg ex uuid e = e"
| "turns (Suc n) reg ex uuid e = turns n reg ex uuid (turn reg ex uuid e)"

section \<open>The client\<close>

text \<open>\<open>has_status\<close> is \<open>task.Status != nil\<close>.\<close>

definition SubmitTask ::
  "int \<Rightarrow> string \<Rightarrow> bool \<Rightarrow> task \<Rightarrow> task inmemory_backend \<Rightarrow> string option \<times> task inmemory_backend" where
  "SubmitTask tm uuid has_status t0 b =
    (if TaskName t0 = [] then (Some ''empty task name'', b)
     else
     let t1 = t0\<lparr>CreationTimestamp := tm\<rparr>;
         t2 = (if UID t1 = [] then t1\<lparr>UID := uuid\<rparr> else t1);
         t = (if has_status then t2 else t2\<lparr>TaskStatus := zero_status\<lparr>Status := TaskStatusPending\<rparr>\<rparr>)
     in case json_task t of
          None \<Rightarrow> (Some ''json: unsupported type'', b)
        | Some content \<Rightarrow>
            let b1 = Put tm (path_Join [Group t, TaskName t, UID t]) content None b;
                (b2, err) = Pub [] content b1
            in (err, b2))"

definition list_prefix :: "string \<Rightarrow> string \<Rightarrow> string" where
  "list_prefix grp name = (if grp = [] \<and> name = [] then [] else grp @ ''/'' @ name)"

definition zero_task :: task where
  "zero_task = \<lparr>UID = [], TaskName = [], Group = [], Steps = [], CreationTimestamp = 0,
                Addtionals = [], TaskStatus = zero_status\<rparr>"

definition ListTasks :: "string \<Rightarrow> string \<Rightarrow> task inmemory_backend \<Rightarrow> task list" where
  "ListTasks grp name b =
     sort_slice (\<lambda>x y. \<not> CreationTimestamp x < CreationTimestamp y)
       (map (\<lambda>(k, v). case v of None \<Rightarrow> zero_task | Some t \<Rightarrow> t) (List (list_prefix grp name) b))"

definition RemoveTask :: "string \<Rightarrow> string \<Rightarrow> string \<Rightarrow> task inmemory_backend \<Rightarrow> task inmemory_backend" where
  "RemoveTask grp name uid b = Del (path_Join [grp, name, uid]) b"

definition WatchTasks :: "string \<Rightarrow> string \<Rightarrow> string \<Rightarrow> task inmemory_backend \<Rightarrow> task inmemory_backend" where
  "WatchTasks uid grp name b = Watch uid (list_prefix grp name) b"

text \<open>What the callback of \<open>WatchTasks\<close> passes on: nothing for the event of a deletion.\<close>

definition watch_callback :: "task option \<Rightarrow> task option" where
  "watch_callback v = v"

section \<open>What a round does\<close>

text \<open>No registered function returns something JSON cannot encode.\<close>

definition clean_registry :: "registry \<Rightarrow> bool" where
  "clean_registry reg \<longleftrightarrow> (\<forall>(n, f) \<in> set reg. \<forall>tr ctx vs rs dt.
     behave f tr ctx vs = (Returned rs, dt) \<longrightarrow> VChan \<notin> set rs)"

lemma collect_results_set: "collect_results rs = (ws, b) \<Longrightarrow> set ws \<subseteq> set rs"
  by (induction rs arbitrary: ws b) (auto split: if_splits prod.splits)

lemma execute_encodable:
  assumes "clean_registry reg" and "execute reg ctx s w = (err, s', w')" and "VChan \<notin> set (Result (StepStatus s))"
  shows "VChan \<notin> set (Result (StepStatus s'))"
  using assms
  by (auto simp: execute_def Let_def clean_registry_def dest!: map_of_SomeD collect_results_set
      split: option.splits sum.splits prod.splits if_splits call_outcome.splits) blast+

text \<open>The relation between a list of steps before a pass of \<open>processone\<close> and after it.\<close>

definition pass :: "registry \<Rightarrow> step list \<Rightarrow> engine \<Rightarrow> string option \<Rightarrow> step list \<Rightarrow> engine \<Rightarrow> bool" where
  "pass reg steps e err steps' e' \<longleftrightarrow>
     (\<exists>new. trace (world e') = trace (world e) @ new \<and>
        (if err = None then mset (map call_name new) + open_funcs steps' = open_funcs steps
         else mset (map call_name new) \<subseteq># open_funcs steps)) \<and>
     (err = None \<longrightarrow> known_codes steps \<longrightarrow> known_codes steps' \<and>
        (open_steps steps' < open_steps steps \<or> open_steps steps' = open_steps steps \<and> isAllFinished steps')) \<and>
     (valid_db (store e) \<longrightarrow> valid_db (store e')) \<and> subeventch (store e') = subeventch (store e) \<and>
     (clean_registry reg \<longrightarrow> encodable steps \<longrightarrow> encodable steps')"

lemma updateTask_simps [simp]:
  "world (updateTask t e) = world e"
  "subeventch (store (updateTask t e)) = subeventch (store e)"
  by (simp_all add: updateTask_def split: option.splits)

lemma valid_updateTask: "valid_db (store e) \<Longrightarrow> valid_db (store (updateTask t e))"
  by (simp add: updateTask_def im.valid_put split: option.splits)

text \<open>A step that is passed by: its subtree, then its siblings.\<close>

lemma pass_by:
  assumes "pass reg subs e1 None subs' e2" and "pass reg rest e2 err rest' e3"
    and "trace (world e1) = trace (world e)" and "valid_db (store e) \<longrightarrow> valid_db (store e1)"
    and "subeventch (store e1) = subeventch (store e)"
    and "Status st' = TaskStatusSuccess \<and> (open_code (Status st) \<and> f = [] \<and> Result st' = []
           \<or> Status st = TaskStatusSuccess \<and> Result st' = Result st)
         \<or> st' = st \<and> Status st \<notin> {TaskStatusNone, TaskStatusRunning, TaskStatusSuccess, TaskStatusError}"
  shows "pass reg (Step n f a subs st d # rest) e err (Step n f a subs' st' d # rest') e3"
proof -
  obtain n1 where n1: "trace (world e2) = trace (world e1) @ n1"
    "mset (map call_name n1) + open_funcs subs' = open_funcs subs"
    using assms(1) by (auto simp: pass_def)
  obtain n2 where n2: "trace (world e3) = trace (world e2) @ n2"
    "if err = None then mset (map call_name n2) + open_funcs rest' = open_funcs rest
         else mset (map call_name n2) \<subseteq># open_funcs rest"
    using assms(2) by (auto simp: pass_def)
  have nf: "open_funcs (Step n f a subs st d # rest) = open_funcs subs + open_funcs rest"
    "open_funcs (Step n f a subs' st' d # rest') = open_funcs subs' + open_funcs rest'"
    using assms(6) by (auto simp: open_code_def)
  have tr: "trace (world e3) = trace (world e) @ (n1 @ n2)" using n1 n2 assms(3) by simp
  have fs: "if err = None then mset (map call_name (n1 @ n2)) + open_funcs (Step n f a subs' st' d # rest')
           = open_funcs (Step n f a subs st d # rest)
         else mset (map call_name (n1 @ n2)) \<subseteq># open_funcs (Step n f a subs st d # rest)"
  proof (cases err)
    case None
    then have "mset (map call_name n2) + open_funcs rest' = open_funcs rest" using n2(2) by simp
    then show ?thesis using None unfolding nf n1(2) [symmetric] by (simp add: ac_simps)
  next
    case (Some m)
    have "mset (map call_name n1) \<subseteq># open_funcs subs" using n1(2) by (metis mset_subset_eq_add_left)
    moreover have "mset (map call_name n2) \<subseteq># open_funcs rest" using n2(2) Some by simp
    ultimately have "mset (map call_name n1) + mset (map call_name n2) \<subseteq># open_funcs subs + open_funcs rest"
      by (rule subset_mset.add_mono)
    then show ?thesis using Some unfolding nf by simp
  qed
  have kn: "err = None \<longrightarrow> known_codes (Step n f a subs st d # rest) \<longrightarrow>
      known_codes (Step n f a subs' st' d # rest') \<and>
      (open_steps (Step n f a subs' st' d # rest') < open_steps (Step n f a subs st d # rest) \<or>
       open_steps (Step n f a subs' st' d # rest') = open_steps (Step n f a subs st d # rest) \<and>
       isAllFinished (Step n f a subs' st' d # rest'))"
  proof (intro impI)
    assume e: "err = None" and "known_codes (Step n f a subs st d # rest)"
    then have k: "known_codes subs" "known_codes rest" and st: "Status st' = TaskStatusSuccess"
      "open_code (Status st) \<or> Status st = TaskStatusSuccess"
      using assms(6) by auto
    have i: "known_codes subs' \<and> (open_steps subs' < open_steps subs \<or> open_steps subs' = open_steps subs \<and> isAllFinished subs')"
      "known_codes rest' \<and> (open_steps rest' < open_steps rest \<or> open_steps rest' = open_steps rest \<and> isAllFinished rest')"
      using assms(1,2) k e by (simp_all add: pass_def)
    show "known_codes (Step n f a subs' st' d # rest') \<and>
      (open_steps (Step n f a subs' st' d # rest') < open_steps (Step n f a subs st d # rest) \<or>
       open_steps (Step n f a subs' st' d # rest') = open_steps (Step n f a subs st d # rest) \<and>
       isAllFinished (Step n f a subs' st' d # rest'))"
      using i st by (auto simp: open_code_def)
  qed
  have rest: "valid_db (store e) \<longrightarrow> valid_db (store e3)" "subeventch (store e3) = subeventch (store e)"
    "clean_registry reg \<longrightarrow> encodable (Step n f a subs st d # rest) \<longrightarrow> encodable (Step n f a subs' st' d # rest')"
    using assms(1,2,4,5,6) by (auto simp: pass_def)
  show ?thesis
    unfolding pass_def using tr fs kn rest by blast
qed

lemma pass_sub_error:
  assumes "pass reg subs e1 (Some m) subs' e2"
    and "trace (world e1) = trace (world e)" and "valid_db (store e) \<longrightarrow> valid_db (store e1)"
    and "subeventch (store e1) = subeventch (store e)" and "Result st' = [] \<or> Result st' = Result st"
  shows "pass reg (Step n f a subs st d # rest) e (Some m) (Step n f a subs' st' d # rest) e2"
proof -
  obtain n1 where n1: "trace (world e2) = trace (world e1) @ n1" "mset (map call_name n1) \<subseteq># open_funcs subs"
    using assms(1) by (auto simp: pass_def)
  have "open_funcs subs \<subseteq># open_funcs (Step n f a subs st d # rest)" by simp
  with n1(2) have "mset (map call_name n1) \<subseteq># open_funcs (Step n f a subs st d # rest)"
    by (rule subset_mset.order_trans)
  then show ?thesis
    using assms n1(1) unfolding pass_def by auto
qed

lemma pass_executed:
  assumes "execute reg ctx s1 w1 = (err, s2, w2)" and "f \<noteq> []" and "open_code (Status st)"
    and "s1 = set_status st1 (Step n f a subs st d)" and "Result st1 = []" and "world e1 = w1"
    and "trace (world e1) = trace (world e)" and "valid_db (store e) \<longrightarrow> valid_db (store e3)"
    and "subeventch (store e3) = subeventch (store e)" and "world e3 = w2"
    and "s3 = finish_step (if err = None then TaskStatusSuccess else TaskStatusError) m t s2"
  shows "pass reg (Step n f a subs st d # rest) e err (s3 # rest) e3"
proof -
  note ex = execute_keeps [OF assms(1)]
  obtain n' d' a' st2 where s2: "s2 = Step n' f a' subs st2 d'"
    using ex assms(4) by (cases s2) auto
  then have s3: "s3 = Step n' f a' subs (st2\<lparr>Status := if err = None then TaskStatusSuccess else TaskStatusError,
      Message := m, FinishTimestamp := t\<rparr>) d'"
    using assms(11) by (simp add: finish_step_def set_status_def)
  have "\<exists>new. trace w2 = trace w1 @ new \<and> (err = None \<longrightarrow> map call_name new = [f]) \<and> length new \<le> 1 \<and>
       (\<forall>c \<in> set new. call_name c = f)"
    using assms(1,4)
    by (auto simp: execute_def Let_def split: option.splits sum.splits prod.splits if_splits call_outcome.splits)
  then obtain new where new: "trace w2 = trace w1 @ new" "err = None \<longrightarrow> map call_name new = [f]" "length new \<le> 1"
    "\<forall>c \<in> set new. call_name c = f"
    by (elim exE conjE) (rule that)
  have sub: "mset (map call_name new) \<subseteq># {#f#}"
    using new(3,4) by (cases new) auto
  have en: "clean_registry reg \<Longrightarrow> VChan \<notin> set (Result st2)"
    using execute_encodable [OF _ assms(1)] assms(4,5) s2 by simp
  have "if err = None then mset (map call_name new) + open_funcs (s3 # rest) = open_funcs (Step n f a subs st d # rest)
         else mset (map call_name new) \<subseteq># open_funcs (Step n f a subs st d # rest)"
  proof (cases err)
    case None
    then show ?thesis using new(2) assms(2,3) by (simp add: s3 open_code_def)
  next
    case (Some m')
    have "{#f#} \<subseteq># open_funcs (Step n f a subs st d # rest)" using assms(2,3) by simp
    with sub have "mset (map call_name new) \<subseteq># open_funcs (Step n f a subs st d # rest)"
      by (rule subset_mset.order_trans)
    then show ?thesis using Some by simp
  qed
  moreover have "trace (world e3) = trace (world e) @ new" using new(1) assms(6,7,10) by simp
  ultimately show ?thesis
    using assms(3,8,9) en unfolding pass_def by (auto simp: s3 open_code_def)
qed

text \<open>What the visit of a step does, in the terms of the lemmas above.\<close>

lemma visit_Inl:
  assumes "visit reg ex k ctx (Step n f a subs st d) e = Inl (err, s', e')"
  shows "pass reg (Step n f a subs st d # rest) e err (s' # rest) e'"
proof (cases "open_code (Status st)")
  case opn: True
  let ?s = "Step n f a subs st d"
  let ?s1 = "set_status (start_status ex (now (world e))) ?s"
  let ?e1 = "updateTask (k ?s1) e"
  have f: "f \<noteq> []" using assms opn by (auto simp: visit_def Let_def)
  obtain err1 s2 w2 where x: "execute reg ctx ?s1 (world ?e1) = (err1, s2, w2)" by (metis prod_cases3)
  have r1: "Result (start_status ex (now (world e))) = []" by (simp add: start_status_def zero_status_def)
  have v: "valid_db (store e) \<longrightarrow> valid_db (store (updateTask t (?e1\<lparr>world := w2\<rparr>)))" for t
    by (intro impI valid_updateTask) (simp add: valid_updateTask)
  define s3 where "s3 = finish_step (if err1 = None then TaskStatusSuccess else TaskStatusError)
      (case err1 of None \<Rightarrow> Message (StepStatus s2) | Some m \<Rightarrow> m) (now w2) s2"
  have "visit reg ex k ctx ?s e = Inl (err1, s3, updateTask (k s3) (?e1\<lparr>world := w2\<rparr>))"
    using opn f x by (cases err1) (simp_all add: visit_def Let_def s3_def)
  with assms have eqs: "err = err1" "s' = s3" "e' = updateTask (k s3) (?e1\<lparr>world := w2\<rparr>)"
    by auto
  show ?thesis
    unfolding eqs
    by (rule pass_executed [OF x f opn refl r1 refl _ v _ _ s3_def]) simp_all
next
  case False
  then have "err = Some (Message st)" "s' = Step n f a subs st d" "e' = e"
    using assms by (simp_all add: visit_def split: if_splits)
  then show ?thesis by (simp add: pass_def)
qed

lemma visit_Inr:
  assumes "visit reg ex k ctx (Step n f a subs st d) e = Inr (s', e1)"
  shows "\<exists>st'. s' = Step n f a subs st' d \<and> trace (world e1) = trace (world e) \<and>
     (valid_db (store e) \<longrightarrow> valid_db (store e1)) \<and> subeventch (store e1) = subeventch (store e) \<and>
     (Status st' = TaskStatusSuccess \<and> (open_code (Status st) \<and> f = [] \<and> Result st' = []
           \<or> Status st = TaskStatusSuccess \<and> Result st' = Result st)
      \<or> st' = st \<and> Status st \<notin> {TaskStatusNone, TaskStatusRunning, TaskStatusSuccess, TaskStatusError})"
proof (cases "open_code (Status st)")
  case True
  then have f: "f = []" "e1 = updateTask (k (set_status (start_status ex (now (world e))) (Step n f a subs st d))) e"
    "s' = finish_step TaskStatusSuccess [] (now (world e))
       (set_status (start_status ex (now (world e))) (Step n f a subs st d))"
    using assms by (auto simp: visit_def Let_def split: if_splits prod.splits)
  then show ?thesis using True valid_updateTask [of e]
    by (simp add: finish_step_def set_status_def start_status_def zero_status_def)
next
  case False
  then have s': "s' = Step n f a subs st d" "e1 = e" "Status st \<noteq> TaskStatusError"
    using assms by (auto simp: visit_def Let_def split: if_splits)
  show ?thesis
  proof (intro exI [of _ st] conjI)
    show "Status st = TaskStatusSuccess \<and> (open_code (Status st) \<and> f = [] \<and> Result st = []
           \<or> Status st = TaskStatusSuccess \<and> Result st = Result st)
      \<or> st = st \<and> Status st \<notin> {TaskStatusNone, TaskStatusRunning, TaskStatusSuccess, TaskStatusError}"
      using False s'(3) by (auto simp: open_code_def)
  qed (simp_all add: s')
qed

lemma processone_pass:
  "processone reg ex k ctx0 steps e = (err, steps', e') \<Longrightarrow> pass reg steps e err steps' e'"
proof (induction steps arbitrary: k ctx0 e err steps' e' rule: open_steps.induct)
  case 1
  then show ?case by (simp add: pass_def)
next
  case (2 n f a subs st d rest)
  let ?s = "Step n f a subs st d"
  let ?ctx = "WithValues ctx0 (Addtionals (k (?s # rest)))"
  show ?case
  proof (cases "visit reg ex (\<lambda>s. k (s # rest)) ?ctx ?s e")
    case (Inl r)
    obtain err0 s' e1 where r: "r = (err0, s', e1)" by (cases r)
    then show ?thesis
      using visit_Inl [OF Inl [unfolded r]] Inl "2.prems" by (auto simp: Let_def)
  next
    case (Inr r)
    obtain s' e1 where r: "r = (s', e1)" by (cases r)
    obtain st' where st': "s' = Step n f a subs st' d" "trace (world e1) = trace (world e)"
      "valid_db (store e) \<longrightarrow> valid_db (store e1)" "subeventch (store e1) = subeventch (store e)"
      "Status st' = TaskStatusSuccess \<and> (open_code (Status st) \<and> f = [] \<and> Result st' = []
           \<or> Status st = TaskStatusSuccess \<and> Result st' = Result st)
         \<or> st' = st \<and> Status st \<notin> {TaskStatusNone, TaskStatusRunning, TaskStatusSuccess, TaskStatusError}"
      using visit_Inr [OF Inr [unfolded r]] by metis
    obtain err1 subs' e2 where p1: "processone reg ex (\<lambda>ss. k (set_subs ss s' # rest)) ?ctx subs e1 = (err1, subs', e2)"
      by (metis prod_cases3)
    note q1 = "2.IH"(1) [OF p1]
    have ss: "set_subs ss s' = Step n f a ss st' d" for ss
      by (simp add: st'(1) set_subs_def)
    show ?thesis
    proof (cases err1)
      case (Some m)
      then have eqs: "err = Some m" "steps' = Step n f a subs' st' d # rest" "e' = e2"
        using "2.prems" p1 Inr r by (auto simp: Let_def ss)
      have "Result st' = [] \<or> Result st' = Result st" using st'(5) by auto
      from pass_sub_error [OF q1 [unfolded Some] st'(2-4) this] show ?thesis unfolding eqs .
    next
      case None
      obtain err2 rest' e3 where p2: "processone reg ex (\<lambda>rs. k (set_subs subs' s' # rs)) ctx0 rest e2 = (err2, rest', e3)"
        by (metis prod_cases3)
      then have eqs: "err = err2" "steps' = Step n f a subs' st' d # rest'" "e' = e3"
        using "2.prems" p1 None Inr r by (auto simp: Let_def ss)
      from pass_by [OF q1 [unfolded None] "2.IH"(2) [OF p2] st'(2-5)] show ?thesis unfolding eqs .
    qed
  qed
qed

section \<open>Rounds of a queued task\<close>

lemma json_steps_keep:
  "open_steps (json_steps ss) = open_steps ss \<and> open_funcs (json_steps ss) = open_funcs ss \<and>
   known_codes (json_steps ss) = known_codes ss"
  by (induction ss rule: open_steps.induct) (simp_all add: json_status_def)

lemma json_value_clean: "VChan \<notin> set vs \<Longrightarrow> VChan \<notin> set (map json_value vs)"
proof -
  have "json_value v = VChan \<Longrightarrow> v = VChan" for v by (cases v) auto
  moreover assume "VChan \<notin> set vs"
  ultimately show "VChan \<notin> set (map json_value vs)" by (metis imageE set_map)
qed

lemma encodable_json_steps: "encodable ss \<Longrightarrow> encodable (json_steps ss)"
  by (induction ss rule: open_steps.induct) (simp_all add: json_status_def json_value_clean del: set_map)

text \<open>A task as it travels through the queue.\<close>

definition good_task :: "task \<Rightarrow> bool" where
  "good_task t \<longleftrightarrow> UID t \<noteq> [] \<and> known_codes (Steps t) \<and> encodable (Steps t) \<and> VChan \<notin> set (Result (TaskStatus t))"

text \<open>What is stored of a finished task, with the calls its last rounds made.\<close>

definition finished_as :: "task \<Rightarrow> string list \<Rightarrow> task \<Rightarrow> bool" where
  "finished_as t calls r \<longleftrightarrow>
     (Status (TaskStatus r) = TaskStatusSuccess \<and> isAllFinished (Steps r) \<and> mset calls = open_funcs (Steps t)
      \<or> Status (TaskStatus r) = TaskStatusError \<and> mset calls \<subseteq># open_funcs (Steps t))"

lemma json_steps_finished: "isAllFinished (json_steps ss) = isAllFinished ss"
  by (induction ss rule: open_steps.induct) (simp_all add: json_status_def)

lemma turn_one:
  assumes "clean_registry reg" and "good_task c" and "valid_db (store e)" and "subeventch (store e) = [(k, c)]"
  shows "let e' = turn reg ex uuid e in \<exists>new. trace (world e') = trace (world e) @ new \<and> valid_db (store e') \<and>
     (subeventch (store e') = [] \<and>
        (\<exists>r. Get (task_key c) (store e') = Some r \<and> finished_as c (map call_name new) r)
      \<or> (\<exists>c'. subeventch (store e') = [([], c')] \<and> good_task c' \<and> task_key c' = task_key c \<and>
          open_steps (Steps c') < open_steps (Steps c) \<and>
          mset (map call_name new) + open_funcs (Steps c') = open_funcs (Steps c)))"
proof -
  define e0 where "e0 = e\<lparr>store := (store e)\<lparr>subeventch := []\<rparr>\<rparr>"
  obtain err steps' e1 where p: "processone reg ex (\<lambda>ss. c\<lparr>Steps := ss\<rparr>) [] (Steps c) e0 = (err, steps', e1)"
    by (metis prod_cases3)
  note ps = processone_pass [OF p, unfolded pass_def]
  have e0: "world e0 = world e" "subeventch (store e0) = []" "valid_db (store e0)"
    using assms(3) by (simp_all add: e0_def valid_db_def)
  obtain new where new: "trace (world e1) = trace (world e) @ new"
     "if err = None then mset (map call_name new) + open_funcs steps' = open_funcs (Steps c)
         else mset (map call_name new) \<subseteq># open_funcs (Steps c)"
    using ps by (auto simp: e0)
  have q: "valid_db (store e1)" "subeventch (store e1) = []" "encodable steps'"
    using ps e0 assms(1,2) by (auto simp: good_task_def)
  have turn_eq: "turn reg ex uuid e = snd (consume reg ex uuid c e0)"
    using assms(4) by (simp add: turn_def next_event_def e0_def)
  have stored: "Get (task_key c) (store (updateTask t e1)) = json_task t"
    if "task_key t = task_key c" "json_task t \<noteq> None" for t
    using that q(1) by (auto simp: updateTask_def im.get_put)
  have json: "json_task (c\<lparr>Steps := steps', TaskStatus := st\<rparr>) =
      Some (c\<lparr>Steps := json_steps steps', TaskStatus := json_status st\<rparr>)"
    if "Result st = Result (TaskStatus c)" for st
    using that q(3) assms(2) by (simp add: json_task_def good_task_def)
  have key: "task_key (c\<lparr>Steps := a, TaskStatus := b\<rparr>) = task_key c" for a b by (simp add: task_key_def)
  show ?thesis
  proof (cases err)
    case (Some m)
    define t where "t = c\<lparr>Steps := steps', TaskStatus := (TaskStatus c)\<lparr>FinishTimestamp := now (world e1),
        Status := TaskStatusError, Message := m\<rparr>\<rparr>"
    have "turn reg ex uuid e = updateTask t e1"
      using assms(2) p Some by (simp add: turn_eq consume_def process_def good_task_def t_def Let_def)
    moreover have "\<exists>r. json_task t = Some r \<and> Status (TaskStatus r) = TaskStatusError"
      unfolding t_def by (subst json) (simp_all add: json_status_def)
    ultimately show ?thesis
      using new Some q stored [of t] key
      by (auto simp: Let_def finished_as_def t_def valid_updateTask)
  next
    case None
    have kn: "known_codes steps' \<and> (open_steps steps' < open_steps (Steps c) \<or> isAllFinished steps')"
      using ps None assms(2) by (auto simp: good_task_def)
    show ?thesis
    proof (cases "isAllFinished steps'")
      case True
      define t where "t = c\<lparr>Steps := steps', TaskStatus := (TaskStatus c)\<lparr>FinishTimestamp := now (world e1),
          Status := TaskStatusSuccess\<rparr>\<rparr>"
      have "turn reg ex uuid e = updateTask t e1"
        using assms(2) p None True by (simp add: turn_eq consume_def process_def good_task_def t_def Let_def)
      moreover have "\<exists>r. json_task t = Some r \<and> Status (TaskStatus r) = TaskStatusSuccess \<and> isAllFinished (Steps r)"
        unfolding t_def by (subst json) (simp_all add: json_status_def json_steps_finished True)
      moreover have "mset (map call_name new) = open_funcs (Steps c)"
        using new(2) None isAllFinished_open [OF True] by simp
      ultimately show ?thesis
        using new(1) q stored [of t] key
        by (auto simp: Let_def finished_as_def t_def valid_updateTask)
    next
      case False
      define c' where "c' = c\<lparr>Steps := json_steps steps', TaskStatus := json_status (TaskStatus c)\<rparr>"
      have "json_task (c\<lparr>Steps := steps'\<rparr>) = Some c'"
        using json [of "TaskStatus c"] by (simp add: c'_def)
      then have t: "turn reg ex uuid e = e1\<lparr>store := fst (Pub [] c' (store e1))\<rparr>"
        using assms(2) p None False by (simp add: turn_eq consume_def process_def good_task_def Let_def)
      have "subeventch (store (turn reg ex uuid e)) = [([], c')]" "valid_db (store (turn reg ex uuid e))"
        using q im.valid_pub by (simp_all add: t Pub_def channel_size_def valid_db_def)
      moreover have "good_task c'" "open_steps (Steps c') < open_steps (Steps c)" "task_key c' = task_key c"
        "mset (map call_name new) + open_funcs (Steps c') = open_funcs (Steps c)"
        using assms(2) kn False q(3) new(2) None encodable_json_steps [of steps']
        by (simp_all add: good_task_def c'_def json_steps_keep task_key_def json_status_def json_value_clean del: set_map)
      ultimately show ?thesis using new(1) t by (auto simp: Let_def)
    qed
  qed
qed

lemma turns_finish:
  assumes "clean_registry reg" and "good_task c" and "valid_db (store e)" and "subeventch (store e) = [(k, c)]"
  shows "\<exists>n new. n \<le> Suc (open_steps (Steps c)) \<and> subeventch (store (turns n reg ex uuid e)) = [] \<and>
     trace (world (turns n reg ex uuid e)) = trace (world e) @ new \<and>
     (\<exists>r. Get (task_key c) (store (turns n reg ex uuid e)) = Some r \<and> finished_as c (map call_name new) r)"
  using assms(2-4)
proof (induction "open_steps (Steps c)" arbitrary: c e k rule: less_induct)
  case less
  let ?e = "turn reg ex uuid e"
  obtain new where new: "trace (world ?e) = trace (world e) @ new" "valid_db (store ?e)"
    "subeventch (store ?e) = [] \<and>
        (\<exists>r. Get (task_key c) (store ?e) = Some r \<and> finished_as c (map call_name new) r)
      \<or> (\<exists>c'. subeventch (store ?e) = [([], c')] \<and> good_task c' \<and> task_key c' = task_key c \<and>
          open_steps (Steps c') < open_steps (Steps c) \<and>
          mset (map call_name new) + open_funcs (Steps c') = open_funcs (Steps c))"
    using turn_one [OF assms(1) less.prems, of ex uuid] unfolding Let_def by blast
  from new(3) show ?case
  proof
    assume "subeventch (store ?e) = [] \<and>
        (\<exists>r. Get (task_key c) (store ?e) = Some r \<and> finished_as c (map call_name new) r)"
    then show ?thesis using new(1)
      by (intro exI [of _ 1] exI [of _ new]) simp
  next
    assume "\<exists>c'. subeventch (store ?e) = [([], c')] \<and> good_task c' \<and> task_key c' = task_key c \<and>
          open_steps (Steps c') < open_steps (Steps c) \<and>
          mset (map call_name new) + open_funcs (Steps c') = open_funcs (Steps c)"
    then obtain c' where c': "subeventch (store ?e) = [([], c')]" "good_task c'" "task_key c' = task_key c"
      "open_steps (Steps c') < open_steps (Steps c)"
      "mset (map call_name new) + open_funcs (Steps c') = open_funcs (Steps c)" by blast
    obtain n new' r where n: "n \<le> Suc (open_steps (Steps c'))" "subeventch (store (turns n reg ex uuid ?e)) = []"
      "trace (world (turns n reg ex uuid ?e)) = trace (world ?e) @ new'"
      "Get (task_key c') (store (turns n reg ex uuid ?e)) = Some r" "finished_as c' (map call_name new') r"
      using less.hyps [OF c'(4,2) new(2) c'(1)] by blast
    have "finished_as c (map call_name (new @ new')) r"
    proof -
      have eq: "mset (map call_name (new @ new')) = mset (map call_name new) + mset (map call_name new')" by simp
      from n(5) show ?thesis
        unfolding finished_as_def eq c'(5) [symmetric] by (elim disjE) simp_all
    qed
    then show ?thesis using n c' new(1)
      by (intro exI [of _ "Suc n"] exI [of _ "new @ new'"]) auto
  qed
qed

section \<open>Keys\<close>

definition simple_comp :: "string \<Rightarrow> bool" where
  "simple_comp c \<longleftrightarrow> c \<noteq> [] \<and> c \<noteq> ''.'' \<and> c \<noteq> ''..'' \<and> CHR ''/'' \<notin> set c"

lemma clean_comps_simple:
  "\<forall>c \<in> set cs. simple_comp c \<Longrightarrow> clean_comps rooted acc cs = rev acc @ cs"
  by (induction cs arbitrary: acc) (auto simp: simple_comp_def)

lemma path_Clean_simple:
  assumes "cs \<noteq> []" and "\<forall>c \<in> set cs. simple_comp c"
  shows "path_Clean (join_with ''/'' cs) = join_with ''/'' cs"
proof -
  have sp: "split_on CHR ''/'' (join_with ''/'' cs) = cs"
    by (rule split_join) (use assms in \<open>auto simp: simple_comp_def\<close>)
  obtain c cs' where cs: "cs = c # cs'" using assms(1) by (cases cs) auto
  have c: "simple_comp c" using assms(2) cs by simp
  then obtain x xs where x: "c = x # xs" "x \<noteq> CHR ''/''" by (cases c) (auto simp: simple_comp_def)
  have "join_with ''/'' cs = x # tl (join_with ''/'' cs)" by (cases cs') (simp_all add: cs x)
  then have ne: "join_with ''/'' cs \<noteq> []" "\<not> has_prefix (join_with ''/'' cs) ''/''"
    using x(2) by (metis list.distinct(1), metis append_Cons has_prefix_iff list.inject)
  show ?thesis
    using ne by (simp add: path_Clean_def Let_def sp clean_comps_simple [OF assms(2)])
qed

lemma path_Join_simple:
  assumes "g = [] \<or> simple_comp g" and "simple_comp n" and "simple_comp u"
  shows "path_Join [g, n, u] = join_with ''/'' (if g = [] then [n, u] else [g, n, u])"
proof -
  have f: "filter (\<lambda>p. p \<noteq> []) [g, n, u] = (if g = [] then [n, u] else [g, n, u])"
    using assms(2,3) by (simp add: simple_comp_def)
  show ?thesis
    unfolding path_Join_def Let_def f using assms
    by (auto simp: path_Clean_simple simp del: join_with.simps)
qed

section \<open>Properties of the workflow engine\<close>

text \<open>C8: A submitted task finishes. Submitting a named task to an engine with nothing queued succeeds;
  if every step status is one the engine writes and no function returns something JSON cannot
  encode, then after at most one turn more than the task has unfinished steps the queue is
  empty and the store holds the task with its final status: success, with every step
  successful and every function of an unfinished step called exactly once, or error, with no
  function called twice.\<close>

theorem submitted_task_finishes:
  assumes "clean_registry reg" and "TaskName t \<noteq> []" and "good_task t" and "valid_db (store e)"
    and "subeventch (store e) = []" and "SubmitTask tm uuid hs t (store e) = (err, b)"
  shows "err = None \<and> (\<exists>n calls r. n \<le> Suc (open_steps (Steps t)) \<and>
     (let e' = turns n reg ex uuid (e\<lparr>store := b\<rparr>) in
        subeventch (store e') = [] \<and> trace (world e') = trace (world e) @ calls \<and>
        Get (task_key t) (store e') = Some r \<and>
        (Status (TaskStatus r) = TaskStatusSuccess \<and> isAllFinished (Steps r) \<and>
           mset (map call_name calls) = open_funcs (Steps t)
         \<or> Status (TaskStatus r) = TaskStatusError \<and>
           mset (map call_name calls) \<subseteq># open_funcs (Steps t))))"
proof -
  have gt: "UID t \<noteq> []" "known_codes (Steps t)" "encodable (Steps t)" "VChan \<notin> set (Result (TaskStatus t))"
    using assms(3) by (simp_all add: good_task_def)
  define st where "st = (if hs then TaskStatus t else zero_status\<lparr>Status := TaskStatusPending\<rparr>)"
  define c where "c = t\<lparr>CreationTimestamp := tm, Steps := json_steps (Steps t), TaskStatus := json_status st\<rparr>"
  have st: "VChan \<notin> set (Result st)" using gt by (simp add: st_def zero_status_def)
  have "json_task (if hs then t\<lparr>CreationTimestamp := tm\<rparr>
      else t\<lparr>CreationTimestamp := tm, TaskStatus := zero_status\<lparr>Status := TaskStatusPending\<rparr>\<rparr>) = Some c"
    using gt st by (auto simp: json_task_def c_def st_def)
  then have b: "(err, b) = (None, fst (Pub [] c (Put tm (path_Join [Group t, TaskName t, UID t]) c None (store e))))"
    using assms(2,5,6) gt by (auto simp: SubmitTask_def Let_def Pub_def channel_size_def split: if_splits)
  have v: "valid_db b" using b assms(4) by (simp add: im.valid_pub im.valid_put)
  have q: "subeventch b = [([], c)]" using b assms(5) by (simp add: Pub_def channel_size_def)
  have gc: "good_task c" "task_key c = task_key t" "open_steps (Steps c) = open_steps (Steps t)"
    "open_funcs (Steps c) = open_funcs (Steps t)"
    using gt st encodable_json_steps [of "Steps t"]
    by (simp_all add: good_task_def c_def json_steps_keep task_key_def json_status_def json_value_clean del: set_map)
  have "store (e\<lparr>store := b\<rparr>) = b" "world (e\<lparr>store := b\<rparr>) = world e" by simp_all
  with turns_finish [OF assms(1) gc(1), of "e\<lparr>store := b\<rparr>" "[]" ex uuid] v q gc(2-4)
  show ?thesis using b unfolding Let_def finished_as_def by (metis prod.inject)
qed

definition ok_func :: go_func where
  "ok_func = \<lparr>takes_ctx = False, params = [], zeros = [], behave = (\<lambda>tr ctx vs. (Returned [VNil], 1))\<rparr>"

definition ex_step :: "string \<Rightarrow> string \<Rightarrow> step list \<Rightarrow> step" where
  "ex_step n f subs = Step n f [] subs zero_status 0"

text \<open>A step with two substeps, then a second step.\<close>

definition nested_task :: task where
  "nested_task = zero_task\<lparr>UID := ''u'', TaskName := ''n'', Group := ''g'',
     Steps := [ex_step ''1'' [] [ex_step ''1a'' ''a'' [], ex_step ''1b'' ''b'' []], ex_step ''2'' ''c'' []]\<rparr>"

definition abc_registry :: registry where
  "abc_registry = [(''a'', ok_func), (''b'', ok_func), (''c'', ok_func)]"

definition ex_engine :: engine where
  "ex_engine = \<lparr>store = NewInmemoryBackend, world = \<lparr>trace = [], now = 1\<rparr>\<rparr>"

theorem submitted_task_finishes_witness:
  "\<exists>n r. n \<le> 5 \<and> Get ''g/n/u'' (store (turns n abc_registry ''x'' ''v''
      (ex_engine\<lparr>store := snd (SubmitTask 1 ''v'' False nested_task NewInmemoryBackend)\<rparr>))) = Some r"
proof -
  have h: "clean_registry abc_registry" "TaskName nested_task \<noteq> []" "good_task nested_task"
    "valid_db (store ex_engine)" "subeventch (store ex_engine) = []"
    by (simp_all add: clean_registry_def abc_registry_def ok_func_def nested_task_def good_task_def zero_task_def
        ex_step_def zero_status_def valid_db_def ex_engine_def NewInmemoryBackend_def)
  have k: "task_key nested_task = ''g/n/u''" "Suc (open_steps (Steps nested_task)) = 5"
    by (simp_all add: task_key_def nested_task_def zero_task_def ex_step_def open_code_def zero_status_def)
  have "store ex_engine = NewInmemoryBackend" by (simp add: ex_engine_def)
  with submitted_task_finishes [OF h, of 1 "''v''" False] show ?thesis
    unfolding k Let_def by (metis prod.collapse)
qed

text \<open>
  The visits of the steps of \<open>nested_task\<close>, with the states they lead to kept abstract:
  what is stored of the task on the way does not matter for the order of the calls.
\<close>

definition ran_status :: "string \<Rightarrow> int \<Rightarrow> task_status" where
  "ran_status ex t = zero_status\<lparr>Status := TaskStatusSuccess, StartTimestamp := t, FinishTimestamp := t + 1,
     Executer := ex, Result := [VNil]\<rparr>"

definition ran_engine :: "(step \<Rightarrow> task) \<Rightarrow> go_context \<Rightarrow> string \<Rightarrow> step \<Rightarrow> engine \<Rightarrow> engine" where
  "ran_engine k ctx ex s e =
     updateTask (k (set_timeout 300 (set_status (ran_status ex (now (world e))) s)))
       ((updateTask (k (set_status (start_status ex (now (world e))) s)) e)
          \<lparr>world := (world e)\<lparr>now := now (world e) + 1, trace := trace (world e) @
             [\<lparr>call_name = Function s, call_ctx = ctx, call_timeout = 300, call_args = []\<rparr>]\<rparr>\<rparr>)"

lemma trace_ran_engine [simp]:
  "map call_name (trace (world (ran_engine k ctx ex s e))) = map call_name (trace (world e)) @ [Function s]"
  by (simp add: ran_engine_def)

lemma visit_ok:
  assumes "open_code (Status st)" and "f \<noteq> []" and "map_of reg f = Some ok_func"
  shows "visit reg ex k ctx (Step n f [] subs st 0) e =
     Inl (None, Step n f [] subs (ran_status ex (now (world e))) 300, ran_engine k ctx ex (Step n f [] subs st 0) e)"
  using assms
  by (simp add: visit_def execute_def ok_func_def Let_def set_timeout_def set_status_def ran_status_def
      ran_engine_def finish_step_def start_status_def zero_status_def DefaultTaskTimeout_def)

lemma visit_skip:
  assumes "open_code (Status st)"
  shows "\<exists>st' e'. visit reg ex k ctx (Step n [] a subs st d) e = Inr (Step n [] a subs st' d, e') \<and>
     Status st' = TaskStatusSuccess \<and> trace (world e') = trace (world e)"
  using assms by (simp add: visit_def Let_def finish_step_def set_status_def)

lemma visit_closed:
  "Status st = TaskStatusSuccess \<Longrightarrow> visit reg ex k ctx (Step n f a subs st d) e = Inr (Step n f a subs st d, e)"
  by (simp add: visit_def open_code_def)

text \<open>The engine runs more than one step in a round, and out of order. The comment at \<open>process\<close> says
  that each time one unfinished step is processed, but after a substep ran the loop over the
  steps goes on: the first round on a task whose first step has two substeps calls the function of
  the first substep and then that of the second step, and does not finish; the second substep of the
  first step runs only in the next round, after the step that follows its parent.\<close>

lemma substeps_out_of_order:
  "\<exists>t1 e1 t2 e2. process abc_registry ''x'' ''v'' nested_task ex_engine = (False, t1, e1) \<and>
     map call_name (trace (world e1)) = [''a'', ''c''] \<and>
     process abc_registry ''x'' ''v'' t1 e1 = (True, t2, e2) \<and>
     map call_name (trace (world e2)) = [''a'', ''c'', ''b''] \<and>
     Status (TaskStatus t2) = TaskStatusSuccess"
proof -
  let ?k = "\<lambda>ss. nested_task\<lparr>Steps := ss\<rparr>"
  define a0 where "a0 = Step ''1a'' ''a'' [] [] zero_status 0"
  define b0 where "b0 = Step ''1b'' ''b'' [] [] zero_status 0"
  define c0 where "c0 = Step ''2'' ''c'' [] [] zero_status 0"
  have reg: "map_of abc_registry ''a'' = Some ok_func" "map_of abc_registry ''b'' = Some ok_func"
    "map_of abc_registry ''c'' = Some ok_func"
    by (simp_all add: abc_registry_def)
  have steps: "Steps nested_task = [Step ''1'' [] [] [a0, b0] zero_status 0, c0]"
    by (simp add: nested_task_def ex_step_def a0_def b0_def c0_def)
  have z: "open_code (Status zero_status)" by (simp add: open_code_def zero_status_def)
  have uid: "UID (nested_task\<lparr>Steps := ss\<rparr>) \<noteq> []" "UID nested_task \<noteq> []" for ss by (simp_all add: nested_task_def)
  have tr0: "trace (world ex_engine) = []" by (simp add: ex_engine_def)
  have r [simp]: "Status (ran_status x t) = TaskStatusSuccess" for x t by (simp add: ran_status_def)
  obtain s1 e' where s1: "visit abc_registry ''x'' (\<lambda>s. ?k (s # [c0]))
      (WithValues [] (Addtionals (?k (Steps nested_task)))) (Step ''1'' [] [] [a0, b0] zero_status 0) ex_engine
      = Inr (Step ''1'' [] [] [a0, b0] s1 0, e')" "Status s1 = TaskStatusSuccess" "trace (world e') = []"
    using visit_skip [OF z] tr0 by metis
  obtain a1 c1 e1 where p1: "processone abc_registry ''x'' ?k [] (Steps nested_task) ex_engine
      = (None, [Step ''1'' [] [] [Step ''1a'' ''a'' [] [] a1 300, b0] s1 0, Step ''2'' ''c'' [] [] c1 300], e1)"
    "map call_name (trace (world e1)) = [''a'', ''c'']" "Status a1 = TaskStatusSuccess" "Status c1 = TaskStatusSuccess"
    using s1 unfolding steps a0_def c0_def
    by (simp add: visit_ok [OF z _ reg(1)] visit_ok [OF z _ reg(3)] set_subs_def Let_def)
  let ?t1 = "?k [Step ''1'' [] [] [Step ''1a'' ''a'' [] [] a1 300, b0] s1 0, Step ''2'' ''c'' [] [] c1 300]"
  have P1: "process abc_registry ''x'' ''v'' nested_task ex_engine = (False, ?t1, e1)"
    using p1 uid s1(2) by (simp add: process_def b0_def zero_status_def)
  obtain b1 e2 where p2: "processone abc_registry ''x'' ?k [] (Steps ?t1) e1
      = (None, [Step ''1'' [] [] [Step ''1a'' ''a'' [] [] a1 300, Step ''1b'' ''b'' [] [] b1 300] s1 0,
          Step ''2'' ''c'' [] [] c1 300], e2)"
    "map call_name (trace (world e2)) = [''a'', ''c'', ''b'']" "Status b1 = TaskStatusSuccess"
    unfolding b0_def
    by (simp add: visit_ok [OF z _ reg(2)] visit_closed s1(2) p1(2-4) set_subs_def Let_def)
  obtain t2 e3 where P2: "process abc_registry ''x'' ''v'' ?t1 e1 = (True, t2, e3)"
    "map call_name (trace (world e3)) = [''a'', ''c'', ''b'']" "Status (TaskStatus t2) = TaskStatusSuccess"
    using p1(3,4) p2 uid s1(2) by (simp add: process_def Let_def)
  show ?thesis
    by (intro exI conjI, rule P1, rule p1(2), rule P2(1), rule P2(2), rule P2(3))
qed

text \<open>When a step succeeds. \<open>execute\<close> reports success exactly if the function is registered,
  every argument given can be decoded and none is null, and the function returns at least one result, none
  of them a nil pointer and the last not an error; so a function without results fails its
  step although it ran. Whatever happens, the call is recorded at most once, and a timeout of zero
  becomes the default one.\<close>

lemma execute_success_iff:
  "execute reg ctx s w = (err, s', w') \<Longrightarrow>
     (err = None \<longleftrightarrow> (\<exists>f vs rs dt. map_of reg (Function s) = Some f \<and>
        build_args (params f) (zeros f) (Args s) = Inr (vs, False) \<and>
        behave f (trace w) (if takes_ctx f then ctx else []) vs = (Returned rs, dt) \<and>
        rs \<noteq> [] \<and> snd (collect_results rs) = False \<and> (\<forall>m. last rs \<noteq> VError m))) \<and>
     (trace w' = trace w \<or> (\<exists>c. trace w' = trace w @ [c] \<and> call_name c = Function s)) \<and>
     Timeout s' = (if Timeout s = 0 then DefaultTaskTimeout else Timeout s)"
  by (auto simp: execute_def Let_def set_status_def set_timeout_def
      split: option.splits sum.splits prod.splits if_splits call_outcome.splits go_value.splits)

lemma execute_success_iff_witness:
  "\<exists>m s' w'. execute [(''f'', ok_func\<lparr>behave := \<lambda>tr ctx vs. (Returned [], 1)\<rparr>)] [] (ex_step ''s'' ''f'' [])
      \<lparr>trace = [], now = 1\<rparr> = (Some m, s', w') \<and> Timeout s' = 300"
proof -
  let ?r = "[(''f'', ok_func\<lparr>behave := \<lambda>tr ctx vs. (Returned [], 1)\<rparr>)]"
  obtain err s' w' where x: "execute ?r [] (ex_step ''s'' ''f'' []) \<lparr>trace = [], now = 1\<rparr> = (err, s', w')"
    by (metis prod_cases3)
  from execute_success_iff [OF x] have "err \<noteq> None" "Timeout s' = 300"
    by (simp_all add: ex_step_def ok_func_def DefaultTaskTimeout_def)
  with x show ?thesis by auto
qed

text \<open>Two keys for one task. For a name and a uid of one plain path component, and a group that is
  empty or one, the key \<open>SubmitTask\<close> and \<open>RemoveTask\<close> use is the key the server updates if and
  only if the group is not empty. For a task without group the stored progress survives its
  removal, and the listing of its group and name (the one prefix that matches the server's key)
  does not show it between submission and first update.\<close>

lemma group_decides_key:
  assumes "Group t = [] \<or> simple_comp (Group t)" and "simple_comp (TaskName t)" and "simple_comp (UID t)"
  shows "(path_Join [Group t, TaskName t, UID t] = task_key t \<longleftrightarrow> Group t \<noteq> []) \<and>
     (Group t = [] \<longrightarrow> valid_db b \<longrightarrow> Get (task_key t) b = Some r \<longrightarrow>
        Get (task_key t) (RemoveTask (Group t) (TaskName t) (UID t) b) = Some r) \<and>
     (Group t = [] \<longrightarrow> \<not> has_prefix (path_Join [Group t, TaskName t, UID t]) (list_prefix (Group t) (TaskName t)))"
proof -
  obtain x xs where x: "TaskName t = x # xs" "x \<noteq> CHR ''/''"
    using assms(2) by (cases "TaskName t") (auto simp: simple_comp_def)
  have j: "path_Join [Group t, TaskName t, UID t]
      = join_with ''/'' (if Group t = [] then [TaskName t, UID t] else [Group t, TaskName t, UID t])"
    by (rule path_Join_simple [OF assms])
  have k: "path_Join [Group t, TaskName t, UID t] = task_key t \<longleftrightarrow> Group t \<noteq> []"
    unfolding j using x by (auto simp: task_key_def)
  have "Get (task_key t) (RemoveTask (Group t) (TaskName t) (UID t) b) = Some r"
    if "Group t = []" "valid_db b" "Get (task_key t) b = Some r"
    using im.get_del [OF that(2), of "task_key t" "path_Join [Group t, TaskName t, UID t]"] that k
    by (simp add: RemoveTask_def)
  moreover have "\<not> has_prefix (path_Join [Group t, TaskName t, UID t]) (list_prefix (Group t) (TaskName t))"
    if "Group t = []"
    unfolding j using that x by (simp add: list_prefix_def has_prefix_def)
  ultimately show ?thesis using k by blast
qed

lemma group_decides_key_witness:
  "path_Join [[], ''n'', ''u''] \<noteq> task_key (nested_task\<lparr>Group := []\<rparr>) \<and>
   path_Join [''g'', ''n'', ''u''] = task_key nested_task"
  using group_decides_key [of "nested_task\<lparr>Group := []\<rparr>"] group_decides_key [of nested_task]
  by (simp add: nested_task_def zero_task_def simple_comp_def)

text \<open>A submitted task is forgotten by the next run of the expire worker. \<open>SubmitTask\<close> stores its entry
  without a time to live, which leaves the zero time as its expiry: at any later time the
  worker removes it, however young it is. An entry the server stores is removed only after
  its five minutes, and no run of the worker touches another entry that has not expired.\<close>

theorem submitted_entry_expires:
  assumes "valid_db b" and "SubmitTask tm uuid hs t b = (None, b')" and "UID t \<noteq> []" and "0 < tm" and "tm \<le> later"
  shows "Get (path_Join [Group t, TaskName t, UID t]) b' \<noteq> None \<and>
     Get (path_Join [Group t, TaskName t, UID t]) (removeExpired later b') = None \<and>
     (\<forall>e r. valid_db (store e) \<longrightarrow> json_task r \<noteq> None \<longrightarrow>
        Get (task_key r) (removeExpired later (store (updateTask r e))) =
          (if now (world e) + update_ttl < later then None else json_task r))"
proof -
  let ?k = "path_Join [Group t, TaskName t, UID t]"
  obtain c where b': "b' = fst (Pub [] c (Put tm ?k c None b))"
    using assms(2,3) by (auto simp: SubmitTask_def Let_def Pub_def split: if_splits option.splits prod.splits)
  have m: "map_of (db b') ?k = Some \<lparr>key = ?k, val = Some c, createTime = tm, expireTime = 0\<rparr>"
    by (simp add: b' Pub_def Put_def Let_def time_zero_def)
  have v: "valid_db b'" using assms(1) b' by (simp add: im.valid_pub im.valid_put)
  then have "wf_map (db b')" by (simp add: valid_db_def)
  then have gone: "Get ?k (removeExpired later b') = None"
    using m assms(4,5) by (simp add: Get_def map_of_removeExpired)
  have "Get (task_key r) (removeExpired later (store (updateTask r e))) =
          (if now (world e) + update_ttl < later then None else json_task r)"
    if "valid_db (store e)" "json_task r \<noteq> None" for e r
  proof -
    have "wf_map (db (store (updateTask r e)))" using valid_updateTask [OF that(1)] by (simp add: valid_db_def)
    then show ?thesis
      using that(2) by (auto simp: Get_def map_of_removeExpired) (auto simp: updateTask_def Put_def Let_def)
  qed
  with gone m show ?thesis by (simp add: Get_def)
qed

theorem submitted_entry_expires_witness:
  "Get ''g/n/u'' (removeExpired 2 (snd (SubmitTask 1 ''v'' False nested_task NewInmemoryBackend))) = None"
proof -
  have k: "path_Join [Group nested_task, TaskName nested_task, UID nested_task] = ''g/n/u''" by code_simp
  obtain b' where b': "SubmitTask 1 ''v'' False nested_task NewInmemoryBackend = (None, b')"
    by (simp add: SubmitTask_def nested_task_def zero_task_def json_task_def ex_step_def zero_status_def Let_def
        Pub_def Put_def NewInmemoryBackend_def channel_size_def)
  have "valid_db NewInmemoryBackend" "UID nested_task \<noteq> []"
    by (simp_all add: valid_db_def NewInmemoryBackend_def nested_task_def)
  from submitted_entry_expires [OF this(1) b' this(2), of 2] show ?thesis by (simp add: k b')
qed

end
