(* ===== verification/Auth.thy ===== *)
theory Auth
  imports Go_Prelude "HOL-Library.Word"
begin

text \<open>
  The HTTP guards of \<open>pkg/utils/auth\<close>: wildcard permissions (\<open>wildcard.go\<close>), permissions of a
  request and the permission handler (\<open>authz.go\<close>), the access-token handler (\<open>authn.go\<close>), the
  whitelist (\<open>whitelist.go\<close>), the resource of an audited request and the cached request body
  (\<open>audit.go\<close>, \<open>cachebody.go\<close>).

  A handler is the decision it takes: answer with a status, or pass the request on. The
  verifier of tokens and the store of policies are arguments.
\<close>

section \<open>Wildcard permissions\<close>

definition parseSections :: "string \<Rightarrow> string list list" where
  "parseSections perm0 =
    (let perm = trim_space perm0 in
     if perm = [] then [] else map (split_on CHR '','') (split_on CHR '':'' perm))"

fun contains :: "string list \<Rightarrow> string \<Rightarrow> bool" where
  "contains [] s = False"
| "contains (v # arr) s = (if v = s then True else contains arr s)"

fun containsAll :: "string list \<Rightarrow> string list \<Rightarrow> bool" where
  "containsAll arr [] = True"
| "containsAll arr (v # s) = (if \<not> contains arr v then False else containsAll arr s)"

definition removeEmpty :: "string list \<Rightarrow> string list" where
  "removeEmpty arr = filter (\<lambda>v. v \<noteq> []) arr"

text \<open>The two loops; \<^const>\<open>None\<close> where the first runs to its end.\<close>

fun perm_loop :: "string list list \<Rightarrow> nat \<Rightarrow> string list list \<Rightarrow> bool option" where
  "perm_loop exprs i [] = None"
| "perm_loop exprs i (permsec # rest) =
     (if i \<ge> length exprs then Some False
      else let exprsec = exprs ! i in
        if contains exprsec ''**'' then Some True
        else if \<not> contains exprsec ''*'' \<and> \<not> containsAll exprsec permsec then Some False
        else perm_loop exprs (Suc i) rest)"

fun rest_loop :: "string list list \<Rightarrow> bool" where
  "rest_loop [] = True"
| "rest_loop (e # es) =
     (if contains e ''**'' then True else if \<not> contains e ''*'' then False else rest_loop es)"

definition WildcardMatchSections :: "string \<Rightarrow> string \<Rightarrow> bool" where
  "WildcardMatchSections expr perm =
    (let exprs = parseSections expr; perms = parseSections perm in
     case perm_loop exprs 0 perms of
       Some b \<Rightarrow> b
     | None \<Rightarrow> rest_loop (drop (length perms) exprs))"

definition WildcardMatch :: "string \<Rightarrow> string \<Rightarrow> bool" where
  "WildcardMatch key1 key2 = WildcardMatchSections key2 key1"

text \<open>\<open>WildcardMatchFunc\<close> on arguments that are strings or not.\<close>

definition WildcardMatchFunc :: "string option list \<Rightarrow> bool" where
  "WildcardMatchFunc args =
     (case args of
        Some r # Some p # _ \<Rightarrow> WildcardMatchSections p r
      | _ \<Rightarrow> False)"

section \<open>Permissions of a request\<close>

definition Permission :: "string \<Rightarrow> string list \<Rightarrow> string" where
  "Permission action target = join_with '':'' (target @ [action])"

definition MethodActionMapSingular :: "string \<Rightarrow> string" where
  "MethodActionMapSingular m =
     (if m = ''GET'' then ''get'' else if m = ''PUT'' then ''update''
      else if m = ''DELETE'' then ''remove'' else if m = ''PATCH'' then ''patch'' else [])"

definition MethodActionMapPlural :: "string \<Rightarrow> string" where
  "MethodActionMapPlural m =
     (if m = ''GET'' then ''list'' else if m = ''POST'' then ''create''
      else if m = ''DELETE'' then ''removeBatch'' else [])"

definition PermissionFromMethodPath :: "string \<Rightarrow> string \<Rightarrow> string" where
  "PermissionFromMethodPath m path = Permission (MethodActionMapSingular m) (tl (split_on CHR ''/'' path))"

text \<open>The matcher of the policy model: some policy whose subject the subject has, and whose permission matches.\<close>

definition HasPermission :: "(string \<Rightarrow> string \<Rightarrow> bool) \<Rightarrow> (string \<times> string) list \<Rightarrow> string \<Rightarrow> string \<Rightarrow> bool" where
  "HasPermission g policies subject perm =
     (\<exists>(sub, p) \<in> set policies. g subject sub \<and> WildcardMatch perm p)"

section \<open>Handlers\<close>

record request =
  Method :: string
  Path :: string
  Authorization :: string
  access_token :: string
  claims_sub :: "string option"

datatype decision = Respond nat | Next request

definition Subject :: "string option \<Rightarrow> string" where
  "Subject s = (case s of Some v \<Rightarrow> v | None \<Rightarrow> [])"

definition TokenVerifyHandler :: "(string \<Rightarrow> (string option) option) \<Rightarrow> request \<Rightarrow> decision" where
  "TokenVerifyHandler verify r =
    (let t1 = trim_prefix (Authorization r) ''Bearer '';
         token = (if t1 = [] then access_token r else t1)
     in if token = [] then Respond 401
        else (case verify token of
                None \<Rightarrow> Respond 401
              | Some sub \<Rightarrow> Next (r\<lparr>claims_sub := sub\<rparr>)))"

definition PrefixedPathRewriteMatcher :: "string \<Rightarrow> string \<Rightarrow> string option" where
  "PrefixedPathRewriteMatcher pre path = Some (trim_prefix path pre)"

text \<open>\<open>authz\<close> gives the answer of the checker, \<^const>\<open>None\<close> for its error.\<close>

definition PermissionCheckerHandler ::
  "(string \<Rightarrow> string option) option \<Rightarrow> (request \<Rightarrow> string) option \<Rightarrow> (string \<Rightarrow> string \<Rightarrow> bool option)
     \<Rightarrow> request \<Rightarrow> decision" where
  "PermissionCheckerHandler matcher extractor authz r =
    (let check = (\<lambda>path.
           let subject = (case extractor of None \<Rightarrow> [] | Some f \<Rightarrow> f r) in
           (case authz subject (PermissionFromMethodPath (Method r) path) of
              None \<Rightarrow> Respond 500
            | Some ok \<Rightarrow> if \<not> ok then Respond 403 else Next r))
     in case matcher of
          None \<Rightarrow> check (Path r)
        | Some f \<Rightarrow> (case f (Path r) of None \<Rightarrow> Next r | Some p \<Rightarrow> check p))"

datatype white_decision = OnWhite | Guarded

fun on_whitelist :: "string list \<Rightarrow> string \<Rightarrow> bool" where
  "on_whitelist [] p = False"
| "on_whitelist (w # ws) p = (if has_prefix p w then True else on_whitelist ws p)"

definition WhitelistMiddleware :: "string list \<Rightarrow> request \<Rightarrow> white_decision" where
  "WhitelistMiddleware whitelist r =
     (if Method r = ''OPTIONS'' then OnWhite
      else if on_whitelist whitelist (Path r) then OnWhite else Guarded)"

section \<open>Audited resources\<close>

record audit_resource =
  Action :: string
  Parents :: "(string \<times> string) list"
  Resource :: string
  ResName :: string

definition last_index :: "char \<Rightarrow> string \<Rightarrow> nat option" where
  "last_index c s = (if c \<in> set s then Some (length s - 1 - length (takeWhile (\<lambda>x. x \<noteq> c) (rev s))) else None)"

definition splitResourceAction :: "string \<Rightarrow> string \<times> string" where
  "splitResourceAction path =
     (case last_index CHR '':'' path of
        None \<Rightarrow> (path, [])
      | Some i \<Rightarrow> (take i path, drop (Suc i) path))"

fun pair_up :: "string list \<Rightarrow> (string \<times> string) list" where
  "pair_up (a # b # rest) = (a, b) # pair_up rest"
| "pair_up _ = []"

definition CompleteAuditResource :: "string \<Rightarrow> string \<Rightarrow> audit_resource \<Rightarrow> audit_resource" where
  "CompleteAuditResource m path log =
    (let (resource, action) = splitResourceAction path;
         parts = removeEmpty (split_on CHR ''/'' resource)
     in if parts = [] then log
        else
        let (parts', action') =
              (if odd (length parts)
               then (parts @ [[]], if action = [] then MethodActionMapPlural m else action)
               else (parts, if action = [] then MethodActionMapSingular m else action));
            resources = pair_up parts'
        in log\<lparr>Parents := butlast resources, Resource := fst (last resources),
               ResName := snd (last resources), Action := action'\<rparr>)"

definition ExtractClientIP :: "string \<Rightarrow> string \<Rightarrow> string \<Rightarrow> string" where
  "ExtractClientIP forwarded real remote =
     (let ip = (if forwarded = [] then real else forwarded) in if ip = [] then remote else ip)"

section \<open>The cached body\<close>

text \<open>
  A body is the chunks it still delivers, none of them empty; a read returns at most one
  chunk and end of file once there is none.
\<close>

type_synonym body = "8 word list list"

fun body_read :: "body \<Rightarrow> nat \<Rightarrow> 8 word list \<times> bool \<times> body" where
  "body_read [] n = ([], True, [])"
| "body_read (c # cs) n =
     (if length c \<le> n then (c, False, cs) else (take n c, False, drop n c # cs))"

text \<open>\<open>io.ReadFull\<close>: the bytes read, whether the body ended before, and the rest.\<close>

fun read_full :: "body \<Rightarrow> nat \<Rightarrow> 8 word list \<times> bool \<times> body" where
  "read_full cs 0 = ([], False, cs)"
| "read_full [] (Suc n) = ([], True, [])"
| "read_full (c # cs) (Suc n) =
     (if length c \<le> Suc n then
        let (bs, e, rest) = read_full cs (Suc n - length c) in (c @ bs, e, rest)
      else (take (Suc n) c, False, drop (Suc n) c # cs))"

record cached_body =
  cached :: "8 word list"
  early_err :: bool
  readn :: nat
  inner :: body

definition NewCachedBody :: "body \<Rightarrow> 8 word list \<Rightarrow> bool \<Rightarrow> cached_body" where
  "NewCachedBody b c e = \<lparr>cached = c, early_err = e, readn = 0, inner = b\<rparr>"

text \<open>\<open>Read\<close>: the bytes and whether it reports an error, which is end of file here.\<close>

definition CachedBody_Read :: "cached_body \<Rightarrow> nat \<Rightarrow> 8 word list \<times> bool \<times> cached_body" where
  "CachedBody_Read w n =
     (if early_err w then ([], True, w)
      else if readn w < length (cached w) then
        let bs = take n (drop (readn w) (cached w));
            w' = w\<lparr>readn := readn w + length bs\<rparr>
        in if length bs = n then (bs, False, w')
           else let (bs2, e, b) = body_read (inner w) (n - length bs)
                in (bs @ bs2, e, w'\<lparr>inner := b\<rparr>)
      else let (bs2, e, b) = body_read (inner w) n in (bs2, e, w\<lparr>inner := b\<rparr>))"

text \<open>
  \<open>ReadBodySafely\<close>: the bytes for the log and the body the handler gets, \<^const>\<open>None\<close> where it is
  left as it is. A content length of -1 means unknown.
\<close>

definition ReadBodySafely ::
  "string list \<Rightarrow> int \<Rightarrow> string \<Rightarrow> int \<Rightarrow> body \<Rightarrow> 8 word list \<times> cached_body option" where
  "ReadBodySafely allows maxReadSize contenttype contentlen b =
     (if contenttype = [] \<or> contentlen = 0 then ([], None)
      else if \<not> list_ex (\<lambda>s. has_prefix contenttype s) allows then ([], None)
      else
      let cachesize = (if contentlen < maxReadSize then contentlen else maxReadSize) in
      if cachesize \<le> 0 then ([], None)
      else let (bs, e, rest) = read_full b (nat cachesize) in (bs, Some (NewCachedBody rest bs e)))"

text \<open>\<open>StatusResponseWriter\<close>: the code, what is cached, and what went out.\<close>

record status_writer =
  Code :: nat
  Cache :: "8 word list"
  maxCacheSize :: nat
  written :: "8 word list"

definition StatusWriter_WriteHeader :: "nat \<Rightarrow> status_writer \<Rightarrow> status_writer" where
  "StatusWriter_WriteHeader c w = w\<lparr>Code := c\<rparr>"

definition StatusWriter_Write :: "8 word list \<Rightarrow> status_writer \<Rightarrow> status_writer" where
  "StatusWriter_Write p w0 =
    (let w = (if Code w0 = 0 then StatusWriter_WriteHeader 200 w0 else w0);
         w' = (if length (Cache w) < maxCacheSize w then w\<lparr>Cache := Cache w @ p\<rparr> else w)
     in w'\<lparr>written := written w' @ p\<rparr>)"

section \<open>Lemmas\<close>

lemma contains_iff [simp]: "contains arr s \<longleftrightarrow> s \<in> set arr"
  by (induction arr) auto

lemma containsAll_iff [simp]: "containsAll arr s \<longleftrightarrow> set s \<subseteq> set arr"
  by (induction s) auto

text \<open>What an expression means, section by section.\<close>

fun sections_match :: "string list list \<Rightarrow> string list list \<Rightarrow> bool" where
  "sections_match [] [] = True"
| "sections_match [] (p # ps) = False"
| "sections_match (e # es) [] \<longleftrightarrow> ''**'' \<in> set e \<or> ''*'' \<in> set e \<and> sections_match es []"
| "sections_match (e # es) (p # ps) \<longleftrightarrow>
     ''**'' \<in> set e \<or> (''*'' \<in> set e \<or> set p \<subseteq> set e) \<and> sections_match es ps"

lemma rest_loop_spec: "rest_loop es = sections_match es []"
  by (induction es) auto

lemma perm_loop_spec:
  "i \<le> length es \<Longrightarrow>
     (case perm_loop es i ps of Some b \<Rightarrow> b | None \<Rightarrow> rest_loop (drop (i + length ps) es))
       = sections_match (drop i es) ps"
proof (induction ps arbitrary: i)
  case Nil
  then show ?case by (simp add: rest_loop_spec)
next
  case (Cons p ps)
  show ?case
  proof (cases "i < length es")
    case True
    then have "drop i es = es ! i # drop (Suc i) es" by (simp add: Cons_nth_drop_Suc)
    moreover have "Suc i + length ps = i + length (p # ps)" by simp
    ultimately show ?thesis using True Cons.IH [of "Suc i"] by (simp only:) (auto simp: Let_def)
  next
    case False
    with Cons.prems show ?thesis by simp
  qed
qed

lemma match_sections:
  "WildcardMatchSections expr perm = sections_match (parseSections expr) (parseSections perm)"
  using perm_loop_spec [of 0 "parseSections expr" "parseSections perm", unfolded add_0]
  by (simp add: WildcardMatchSections_def Let_def)

lemma split_on_snoc:
  "c \<notin> set w \<Longrightarrow> split_on c (s @ c # w) = split_on c s @ [w]"
proof (induction s)
  case Nil
  then show ?case by (simp add: split_on_single)
next
  case (Cons x xs)
  then show ?case by (cases "split_on c xs") auto
qed

lemma sections_match_last:
  "sections_match es (ps @ [q]) \<Longrightarrow>
     (\<exists>e \<in> set es. ''**'' \<in> set e) \<or> (\<exists>e \<in> set es. ''*'' \<in> set e \<or> set q \<subseteq> set e)"
proof (induction ps arbitrary: es)
  case Nil
  then show ?case by (cases es) auto
next
  case (Cons p ps)
  then show ?case by (cases es) auto
qed

lemma trim_space_snoc: "\<not> is_space c \<Longrightarrow> trim_space (s @ [c]) = dropWhile is_space (s @ [c])"
proof -
  assume c: "\<not> is_space c"
  have "\<exists>t. dropWhile is_space (s @ [c]) = t @ [c]"
    using c by (induction s) auto
  then show ?thesis using c by (auto simp: trim_space_def)
qed

text \<open>The permission of a method without an action ends with an empty section.\<close>

lemma join_with_snoc: "ws \<noteq> [] \<Longrightarrow> join_with sep (ws @ [w]) = join_with sep ws @ sep @ w"
  by (induction ws rule: induct_list012) auto

lemma parse_no_action:
  assumes "MethodActionMapSingular m = []" and "CHR ''/'' \<in> set path"
  shows "\<exists>ps. parseSections (PermissionFromMethodPath m path) = ps @ [[[]]]"
proof -
  obtain a b where "path = a @ CHR ''/'' # b" using assms(2) by (meson split_list)
  then have "length (split_on CHR ''/'' path) \<ge> 2"
    by (induction a arbitrary: path) (auto simp: Suc_le_eq)
  then have ne: "tl (split_on CHR ''/'' path) \<noteq> []" by (cases "split_on CHR ''/'' path") auto
  obtain s where s: "PermissionFromMethodPath m path = s @ '':''"
    using ne assms(1) by (auto simp: PermissionFromMethodPath_def Permission_def join_with_snoc)
  have sp: "\<not> is_space CHR '':''" by (simp add: is_space_def)
  have "\<exists>t. dropWhile is_space (s @ '':'') = t @ '':''" using sp by (induction s) auto
  then obtain t where t: "trim_space (s @ '':'') = t @ '':''" using trim_space_snoc [OF sp] by auto
  then show ?thesis
    using split_on_snoc [of "CHR '':''" "[]" t] by (simp add: parseSections_def s Let_def)
qed

section \<open>Reading a cached body\<close>

definition cb_rest :: "cached_body \<Rightarrow> 8 word list" where
  "cb_rest w = drop (readn w) (cached w) @ concat (inner w)"

lemma body_read_rest: "body_read b n = (bs, e, b') \<Longrightarrow> bs @ concat b' = concat b \<and> length bs \<le> n \<and> (e \<longleftrightarrow> b = [])"
  by (cases b) (auto split: if_splits)

lemma read_full_rest:
  "\<forall>c \<in> set b. c \<noteq> [] \<Longrightarrow> read_full b n = (bs, e, b') \<Longrightarrow>
     bs @ concat b' = concat b \<and> (\<forall>c \<in> set b'. c \<noteq> []) \<and> (e \<longleftrightarrow> length (concat b) < n) \<and> (e \<longrightarrow> b' = [])"
proof (induction b n arbitrary: bs e b' rule: read_full.induct)
  case (3 c cs n)
  show ?case
  proof (cases "length c \<le> Suc n")
    case True
    obtain bs1 e1 b1 where r: "read_full cs (Suc n - length c) = (bs1, e1, b1)" by (metis prod_cases3)
    have "\<forall>c \<in> set cs. c \<noteq> []" using 3(2) by simp
    from "3.IH" [OF True this r] show ?thesis using True 3(3) r by auto
  next
    case False
    then show ?thesis using 3(2,3) by auto
  qed
qed auto

lemma body_read_nonempty:
  "body_read b n = (bs, e, b') \<Longrightarrow> \<forall>c \<in> set b. c \<noteq> [] \<Longrightarrow> (\<forall>c \<in> set b'. c \<noteq> []) \<and> (0 < n \<longrightarrow> bs = [] \<longrightarrow> e)"
  by (cases b) (auto split: if_splits)

lemma CachedBody_Read_rest:
  assumes "CachedBody_Read w n = (bs, e, w')" and "\<not> early_err w" and "\<forall>c \<in> set (inner w). c \<noteq> []"
  shows "bs @ cb_rest w' = cb_rest w" and "length bs \<le> n" and "\<not> early_err w'" and "e \<Longrightarrow> cb_rest w' = []"
    and "0 < n \<Longrightarrow> bs = [] \<Longrightarrow> e" and "\<forall>c \<in> set (inner w'). c \<noteq> []"
proof -
  have "bs @ cb_rest w' = cb_rest w \<and> length bs \<le> n \<and> \<not> early_err w' \<and> (e \<longrightarrow> cb_rest w' = []) \<and>
     (0 < n \<longrightarrow> bs = [] \<longrightarrow> e) \<and> (\<forall>c \<in> set (inner w'). c \<noteq> [])"
  proof (cases "readn w < length (cached w)")
    case True
    show ?thesis
    proof (cases "n \<le> length (cached w) - readn w")
      case le: True
      then have "bs = take n (drop (readn w) (cached w))" "\<not> e" "w' = w\<lparr>readn := readn w + n\<rparr>"
        using assms(1,2) True by (auto simp: CachedBody_Read_def Let_def)
      moreover have "drop (readn w + n) (cached w) = drop n (drop (readn w) (cached w))"
        by (simp add: add.commute)
      ultimately show ?thesis using assms(2,3) le True by (auto simp: cb_rest_def simp del: drop_drop)
    next
      case gt: False
      let ?d = "drop (readn w) (cached w)"
      obtain bs2 e2 b2 where r: "body_read (inner w) (n - length ?d) = (bs2, e2, b2)" by (metis prod_cases3)
      have w': "bs = ?d @ bs2" "e = e2" "w' = w\<lparr>readn := length (cached w), inner := b2\<rparr>"
        using assms(1,2) True gt r by (auto simp: CachedBody_Read_def Let_def)
      show ?thesis
        using body_read_rest [OF r] body_read_nonempty [OF r assms(3)] assms(2) gt True
        by (auto simp: w' cb_rest_def)
    qed
  next
    case False
    obtain bs2 e2 b2 where r: "body_read (inner w) n = (bs2, e2, b2)" by (metis prod_cases3)
    have w': "bs = bs2" "e = e2" "w' = w\<lparr>inner := b2\<rparr>"
      using assms(1,2) False r by (auto simp: CachedBody_Read_def)
    show ?thesis
      using body_read_rest [OF r] body_read_nonempty [OF r assms(3)] assms(2) False
      by (auto simp: w' cb_rest_def)
  qed
  then show "bs @ cb_rest w' = cb_rest w" and "length bs \<le> n" and "\<not> early_err w'" and "e \<Longrightarrow> cb_rest w' = []"
    and "0 < n \<Longrightarrow> bs = [] \<Longrightarrow> e" and "\<forall>c \<in> set (inner w'). c \<noteq> []" by blast+
qed

text \<open>A handler that reads the body to its end, with a buffer of \<open>n\<close> bytes.\<close>

fun read_all :: "nat \<Rightarrow> nat \<Rightarrow> cached_body \<Rightarrow> 8 word list option" where
  "read_all 0 n w = None"
| "read_all (Suc fuel) n w =
     (let (bs, e, w') = CachedBody_Read w n in
      if e then Some bs else map_option (\<lambda>out. bs @ out) (read_all fuel n w'))"

lemma read_all_rest:
  assumes "0 < n" and "\<not> early_err w" and "\<forall>c \<in> set (inner w). c \<noteq> []" and "length (cb_rest w) < fuel"
  shows "read_all fuel n w = Some (cb_rest w)"
  using assms(2-4)
proof (induction fuel arbitrary: w)
  case (Suc fuel)
  obtain bs e w' where r: "CachedBody_Read w n = (bs, e, w')" by (metis prod_cases3)
  note q = CachedBody_Read_rest [OF r Suc.prems(1,2)]
  show ?case
  proof (cases e)
    case True
    then show ?thesis using r q(1,4) by simp
  next
    case False
    then have "bs \<noteq> []" using q(5) assms(1) by auto
    moreover have "length bs + length (cb_rest w') = length (cb_rest w)" using q(1) by (metis length_append)
    ultimately have "length (cb_rest w') < fuel" using Suc.prems(3) by (cases bs) auto
    from Suc.IH [OF q(3,6) this] False r q(1) show ?thesis by simp
  qed
qed simp

section \<open>Properties\<close>

text \<open>C9: The wildcard matcher decides what its comments promise. Its two indexed loops over the
  sections of the expression and of the permission compute the section-wise meaning of the
  expression: a section with the double star ends the comparison with a match; a section with the star
  matches any one section and, past the end of the permission, an absent one; any other section must
  contain every part of the permission's section, and a permission with more sections than
  the expression does not match.\<close>

theorem WildcardMatchSections_spec:
  "WildcardMatchSections expr perm = sections_match (parseSections expr) (parseSections perm)"
  by (rule match_sections)

text \<open>No policy that names actions ever allows a POST. The permission of a request whose method is not
  one of GET, PUT, DELETE and PATCH ends with an empty section (the map for collections,
  which has \<open>create\<close> for POST, is not consulted), so if some policy of the subject allows it, that
  policy has a section with a star, a double star or an empty part.\<close>

theorem post_needs_wildcard:
  assumes "m \<notin> {''GET'', ''PUT'', ''DELETE'', ''PATCH''}" and "CHR ''/'' \<in> set path"
    and "HasPermission g policies subject (PermissionFromMethodPath m path)"
  shows "\<exists>(sub, p) \<in> set policies. g subject sub \<and>
     (\<exists>sec \<in> set (parseSections p). ''**'' \<in> set sec \<or> ''*'' \<in> set sec \<or> [] \<in> set sec)"
proof -
  obtain sub p where p: "(sub, p) \<in> set policies" "g subject sub"
    "WildcardMatchSections p (PermissionFromMethodPath m path)"
    using assms(3) by (auto simp: HasPermission_def WildcardMatch_def)
  have "MethodActionMapSingular m = []" using assms(1) by (simp add: MethodActionMapSingular_def)
  from parse_no_action [OF this assms(2)] obtain ps
    where ps: "parseSections (PermissionFromMethodPath m path) = ps @ [[[]]]" by blast
  have "sections_match (parseSections p) (ps @ [[[]]])"
    using p(3) by (simp add: match_sections ps)
  from sections_match_last [OF this] p(1,2) show ?thesis by fastforce
qed

theorem post_needs_wildcard_witness:
  "HasPermission (=) [(''alice'', ''zoos:*'')] ''alice'' (PermissionFromMethodPath ''POST'' ''/zoos'') \<and>
   \<not> HasPermission (=) [(''alice'', ''zoos:create'')] ''alice'' (PermissionFromMethodPath ''POST'' ''/zoos'')"
proof
  show "HasPermission (=) [(''alice'', ''zoos:*'')] ''alice'' (PermissionFromMethodPath ''POST'' ''/zoos'')"
    by code_simp
  have "\<not> (\<exists>(sub, p) \<in> set [(''alice'', ''zoos:create'')]. ''alice'' = sub \<and>
     (\<exists>sec \<in> set (parseSections p). ''**'' \<in> set sec \<or> ''*'' \<in> set sec \<or> [] \<in> set sec))"
    by code_simp
  then show "\<not> HasPermission (=) [(''alice'', ''zoos:create'')] ''alice'' (PermissionFromMethodPath ''POST'' ''/zoos'')"
    using post_needs_wildcard [of "''POST''" "''/zoos''" "(=)" "[(''alice'', ''zoos:create'')]" "''alice''"]
    by auto
qed

text \<open>Auditing does not change the body a handler reads, unless the body is shorter than announced.
  When \<open>ReadBodySafely\<close> records a body, the recorded bytes are its first ones; if the body has as
  many bytes as are to be recorded, a handler that reads to the end then gets the whole
  body, whatever its buffer; if it has fewer (the client sent less than its content length), the
  handler gets nothing at all, although the bytes were received.\<close>

lemma ReadBodySafely_transparent:
  assumes "\<forall>c \<in> set b. c \<noteq> []" and "ReadBodySafely allows mx ct len b = (logged, Some w)" and "0 < n"
    and "length (concat b) < fuel"
  shows "prefix logged (concat b) \<and>
     (min (nat len) (nat mx) \<le> length (concat b) \<longrightarrow> read_all fuel n w = Some (concat b)) \<and>
     (length (concat b) < min (nat len) (nat mx) \<longrightarrow> logged = concat b \<and> read_all fuel n w = Some [])"
proof -
  let ?k = "if len < mx then len else mx"
  obtain bs e rest where r: "read_full b (nat ?k) = (bs, e, rest)" by (metis prod_cases3)
  have w: "logged = bs" "w = NewCachedBody rest bs e" "0 < ?k"
    using assms(2) r by (auto simp: ReadBodySafely_def Let_def split: if_splits)
  note q = read_full_rest [OF assms(1) r]
  have k: "nat ?k = min (nat len) (nat mx)" using w(3) by (auto simp: min_def)
  have all: "read_all fuel n w = Some (concat b)" if "\<not> e"
    using read_all_rest [of n w fuel] that q assms(3,4) by (simp add: w NewCachedBody_def cb_rest_def)
  have none: "read_all fuel n w = Some [] \<and> bs = concat b" if "e"
    using that q assms(4) by (cases fuel) (auto simp: w NewCachedBody_def CachedBody_Read_def)
  have "e \<longleftrightarrow> length (concat b) < min (nat len) (nat mx)" using q k by metis
  moreover have "prefix logged (concat b)" using q w(1) by (metis prefixI)
  ultimately show ?thesis using all none w(1)
    by (cases e) (simp_all add: not_less not_le del: min_less_iff_conj)
qed

lemma ReadBodySafely_transparent_witness:
  "\<exists>w. ReadBodySafely [''application/json''] 2 ''application/json'' 3 [[1, 2], [3]] = ([1, 2], Some w) \<and>
     read_all 4 1 w = Some [1, 2, 3]"
proof -
  define w where "w = NewCachedBody [[3]] [1, 2] False"
  have r: "ReadBodySafely [''application/json''] 2 ''application/json'' 3 [[1, 2], [3]] = ([1, 2], Some w)"
    by (simp add: ReadBodySafely_def has_prefix_def w_def numeral_2_eq_2)
  then show ?thesis
    using ReadBodySafely_transparent [OF _ r, of 1 4] by simp
qed

end
