(* ===== verification/Model_Cache.thy ===== *)
theory Model_Cache
  imports Go_Prelude
begin

text \<open>
  The in-memory cache of tenants, projects, environments and virtual spaces
  (\<open>pkg/service/models/cache/model_cache_memory.go\<close>, \<open>datas.go\<close>) and the authority of a user
  (\<open>user_authority.go\<close>).

  An entity owns a list of owners of which the code reads kind and id only. The database is an
  argument: the rows its queries return. The map is not iterated by the operations modelled.
\<close>

section \<open>Kinds and roles\<close>

definition ResTenant :: string where "ResTenant = ''tenant''"
definition ResProject :: string where "ResProject = ''project''"
definition ResEnvironment :: string where "ResEnvironment = ''environment''"
definition ResVirtualSpace :: string where "ResVirtualSpace = ''virtualSpace''"

definition TenantRoleAdmin :: string where "TenantRoleAdmin = ''admin''"
definition TenantRoleOrdinary :: string where "TenantRoleOrdinary = ''ordinary''"
definition ProjectRoleAdmin :: string where "ProjectRoleAdmin = ''admin''"
definition ProjectRoleDev :: string where "ProjectRoleDev = ''dev''"
definition ProjectRoleTest :: string where "ProjectRoleTest = ''test''"
definition ProjectRoleOps :: string where "ProjectRoleOps = ''ops''"
definition EnvironmentRoleReader :: string where "EnvironmentRoleReader = ''reader''"
definition EnvironmentRoleOperator :: string where "EnvironmentRoleOperator = ''operator''"
definition VirtualSpaceRoleAdmin :: string where "VirtualSpaceRoleAdmin = ''admin''"
definition VirtualSpaceRoleNormal :: string where "VirtualSpaceRoleNormal = ''normal''"
definition SystemRoleAdmin :: string where "SystemRoleAdmin = ''sysadmin''"

lemmas kind_defs = ResTenant_def ResProject_def ResEnvironment_def ResVirtualSpace_def

section \<open>Entities\<close>

record entity =
  EName :: string
  EKind :: string
  EID :: nat
  ENamespace :: string
  ECluster :: string
  EOwner :: "(string \<times> nat) list"

definition cacheKey :: "string \<Rightarrow> nat \<Rightarrow> string" where
  "cacheKey kind i = kind @ ''_'' @ show_nat i"

definition entity_cacheKey :: "entity \<Rightarrow> string" where
  "entity_cacheKey n = EKind n @ ''_'' @ show_nat (EID n)"

definition envCacheKey :: "string \<Rightarrow> string \<Rightarrow> string" where
  "envCacheKey cluster namespace = ''env_'' @ cluster @ ''_'' @ namespace"

definition getKindID :: "entity \<Rightarrow> string \<Rightarrow> nat" where
  "getKindID n k = (if k = EKind n then EID n else 0)"

definition GetTenantID :: "entity \<Rightarrow> nat" where "GetTenantID n = getKindID n ResTenant"
definition GetProjectID :: "entity \<Rightarrow> nat" where "GetProjectID n = getKindID n ResProject"
definition GetEnvironmentID :: "entity \<Rightarrow> nat" where "GetEnvironmentID n = getKindID n ResEnvironment"
definition GetVirtualSpaceID :: "entity \<Rightarrow> nat" where "GetVirtualSpaceID n = getKindID n ResVirtualSpace"

definition new_entity :: "string \<Rightarrow> string \<Rightarrow> nat \<Rightarrow> (string \<times> nat) list \<Rightarrow> entity" where
  "new_entity name kind i owner =
     \<lparr>EName = name, EKind = kind, EID = i, ENamespace = [], ECluster = [], EOwner = owner\<rparr>"

section \<open>The cache\<close>

type_synonym model_cache = "(string, entity) gomap"

definition put_entity :: "entity \<Rightarrow> model_cache \<Rightarrow> model_cache" where
  "put_entity n c = AList.update (entity_cacheKey n) n c"

definition UpsertTenant :: "nat \<Rightarrow> string \<Rightarrow> model_cache \<Rightarrow> model_cache" where
  "UpsertTenant tid name c = put_entity (new_entity name ResTenant tid []) c"

definition UpsertProject :: "nat \<Rightarrow> nat \<Rightarrow> string \<Rightarrow> model_cache \<Rightarrow> model_cache" where
  "UpsertProject tid pid name c = put_entity (new_entity name ResProject pid [(ResTenant, tid)]) c"

definition UpsertEnvironment ::
  "nat \<Rightarrow> nat \<Rightarrow> string \<Rightarrow> string \<Rightarrow> string \<Rightarrow> model_cache \<Rightarrow> model_cache" where
  "UpsertEnvironment pid eid name cluster namespace c =
    (let n = (new_entity name ResEnvironment eid [(ResProject, pid)])\<lparr>ENamespace := namespace, ECluster := cluster\<rparr>
     in AList.update (envCacheKey cluster namespace) n (put_entity n c))"

definition UpsertVirtualSpace :: "nat \<Rightarrow> string \<Rightarrow> model_cache \<Rightarrow> model_cache" where
  "UpsertVirtualSpace vid name c = put_entity (new_entity name ResVirtualSpace vid []) c"

definition DelTenant :: "nat \<Rightarrow> model_cache \<Rightarrow> model_cache" where
  "DelTenant tid c = AList.delete (cacheKey ResTenant tid) c"

definition DelProject :: "nat \<Rightarrow> nat \<Rightarrow> model_cache \<Rightarrow> model_cache" where
  "DelProject tid pid c = AList.delete (cacheKey ResProject pid) c"

definition DelEnvironment :: "nat \<Rightarrow> nat \<Rightarrow> string \<Rightarrow> string \<Rightarrow> model_cache \<Rightarrow> model_cache" where
  "DelEnvironment pid eid cluster namespace c =
     AList.delete (envCacheKey cluster namespace) (AList.delete (cacheKey ResEnvironment eid) c)"

definition DelVirtualSpace :: "nat \<Rightarrow> model_cache \<Rightarrow> model_cache" where
  "DelVirtualSpace vid c = AList.delete (cacheKey ResVirtualSpace vid) c"

definition cache_get :: "string \<Rightarrow> model_cache \<Rightarrow> entity option" where
  "cache_get k c = map_of c k"

definition FindResource :: "string \<Rightarrow> nat \<Rightarrow> model_cache \<Rightarrow> entity option" where
  "FindResource kind i c = cache_get (cacheKey kind i) c"

definition FindEnvironment :: "string \<Rightarrow> string \<Rightarrow> model_cache \<Rightarrow> entity option" where
  "FindEnvironment cluster namespace c = cache_get (envCacheKey cluster namespace) c"

text \<open>
  The walk over the owners, with fuel: a chain of owners that runs into itself would not
  end; \<^const>\<open>None\<close> where the fuel is used up.
\<close>

fun findAllParents :: "nat \<Rightarrow> model_cache \<Rightarrow> string \<Rightarrow> nat \<Rightarrow> entity list option" and
  findOwners :: "nat \<Rightarrow> model_cache \<Rightarrow> (string \<times> nat) list \<Rightarrow> entity list option" where
  "findAllParents 0 c kind i = None"
| "findAllParents (Suc fuel) c kind i =
     (case cache_get (cacheKey kind i) c of
        None \<Rightarrow> Some []
      | Some n \<Rightarrow> map_option (\<lambda>ps. n # ps) (findOwners fuel c (EOwner n)))"
| "findOwners fuel c [] = Some []"
| "findOwners fuel c ((k, i) # os) =
     (case findAllParents fuel c k i of
        None \<Rightarrow> None
      | Some ps \<Rightarrow> map_option (\<lambda>qs. ps @ qs) (findOwners fuel c os))"

definition FindParents :: "nat \<Rightarrow> model_cache \<Rightarrow> string \<Rightarrow> nat \<Rightarrow> entity list option" where
  "FindParents fuel c kind i = map_option rev (findAllParents fuel c kind i)"

text \<open>The rows of the database and the build of the cache from them.\<close>

record db_rows =
  db_tenants :: "(nat \<times> string) list"
  db_projects :: "(nat \<times> nat \<times> string) list"
  db_envs :: "(nat \<times> nat \<times> string \<times> string \<times> string option) list"
  db_vspaces :: "(nat \<times> string) list"

definition BuildCacheIfNotExist :: "db_rows \<Rightarrow> model_cache \<Rightarrow> model_cache" where
  "BuildCacheIfNotExist db old =
    (let c1 = foldl (\<lambda>c (i, n). put_entity (new_entity n ResTenant i []) c) [] (db_tenants db);
         c2 = foldl (\<lambda>c (i, t, n). put_entity (new_entity n ResProject i [(ResTenant, t)]) c) c1 (db_projects db);
         c3 = foldl (\<lambda>c (i, p, n, ns, cl). case cl of None \<Rightarrow> c
                 | Some cluster \<Rightarrow> UpsertEnvironment p i n cluster ns c) c2 (db_envs db);
         c4 = foldl (\<lambda>c (i, n). put_entity (new_entity n ResVirtualSpace i []) c) c3 (db_vspaces db)
     in if c4 = [] then old else c4)"

section \<open>The authority of a user\<close>

record user_resource =
  ur_ID :: int
  ur_Name :: string
  ur_Role :: string
  ur_IsAdmin :: bool

record user_authority =
  SystemRole :: string
  Tenants :: "user_resource list"
  Projects :: "user_resource list"
  Environments :: "user_resource list"
  VirtualSpaces :: "user_resource list"

fun role_in :: "user_resource list \<Rightarrow> nat \<Rightarrow> string" where
  "role_in [] i = []"
| "role_in (r # rs) i = (if int i = ur_ID r then ur_Role r else role_in rs i)"

definition GetResourceRole :: "user_authority \<Rightarrow> string \<Rightarrow> nat \<Rightarrow> string" where
  "GetResourceRole auth kind i =
     (if kind = ResTenant then role_in (Tenants auth) i
      else if kind = ResProject then role_in (Projects auth) i
      else if kind = ResEnvironment then role_in (Environments auth) i
      else if kind = ResVirtualSpace then role_in (VirtualSpaces auth) i
      else [])"

definition IsAnyTenantAdmin :: "user_authority \<Rightarrow> bool" where
  "IsAnyTenantAdmin auth = list_ex (\<lambda>t. ur_Role t = TenantRoleAdmin) (Tenants auth)"

definition IsSystemAdmin :: "user_authority \<Rightarrow> bool" where
  "IsSystemAdmin auth \<longleftrightarrow> SystemRole auth = SystemRoleAdmin"

definition IsTenantAdmin :: "user_authority \<Rightarrow> nat \<Rightarrow> bool" where
  "IsTenantAdmin auth i \<longleftrightarrow> GetResourceRole auth ResTenant i = TenantRoleAdmin"
definition IsTenantMember :: "user_authority \<Rightarrow> nat \<Rightarrow> bool" where
  "IsTenantMember auth i \<longleftrightarrow> GetResourceRole auth ResTenant i = TenantRoleOrdinary"
definition IsProjectAdmin :: "user_authority \<Rightarrow> nat \<Rightarrow> bool" where
  "IsProjectAdmin auth i \<longleftrightarrow> GetResourceRole auth ResProject i = ProjectRoleAdmin"
definition IsProjectDev :: "user_authority \<Rightarrow> nat \<Rightarrow> bool" where
  "IsProjectDev auth i \<longleftrightarrow> GetResourceRole auth ResProject i = ProjectRoleDev"
definition IsProjectTest :: "user_authority \<Rightarrow> nat \<Rightarrow> bool" where
  "IsProjectTest auth i \<longleftrightarrow> GetResourceRole auth ResProject i = ProjectRoleTest"
definition IsProjectOps :: "user_authority \<Rightarrow> nat \<Rightarrow> bool" where
  "IsProjectOps auth i \<longleftrightarrow> GetResourceRole auth ResProject i = ProjectRoleOps"
definition IsEnvironmentOperator :: "user_authority \<Rightarrow> nat \<Rightarrow> bool" where
  "IsEnvironmentOperator auth i \<longleftrightarrow> GetResourceRole auth ResEnvironment i = EnvironmentRoleOperator"
definition IsEnvironmentReader :: "user_authority \<Rightarrow> nat \<Rightarrow> bool" where
  "IsEnvironmentReader auth i \<longleftrightarrow> GetResourceRole auth ResEnvironment i = EnvironmentRoleReader"
definition IsVirtualSpaceAdmin :: "user_authority \<Rightarrow> nat \<Rightarrow> bool" where
  "IsVirtualSpaceAdmin auth i \<longleftrightarrow> GetResourceRole auth ResVirtualSpace i = VirtualSpaceRoleAdmin"
definition IsVirtualSpaceMember :: "user_authority \<Rightarrow> nat \<Rightarrow> bool" where
  "IsVirtualSpaceMember auth i \<longleftrightarrow> GetResourceRole auth ResVirtualSpace i = VirtualSpaceRoleNormal"

text \<open>
  \<open>FlushUserAuthority\<close>: the authority built from the rows of the user's relations
  (id, name, role), and stored under the user's name.
\<close>

definition user_resources :: "string \<Rightarrow> (nat \<times> string \<times> string) list \<Rightarrow> user_resource list" where
  "user_resources admin rows =
     map (\<lambda>(i, n, r). \<lparr>ur_ID = int i, ur_Name = n, ur_Role = r, ur_IsAdmin = (r = admin)\<rparr>) rows"

definition FlushUserAuthority ::
  "string \<Rightarrow> (nat \<times> string \<times> string) list \<Rightarrow> (nat \<times> string \<times> string) list \<Rightarrow> (nat \<times> string \<times> string) list
     \<Rightarrow> (nat \<times> string \<times> string) list \<Rightarrow> user_authority" where
  "FlushUserAuthority sysrole turs purs eurs vurs =
     \<lparr>SystemRole = sysrole,
      Tenants = user_resources TenantRoleAdmin turs,
      Projects = user_resources ProjectRoleAdmin purs,
      Environments = user_resources EnvironmentRoleOperator eurs,
      VirtualSpaces = user_resources VirtualSpaceRoleAdmin vurs\<rparr>"

definition GetUserAuthority :: "user_authority option \<Rightarrow> user_authority \<Rightarrow> user_authority" where
  "GetUserAuthority cached flushed = (case cached of None \<Rightarrow> flushed | Some a \<Rightarrow> a)"

section \<open>Keys\<close>

lemma split_at_first:
  assumes "c \<notin> set a" and "c \<notin> set b"
  shows "a @ c # x = b @ c # y \<longleftrightarrow> a = b \<and> x = y"
  using assms
proof (induction a arbitrary: b)
  case Nil
  then show ?case by (cases b) auto
next
  case (Cons z a)
  then show ?case by (cases b) auto
qed

lemma kind_no_sep:
  "CHR ''_'' \<notin> set ResTenant" "CHR ''_'' \<notin> set ResProject" "CHR ''_'' \<notin> set ResEnvironment"
  "CHR ''_'' \<notin> set ResVirtualSpace"
  by (simp_all add: kind_defs)

lemma kinds_distinct [simp]:
  "ResTenant \<noteq> ResProject" "ResTenant \<noteq> ResEnvironment" "ResTenant \<noteq> ResVirtualSpace"
  "ResProject \<noteq> ResTenant" "ResProject \<noteq> ResEnvironment" "ResProject \<noteq> ResVirtualSpace"
  "ResEnvironment \<noteq> ResTenant" "ResEnvironment \<noteq> ResProject" "ResEnvironment \<noteq> ResVirtualSpace"
  "ResVirtualSpace \<noteq> ResTenant" "ResVirtualSpace \<noteq> ResProject" "ResVirtualSpace \<noteq> ResEnvironment"
  by (simp_all add: kind_defs)

definition is_kind :: "string \<Rightarrow> bool" where
  "is_kind k \<longleftrightarrow> k \<in> {ResTenant, ResProject, ResEnvironment, ResVirtualSpace}"

lemma is_kind_simps [simp]:
  "is_kind ResTenant" "is_kind ResProject" "is_kind ResEnvironment" "is_kind ResVirtualSpace"
  by (simp_all add: is_kind_def)

lemma cacheKey_inj: "is_kind k \<Longrightarrow> is_kind k' \<Longrightarrow> cacheKey k i = cacheKey k' j \<longleftrightarrow> k = k' \<and> i = j"
  using kind_no_sep by (auto simp: cacheKey_def is_kind_def split_at_first show_nat_inj)

lemma envCacheKey_not_cacheKey:
  assumes "is_kind k"
  shows "cacheKey k i \<noteq> envCacheKey c n"
proof
  assume "cacheKey k i = envCacheKey c n"
  then have "take 4 (k @ ''_'' @ show_nat i) = ''env_''" by (simp add: cacheKey_def envCacheKey_def)
  moreover have "k = ''tenant'' \<or> k = ''project'' \<or> k = ''environment'' \<or> k = ''virtualSpace''"
    using assms by (simp add: is_kind_def kind_defs)
  ultimately show False by auto
qed

lemma split_at_last:
  assumes "c \<notin> set a" and "c \<notin> set b"
  shows "x @ c # a = y @ c # b \<longleftrightarrow> x = y \<and> a = b"
proof -
  have "x @ c # a = y @ c # b \<longleftrightarrow> rev a @ c # rev x = rev b @ c # rev y"
    by (metis append_Cons append_assoc rev.simps(2) rev_append rev_rev_ident self_append_conv2)
  then show ?thesis using split_at_first [of c "rev a" "rev b"] assms by auto
qed

lemma envCacheKey_inj:
  "CHR ''_'' \<notin> set n \<Longrightarrow> CHR ''_'' \<notin> set n' \<Longrightarrow> envCacheKey c n = envCacheKey c' n' \<longleftrightarrow> c = c' \<and> n = n'"
  using split_at_last [of "CHR ''_''" n n' "''env_'' @ c" "''env_'' @ c'"]
  by (auto simp: envCacheKey_def)

section \<open>Well-formed caches\<close>

definition shape :: "entity \<Rightarrow> bool" where
  "shape n \<longleftrightarrow>
     EKind n = ResTenant \<and> EOwner n = [] \<or>
     EKind n = ResProject \<and> (\<exists>t. EOwner n = [(ResTenant, t)]) \<or>
     EKind n = ResEnvironment \<and> (\<exists>p. EOwner n = [(ResProject, p)]) \<or>
     EKind n = ResVirtualSpace \<and> EOwner n = []"

definition wf_entry :: "string \<Rightarrow> entity \<Rightarrow> bool" where
  "wf_entry k n \<longleftrightarrow> shape n \<and>
     (k = cacheKey (EKind n) (EID n) \<or>
      EKind n = ResEnvironment \<and> k = envCacheKey (ECluster n) (ENamespace n))"

definition wf_cache :: "model_cache \<Rightarrow> bool" where
  "wf_cache c \<longleftrightarrow> wf_map c \<and> (\<forall>k n. map_of c k = Some n \<longrightarrow> wf_entry k n)"

lemma shape_kind: "shape n \<Longrightarrow> is_kind (EKind n)"
  by (auto simp: shape_def)

lemma wf_update: "wf_cache c \<Longrightarrow> wf_entry k n \<Longrightarrow> wf_cache (AList.update k n c)"
  by (simp add: wf_cache_def)

lemma wf_delete: "wf_cache c \<Longrightarrow> wf_cache (AList.delete k c)"
  by (simp add: wf_cache_def)

lemma wf_put: "wf_cache c \<Longrightarrow> shape n \<Longrightarrow> wf_cache (put_entity n c)"
  by (simp add: put_entity_def wf_update wf_entry_def entity_cacheKey_def cacheKey_def)

lemma wf_UpsertEnvironment: "wf_cache c \<Longrightarrow> wf_cache (UpsertEnvironment p e n cl ns c)"
  unfolding UpsertEnvironment_def Let_def
  by (intro wf_update wf_put) (simp_all add: shape_def wf_entry_def new_entity_def)

text \<open>The operations as data, and the caches they lead to.\<close>

datatype cache_op =
    OpBuild db_rows
  | OpUpsertTenant nat string | OpDelTenant nat
  | OpUpsertProject nat nat string | OpDelProject nat nat
  | OpUpsertEnvironment nat nat string string string | OpDelEnvironment nat nat string string
  | OpUpsertVirtualSpace nat string | OpDelVirtualSpace nat

fun apply_op :: "cache_op \<Rightarrow> model_cache \<Rightarrow> model_cache" where
  "apply_op (OpBuild db) c = BuildCacheIfNotExist db c"
| "apply_op (OpUpsertTenant t n) c = UpsertTenant t n c"
| "apply_op (OpDelTenant t) c = DelTenant t c"
| "apply_op (OpUpsertProject t p n) c = UpsertProject t p n c"
| "apply_op (OpDelProject t p) c = DelProject t p c"
| "apply_op (OpUpsertEnvironment p e n cl ns) c = UpsertEnvironment p e n cl ns c"
| "apply_op (OpDelEnvironment p e cl ns) c = DelEnvironment p e cl ns c"
| "apply_op (OpUpsertVirtualSpace v n) c = UpsertVirtualSpace v n c"
| "apply_op (OpDelVirtualSpace v) c = DelVirtualSpace v c"

definition run_ops :: "cache_op list \<Rightarrow> model_cache" where
  "run_ops ops = foldl (\<lambda>c op. apply_op op c) [] ops"

lemma wf_foldl: "wf_cache c \<Longrightarrow> (\<And>c x. wf_cache c \<Longrightarrow> wf_cache (f c x)) \<Longrightarrow> wf_cache (foldl f c xs)"
  by (induction xs arbitrary: c) auto

lemma shape_new:
  "shape (new_entity n ResTenant i [])" "shape (new_entity n ResProject i [(ResTenant, t)])"
  "shape (new_entity n ResVirtualSpace i [])"
  by (simp_all add: shape_def new_entity_def)

lemma wf_Build: "wf_cache c \<Longrightarrow> wf_cache (BuildCacheIfNotExist db c)"
proof -
  assume c: "wf_cache c"
  have e: "wf_cache []" by (simp add: wf_cache_def)
  show ?thesis
    unfolding BuildCacheIfNotExist_def Let_def using c
    by (auto intro!: wf_foldl e wf_put wf_UpsertEnvironment simp: shape_new split: option.splits prod.splits)
qed

lemma wf_apply_op: "wf_cache c \<Longrightarrow> wf_cache (apply_op op c)"
  by (cases op) (simp_all add: wf_Build UpsertTenant_def UpsertProject_def UpsertVirtualSpace_def wf_put shape_new
      DelTenant_def DelProject_def DelEnvironment_def DelVirtualSpace_def wf_delete wf_UpsertEnvironment)

lemma wf_run_ops: "wf_cache (run_ops ops)"
  unfolding run_ops_def by (rule wf_foldl) (simp_all add: wf_apply_op, simp add: wf_cache_def)

lemma wf_get:
  assumes "wf_cache c" and "is_kind k" and "cache_get (cacheKey k i) c = Some n"
  shows "EKind n = k \<and> EID n = i \<and> shape n"
proof -
  have w: "wf_entry (cacheKey k i) n" using assms by (simp add: wf_cache_def cache_get_def)
  then have s: "shape n" by (simp add: wf_entry_def)
  then show ?thesis
    using w cacheKey_inj [OF assms(2) shape_kind [OF s]] envCacheKey_not_cacheKey [OF assms(2)]
    by (auto simp: wf_entry_def)
qed

text \<open>The chain of owners of a well-formed cache.\<close>

definition chain :: "model_cache \<Rightarrow> nat \<Rightarrow> entity list" where
  "chain c eid =
     (case FindResource ResEnvironment eid c of
        None \<Rightarrow> []
      | Some e \<Rightarrow>
        (case FindResource ResProject (snd (hd (EOwner e))) c of
           None \<Rightarrow> [e]
         | Some p \<Rightarrow>
           (case FindResource ResTenant (snd (hd (EOwner p))) c of None \<Rightarrow> [p, e] | Some t \<Rightarrow> [t, p, e])))"

lemma find_tenant:
  assumes "wf_cache c"
  shows "findAllParents (Suc f) c ResTenant i =
    Some (case FindResource ResTenant i c of None \<Rightarrow> [] | Some t \<Rightarrow> [t])"
  using wf_get [OF assms, of ResTenant i] by (auto simp: FindResource_def shape_def split: option.splits)

lemma find_project:
  assumes "wf_cache c"
  shows "findAllParents (Suc (Suc f)) c ResProject i =
    Some (case FindResource ResProject i c of None \<Rightarrow> []
          | Some p \<Rightarrow> (case FindResource ResTenant (snd (hd (EOwner p))) c of None \<Rightarrow> [p] | Some t \<Rightarrow> [p, t]))"
proof (cases "FindResource ResProject i c")
  case (Some p)
  with wf_get [OF assms, of ResProject i p] obtain t where "EOwner p = [(ResTenant, t)]"
    by (auto simp: FindResource_def shape_def)
  then show ?thesis using Some find_tenant [OF assms, of f t]
    by (auto simp: FindResource_def split: option.splits)
qed (simp add: FindResource_def)

lemma find_environment:
  assumes "wf_cache c"
  shows "findAllParents (Suc (Suc (Suc f))) c ResEnvironment i = Some (rev (chain c i))"
proof (cases "FindResource ResEnvironment i c")
  case (Some e)
  with wf_get [OF assms, of ResEnvironment i e] obtain p where p: "EOwner e = [(ResProject, p)]"
    by (auto simp: FindResource_def shape_def)
  then show ?thesis
    using Some find_project [OF assms, of f p]
    by (simp only: findAllParents.simps FindResource_def option.case findOwners.simps p)
      (auto simp: chain_def FindResource_def p split: option.splits)
qed (simp add: FindResource_def chain_def)

lemma FindParents_environment: "wf_cache c \<Longrightarrow> FindParents (3 + f) c ResEnvironment i = Some (chain c i)"
  using find_environment [of c f i] by (simp add: FindParents_def numeral_3_eq_3)

lemma FindParents_project:
  "wf_cache c \<Longrightarrow> FindParents (3 + f) c ResProject i =
     Some (case FindResource ResProject i c of None \<Rightarrow> []
          | Some p \<Rightarrow> (case FindResource ResTenant (snd (hd (EOwner p))) c of None \<Rightarrow> [p] | Some t \<Rightarrow> [t, p]))"
  using find_project [of c "Suc f" i] by (simp add: FindParents_def numeral_3_eq_3 split: option.splits)

lemma FindParents_single:
  assumes "wf_cache c" and "k = ResTenant \<or> k = ResVirtualSpace"
  shows "FindParents (3 + f) c k i = Some (case FindResource k i c of None \<Rightarrow> [] | Some t \<Rightarrow> [t])"
proof -
  have "EOwner t = []" if "FindResource k i c = Some t" for t
    using wf_get [OF assms(1), of k i t] assms(2) that by (auto simp: FindResource_def shape_def)
  then show ?thesis by (auto simp: FindParents_def numeral_3_eq_3 FindResource_def split: option.splits)
qed

text \<open>What is found under a kind and an id has that kind and that id, and a chain ends with the environment.\<close>

lemma Find_kind:
  assumes "wf_cache c" and "is_kind k" and "FindResource k i c = Some n"
  shows "EKind n = k" "EID n = i" "shape n"
  using wf_get [OF assms(1,2), of i n] assms(3) by (simp_all add: FindResource_def)

lemma chain_shape:
  assumes w: "wf_cache c"
  shows "(chain c i = [] \<longleftrightarrow> FindResource ResEnvironment i c = None) \<and>
    (\<forall>n. FindResource ResEnvironment i c = Some n \<longrightarrow> last (chain c i) = n) \<and>
    map EKind (chain c i) \<in> {[], [ResEnvironment], [ResProject, ResEnvironment],
      [ResTenant, ResProject, ResEnvironment]}"
proof (cases "FindResource ResEnvironment i c")
  case (Some e)
  note e = Some
  show ?thesis
  proof (cases "FindResource ResProject (snd (hd (EOwner e))) c")
    case None
    then have "chain c i = [e]" using e by (simp add: chain_def)
    then show ?thesis using e Find_kind [OF w _ e] by simp
  next
    case (Some q)
    note q = Some
    show ?thesis
    proof (cases "FindResource ResTenant (snd (hd (EOwner q))) c")
      case None
      then have "chain c i = [q, e]" using e q by (simp add: chain_def)
      then show ?thesis using e Find_kind [OF w _ e] Find_kind [OF w _ q] by simp
    next
      case (Some t)
      then have "chain c i = [t, q, e]" using e q by (simp add: chain_def)
      then show ?thesis
        using e Find_kind [OF w _ e] Find_kind [OF w _ q] Find_kind [OF w _ Some] by simp
    qed
  qed
qed (simp add: chain_def)

section \<open>Properties\<close>

text \<open>Finding the parents of a resource ends and is right in every cache the operations can build.
  Whatever sequence of builds, updates and deletions made the cache, a walk of three levels is enough for
  each of the four kinds; the result for an environment is its tenant, its project and itself,
  in that order, cut off above the first owner that is missing; every member has the kind and the
  id it was looked up by, and an empty result means that the resource is not cached.\<close>

theorem FindParents_chain:
  assumes "is_kind k"
  shows "\<exists>ps. FindParents 3 (run_ops ops) k i = Some ps \<and>
     (ps = [] \<longleftrightarrow> FindResource k i (run_ops ops) = None) \<and>
     (\<forall>n. FindResource k i (run_ops ops) = Some n \<longrightarrow> last ps = n \<and> EKind n = k \<and> EID n = i) \<and>
     (k = ResEnvironment \<longrightarrow> map EKind ps \<in>
        {[], [ResEnvironment], [ResProject, ResEnvironment], [ResTenant, ResProject, ResEnvironment]})"
proof -
  let ?c = "run_ops ops"
  note w = wf_run_ops [of ops]
  have gi: "EKind n = k \<and> EID n = i" if "FindResource k i ?c = Some n" for n
    using Find_kind [OF w assms that] by simp
  consider "k = ResEnvironment" | "k = ResProject" | "k = ResTenant \<or> k = ResVirtualSpace"
    using assms by (auto simp: is_kind_def)
  then show ?thesis
  proof cases
    case 1
    then show ?thesis
      using FindParents_environment [OF w, of 0 i] chain_shape [OF w, of i] gi by auto
  next
    case 2
    have F: "FindParents 3 ?c k i = Some (case FindResource k i ?c of None \<Rightarrow> []
          | Some p \<Rightarrow> (case FindResource ResTenant (snd (hd (EOwner p))) ?c of None \<Rightarrow> [p] | Some t \<Rightarrow> [t, p]))"
      using FindParents_project [OF w, of 0 i] by (simp add: 2)
    show ?thesis
    proof (cases "FindResource k i ?c")
      case (Some p)
      then show ?thesis using F gi [OF Some] 2 by (simp split: option.split)
    qed (use F 2 in simp)
  next
    case 3
    have F: "FindParents 3 ?c k i = Some (case FindResource k i ?c of None \<Rightarrow> [] | Some t \<Rightarrow> [t])"
      using FindParents_single [OF w 3, of 0 i] by simp
    show ?thesis
    proof (cases "FindResource k i ?c")
      case (Some t)
      then show ?thesis using F gi [OF Some] 3 by auto
    qed (use F 3 in auto)
  qed
qed

theorem FindParents_chain_witness:
  "\<exists>ps. FindParents 3 (run_ops [OpUpsertTenant 1 ''t'', OpUpsertProject 1 2 ''p'', OpUpsertEnvironment 2 3 ''e'' ''c'' ''n''])
      ResEnvironment 3 = Some ps"
  using FindParents_chain [of ResEnvironment "[OpUpsertTenant 1 ''t'', OpUpsertProject 1 2 ''p'', OpUpsertEnvironment 2 3 ''e'' ''c'' ''n'']" 3]
  by auto

text \<open>The environment of a cluster and a namespace. Storing an environment makes it the one found for its
  cluster and namespace, and deleting it removes it there; as no namespace contains an underscore,
  neither changes what is found for another cluster or namespace, and neither does any
  operation on tenants, projects and virtual spaces. With an underscore in the
  namespace two different pairs can share a key.\<close>

theorem FindEnvironment_upsert:
  assumes "CHR ''_'' \<notin> set ns" and "CHR ''_'' \<notin> set ns'"
  shows "FindEnvironment cl' ns' (UpsertEnvironment p e n cl ns c) =
      (if cl' = cl \<and> ns' = ns
       then Some ((new_entity n ResEnvironment e [(ResProject, p)])\<lparr>ENamespace := ns, ECluster := cl\<rparr>)
       else FindEnvironment cl' ns' c) \<and>
    FindEnvironment cl' ns' (DelEnvironment p e cl ns c) =
      (if cl' = cl \<and> ns' = ns then None else FindEnvironment cl' ns' c) \<and>
    FindEnvironment cl' ns' (UpsertTenant t n c) = FindEnvironment cl' ns' c \<and>
    FindEnvironment cl' ns' (DelTenant t c) = FindEnvironment cl' ns' c \<and>
    FindEnvironment cl' ns' (UpsertProject t p n c) = FindEnvironment cl' ns' c \<and>
    FindEnvironment cl' ns' (DelProject t p c) = FindEnvironment cl' ns' c \<and>
    FindEnvironment cl' ns' (UpsertVirtualSpace t n c) = FindEnvironment cl' ns' c \<and>
    FindEnvironment cl' ns' (DelVirtualSpace t c) = FindEnvironment cl' ns' c \<and>
    envCacheKey ''a'' ''b_c'' = envCacheKey ''a_b'' ''c''"
proof -
  have k: "envCacheKey cl' ns' \<noteq> cacheKey ResTenant j" "envCacheKey cl' ns' \<noteq> cacheKey ResProject j"
    "envCacheKey cl' ns' \<noteq> cacheKey ResEnvironment j" "envCacheKey cl' ns' \<noteq> cacheKey ResVirtualSpace j" for j
    using envCacheKey_not_cacheKey [of _ j cl' ns'] by (metis is_kind_simps)+
  have e: "entity_cacheKey x = cacheKey (EKind x) (EID x)" for x
    by (simp add: entity_cacheKey_def cacheKey_def)
  have clash: "envCacheKey ''a'' ''b_c'' = envCacheKey ''a_b'' ''c''" by (simp add: envCacheKey_def)
  show ?thesis
    using k envCacheKey_inj [OF assms(2,1), of cl' cl] clash
    by (simp add: FindEnvironment_def cache_get_def UpsertEnvironment_def DelEnvironment_def UpsertTenant_def
        DelTenant_def UpsertProject_def DelProject_def UpsertVirtualSpace_def DelVirtualSpace_def
        put_entity_def e new_entity_def Let_def)
qed

theorem FindEnvironment_upsert_witness:
  "FindEnvironment ''c'' ''n'' (UpsertEnvironment 2 3 ''e'' ''c'' ''m'' (UpsertEnvironment 2 4 ''f'' ''c'' ''n'' []))
     \<noteq> None"
proof -
  have n: "CHR ''_'' \<notin> set ''n''" "CHR ''_'' \<notin> set ''m''" by simp_all
  show ?thesis
    using FindEnvironment_upsert [OF n(2,1), of "''c''" 2 3 "''e''" "''c''"]
      FindEnvironment_upsert [OF n(1,1), of "''c''" 2 4 "''f''" "''c''" "[]"]
    by simp
qed

end
