(* ===== verification/Permission.thy ===== *)
theory Permission
  imports Model_Cache Go_Util
begin

text \<open>
  Who may do what: the permission manager of the API server
  (\<open>pkg/service/aaa/authorization/perms.go\<close>) over the model cache.

  A request is what the checks read of it: the user in the context with the authority
  \<open>GetUserAuthority\<close> returns for them, the method, the path and query parameters (absent is
  the empty string) and the namespace of the proxy object, if there is one. A check returns
  what it answers, \<open>Passed\<close> where it lets the request go on. The fuel is that of
  \<^const>\<open>FindParents\<close>, three levels being enough (\<open>FindParents_chain\<close>).
\<close>

section \<open>Decisions\<close>

definition normalActions :: "string list" where
  "normalActions = [''GET'', ''HEAD'', ''OPTIONS'']"

record perm_request =
  rq_user :: "user_authority option"
  rq_method :: string
  rq_params :: "(string, string) gomap"
  rq_query :: "(string, string) gomap"
  rq_proxy :: "string option"

datatype verdict = Passed | Forbidden string | Unauthorized string | NotOK string

definition get_param :: "(string, string) gomap \<Rightarrow> string \<Rightarrow> string" where
  "get_param m k = (case map_of m k of None \<Rightarrow> [] | Some v \<Rightarrow> v)"

text \<open>The loop of \<open>canDo\<close>, the topmost owner first.\<close>

fun canDo_loop :: "user_authority \<Rightarrow> string \<Rightarrow> entity list \<Rightarrow> bool \<times> string" where
  "canDo_loop auth action [] = (False, [])"
| "canDo_loop auth action (res # rest) =
    (if EKind res = ResTenant then
       (let role = GetResourceRole auth (EKind res) (EID res) in
        if role = [] then (False, role)
        else if role = TenantRoleAdmin then (True, role)
        else if ContainStr normalActions action then (True, role)
        else canDo_loop auth action rest)
     else if EKind res = ResProject then
       (let role = GetResourceRole auth (EKind res) (EID res) in
        if role = [] then (False, role)
        else if role = ProjectRoleAdmin \<or> role = ProjectRoleOps then (True, role)
        else if ContainStr normalActions action then (True, role)
        else canDo_loop auth action rest)
     else if EKind res = ResEnvironment then
       (let role = GetResourceRole auth (EKind res) (EID res) in
        if role = [] then (False, role)
        else if role = EnvironmentRoleOperator then (True, role)
        else if ContainStr normalActions action then (True, role)
        else canDo_loop auth action rest)
     else if EKind res = ResVirtualSpace then
       (let role = GetResourceRole auth (EKind res) (EID res) in
        if role = [] then (False, role)
        else if role = VirtualSpaceRoleAdmin then (True, role)
        else if ContainStr normalActions action then (True, role)
        else canDo_loop auth action rest)
     else canDo_loop auth action rest)"

definition canDo ::
  "nat \<Rightarrow> model_cache \<Rightarrow> user_authority \<Rightarrow> string \<Rightarrow> nat \<Rightarrow> string \<Rightarrow> (bool \<times> string) option" where
  "canDo fuel c auth kind pk action =
     map_option (\<lambda>parents. if parents = [] then (True, []) else canDo_loop auth action parents)
       (FindParents fuel c kind pk)"

definition HasEnvPerm ::
  "nat \<Rightarrow> model_cache \<Rightarrow> perm_request \<Rightarrow> string \<Rightarrow> string \<Rightarrow> (bool \<times> string \<times> string) option" where
  "HasEnvPerm fuel c rq cluster namespace =
    (case rq_user rq of
       None \<Rightarrow> Some (False, [], [])
     | Some auth \<Rightarrow>
        if IsSystemAdmin auth then Some (True, [], ''admin'')
        else (case FindEnvironment cluster namespace c of
            None \<Rightarrow> Some (False, [], [])
          | Some env \<Rightarrow>
              map_option (\<lambda>(b, role). (b, EName env, role))
                (canDo fuel c auth (EKind env) (EID env) (rq_method rq))))"

definition HasObjectPerm ::
  "nat \<Rightarrow> model_cache \<Rightarrow> perm_request \<Rightarrow> string \<Rightarrow> nat \<Rightarrow> (bool \<times> string \<times> string) option" where
  "HasObjectPerm fuel c rq kind pk =
    (case rq_user rq of
       None \<Rightarrow> Some (False, [], [])
     | Some auth \<Rightarrow>
        if IsSystemAdmin auth then Some (True, [], ''sysadmin'')
        else (case FindResource kind pk c of
            None \<Rightarrow> Some (False, [], [])
          | Some res \<Rightarrow>
              map_option (\<lambda>(b, role). (b, EName res, role)) (canDo fuel c auth kind pk (rq_method rq))))"

section \<open>The checks\<close>

definition answer :: "string \<Rightarrow> (bool \<times> string \<times> string) option \<Rightarrow> verdict option" where
  "answer what r = map_option (\<lambda>(hasPerm, objname, _).
     if \<not> hasPerm then Forbidden (''you have no permission to operate the '' @ what @ '' '' @ objname) else Passed) r"

definition CheckByClusterNamespace :: "nat \<Rightarrow> model_cache \<Rightarrow> perm_request \<Rightarrow> verdict option" where
  "CheckByClusterNamespace fuel c rq =
    (let cluster = get_param (rq_params rq) ''cluster'';
         namespace = get_param (rq_params rq) ''namespace''
     in if length namespace = 0 then
          (case rq_proxy rq of
             None \<Rightarrow> Some Passed
           | Some ns \<Rightarrow> answer ''environment'' (HasEnvPerm fuel c rq cluster ns))
        else answer ''environment'' (HasEnvPerm fuel c rq cluster namespace))"

definition CheckByEnvironmentID :: "nat \<Rightarrow> model_cache \<Rightarrow> perm_request \<Rightarrow> verdict option" where
  "CheckByEnvironmentID fuel c rq =
     answer ''environment'' (HasObjectPerm fuel c rq ResEnvironment
       (unat (ToUint (get_param (rq_params rq) ''environment_id''))))"

definition CheckByProjectID :: "nat \<Rightarrow> model_cache \<Rightarrow> perm_request \<Rightarrow> verdict option" where
  "CheckByProjectID fuel c rq =
     answer ''project'' (HasObjectPerm fuel c rq ResProject
       (unat (ToUint (get_param (rq_params rq) ''project_id''))))"

definition CheckIsSysADMIN :: "perm_request \<Rightarrow> verdict" where
  "CheckIsSysADMIN rq =
    (case rq_user rq of
       None \<Rightarrow> Unauthorized ''please login first''
     | Some auth \<Rightarrow>
         if \<not> IsSystemAdmin auth then Forbidden ''you have no permission to do this operation'' else Passed)"

definition CheckIsATenantAdmin :: "perm_request \<Rightarrow> verdict" where
  "CheckIsATenantAdmin rq =
    (case rq_user rq of
       None \<Rightarrow> Unauthorized ''please login first''
     | Some auth \<Rightarrow>
         if IsSystemAdmin auth then Passed
         else if list_ex ur_IsAdmin (Tenants auth) then Passed
         else if IsSystemAdmin auth then Passed
         else Forbidden ''you have no permission to do this operation'')"

definition CheckIsVirtualSpaceAdmin :: "perm_request \<Rightarrow> verdict" where
  "CheckIsVirtualSpaceAdmin rq =
    (case rq_user rq of
       None \<Rightarrow> Unauthorized ''please login first''
     | Some auth \<Rightarrow>
         if IsSystemAdmin auth then Passed
         else if list_ex ur_IsAdmin (VirtualSpaces auth) then Passed
         else Forbidden (''you have no permission to do this operation, '' @
                         ''you must be an admin in any virtual space firstly''))"

definition CheckByTenantID :: "nat \<Rightarrow> model_cache \<Rightarrow> perm_request \<Rightarrow> verdict option" where
  "CheckByTenantID fuel c rq =
    (if get_param (rq_params rq) ''tenant_id'' = ''_all'' then Some (CheckIsATenantAdmin rq)
     else answer ''tenant'' (HasObjectPerm fuel c rq ResTenant
       (unat (ToUint (get_param (rq_params rq) ''tenant_id'')))))"

definition CheckByVirtualSpaceID :: "nat \<Rightarrow> model_cache \<Rightarrow> perm_request \<Rightarrow> verdict option" where
  "CheckByVirtualSpaceID fuel c rq =
    (if get_param (rq_params rq) ''virtualspace_id'' = ''_all'' then Some (CheckIsSysADMIN rq)
     else answer ''virtual space'' (HasObjectPerm fuel c rq ResVirtualSpace
       (unat (ToUint (get_param (rq_params rq) ''virtualspace_id'')))))"

fun deploy_loop :: "user_authority \<Rightarrow> entity list \<Rightarrow> verdict" where
  "deploy_loop auth [] = Forbidden ''you have no permission to deploy in the current environment''"
| "deploy_loop auth (p # ps) =
    (if EKind p = ResTenant \<and> IsTenantAdmin auth (GetTenantID p) then Passed
     else if EKind p = ResProject \<and>
       (IsProjectAdmin auth (GetProjectID p) \<or> IsProjectOps auth (GetProjectID p)) then Passed
     else if EKind p = ResEnvironment \<and> IsEnvironmentOperator auth (GetEnvironmentID p) then Passed
     else deploy_loop auth ps)"

definition CheckCanDeployEnvironment :: "nat \<Rightarrow> model_cache \<Rightarrow> perm_request \<Rightarrow> verdict option" where
  "CheckCanDeployEnvironment fuel c rq =
    (case rq_user rq of
       None \<Rightarrow> Some (Forbidden ''please login first'')
     | Some auth \<Rightarrow>
        if IsSystemAdmin auth then Some Passed
        else
        let id0 = ToUint (get_param (rq_params rq) ''environment_id'');
            envid = (if id0 = 0 then ToUint (get_param (rq_query rq) ''environment_id'') else id0)
        in if envid = 0 then CheckByProjectID fuel c rq
           else map_option (\<lambda>parents.
               if parents = []
               then NotOK ''current environment data is abnormal, please contact the administrator''
               else deploy_loop auth parents)
             (FindParents fuel c ResEnvironment (unat envid)))"


section \<open>What the checks mean\<close>

definition role_of :: "user_authority \<Rightarrow> entity \<Rightarrow> string" where
  "role_of auth n = GetResourceRole auth (EKind n) (EID n)"

text \<open>The roles that decide on their level.\<close>

definition strong :: "user_authority \<Rightarrow> entity \<Rightarrow> bool" where
  "strong auth n \<longleftrightarrow>
     EKind n = ResTenant \<and> role_of auth n = TenantRoleAdmin \<or>
     EKind n = ResProject \<and> role_of auth n \<in> {ProjectRoleAdmin, ProjectRoleOps} \<or>
     EKind n = ResEnvironment \<and> role_of auth n = EnvironmentRoleOperator \<or>
     EKind n = ResVirtualSpace \<and> role_of auth n = VirtualSpaceRoleAdmin"

text \<open>Changing something takes a deciding role on some level and membership on all above it.\<close>

fun may_write :: "user_authority \<Rightarrow> entity list \<Rightarrow> bool" where
  "may_write auth [] = False"
| "may_write auth (n # ns) \<longleftrightarrow> role_of auth n \<noteq> [] \<and> (strong auth n \<or> may_write auth ns)"

definition may :: "user_authority \<Rightarrow> string \<Rightarrow> entity list \<Rightarrow> bool" where
  "may auth action ns \<longleftrightarrow>
     (if action \<in> set normalActions then role_of auth (hd ns) \<noteq> [] else may_write auth ns)"

lemma canDo_loop_may:
  assumes "ns \<noteq> []" and "\<And>n. n \<in> set ns \<Longrightarrow> is_kind (EKind n)"
  shows "fst (canDo_loop auth action ns) \<longleftrightarrow> may auth action ns"
proof (cases "action \<in> set normalActions")
  case True
  obtain n r where n: "ns = n # r" using assms(1) by (cases ns) auto
  have "is_kind (EKind n)" using assms(2) n by simp
  then show ?thesis using True n by (auto simp: may_def role_of_def is_kind_def Let_def)
next
  case False
  have "fst (canDo_loop auth action ns) \<longleftrightarrow> may_write auth ns"
    using assms(2)
  proof (induction ns)
    case (Cons n ns)
    have k: "is_kind (EKind n)" using Cons.prems by simp
    have IH: "fst (canDo_loop auth action ns) \<longleftrightarrow> may_write auth ns" using Cons by simp
    show ?case
      using k IH False by (auto simp: strong_def role_of_def is_kind_def Let_def)
  qed simp
  then show ?thesis using False by (simp add: may_def)
qed

lemma strong_simps:
  "EKind n = ResTenant \<Longrightarrow> strong auth n \<longleftrightarrow> role_of auth n = TenantRoleAdmin"
  "EKind n = ResProject \<Longrightarrow> strong auth n \<longleftrightarrow> role_of auth n \<in> {ProjectRoleAdmin, ProjectRoleOps}"
  "EKind n = ResEnvironment \<Longrightarrow> strong auth n \<longleftrightarrow> role_of auth n = EnvironmentRoleOperator"
  "EKind n = ResVirtualSpace \<Longrightarrow> strong auth n \<longleftrightarrow> role_of auth n = VirtualSpaceRoleAdmin"
  by (simp_all add: strong_def)

lemma strong_role: "strong auth n \<Longrightarrow> role_of auth n \<noteq> []"
  by (auto simp: strong_def TenantRoleAdmin_def ProjectRoleAdmin_def ProjectRoleOps_def
      EnvironmentRoleOperator_def VirtualSpaceRoleAdmin_def)

lemma may_write_strong: "may_write auth ns \<Longrightarrow> \<exists>n \<in> set ns. strong auth n"
  by (induction ns) auto

lemma chain_is_kind: "wf_cache c \<Longrightarrow> n \<in> set (chain c i) \<Longrightarrow> is_kind (EKind n) \<and> EKind n \<noteq> ResVirtualSpace"
proof -
  assume w: "wf_cache c" and n: "n \<in> set (chain c i)"
  have "EKind n \<in> set (map EKind (chain c i))" using n by simp
  then show ?thesis using chain_shape [OF w, of i] by auto
qed

lemma canDo_environment:
  assumes "wf_cache c" and "FindResource ResEnvironment i c = Some n"
  shows "\<exists>role. canDo 3 c auth ResEnvironment i action = Some (may auth action (chain c i), role)"
proof -
  have ne: "chain c i \<noteq> []" using chain_shape [OF assms(1), of i] assms(2) by simp
  have "fst (canDo_loop auth action (chain c i)) \<longleftrightarrow> may auth action (chain c i)"
    by (rule canDo_loop_may [OF ne]) (use chain_is_kind [OF assms(1)] in blast)
  then show ?thesis
    using FindParents_environment [OF assms(1), of 0 i] ne
    by (cases "canDo_loop auth action (chain c i)") (simp add: canDo_def)
qed

lemma deploy_loop_strong:
  assumes "\<And>n. n \<in> set ns \<Longrightarrow> EKind n \<noteq> ResVirtualSpace"
  shows "deploy_loop auth ns = Passed \<longleftrightarrow> (\<exists>n \<in> set ns. strong auth n)"
  using assms
proof (induction ns)
  case (Cons n ns)
  have "deploy_loop auth (n # ns) = Passed \<longleftrightarrow> strong auth n \<or> deploy_loop auth ns = Passed"
    using Cons.prems [of n]
    by (auto simp: strong_def role_of_def IsTenantAdmin_def IsProjectAdmin_def IsProjectOps_def
        IsEnvironmentOperator_def GetTenantID_def GetProjectID_def GetEnvironmentID_def getKindID_def)
  then show ?case using Cons by simp
qed simp

section \<open>Properties\<close>

text \<open>C10: Permission on an environment, in every cache the operations can build. The check always
  answers, names the environment, and lets a user who is not a system administrator change
  something exactly if the user has a deciding role (tenant admin, project admin or ops, environment
  operator) on some level and is a member of every level above it; but reading takes only
  membership in the topmost owner known: any member of the tenant may read every environment of
  it, member of the project or not, where the comment sends an ordinary member of the tenant on to
  the project. Without a user, and on an environment that is not cached, it refuses.\<close>

theorem HasObjectPerm_environment:
  assumes "rq_user rq = Some auth" and "\<not> IsSystemAdmin auth"
  shows "(FindResource ResEnvironment i (run_ops ops) = None \<longrightarrow>
      HasObjectPerm 3 (run_ops ops) rq ResEnvironment i = Some (False, [], [])) \<and>
    (\<forall>n. FindResource ResEnvironment i (run_ops ops) = Some n \<longrightarrow>
      (\<exists>b role. HasObjectPerm 3 (run_ops ops) rq ResEnvironment i = Some (b, EName n, role) \<and>
        (rq_method rq \<in> set normalActions \<longrightarrow> (b \<longleftrightarrow> role_of auth (hd (chain (run_ops ops) i)) \<noteq> [])) \<and>
        (rq_method rq \<notin> set normalActions \<longrightarrow> (b \<longleftrightarrow> may_write auth (chain (run_ops ops) i))))) \<and>
    (\<forall>t p n. chain (run_ops ops) i = [t, p, n] \<longrightarrow> rq_method rq = ''GET'' \<longrightarrow>
      IsTenantMember auth (EID t) \<longrightarrow> (\<exists>x. HasObjectPerm 3 (run_ops ops) rq ResEnvironment i = Some (True, x)))"
proof -
  let ?c = "run_ops ops"
  note w = wf_run_ops [of ops]
  have P: "\<exists>role. HasObjectPerm 3 ?c rq ResEnvironment i = Some (may auth (rq_method rq) (chain ?c i), EName n, role)"
    if "FindResource ResEnvironment i ?c = Some n" for n
    using canDo_environment [OF w that, of auth "rq_method rq"] assms that by (auto simp: HasObjectPerm_def)
  have G: "\<exists>x. HasObjectPerm 3 ?c rq ResEnvironment i = Some (True, x)"
    if c: "chain ?c i = [t, p, n]" and m: "rq_method rq = ''GET''" and r: "IsTenantMember auth (EID t)" for t p n
  proof -
    have "FindResource ResEnvironment i ?c \<noteq> None" using chain_shape [OF w, of i] c by auto
    then obtain e where e: "FindResource ResEnvironment i ?c = Some e" by auto
    have "EKind t = ResTenant" using chain_shape [OF w, of i] c by auto
    then have "role_of auth t \<noteq> []" using r by (simp add: IsTenantMember_def role_of_def TenantRoleOrdinary_def)
    then have "may auth (rq_method rq) (chain ?c i)" using c m by (simp add: may_def normalActions_def)
    then show ?thesis using P [OF e] by auto
  qed
  show ?thesis using P G assms by (auto simp: HasObjectPerm_def may_def)
qed


definition ex_ops :: "cache_op list" where
  "ex_ops = [OpUpsertTenant 1 ''t'', OpUpsertProject 1 2 ''p'', OpUpsertEnvironment 2 3 ''e'' ''c'' ''n'']"

definition ex_member :: user_authority where
  "ex_member = FlushUserAuthority [] [(1, ''t'', TenantRoleOrdinary)] [] [(3, ''e'', EnvironmentRoleOperator)] []"

definition ex_request :: "string \<Rightarrow> perm_request" where
  "ex_request method = \<lparr>rq_user = Some ex_member, rq_method = method,
     rq_params = [(''environment_id'', ''3'')], rq_query = [], rq_proxy = None\<rparr>"

lemma ex_member_plain: "rq_user (ex_request m) = Some ex_member" "\<not> IsSystemAdmin ex_member"
  by (simp_all add: ex_request_def ex_member_def IsSystemAdmin_def FlushUserAuthority_def SystemRoleAdmin_def)

lemma ex_chain: "chain (run_ops ex_ops) 3 = [new_entity ''t'' ResTenant 1 [], new_entity ''p'' ResProject 2 [(ResTenant, 1)],
    (new_entity ''e'' ResEnvironment 3 [(ResProject, 2)])\<lparr>ENamespace := ''n'', ECluster := ''c''\<rparr>]"
  by code_simp

theorem HasObjectPerm_environment_witness:
  "\<exists>x. HasObjectPerm 3 (run_ops ex_ops) (ex_request ''GET'') ResEnvironment 3 = Some (True, x)"
proof -
  have "IsTenantMember ex_member 1"
    by (simp add: ex_member_def IsTenantMember_def GetResourceRole_def FlushUserAuthority_def user_resources_def)
  then show ?thesis
    using HasObjectPerm_environment [OF ex_member_plain(1) [of "''GET''"] ex_member_plain(2), of 3 ex_ops] ex_chain
    by (auto simp: ex_request_def new_entity_def)
qed

text \<open>Deploying takes one deciding role on any level. For a request that names an environment by path or query,
  the check lets exactly the system administrators and those users pass who have a deciding role
  on some level of the environment's owners, as its comment lists; an environment that is not
  cached is reported as abnormal. Whoever may change the environment by the object check may deploy; the
  converse fails, since deploying does not ask for membership of the levels above.\<close>

theorem CheckCanDeployEnvironment_iff:
  assumes "rq_user rq = Some auth" and "wid \<noteq> 0"
    and "wid = (if ToUint (get_param (rq_params rq) ''environment_id'') = 0
                then ToUint (get_param (rq_query rq) ''environment_id'')
                else ToUint (get_param (rq_params rq) ''environment_id''))"
  shows "(CheckCanDeployEnvironment 3 (run_ops ops) rq = Some Passed \<longleftrightarrow>
      IsSystemAdmin auth \<or> (\<exists>n \<in> set (chain (run_ops ops) (unat wid)). strong auth n)) \<and>
    (\<not> IsSystemAdmin auth \<longrightarrow> FindResource ResEnvironment (unat wid) (run_ops ops) = None \<longrightarrow>
      CheckCanDeployEnvironment 3 (run_ops ops) rq =
        Some (NotOK ''current environment data is abnormal, please contact the administrator'')) \<and>
    (\<forall>rq' x. rq_user rq' = Some auth \<longrightarrow> rq_method rq' \<notin> set normalActions \<longrightarrow>
      HasObjectPerm 3 (run_ops ops) rq' ResEnvironment (unat wid) = Some (True, x) \<longrightarrow>
      CheckCanDeployEnvironment 3 (run_ops ops) rq = Some Passed)"
proof -
  let ?c = "run_ops ops" and ?i = "unat wid"
  note w = wf_run_ops [of ops]
  have D: "CheckCanDeployEnvironment 3 ?c rq = Some (if chain ?c ?i = []
       then NotOK ''current environment data is abnormal, please contact the administrator''
       else deploy_loop auth (chain ?c ?i))" if "\<not> IsSystemAdmin auth"
    using FindParents_environment [OF w, of 0 ?i] assms that
    by (simp add: CheckCanDeployEnvironment_def Let_def)
  have S: "CheckCanDeployEnvironment 3 ?c rq = Some Passed" if "IsSystemAdmin auth"
    using assms that by (simp add: CheckCanDeployEnvironment_def)
  have L: "deploy_loop auth (chain ?c ?i) = Passed \<longleftrightarrow> (\<exists>n \<in> set (chain ?c ?i). strong auth n)"
    by (rule deploy_loop_strong) (use chain_is_kind [OF w] in blast)
  have iff: "CheckCanDeployEnvironment 3 ?c rq = Some Passed \<longleftrightarrow>
      IsSystemAdmin auth \<or> (\<exists>n \<in> set (chain ?c ?i). strong auth n)"
    using D S L by (cases "IsSystemAdmin auth"; cases "chain ?c ?i = []") auto
  have W: "\<exists>n \<in> set (chain ?c ?i). strong auth n"
    if a: "\<not> IsSystemAdmin auth" "rq_user rq' = Some auth" "rq_method rq' \<notin> set normalActions"
      "HasObjectPerm 3 ?c rq' ResEnvironment ?i = Some (True, x)" for rq' x
  proof -
    obtain n where "FindResource ResEnvironment ?i ?c = Some n"
      using a by (auto simp: HasObjectPerm_def split: option.splits)
    then show ?thesis
      using canDo_environment [OF w, of ?i n auth "rq_method rq'"] a may_write_strong [of auth "chain ?c ?i"]
      by (auto simp: HasObjectPerm_def may_def)
  qed
  show ?thesis using iff D W chain_shape [OF w, of ?i] by auto
qed

theorem CheckCanDeployEnvironment_iff_witness:
  "CheckCanDeployEnvironment 3 (run_ops ex_ops) (ex_request ''POST'') = Some Passed \<and>
   fst (the (HasObjectPerm 3 (run_ops ex_ops) (ex_request ''POST'') ResEnvironment 3)) = False"
proof -
  have i: "ToUint ''3'' = 3" by code_simp
  have w: "(3 :: 64 word) = (if ToUint (get_param (rq_params (ex_request ''POST'')) ''environment_id'') = 0
      then ToUint (get_param (rq_query (ex_request ''POST'')) ''environment_id'')
      else ToUint (get_param (rq_params (ex_request ''POST'')) ''environment_id''))"
    using i by (simp add: ex_request_def get_param_def)
  have u: "unat (3 :: 64 word) = 3" by simp
  have z: "(3 :: 64 word) \<noteq> 0" by simp
  have "strong ex_member ((new_entity ''e'' ResEnvironment 3 [(ResProject, 2)])\<lparr>ENamespace := ''n'', ECluster := ''c''\<rparr>)"
    by code_simp
  then have "\<exists>n \<in> set (chain (run_ops ex_ops) 3). strong ex_member n" by (simp only: ex_chain list.set insert_iff bex_simps) simp
  then have "CheckCanDeployEnvironment 3 (run_ops ex_ops) (ex_request ''POST'') = Some Passed"
    using CheckCanDeployEnvironment_iff [OF ex_member_plain(1) z w, of ex_ops, unfolded u] by blast
  moreover have "fst (the (HasObjectPerm 3 (run_ops ex_ops) (ex_request ''POST'') ResEnvironment 3)) = False"
  proof -
    have f: "FindResource ResEnvironment 3 (run_ops ex_ops) \<noteq> None"
      using chain_shape [OF wf_run_ops, of ex_ops 3] ex_chain by auto
    have "\<not> may_write ex_member (chain (run_ops ex_ops) 3)" unfolding ex_chain by code_simp
    then have "\<not> may ex_member ''POST'' (chain (run_ops ex_ops) 3)" by (simp add: may_def normalActions_def)
    then show ?thesis
      using f canDo_environment [OF wf_run_ops, of 3 ex_ops _ ex_member "''POST''"] ex_member_plain
      by (auto simp: HasObjectPerm_def ex_request_def)
  qed
  ultimately show ?thesis by simp
qed

end
