(* ===== verification/Spec2Isabelle.thy ===== *)
theory Spec2Isabelle
  imports Alert_Sync App_Strategy Mesh_Sync Gateway_Sync Edge_Task Plugin_Manager Msg_Switch Route_Match Tunnel_Server Workflow_Server Auth Permission Tenant_Quota
begin

text \<open>
  A model of the core logic of kubegems, a multi-tenant platform over Kubernetes clusters. Everything
  under \<open>src/\<close> is named by its path below; Go code is modelled function by function, under the names of
  the source, and the root theory holds what spans several components.

  \<^bold>\<open>The program and its parts.\<close> The API server takes a request through the filters of
  \<open>pkg/utils/auth\<close> (who is it, may it, record it), finds the handler in the tree of routes of
  \<open>pkg/utils/route\<close>, checks the permissions of \<open>pkg/service/aaa\<close> against the model cache of
  \<open>pkg/service/models/cache\<close>, hands long work to the workflow engine of \<open>pkg/utils/workflow\<close>, and tells the
  browsers through the switch of \<open>pkg/msgbus\<close>. What an application deploys is kept in git and edited by
  \<open>pkg/apps\<close>. In every cluster a controller (\<open>pkg/controller\<close>) admits
  tenants, environments and quotas by its webhooks and makes the cluster agree with them, and an
  installer (\<open>pkg/installer\<close>) applies the plugins. Clusters out of reach are registered by \<open>pkg/edge/server\<close>, given tasks by \<open>pkg/edge/task\<close> and connected by the tunnel
  of \<open>pkg/edge/tunnel\<close>, which carries connections over a single stream of packets.

  \<^bold>\<open>Conventions.\<close> A Go string is a \<open>string\<close>, a slice a list; a slice that is written by index is
  \<open>xs[i := v]\<close>. A Go map is an association list with distinct keys (\<open>gomap\<close>, \<open>wf_map\<close>): where the code
  ranges over a map the order of the list is the order of that iteration, and since the theorems hold for every
  list they hold for every order. A struct is a \<open>record\<close>, a group of constants or a variant
  a \<open>datatype\<close>; a returned error is \<open>Inl\<close>, or \<open>None\<close> where only its presence is read; a panic is a branch of its own.
  Connection numbers are 64-bit words. Requests to a server are arguments: a predicate \<open>fl\<close> or \<open>fails\<close> says which of them fail, so a
  theorem over every such predicate is about every failure.

  \<^bold>\<open>Theories.\<close>
  \<^item> \<open>Go_Prelude\<close>: strings, maps and \<open>sort.Slice\<close> (the locale \<open>go_sort\<close>), shared by all.
  \<^item> \<open>Route_Section\<close>, \<open>Route_Match\<close>: \<open>pkg/utils/route\<close> (\<open>path.go\<close>, \<open>section.go\<close>, \<open>match.go\<close>,
    \<open>httpmux.go\<close>). Cutting and compiling patterns is characterised by their rendering; the tree refines a
    map from rendered patterns to handlers, is well formed after any registrations, and matches as
    the set of its patterns does, provided that stars stand last.
  \<^item> \<open>Tunnel_Packet\<close>, \<open>Tunnel_Route\<close>, \<open>Tunnel_Conn\<close>, \<open>Tunnel_Server\<close>: \<open>pkg/edge/tunnel\<close>. The route table
    refines a partial map from peers to what is reachable through them; reading from a connection
    delivers the stream; the server is a step relation over configurations
    (tunnels connect, packets are handled in any order, tunnels go), with its invariant by rule induction, two reachable
    failures, and a run that opens a connection from one server to another.
  \<^item> \<open>Workflow_Backend\<close>, \<open>Workflow_Task\<close>, \<open>Workflow_Server\<close>: \<open>pkg/utils/workflow\<close>. The locale \<open>backend\<close> is
    the Go interface with its laws, interpreted by the in-memory backend; a task is finished within a
    computed number of turns.
  \<^item> \<open>Auth\<close>: \<open>pkg/utils/auth\<close>, authentication, wildcard permissions, the white list and what the audit
    log gets to see of a request.
  \<^item> \<open>Model_Cache\<close>, \<open>Permission\<close>: \<open>pkg/service/models/cache\<close> and \<open>pkg/service/aaa/authorization\<close>: the
    owners of a resource and who may read, change and deploy to it.
  \<^item> \<open>Go_Util\<close>, \<open>Resource_List\<close>: \<open>pkg/utils/util.go\<close>, \<open>slice\<close>, \<open>maps\<close>, \<open>resourcequota\<close>,
    \<open>statistics\<close>.
  \<^item> \<open>Tenant_Quota\<close>: the webhooks of \<open>pkg/controller/webhooks\<close> for tenants, environments, namespaces and quotas, and
    the controller that keeps the status of a quota they decide by.
  \<^item> \<open>Api_Store\<close>: the objects of a cluster under their keys, the requests on them, and the locale
    \<open>convergent\<close>: an operation that reaches a good state which it then leaves alone. The theories of the controllers interpret it.
  \<^item> \<open>Net_Policy\<close>, \<open>Environment_Sync\<close>, \<open>Tenant_Sync\<close>: the controllers of \<open>pkg/controller/controllers\<close>, one
    run each: what it settles, that a second run changes nothing, what it leaves behind when requests fail, and what deletion does.
  \<^item> \<open>Mesh_Sync\<close>, \<open>Gateway_Sync\<close>: the remaining controllers of \<open>pkg/controller/controllers\<close> and the webhooks for
    gateways and ingresses. Who shares a virtual space reaches whom, which names a service gets under a virtual domain; a gateway gets the
    ingress controller it asks for, and what the webhooks let through never asks a gateway for a protocol it does not speak.
  \<^item> \<open>Installer_Sync\<close>: \<open>pkg/installer/utils/apply.go\<close>, the difference between the resources a bundle wants
    and those it manages, and their synchronisation.
  \<^item> \<open>Plugin_Values\<close>, \<open>Plugin_Bundle\<close>, \<open>Plugin_Controller\<close>, \<open>Plugin_Manager\<close>: the plugins of \<open>pkg/apis/plugins\<close>
    and \<open>pkg/installer\<close>. Values are trees, merged and compared as the code does it; a bundle is applied natively or by
    helm, whose histories are cut; the controller relies on the locale \<open>bundle_applier\<close>, which both appliers and their
    choice by kind interpret; the manager merges what the repositories offer, installs and finds upgrades.
  \<^item> \<open>Edge_Cluster\<close>, \<open>Edge_Task\<close>: \<open>pkg/edge/server\<close> and \<open>pkg/edge/task\<close>. The phase of a cluster follows the
    events of the route table; a task is applied to the cluster once it is online, with the synchronisation
    of \<open>Installer_Sync\<close>, and removed with what its status still lists.
  \<^item> \<open>Git_Repo\<close>, \<open>App_Store\<close>, \<open>App_Strategy\<close>: \<open>pkg/utils/git\<close> and \<open>pkg/apps/application\<close>. Requests share a worktree;
    what a published commit holds, what of others it keeps, and when it takes back their changes. Alone, a request is a function on the
    files of its application. The files are a store of objects, which satisfies the locale \<open>git_store\<close>: what is written is
    found by the next reader. A canary or blue-green strategy is read back as it was set, and leaves nothing behind when it is given up.
  \<^item> \<open>Alert_Rules\<close>, \<open>Alert_Sync\<close>: the rules for alerts of \<open>pkg/service/handlers/observability\<close>: what a request is completed to, and
    that a rule made from a template reads no other namespace, while a rule in the request's own words may; what a rule becomes in a
    cluster, and that \<open>pkg/worker/task/alertrule_sync.go\<close> reads back there what was written, but for Loki only where its map is not empty
    (\<open>loki_rule_lost\<close>).
  \<^item> \<open>Msg_Switch\<close>: \<open>pkg/msgbus/switcher\<close>, the users of the message bus and who gets a change.

  \<^bold>\<open>Bounds and fuel.\<close> \<open>FindParents\<close> follows owners with fuel three, which is enough as an environment
  has at most three levels (\<open>FindParents_chain\<close>). The turns of the workflow engine are counted by the
  unfinished steps of the task (\<open>submitted_task_finishes\<close>). A commit is pushed at most four times, as the code
  has it (\<open>CommitPushWithRetry_succeeds\<close>). Reading a request body takes more fuel than the body
  is long. Loops over a slice that the loop itself compacts end by the measure of what is left of it; loops over a cyclic
  matcher are \<open>function\<close>s with measures. Quantities of resources are exact integers, as \<open>resource.Quantity\<close>
  has no bound the code reaches.

  \<^bold>\<open>Parameters.\<close> What is not under \<open>src/\<close> is an argument: the block cipher of \<open>Encrypt\<close>, the verifier of
  tokens, the enforcer of \<open>aaa\<close>, the registered functions of workflows, \<open>DeepDerivative\<close> and
  \<open>SetOwnerReference\<close> of the Kubernetes libraries, the merge of a patch by the API server, helm, the renderers and
  downloads of bundles, JSON and YAML texts, semantic versions, certificates, the git server and what others push to it, which image stands for another, the parser of Prometheus, the protocol of a port, the check of a name, random letters. The laws a theorem needs of them are named hypotheses
  (such as \<open>takes_owner\<close> or \<open>server_keeps\<close>), and every such theorem comes with a closed instance.

  \<^bold>\<open>Not modelled.\<close> The handlers of \<open>pkg/service/handlers\<close>, which bind a request, call gorm and answer;
  generated documents and copies (\<open>docs/swagger\<close>, \<open>zz_generated\<close>); the rest of observability,
  whose content is the documents of Prometheus, Loki and istio it assembles; the calls to Argo CD and the database of
  applications, and the listing of their descriptions;
  the agent, the transports and the certificates around the tunnel; the redis backends, whose logic is in
  scripts of the redis server; clients, migrations and commands. The texts of errors, logs and events are left out
  everywhere, and so are metrics and tracing.
\<close>

section \<open>Environments and isolation together\<close>

text \<open>The namespaces the network controller lists are those the environment controller keeps.\<close>

definition namespaces_of :: "env_cluster \<Rightarrow> namespace list" where
  "namespaces_of c = map (\<lambda>(n, ns). (n, no_labels ns)) (ec_namespaces c)"

lemma namespaces_of_at: "map_of (namespaces_of c) n = map_option no_labels (map_of (ec_namespaces c) n)"
proof -
  have "map_of (map (\<lambda>(n, ns). (n, no_labels ns)) xs) n = map_option no_labels (map_of xs n)" for xs
    by (induction xs) auto
  then show ?thesis by (simp add: namespaces_of_def)
qed

lemma namespaces_of_distinct: "wf_map (ec_namespaces c) \<Longrightarrow> distinct (map fst (namespaces_of c))"
  by (simp add: namespaces_of_def comp_def case_prod_unfold)

lemma wf_Reconcile_environment:
  assumes "wf_map (ec_namespaces c)" and "map_of (ec_envs c) name = Some env" and "\<not> eo_deleting env"
  shows "wf_map (ec_namespaces (fst (Reconcile_environment no_faults setref name c)))"
  using assms
  by (simp add: Reconcile_environment_def api_get_def Let_def sync_fields wf_handleNamespace del: map_of_eq_Some_iff)

lemma settled_labels:
  assumes "settled e st"
  shows "\<exists>ns. map_of st (env_namespace e) = Some ns \<and> map_of (no_labels ns) LabelTenant = Some (env_tenant e)"
  using assms by (force simp: settled_def matching_iff env_labels_def)

text \<open>C40: The environment controller and the network controller together: once an environment has been
  reconciled, the run for a policy that isolates its tenant sends one request about its namespace, and the
  policy it carries admits, of the namespaces without the label of plugins, exactly those labelled with the
  tenant: the namespaces of the settled environments of the tenant, and of no other tenant.\<close>

theorem reconciled_environments_isolated:
  assumes "takes_owner setref" and "wf_map (ec_namespaces c)" and "wf_map (eo_annotations env)"
    and "map_of (ec_envs c) name = Some env" and "\<not> eo_deleting env"
    and after: "c' = fst (Reconcile_environment no_faults setref name c)"
    and answers: "answers api (namespaces_of c') nps"
    and tnp: "get_tnp api tn = Found tnp" "\<not> tp_deleting tnp" "pod_cidrs api = Inr cidrs"
    and server: "\<forall>np \<in> set nps. np_version np \<noteq> []" "\<forall>a b. np_version a \<noteq> [] \<longrightarrow> np_version b = [] \<longrightarrow> \<not> deriv a b"
    and spec: "tp_spec tnp = \<lparr>ns_tenant = env_tenant (eo_spec env), ns_isolated = True, ns_projects = [], ns_environments = []\<rparr>"
  shows "\<exists>reqs p. Reconcile_netpol deriv api tn = Some reqs \<and>
    (filter (about (env_namespace (eo_spec env))) reqs = [CreatePolicy p] \<or>
     filter (about (env_namespace (eo_spec env))) reqs = [UpdatePolicy p]) \<and>
    (\<forall>ls. admits p ls \<longleftrightarrow> map_of ls LabelPlugins \<noteq> None \<or> map_of ls LabelTenant = Some (env_tenant (eo_spec env))) \<and>
    (\<forall>e. settled e (ec_namespaces c') \<longrightarrow> (\<exists>ns. map_of (ec_namespaces c') (env_namespace e) = Some ns \<and>
       (map_of (no_labels ns) LabelPlugins = None \<longrightarrow> (admits p (no_labels ns) \<longleftrightarrow> env_tenant e = env_tenant (eo_spec env)))))"
proof -
  let ?e = "eo_spec env"
  have "settled ?e (ec_namespaces c')"
    using handleNamespace_settles [OF assms(1,2), of ?e] assms(4,5)
    by (simp add: after Reconcile_environment_def api_get_def Let_def sync_fields del: map_of_eq_Some_iff)
  from settled_labels [OF this] obtain ns where ns: "map_of (ec_namespaces c') (env_namespace ?e) = Some ns"
    and label: "map_of (no_labels ns) LabelTenant = Some (env_tenant ?e)" by blast
  have at: "map_of (namespaces_of c') (env_namespace ?e) = Some (no_labels ns)"
    unfolding namespaces_of_at ns by simp
  have distinct: "distinct (map fst (namespaces_of c'))"
    unfolding after by (rule namespaces_of_distinct [OF wf_Reconcile_environment [OF assms(2,4,5)]])
  have levels: "level_isolated (tp_spec tnp) (no_labels ns) k \<longleftrightarrow> k = isoKindTenant" for k
    by (cases k) (simp_all add: spec tenant_match_def project_match_def environment_match_def label)
  let ?f = "level_isolated (tp_spec tnp) (no_labels ns)"
  let ?org = "origin_for nps (env_namespace ?e) (no_labels ns) (origin_key (tp_spec tnp) (no_labels ns))"
  let ?p = "policy_with (env_namespace ?e) ''default'' (concat cidrs) (requirements (action_as (no_labels ns) ?org ?f))"
  have "applies (tp_spec tnp) (no_labels ns)"
    by (simp add: applies_def spec tenant_match_def label)
  then obtain reqs where run: "Reconcile_netpol deriv api tn = Some reqs"
    and reqs: "filter (about (env_namespace ?e)) reqs
      = action_request (built deriv (concat cidrs) (env_namespace ?e) (action_as (no_labels ns) ?org ?f))"
    using Reconcile_about [OF tnp, of deriv "env_namespace ?e"] by (auto simp: collect_at [OF answers distinct at])
  have new: "\<not> deriv o' ?p" if "?org = Some o'" for o'
    using by_namespace_Some [OF that [unfolded origin_for_def]] server by auto
  define p where "p = ?p\<lparr>np_labels := labels_Merge [] (GetLabels (no_labels ns) CommonLabels)\<rparr>"
  have req: "filter (about (env_namespace ?e)) reqs = [CreatePolicy p] \<or> filter (about (env_namespace ?e)) reqs = [UpdatePolicy p]"
    unfolding reqs p_def
    by (simp add: requests_at [where deriv = deriv and cidrs = "concat cidrs" and n = "env_namespace ?e"
          and ls = "no_labels ns" and org = ?org and f = ?f, OF new] levels)
  have adm: "\<forall>ls. admits p ls \<longleftrightarrow> map_of ls LabelPlugins \<noteq> None \<or> map_of ls LabelTenant = map_of (no_labels ns) LabelTenant"
    by (simp add: p_def admits_requirements [OF level_has_label] levels)
  have "\<exists>ns. map_of (ec_namespaces c') (env_namespace e) = Some ns \<and>
      (map_of (no_labels ns) LabelPlugins = None \<longrightarrow> (admits p (no_labels ns) \<longleftrightarrow> env_tenant e = env_tenant ?e))"
    if "settled e (ec_namespaces c')" for e
    using settled_labels [OF that] adm label by auto
  then show ?thesis using run req adm label by (intro exI [of _ reqs] exI [of _ p]) auto
qed

text \<open>The environment that moves, of \<open>Environment_Sync\<close>, under a policy that isolates its tenant.\<close>

definition ex_after :: env_cluster where
  "ex_after = fst (Reconcile_environment no_faults ex_setref ''dev'' ex_cluster)"

definition ex_isolating :: tenant_netpol where
  "ex_isolating = ex_tnp\<lparr>tp_spec := \<lparr>ns_tenant = ''t'', ns_isolated = True, ns_projects = [], ns_environments = []\<rparr>\<rparr>"

definition ex_view :: net_api where
  "ex_view = \<lparr>get_tnp = (\<lambda>_. Found ex_isolating), pod_cidrs = Inr [],
     namespaces_with = (\<lambda>k v. filter (\<lambda>(_, ls). map_of ls k = Some v) (namespaces_of ex_after)),
     netpols_with = (\<lambda>k v. [])\<rparr>"

theorem reconciled_environments_isolated_witness:
  "\<exists>reqs p. Reconcile_netpol ex_deriv ex_view ''t'' = Some reqs \<and>
    (filter (about ''new'') reqs = [CreatePolicy p] \<or> filter (about ''new'') reqs = [UpdatePolicy p]) \<and>
    admits p [(LabelTenant, ''t'')] \<and> \<not> admits p [(LabelTenant, ''u'')]"
proof -
  have pre: "wf_map (ec_namespaces ex_cluster)" "wf_map (eo_annotations ex_object)" "\<not> eo_deleting ex_object"
    by (simp_all add: ex_cluster_def ex_object_def)
  have spec: "eo_spec ex_object = ex_spec" "env_tenant ex_spec = ''t''" "env_namespace ex_spec = ''new''"
    by (simp_all add: ex_object_def ex_spec_def)
  have view: "answers ex_view (namespaces_of ex_after) []" "get_tnp ex_view ''t'' = Found ex_isolating"
    "\<not> tp_deleting ex_isolating" "pod_cidrs ex_view = Inr []"
    by (simp_all add: answers_def ex_view_def ex_isolating_def ex_tnp_def)
  have server: "\<forall>np \<in> set []. np_version np \<noteq> []"
    "\<forall>a b. np_version a \<noteq> [] \<longrightarrow> np_version b = [] \<longrightarrow> \<not> ex_deriv a b"
    by (simp_all add: ex_deriv_def)
  have iso: "tp_spec ex_isolating = \<lparr>ns_tenant = env_tenant (eo_spec ex_object), ns_isolated = True, ns_projects = [], ns_environments = []\<rparr>"
    by (simp add: ex_isolating_def spec)
  have plugins: "LabelPlugins \<noteq> LabelTenant" by (simp add: LabelPlugins_def LabelTenant_def)
  show ?thesis
    using reconciled_environments_isolated [OF ex_takes_owner pre(1,2) ex_env pre(3) ex_after_def view server iso] plugins
    unfolding spec by fastforce
qed

end
